(* ===== verification/Raveil_Prelude.thy ===== *)
theory Raveil_Prelude
  imports Main "HOL-Library.Word" "HOL-Library.List_Lexorder" "HOL-Library.Char_ord"
begin

text \<open>
  Shared vocabulary of the development.

  The modelled Python modules exchange JSON trees whose numbers are integers:
  \<open>raveil/fold_evidence.py\<close> refuses every other spelling when it loads a source. A tree is
  a value of type \<open>json\<close>; Python's \<open>bool\<close> and \<open>int\<close> are different constructors, so a test
  \<open>type(x) is int\<close> is a case distinction. A dictionary is an association list in
  insertion order, because the code reads that order (\<open>list(views).index\<close>,
  \<open>views.values()\<close>). Text is a list of 8-bit characters.

  A raised exception is the left injection of a sum. The payload of \<open>ValueError\<close> is the
  constant part of the message. Loops that may raise are \<open>mapM\<close> and \<open>foldM\<close>.
  Python's unbounded integers are \<open>int\<close>; \<open>x >> k\<close> is \<open>drop_bit k x\<close>, \<open>x << k\<close> is
  \<open>push_bit k x\<close> and \<open>x & (2 ** k - 1)\<close> is \<open>take_bit k x\<close>.
\<close>

named_theorems res_simps \<open>unfolding of the error monad\<close>

named_theorems field_simps_mf01 \<open>bit fields of an MF01 instruction word\<close>

section \<open>Results\<close>

datatype py_error =
    ValueError string
  | TypeError
  | KeyError
  | IndexError
  | AttributeError
  | OSError

type_synonym 'a res = "py_error + 'a"

definition rbind :: "'e + 'a \<Rightarrow> ('a \<Rightarrow> 'e + 'b) \<Rightarrow> 'e + 'b" where
  "rbind m f = (case m of Inl e \<Rightarrow> Inl e | Inr x \<Rightarrow> f x)"

lemma rbind_simps [simp]:
  "rbind (Inl e) f = Inl e"
  "rbind (Inr x) f = f x"
  by (simp_all add: rbind_def)

lemma rbind_eq_Inr [res_simps]:
  "rbind m f = Inr y \<longleftrightarrow> (\<exists>x. m = Inr x \<and> f x = Inr y)"
  by (cases m) auto

lemma rbind_eq_Inl [res_simps]:
  "rbind m f = Inl e \<longleftrightarrow> m = Inl e \<or> (\<exists>x. m = Inr x \<and> f x = Inl e)"
  by (cases m) auto

lemma rbind_InrE:
  assumes "rbind m f = Inr y"
  obtains x where "m = Inr x" "f x = Inr y"
  using assms by (cases m) auto

lemma rbind_cong [fundef_cong]:
  "m = m' \<Longrightarrow> (\<And>x. m' = Inr x \<Longrightarrow> f x = f' x) \<Longrightarrow> rbind m f = rbind m' f'"
  by (cases m) auto

lemma rbind_assoc: "rbind (rbind m f) g = rbind m (\<lambda>x. rbind (f x) g)"
  by (cases m) auto

text \<open>\<open>if c: raise e\<close> as the first statement of a block.\<close>

definition reject :: "bool \<Rightarrow> 'e \<Rightarrow> 'e + unit" where
  "reject c e = (if c then Inl e else Inr ())"

lemma reject_eq [simp, res_simps]:
  "reject c e = Inr u \<longleftrightarrow> \<not> c"
  "reject c e = Inl e' \<longleftrightarrow> c \<and> e' = e"
  by (auto simp: reject_def)

lemma if_raise_Inr [simp]:
  "(if c then Inl e else m) = Inr x \<longleftrightarrow> \<not> c \<and> m = Inr x"
  "(if c then m else Inl e) = Inr x \<longleftrightarrow> c \<and> m = Inr x"
  by auto

lemma rbind_reject [simp]:
  "rbind (reject c e) f = (if c then Inl e else f ())"
  by (simp add: reject_def)

fun mapM :: "('x \<Rightarrow> 'err + 'y) \<Rightarrow> 'x list \<Rightarrow> 'err + 'y list" where
  "mapM action [] = Inr []"
| "mapM action (item # items) =
     rbind (action item) (\<lambda>r. rbind (mapM action items) (\<lambda>rs. Inr (r # rs)))"

fun foldM :: "('s \<Rightarrow> 'a \<Rightarrow> 'e + 's) \<Rightarrow> 's \<Rightarrow> 'a list \<Rightarrow> 'e + 's" where
  "foldM f s [] = Inr s"
| "foldM f s (x # xs) = rbind (f s x) (\<lambda>s'. foldM f s' xs)"

lemma mapM_Inr_list_all2:
  "mapM f xs = Inr ys \<longleftrightarrow> list_all2 (\<lambda>x y. f x = Inr y) xs ys"
proof (induction xs arbitrary: ys)
  case (Cons x xs)
  then show ?case
    by (cases ys) (auto simp: res_simps)
qed auto

lemma mapM_Inr_length: "mapM f xs = Inr ys \<Longrightarrow> length ys = length xs"
  by (simp add: mapM_Inr_list_all2 list_all2_lengthD)

lemma mapM_Inr_nth: "mapM f xs = Inr ys \<Longrightarrow> i < length xs \<Longrightarrow> f (xs ! i) = Inr (ys ! i)"
  by (auto simp: mapM_Inr_list_all2 dest: list_all2_nthD)

lemma mapM_eq_map: "(\<And>x. x \<in> set xs \<Longrightarrow> f x = Inr (g x)) \<Longrightarrow> mapM f xs = Inr (map g xs)"
  by (induction xs) auto

lemma mapM_all: "mapM f js = Inr xs \<Longrightarrow> (\<And>j x. f j = Inr x \<Longrightarrow> P x) \<Longrightarrow> \<forall>x \<in> set xs. P x"
  by (induction js arbitrary: xs) (auto simp: res_simps)

lemma mapM_total: "(\<And>x. x \<in> set xs \<Longrightarrow> \<exists>y. f x = Inr y) \<Longrightarrow> \<exists>ys. mapM f xs = Inr ys \<and> length ys = length xs"
proof (induction xs)
  case (Cons x xs)
  obtain y ys where "f x = Inr y" "mapM f xs = Inr ys" "length ys = length xs" using Cons by force
  then show ?case by simp
qed simp

lemma mapM_map: "mapM f (map g xs) = mapM (\<lambda>x. f (g x)) xs"
  by (induction xs) simp_all

lemma mapM_cong [fundef_cong]:
  "xs = ys \<Longrightarrow> (\<And>x. x \<in> set ys \<Longrightarrow> f x = g x) \<Longrightarrow> mapM f xs = mapM g ys"
proof (induction ys arbitrary: xs)
  case (Cons y ys)
  then show ?case by simp
qed simp

lemma foldM_cong [fundef_cong]:
  "xs = ys \<Longrightarrow> s = t \<Longrightarrow> (\<And>x s. x \<in> set ys \<Longrightarrow> f s x = g s x) \<Longrightarrow> foldM f s xs = foldM g t ys"
proof (induction ys arbitrary: xs s t)
  case (Cons y ys)
  then show ?case by (simp cong: rbind_cong)
qed simp

lemma foldM_append: "foldM f s (xs @ ys) = rbind (foldM f s xs) (\<lambda>s'. foldM f s' ys)"
  by (induction xs arbitrary: s) (simp_all add: rbind_assoc)

lemma foldM_invariant:
  assumes "foldM f s xs = Inr t" and "P s"
    and "\<And>s x s'. x \<in> set xs \<Longrightarrow> P s \<Longrightarrow> f s x = Inr s' \<Longrightarrow> P s'"
  shows "P t"
  using assms
proof (induction xs arbitrary: s)
  case (Cons x xs)
  then obtain s' where "f s x = Inr s'" "foldM f s' xs = Inr t"
    by (auto elim: rbind_InrE)
  with Cons show ?case by (metis list.set_intros(1,2))
qed simp

lemma foldM_unit_all:
  "foldM (\<lambda>_. f) () xs = Inr () \<longleftrightarrow> (\<forall>x \<in> set xs. f x = Inr ())"
  by (induction xs) (auto simp: res_simps)

section \<open>Python values\<close>

datatype json =
    JNull
  | JBool bool
  | JInt int
  | JStr string
  | JList "json list"
  | JDict "(string \<times> json) list"

text \<open>\<open>isinstance(x, Sequence)\<close>: a list or a text; the elements of a text are texts.\<close>

fun seq_elems :: "json \<Rightarrow> json list option" where
  "seq_elems (JList xs) = Some xs"
| "seq_elems (JStr s) = Some (map (\<lambda>c. JStr [c]) s)"
| "seq_elems _ = None"

text \<open>
  Type tests that raise \<open>ValueError\<close> with the given message: \<open>type(x) is str\<close> and so on, on
  a field that may be absent.
\<close>

definition want :: "'a option \<Rightarrow> string \<Rightarrow> 'a res" where
  "want x msg = (case x of None \<Rightarrow> Inl (ValueError msg) | Some y \<Rightarrow> Inr y)"

definition want_str :: "json option \<Rightarrow> string \<Rightarrow> string res" where
  "want_str x msg = (case x of Some (JStr s) \<Rightarrow> Inr s | _ \<Rightarrow> Inl (ValueError msg))"

definition want_list :: "json option \<Rightarrow> string \<Rightarrow> json list res" where
  "want_list x msg = (case x of Some (JList s) \<Rightarrow> Inr s | _ \<Rightarrow> Inl (ValueError msg))"

definition want_dict :: "json option \<Rightarrow> string \<Rightarrow> (string \<times> json) list res" where
  "want_dict x msg = (case x of Some (JDict s) \<Rightarrow> Inr s | _ \<Rightarrow> Inl (ValueError msg))"

lemma want_Inr [res_simps]: "want x msg = Inr y \<longleftrightarrow> x = Some y"
  by (auto simp: want_def split: option.splits)

lemma want_str_Inr [res_simps]: "want_str x msg = Inr y \<longleftrightarrow> x = Some (JStr y)"
  by (auto simp: want_str_def split: option.splits json.splits)

lemma want_list_Inr [res_simps]: "want_list x msg = Inr y \<longleftrightarrow> x = Some (JList y)"
  by (auto simp: want_list_def split: option.splits json.splits)

lemma want_dict_Inr [res_simps]: "want_dict x msg = Inr y \<longleftrightarrow> x = Some (JDict y)"
  by (auto simp: want_dict_def split: option.splits json.splits)

text \<open>A \<open>ValueError\<close> is the only failure of the type tests.\<close>

definition value_error :: "'a res \<Rightarrow> bool" where
  "value_error m \<longleftrightarrow> (case m of Inl (ValueError _) \<Rightarrow> True | Inl _ \<Rightarrow> False | Inr _ \<Rightarrow> True)"

lemma value_error_simps [simp]:
  "value_error (Inr x)"
  "value_error (Inl (ValueError msg))"
  "value_error (want a msg)"
  "value_error (want_str j msg)"
  "value_error (want_list j msg)"
  "value_error (want_dict j msg)"
  "value_error (reject c (ValueError msg))"
  by (auto simp: value_error_def want_def want_str_def want_list_def want_dict_def reject_def
      split: option.splits json.splits)

lemma value_error_rbind:
  "value_error m \<Longrightarrow> (\<And>x. m = Inr x \<Longrightarrow> value_error (f x)) \<Longrightarrow> value_error (rbind m f)"
  by (cases m) (auto simp: value_error_def)

lemma value_error_mapM: "(\<And>x. x \<in> set xs \<Longrightarrow> value_error (f x)) \<Longrightarrow> value_error (mapM f xs)"
  by (induction xs) (auto intro!: value_error_rbind)

lemma value_error_foldM:
  "(\<And>s x. x \<in> set xs \<Longrightarrow> value_error (f s x)) \<Longrightarrow> value_error (foldM f s xs)"
  by (induction xs arbitrary: s) (auto intro!: value_error_rbind)

lemma value_error_if: "(c \<Longrightarrow> value_error m) \<Longrightarrow> (\<not> c \<Longrightarrow> value_error m') \<Longrightarrow> value_error (if c then m else m')"
  by simp

lemmas value_error_intros = value_error_rbind value_error_mapM value_error_foldM value_error_if

text \<open>Reading an integer that an earlier check of the same code has established.\<close>

fun jint :: "json \<Rightarrow> int" where
  "jint (JInt n) = n"
| "jint _ = 0"

definition keys :: "(string \<times> json) list \<Rightarrow> string set" where
  "keys d = fst ` set d"

text \<open>\<open>d[k]\<close> on a dictionary.\<close>

definition dget :: "(string \<times> 'a) list \<Rightarrow> string \<Rightarrow> 'a res" where
  "dget d k = (case map_of d k of None \<Rightarrow> Inl KeyError | Some v \<Rightarrow> Inr v)"

lemma dget_Inr [res_simps]: "dget d k = Inr v \<longleftrightarrow> map_of d k = Some v"
  by (auto simp: dget_def split: option.splits)

lemma keys_code [code, simp]: "keys d = set (map fst d)"
  by (simp add: keys_def)

definition mget :: "('k \<rightharpoonup> 'v) \<Rightarrow> 'k \<Rightarrow> 'v res" where
  "mget m k = (case m k of None \<Rightarrow> Inl KeyError | Some v \<Rightarrow> Inr v)"

lemma mget_Inr [res_simps]: "mget m k = Inr v \<longleftrightarrow> m k = Some v"
  by (auto simp: mget_def split: option.splits)

lemma mget_Some [simp]: "m k = Some v \<Longrightarrow> mget m k = Inr v"
  by (simp add: mget_def)

text \<open>\<open>xs[i]\<close> on a list: a negative index counts from the end.\<close>

definition py_nth :: "'a list \<Rightarrow> int \<Rightarrow> 'a res" where
  "py_nth items i =
     (if 0 \<le> i \<and> i < int (length items) then Inr (items ! nat i)
      else if i < 0 \<and> 0 \<le> int (length items) + i then Inr (items ! nat (int (length items) + i))
      else Inl IndexError)"

lemma py_nth_inside [simp]:
  "0 \<le> i \<Longrightarrow> i < int (length xs) \<Longrightarrow> py_nth xs i = Inr (xs ! nat i)"
  by (simp add: py_nth_def)

section \<open>Decimal names\<close>

definition digit_char :: "nat \<Rightarrow> char" where
  "digit_char d = char_of (48 + d)"

fun str_nat :: "nat \<Rightarrow> string" where
  "str_nat n = (if n < 10 then [digit_char n] else str_nat (n div 10) @ [digit_char (n mod 10)])"

declare str_nat.simps [simp del]

text \<open>\<open>f'{n:0wd}'\<close>\<close>

definition zfill :: "nat \<Rightarrow> nat \<Rightarrow> string" where
  "zfill w n = replicate (w - length (str_nat n)) CHR ''0'' @ str_nat n"

definition char_digit :: "char \<Rightarrow> nat" where
  "char_digit c = of_char c - 48"

definition nat_str :: "string \<Rightarrow> nat" where
  "nat_str s = foldl (\<lambda>a c. 10 * a + char_digit c) 0 s"

lemma char_digit_char: "d < 10 \<Longrightarrow> char_digit (digit_char d) = d"
  by (simp add: char_digit_def digit_char_def)

lemma nat_str_str_nat [simp]: "nat_str (str_nat n) = n"
proof (induction n rule: str_nat.induct)
  case (1 n)
  show ?case
  proof (cases "n < 10")
    case True
    then show ?thesis
      by (subst str_nat.simps) (simp add: nat_str_def char_digit_char)
  next
    case False
    then have "nat_str (str_nat (n div 10)) = n div 10"
      by (rule 1)
    then have "foldl (\<lambda>a c. 10 * a + char_digit c) 0 (str_nat (n div 10)) = n div 10"
      by (simp add: nat_str_def)
    then show ?thesis using False
      by (subst str_nat.simps) (simp add: nat_str_def char_digit_char)
  qed
qed

lemma str_nat_inject [simp]: "str_nat m = str_nat n \<longleftrightarrow> m = n"
  by (metis nat_str_str_nat)

lemma nat_str_zeros: "nat_str (replicate k CHR ''0'' @ s) = nat_str s"
proof -
  have "foldl (\<lambda>a c. 10 * a + char_digit c) 0 (replicate k CHR ''0'') = 0"
    by (induction k) (simp_all add: char_digit_def replicate_append_same [symmetric])
  then show ?thesis by (simp add: nat_str_def)
qed

lemma zfill_inject [simp]: "zfill w m = zfill w n \<longleftrightarrow> m = n"
  by (metis zfill_def nat_str_zeros nat_str_str_nat)

section \<open>Lists in row-major order\<close>

text \<open>The list comprehension \<open>[f(r, c) for r in range(h) for c in range(w)]\<close>.\<close>

definition grid_list :: "nat \<Rightarrow> nat \<Rightarrow> (nat \<Rightarrow> nat \<Rightarrow> 'a) \<Rightarrow> 'a list" where
  "grid_list h w f = concat (map (\<lambda>r. map (f r) [0..<w]) [0..<h])"

lemma length_grid_list [simp]: "length (grid_list h w f) = h * w"
  by (simp add: grid_list_def length_concat comp_def sum_list_triv)

lemma nth_grid_list:
  assumes "r < h" "c < w"
  shows "grid_list h w f ! (r * w + c) = f r c"
  using assms(1)
proof (induction h)
  case (Suc h)
  have split: "grid_list (Suc h) w f = grid_list h w f @ map (f h) [0..<w]"
    by (simp add: grid_list_def)
  show ?case
  proof (cases "r < h")
    case True
    then have "r * w + c < h * w"
      using assms(2) by (metis add_less_mono1 mult_Suc less_le_trans add.commute mult_le_mono1 Suc_leI)
    with True Suc show ?thesis by (simp add: split nth_append)
  next
    case False
    with Suc.prems have "r = h" by simp
    with assms(2) show ?thesis by (simp add: split nth_append)
  qed
qed simp

lemma grid_list_cong:
  "(\<And>r c. r < h \<Longrightarrow> c < w \<Longrightarrow> f r c = g r c) \<Longrightarrow> grid_list h w f = grid_list h w g"
  by (auto simp: grid_list_def intro!: arg_cong [where f = concat])

lemma grid_index_less: "r < h \<Longrightarrow> c < w \<Longrightarrow> r * w + c < h * (w :: nat)"
  by (metis add_less_mono1 mult_Suc less_le_trans add.commute mult_le_mono1 Suc_leI)

lemma set_grid_list: "x \<in> set (grid_list h w f) \<longleftrightarrow> (\<exists>r < h. \<exists>c < w. x = f r c)"
  by (fastforce simp: grid_list_def)

end
