(* ===== verification/Mf01_Nodes.thy ===== *)
theory Mf01_Nodes
  imports Raveil_Prelude
begin

text \<open>
  SSA nodes of an MF01 map program. The dictionaries \<open>{"id", "op", "view"}\<close>,
  \<open>{"id", "op", "args"}\<close> and \<open>{"id", "op", "args", "imm"}\<close> of the region, grid and array
  sources become the record \<open>node\<close> once their fields have been checked; \<open>apply_op\<close> is the
  word each operation computes before it is masked to 32 bits, the chain of comparisons on
  \<open>op\<close> that \<open>affine_fold.reference\<close>, \<open>mf01_grid.reference\<close> and \<open>array_program.reference\<close>
  share.
\<close>

definition MASK :: int where
  "MASK = 2 ^ 32 - 1"

datatype mf_op = OpLoad | OpAdd | OpMul | OpMax | OpMaxI32 | OpReluI32 | OpAddImm | OpGeImm

record node =
  nid :: string
  nop :: mf_op
  nargs :: "string list"
  nview :: string
  nimm :: int

definition has_imm :: "mf_op \<Rightarrow> bool" where
  "has_imm o' \<longleftrightarrow> o' = OpAddImm \<or> o' = OpGeImm"

fun op_name :: "mf_op \<Rightarrow> string" where
  "op_name OpLoad = ''load''"
| "op_name OpAdd = ''add''"
| "op_name OpMul = ''mul''"
| "op_name OpMax = ''max''"
| "op_name OpMaxI32 = ''max_i32''"
| "op_name OpReluI32 = ''relu_i32''"
| "op_name OpAddImm = ''add_imm''"
| "op_name OpGeImm = ''ge_imm''"

fun arity :: "mf_op \<Rightarrow> nat" where
  "arity OpLoad = 0"
| "arity OpAdd = 2"
| "arity OpMul = 2"
| "arity OpMax = 2"
| "arity OpMaxI32 = 2"
| "arity OpReluI32 = 1"
| "arity OpAddImm = 1"
| "arity OpGeImm = 1"

text \<open>The dictionary of a node, with the fields its operation has.\<close>

definition node_json :: "node \<Rightarrow> json" where
  "node_json n = JDict ([(''id'', JStr (nid n)), (''op'', JStr (op_name (nop n)))] @
     (if nop n = OpLoad then [(''view'', JStr (nview n))]
      else [(''args'', JList (map JStr (nargs n)))] @
           (if has_imm (nop n) then [(''imm'', JInt (nimm n))] else [])))"

text \<open>\<open>a if a < 0x80000000 else a - 0x100000000\<close>\<close>

definition signed32 :: "int \<Rightarrow> int" where
  "signed32 a = (if a < 2 ^ 31 then a else a - 2 ^ 32)"

fun apply_op :: "mf_op \<Rightarrow> int \<Rightarrow> int list \<Rightarrow> int \<Rightarrow> int" where
  "apply_op OpLoad imm args loaded = loaded"
| "apply_op OpAdd imm args loaded = args ! 0 + args ! 1"
| "apply_op OpMul imm args loaded = args ! 0 * args ! 1"
| "apply_op OpMax imm args loaded = max (args ! 0) (args ! 1)"
| "apply_op OpMaxI32 imm args loaded = max (signed32 (args ! 0)) (signed32 (args ! 1))"
| "apply_op OpReluI32 imm args loaded = max 0 (signed32 (args ! 0))"
| "apply_op OpAddImm imm args loaded = args ! 0 + imm"
| "apply_op OpGeImm imm args loaded = (if args ! 0 \<ge> imm then 1 else 0)"

text \<open>
  One pass over the nodes in order: \<open>args = [values[x] for x in node["args"]]\<close>, then
  \<open>values[node["id"]] = word & MASK\<close>. A load asks \<open>load\<close> for the word of its view.
\<close>

definition eval_node :: "(string \<Rightarrow> int res) \<Rightarrow> (string \<rightharpoonup> int) \<Rightarrow> node \<Rightarrow> (string \<rightharpoonup> int) res" where
  "eval_node load values n =
     rbind (mapM (mget values) (nargs n)) (\<lambda>args.
     rbind (if nop n = OpLoad then load (nview n) else Inr 0) (\<lambda>loaded.
     Inr (values(nid n \<mapsto> take_bit 32 (apply_op (nop n) (nimm n) args loaded)))))"

definition eval_nodes :: "(string \<Rightarrow> int res) \<Rightarrow> node list \<Rightarrow> string \<Rightarrow> int res" where
  "eval_nodes load nodes result =
     rbind (foldM (eval_node load) Map.empty nodes) (\<lambda>values. mget values result)"

section \<open>Dependency-ordered programs\<close>

text \<open>
  What every checker of the sources establishes before it uses the nodes: identifiers are
  fresh, operands are earlier identifiers, arities match.
\<close>

definition node_ok :: "string set \<Rightarrow> node \<Rightarrow> bool" where
  "node_ok seen n \<longleftrightarrow> nid n \<notin> seen \<and> set (nargs n) \<subseteq> seen \<and> length (nargs n) = arity (nop n)
     \<and> (has_imm (nop n) \<longrightarrow> 0 \<le> nimm n \<and> nimm n < 2 ^ 22)"

fun nodes_ok :: "string set \<Rightarrow> node list \<Rightarrow> bool" where
  "nodes_ok seen [] \<longleftrightarrow> True"
| "nodes_ok seen (n # ns) \<longleftrightarrow> node_ok seen n \<and> nodes_ok (insert (nid n) seen) ns"

definition words_map :: "(string \<rightharpoonup> int) \<Rightarrow> bool" where
  "words_map m \<longleftrightarrow> (\<forall>x v. m x = Some v \<longrightarrow> 0 \<le> v \<and> v < 2 ^ 32)"

lemma words_map_empty [simp]: "words_map Map.empty"
  by (simp add: words_map_def)

lemma words_map_upd [simp]:
  "words_map m \<Longrightarrow> words_map (m(x \<mapsto> take_bit 32 v))"
  by (simp add: words_map_def take_bit_eq_mod)

lemma nodes_ok_append:
  "nodes_ok seen (xs @ ys) \<longleftrightarrow> nodes_ok seen xs \<and> nodes_ok (seen \<union> nid ` set xs) ys"
proof (induction xs arbitrary: seen)
  case (Cons x xs)
  then show ?case by (simp add: insert_commute Un_commute)
qed simp

lemma mapM_mget_the:
  "set xs \<subseteq> dom m \<Longrightarrow> mapM (mget m) xs = Inr (map (\<lambda>x. the (m x)) xs)"
  by (rule mapM_eq_map) (auto simp: mget_def)

lemma eval_node_total:
  assumes "node_ok (dom m) n" and "\<And>v. nop n = OpLoad \<Longrightarrow> \<exists>w. load (nview n) = Inr w"
  shows "\<exists>w. eval_node load m n = Inr (m(nid n \<mapsto> take_bit 32 w))"
proof -
  obtain l where l: "(if nop n = OpLoad then load (nview n) else Inr 0) = Inr l"
    using assms(2) by (cases "nop n = OpLoad") auto
  have "mapM (mget m) (nargs n) = Inr (map (\<lambda>x. the (m x)) (nargs n))"
    using assms(1) by (intro mapM_mget_the) (simp add: node_ok_def)
  with l show ?thesis
    by (simp add: eval_node_def) blast
qed

lemma eval_node_words:
  "eval_node load m n = Inr m' \<Longrightarrow> words_map m \<Longrightarrow> words_map m'"
  unfolding eval_node_def by (elim rbind_InrE) (metis Inr_inject words_map_upd)

text \<open>An ordered program whose loads all answer evaluates to a 32-bit word.\<close>

lemma foldM_eval_total:
  assumes "nodes_ok (dom m) ns" and "words_map m"
    and "\<And>n. n \<in> set ns \<Longrightarrow> nop n = OpLoad \<Longrightarrow> \<exists>w. load (nview n) = Inr w"
  shows "\<exists>m'. foldM (eval_node load) m ns = Inr m' \<and> dom m' = dom m \<union> nid ` set ns \<and> words_map m'"
  using assms
proof (induction ns arbitrary: m)
  case (Cons n ns)
  obtain w where w: "eval_node load m n = Inr (m(nid n \<mapsto> take_bit 32 w))"
    using eval_node_total [of m n load] Cons.prems by auto
  have "nodes_ok (dom (m(nid n \<mapsto> take_bit 32 w))) ns" "words_map (m(nid n \<mapsto> take_bit 32 w))"
    using Cons.prems by simp_all
  moreover have "\<And>n'. n' \<in> set ns \<Longrightarrow> nop n' = OpLoad \<Longrightarrow> \<exists>w. load (nview n') = Inr w"
    using Cons.prems(3) by simp
  ultimately obtain m' where
    "foldM (eval_node load) (m(nid n \<mapsto> take_bit 32 w)) ns = Inr m'"
    "dom m' = dom (m(nid n \<mapsto> take_bit 32 w)) \<union> nid ` set ns" "words_map m'"
    using Cons.IH by blast
  with w show ?case by simp
qed simp

lemma eval_nodes_total:
  assumes "nodes_ok {} ns" and "result \<in> nid ` set ns"
    and "\<And>n. n \<in> set ns \<Longrightarrow> nop n = OpLoad \<Longrightarrow> \<exists>w. load (nview n) = Inr w"
  shows "\<exists>w. eval_nodes load ns result = Inr w \<and> 0 \<le> w \<and> w < 2 ^ 32"
proof -
  obtain m' where m': "foldM (eval_node load) Map.empty ns = Inr m'"
    "dom m' = nid ` set ns" "words_map m'"
    using foldM_eval_total [of Map.empty ns load] assms(1,3) by auto
  then obtain w where "m' result = Some w" using assms(2) by auto
  with m' show ?thesis by (auto simp: eval_nodes_def words_map_def)
qed

lemma eval_nodes_word:
  assumes "eval_nodes load ns result = Inr w"
  shows "0 \<le> w \<and> w < 2 ^ 32"
proof -
  obtain m' where m': "foldM (eval_node load) Map.empty ns = Inr m'" "m' result = Some w"
    using assms by (auto simp: eval_nodes_def res_simps)
  have "words_map m'"
    using m'(1) by (rule foldM_invariant) (auto intro: eval_node_words)
  with m'(2) show ?thesis by (simp add: words_map_def)
qed

lemma foldM_eval_cong:
  assumes "\<And>n. n \<in> set ns \<Longrightarrow> nop n = OpLoad \<Longrightarrow> load (nview n) = load' (nview n)"
  shows "foldM (eval_node load) m ns = foldM (eval_node load') m ns"
  using assms by (intro foldM_cong) (auto simp: eval_node_def)

lemma eval_nodes_cong:
  assumes "\<And>n. n \<in> set ns \<Longrightarrow> nop n = OpLoad \<Longrightarrow> load (nview n) = load' (nview n)"
  shows "eval_nodes load ns result = eval_nodes load' ns result"
  unfolding eval_nodes_def by (subst foldM_eval_cong [where load' = load']) (simp_all add: assms)

end
