(* ===== verification/Affine_Fold.thy ===== *)
theory Affine_Fold
  imports Mf01_Nodes
begin

unbundle bit_operations_syntax

text \<open>
  \<open>raveil/affine_fold.py\<close>: the admission check of a 65-word configuration, the compiler
  from an SSA region to a configuration (linear-scan allocation of eight registers) and the
  SSA interpreter. A region dictionary is decoded into the record \<open>region\<close> by the very
  checks the compiler makes; fields that only the final configuration check looks at stay
  JSON values until then.
\<close>

definition MAGIC :: int where
  "MAGIC = 0x4D463031"

definition int_in :: "json \<Rightarrow> int \<Rightarrow> int \<Rightarrow> int res" where
  "int_in x low high = (case x of
     JInt n \<Rightarrow> if low \<le> n \<and> n \<le> high then Inr n else Inl (ValueError ''expected integer in'')
   | _ \<Rightarrow> Inl (ValueError ''expected integer in''))"

section \<open>The configuration check\<close>

text \<open>The fields of an instruction word: \<open>w >> 28\<close>, \<open>(w >> 25) & 7\<close>, \<open>(w >> 22) & 7\<close>, \<open>(w >> 19) & 7\<close>.\<close>

definition f_op :: "int \<Rightarrow> int" where "f_op w = drop_bit 28 w"
definition f_d :: "int \<Rightarrow> int" where "f_d w = take_bit 3 (drop_bit 25 w)"
definition f_a :: "int \<Rightarrow> int" where "f_a w = take_bit 3 (drop_bit 22 w)"
definition f_b :: "int \<Rightarrow> int" where "f_b w = take_bit 3 (drop_bit 19 w)"

definition check_header :: "int list \<Rightarrow> unit res" where
  "check_header c =
     rbind (int_in (JInt (c ! 1)) 1 16) (\<lambda>_.
     rbind (int_in (JInt (c ! 2)) 1 16) (\<lambda>_.
     rbind (int_in (JInt (c ! 3)) 1 64) (\<lambda>_.
     rbind (int_in (JInt (c ! 4)) 0 1) (\<lambda>_.
     rbind (int_in (JInt (c ! 5)) 0 324) (\<lambda>_.
     rbind (int_in (JInt (c ! 6)) 0 324) (\<lambda>_.
     rbind (int_in (JInt (c ! 7)) 1 8) (\<lambda>_.
     rbind (int_in (JInt (c ! 8)) 2 16) (\<lambda>_. Inr ()))))))))"

definition check_view :: "int list \<Rightarrow> nat \<Rightarrow> unit res" where
  "check_view c v =
     (let b = c ! (9 + 5 * v); base = c ! (10 + 5 * v); si = c ! (11 + 5 * v);
          sj = c ! (12 + 5 * v); sk = c ! (13 + 5 * v)
      in if int v \<ge> c ! 7
         then reject (b \<noteq> 0 \<or> base \<noteq> 0 \<or> si \<noteq> 0 \<or> sj \<noteq> 0 \<or> sk \<noteq> 0) (ValueError ''nonzero unused view'')
         else rbind (int_in (JInt b) 0 1) (\<lambda>_.
              rbind (int_in (JInt base) 0 323) (\<lambda>_.
              rbind (int_in (JInt si) 0 323) (\<lambda>_.
              rbind (int_in (JInt sj) 0 323) (\<lambda>_.
              rbind (int_in (JInt sk) 0 323) (\<lambda>_.
              reject (base + si * (c ! 1 - 1) + sj * (c ! 2 - 1) + sk * (c ! 3 - 1)
                        \<ge> (if b = 0 then c ! 5 else c ! 6))
                (ValueError ''affine view exceeds input extent'')))))))"

definition check_instr :: "int \<Rightarrow> int \<Rightarrow> nat \<Rightarrow> int \<Rightarrow> int set \<Rightarrow> int set res" where
  "check_instr nv ni pc w defined =
     (if int pc \<ge> ni then
        (if w \<noteq> 0 then Inl (ValueError ''nonzero unused instruction'') else Inr defined)
      else if int pc = ni - 1 then
        (if f_op w \<noteq> 3 \<or> f_d w \<noteq> 0 \<or> take_bit 22 w \<noteq> 0 \<or> f_a w \<notin> defined
         then Inl (ValueError ''final instruction must yield a defined value'') else Inr defined)
      else if f_op w = 1 then
        (if f_a w \<ge> nv \<or> take_bit 22 w \<noteq> 0 then Inl (ValueError ''invalid load'')
         else Inr (insert (f_d w) defined))
      else if f_op w \<in> {2, 4, 5} then
        (if f_a w \<notin> defined \<or> f_b w \<notin> defined \<or> take_bit 19 w \<noteq> 0
         then Inl (ValueError ''invalid binary operation'') else Inr (insert (f_d w) defined))
      else if f_op w \<in> {6, 7} then
        (if f_a w \<notin> defined then Inl (ValueError ''undefined operand'')
         else Inr (insert (f_d w) defined))
      else Inl (ValueError ''unsupported instruction''))"

definition check_code :: "int list \<Rightarrow> int set res" where
  "check_code c =
     foldM (\<lambda>defined pc. check_instr (c ! 7) (c ! 8) pc (c ! (49 + pc)) defined) {} [0..<16]"

definition validate_config :: "json \<Rightarrow> int list res" where
  "validate_config j = (case j of
     JList ws \<Rightarrow>
       (if length ws \<noteq> 65
        then Inl (ValueError ''configuration must contain exactly 65 words'')
        else rbind (mapM (\<lambda>w. int_in w 0 MASK) ws) (\<lambda>c.
             rbind (reject (c ! 0 \<noteq> MAGIC) (ValueError ''unsupported affine-fold ABI'')) (\<lambda>_.
             rbind (check_header c) (\<lambda>_.
             rbind (foldM (\<lambda>_. check_view c) () [0..<8]) (\<lambda>_.
             rbind (check_code c) (\<lambda>_. Inr c))))))
   | _ \<Rightarrow> Inl (ValueError ''configuration must contain exactly 65 words''))"

section \<open>The region compiler\<close>

datatype fold_op = FoldSum | FoldMax

record region =
  r_shape :: "json list"
  r_extent :: json
  r_fold :: fold_op
  r_lengths :: "json list"
  r_views :: "(string \<times> json) list"
  r_nodes :: "node list"
  r_result :: string

fun region_op :: "string \<Rightarrow> mf_op option" where
  "region_op s =
     (if s = ''load'' then Some OpLoad
      else if s = ''add'' then Some OpAdd
      else if s = ''max'' then Some OpMax
      else if s = ''mul'' then Some OpMul
      else if s = ''add_imm'' then Some OpAddImm
      else if s = ''ge_imm'' then Some OpGeImm
      else None)"

definition node_fields :: "string \<Rightarrow> string set" where
  "node_fields s = {''id'', ''op''} \<union>
     (if s = ''load'' then {''view''}
      else if s = ''add_imm'' \<or> s = ''ge_imm'' then {''args'', ''imm''} else {''args''})"

text \<open>\<open>for arg in args\<close>: text, defined earlier; each occurrence counts as one use.\<close>

definition check_args :: "string set \<Rightarrow> json list \<Rightarrow> string list res" where
  "check_args seen args = mapM (\<lambda>a. case a of
       JStr s \<Rightarrow> if s \<in> seen then Inr s else Inl (ValueError ''nodes must be in dependency order'')
     | _ \<Rightarrow> Inl (ValueError ''nodes must be in dependency order'')) args"

definition node_name :: "string set \<Rightarrow> (string \<times> json) list \<Rightarrow> string res" where
  "node_name seen kv =
     rbind (want_str (map_of kv ''id'') ''duplicate or invalid SSA identifier'') (\<lambda>name.
     rbind (reject (name = [] \<or> name \<in> seen) (ValueError ''duplicate or invalid SSA identifier'')) (\<lambda>_.
     Inr name))"

definition node_view :: "mf_op \<Rightarrow> (string \<times> json) list \<Rightarrow> (string \<times> json) list \<Rightarrow> string res" where
  "node_view o' views kv =
     (if o' = OpLoad
      then rbind (want_str (map_of kv ''view'') ''unknown view'') (\<lambda>v.
           rbind (reject (v \<notin> keys views) (ValueError ''unknown view'')) (\<lambda>_. Inr v))
      else Inr [])"

definition node_imm :: "(string \<times> json) list \<Rightarrow> int res" where
  "node_imm kv = (case map_of kv ''imm'' of None \<Rightarrow> Inr 0 | Some x \<Rightarrow> int_in x 0 (2 ^ 22 - 1))"

definition get_args :: "(string \<times> json) list \<Rightarrow> json" where
  "get_args kv = (case map_of kv ''args'' of None \<Rightarrow> JList [] | Some a \<Rightarrow> a)"

definition region_node :: "(string \<times> json) list \<Rightarrow> string set \<Rightarrow> json \<Rightarrow> node res" where
  "region_node views seen j =
     rbind (want_dict (Some j) ''invalid node'') (\<lambda>kv.
     rbind (want_str (map_of kv ''op'') ''invalid operation'') (\<lambda>s.
     rbind (want (region_op s) ''invalid node'') (\<lambda>o'.
     rbind (reject (keys kv \<noteq> node_fields s) (ValueError ''invalid node'')) (\<lambda>_.
     rbind (node_name seen kv) (\<lambda>name.
     rbind (want_list (Some (get_args kv)) ''incorrect arity'') (\<lambda>xs.
     rbind (reject (length xs \<noteq> arity o') (ValueError ''incorrect arity'')) (\<lambda>_.
     rbind (check_args seen xs) (\<lambda>args.
     rbind (node_view o' views kv) (\<lambda>view.
     rbind (node_imm kv) (\<lambda>imm.
     Inr \<lparr>nid = name, nop = o', nargs = args, nview = view, nimm = imm\<rparr>))))))))))"

fun region_nodes :: "(string \<times> json) list \<Rightarrow> string set \<Rightarrow> json list \<Rightarrow> node list res" where
  "region_nodes views seen [] = Inr []"
| "region_nodes views seen (j # js) =
     rbind (region_node views seen j) (\<lambda>n.
     rbind (region_nodes views (insert (nid n) seen) js) (\<lambda>ns. Inr (n # ns)))"

definition region_keys :: "string set" where
  "region_keys = {''schema'', ''shape'', ''extent'', ''fold'', ''lengths'', ''views'', ''nodes'', ''result''}"

definition read_fold :: "json option \<Rightarrow> fold_op option" where
  "read_fold j =
     (if j = Some (JStr ''sum'') then Some FoldSum
      else if j = Some (JStr ''max'') then Some FoldMax else None)"

definition check_region :: "json \<Rightarrow> region res" where
  "check_region j =
     rbind (want_dict (Some j) ''unexpected or missing region field'') (\<lambda>d.
     rbind (reject (keys d \<noteq> region_keys) (ValueError ''unexpected or missing region field'')) (\<lambda>_.
     rbind (reject (map_of d ''schema'' \<noteq> Some (JStr ''raveil.affine-fold.v1''))
              (ValueError ''unsupported schema'')) (\<lambda>_.
     rbind (want (seq_elems (the (map_of d ''shape''))) ''two dimensions and two input lengths required'') (\<lambda>shape.
     rbind (want (seq_elems (the (map_of d ''lengths''))) ''two dimensions and two input lengths required'') (\<lambda>lengths.
     rbind (reject (length shape \<noteq> 2 \<or> length lengths \<noteq> 2)
              (ValueError ''two dimensions and two input lengths required'')) (\<lambda>_.
     rbind (want (read_fold (map_of d ''fold'')) ''fold must be sum or max'') (\<lambda>fo.
     rbind (want_dict (map_of d ''views'') ''one to eight views required'') (\<lambda>views.
     rbind (reject (length views < 1 \<or> 8 < length views) (ValueError ''one to eight views required'')) (\<lambda>_.
     rbind (want_list (map_of d ''nodes'') ''one to fifteen map nodes required'') (\<lambda>nodes.
     rbind (reject (length nodes < 1 \<or> 15 < length nodes)
              (ValueError ''one to fifteen map nodes required'')) (\<lambda>_.
     rbind (region_nodes views {} nodes) (\<lambda>ns.
     rbind (want_str (map_of d ''result'') ''unknown result'') (\<lambda>result.
     rbind (reject (result \<notin> nid ` set ns) (ValueError ''unknown result'')) (\<lambda>_.
     Inr \<lparr>r_shape = shape, r_extent = the (map_of d ''extent''), r_fold = fo, r_lengths = lengths,
          r_views = views, r_nodes = ns, r_result = result\<rparr>))))))))))))))"

text \<open>
  Register allocation. \<open>al_uses\<close> is the dictionary \<open>uses\<close>, absent keys reading as zero;
  \<open>al_live\<close> maps a live SSA name to its register and \<open>al_free\<close> lists the free registers.
\<close>

record alloc =
  al_uses :: "string \<Rightarrow> int"
  al_live :: "string \<rightharpoonup> int"
  al_free :: "int list"
  al_words :: "int list"

definition initial_uses :: "node list \<Rightarrow> string \<Rightarrow> string \<Rightarrow> int" where
  "initial_uses ns result x = int (count_list (concat (map nargs ns)) x) + (if x = result then 1 else 0)"

text \<open>\<open>uses[arg] -= 1; if uses[arg] == 0: free.append(live.pop(arg))\<close>\<close>

definition consume :: "alloc \<Rightarrow> string \<Rightarrow> alloc res" where
  "consume s arg =
     (let u = al_uses s arg - 1; s' = s\<lparr>al_uses := (al_uses s)(arg := u)\<rparr>
      in if u = 0 then rbind (mget (al_live s) arg) (\<lambda>r.
           Inr (s'\<lparr>al_live := (al_live s)(arg := None), al_free := al_free s @ [r]\<rparr>))
         else Inr s')"

fun op_code :: "mf_op \<Rightarrow> int" where
  "op_code OpLoad = 1"
| "op_code OpAdd = 2"
| "op_code OpMax = 4"
| "op_code OpMul = 5"
| "op_code OpAddImm = 6"
| "op_code OpGeImm = 7"
| "op_code _ = 0"

definition index_of :: "'a \<Rightarrow> 'a list \<Rightarrow> nat" where
  "index_of x xs = length (takeWhile (\<lambda>y. y \<noteq> x) xs)"

definition instr_word :: "(string \<times> json) list \<Rightarrow> node \<Rightarrow> int list \<Rightarrow> int \<Rightarrow> int" where
  "instr_word views n regs dst =
     (let w = push_bit 28 (op_code (nop n)) OR push_bit 25 dst
      in if nop n = OpLoad then w OR push_bit 22 (int (index_of (nview n) (map fst views)))
         else w OR push_bit 22 (regs ! 0) OR
              (if has_imm (nop n) then nimm n else push_bit 19 (regs ! 1)))"

definition alloc_step :: "(string \<times> json) list \<Rightarrow> alloc \<Rightarrow> node \<Rightarrow> alloc res" where
  "alloc_step views s n =
     rbind (mapM (mget (al_live s)) (nargs n)) (\<lambda>regs.
     rbind (foldM consume s (nargs n)) (\<lambda>s1.
     (case sort (al_free s1) of
        [] \<Rightarrow> Inl (ValueError ''map needs more than eight live registers'')
      | dst # rest \<Rightarrow>
         (let s2 = s1\<lparr>al_live := (al_live s1)(nid n \<mapsto> dst), al_free := rest,
                      al_words := al_words s1 @ [instr_word views n regs dst]\<rparr>
          in if al_uses s2 (nid n) = 0
             then Inr (s2\<lparr>al_live := (al_live s2)(nid n := None), al_free := rest @ [dst]\<rparr>)
             else Inr s2))))"

definition initial_alloc :: "node list \<Rightarrow> string \<Rightarrow> alloc" where
  "initial_alloc ns result =
     \<lparr>al_uses = initial_uses ns result, al_live = Map.empty, al_free = [0, 1, 2, 3, 4, 5, 6, 7], al_words = []\<rparr>"

definition emit_words :: "region \<Rightarrow> int list res" where
  "emit_words r =
     rbind (foldM (alloc_step (r_views r)) (initial_alloc (r_nodes r) (r_result r)) (r_nodes r)) (\<lambda>s.
     rbind (mget (al_live s) (r_result r)) (\<lambda>reg.
     Inr (al_words s @ [push_bit 28 3 OR push_bit 22 reg])))"

definition view_words :: "(string \<times> json) list \<Rightarrow> json list res" where
  "view_words views = rbind (mapM (\<lambda>(_, v). case v of
       JList xs \<Rightarrow> if length xs = 5 then Inr xs
         else Inl (ValueError ''view is [buffer, offset, i stride, j stride, k stride]'')
     | _ \<Rightarrow> Inl (ValueError ''view is [buffer, offset, i stride, j stride, k stride]'')) views)
     (\<lambda>vs. Inr (concat vs))"

definition fold_index :: "fold_op \<Rightarrow> int" where
  "fold_index f = (case f of FoldSum \<Rightarrow> 0 | FoldMax \<Rightarrow> 1)"

definition compile_region :: "json \<Rightarrow> int list res" where
  "compile_region j =
     rbind (check_region j) (\<lambda>r.
     rbind (emit_words r) (\<lambda>ws.
     rbind (view_words (r_views r)) (\<lambda>vs.
     validate_config (JList (
       [JInt MAGIC] @ r_shape r @ [r_extent r, JInt (fold_index (r_fold r))] @ r_lengths r @
       [JInt (int (length (r_views r))), JInt (int (length ws))] @ vs @
       replicate (40 - 5 * length (r_views r)) (JInt 0) @
       map JInt ws @ replicate (16 - length ws) (JInt 0))))))"

section \<open>The SSA interpreter\<close>

definition check_input :: "json \<Rightarrow> int \<Rightarrow> int list res" where
  "check_input data n = (case seq_elems data of
     None \<Rightarrow> Inl (ValueError ''input length mismatch'')
   | Some xs \<Rightarrow> if int (length xs) \<noteq> n then Inl (ValueError ''input length mismatch'')
       else mapM (\<lambda>w. int_in w 0 MASK) xs)"

definition check_inputs :: "json \<Rightarrow> int list \<Rightarrow> int list list res" where
  "check_inputs inputs lengths = (case inputs of
     JList [a, b] \<Rightarrow>
       rbind (check_input a (lengths ! 0)) (\<lambda>xs.
       rbind (check_input b (lengths ! 1)) (\<lambda>ys. Inr [xs, ys]))
   | _ \<Rightarrow> Inl (ValueError ''exactly two input arrays required (unused may be empty)''))"

fun view_ints :: "json \<Rightarrow> int list" where
  "view_ints (JList xs) = map jint xs"
| "view_ints _ = []"

definition load_view :: "(string \<times> json) list \<Rightarrow> int list list \<Rightarrow> int \<Rightarrow> int \<Rightarrow> int \<Rightarrow> string \<Rightarrow> int res" where
  "load_view views inputs i j k name =
     rbind (dget views name) (\<lambda>v.
       (let p = view_ints v
        in rbind (py_nth inputs (p ! 0)) (\<lambda>buffer.
           py_nth buffer (p ! 1 + p ! 2 * i + p ! 3 * j + p ! 4 * k))))"

definition fold_step :: "fold_op \<Rightarrow> int \<Rightarrow> int \<Rightarrow> int" where
  "fold_step f acc v = (case f of FoldSum \<Rightarrow> take_bit 32 (acc + v) | FoldMax \<Rightarrow> max acc v)"

definition region_cell :: "region \<Rightarrow> int list list \<Rightarrow> nat \<Rightarrow> nat \<Rightarrow> int res" where
  "region_cell r inputs i j =
     foldM (\<lambda>acc k. rbind (eval_nodes (load_view (r_views r) inputs (int i) (int j) (int k)) (r_nodes r) (r_result r))
                      (\<lambda>v. Inr (fold_step (r_fold r) acc v)))
       0 [0..<nat (jint (r_extent r))]"

definition region_cells :: "nat \<Rightarrow> nat \<Rightarrow> (nat \<times> nat) list" where
  "region_cells rows cols = grid_list rows cols Pair"

definition reference :: "json \<Rightarrow> json \<Rightarrow> int list res" where
  "reference j inputs =
     rbind (check_region j) (\<lambda>r.
     rbind (compile_region j) (\<lambda>_.
     rbind (check_inputs inputs (map jint (r_lengths r))) (\<lambda>bufs.
     mapM (\<lambda>(i, k). region_cell r bufs i k)
       (region_cells (nat (jint (r_shape r ! 0))) (nat (jint (r_shape r ! 1)))))))"

section \<open>What an accepted configuration guarantees\<close>

lemma int_in_Inr [res_simps]:
  "int_in x low high = Inr n \<longleftrightarrow> x = JInt n \<and> low \<le> n \<and> n \<le> high"
  by (auto simp: int_in_def split: json.splits if_splits)

lemma mapM_int_in:
  "mapM (\<lambda>w. int_in w low high) ws = Inr c \<longleftrightarrow> ws = map JInt c \<and> (\<forall>n \<in> set c. low \<le> n \<and> n \<le> high)"
proof (induction ws arbitrary: c)
  case (Cons w ws)
  then show ?case by (cases c) (auto simp: res_simps)
qed auto

definition config_ok :: "int list \<Rightarrow> bool" where
  "config_ok c \<longleftrightarrow> length c = 65 \<and> (\<forall>n \<in> set c. 0 \<le> n \<and> n \<le> MASK) \<and> c ! 0 = MAGIC \<and>
     check_header c = Inr () \<and> (\<forall>v < 8. check_view c v = Inr ()) \<and> (\<exists>d. check_code c = Inr d)"

lemma validate_config_iff:
  "validate_config j = Inr c \<longleftrightarrow> j = JList (map JInt c) \<and> config_ok c"
proof (cases j)
  case (JList ws)
  have units: "foldM (\<lambda>_. check_view c) () [0..<8] = Inr u \<longleftrightarrow> (\<forall>v < 8. check_view c v = Inr ())" for u
    using foldM_unit_all [of "check_view c" "[0..<8]"] by (cases u) (simp add: Ball_def)
  show ?thesis
    by (auto simp: JList validate_config_def config_ok_def res_simps mapM_int_in units)
qed (auto simp: validate_config_def)

lemma header_bounds:
  assumes "check_header c = Inr ()"
  shows "1 \<le> c ! 1" "c ! 1 \<le> 16" "1 \<le> c ! 2" "c ! 2 \<le> 16" "1 \<le> c ! 3" "c ! 3 \<le> 64"
    "0 \<le> c ! 4" "c ! 4 \<le> 1" "0 \<le> c ! 5" "c ! 5 \<le> 324" "0 \<le> c ! 6" "c ! 6 \<le> 324"
    "1 \<le> c ! 7" "c ! 7 \<le> 8" "2 \<le> c ! 8" "c ! 8 \<le> 16"
  using assms by (auto simp: check_header_def res_simps)

text \<open>Every address a used view can form lies inside its buffer.\<close>

lemma view_address_bounds:
  assumes ok: "config_ok c" and v: "int v < c ! 7" "v < 8"
    and ijk: "0 \<le> i" "i < c ! 1" "0 \<le> j" "j < c ! 2" "0 \<le> k" "k < c ! 3"
  defines "b \<equiv> c ! (9 + 5 * v)"
  defines "addr \<equiv> c ! (10 + 5 * v) + c ! (11 + 5 * v) * i + c ! (12 + 5 * v) * j + c ! (13 + 5 * v) * k"
  shows "b = 0 \<or> b = 1" and "0 \<le> addr" and "addr < (if b = 0 then c ! 5 else c ! 6)"
proof -
  have cv: "check_view c v = Inr ()" using ok v(2) by (simp add: config_ok_def)
  then have *: "0 \<le> b" "b \<le> 1" "0 \<le> c ! (10 + 5 * v)" "0 \<le> c ! (11 + 5 * v)" "0 \<le> c ! (12 + 5 * v)"
    "0 \<le> c ! (13 + 5 * v)"
    "c ! (10 + 5 * v) + c ! (11 + 5 * v) * (c ! 1 - 1) + c ! (12 + 5 * v) * (c ! 2 - 1) + c ! (13 + 5 * v) * (c ! 3 - 1)
       < (if b = 0 then c ! 5 else c ! 6)"
    using v(1) by (auto simp: check_view_def Let_def res_simps b_def not_le)
  show "b = 0 \<or> b = 1" using * by auto
  show "0 \<le> addr" using * ijk by (simp add: addr_def)
  have "c ! (11 + 5 * v) * i \<le> c ! (11 + 5 * v) * (c ! 1 - 1)"
    "c ! (12 + 5 * v) * j \<le> c ! (12 + 5 * v) * (c ! 2 - 1)"
    "c ! (13 + 5 * v) * k \<le> c ! (13 + 5 * v) * (c ! 3 - 1)"
    using * ijk by (auto intro!: mult_left_mono)
  then have "addr \<le> c ! (10 + 5 * v) + c ! (11 + 5 * v) * (c ! 1 - 1) + c ! (12 + 5 * v) * (c ! 2 - 1) + c ! (13 + 5 * v) * (c ! 3 - 1)"
    unfolding addr_def by linarith
  with *(7) show "addr < (if b = 0 then c ! 5 else c ! 6)" by linarith
qed

section \<open>What the region check guarantees\<close>

lemma region_op_arity:
  assumes "region_op s = Some o'"
  shows "o' \<in> {OpLoad, OpAdd, OpMul, OpMax, OpAddImm, OpGeImm}"
    and "op_name o' = s" and "has_imm o' \<longleftrightarrow> s = ''add_imm'' \<or> s = ''ge_imm''"
  using assms by (auto simp: has_imm_def split: if_splits)

lemma check_args_Inr:
  assumes "check_args seen xs = Inr args"
  shows "xs = map JStr args \<and> set args \<subseteq> seen"
  using assms unfolding check_args_def
proof (induction xs arbitrary: args)
  case (Cons x xs)
  then show ?case by (cases x) (auto simp: res_simps split: if_splits)
qed simp

definition region_node_ok :: "(string \<times> json) list \<Rightarrow> node \<Rightarrow> bool" where
  "region_node_ok views n \<longleftrightarrow> nop n \<in> {OpLoad, OpAdd, OpMul, OpMax, OpAddImm, OpGeImm} \<and>
     (nop n = OpLoad \<longrightarrow> nview n \<in> keys views)"

lemma node_imm_Inr: "node_imm kv = Inr imm \<Longrightarrow> 0 \<le> imm \<and> imm < 2 ^ 22"
  by (auto simp: node_imm_def res_simps split: option.splits)

lemma node_view_Inr: "node_view o' views kv = Inr v \<Longrightarrow> o' = OpLoad \<Longrightarrow> v \<in> keys views"
  by (auto simp: node_view_def res_simps)

lemma node_name_Inr: "node_name seen kv = Inr name \<Longrightarrow> name \<notin> seen"
  by (auto simp: node_name_def res_simps)

lemma region_node_Inr:
  assumes "region_node views seen j = Inr n"
  shows "node_ok seen n \<and> region_node_ok views n"
proof -
  from assms obtain kv s o' name xs args view imm where
    parts: "region_op s = Some o'" "node_name seen kv = Inr name" "length xs = arity o'"
      "check_args seen xs = Inr args" "node_view o' views kv = Inr view" "node_imm kv = Inr imm"
      "n = \<lparr>nid = name, nop = o', nargs = args, nview = view, nimm = imm\<rparr>"
    unfolding region_node_def by (simp only: res_simps reject_eq) fastforce
  have "length args = arity o'" "set args \<subseteq> seen"
    using check_args_Inr [OF parts(4)] parts(3) by auto
  with parts node_name_Inr [OF parts(2)] node_imm_Inr [OF parts(6)] node_view_Inr [OF parts(5)]
    region_op_arity(1) [OF parts(1)]
  show ?thesis by (simp add: node_ok_def region_node_ok_def)
qed

lemma region_nodes_Inr:
  assumes "region_nodes views seen js = Inr ns"
  shows "nodes_ok seen ns \<and> (\<forall>n \<in> set ns. region_node_ok views n) \<and> length ns = length js"
  using assms
proof (induction js arbitrary: seen ns)
  case (Cons j js)
  then obtain n ns' where n: "region_node views seen j = Inr n"
    "region_nodes views (insert (nid n) seen) js = Inr ns'" "ns = n # ns'"
    by (auto simp: res_simps)
  with Cons.IH region_node_Inr [OF n(1)] show ?case by auto
qed simp

definition region_ok :: "region \<Rightarrow> bool" where
  "region_ok r \<longleftrightarrow> nodes_ok {} (r_nodes r) \<and> (\<forall>n \<in> set (r_nodes r). region_node_ok (r_views r) n) \<and>
     r_result r \<in> nid ` set (r_nodes r) \<and> 1 \<le> length (r_nodes r) \<and> length (r_nodes r) \<le> 15 \<and>
     1 \<le> length (r_views r) \<and> length (r_views r) \<le> 8 \<and> length (r_shape r) = 2 \<and> length (r_lengths r) = 2"

lemma check_region_Inr:
  assumes "check_region j = Inr r"
  shows "region_ok r"
proof -
  from assms obtain views nodes ns result shape ext fo lengths where
    parts: "region_nodes views {} nodes = Inr ns" "\<not> (length nodes < 1 \<or> 15 < length nodes)"
      "\<not> (length views < 1 \<or> 8 < length views)" "result \<in> nid ` set ns" "length shape = 2" "length lengths = 2"
      "r = \<lparr>r_shape = shape, r_extent = ext, r_fold = fo, r_lengths = lengths, r_views = views,
            r_nodes = ns, r_result = result\<rparr>"
    unfolding check_region_def by (simp only: res_simps reject_eq) blast
  with region_nodes_Inr [OF parts(1)] show ?thesis
    by (simp add: region_ok_def Suc_le_eq)
qed

section \<open>Instruction words\<close>

lemma or_push_bit_low:
  assumes "0 \<le> b" "b < 2 ^ n"
  shows "push_bit n a OR b = push_bit n a + (b :: int)"
proof (rule disjunctive_add [symmetric])
  fix i
  have "take_bit n b = b" using assms by (simp add: take_bit_int_eq_self)
  then show "\<not> bit (push_bit n a) i \<or> \<not> bit b i"
    by (metis bit_push_bit_iff bit_take_bit_iff not_le)
qed

lemma encode_word:
  assumes "0 \<le> d" "d < 8" "0 \<le> a" "a < 8" "0 \<le> m" "m < 2 ^ 22"
  shows "(push_bit 28 o' OR push_bit 25 d) OR push_bit 22 a OR m
    = o' * 2 ^ 28 + d * 2 ^ 25 + a * 2 ^ 22 + (m :: int)"
proof -
  have 1: "push_bit 22 a OR m = push_bit 22 a + m"
    using assms by (simp add: or_push_bit_low)
  have 2: "push_bit 25 d OR (push_bit 22 a + m) = push_bit 25 d + (push_bit 22 a + m)"
    using assms by (intro or_push_bit_low) (auto simp: push_bit_eq_mult)
  have 3: "push_bit 28 o' OR (push_bit 25 d + (push_bit 22 a + m)) = push_bit 28 o' + (push_bit 25 d + (push_bit 22 a + m))"
    using assms by (intro or_push_bit_low) (auto simp: push_bit_eq_mult)
  show ?thesis
    by (simp add: or.assoc 1 2 3) (simp add: push_bit_eq_mult)
qed

lemma encode_yield:
  assumes "0 \<le> a" "a < 8"
  shows "push_bit 28 3 OR push_bit 22 a = (3 * 2 ^ 28 + a * 2 ^ 22 :: int)"
  using assms encode_word [of 0 a 0 3] by simp

lemma decode_fields:
  assumes "0 \<le> o'" "o' < 16" "0 \<le> d" "d < 8" "0 \<le> a" "a < 8" "0 \<le> m" "m < 2 ^ 22"
  defines "w \<equiv> o' * 2 ^ 28 + d * 2 ^ 25 + a * 2 ^ 22 + (m :: int)"
  shows "f_op w = o'" "f_d w = d" "f_a w = a" "f_b w = m div 2 ^ 19" "take_bit 22 w = m"
    "0 \<le> w" "w < 2 ^ 32"
proof -
  have split: "w = (o' * 8 + d) * 2 ^ 25 + (a * 2 ^ 22 + m)" "w = ((o' * 8 + d) * 8 + a) * 2 ^ 22 + m"
    "w = (((o' * 8 + d) * 8 + a) * 8 + m div 2 ^ 19) * 2 ^ 19 + m mod 2 ^ 19"
    unfolding w_def by (simp_all add: algebra_simps)
  have low: "a * 2 ^ 22 + m < 2 ^ 25" using assms(1-8) by simp
  show "f_op w = o'" using assms(1-8) unfolding w_def f_op_def drop_bit_eq_div by simp
  have "w div 2 ^ 25 = o' * 8 + d"
    unfolding split(1) using assms(1-8) low by simp
  then show "f_d w = d" using assms(1-8) by (simp add: f_d_def drop_bit_eq_div take_bit_eq_mod)
  have "w div 2 ^ 22 = (o' * 8 + d) * 8 + a"
    unfolding split(2) using assms(1-8) by simp
  then have "f_a w = ((o' * 8 + d) * 8 + a) mod 8"
    by (simp add: f_a_def drop_bit_eq_div take_bit_eq_mod)
  also have "\<dots> = a" using assms(5,6) by (simp only: mod_mult_self3) simp
  finally show "f_a w = a" .
  have "w div 2 ^ 19 = ((o' * 8 + d) * 8 + a) * 8 + m div 2 ^ 19"
    by (subst split(3)) simp
  moreover have "m div 2 ^ 19 < 8" "0 \<le> m div 2 ^ 19" using assms(7,8) by auto
  ultimately have "f_b w = (((o' * 8 + d) * 8 + a) * 8 + m div 2 ^ 19) mod 8" "m div 2 ^ 19 < 8" "0 \<le> m div 2 ^ 19"
    by (simp_all add: f_b_def drop_bit_eq_div take_bit_eq_mod)
  then show "f_b w = m div 2 ^ 19"
    by (simp only: mod_mult_self3) simp
  show "take_bit 22 w = m"
    unfolding split(2) take_bit_eq_mod using assms(7,8) by (simp only: mod_mult_self3) simp
  show "0 \<le> w" using assms(1-8) unfolding w_def by simp
  show "w < 2 ^ 32" using assms(1-8) unfolding w_def by simp
qed

end
