(* ===== verification/Region_Alloc.thy ===== *)
theory Region_Alloc
  imports Affine_Fold
begin

text \<open>
  Register allocation of \<open>affine_fold.compile_region\<close>. Between two nodes the eight registers
  are partitioned into free ones and those of distinct live names, and a name is live
  exactly when it is defined and some remaining node, or the result, still reads it. No
  dictionary access of the allocator can therefore fail.
\<close>

text \<open>The registers are partitioned between the free list and the live names.\<close>

definition regs_inv :: "alloc \<Rightarrow> bool" where
  "regs_inv s \<longleftrightarrow> distinct (al_free s) \<and> set (al_free s) \<inter> ran (al_live s) = {} \<and>
     set (al_free s) \<union> ran (al_live s) = {0..7} \<and> inj_on (al_live s) (dom (al_live s))"

definition uses_inv :: "string set \<Rightarrow> node list \<Rightarrow> string \<Rightarrow> alloc \<Rightarrow> bool" where
  "uses_inv seen ns result s \<longleftrightarrow> (\<forall>x. al_uses s x = initial_uses ns result x) \<and>
     dom (al_live s) = {x \<in> seen. 0 < initial_uses ns result x}"

lemma regs_inv_range: "regs_inv s \<Longrightarrow> al_live s x = Some r \<Longrightarrow> 0 \<le> r \<and> r \<le> 7"
  by (auto simp: regs_inv_def ran_def set_eq_iff)

lemma initial_regs_inv: "regs_inv (initial_alloc ns result)"
  by (auto simp: regs_inv_def initial_alloc_def)

lemma initial_uses_inv: "uses_inv {} ns result (initial_alloc ns result)"
  by (auto simp: uses_inv_def initial_alloc_def)

lemma initial_uses_Cons:
  "initial_uses (n # ns) result x = int (count_list (nargs n) x) + initial_uses ns result x"
  by (simp add: initial_uses_def)

lemma initial_uses_nonneg: "0 \<le> initial_uses ns result x"
  by (simp add: initial_uses_def)

lemma count_list_pos: "0 < count_list xs x \<longleftrightarrow> x \<in> set xs"
  using count_list_0_iff [of xs x] by auto

text \<open>Releasing a register keeps the partition.\<close>

lemma ran_map_remove:
  "inj_on m (dom m) \<Longrightarrow> m x = Some r \<Longrightarrow> ran (m(x := None)) = ran m - {r}"
proof -
  assume inj: "inj_on m (dom m)" and x: "m x = Some r"
  have "a = x" if "m a = Some r" for a
    using inj_onD [OF inj, of a x] that x by (simp add: dom_def)
  then have "b \<in> ran (m(x := None)) \<longleftrightarrow> b \<in> ran m \<and> b \<noteq> r" for b
    using x unfolding ran_def mem_Collect_eq fun_upd_apply by (metis option.discI option.inject)
  then show ?thesis by auto
qed

lemma regs_inv_release:
  assumes "regs_inv s" "al_live s x = Some r"
  shows "regs_inv (s\<lparr>al_live := (al_live s)(x := None), al_free := al_free s @ [r]\<rparr>)"
proof -
  have "ran ((al_live s)(x := None)) = ran (al_live s) - {r}"
    using assms by (intro ran_map_remove) (auto simp: regs_inv_def)
  moreover have "r \<in> ran (al_live s)" using assms(2) by (rule ranI)
  moreover have "inj_on ((al_live s)(x := None)) (dom ((al_live s)(x := None)))"
    using assms(1) by (auto simp: regs_inv_def inj_on_def split: if_splits)
  ultimately show ?thesis
    using assms(1) by (auto simp: regs_inv_def)
qed

lemma consume_step:
  assumes "regs_inv s" and "al_uses s x \<le> 1 \<Longrightarrow> al_live s x = Some r"
  shows "\<exists>s'. consume s x = Inr s' \<and> regs_inv s' \<and> al_words s' = al_words s \<and>
    al_uses s' = (al_uses s)(x := al_uses s x - 1) \<and>
    al_live s' = (if al_uses s x = 1 then (al_live s)(x := None) else al_live s)"
proof (cases "al_uses s x = 1")
  case True
  with assms have live: "al_live s x = Some r" by simp
  have "regs_inv (s\<lparr>al_live := (al_live s)(x := None), al_free := al_free s @ [r]\<rparr>)"
    using assms(1) live by (rule regs_inv_release)
  then show ?thesis
    using True live by (auto simp: consume_def Let_def regs_inv_def)
next
  case False
  then show ?thesis
    using assms(1) by (auto simp: consume_def Let_def regs_inv_def)
qed

text \<open>
  The loop over the operands: it never fails as long as every operand is live and the use
  counts cover the occurrences, and it removes exactly the names whose count is exhausted.
\<close>

lemma consume_loop:
  assumes "regs_inv s"
    and "\<And>x. x \<in> set xs \<Longrightarrow> x \<in> dom (al_live s)"
    and "\<And>x. x \<in> set xs \<Longrightarrow> int (count_list xs x) \<le> al_uses s x"
  shows "\<exists>s'. foldM consume s xs = Inr s' \<and> regs_inv s' \<and> al_words s' = al_words s \<and>
    (\<forall>x. al_uses s' x = al_uses s x - int (count_list xs x)) \<and>
    (\<forall>x. al_live s' x = (if x \<in> set xs \<and> al_uses s x = int (count_list xs x) then None else al_live s x))"
  using assms
proof (induction xs arbitrary: s)
  case (Cons x xs)
  obtain r where r: "al_live s x = Some r"
    using Cons.prems(2) [of x] by auto
  obtain s1 where s1: "consume s x = Inr s1" "regs_inv s1" "al_words s1 = al_words s"
    "al_uses s1 = (al_uses s)(x := al_uses s x - 1)"
    "al_live s1 = (if al_uses s x = 1 then (al_live s)(x := None) else al_live s)"
    using consume_step [OF Cons.prems(1), of x r] r by blast
  have count: "int (count_list xs x) + 1 \<le> al_uses s x" using Cons.prems(3) [of x] by simp
  have dom1: "y \<in> dom (al_live s1)" if "y \<in> set xs" for y
  proof (cases "y = x")
    case True
    with that have "0 < count_list xs x" by (simp add: count_list_pos)
    with count have "al_uses s x \<noteq> 1" by simp
    with True r show ?thesis by (simp add: s1 dom_def)
  next
    case False
    have "y \<in> dom (al_live s)" using that Cons.prems(2) by simp
    with False show ?thesis by (auto simp: s1)
  qed
  have uses1: "int (count_list xs y) \<le> al_uses s1 y" if "y \<in> set xs" for y
    using that Cons.prems(3) [of y] count by (auto simp: s1 split: if_splits)
  obtain s' where s': "foldM consume s1 xs = Inr s'" "regs_inv s'" "al_words s' = al_words s1"
    "\<And>y. al_uses s' y = al_uses s1 y - int (count_list xs y)"
    "\<And>y. al_live s' y = (if y \<in> set xs \<and> al_uses s1 y = int (count_list xs y) then None else al_live s1 y)"
    using Cons.IH [OF s1(2) dom1 uses1] by blast
  have "al_live s' y = (if y \<in> set (x # xs) \<and> al_uses s y = int (count_list (x # xs) y) then None else al_live s y)" for y
    using count count_list_pos [of xs x] by (auto simp: s'(5) s1(4,5) count_notin)
  moreover have "al_uses s' y = al_uses s y - int (count_list (x # xs) y)" for y
    by (simp add: s'(4) s1(4))
  ultimately show ?case using s1 s' by auto
qed simp

text \<open>The operands of the next node are live, so reading and consuming them succeeds.\<close>

lemma alloc_operands:
  assumes regs: "regs_inv s" and uses: "uses_inv seen (n # ns) result s" and ok: "node_ok seen n"
  shows "x \<in> set (nargs n) \<Longrightarrow> x \<in> dom (al_live s)"
    and "mapM (mget (al_live s)) (nargs n) = Inr (map (\<lambda>a. the (al_live s a)) (nargs n))"
    and "\<exists>s1. foldM consume s (nargs n) = Inr s1 \<and> regs_inv s1 \<and> al_words s1 = al_words s \<and>
      (\<forall>x. al_uses s1 x = al_uses s x - int (count_list (nargs n) x)) \<and>
      (\<forall>x. al_live s1 x = (if x \<in> set (nargs n) \<and> al_uses s x = int (count_list (nargs n) x) then None else al_live s x))"
proof -
  have live_args: "x \<in> dom (al_live s)" if "x \<in> set (nargs n)" for x
  proof -
    have "0 < initial_uses (n # ns) result x"
      using that initial_uses_nonneg [of ns result x] count_list_pos [of "nargs n" x]
      by (simp add: initial_uses_Cons)
    moreover have "x \<in> seen" using that ok by (auto simp: node_ok_def)
    ultimately show ?thesis using uses by (simp add: uses_inv_def)
  qed
  then show "x \<in> set (nargs n) \<Longrightarrow> x \<in> dom (al_live s)" .
  have counts: "int (count_list (nargs n) x) \<le> al_uses s x" for x
    using uses initial_uses_nonneg [of ns result x] by (simp add: uses_inv_def initial_uses_Cons)
  show "mapM (mget (al_live s)) (nargs n) = Inr (map (\<lambda>a. the (al_live s a)) (nargs n))"
    by (rule mapM_mget_the) (use live_args in auto)
  show "\<exists>s1. foldM consume s (nargs n) = Inr s1 \<and> regs_inv s1 \<and> al_words s1 = al_words s \<and>
      (\<forall>x. al_uses s1 x = al_uses s x - int (count_list (nargs n) x)) \<and>
      (\<forall>x. al_live s1 x = (if x \<in> set (nargs n) \<and> al_uses s x = int (count_list (nargs n) x) then None else al_live s x))"
    using consume_loop [OF regs live_args counts] .
qed

text \<open>
  One node. With eight registers free or live the step fails only for want of a register;
  otherwise the new name takes a register that no live operand holds afterwards.
\<close>

lemma alloc_step_spec:
  assumes regs: "regs_inv s" and uses: "uses_inv seen (n # ns) result s" and ok: "node_ok seen n"
    and step: "alloc_step views s n = Inr s'"
  shows "regs_inv s'" and "uses_inv (insert (nid n) seen) ns result s'"
    and "\<exists>dst. 0 \<le> dst \<and> dst \<le> 7 \<and> (\<forall>a \<in> set (nargs n). al_live s a \<noteq> None) \<and>
       al_words s' = al_words s @ [instr_word views n (map (\<lambda>a. the (al_live s a)) (nargs n)) dst] \<and>
       (\<forall>x r. x \<noteq> nid n \<longrightarrow> al_live s' x = Some r \<longrightarrow> al_live s x = Some r \<and> r \<noteq> dst) \<and>
       (\<forall>r. al_live s' (nid n) = Some r \<longrightarrow> r = dst)"
proof -
  note regs_eq = alloc_operands(2) [OF regs uses ok]
  have live_args: "x \<in> dom (al_live s)" if "x \<in> set (nargs n)" for x
    using alloc_operands(1) [OF regs uses ok that] .
  obtain s1 where s1: "foldM consume s (nargs n) = Inr s1" "regs_inv s1" "al_words s1 = al_words s"
    "\<And>x. al_uses s1 x = al_uses s x - int (count_list (nargs n) x)"
    "\<And>x. al_live s1 x = (if x \<in> set (nargs n) \<and> al_uses s x = int (count_list (nargs n) x) then None else al_live s x)"
    using alloc_operands(3) [OF regs uses ok] by blast
  have uses1: "al_uses s1 x = initial_uses ns result x" for x
    using uses by (simp add: s1(4) uses_inv_def initial_uses_Cons)
  have dom1: "dom (al_live s1) = {x \<in> seen. 0 < initial_uses ns result x}"
  proof -
    have "x \<in> dom (al_live s1) \<longleftrightarrow> x \<in> seen \<and> 0 < initial_uses ns result x" for x
      using uses initial_uses_nonneg [of ns result x] count_notin [of x "nargs n"]
      by (auto simp: domIff s1(5) uses_inv_def initial_uses_Cons set_eq_iff)
    then show ?thesis by auto
  qed
  obtain dst rest where sorted: "sort (al_free s1) = dst # rest"
    using step by (cases "sort (al_free s1)") (auto simp: alloc_step_def regs_eq s1(1))
  have free: "set (al_free s1) = insert dst (set rest)" "distinct (dst # rest)"
    using sorted s1(2) by (metis list.simps(15) set_sort) (metis sorted s1(2) regs_inv_def distinct_sort)
  have fresh: "al_live s1 (nid n) = None"
    using dom1 ok by (auto simp: node_ok_def domIff set_eq_iff)
  have dst: "dst \<notin> ran (al_live s1)" "0 \<le> dst" "dst \<le> 7"
    using s1(2) free(1) by (auto simp: regs_inv_def set_eq_iff)
  define s2 where "s2 = s1\<lparr>al_live := (al_live s1)(nid n \<mapsto> dst), al_free := rest,
                      al_words := al_words s1 @ [instr_word views n (map (\<lambda>a. the (al_live s a)) (nargs n)) dst]\<rparr>"
  have s': "s' = (if initial_uses ns result (nid n) = 0
       then s2\<lparr>al_live := (al_live s2)(nid n := None), al_free := rest @ [dst]\<rparr> else s2)"
    using step by (simp add: alloc_step_def regs_eq s1(1) sorted s2_def Let_def uses1 split: if_splits)
  have "inj_on (al_live s2) (dom (al_live s2))"
    using s1(2) dst(1) by (auto simp: s2_def regs_inv_def inj_on_def ran_def)
  moreover have "ran (al_live s2) = insert dst (ran (al_live s1))"
    using fresh by (simp add: s2_def)
  ultimately have regs2: "regs_inv s2"
    using s1(2) free dst by (auto simp: s2_def regs_inv_def)
  show "regs_inv s'"
    using regs2 regs_inv_release [OF regs2, of "nid n" dst] by (simp add: s' s2_def)
  show "uses_inv (insert (nid n) seen) ns result s'"
    using dom1 uses1 fresh initial_uses_nonneg [of ns result "nid n"]
    by (auto simp: uses_inv_def s' s2_def)
  have "al_live s x = Some r \<and> r \<noteq> dst" if "x \<noteq> nid n" "al_live s' x = Some r" for x r
  proof -
    have "al_live s1 x = Some r" using that by (auto simp: s' s2_def split: if_splits)
    then show ?thesis using dst(1) by (auto simp: s1(5) ran_def split: if_splits)
  qed
  then show "\<exists>dst. 0 \<le> dst \<and> dst \<le> 7 \<and> (\<forall>a \<in> set (nargs n). al_live s a \<noteq> None) \<and>
       al_words s' = al_words s @ [instr_word views n (map (\<lambda>a. the (al_live s a)) (nargs n)) dst] \<and>
       (\<forall>x r. x \<noteq> nid n \<longrightarrow> al_live s' x = Some r \<longrightarrow> al_live s x = Some r \<and> r \<noteq> dst) \<and>
       (\<forall>r. al_live s' (nid n) = Some r \<longrightarrow> r = dst)"
    using dst live_args by (intro exI [of _ dst]) (auto simp: s' s2_def s1(3) split: if_splits)
qed

text \<open>The allocator can only fail for want of a register.\<close>

lemma alloc_step_error:
  assumes "regs_inv s" "uses_inv seen (n # ns) result s" "node_ok seen n" "alloc_step views s n = Inl e"
  shows "e = ValueError ''map needs more than eight live registers''"
proof -
  obtain s1 where "foldM consume s (nargs n) = Inr s1" using alloc_operands(3) [OF assms(1-3)] by blast
  then show ?thesis
    using assms(4) alloc_operands(2) [OF assms(1-3)]
    by (auto simp: alloc_step_def Let_def split: list.splits if_splits)
qed

lemma alloc_loop:
  assumes "regs_inv s" "uses_inv seen ns result s" "nodes_ok seen ns"
  shows "case foldM (alloc_step views) s ns of
      Inl e \<Rightarrow> e = ValueError ''map needs more than eight live registers''
    | Inr s' \<Rightarrow> uses_inv (seen \<union> nid ` set ns) [] result s'"
  using assms
proof (induction ns arbitrary: s seen)
  case (Cons n ns)
  have ok: "node_ok seen n" "nodes_ok (insert (nid n) seen) ns" using Cons.prems(3) by auto
  show ?case
  proof (cases "alloc_step views s n")
    case (Inl e)
    then show ?thesis using alloc_step_error [OF Cons.prems(1,2) ok(1)] by simp
  next
    case (Inr s1)
    then show ?thesis
      using Cons.IH [OF alloc_step_spec(1,2) [OF Cons.prems(1,2) ok(1) Inr] ok(2)] by (auto split: sum.splits)
  qed
qed simp

lemma emit_words_error:
  assumes "region_ok r" "emit_words r = Inl e"
  shows "e = ValueError ''map needs more than eight live registers''"
proof -
  have ok: "nodes_ok {} (r_nodes r)" "r_result r \<in> nid ` set (r_nodes r)"
    using assms(1) by (auto simp: region_ok_def)
  note loop = alloc_loop [OF initial_regs_inv initial_uses_inv ok(1), where views = "r_views r" and result = "r_result r"]
  have "\<exists>reg. al_live s' (r_result r) = Some reg"
    if "foldM (alloc_step (r_views r)) (initial_alloc (r_nodes r) (r_result r)) (r_nodes r) = Inr s'" for s'
    using loop that ok(2) by (auto simp: uses_inv_def initial_uses_def set_eq_iff domIff)
  then show ?thesis
    using assms(2) loop by (auto simp: emit_words_def res_simps mget_def split: option.splits)
qed

end
