(* ===== verification/Fold_Machine.thy ===== *)
theory Fold_Machine
  imports Affine_Fold
begin

unbundle bit_operations_syntax

text \<open>
  \<open>contracts/src/affine_fold.c\<close>: the guest's own admission check and the interpreter of
  encoded configurations, over 32-bit words. The C arithmetic wraps; the view bound is
  computed in 64 bits. \<open>CFalse\<close> is \<open>return false\<close> and \<open>CUndefined\<close> a read outside the
  648-word input array. The loops over \<open>i\<close>, \<open>j\<close> fill \<open>output\<close> in row-major order.
\<close>

type_synonym u32 = "32 word"
type_synonym u64 = "64 word"

datatype c_stop = CFalse | CUndefined

definition w_op :: "u32 \<Rightarrow> u32" where "w_op w = drop_bit 28 w"
definition w_d :: "u32 \<Rightarrow> u32" where "w_d w = drop_bit 25 w AND 7"
definition w_a :: "u32 \<Rightarrow> u32" where "w_a w = drop_bit 22 w AND 7"
definition w_b :: "u32 \<Rightarrow> u32" where "w_b w = drop_bit 19 w AND 7"

definition c_header_ok :: "u32 list \<Rightarrow> bool" where
  "c_header_ok c \<longleftrightarrow> \<not> (c ! 0 \<noteq> 0x4d463031 \<or> c ! 1 < 1 \<or> c ! 1 > 16 \<or>
     c ! 2 < 1 \<or> c ! 2 > 16 \<or> c ! 3 < 1 \<or> c ! 3 > 64 \<or> c ! 4 > 1 \<or>
     c ! 5 > 324 \<or> c ! 6 > 324 \<or> c ! 7 < 1 \<or> c ! 7 > 8 \<or> c ! 8 < 2 \<or> c ! 8 > 16)"

definition c_view_ok :: "u32 list \<Rightarrow> nat \<Rightarrow> bool" where
  "c_view_ok c v =
     (let p = (\<lambda>j. c ! (9 + 5 * v + j))
      in if of_nat v \<ge> c ! 7 then (\<forall>j \<in> set [0..<5]. p j = 0)
         else if p 0 > 1 \<or> p 1 > 323 \<or> p 2 > 323 \<or> p 3 > 323 \<or> p 4 > 323 then False
         else \<not> ((ucast (p 1) + ucast (p 2) * ucast (c ! 1 - 1) + ucast (p 3) * ucast (c ! 2 - 1) +
                  ucast (p 4) * ucast (c ! 3 - 1) :: u64) \<ge> ucast (c ! (5 + unat (p 0)))))"

definition c_instr :: "u32 list \<Rightarrow> u32 \<Rightarrow> nat \<Rightarrow> c_stop + u32" where
  "c_instr c defined pc =
     (let w = c ! (49 + pc); o' = w_op w; d = w_d w; a = w_a w; b = w_b w;
          def = (\<lambda>r. defined AND push_bit (unat r) 1 \<noteq> 0)
      in if of_nat pc \<ge> c ! 8 then (if w \<noteq> 0 then Inl CFalse else Inr defined)
         else if of_nat pc = c ! 8 - 1 then
           (if o' \<noteq> 3 \<or> d \<noteq> 0 \<or> w AND 0x3fffff \<noteq> 0 \<or> \<not> def a then Inl CFalse else Inr defined)
         else rbind
           (if o' = 1 then reject (a \<ge> c ! 7 \<or> w AND 0x3fffff \<noteq> 0) CFalse
            else if o' = 2 \<or> o' = 4 \<or> o' = 5 then reject (\<not> def a \<or> \<not> def b \<or> w AND 0x7ffff \<noteq> 0) CFalse
            else if o' = 6 \<or> o' = 7 then reject (\<not> def a) CFalse
            else Inl CFalse)
           (\<lambda>_. Inr (defined OR push_bit (unat d) 1)))"

definition raveil_fold_validate :: "u32 list \<Rightarrow> bool" where
  "raveil_fold_validate c \<longleftrightarrow>
     c_header_ok c \<and> (\<forall>v \<in> set [0..<8]. c_view_ok c v) \<and> (case foldM (c_instr c) 0 [0..<16] of Inl _ \<Rightarrow> False | Inr _ \<Rightarrow> True)"

text \<open>The switch of the interpreter: registers and accumulator before and after one word.\<close>

definition c_exec :: "u32 list \<Rightarrow> u32 list \<Rightarrow> u32 \<Rightarrow> u32 \<Rightarrow> u32 \<Rightarrow> u32 list \<times> u32 \<Rightarrow> nat \<Rightarrow> c_stop + (u32 list \<times> u32)" where
  "c_exec c inputs i j k s pc =
     (let w = c ! (49 + pc); d = unat (w_d w); a = unat (w_a w); b = unat (w_b w);
          imm = w AND 0x3fffff; values = fst s; acc = snd s; o' = w_op w
      in if o' = 1 then
           (let v = (\<lambda>n. c ! (9 + 5 * a + n));
                address = v 1 + v 2 * i + v 3 * j + v 4 * k;
                at = unat (324 * v 0 + address)
            in if at < 648 then Inr (values[d := inputs ! at], acc) else Inl CUndefined)
         else if o' = 2 then Inr (values[d := values ! a + values ! b], acc)
         else if o' = 3 then
           Inr (values, if c ! 4 \<noteq> 0 then (if acc > values ! a then acc else values ! a) else acc + values ! a)
         else if o' = 4 then Inr (values[d := (if values ! a > values ! b then values ! a else values ! b)], acc)
         else if o' = 5 then Inr (values[d := ucast (ucast (values ! a) * ucast (values ! b) :: u64)], acc)
         else if o' = 6 then Inr (values[d := values ! a + imm], acc)
         else if o' = 7 then Inr (values[d := (if values ! a \<ge> imm then 1 else 0)], acc)
         else Inl CFalse)"

definition c_cell :: "u32 list \<Rightarrow> u32 list \<Rightarrow> nat \<Rightarrow> nat \<Rightarrow> c_stop + u32" where
  "c_cell c inputs i j =
     foldM (\<lambda>acc k. rbind (foldM (c_exec c inputs (of_nat i) (of_nat j) (of_nat k)) (replicate 8 0, acc)
                            [0..<unat (c ! 8)]) (\<lambda>s. Inr (snd s)))
       0 [0..<unat (c ! 3)]"

definition raveil_fold_evaluate :: "u32 list \<Rightarrow> u32 list \<Rightarrow> c_stop + u32 list" where
  "raveil_fold_evaluate c inputs =
     (if \<not> raveil_fold_validate c then Inl CFalse
      else mapM (\<lambda>(i, j). c_cell c inputs i j) (region_cells (unat (c ! 1)) (unat (c ! 2))))"

text \<open>The 648-word input array of a decoded request: two areas of 324 words.\<close>

definition request_inputs :: "int list \<Rightarrow> int list \<Rightarrow> u32 list" where
  "request_inputs xs ys =
     map word_of_int xs @ replicate (324 - length xs) 0 @ map word_of_int ys @ replicate (324 - length ys) 0"

end
