(* ===== verification/Region_Machine.thy ===== *)
theory Region_Machine
  imports Region_Alloc Fold_Machine
begin

unbundle bit_operations_syntax

text \<open>
  The compiler against the guest: the words \<open>compile_region\<close> emits, run by the C interpreter
  on 32-bit registers, compute what the SSA interpreter \<open>reference\<close> computes on Python
  integers. The proof follows the allocator node by node; the relation between the two
  executions is that every live name's register holds the name's value.
\<close>

section \<open>Layout of a compiled configuration\<close>

lemma concat_nth_uniform:
  "(\<And>x. x \<in> set xs \<Longrightarrow> length x = w) \<Longrightarrow> a < length xs \<Longrightarrow> n < w \<Longrightarrow> concat xs ! (w * a + n) = xs ! a ! n"
proof (induction xs arbitrary: a)
  case (Cons x xs)
  then show ?case by (cases a) (auto simp: nth_append)
qed simp

lemma length_concat_uniform:
  "(\<And>x. x \<in> set xs \<Longrightarrow> length x = w) \<Longrightarrow> length (concat xs) = w * length xs"
  by (induction xs) auto

definition config_layout :: "region \<Rightarrow> int list \<Rightarrow> int list \<Rightarrow> bool" where
  "config_layout r ws c \<longleftrightarrow>
     c ! 1 = jint (r_shape r ! 0) \<and> c ! 2 = jint (r_shape r ! 1) \<and> c ! 3 = jint (r_extent r) \<and>
     c ! 4 = fold_index (r_fold r) \<and> c ! 5 = jint (r_lengths r ! 0) \<and> c ! 6 = jint (r_lengths r ! 1) \<and>
     c ! 7 = int (length (r_views r)) \<and> c ! 8 = int (length ws) \<and>
     (\<forall>q < length ws. c ! (49 + q) = ws ! q) \<and>
     (\<forall>a < length (r_views r). length (view_ints (snd (r_views r ! a))) = 5 \<and>
        (\<forall>n < 5. c ! (9 + 5 * a + n) = view_ints (snd (r_views r ! a)) ! n))"

lemma view_words_Inr:
  assumes "view_words views = Inr vs"
  obtains xss where "vs = concat xss" "length xss = length views" "\<And>x. x \<in> set xss \<Longrightarrow> length x = 5"
    "\<And>a. a < length views \<Longrightarrow> snd (views ! a) = JList (xss ! a)"
proof -
  let ?f = "\<lambda>(_ :: string, v). case v of
       JList xs \<Rightarrow> if length xs = 5 then Inr xs
         else Inl (ValueError ''view is [buffer, offset, i stride, j stride, k stride]'')
     | _ \<Rightarrow> Inl (ValueError ''view is [buffer, offset, i stride, j stride, k stride]'')"
  obtain xss where xss: "mapM ?f views = Inr xss" "vs = concat xss"
    using assms by (auto simp: view_words_def res_simps)
  have f: "?f p = Inr xs \<Longrightarrow> snd p = JList xs \<and> length xs = 5" for p xs
    by (cases p) (auto split: json.splits)
  have len: "length xss = length views" using xss(1) by (rule mapM_Inr_length)
  have "snd (views ! a) = JList (xss ! a) \<and> length (xss ! a) = 5" if "a < length views" for a
    using f [OF mapM_Inr_nth [OF xss(1) that]] .
  then show ?thesis
    using that [OF xss(2) len] by (metis in_set_conv_nth len)
qed

lemma compile_region_Inr:
  assumes "compile_region j = Inr c"
  obtains r ws where "check_region j = Inr r" "emit_words r = Inr ws" "config_ok c" "config_layout r ws c"
    "length ws \<le> 16" "length (r_views r) \<le> 8"
proof -
  obtain r ws vs where r: "check_region j = Inr r" and ws: "emit_words r = Inr ws"
    and vs: "view_words (r_views r) = Inr vs"
    and valid: "validate_config (JList ([JInt MAGIC] @ r_shape r @ [r_extent r, JInt (fold_index (r_fold r))] @
       r_lengths r @ [JInt (int (length (r_views r))), JInt (int (length ws))] @ vs @
       replicate (40 - 5 * length (r_views r)) (JInt 0) @
       map JInt ws @ replicate (16 - length ws) (JInt 0))) = Inr c"
    using assms unfolding compile_region_def by (simp only: res_simps) blast
  have ok: "region_ok r" using r by (rule check_region_Inr)
  obtain s0 s1 l0 l1 where sh: "r_shape r = [s0, s1]" and ln: "r_lengths r = [l0, l1]"
    using ok by (auto simp: region_ok_def length_Suc_conv eval_nat_numeral)
  obtain xss where xss: "vs = concat xss" "length xss = length (r_views r)"
    "\<And>x. x \<in> set xss \<Longrightarrow> length x = 5"
    "\<And>a. a < length (r_views r) \<Longrightarrow> snd (r_views r ! a) = JList (xss ! a)"
    using view_words_Inr [OF vs] by metis
  have lvs: "length vs = 5 * length (r_views r)"
    using length_concat_uniform [of xss 5] xss by simp
  have cok: "config_ok c" and list: "map JInt c = [JInt MAGIC, s0, s1, r_extent r, JInt (fold_index (r_fold r)), l0, l1,
      JInt (int (length (r_views r))), JInt (int (length ws))] @ vs @
       replicate (40 - 5 * length (r_views r)) (JInt 0) @ map JInt ws @ replicate (16 - length ws) (JInt 0)"
    using valid by (simp_all add: validate_config_iff sh ln)
  have len: "length c = 65" using cok by (simp add: config_ok_def)
  have nv: "length (r_views r) \<le> 8" using ok by (simp add: region_ok_def)
  have nth: "c ! m = jint ((map JInt c) ! m)" if "m < 65" for m using that len by simp
  have views: "c ! (9 + 5 * a + n) = view_ints (snd (r_views r ! a)) ! n" if "a < length (r_views r)" "n < 5" for a n
  proof -
    have "map JInt c ! (9 + (5 * a + n)) = vs ! (5 * a + n)"
      using that lvs unfolding list by (simp add: nth_append)
    also have "\<dots> = xss ! a ! n"
      using concat_nth_uniform [of xss 5 a n] xss that by simp
    finally show ?thesis
      using nth [of "9 + (5 * a + n)"] that nv xss(4) [of a] xss(2,3)
      by (simp add: add.assoc)
  qed
  have lens: "length (view_ints (snd (r_views r ! a))) = 5" if "a < length (r_views r)" for a
    using that xss(2,3,4) by simp
  have words: "c ! (49 + q) = ws ! q" if "q < length ws" for q
  proof -
    have "length (map JInt c) = 65" using len by simp
    then have "length ws \<le> 16" using lvs nv unfolding list by simp
    moreover have "map JInt c ! (9 + (40 + q)) = JInt (ws ! q)"
      using that lvs nv unfolding list by (auto simp: nth_append)
    ultimately show ?thesis using nth [of "9 + (40 + q)"] that by simp
  qed
  have "c ! 8 \<le> 16" using cok header_bounds(16) by (auto simp: config_ok_def)
  moreover have fields: "c ! 1 = jint s0" "c ! 2 = jint s1" "c ! 3 = jint (r_extent r)"
    "c ! 4 = fold_index (r_fold r)" "c ! 5 = jint l0" "c ! 6 = jint l1" "c ! 7 = int (length (r_views r))"
    "c ! 8 = int (length ws)"
    by (simp_all add: nth list del: list.map)
  ultimately have "length ws \<le> 16" by simp
  then show ?thesis
    using that [OF r ws cok _ _ nv] fields words views lens by (simp add: config_layout_def sh ln)
qed

section \<open>Fields of 32-bit instruction words\<close>

lemma uint_of_int32 [simp]: "0 \<le> x \<Longrightarrow> x < 2 ^ 32 \<Longrightarrow> uint (word_of_int x :: u32) = x"
  by (simp add: uint_word_of_int_eq take_bit_int_eq_self)

lemma word_field:
  assumes "0 \<le> x" "x < 2 ^ 32"
  shows "drop_bit n (word_of_int x :: u32) = word_of_int (drop_bit n x)"
proof (rule bit_eqI)
  fix i
  have "take_bit 32 x = x" using assms by (simp add: take_bit_int_eq_self)
  then have "bit x (n + i) \<Longrightarrow> n + i < 32" by (metis bit_take_bit_iff)
  then show "bit (drop_bit n (word_of_int x :: u32)) i = bit (word_of_int (drop_bit n x) :: u32) i"
    by (auto simp: bit_drop_bit_eq bit_word_of_int_iff)
qed

lemma word_take_bit: "take_bit n (word_of_int x :: u32) = word_of_int (take_bit n x)"
  by (rule bit_eqI) (auto simp: bit_take_bit_iff bit_word_of_int_iff)

lemma word_and_7: "(w :: u32) AND 7 = take_bit 3 w"
  by (simp add: take_bit_eq_mask mask_eq_exp_minus_1)

lemma word_and_22: "(w :: u32) AND 0x3fffff = take_bit 22 w"
  by (simp add: take_bit_eq_mask mask_eq_exp_minus_1)

lemma word_and_19: "(w :: u32) AND 0x7ffff = take_bit 19 w"
  by (simp add: take_bit_eq_mask mask_eq_exp_minus_1)

lemma w_fields:
  assumes "0 \<le> x" "x < 2 ^ 32"
  shows "w_op (word_of_int x) = word_of_int (f_op x)"
    and "w_d (word_of_int x) = word_of_int (f_d x)"
    and "w_a (word_of_int x) = word_of_int (f_a x)"
    and "w_b (word_of_int x) = word_of_int (f_b x)"
  using assms by (simp_all add: w_op_def w_d_def w_a_def w_b_def f_op_def f_d_def f_a_def f_b_def
      word_and_7 word_field word_take_bit)

section \<open>One instruction\<close>

definition enc_a :: "(string \<times> json) list \<Rightarrow> node \<Rightarrow> int list \<Rightarrow> int" where
  "enc_a views n regs = (if nop n = OpLoad then int (index_of (nview n) (map fst views)) else regs ! 0)"

definition enc_m :: "node \<Rightarrow> int list \<Rightarrow> int" where
  "enc_m n regs = (if nop n = OpLoad then 0 else if has_imm (nop n) then nimm n else push_bit 19 (regs ! 1))"

text \<open>What the encoder needs to know of a node that passed the region check.\<close>

definition encodable :: "(string \<times> json) list \<Rightarrow> node \<Rightarrow> int list \<Rightarrow> int \<Rightarrow> bool" where
  "encodable views n regs dst \<longleftrightarrow>
     nop n \<in> {OpLoad, OpAdd, OpMul, OpMax, OpAddImm, OpGeImm} \<and> 0 \<le> dst \<and> dst < 8 \<and>
     length regs = arity (nop n) \<and> (\<forall>r \<in> set regs. 0 \<le> r \<and> r < 8) \<and>
     (nop n = OpLoad \<longrightarrow> index_of (nview n) (map fst views) < 8) \<and>
     (has_imm (nop n) \<longrightarrow> 0 \<le> nimm n \<and> nimm n < 2 ^ 22)"

lemma instr_word_sum:
  assumes "encodable views n regs dst"
  shows "instr_word views n regs dst
      = op_code (nop n) * 2 ^ 28 + dst * 2 ^ 25 + enc_a views n regs * 2 ^ 22 + enc_m n regs"
    and "0 \<le> enc_a views n regs" "enc_a views n regs < 8" "0 \<le> enc_m n regs" "enc_m n regs < 2 ^ 22"
    and "1 \<le> op_code (nop n)" "op_code (nop n) < 8"
proof -
  have regs: "0 \<le> regs ! i \<and> regs ! i < 8" if "i < length regs" for i
    using assms that by (auto simp: encodable_def)
  show a: "0 \<le> enc_a views n regs" "enc_a views n regs < 8"
    using assms regs by (auto simp: encodable_def enc_a_def)
  show m: "0 \<le> enc_m n regs" "enc_m n regs < 2 ^ 22"
    using assms regs [of 1] by (auto simp: encodable_def enc_m_def has_imm_def push_bit_eq_mult)
  show "1 \<le> op_code (nop n)" "op_code (nop n) < 8"
    using assms by (auto simp: encodable_def)
  have "instr_word views n regs dst
     = (push_bit 28 (op_code (nop n)) OR push_bit 25 dst) OR push_bit 22 (enc_a views n regs) OR enc_m n regs"
    by (simp add: instr_word_def enc_a_def enc_m_def Let_def or.assoc)
  also have "\<dots> = op_code (nop n) * 2 ^ 28 + dst * 2 ^ 25 + enc_a views n regs * 2 ^ 22 + enc_m n regs"
    using assms a m by (intro encode_word) (auto simp: encodable_def)
  finally show "instr_word views n regs dst
      = op_code (nop n) * 2 ^ 28 + dst * 2 ^ 25 + enc_a views n regs * 2 ^ 22 + enc_m n regs" .
qed

lemma instr_word_fields:
  assumes "encodable views n regs dst"
  defines "x \<equiv> instr_word views n regs dst"
  shows "w_op (word_of_int x) = word_of_int (op_code (nop n))"
    and "unat (w_d (word_of_int x)) = nat dst"
    and "unat (w_a (word_of_int x)) = nat (enc_a views n regs)"
    and "unat (w_b (word_of_int x)) = nat (enc_m n regs div 2 ^ 19)"
    and "word_of_int x AND 0x3fffff = (word_of_int (enc_m n regs) :: u32)"
    and "0 \<le> x" "x < 2 ^ 32"
proof -
  note sum = instr_word_sum [OF assms(1)]
  have dst: "0 \<le> dst" "dst < 8" using assms(1) by (simp_all add: encodable_def)
  note dec = decode_fields [of "op_code (nop n)" dst "enc_a views n regs" "enc_m n regs", OF _ _ dst sum(2-5)]
  have f: "f_op x = op_code (nop n)" "f_d x = dst" "f_a x = enc_a views n regs"
    "f_b x = enc_m n regs div 2 ^ 19" "take_bit 22 x = enc_m n regs" "0 \<le> x" "x < 2 ^ 32"
    using dec sum(6,7) by (simp_all add: x_def sum(1))
  show "0 \<le> x" "x < 2 ^ 32" by (fact f)+
  note wf = w_fields [OF f(6,7)]
  show "w_op (word_of_int x) = word_of_int (op_code (nop n))" by (simp add: wf f)
  have small: "0 \<le> y \<Longrightarrow> y < 8 \<Longrightarrow> unat (word_of_int y :: u32) = nat y" for y
    by (simp add: unat_eq_nat_uint)
  show "unat (w_d (word_of_int x)) = nat dst" using small [OF dst] by (simp add: wf f)
  show "unat (w_a (word_of_int x)) = nat (enc_a views n regs)" using small sum(2,3) by (simp add: wf f)
  have "enc_m n regs div 2 ^ 19 < 8" "0 \<le> enc_m n regs div 2 ^ 19" using sum(4,5) by auto
  then show "unat (w_b (word_of_int x)) = nat (enc_m n regs div 2 ^ 19)" using small by (simp add: wf f)
  show "word_of_int x AND 0x3fffff = (word_of_int (enc_m n regs) :: u32)"
    by (simp add: word_and_22 word_take_bit f)
qed

text \<open>The word a machine load reads, or undefined behaviour outside the input array.\<close>

definition c_load :: "u32 list \<Rightarrow> u32 list \<Rightarrow> u32 \<Rightarrow> u32 \<Rightarrow> u32 \<Rightarrow> nat \<Rightarrow> c_stop + u32" where
  "c_load c inputs i j k a =
     (let v = (\<lambda>n. c ! (9 + 5 * a + n)); at = unat (324 * v 0 + (v 1 + v 2 * i + v 3 * j + v 4 * k))
      in if at < 648 then Inr (inputs ! at) else Inl CUndefined)"

lemma word_of_int_take32: "(word_of_int (take_bit 32 x) :: u32) = word_of_int x"
  by (rule bit_eqI) (auto simp: bit_take_bit_iff bit_word_of_int_iff)

lemma word_mul_ucast: "(ucast (ucast a * ucast b :: u64) :: u32) = a * b"
proof -
  have "uint (ucast (ucast a * ucast b :: u64) :: u32) = uint (a * b)"
    using uint_lt2p [of a] uint_lt2p [of b]
    by (simp add: uint_word_ariths unsigned_ucast_eq take_bit_eq_mod mod_mod_cancel)
  then show ?thesis by (rule word_uint_eqI)
qed

text \<open>
  Executing the word of a node writes the node's 32-bit value into its destination, given
  that the operand registers hold the operand values.
\<close>

lemma exec_node:
  assumes enc: "encodable views n regs dst"
    and word: "c ! (49 + pc) = word_of_int (instr_word views n regs dst)"
    and args: "length args = length regs"
      "\<And>m. m < length regs \<Longrightarrow> vs ! nat (regs ! m) = word_of_int (args ! m)"
      "\<And>v. v \<in> set args \<Longrightarrow> 0 \<le> v \<and> v < 2 ^ 32"
    and loaded: "nop n = OpLoad \<Longrightarrow> c_load c inputs i j k (index_of (nview n) (map fst views)) = Inr (word_of_int l)"
  shows "c_exec c inputs i j k (vs, acc) pc
     = Inr (vs[nat dst := word_of_int (take_bit 32 (apply_op (nop n) (nimm n) args l))], acc)"
proof -
  note fields = instr_word_fields [OF enc]
  have ar: "length regs = arity (nop n)" using enc by (simp add: encodable_def)
  have range: "0 \<le> args ! m \<and> args ! m < 2 ^ 32" if "m < length regs" for m
    using args(1,3) that by simp
  consider (load) "nop n = OpLoad" | (bin) "nop n \<in> {OpAdd, OpMul, OpMax}" | (imm) "nop n \<in> {OpAddImm, OpGeImm}"
    using enc by (auto simp: encodable_def)
  then show ?thesis
  proof cases
    case load
    have a: "unat (w_a (word_of_int (instr_word views n regs dst))) = index_of (nview n) (map fst views)"
      using load by (simp add: fields(3) enc_a_def)
    show ?thesis
      using loaded [OF load] load
      by (simp add: c_exec_def word fields(1,2) a Let_def c_load_def word_of_int_take32 split: if_splits)
  next
    case bin
    have reg: "unat (w_a (word_of_int (instr_word views n regs dst))) = nat (regs ! 0)"
      "unat (w_b (word_of_int (instr_word views n regs dst))) = nat (regs ! 1)" "length regs = 2"
      using bin ar by (auto simp: fields(3,4) enc_a_def enc_m_def has_imm_def push_bit_eq_mult)
    have v: "vs ! nat (regs ! 0) = word_of_int (args ! 0)" "vs ! nat (regs ! 1) = word_of_int (args ! 1)"
      using args(2) reg(3) by auto
    have rng: "0 \<le> args ! 0" "args ! 0 < 2 ^ 32" "0 \<le> args ! 1" "args ! 1 < 2 ^ 32"
      using range reg(3) by auto
    have gt: "(word_of_int (args ! 0) :: u32) > word_of_int (args ! 1) \<longleftrightarrow> args ! 0 > args ! 1"
      using rng by (simp add: word_less_def)
    from bin consider "nop n = OpAdd" | "nop n = OpMul" | "nop n = OpMax" by auto
    then show ?thesis
      by cases (simp_all add: c_exec_def word fields(1,2) Let_def reg(1,2) v [simplified] word_of_int_take32
          word_mul_ucast gt [simplified] max_def)
  next
    case imm
    have reg: "unat (w_a (word_of_int (instr_word views n regs dst))) = nat (regs ! 0)"
      and and_imm: "word_of_int (instr_word views n regs dst) AND 0x3fffff = (word_of_int (nimm n) :: u32)"
      and one: "length regs = 1"
      using imm ar by (auto simp: fields(3,5) enc_a_def enc_m_def has_imm_def)
    have v: "vs ! nat (regs ! 0) = word_of_int (args ! 0)" using args(2) one by auto
    have "has_imm (nop n)" using imm by (auto simp: has_imm_def)
    with enc have "0 \<le> nimm n" "nimm n < 2 ^ 22" by (simp_all add: encodable_def)
    then have rng: "0 \<le> args ! 0" "args ! 0 < 2 ^ 32" "0 \<le> nimm n" "nimm n < 2 ^ 32"
      using range [of 0] one by simp_all
    have ge: "(word_of_int (args ! 0) :: u32) \<ge> word_of_int (nimm n) \<longleftrightarrow> args ! 0 \<ge> nimm n"
      using rng by (simp add: word_le_def)
    from imm consider "nop n = OpAddImm" | "nop n = OpGeImm" by auto
    then show ?thesis
      by cases (simp_all add: c_exec_def word fields(1,2) Let_def reg and_imm v word_of_int_take32 ge)
  qed
qed

section \<open>The whole program\<close>

definition sim :: "alloc \<Rightarrow> (string \<rightharpoonup> int) \<Rightarrow> u32 list \<Rightarrow> bool" where
  "sim s env vs \<longleftrightarrow> length vs = 8 \<and>
     (\<forall>x r. al_live s x = Some r \<longrightarrow> (\<exists>v. env x = Some v \<and> vs ! nat r = word_of_int v))"

lemma consume_words: "consume s x = Inr s' \<Longrightarrow> al_words s' = al_words s"
  by (auto simp: consume_def Let_def res_simps split: if_splits)

lemma alloc_step_words: "alloc_step views s n = Inr s' \<Longrightarrow> \<exists>w. al_words s' = al_words s @ [w]"
proof -
  assume "alloc_step views s n = Inr s'"
  then obtain regs s1 where "foldM consume s (nargs n) = Inr s1"
    and rest: "(case sort (al_free s1) of
        [] \<Rightarrow> Inl (ValueError ''map needs more than eight live registers'')
      | dst # rest \<Rightarrow>
         (let s2 = s1\<lparr>al_live := (al_live s1)(nid n \<mapsto> dst), al_free := rest,
                      al_words := al_words s1 @ [instr_word views n regs dst]\<rparr>
          in if al_uses s2 (nid n) = 0
             then Inr (s2\<lparr>al_live := (al_live s2)(nid n := None), al_free := rest @ [dst]\<rparr>)
             else Inr s2)) = Inr s'"
    unfolding alloc_step_def by (simp only: res_simps) blast
  then have "al_words s1 = al_words s"
    by (elim foldM_invariant) (auto dest: consume_words)
  then show ?thesis
    using rest by (auto simp: Let_def split: list.splits if_splits)
qed

lemma alloc_words_prefix:
  "foldM (alloc_step views) s ns = Inr s' \<Longrightarrow> \<exists>ws. al_words s' = al_words s @ ws"
proof (induction ns arbitrary: s)
  case (Cons n ns)
  then obtain s1 where "alloc_step views s n = Inr s1" "foldM (alloc_step views) s1 ns = Inr s'"
    by (auto elim: rbind_InrE)
  then show ?case
    using Cons.IH [of s1] alloc_step_words [of views s n s1] by auto
qed simp

lemma index_of_less: "x \<in> set xs \<Longrightarrow> index_of x xs < length xs"
  unfolding index_of_def by (induction xs) auto

lemma nth_index_of: "x \<in> set xs \<Longrightarrow> xs ! index_of x xs = x"
  unfolding index_of_def by (induction xs) auto

text \<open>One node of the simulation.\<close>

lemma sim_step:
  assumes inv: "regs_inv s" "uses_inv seen (n # ns) result s" "node_ok seen n" "region_node_ok views n"
    and views: "length views \<le> 8" and step: "alloc_step views s n = Inr s'"
    and word: "c ! (49 + length (al_words s)) = word_of_int (al_words s' ! length (al_words s))"
    and sim: "sim s env vs" and words: "words_map env" and eval: "eval_node load env n = Inr env'"
    and loads: "nop n = OpLoad \<Longrightarrow> \<exists>l. load (nview n) = Inr l \<and>
       c_load c inputs i j k (index_of (nview n) (map fst views)) = Inr (word_of_int l)"
  shows "\<exists>vs'. c_exec c inputs i j k (vs, acc) (length (al_words s)) = Inr (vs', acc) \<and> sim s' env' vs'"
proof -
  obtain dst where dst: "0 \<le> dst" "dst \<le> 7" "\<forall>a \<in> set (nargs n). al_live s a \<noteq> None"
    "al_words s' = al_words s @ [instr_word views n (map (\<lambda>a. the (al_live s a)) (nargs n)) dst]"
    "\<And>x r. x \<noteq> nid n \<Longrightarrow> al_live s' x = Some r \<Longrightarrow> al_live s x = Some r \<and> r \<noteq> dst"
    "\<And>r. al_live s' (nid n) = Some r \<Longrightarrow> r = dst"
    using alloc_step_spec(3) [OF inv(1-3) step] by blast
  let ?regs = "map (\<lambda>a. the (al_live s a)) (nargs n)"
  obtain args l where args: "mapM (mget env) (nargs n) = Inr args"
    and l: "(if nop n = OpLoad then load (nview n) else Inr 0) = Inr l"
    and env': "env' = env(nid n \<mapsto> take_bit 32 (apply_op (nop n) (nimm n) args l))"
    using eval unfolding eval_node_def by (simp only: res_simps) blast
  have live: "\<exists>r. al_live s a = Some r \<and> 0 \<le> r \<and> r < 8" if "a \<in> set (nargs n)" for a
    using dst(3) that regs_inv_range [OF inv(1)] by fastforce
  have "\<forall>r \<in> set ?regs. 0 \<le> r \<and> r < 8" using live by force
  moreover have "nop n = OpLoad \<Longrightarrow> index_of (nview n) (map fst views) < 8"
    using inv(4) views index_of_less [of "nview n" "map fst views"] by (simp add: region_node_ok_def)
  ultimately have enc: "encodable views n ?regs dst"
    using inv(3,4) dst(1,2) by (simp add: encodable_def node_ok_def region_node_ok_def)
  have regval: "vs ! nat (?regs ! m) = word_of_int (args ! m)" if "m < length ?regs" for m
  proof -
    have "nargs n ! m \<in> set (nargs n)" using that by simp
    then obtain r where "al_live s (nargs n ! m) = Some r" using live by blast
    moreover have "env (nargs n ! m) = Some (args ! m)"
      using mapM_Inr_nth [OF args] that by (simp add: res_simps)
    ultimately show ?thesis using sim that unfolding sim_def by fastforce
  qed
  have argrange: "0 \<le> v \<and> v < 2 ^ 32" if "v \<in> set args" for v
  proof -
    obtain m where "m < length args" "v = args ! m" using \<open>v \<in> set args\<close> by (auto simp: in_set_conv_nth)
    then have "env (nargs n ! m) = Some v"
      using mapM_Inr_nth [OF args, of m] mapM_Inr_length [OF args] by (simp add: res_simps)
    then show ?thesis using words by (auto simp: words_map_def)
  qed
  have "c_exec c inputs i j k (vs, acc) (length (al_words s))
     = Inr (vs[nat dst := word_of_int (take_bit 32 (apply_op (nop n) (nimm n) args l))], acc)"
  proof (rule exec_node [OF enc])
    show "c ! (49 + length (al_words s)) = word_of_int (instr_word views n ?regs dst)"
      using word by (simp add: dst(4))
    show "length args = length ?regs" using mapM_Inr_length [OF args] by simp
    show "nop n = OpLoad \<Longrightarrow> c_load c inputs i j k (index_of (nview n) (map fst views)) = Inr (word_of_int l)"
      using loads l by auto
  qed (use regval argrange in auto)
  moreover have "sim s' env' (vs[nat dst := word_of_int (take_bit 32 (apply_op (nop n) (nimm n) args l))])"
  proof -
    have "\<exists>v. env' x = Some v \<and> vs[nat dst := word_of_int (take_bit 32 (apply_op (nop n) (nimm n) args l))] ! nat r = word_of_int v"
      if x: "al_live s' x = Some r" for x r
    proof (cases "x = nid n")
      case True
      with x dst(6) have "r = dst" by simp
      with True dst(1,2) sim show ?thesis by (auto simp: env' sim_def)
    next
      case False
      have r: "al_live s x = Some r" "r \<noteq> dst" using dst(5) [OF False x] by auto
      have "0 \<le> r" using regs_inv_range [OF inv(1) r(1)] by simp
      with r(2) dst(1) have "nat r \<noteq> nat dst" by auto
      with r(1) False sim show ?thesis by (auto simp: env' sim_def)
    qed
    then show ?thesis using sim by (auto simp: sim_def)
  qed
  ultimately show ?thesis by blast
qed

lemma sim_loop:
  assumes "regs_inv s" "uses_inv seen ns result s" "nodes_ok seen ns"
    and "\<And>n. n \<in> set ns \<Longrightarrow> region_node_ok views n" and "length views \<le> 8"
    and "foldM (alloc_step views) s ns = Inr s'"
    and "\<And>q. q < length (al_words s') \<Longrightarrow> c ! (49 + q) = word_of_int (al_words s' ! q)"
    and "sim s env vs" "words_map env" "foldM (eval_node load) env ns = Inr env'"
    and "\<And>n. n \<in> set ns \<Longrightarrow> nop n = OpLoad \<Longrightarrow> \<exists>l. load (nview n) = Inr l \<and>
       c_load c inputs i j k (index_of (nview n) (map fst views)) = Inr (word_of_int l)"
  shows "\<exists>vs'. foldM (c_exec c inputs i j k) (vs, acc) [length (al_words s)..<length (al_words s')] = Inr (vs', acc) \<and>
     sim s' env' vs' \<and> regs_inv s' \<and> uses_inv (seen \<union> nid ` set ns) [] result s' \<and>
     length (al_words s') = length (al_words s) + length ns"
  using assms
proof (induction ns arbitrary: s seen env vs)
  case (Cons n ns)
  obtain s1 where s1: "alloc_step views s n = Inr s1" "foldM (alloc_step views) s1 ns = Inr s'"
    using Cons.prems(6) by (auto elim: rbind_InrE)
  obtain env1 where v1: "eval_node load env n = Inr env1" "foldM (eval_node load) env1 ns = Inr env'"
    using Cons.prems(10) by (auto elim: rbind_InrE)
  obtain w where w: "al_words s1 = al_words s @ [w]" using alloc_step_words [OF s1(1)] by blast
  obtain ws where ws: "al_words s' = al_words s1 @ ws" using alloc_words_prefix [OF s1(2)] by blast
  have word: "c ! (49 + length (al_words s)) = word_of_int (al_words s1 ! length (al_words s))"
    using Cons.prems(7) [of "length (al_words s)"] by (simp add: w ws nth_append)
  have ok: "node_ok seen n" "region_node_ok views n" using Cons.prems(3,4) by auto
  obtain vs1 where vs1: "c_exec c inputs i j k (vs, acc) (length (al_words s)) = Inr (vs1, acc)" "sim s1 env1 vs1"
    using sim_step [OF Cons.prems(1,2) ok Cons.prems(5) s1(1) word Cons.prems(8,9) v1(1), of inputs i j k acc]
      Cons.prems(11) [of n] by auto
  have "\<exists>vs'. foldM (c_exec c inputs i j k) (vs1, acc) [length (al_words s1)..<length (al_words s')] = Inr (vs', acc) \<and>
     sim s' env' vs' \<and> regs_inv s' \<and> uses_inv (insert (nid n) seen \<union> nid ` set ns) [] result s' \<and>
     length (al_words s') = length (al_words s1) + length ns"
  proof (rule Cons.IH)
    show "regs_inv s1" "uses_inv (insert (nid n) seen) ns result s1"
      using alloc_step_spec(1,2) [OF Cons.prems(1,2) ok(1) s1(1)] by auto
    show "words_map env1" using v1(1) Cons.prems(9) by (rule eval_node_words)
  qed (use Cons.prems s1 v1 vs1 in auto)
  moreover have "[length (al_words s)..<length (al_words s')]
      = length (al_words s) # [length (al_words s1)..<length (al_words s')]"
    by (simp add: w ws upt_conv_Cons del: upt_Suc)
  ultimately show ?case
    using vs1(1) by (simp add: w)
qed simp

lemma map_of_index:
  "name \<in> fst ` set xs \<Longrightarrow> map_of xs name = Some (snd (xs ! index_of name (map fst xs)))"
  unfolding index_of_def by (induction xs) auto

lemma unat_of_int32: "0 \<le> x \<Longrightarrow> x < 2 ^ 32 \<Longrightarrow> unat (word_of_int x :: u32) = nat x"
  by (simp add: unat_eq_nat_uint)

text \<open>A buffer of each input, as the request lays them out.\<close>

lemma request_inputs_nth:
  assumes "length A \<le> 324" "length B \<le> 324"
  shows "n < length A \<Longrightarrow> request_inputs A B ! n = word_of_int (A ! n)"
    and "n < length B \<Longrightarrow> request_inputs A B ! (324 + n) = word_of_int (B ! n)"
  using assms by (auto simp: request_inputs_def nth_append)

text \<open>Both interpreters read the same word through an admitted view.\<close>

lemma load_agree:
  assumes ok: "config_ok c" and lay: "config_layout r ws c"
    and len: "int (length A) = c ! 5" "int (length B) = c ! 6"
    and name: "name \<in> keys (r_views r)" and nv: "length (r_views r) \<le> 8"
    and ijk: "int i < c ! 1" "int j < c ! 2" "int k < c ! 3"
  shows "\<exists>l. load_view (r_views r) [A, B] (int i) (int j) (int k) name = Inr l \<and>
    c_load (map word_of_int c) (request_inputs A B) (of_nat i) (of_nat j) (of_nat k)
      (index_of name (map fst (r_views r))) = Inr (word_of_int l)"
proof -
  define a where "a = index_of name (map fst (r_views r))"
  have a: "a < length (r_views r)" using name index_of_less [of name "map fst (r_views r)"] by (simp add: a_def)
  have look: "dget (r_views r) name = Inr (snd (r_views r ! a))"
    using map_of_index [of name "r_views r"] name by (simp add: res_simps a_def)
  let ?p = "view_ints (snd (r_views r ! a))"
  have p: "c ! (9 + 5 * a + n) = ?p ! n" if "n < 5" for n
    using lay a that by (simp add: config_layout_def)
  have c65: "length c = 65" using ok by (simp add: config_ok_def)
  have hdr: "check_header c = Inr ()" using ok by (simp add: config_ok_def)
  define addr where "addr = ?p ! 1 + ?p ! 2 * int i + ?p ! 3 * int j + ?p ! 4 * int k"
  have va: "?p ! 0 = 0 \<or> ?p ! 0 = 1" "0 \<le> addr" "addr < (if ?p ! 0 = 0 then c ! 5 else c ! 6)"
    using view_address_bounds [OF ok, of a "int i" "int j" "int k"] lay a nv ijk p [of 0] p [of 1] p [of 2] p [of 3] p [of 4]
    by (simp_all add: config_layout_def addr_def)
  have l324: "length A \<le> 324" "length B \<le> 324" using len header_bounds(10,12) [OF hdr] by auto
  define buf where "buf = (if ?p ! 0 = 0 then A else B)"
  have buf: "py_nth [A, B] (?p ! 0) = Inr buf" "addr < int (length buf)"
    using va len by (auto simp: buf_def py_nth_def)
  have loaded: "load_view (r_views r) [A, B] (int i) (int j) (int k) name = Inr (buf ! nat addr)"
    using va(2) buf by (simp add: load_view_def look Let_def addr_def)
  have v: "map word_of_int c ! (9 + 5 * a + n) = (word_of_int (?p ! n) :: u32)" if "n < 5" for n
    using p [OF that] c65 a nv that by simp
  have sum: "(324 * word_of_int (?p ! 0) + (word_of_int (?p ! 1) + word_of_int (?p ! 2) * of_nat i +
      word_of_int (?p ! 3) * of_nat j + word_of_int (?p ! 4) * of_nat k) :: u32) = word_of_int (324 * ?p ! 0 + addr)"
    by (simp add: addr_def)
  have range: "0 \<le> 324 * ?p ! 0 + addr" "324 * ?p ! 0 + addr < 648"
    using va l324 len by (auto split: if_splits)
  have at: "unat (324 * word_of_int (?p ! 0) + (word_of_int (?p ! 1) + word_of_int (?p ! 2) * of_nat i +
      word_of_int (?p ! 3) * of_nat j + word_of_int (?p ! 4) * of_nat k) :: u32) = nat (324 * ?p ! 0 + addr)"
    unfolding sum by (rule unat_of_int32) (use range in simp_all)
  have "request_inputs A B ! nat (324 * ?p ! 0 + addr) = word_of_int (buf ! nat addr)"
  proof (cases "?p ! 0 = 0")
    case True
    then show ?thesis
      using request_inputs_nth(1) [OF l324, of "nat addr"] va(2) buf(2) by (simp add: buf_def)
  next
    case False
    then have "?p ! 0 = 1" using va(1) by simp
    moreover have "nat (324 + addr) = 324 + nat addr" using va(2) by simp
    ultimately show ?thesis
      using request_inputs_nth(2) [OF l324, of "nat addr"] va(2) buf(2) by (simp add: buf_def)
  qed
  then have "c_load (map word_of_int c) (request_inputs A B) (of_nat i) (of_nat j) (of_nat k) a
      = Inr (word_of_int (buf ! nat addr))"
    using range v [of 0] v [of 1] v [of 2] v [of 3] v [of 4]
    by (simp add: c_load_def Let_def at [unfolded One_nat_def] nat_less_iff)
  with loaded show ?thesis by (auto simp: a_def)
qed

text \<open>One iteration of the fold: the accumulators stay equal.\<close>

lemma iteration_agree:
  assumes r: "region_ok r" and emit: "emit_words r = Inr ws" and ok: "config_ok c" and lay: "config_layout r ws c"
    and len: "int (length A) = c ! 5" "int (length B) = c ! 6" and ws16: "length ws \<le> 16"
    and ijk: "int i < c ! 1" "int j < c ! 2" "int k < c ! 3" and acc: "0 \<le> acc" "acc < 2 ^ 32"
  defines "load \<equiv> load_view (r_views r) [A, B] (int i) (int j) (int k)"
  shows "\<exists>v. eval_nodes load (r_nodes r) (r_result r) = Inr v \<and> 0 \<le> v \<and> v < 2 ^ 32 \<and>
    rbind (foldM (c_exec (map word_of_int c) (request_inputs A B) (of_nat i) (of_nat j) (of_nat k))
        (replicate 8 0, word_of_int acc) [0..<unat (map word_of_int c ! 8 :: u32)]) (\<lambda>s. Inr (snd s))
      = Inr (word_of_int (fold_step (r_fold r) acc v))"
proof -
  let ?wc = "map word_of_int c :: u32 list"
  have nv: "length (r_views r) \<le> 8" and nodes: "nodes_ok {} (r_nodes r)"
    and nok: "\<And>n. n \<in> set (r_nodes r) \<Longrightarrow> region_node_ok (r_views r) n" and res: "r_result r \<in> nid ` set (r_nodes r)"
    using r by (auto simp: region_ok_def)
  have loads: "\<exists>l. load (nview n) = Inr l \<and> c_load ?wc (request_inputs A B) (of_nat i) (of_nat j) (of_nat k)
       (index_of (nview n) (map fst (r_views r))) = Inr (word_of_int l)"
    if "n \<in> set (r_nodes r)" "nop n = OpLoad" for n
    using load_agree [OF ok lay len _ nv ijk, of "nview n"] nok [OF that(1)] that(2)
    by (simp add: load_def region_node_ok_def)
  have "\<exists>l. load (nview n) = Inr l" if "n \<in> set (r_nodes r)" "nop n = OpLoad" for n
    using loads [OF that] by blast
  then obtain env where env: "foldM (eval_node load) Map.empty (r_nodes r) = Inr env" "dom env = nid ` set (r_nodes r)" "words_map env"
    using foldM_eval_total [of Map.empty "r_nodes r" load] nodes by auto
  obtain v where v: "env (r_result r) = Some v" using env(2) res by auto
  obtain s' reg where s': "foldM (alloc_step (r_views r)) (initial_alloc (r_nodes r) (r_result r)) (r_nodes r) = Inr s'"
    "al_live s' (r_result r) = Some reg" "ws = al_words s' @ [push_bit 28 3 OR push_bit 22 reg]"
    using emit unfolding emit_words_def by (auto simp: res_simps)
  have c65: "length c = 65" using ok by (simp add: config_ok_def)
  have code: "?wc ! (49 + q) = word_of_int (ws ! q)" if "q < length ws" for q
    using lay that c65 ws16 by (simp add: config_layout_def)
  then have code': "?wc ! (49 + q) = word_of_int (al_words s' ! q)" if "q < length (al_words s')" for q
    using that by (simp add: s'(3) nth_append)
  have "sim (initial_alloc (r_nodes r) (r_result r)) Map.empty (replicate 8 0)"
    by (simp add: sim_def initial_alloc_def)
  note sim0 = this
  have zero: "length (al_words (initial_alloc (r_nodes r) (r_result r))) = 0"
    by (simp add: initial_alloc_def)
  from sim_loop [OF initial_regs_inv initial_uses_inv nodes nok nv s'(1) code' sim0 words_map_empty env(1) loads,
      of "word_of_int acc"]
  obtain vs where vs: "foldM (c_exec ?wc (request_inputs A B) (of_nat i) (of_nat j) (of_nat k))
       (replicate 8 0, word_of_int acc) [0..<length (al_words s')] = Inr (vs, word_of_int acc)" "sim s' env vs" "regs_inv s'"
    unfolding zero by blast
  have reg: "0 \<le> reg" "reg < 8" using regs_inv_range [OF vs(3) s'(2)] by auto
  have vsv: "vs ! nat reg = word_of_int v" using vs(2) s'(2) v unfolding sim_def by fastforce
  have range: "0 \<le> v" "v < 2 ^ 32" using env(3) v by (auto simp: words_map_def)
  define y where "y = (push_bit 28 3 OR push_bit 22 reg :: int)"
  have fields: "f_op y = 3" "f_a y = reg" "0 \<le> y" "y < 2 ^ 32"
    using decode_fields [of 3 0 reg 0] encode_yield [OF reg] reg by (simp_all add: y_def)
  have "?wc ! (49 + length (al_words s')) = word_of_int y"
    using code [of "length (al_words s')"] by (simp add: s'(3) y_def)
  moreover have "unat (w_a (word_of_int y)) = nat reg" "w_op (word_of_int y) = 3"
    using w_fields [OF fields(3,4)] fields reg by (simp_all add: unat_of_int32)
  moreover have "?wc ! 4 = word_of_int (fold_index (r_fold r))"
    using lay c65 by (simp add: config_layout_def)
  moreover have "(word_of_int acc :: u32) > word_of_int v \<longleftrightarrow> acc > v"
    using acc range by (simp add: word_less_def)
  ultimately have yield: "c_exec ?wc (request_inputs A B) (of_nat i) (of_nat j) (of_nat k) (vs, word_of_int acc) (length (al_words s'))
      = Inr (vs, word_of_int (fold_step (r_fold r) acc v))"
    by (cases "r_fold r") (auto simp: c_exec_def Let_def vsv fold_step_def fold_index_def word_of_int_take32 max_def)
  have "unat (?wc ! 8) = length ws"
    using lay c65 unat_of_int32 [of "int (length ws)"] ws16 by (simp add: config_layout_def del: of_int_of_nat_eq)
  then have "[0..<unat (?wc ! 8)] = [0..<length (al_words s')] @ [length (al_words s')]"
    by (simp add: s'(3))
  then show ?thesis
    using vs(1) yield env(1) v range by (simp add: foldM_append eval_nodes_def)
qed

end
