(* ===== verification/Fold_Validate.thy ===== *)
theory Fold_Validate
  imports Region_Machine
begin

unbundle bit_operations_syntax

text \<open>
  The guest's admission check agrees with the host's: on 65 words the C function
  \<open>raveil_fold_validate\<close> accepts exactly what the Python function \<open>validate_config\<close>
  accepts, although the one computes with wrapping words and a bit mask of defined
  registers and the other with integers and a set.
\<close>

lemma word_cmp32:
  assumes "0 \<le> x" "x < 2 ^ 32" "0 \<le> y" "y < 2 ^ 32"
  shows "(word_of_int x :: u32) < word_of_int y \<longleftrightarrow> x < y"
    and "(word_of_int x :: u32) \<le> word_of_int y \<longleftrightarrow> x \<le> y"
    and "(word_of_int x :: u32) = word_of_int y \<longleftrightarrow> x = y"
  using assms by (simp_all add: word_less_def word_le_def word_uint_eq_iff)

lemma word_cmp32_numeral:
  assumes "0 \<le> x" "x < 2 ^ 32" "(numeral n :: int) < 2 ^ 32"
  shows "(word_of_int x :: u32) < numeral n \<longleftrightarrow> x < numeral n"
    and "numeral n < (word_of_int x :: u32) \<longleftrightarrow> numeral n < x"
    and "(word_of_int x :: u32) = numeral n \<longleftrightarrow> x = numeral n"
  using word_cmp32 [OF assms(1,2), of "numeral n"] word_cmp32 [OF _ assms(3) assms(1,2)] assms(3) by simp_all

lemma word_cmp32_one:
  assumes "0 \<le> x" "x < 2 ^ 32"
  shows "(word_of_int x :: u32) < 1 \<longleftrightarrow> x < 1" and "1 < (word_of_int x :: u32) \<longleftrightarrow> 1 < x"
    and "(word_of_int x :: u32) = 0 \<longleftrightarrow> x = 0" and "(word_of_int x :: u32) = 1 \<longleftrightarrow> x = 1"
  using word_cmp32 [OF assms, of 1] word_cmp32 [OF assms, of 0] word_cmp32 [OF _ _ assms, of 1] by simp_all

definition words65 :: "int list \<Rightarrow> bool" where
  "words65 c \<longleftrightarrow> length c = 65 \<and> (\<forall>n \<in> set c. 0 \<le> n \<and> n \<le> MASK)"

lemma words65_nth:
  assumes "words65 c" "n < 65"
  shows "map word_of_int c ! n = (word_of_int (c ! n) :: u32)" "0 \<le> c ! n" "c ! n < 2 ^ 32"
proof -
  have "0 \<le> c ! n \<and> c ! n \<le> MASK" using assms by (simp add: words65_def)
  then show "0 \<le> c ! n" "c ! n < 2 ^ 32" by (simp_all add: MASK_def)
  show "map word_of_int c ! n = (word_of_int (c ! n) :: u32)" using assms by (simp add: words65_def)
qed

lemma header_agree:
  assumes "words65 c"
  shows "c_header_ok (map word_of_int c) \<longleftrightarrow> c ! 0 = MAGIC \<and> check_header c = Inr ()"
proof -
  have n: "map word_of_int c ! n = (word_of_int (c ! n) :: u32)" "0 \<le> c ! n" "c ! n < 2 ^ 32" if "n < 65" for n
    using words65_nth [OF assms that] by auto
  have cmp: "map word_of_int c ! m < (numeral k :: u32) \<longleftrightarrow> c ! m < numeral k"
    "(numeral k :: u32) < map word_of_int c ! m \<longleftrightarrow> numeral k < c ! m"
    "map word_of_int c ! m = (numeral k :: u32) \<longleftrightarrow> c ! m = numeral k"
    if "m < 65" "(numeral k :: int) < 2 ^ 32" for m k
    unfolding n(1) [OF that(1)] using word_cmp32_numeral [OF n(2,3) [OF that(1)] that(2)] .
  have one: "map word_of_int c ! m < (1 :: u32) \<longleftrightarrow> c ! m < 1" "(1 :: u32) < map word_of_int c ! m \<longleftrightarrow> 1 < c ! m"
    "map word_of_int c ! m = (0 :: u32) \<longleftrightarrow> c ! m < 1" if "m < 65" for m
    unfolding n(1) [OF that] using word_cmp32_one [OF n(2,3) [OF that]] n(2) [OF that] by auto
  have "0 \<le> c ! 4" "0 \<le> c ! 5" "0 \<le> c ! 6" using n by auto
  then show ?thesis
    unfolding c_header_ok_def check_header_def MAGIC_def
    by (simp add: cmp one res_simps not_less del: nth_map)
qed

lemma ucast_of_int: "0 \<le> x \<Longrightarrow> x < 2 ^ 32 \<Longrightarrow> (ucast (word_of_int x :: u32) :: u64) = word_of_int x"
  by (metis uint_of_int32 word_of_int_uint ucast_eq)

lemma view_agree:
  assumes c: "words65 c" and hdr: "check_header c = Inr ()" and v: "v < 8"
  shows "c_view_ok (map word_of_int c) v \<longleftrightarrow> check_view c v = Inr ()"
proof -
  note n = words65_nth [OF c]
  let ?wc = "map word_of_int c :: u32 list"
  let ?p = "\<lambda>m. c ! (9 + 5 * v + m)"
  have p: "?wc ! (9 + 5 * v + m) = word_of_int (?p m)" "0 \<le> ?p m" "?p m < 2 ^ 32" if "m < 5" for m
    using n [of "9 + 5 * v + m"] v that by auto
  have "(word_of_int (int v) :: u32) = of_nat v" by simp
  then have used: "of_nat v \<ge> ?wc ! 7 \<longleftrightarrow> int v \<ge> c ! 7"
    using word_cmp32(2) [OF n(2,3) [of 7], of "int v"] n(1) [of 7] v by simp
  have zero: "?wc ! (9 + 5 * v + m) = 0 \<longleftrightarrow> ?p m = 0" if "m < 5" for m
    using word_cmp32_one(3) [OF p(2,3) [OF that]] p(1) [OF that] by simp
  have large: "?wc ! (9 + 5 * v + m) > 323 \<longleftrightarrow> ?p m > 323" if "m < 5" for m
    using word_cmp32_numeral(2) [OF p(2,3) [OF that], of "num.Bit1 (num.Bit1 (num.Bit0 (num.Bit0 (num.Bit0 (num.Bit0 (num.Bit1 (num.Bit0 num.One)))))))"] p(1) [OF that] by simp
  have buffer: "?wc ! (9 + 5 * v + 0) > 1 \<longleftrightarrow> ?p 0 > 1"
    using word_cmp32_one(2) [OF p(2,3) [of 0]] p(1) [of 0] by simp
  show ?thesis
  proof (cases "int v \<ge> c ! 7")
    case True
    have "(\<forall>j \<in> set [0..<5]. ?wc ! (9 + 5 * v + j) = 0) \<longleftrightarrow> ?p 0 = 0 \<and> ?p 1 = 0 \<and> ?p 2 = 0 \<and> ?p 3 = 0 \<and> ?p 4 = 0"
      using zero [of 0] zero [of 1] zero [of 2] zero [of 3] zero [of 4] by (simp add: upt_rec del: nth_map)
    then show ?thesis
      using True used by (simp add: c_view_ok_def check_view_def Let_def conj_ac del: nth_map)
  next
    case used': False
    show ?thesis
    proof (cases "?p 0 > 1 \<or> ?p 1 > 323 \<or> ?p 2 > 323 \<or> ?p 3 > 323 \<or> ?p 4 > 323")
      case True
      then show ?thesis
        using used' used large [of 1] large [of 2] large [of 3] large [of 4] buffer
        by (auto simp: c_view_ok_def check_view_def Let_def res_simps simp del: nth_map)
    next
      case False
      define bound where "bound = ?p 1 + ?p 2 * (c ! 1 - 1) + ?p 3 * (c ! 2 - 1) + ?p 4 * (c ! 3 - 1)"
      note h = header_bounds [OF hdr]
      have dec: "ucast (?wc ! m - 1) = (word_of_int (c ! m - 1) :: u64)" if "m < 65" "1 \<le> c ! m" for m
        using ucast_of_int [of "c ! m - 1"] n [OF that(1)] that(2) by simp
      have up: "ucast (?wc ! (9 + 5 * v + m)) = (word_of_int (?p m) :: u64)" if "m < 5" for m
        using ucast_of_int [OF p(2,3)] p(1) that by simp
      have prod: "x * (y - 1) \<le> 323 * 63" if "0 \<le> x" "\<not> 323 < x" "1 \<le> y" "y \<le> 64" for x y :: int
        using that by (intro mult_mono) auto
      have "?p 2 * (c ! 1 - 1) \<le> 323 * 63" "?p 3 * (c ! 2 - 1) \<le> 323 * 63" "?p 4 * (c ! 3 - 1) \<le> 323 * 63"
        "0 \<le> ?p 2 * (c ! 1 - 1)" "0 \<le> ?p 3 * (c ! 2 - 1)" "0 \<le> ?p 4 * (c ! 3 - 1)"
        using False h p(2) [of 2] p(2) [of 3] p(2) [of 4] prod [of "?p 2" "c ! 1"] prod [of "?p 3" "c ! 2"]
          prod [of "?p 4" "c ! 3"] by simp_all
      then have range: "0 \<le> bound" "bound < 2 ^ 64"
        using False p(2) [of 1] by (auto simp: bound_def)
      have sum: "(ucast (?wc ! (9 + 5 * v + 1)) + ucast (?wc ! (9 + 5 * v + 2)) * ucast (?wc ! 1 - 1) +
          ucast (?wc ! (9 + 5 * v + 3)) * ucast (?wc ! 2 - 1) + ucast (?wc ! (9 + 5 * v + 4)) * ucast (?wc ! 3 - 1) :: u64)
          = word_of_int bound"
        using h up [of 1] up [of 2] up [of 3] up [of 4] by (simp add: dec bound_def del: nth_map)
      define extent where "extent = (if ?p 0 = 0 then c ! 5 else c ! 6)"
      have b: "?p 0 = 0 \<or> ?p 0 = 1" using False p(2) [of 0] by auto
      have "ucast (?wc ! (5 + unat (?wc ! (9 + 5 * v + 0)))) = (word_of_int extent :: u64)"
        using b ucast_of_int [of "c ! 5"] ucast_of_int [of "c ! 6"] n [of 5] n [of 6] p(1) [of 0]
        by (auto simp: extent_def)
      moreover have "0 \<le> extent" "extent < 2 ^ 64" using h by (auto simp: extent_def)
      then have "word_of_int extent \<le> (word_of_int bound :: u64) \<longleftrightarrow> extent \<le> bound"
        using range by (simp add: word_le_def uint_word_of_int_eq take_bit_int_eq_self)
      moreover have "check_view c v = Inr () \<longleftrightarrow> bound < extent"
        using used' False p(2) [of 0] p(2) [of 1] p(2) [of 2] p(2) [of 3] p(2) [of 4]
        by (simp add: check_view_def Let_def res_simps bound_def extent_def not_le)
      ultimately show ?thesis
        using used' used False large [of 1] large [of 2] large [of 3] large [of 4] buffer sum
        by (simp add: c_view_ok_def Let_def linorder_not_le [of extent bound] del: nth_map)
    qed
  qed
qed

section \<open>The instruction check\<close>

text \<open>The bit mask \<open>defined\<close> of the C code represents the set \<open>defined\<close> of the Python code.\<close>

definition mask_of :: "u32 \<Rightarrow> int set \<Rightarrow> bool" where
  "mask_of m D \<longleftrightarrow> (\<forall>r. 0 \<le> r \<and> r < 8 \<longrightarrow> (m AND push_bit (nat r) 1 \<noteq> 0 \<longleftrightarrow> r \<in> D))"

lemma mask_of_insert:
  assumes "mask_of m D" "0 \<le> d" "d < 8"
  shows "mask_of (m OR push_bit (nat d) 1) (insert d D)"
proof -
  have "bit (m OR push_bit (nat d) 1) (nat r) \<longleftrightarrow> bit m (nat r) \<or> r = d" if "0 \<le> r" "r < 8" for r
  proof -
    have "bit (push_bit (nat d) 1 :: u32) (nat r) \<longleftrightarrow> nat d \<le> nat r \<and> nat r < 32 \<and> nat r - nat d = 0"
      by (subst bit_push_bit_iff) (auto simp: bit_1_iff)
    also have "\<dots> \<longleftrightarrow> r = d" using that assms(2,3) by auto
    finally show ?thesis by (simp add: bit_or_iff)
  qed
  then show ?thesis
    using assms(1) unfolding mask_of_def bit_iff_and_push_bit_not_eq_0 [symmetric] by blast
qed

lemma f_reg_range: "0 \<le> f_d w" "f_d w < 8" "0 \<le> f_a w" "f_a w < 8" "0 \<le> f_b w" "f_b w < 8"
  by (simp_all add: f_d_def f_a_def f_b_def take_bit_eq_mod)

lemma f_op_range: "0 \<le> w \<Longrightarrow> w < 2 ^ 32 \<Longrightarrow> 0 \<le> f_op w \<and> f_op w < 16"
  unfolding f_op_def drop_bit_eq_div by (intro conjI; simp; linarith)

definition agree :: "int set res \<Rightarrow> c_stop + u32 \<Rightarrow> bool" where
  "agree p q = (case (p, q) of (Inr D, Inr m) \<Rightarrow> mask_of m D | (Inl _, Inl _) \<Rightarrow> True | _ \<Rightarrow> False)"

lemma instr_agree:
  assumes c: "words65 c" and hdr: "check_header c = Inr ()" and pc: "pc < 16" and mask: "mask_of m D"
  shows "agree (check_instr (c ! 7) (c ! 8) pc (c ! (49 + pc)) D) (c_instr (map word_of_int c) m pc)"
proof -
  note n = words65_nth [OF c]
  note h = header_bounds [OF hdr]
  let ?wc = "map word_of_int c :: u32 list"
  define w where "w = c ! (49 + pc)"
  have w: "?wc ! (49 + pc) = word_of_int w" "0 \<le> w" "w < 2 ^ 32" using n [of "49 + pc"] pc by (auto simp: w_def)
  have fo: "0 \<le> f_op w" "f_op w < 2 ^ 32" using f_op_range [OF w(2,3)] by auto
  have fr: "f_d w < 2 ^ 32" "f_a w < 2 ^ 32" using f_reg_range [of w] by auto
  note flds = w_fields [OF w(2,3)]
  have pcw: "(of_nat pc :: u32) = word_of_int (int pc)" by simp
  have tb: "0 \<le> take_bit k w" "take_bit k w < 2 ^ 32" if "k \<le> 32" for k
    using take_bit_int_less_exp [of k w] power_increasing [OF that, of "2 :: int"] by (simp, linarith)
  have over: "?wc ! 8 \<le> of_nat pc \<longleftrightarrow> c ! 8 \<le> int pc"
    using word_cmp32(2) [OF n(2,3) [of 8], of "int pc"] n(1) [of 8] pc by (simp add: pcw del: of_int_of_nat_eq)
  have last: "of_nat pc = ?wc ! 8 - 1 \<longleftrightarrow> int pc = c ! 8 - 1"
    using word_cmp32(3) [of "int pc" "c ! 8 - 1"] n(1) [of 8] pc h(15,16) by (simp add: pcw del: of_int_of_nat_eq)
  have view: "word_of_int (f_a w) \<ge> ?wc ! 7 \<longleftrightarrow> f_a w \<ge> c ! 7"
    using word_cmp32(2) [OF n(2,3) [of 7], of "f_a w"] n(1) [of 7] f_reg_range [of w] by simp
  have opeq: "word_of_int (f_op w) = (2 :: u32) \<longleftrightarrow> f_op w = 2" "word_of_int (f_op w) = (3 :: u32) \<longleftrightarrow> f_op w = 3"
    "word_of_int (f_op w) = (4 :: u32) \<longleftrightarrow> f_op w = 4" "word_of_int (f_op w) = (5 :: u32) \<longleftrightarrow> f_op w = 5"
    "word_of_int (f_op w) = (6 :: u32) \<longleftrightarrow> f_op w = 6" "word_of_int (f_op w) = (7 :: u32) \<longleftrightarrow> f_op w = 7"
    using word_cmp32_numeral(3) [OF fo] by simp_all
  have op1: "word_of_int (f_op w) = (1 :: u32) \<longleftrightarrow> f_op w = 1" using word_cmp32_one(4) [OF fo] .
  have zero: "word_of_int (f_d w) = (0 :: u32) \<longleftrightarrow> f_d w = 0" "word_of_int w = (0 :: u32) \<longleftrightarrow> w = 0"
    "word_of_int (take_bit 22 w) = (0 :: u32) \<longleftrightarrow> take_bit 22 w = 0" "word_of_int (take_bit 19 w) = (0 :: u32) \<longleftrightarrow> take_bit 19 w = 0"
    using word_cmp32_one(3) f_reg_range [of w] fr w tb by auto
  have un: "unat (word_of_int (f_d w) :: u32) = nat (f_d w)" "unat (word_of_int (f_a w) :: u32) = nat (f_a w)"
    "unat (word_of_int (f_b w) :: u32) = nat (f_b w)"
    using f_reg_range [of w] by (auto intro!: unat_of_int32)
  have def: "m AND push_bit (nat (f_a w)) 1 = 0 \<longleftrightarrow> f_a w \<notin> D" "m AND push_bit (nat (f_b w)) 1 = 0 \<longleftrightarrow> f_b w \<notin> D"
    using mask f_reg_range [of w] by (auto simp: mask_of_def)
  have ins: "mask_of (m OR push_bit (nat (f_d w)) 1) (insert (f_d w) D)"
    using mask f_reg_range [of w] by (intro mask_of_insert) auto
  define N where "N = m OR push_bit (nat (f_d w)) 1"
  have agrees: "agree (Inl e) (Inl e')" "agree (Inr D) (Inr m)" "agree (Inr (insert (f_d w) D)) (Inr N)" for e e'
    using ins mask by (simp_all add: agree_def N_def)
  consider "c ! 8 \<le> int pc" | "\<not> c ! 8 \<le> int pc" "int pc = c ! 8 - 1"
    | "\<not> c ! 8 \<le> int pc" "int pc \<noteq> c ! 8 - 1" by blast
  then show ?thesis
    unfolding c_instr_def check_instr_def Let_def w(1) w_def [symmetric] flds over last
      word_and_22 word_and_19 word_take_bit un def view opeq op1 zero N_def [symmetric]
    by cases (auto simp: reject_def agrees)
qed

lemma code_agree:
  assumes c: "words65 c" and hdr: "check_header c = Inr ()"
  shows "mask_of m D \<Longrightarrow> (\<And>pc. pc \<in> set pcs \<Longrightarrow> pc < 16) \<Longrightarrow>
    agree (foldM (\<lambda>defined pc. check_instr (c ! 7) (c ! 8) pc (c ! (49 + pc)) defined) D pcs)
      (foldM (c_instr (map word_of_int c)) m pcs)"
proof (induction pcs arbitrary: m D)
  case (Cons pc pcs)
  have "agree (check_instr (c ! 7) (c ! 8) pc (c ! (49 + pc)) D) (c_instr (map word_of_int c) m pc)"
    using instr_agree [OF c hdr _ Cons.prems(1)] Cons.prems(2) by simp
  then show ?case
    using Cons.IH Cons.prems(2)
    by (cases "check_instr (c ! 7) (c ! 8) pc (c ! (49 + pc)) D"; cases "c_instr (map word_of_int c) m pc")
      (simp_all add: agree_def)
qed (simp add: agree_def)

lemma validate_agree:
  assumes c: "words65 c"
  shows "raveil_fold_validate (map word_of_int c) \<longleftrightarrow> config_ok c"
proof (cases "c ! 0 = MAGIC \<and> check_header c = Inr ()")
  case True
  have "agree (check_code c) (foldM (c_instr (map word_of_int c)) 0 [0..<16])"
    unfolding check_code_def using True by (intro code_agree [OF c]) (auto simp: mask_of_def)
  then have "(\<exists>d. check_code c = Inr d) \<longleftrightarrow> (\<exists>d. foldM (c_instr (map word_of_int c)) 0 [0..<16] = Inr d)"
    by (auto simp: agree_def split: sum.splits)
  moreover have "(\<forall>v \<in> set [0..<8]. c_view_ok (map word_of_int c) v) \<longleftrightarrow> (\<forall>v < 8. check_view c v = Inr ())"
    using view_agree [OF c] True by auto
  ultimately show ?thesis
    using header_agree [OF c] True c
    by (auto simp: raveil_fold_validate_def config_ok_def words65_def split: sum.splits)
next
  case False
  then show ?thesis
    using header_agree [OF c] by (auto simp: raveil_fold_validate_def config_ok_def)
qed

text \<open>
  C24. The host and the guest admit the same configurations: on any 65 integers below
  \<open>2 ^ 32\<close>, \<open>raveil_fold_validate\<close> returns true on the words exactly when \<open>validate_config\<close>
  returns them.
\<close>

theorem guest_admits_iff_host:
  assumes "length c = 65" and "\<forall>n \<in> set c. 0 \<le> n \<and> n < 2 ^ 32"
  shows "raveil_fold_validate (map word_of_int c) \<longleftrightarrow> validate_config (JList (map JInt c)) = Inr c"
proof -
  have "words65 c" using assms by (auto simp: words65_def MASK_def)
  then show ?thesis by (simp add: validate_agree validate_config_iff)
qed

theorem guest_admits_iff_host_witness:
  "\<not> raveil_fold_validate (map word_of_int (replicate 65 0))"
proof -
  have "validate_config (JList (map JInt (replicate 65 0))) \<noteq> Inr (replicate 65 0)" by code_simp
  then show ?thesis using guest_admits_iff_host [of "replicate 65 0"] by simp
qed

end
