(* ===== verification/Region_Correct.thy ===== *)
theory Region_Correct
  imports Fold_Validate
begin

text \<open>
  The region compiler end to end: an admitted region runs on the guest without undefined
  behaviour, on every pair of inputs of the declared lengths, and leaves the words the host
  reference computes; the reference itself is total there, and outside it fails only by
  \<open>ValueError\<close>.
\<close>

section \<open>Cells\<close>

lemma fold_step_word:
  "0 \<le> acc \<Longrightarrow> acc < 2 ^ 32 \<Longrightarrow> 0 \<le> v \<Longrightarrow> v < 2 ^ 32 \<Longrightarrow> 0 \<le> fold_step f acc v \<and> fold_step f acc v < 2 ^ 32"
  by (cases f) (auto simp: fold_step_def take_bit_eq_mod)

lemma cell_agree:
  assumes r: "region_ok r" and emit: "emit_words r = Inr ws" and ok: "config_ok c" and lay: "config_layout r ws c"
    and len: "int (length A) = c ! 5" "int (length B) = c ! 6" and ws16: "length ws \<le> 16"
    and ij: "int i < c ! 1" "int j < c ! 2"
  shows "\<exists>v. region_cell r [A, B] i j = Inr v \<and> 0 \<le> v \<and> v < 2 ^ 32 \<and>
    c_cell (map word_of_int c) (request_inputs A B) i j = Inr (word_of_int v)"
proof -
  let ?py = "\<lambda>acc k. rbind (eval_nodes (load_view (r_views r) [A, B] (int i) (int j) (int k)) (r_nodes r) (r_result r))
                      (\<lambda>v. Inr (fold_step (r_fold r) acc v))"
  let ?c = "\<lambda>acc k. rbind (foldM (c_exec (map word_of_int c) (request_inputs A B) (of_nat i) (of_nat j) (of_nat k))
      (replicate 8 0, acc) [0..<unat (map word_of_int c ! 8 :: u32)]) (\<lambda>s. Inr (snd s))"
  have loop: "\<exists>v. foldM ?py acc ks = Inr v \<and> 0 \<le> v \<and> v < 2 ^ 32 \<and> foldM ?c (word_of_int acc) ks = Inr (word_of_int v)"
    if "\<And>k. k \<in> set ks \<Longrightarrow> int k < c ! 3" "0 \<le> acc" "acc < 2 ^ 32" for ks acc
    using that
  proof (induction ks arbitrary: acc)
    case (Cons k ks)
    obtain v where v: "?py acc k = Inr (fold_step (r_fold r) acc v)" "0 \<le> v" "v < 2 ^ 32"
      "?c (word_of_int acc) k = Inr (word_of_int (fold_step (r_fold r) acc v))"
      using iteration_agree [OF r emit ok lay len ws16 ij _ Cons.prems(2,3), of k] Cons.prems(1) [of k]
      by auto
    show ?case
      using Cons.IH [of "fold_step (r_fold r) acc v"] Cons.prems fold_step_word [OF Cons.prems(2,3) v(2,3)] v
      by simp
  qed auto
  have c65: "length c = 65" and hdr: "check_header c = Inr ()" using ok by (simp_all add: config_ok_def)
  have ext: "unat (map word_of_int c ! 3 :: u32) = nat (jint (r_extent r))"
    using lay c65 header_bounds(5,6) [OF hdr] unat_of_int32 [of "c ! 3"] by (simp add: config_layout_def)
  have "c ! 3 = jint (r_extent r)" using lay by (simp add: config_layout_def)
  with loop [of "[0..<nat (jint (r_extent r))]" 0] show ?thesis
    by (simp add: region_cell_def c_cell_def ext nat_less_iff)
qed

text \<open>What \<open>reference\<close> computes for two arrays of words.\<close>

lemma check_inputs_words:
  assumes "int (length A) = n" "int (length B) = m" "\<forall>x \<in> set A. 0 \<le> x \<and> x < 2 ^ 32" "\<forall>x \<in> set B. 0 \<le> x \<and> x < 2 ^ 32"
  shows "check_inputs (JList [JList (map JInt A), JList (map JInt B)]) [n, m] = Inr [A, B]"
proof -
  have "mapM (\<lambda>w. int_in w 0 MASK) (map JInt xs) = Inr xs" if "\<forall>x \<in> set xs. 0 \<le> x \<and> x < 2 ^ 32" for xs
    using that by (subst mapM_int_in) (auto simp: MASK_def)
  with assms show ?thesis by (simp add: check_inputs_def check_input_def)
qed

lemma check_input_Inr:
  "check_input data n = Inr xs \<Longrightarrow> int (length xs) = n"
  by (auto simp: check_input_def dest: mapM_Inr_length split: option.splits)

lemma check_inputs_Inr:
  assumes "check_inputs inputs [n, m] = Inr bufs"
  obtains A B where "bufs = [A, B]" "int (length A) = n" "int (length B) = m"
  using assms
  by (auto simp: check_inputs_def res_simps split: json.splits list.splits dest!: check_input_Inr)

lemma region_runs:
  assumes c: "compile_region j = Inr c" and checked: "check_inputs inputs [c ! 5, c ! 6] = Inr [A, B]"
  obtains out where "reference j inputs = Inr out"
    "length out = nat (c ! 1 * c ! 2)" "\<forall>x \<in> set out. 0 \<le> x \<and> x < 2 ^ 32"
    "raveil_fold_evaluate (map word_of_int c) (request_inputs A B) = Inr (map word_of_int out)"
proof -
  have len: "int (length A) = c ! 5" "int (length B) = c ! 6"
    using check_inputs_Inr [OF checked] by auto
  obtain r ws where r: "check_region j = Inr r" "emit_words r = Inr ws" "config_ok c" "config_layout r ws c"
    "length ws \<le> 16" "length (r_views r) \<le> 8"
    using compile_region_Inr [OF c] by metis
  have rok: "region_ok r" using r(1) by (rule check_region_Inr)
  have c65: "length c = 65" and hdr: "check_header c = Inr ()" and w65: "words65 c"
    using r(3) by (simp_all add: config_ok_def words65_def)
  have lengths: "map jint (r_lengths r) = [c ! 5, c ! 6]"
    using rok r(4) by (auto simp: region_ok_def config_layout_def length_Suc_conv eval_nat_numeral)
  define cells where "cells = region_cells (nat (c ! 1)) (nat (c ! 2))"
  have dims: "unat (map word_of_int c ! 1 :: u32) = nat (c ! 1)" "unat (map word_of_int c ! 2 :: u32) = nat (c ! 2)"
    "nat (jint (r_shape r ! 0)) = nat (c ! 1)" "nat (jint (r_shape r ! 1)) = nat (c ! 2)"
    using r(4) c65 header_bounds(1-4) [OF hdr] unat_of_int32 [of "c ! 1"] unat_of_int32 [of "c ! 2"]
    by (simp_all add: config_layout_def)
  define f where "f = (\<lambda>p. SOME v. (case p of (i, k) \<Rightarrow> region_cell r [A, B] i k) = Inr v)"
  have cell: "(case p of (i, k) \<Rightarrow> region_cell r [A, B] i k) = Inr (f p) \<and> 0 \<le> f p \<and> f p < 2 ^ 32 \<and>
      (case p of (i, k) \<Rightarrow> c_cell (map word_of_int c) (request_inputs A B) i k) = Inr (word_of_int (f p))"
    if mem: "p \<in> set cells" for p
  proof -
    obtain i k where p: "p = (i, k)" "i < nat (c ! 1)" "k < nat (c ! 2)"
      using mem by (auto simp: cells_def region_cells_def set_grid_list)
    obtain v where v: "region_cell r [A, B] i k = Inr v" "0 \<le> v" "v < 2 ^ 32"
      "c_cell (map word_of_int c) (request_inputs A B) i k = Inr (word_of_int v)"
      using cell_agree [OF rok r(2,3,4) len r(5), of i k] p(2,3) by (auto simp: zless_nat_eq_int_zless)
    then have "f p = v" by (simp add: f_def p(1))
    with v show ?thesis by (simp add: p(1))
  qed
  have py: "mapM (\<lambda>(i, k). region_cell r [A, B] i k) cells = Inr (map f cells)"
    by (rule mapM_eq_map) (use cell in blast)
  have "mapM (\<lambda>(i, k). c_cell (map word_of_int c) (request_inputs A B) i k) cells = Inr (map (\<lambda>p. word_of_int (f p)) cells)"
    by (rule mapM_eq_map) (use cell in blast)
  then have guest: "raveil_fold_evaluate (map word_of_int c) (request_inputs A B) = Inr (map word_of_int (map f cells))"
    using validate_agree [OF w65] r(3) by (simp add: raveil_fold_evaluate_def dims [simplified] cells_def comp_def)
  have host: "reference j inputs = Inr (map f cells)"
    using py unfolding cells_def by (simp add: reference_def r(1) c lengths checked dims dims [simplified])
  have "length (map f cells) = nat (c ! 1 * c ! 2)"
    using header_bounds(1-4) [OF hdr] by (simp add: cells_def region_cells_def nat_mult_distrib)
  then show ?thesis
    using that [OF host _ _ guest] cell by auto
qed

text \<open>
  C1. Correctness of the region compiler. Whenever \<open>compile_region\<close> returns a configuration,
  then for all input words of the declared lengths the host's SSA interpreter succeeds, and
  the guest's interpreter, started on the configuration and the request's input areas,
  neither rejects nor reads outside the inputs and outputs the very same words, one per cell.
\<close>

theorem region_compiler_correct:
  assumes "compile_region j = Inr c" and "int (length A) = c ! 5" "int (length B) = c ! 6"
    and "\<forall>x \<in> set A. 0 \<le> x \<and> x < 2 ^ 32" "\<forall>x \<in> set B. 0 \<le> x \<and> x < 2 ^ 32"
  shows "\<exists>out. reference j (JList [JList (map JInt A), JList (map JInt B)]) = Inr out \<and>
    length out = nat (c ! 1 * c ! 2) \<and> (\<forall>x \<in> set out. 0 \<le> x \<and> x < 2 ^ 32) \<and>
    raveil_fold_evaluate (map word_of_int c) (request_inputs A B) = Inr (map word_of_int out)"
  using region_runs [OF assms(1) check_inputs_words [OF assms(2-5)]] by metis

text \<open>A 2 by 2 matrix product as a region, its configuration and one run.\<close>

definition matmul_region :: json where
  "matmul_region = JDict [(''schema'', JStr ''raveil.affine-fold.v1''), (''shape'', JList [JInt 2, JInt 2]),
     (''extent'', JInt 2), (''fold'', JStr ''sum''), (''lengths'', JList [JInt 4, JInt 4]),
     (''views'', JDict [(''x'', JList (map JInt [0, 0, 2, 0, 1])), (''y'', JList (map JInt [1, 0, 0, 1, 2]))]),
     (''nodes'', JList (map node_json
        [\<lparr>nid = ''a'', nop = OpLoad, nargs = [], nview = ''x'', nimm = 0\<rparr>,
         \<lparr>nid = ''b'', nop = OpLoad, nargs = [], nview = ''y'', nimm = 0\<rparr>,
         \<lparr>nid = ''c'', nop = OpMul, nargs = [''a'', ''b''], nview = [], nimm = 0\<rparr>])),
     (''result'', JStr ''c'')]"

definition matmul_config :: "int list" where
  "matmul_config = [1296445489, 2, 2, 2, 0, 4, 4, 2, 4, 0, 0, 2, 0, 1, 1, 0, 0, 1, 2] @ replicate 30 0 @
     [268435456, 306184192, 1342701568, 805306368] @ replicate 12 0"

lemma matmul_compiles: "compile_region matmul_region = Inr matmul_config"
  by code_simp

theorem region_compiler_correct_witness:
  "\<exists>out. reference matmul_region (JList [JList (map JInt [1, 2, 3, 4]), JList (map JInt [5, 6, 7, 8])]) = Inr out \<and>
    length out = 4 \<and>
    raveil_fold_evaluate (map word_of_int matmul_config) (request_inputs [1, 2, 3, 4] [5, 6, 7, 8]) = Inr (map word_of_int out)"
proof -
  have "matmul_config ! 5 = 4" "matmul_config ! 6 = 4" "nat (matmul_config ! 1 * matmul_config ! 2) = 4"
    by (simp_all add: matmul_config_def)
  then show ?thesis
    using region_compiler_correct [OF matmul_compiles, of "[1, 2, 3, 4]" "[5, 6, 7, 8]"] by fastforce
qed

section \<open>Rejections\<close>

lemma int_in_value_error [simp]: "value_error (int_in x low high)"
  by (auto simp: int_in_def split: json.splits)

lemma check_instr_value_error [simp]: "value_error (check_instr nv ni pc w D)"
  by (simp add: check_instr_def)

lemma validate_config_value_error [simp]: "value_error (validate_config j)"
  by (cases j) (auto simp: validate_config_def check_header_def check_view_def check_code_def Let_def intro!: value_error_intros)

lemma region_node_value_error [simp]: "value_error (region_node views seen j)"
  unfolding region_node_def node_name_def node_view_def node_imm_def check_args_def
  by (intro value_error_intros) (auto split: json.splits option.splits)

lemma region_nodes_value_error [simp]: "value_error (region_nodes views seen js)"
  by (induction js arbitrary: seen) (auto intro!: value_error_intros)

lemma check_region_value_error [simp]: "value_error (check_region j)"
  unfolding check_region_def by (intro value_error_intros) auto

lemma emit_words_value_error: "region_ok r \<Longrightarrow> value_error (emit_words r)"
  by (cases "emit_words r") (auto dest: emit_words_error)

lemma view_words_value_error [simp]: "value_error (view_words views)"
  unfolding view_words_def by (intro value_error_intros) (auto split: json.splits prod.splits)

lemma compile_region_value_error: "value_error (compile_region j)"
  unfolding compile_region_def
  by (intro value_error_intros) (auto intro: emit_words_value_error check_region_Inr)

lemma check_inputs_value_error [simp]: "value_error (check_inputs inputs lengths)"
proof -
  have "value_error (check_input data n)" for data n
    by (auto simp: check_input_def intro!: value_error_intros split: option.splits)
  then show ?thesis
    by (auto simp: check_inputs_def intro!: value_error_intros split: json.splits list.splits)
qed

text \<open>
  C25. Whatever JSON tree is handed to \<open>compile_region\<close>, it returns a configuration that the
  guest admits or raises \<open>ValueError\<close>: the register allocator never misses a live name and no
  other exception escapes.
\<close>

theorem compile_region_admitted_or_value_error:
  "case compile_region j of
     Inl e \<Rightarrow> \<exists>msg. e = ValueError msg
   | Inr c \<Rightarrow> length c = 65 \<and> raveil_fold_validate (map word_of_int c)"
proof (cases "compile_region j")
  case (Inl e)
  then show ?thesis using compile_region_value_error [of j] by (cases e) (auto simp: value_error_def)
next
  case (Inr c)
  then have "config_ok c" by (metis compile_region_Inr)
  then show ?thesis using Inr validate_agree [of c] by (simp add: config_ok_def words65_def)
qed

lemma reference_inputs:
  assumes "reference j inputs = Inr out" "compile_region j = Inr c"
  shows "\<exists>A B. check_inputs inputs [c ! 5, c ! 6] = Inr [A, B]"
proof -
  obtain r ws where r: "check_region j = Inr r" "config_layout r ws c" "region_ok r"
    using compile_region_Inr [OF assms(2)] check_region_Inr by metis
  then have "map jint (r_lengths r) = [c ! 5, c ! 6]"
    by (auto simp: region_ok_def config_layout_def length_Suc_conv eval_nat_numeral)
  then obtain bufs where "check_inputs inputs [c ! 5, c ! 6] = Inr bufs"
    using assms r(1) by (auto simp: reference_def res_simps)
  then show ?thesis by (metis check_inputs_Inr)
qed

lemma reference_value_error: "value_error (reference j inputs)"
proof -
  have "value_error (mapM (\<lambda>(i, k). region_cell r bufs i k) cells)"
    if H: "compile_region j = Inr c" "check_region j = Inr r" "check_inputs inputs (map jint (r_lengths r)) = Inr bufs"
      "cells = region_cells (nat (jint (r_shape r ! 0))) (nat (jint (r_shape r ! 1)))" for c r bufs cells
  proof -
    obtain ws where lay: "config_layout r ws c" "region_ok r"
      using compile_region_Inr [OF H(1)] check_region_Inr H(2) by (metis Inr_inject)
    then have lens: "map jint (r_lengths r) = [c ! 5, c ! 6]"
      by (auto simp: region_ok_def config_layout_def length_Suc_conv eval_nat_numeral)
    then obtain A B where AB: "bufs = [A, B]" using H(3) by (metis check_inputs_Inr)
    have "check_inputs inputs [c ! 5, c ! 6] = Inr [A, B]" using H(3) by (simp only: lens AB)
    then obtain out where "reference j inputs = Inr out" by (rule region_runs [OF H(1)])
    then show ?thesis using H by (simp add: reference_def)
  qed
  then show ?thesis
    unfolding reference_def by (intro value_error_rbind) (simp_all add: compile_region_value_error)
qed

text \<open>
  C26. The reference interpreter is total in the same sense: on every region and every inputs
  tree it returns one word per cell or raises \<open>ValueError\<close>. In particular no
  lookup of a name, a view or a buffer position can fail once the admission check is passed.
\<close>

theorem reference_total_or_value_error:
  "case reference j inputs of
     Inl e \<Rightarrow> \<exists>msg. e = ValueError msg
   | Inr out \<Rightarrow> \<exists>c. compile_region j = Inr c \<and> length out = nat (c ! 1 * c ! 2) \<and>
       list_all (\<lambda>x. 0 \<le> x \<and> x < 2 ^ 32) out"
proof (cases "reference j inputs")
  case (Inl e)
  then show ?thesis using reference_value_error [of j inputs] by (cases e) (auto simp: value_error_def)
next
  case (Inr out)
  then obtain c where c: "compile_region j = Inr c" by (auto simp: reference_def res_simps)
  then obtain A B where "check_inputs inputs [c ! 5, c ! 6] = Inr [A, B]" using reference_inputs [OF Inr] by blast
  from region_runs [OF c this] Inr c show ?thesis by (auto simp: list_all_iff)
qed

end
