(* ===== verification/Mf01_Numeric.thy ===== *)
theory Mf01_Numeric
  imports Region_Correct
begin

text \<open>
  \<open>raveil/mf01_numeric.py\<close>: signed \<open>max_i32\<close> and \<open>relu_i32\<close> are rewritten into the unsigned
  operations of the MF01 instruction set. Adding \<open>2 ^ 31\<close> modulo \<open>2 ^ 32\<close> turns signed order
  into unsigned order; the constant itself is computed from \<open>GE_U32(x, 0) = 1\<close>. With
  \<open>share_transforms\<close> a biased operand is reused. The dictionaries \<open>lower\<close> emits are
  \<open>node_json\<close> of the emitted nodes; the order of the keys inside one node is the only thing
  the model does not keep, and no reader of nodes depends on it.
\<close>

section \<open>The check of the source nodes\<close>

fun numeric_op :: "string \<Rightarrow> mf_op option" where
  "numeric_op s =
     (if s = ''max_i32'' then Some OpMaxI32
      else if s = ''relu_i32'' then Some OpReluI32
      else region_op s)"

definition source_node :: "string set \<Rightarrow> json \<Rightarrow> node res" where
  "source_node seen j =
     rbind (want_dict (Some j) ''invalid source node'') (\<lambda>kv.
     rbind (want_str (map_of kv ''op'') ''invalid source operation'') (\<lambda>s.
     rbind (want (numeric_op s) ''invalid source operation'') (\<lambda>o'.
     rbind (reject (keys kv \<noteq> node_fields s) (ValueError ''invalid source node fields or identifier'')) (\<lambda>_.
     rbind (want_str (map_of kv ''id'') ''invalid source node fields or identifier'') (\<lambda>name.
     rbind (reject (name = [] \<or> name \<in> seen) (ValueError ''invalid source node fields or identifier'')) (\<lambda>_.
     rbind (want_list (Some (get_args kv)) ''incorrect source arity'') (\<lambda>xs.
     rbind (reject (length xs \<noteq> arity o') (ValueError ''incorrect source arity'')) (\<lambda>_.
     rbind (mapM (\<lambda>a. want_str (Some a) ''source nodes must be in dependency order'') xs) (\<lambda>args.
     rbind (reject (\<not> set args \<subseteq> seen) (ValueError ''source nodes must be in dependency order'')) (\<lambda>_.
     rbind (if o' = OpLoad then want_str (map_of kv ''view'') ''invalid source view'' else Inr []) (\<lambda>view.
     rbind (reject (o' = OpLoad \<and> view = []) (ValueError ''invalid source view'')) (\<lambda>_.
     rbind (if has_imm o' then want (case map_of kv ''imm'' of Some (JInt n) \<Rightarrow> Some n | _ \<Rightarrow> None)
                                 ''source immediate must fit unsigned22 bits'' else Inr 0) (\<lambda>imm.
     rbind (reject (\<not> (0 \<le> imm \<and> imm < 2 ^ 22)) (ValueError ''source immediate must fit unsigned22 bits'')) (\<lambda>_.
     Inr \<lparr>nid = name, nop = o', nargs = args, nview = view, nimm = imm\<rparr>))))))))))))))"

fun source_nodes :: "string set \<Rightarrow> json list \<Rightarrow> node list res" where
  "source_nodes seen [] = Inr []"
| "source_nodes seen (j # js) =
     rbind (source_node seen j) (\<lambda>n.
     rbind (source_nodes (insert (nid n) seen) js) (\<lambda>ns. Inr (n # ns)))"

definition check_source :: "json \<Rightarrow> json \<Rightarrow> (node list \<times> string) res" where
  "check_source nodes result =
     rbind (want_list (Some nodes) ''one to fifteen source map nodes required'') (\<lambda>js.
     rbind (reject (length js < 1 \<or> 15 < length js) (ValueError ''one to fifteen source map nodes required'')) (\<lambda>_.
     rbind (source_nodes {} js) (\<lambda>ns.
     rbind (want_str (Some result) ''unknown source result'') (\<lambda>name.
     rbind (reject (name \<notin> nid ` set ns) (ValueError ''unknown source result'')) (\<lambda>_.
     Inr (ns, name))))))"

section \<open>Emission\<close>

record lowering =
  lw_emitted :: "node list"
  lw_serial :: nat
  lw_sign :: "string option"
  lw_biased :: "string \<rightharpoonup> string"
  lw_reserved :: "string list"

definition numeric_name :: "nat \<Rightarrow> string" where
  "numeric_name k = ''__mf01_numeric_'' @ str_nat k"

lemma numeric_name_inject [simp]: "numeric_name a = numeric_name b \<longleftrightarrow> a = b"
  by (simp add: numeric_name_def)

text \<open>\<open>while True\<close>: the first serial whose name is not reserved.\<close>

function fresh_name :: "string list \<Rightarrow> nat \<Rightarrow> string \<times> nat" where
  "fresh_name reserved serial =
     (if numeric_name serial \<in> set reserved then fresh_name reserved (Suc serial)
      else (numeric_name serial, Suc serial))"
  by pat_completeness auto
termination
proof (relation "measure (\<lambda>(reserved, serial). card {x \<in> set reserved. \<exists>k \<ge> serial. x = numeric_name k})")
  fix reserved :: "string list" and serial
  let ?from = "\<lambda>n. {x \<in> set reserved. \<exists>k \<ge> n. x = numeric_name k}"
  assume "numeric_name serial \<in> set reserved"
  then have "numeric_name serial \<in> ?from serial" by auto
  moreover have "numeric_name serial \<notin> ?from (Suc serial)" by auto
  moreover have "?from (Suc serial) \<subseteq> ?from serial" by (auto dest: Suc_leD)
  ultimately have "?from (Suc serial) \<subset> ?from serial" by blast
  then show "((reserved, Suc serial), reserved, serial)
     \<in> measure (\<lambda>(reserved, serial). card {x \<in> set reserved. \<exists>k \<ge> serial. x = numeric_name k})"
    by (simp add: psubset_card_mono)
qed simp

declare fresh_name.simps [simp del]

lemma fresh_name_new: "fst (fresh_name reserved serial) \<notin> set reserved"
proof (induction reserved serial rule: fresh_name.induct)
  case (1 reserved serial)
  then show ?case by (subst fresh_name.simps) simp
qed

lemma fresh_name_nonempty: "fst (fresh_name reserved serial) \<noteq> []"
proof (induction reserved serial rule: fresh_name.induct)
  case (1 reserved serial)
  then show ?case by (subst fresh_name.simps) (simp add: numeric_name_def)
qed

definition emit_named :: "lowering \<Rightarrow> mf_op \<Rightarrow> string list \<Rightarrow> int \<Rightarrow> string \<Rightarrow> lowering" where
  "emit_named st o' args imm name =
     st\<lparr>lw_emitted := lw_emitted st @ [\<lparr>nid = name, nop = o', nargs = args, nview = [], nimm = imm\<rparr>]\<rparr>"

definition emit :: "lowering \<Rightarrow> mf_op \<Rightarrow> string list \<Rightarrow> int \<Rightarrow> lowering \<times> string" where
  "emit st o' args imm =
     (let (name, serial) = fresh_name (lw_reserved st) (lw_serial st);
          st' = st\<lparr>lw_serial := serial, lw_reserved := name # lw_reserved st\<rparr>
      in (emit_named st' o' args imm name, name))"

definition translated :: "bool \<Rightarrow> lowering \<Rightarrow> string \<Rightarrow> string \<Rightarrow> lowering \<times> string" where
  "translated share st sign name =
     (case (if share then lw_biased st name else None) of
        Some b \<Rightarrow> (st, b)
      | None \<Rightarrow> (let (st', v) = emit st OpAdd [name, sign] 0
                in (if share then st'\<lparr>lw_biased := (lw_biased st')(name \<mapsto> v)\<rparr> else st', v)))"

definition get_sign :: "lowering \<Rightarrow> string \<Rightarrow> lowering \<times> string" where
  "get_sign st a =
     (case lw_sign st of
        Some s \<Rightarrow> (st, s)
      | None \<Rightarrow> (let (st1, one) = emit st OpGeImm [a] 0;
                     (st2, hi) = emit st1 OpAddImm [one] 32767;
                     (st3, lo) = emit st2 OpAddImm [one] 65535;
                     (st4, sign) = emit st3 OpMul [hi, lo] 0
                 in (st4\<lparr>lw_sign := Some sign\<rparr>, sign)))"

definition signed_op :: "mf_op \<Rightarrow> bool" where
  "signed_op o' \<longleftrightarrow> o' = OpMaxI32 \<or> o' = OpReluI32"

definition lower_node :: "bool \<Rightarrow> lowering \<Rightarrow> node \<Rightarrow> lowering" where
  "lower_node share st n =
     (if \<not> signed_op (nop n) then st\<lparr>lw_emitted := lw_emitted st @ [n]\<rparr>
      else (let a = nargs n ! 0;
                (st1, sign) = get_sign st a;
                (st2, left) = translated share st1 sign a;
                (st3, right) = (if nop n = OpReluI32 then (st2, sign) else translated share st2 sign (nargs n ! 1));
                (st4, selected) = emit st3 OpMax [left, right] 0;
                st5 = emit_named st4 OpAdd [selected, sign] 0 (nid n)
            in if share then st5\<lparr>lw_biased := (lw_biased st5)(nid n \<mapsto> selected)\<rparr> else st5))"

definition initial_lowering :: "node list \<Rightarrow> lowering" where
  "initial_lowering ns =
     \<lparr>lw_emitted = [], lw_serial = 0, lw_sign = None, lw_biased = Map.empty, lw_reserved = map nid ns\<rparr>"

definition lower_nodes :: "bool \<Rightarrow> node list \<Rightarrow> node list" where
  "lower_nodes share ns = lw_emitted (foldl (lower_node share) (initial_lowering ns) ns)"

definition lower :: "json \<Rightarrow> json \<Rightarrow> bool \<Rightarrow> json list res" where
  "lower nodes result share =
     rbind (check_source nodes result) (\<lambda>(ns, name). Inr (map node_json (lower_nodes share ns)))"

section \<open>The bias\<close>

lemma bias_signed:
  assumes "0 \<le> x" "x < 2 ^ 32"
  shows "take_bit 32 (x + 2 ^ 31) = signed32 x + 2 ^ 31"
proof (cases "x < 2 ^ 31")
  case True
  then show ?thesis using assms by (simp add: signed32_def take_bit_int_eq_self)
next
  case False
  have "take_bit 32 (x + 2 ^ 31) = (x - 2 ^ 31 + 2 ^ 32) mod 2 ^ 32" by (simp add: take_bit_eq_mod add.commute)
  also have "\<dots> = (x - 2 ^ 31) mod 2 ^ 32" by (simp only: mod_add_self2)
  also have "\<dots> = x - 2 ^ 31" using assms False by (intro mod_pos_pos_trivial) auto
  finally show ?thesis using False by (simp add: signed32_def)
qed

lemma biased_max:
  assumes "0 \<le> x" "x < 2 ^ 32" "0 \<le> y" "y < 2 ^ 32"
  shows "take_bit 32 (take_bit 32 (max (take_bit 32 (x + 2 ^ 31)) (take_bit 32 (y + 2 ^ 31))) + 2 ^ 31)
    = take_bit 32 (max (signed32 x) (signed32 y))"
proof -
  have r: "take_bit 32 (max (signed32 x + 2 ^ 31) (signed32 y + 2 ^ 31)) = max (signed32 x + 2 ^ 31) (signed32 y + 2 ^ 31)"
    using assms by (intro take_bit_int_eq_self) (auto simp: signed32_def)
  have "take_bit 32 (max (signed32 x + 2 ^ 31) (signed32 y + 2 ^ 31) + 2 ^ 31)
     = (max (signed32 x) (signed32 y) + 2 ^ 32) mod 2 ^ 32"
    by (simp add: take_bit_eq_mod max_def)
  also have "\<dots> = take_bit 32 (max (signed32 x) (signed32 y))"
    by (simp only: mod_add_self2 take_bit_eq_mod)
  finally show ?thesis by (simp only: bias_signed [OF assms(1,2)] bias_signed [OF assms(3,4)] r)
qed

section \<open>The invariant of the lowering loop\<close>

text \<open>Fields a node dictionary does not have read as empty; identifiers are not empty.\<close>

definition canon :: "node \<Rightarrow> bool" where
  "canon n \<longleftrightarrow> nid n \<noteq> [] \<and> (nop n \<noteq> OpLoad \<longrightarrow> nview n = []) \<and> (\<not> has_imm (nop n) \<longrightarrow> nimm n = 0)"

text \<open>
  \<open>env\<close> is the environment of the source nodes read so far and \<open>env'\<close> that of the emitted
  ones: it extends \<open>env\<close>, generated names avoid those of the source nodes \<open>S\<close>, loads are copies of source loads, the sign constant is
  \<open>2 ^ 31\<close> and a shared transform holds the biased value of its name.
\<close>

definition low_inv :: "(string \<Rightarrow> int res) \<Rightarrow> node set \<Rightarrow> (string \<rightharpoonup> int) \<Rightarrow> lowering \<Rightarrow> (string \<rightharpoonup> int) \<Rightarrow> bool" where
  "low_inv load S env st env' \<longleftrightarrow>
     foldM (eval_node load) Map.empty (lw_emitted st) = Inr env' \<and> words_map env' \<and>
     nodes_ok {} (lw_emitted st) \<and> nid ` set (lw_emitted st) = dom env' \<and>
     (\<forall>n \<in> set (lw_emitted st). \<not> signed_op (nop n) \<and> canon n \<and> (nop n = OpLoad \<longrightarrow> n \<in> S)) \<and>
     dom env' \<subseteq> set (lw_reserved st) \<and> (nid ` S) \<subseteq> set (lw_reserved st) \<and> dom env' \<inter> (nid ` S) \<subseteq> dom env \<and> env \<subseteq>\<^sub>m env' \<and>
     (\<forall>s. lw_sign st = Some s \<longrightarrow> env' s = Some (2 ^ 31)) \<and>
     (\<forall>x b. lw_biased st x = Some b \<longrightarrow> (\<exists>v. env x = Some v \<and> env' b = Some (take_bit 32 (v + 2 ^ 31))))"

lemma low_inv_emit_named:
  assumes inv: "low_inv load S env st env'" and args: "set args \<subseteq> dom env'" "length args = arity o'"
    and o': "o' \<noteq> OpLoad" "\<not> signed_op o'" "if has_imm o' then 0 \<le> imm \<and> imm < 2 ^ 22 else imm = 0"
    and name: "name \<notin> dom env'" "name \<in> set (lw_reserved st)" "name \<noteq> []"
    and v: "v = take_bit 32 (apply_op o' imm (map (\<lambda>x. the (env' x)) args) 0)"
    and env2: "env2 = env \<and> name \<notin> (nid ` S) \<or> env2 = env(name \<mapsto> v)"
  shows "low_inv load S env2 (emit_named st o' args imm name) (env'(name \<mapsto> v))"
proof -
  let ?n = "\<lparr>nid = name, nop = o', nargs = args, nview = [], nimm = imm\<rparr>"
  have "eval_node load env' ?n = Inr (env'(name \<mapsto> v))"
    using mapM_mget_the [OF args(1)] o'(1) by (simp add: eval_node_def v)
  moreover have "node_ok (dom env') ?n" "canon ?n" using args o' name by (simp_all add: node_ok_def canon_def split: if_splits)
  moreover have "words_map (env'(name \<mapsto> v))" using inv by (simp add: low_inv_def v)
  moreover have le: "env \<subseteq>\<^sub>m env'" using inv by (simp add: low_inv_def)
  then have "env name = None" using name(1) by (metis domIff map_le_def)
  then have "env2 \<subseteq>\<^sub>m env'(name \<mapsto> v)" "dom env \<subseteq> dom env2" "\<And>x. x \<noteq> name \<Longrightarrow> env2 x = env x"
    using env2 le name(1) by (auto simp: map_le_def dom_def)
  moreover have "dom env' \<inter> (nid ` S) \<subseteq> dom env" using inv by (simp add: low_inv_def)
  then have "dom (env'(name \<mapsto> v)) \<inter> (nid ` S) \<subseteq> dom env2" using env2 by auto
  ultimately show ?thesis
    using inv name o'(1,2) \<open>env name = None\<close>
    apply (simp add: low_inv_def emit_named_def foldM_append nodes_ok_append)
    by (metis domI option.discI)
qed

lemma low_inv_emit:
  assumes inv: "low_inv load S env st env'" and args: "set args \<subseteq> dom env'" "length args = arity o'"
    and o': "o' \<noteq> OpLoad" "\<not> signed_op o'" "if has_imm o' then 0 \<le> imm \<and> imm < 2 ^ 22 else imm = 0"
    and emit: "emit st o' args imm = (st1, name)"
  obtains env1 where "low_inv load S env st1 env1" "env' \<subseteq>\<^sub>m env1"
    "env1 name = Some (take_bit 32 (apply_op o' imm (map (\<lambda>x. the (env' x)) args) 0))"
    "lw_sign st1 = lw_sign st" "lw_biased st1 = lw_biased st"
proof -
  obtain serial where fresh: "fresh_name (lw_reserved st) (lw_serial st) = (name, serial)"
    and st1: "st1 = emit_named (st\<lparr>lw_serial := serial, lw_reserved := name # lw_reserved st\<rparr>) o' args imm name"
    using emit by (auto simp: emit_def Let_def split: prod.splits)
  have "name \<noteq> []" using fresh_name_nonempty [of "lw_reserved st" "lw_serial st"] fresh by simp
  have new: "name \<notin> set (lw_reserved st)" using fresh_name_new [of "lw_reserved st" "lw_serial st"] fresh by simp
  have inv': "low_inv load S env (st\<lparr>lw_serial := serial, lw_reserved := name # lw_reserved st\<rparr>) env'"
    using inv by (auto simp: low_inv_def)
  have nodom: "name \<notin> dom env'" "name \<notin> (nid ` S)" using new inv by (auto simp: low_inv_def)
  let ?v = "take_bit 32 (apply_op o' imm (map (\<lambda>x. the (env' x)) args) 0)"
  have "low_inv load S env st1 (env'(name \<mapsto> ?v))"
    unfolding st1 using nodom \<open>name \<noteq> []\<close> by (intro low_inv_emit_named [OF inv' args o']) auto
  moreover have "env' \<subseteq>\<^sub>m env'(name \<mapsto> ?v)" using nodom(1) by (auto simp: map_le_def)
  ultimately show ?thesis using that [of "env'(name \<mapsto> ?v)"] by (simp add: st1 emit_named_def)
qed

lemma low_inv_word: "low_inv load S env st env' \<Longrightarrow> env' x = Some v \<Longrightarrow> 0 \<le> v \<and> v < 2 ^ 32"
  by (auto simp: low_inv_def words_map_def)

lemma low_inv_env: "low_inv load S env st env' \<Longrightarrow> env x = Some v \<Longrightarrow> env' x = Some v"
  by (auto simp: low_inv_def map_le_def dom_def)

lemma map_le_Some: "m \<subseteq>\<^sub>m m' \<Longrightarrow> m x = Some v \<Longrightarrow> m' x = Some v"
  by (auto simp: map_le_def dom_def)

lemma low_inv_bias:
  "low_inv load S env st env' \<Longrightarrow> env x = Some v \<Longrightarrow> env' b = Some (take_bit 32 (v + 2 ^ 31)) \<Longrightarrow>
   low_inv load S env (st\<lparr>lw_biased := (lw_biased st)(x \<mapsto> b)\<rparr>) env'"
  by (simp add: low_inv_def)

lemma low_inv_get_sign:
  assumes inv: "low_inv load S env st env'" and a: "env' a = Some va" and get: "get_sign st a = (st1, sign)"
  obtains env1 where "low_inv load S env st1 env1" "env' \<subseteq>\<^sub>m env1" "env1 sign = Some (2 ^ 31)"
proof (cases "lw_sign st")
  case (Some s)
  then show ?thesis using that [of env'] inv get by (auto simp: get_sign_def low_inv_def)
next
  case None
  obtain sa one where e1: "emit st OpGeImm [a] 0 = (sa, one)" by fastforce
  obtain sb hi where e2: "emit sa OpAddImm [one] 32767 = (sb, hi)" by fastforce
  obtain sc lo where e3: "emit sb OpAddImm [one] 65535 = (sc, lo)" by fastforce
  obtain sd sg where e4: "emit sc OpMul [hi, lo] 0 = (sd, sg)" by fastforce
  have st1: "st1 = sd\<lparr>lw_sign := Some sg\<rparr>" "sign = sg"
    using get None e1 e2 e3 e4 by (auto simp: get_sign_def Let_def)
  obtain ea where ea: "low_inv load S env sa ea" "env' \<subseteq>\<^sub>m ea" "ea one = Some 1"
    by (rule low_inv_emit [OF inv _ _ _ _ _ e1])
      (use a low_inv_word [OF inv a] in \<open>auto simp: signed_op_def has_imm_def\<close>)
  obtain eb where eb: "low_inv load S env sb eb" "ea \<subseteq>\<^sub>m eb" "eb hi = Some 32768"
    by (rule low_inv_emit [OF ea(1) _ _ _ _ _ e2]) (use ea(3) in \<open>auto simp: signed_op_def has_imm_def\<close>)
  have one_b: "eb one = Some 1" using map_le_Some [OF eb(2) ea(3)] .
  obtain ec where ec: "low_inv load S env sc ec" "eb \<subseteq>\<^sub>m ec" "ec lo = Some 65536"
    by (rule low_inv_emit [OF eb(1) _ _ _ _ _ e3]) (use one_b in \<open>auto simp: signed_op_def has_imm_def\<close>)
  have hi_c: "ec hi = Some 32768" using map_le_Some [OF ec(2) eb(3)] .
  obtain ed where ed: "low_inv load S env sd ed" "ec \<subseteq>\<^sub>m ed" "ed sg = Some (2 ^ 31)"
    by (rule low_inv_emit [OF ec(1) _ _ _ _ _ e4]) (use hi_c ec(3) in \<open>auto simp: signed_op_def has_imm_def\<close>)
  have "low_inv load S env st1 ed" using ed(1,3) by (auto simp: low_inv_def st1)
  moreover have "env' \<subseteq>\<^sub>m ed" using ea(2) eb(2) ec(2) ed(2) by (blast intro: map_le_trans)
  ultimately show ?thesis using that ed(3) st1(2) by blast
qed

lemma low_inv_translated:
  assumes inv: "low_inv load S env st env'" and x: "env x = Some v" and sign: "env' sign = Some (2 ^ 31)"
    and tr: "translated share st sign x = (st1, b)"
  obtains env1 where "low_inv load S env st1 env1" "env' \<subseteq>\<^sub>m env1" "env1 b = Some (take_bit 32 (v + 2 ^ 31))"
proof (cases "if share then lw_biased st x else None")
  case (Some c)
  then have "st1 = st" "b = c" "lw_biased st x = Some c"
    using tr by (auto simp: translated_def split: if_splits)
  then show ?thesis using that [of env'] inv x by (fastforce simp: low_inv_def)
next
  case None
  obtain sa name where e: "emit st OpAdd [x, sign] 0 = (sa, name)" by fastforce
  have st1: "st1 = (if share then sa\<lparr>lw_biased := (lw_biased sa)(x \<mapsto> name)\<rparr> else sa)" "b = name"
    using tr None e by (auto simp: translated_def Let_def split: if_splits)
  have x': "env' x = Some v" using low_inv_env [OF inv x] .
  obtain ea where ea: "low_inv load S env sa ea" "env' \<subseteq>\<^sub>m ea" "ea name = Some (take_bit 32 (v + 2 ^ 31))"
    by (rule low_inv_emit [OF inv _ _ _ _ _ e]) (use x' sign in \<open>auto simp: signed_op_def has_imm_def\<close>)
  have "low_inv load S env st1 ea" using ea(1) low_inv_bias [OF ea(1) x ea(3)] by (simp add: st1)
  then show ?thesis using that ea(2,3) st1(2) by blast
qed

lemma bias_twice:
  assumes "0 \<le> x" "x < 2 ^ 32"
  shows "take_bit 32 (take_bit 32 (x + 2 ^ 31) + 2 ^ 31) = (x :: int)"
proof -
  have "take_bit 32 (take_bit 32 (x + 2 ^ 31) + 2 ^ 31) = (x + 2 ^ 32) mod 2 ^ 32"
    by (simp add: take_bit_eq_mod mod_add_left_eq)
  also have "\<dots> = x" using assms by (simp only: mod_add_self2) simp
  finally show ?thesis .
qed

lemma low_inv_copy:
  assumes inv: "low_inv load S env st env'" and ok: "node_ok (dom env) n" "n \<in> S" "canon n" and plain: "\<not> signed_op (nop n)"
    and eval: "eval_node load env n = Inr env2"
  shows "\<exists>env2'. low_inv load S env2 (st\<lparr>lw_emitted := lw_emitted st @ [n]\<rparr>) env2'"
proof -
  have le: "env \<subseteq>\<^sub>m env'" using inv by (simp add: low_inv_def)
  obtain args l where args: "mapM (mget env) (nargs n) = Inr args"
    and l: "(if nop n = OpLoad then load (nview n) else Inr 0) = Inr l"
    and env2: "env2 = env(nid n \<mapsto> take_bit 32 (apply_op (nop n) (nimm n) args l))"
    using eval unfolding eval_node_def by (simp only: res_simps) blast
  let ?v = "take_bit 32 (apply_op (nop n) (nimm n) args l)"
  have dom: "set (nargs n) \<subseteq> dom env" "nid n \<notin> dom env" using ok by (auto simp: node_ok_def)
  have "mget env' x = mget env x" if "x \<in> set (nargs n)" for x
    using that dom(1) le unfolding mget_def map_le_def by (metis subsetD)
  then have "mapM (mget env') (nargs n) = Inr args" using args by (metis mapM_cong)
  then have ev: "eval_node load env' n = Inr (env'(nid n \<mapsto> ?v))" using l by (simp add: eval_node_def)
  have new: "nid n \<notin> dom env'"
  proof -
    have "dom env' \<inter> (nid ` S) \<subseteq> dom env" using inv by (simp add: low_inv_def)
    with ok(2) dom(2) show ?thesis by blast
  qed
  have "dom env \<subseteq> dom env'" using le by (rule map_le_implies_dom_le)
  then have nok: "node_ok (dom env') n" using ok(1) new unfolding node_ok_def by blast
  have le2: "env2 \<subseteq>\<^sub>m env'(nid n \<mapsto> ?v)" using le by (auto simp: env2 map_le_def)
  have res: "nid n \<in> set (lw_reserved st)" using ok(2) inv by (auto simp: low_inv_def)
  have int: "dom (env'(nid n \<mapsto> ?v)) \<inter> (nid ` S) \<subseteq> dom env2" using inv by (auto simp: low_inv_def env2)
  have bias: "\<exists>v. env2 x = Some v \<and> (env'(nid n \<mapsto> ?v)) b = Some (take_bit 32 (v + 2 ^ 31))"
    if "lw_biased st x = Some b" for x b
  proof -
    obtain v where v: "env x = Some v" "env' b = Some (take_bit 32 (v + 2 ^ 31))"
      using inv \<open>lw_biased st x = Some b\<close> unfolding low_inv_def by blast
    then have "x \<noteq> nid n" "b \<noteq> nid n" using dom(2) new by auto
    with v show ?thesis by (simp add: env2)
  qed
  have sg: "(env'(nid n \<mapsto> ?v)) x = Some (2 ^ 31)" if "lw_sign st = Some x" for x
    using inv new that by (auto simp: low_inv_def)
  have "low_inv load S env2 (st\<lparr>lw_emitted := lw_emitted st @ [n]\<rparr>) (env'(nid n \<mapsto> ?v))"
    unfolding low_inv_def using inv ev nok le2 res int bias sg plain ok(2,3)
    by (simp add: low_inv_def foldM_append nodes_ok_append)
  then show ?thesis by blast
qed

lemma low_inv_signed:
  assumes inv: "low_inv load S env st env'" and ok: "node_ok (dom env) n" "n \<in> S" "canon n" and signed: "signed_op (nop n)"
    and eval: "eval_node load env n = Inr env2"
  shows "\<exists>env2'. low_inv load S env2 (lower_node share st n) env2'"
proof -
  define a where "a = nargs n ! 0"
  obtain x where x: "env a = Some x" using ok(1) signed by (cases "nargs n") (auto simp: node_ok_def signed_op_def a_def)
  obtain st1 sign where g: "get_sign st a = (st1, sign)" by fastforce
  obtain env1 where env1: "low_inv load S env st1 env1" "env1 sign = Some (2 ^ 31)"
    using low_inv_get_sign [OF inv low_inv_env [OF inv x] g] by metis
  obtain st2 left where t: "translated share st1 sign a = (st2, left)" by fastforce
  obtain env2a where e2: "low_inv load S env st2 env2a" "env1 \<subseteq>\<^sub>m env2a" "env2a left = Some (take_bit 32 (x + 2 ^ 31))"
    using low_inv_translated [OF env1(1) x env1(2) t] by metis
  have sg2: "env2a sign = Some (2 ^ 31)" using map_le_Some [OF e2(2) env1(2)] .
  define y where "y = (if nop n = OpReluI32 then 0 else the (env (nargs n ! 1)))"
  obtain st3 right where u: "(if nop n = OpReluI32 then (st2, sign) else translated share st2 sign (nargs n ! 1)) = (st3, right)"
    by fastforce
  have y: "nop n \<noteq> OpReluI32 \<Longrightarrow> env (nargs n ! 1) = Some y"
  proof -
    assume "nop n \<noteq> OpReluI32"
    then have "length (nargs n) = 2" using signed ok(1) by (auto simp: node_ok_def signed_op_def)
    then have "nargs n ! 1 \<in> dom env" using ok(1) by (auto simp: node_ok_def subset_iff)
    then show ?thesis using \<open>nop n \<noteq> OpReluI32\<close> by (auto simp: y_def)
  qed
  obtain env3 where e3: "low_inv load S env st3 env3" "env2a \<subseteq>\<^sub>m env3" "env3 right = Some (take_bit 32 (y + 2 ^ 31))"
  proof (cases "nop n = OpReluI32")
    case True
    then show ?thesis using that [of env2a] u e2(1) sg2 by (simp add: y_def take_bit_eq_mod)
  next
    case False
    then show ?thesis using that u low_inv_translated [OF e2(1) y sg2, of share] by auto
  qed
  obtain st4 selected where m: "emit st3 OpMax [left, right] 0 = (st4, selected)" by fastforce
  have left3: "env3 left = Some (take_bit 32 (x + 2 ^ 31))" using map_le_Some [OF e3(2) e2(3)] .
  define sel where "sel = max (take_bit 32 (x + 2 ^ 31)) (take_bit 32 (y + 2 ^ 31))"
  obtain env4 where e4: "low_inv load S env st4 env4" "env3 \<subseteq>\<^sub>m env4" "env4 selected = Some (take_bit 32 sel)"
    by (rule low_inv_emit [OF e3(1) _ _ _ _ _ m]) (use left3 e3(3) in \<open>auto simp: signed_op_def has_imm_def sel_def\<close>)
  have sel: "take_bit 32 sel = sel" by (simp add: sel_def max_def)
  have sg4: "env4 sign = Some (2 ^ 31)" using map_le_Some [OF e4(2) map_le_Some [OF e3(2) sg2]] .
  define v where "v = take_bit 32 (sel + 2 ^ 31)"
  have rx: "0 \<le> x" "x < 2 ^ 32" using low_inv_word [OF inv low_inv_env [OF inv x]] by auto
  have ry: "0 \<le> y" "y < 2 ^ 32"
    using low_inv_word [OF inv low_inv_env [OF inv y]] by (cases "nop n = OpReluI32"; simp add: y_def)+
  have val: "v = take_bit 32 (max (signed32 x) (signed32 y))"
    using biased_max [OF rx ry] sel by (simp only: v_def sel_def)
  have env2: "env2 = env(nid n \<mapsto> v)"
  proof (cases "nop n = OpReluI32")
    case True
    then have "nargs n = [a]" using ok(1) by (auto simp: node_ok_def a_def length_Suc_conv)
    then have "eval_node load env n = Inr (env(nid n \<mapsto> take_bit 32 (max 0 (signed32 x))))"
      using x True by (simp add: eval_node_def)
    moreover have "signed32 y = 0" using True by (simp add: y_def signed32_def)
    ultimately show ?thesis using eval val by (simp add: max.commute)
  next
    case False
    then have op: "nop n = OpMaxI32" using signed by (simp add: signed_op_def)
    then have "length (nargs n) = 2" using ok(1) by (simp add: node_ok_def)
    then obtain c where "nargs n = [a, c]" by (auto simp: a_def length_Suc_conv eval_nat_numeral)
    then have "mapM (mget env) (nargs n) = Inr [x, y]" using x y [OF False] by simp
    then show ?thesis using eval op val by (simp add: eval_node_def)
  qed
  have new: "nid n \<notin> dom env4" "nid n \<in> set (lw_reserved st4)"
  proof -
    have "dom env4 \<inter> (nid ` S) \<subseteq> dom env" "(nid ` S) \<subseteq> set (lw_reserved st4)" using e4(1) by (simp_all add: low_inv_def)
    moreover have "nid n \<notin> dom env" using ok(1) by (simp add: node_ok_def)
    ultimately show "nid n \<notin> dom env4" "nid n \<in> set (lw_reserved st4)" using ok(2) by blast+
  qed
  have fin: "low_inv load S env2 (emit_named st4 OpAdd [selected, sign] 0 (nid n)) (env4(nid n \<mapsto> v))"
    using e4 sg4 new ok(3) by (intro low_inv_emit_named [OF e4(1)]) (auto simp: signed_op_def has_imm_def v_def sel env2 canon_def)
  have "take_bit 32 (v + 2 ^ 31) = sel"
    unfolding v_def using sel by (intro bias_twice) (auto simp: take_bit_eq_mod sel_def)
  moreover have "selected \<noteq> nid n" using e4(3) new(1) by auto
  ultimately have "low_inv load S env2 ((emit_named st4 OpAdd [selected, sign] 0 (nid n))
      \<lparr>lw_biased := (lw_biased (emit_named st4 OpAdd [selected, sign] 0 (nid n)))(nid n \<mapsto> selected)\<rparr>) (env4(nid n \<mapsto> v))"
    using fin e4(3) sel by (intro low_inv_bias [where v = v]) (simp_all add: env2)
  then show ?thesis
    using fin signed g t u m by (auto simp: lower_node_def Let_def a_def emit_named_def)
qed

section \<open>The whole lowering\<close>

lemma low_inv_loop:
  assumes "low_inv load S env st env'" "nodes_ok (dom env) ns" "set ns \<subseteq> S" "\<forall>n \<in> set ns. canon n"
    and "foldM (eval_node load) env ns = Inr env2"
  shows "\<exists>env2'. low_inv load S env2 (foldl (lower_node share) st ns) env2'"
  using assms
proof (induction ns arbitrary: env st env')
  case (Cons n ns)
  obtain env1 where env1: "eval_node load env n = Inr env1" "foldM (eval_node load) env1 ns = Inr env2"
    using Cons.prems(5) by (auto elim: rbind_InrE)
  have n: "node_ok (dom env) n" "n \<in> S" "canon n" using Cons.prems by auto
  have "\<exists>env1'. low_inv load S env1 (lower_node share st n) env1'"
    using low_inv_copy [OF Cons.prems(1) n _ env1(1)] low_inv_signed [OF Cons.prems(1) n _ env1(1)]
    by (cases "signed_op (nop n)") (simp_all add: lower_node_def)
  moreover have "dom env1 = insert (nid n) (dom env)"
    using env1(1) by (auto simp: eval_node_def res_simps split: if_splits)
  ultimately show ?case using Cons.IH [OF _ _ _ _ env1(2)] Cons.prems by auto
qed auto

lemma low_inv_initial: "low_inv load (set ns) Map.empty (initial_lowering ns) Map.empty"
  by (simp add: low_inv_def initial_lowering_def)

lemma source_node_Inr:
  assumes "source_node seen j = Inr n"
  shows "node_ok seen n" "canon n"
proof -
  obtain kv s o' name xs args view imm where n: "n = \<lparr>nid = name, nop = o', nargs = args, nview = view, nimm = imm\<rparr>"
    and p: "length xs = arity o'" "mapM (\<lambda>a. want_str (Some a) ''source nodes must be in dependency order'') xs = Inr args"
      "set args \<subseteq> seen" "\<not> (name = [] \<or> name \<in> seen)" "0 \<le> imm \<and> imm < 2 ^ 22"
      "(if o' = OpLoad then want_str (map_of kv ''view'') ''invalid source view'' else Inr []) = Inr view"
      "(if has_imm o' then want (case map_of kv ''imm'' of Some (JInt n) \<Rightarrow> Some n | _ \<Rightarrow> None)
          ''source immediate must fit unsigned22 bits'' else Inr 0) = Inr imm"
    using assms unfolding source_node_def by (simp only: res_simps reject_eq) blast
  show "node_ok seen n" "canon n"
    using p mapM_Inr_length [OF p(2)] by (auto simp: node_ok_def canon_def n split: if_splits)
qed

lemma source_nodes_Inr:
  "source_nodes seen js = Inr ns \<Longrightarrow> nodes_ok seen ns \<and> (\<forall>n \<in> set ns. canon n) \<and> length ns = length js"
proof (induction js arbitrary: seen ns)
  case (Cons j js)
  then obtain n ns' where n: "source_node seen j = Inr n" "source_nodes (insert (nid n) seen) js = Inr ns'" "ns = n # ns'"
    by (auto simp: res_simps)
  with Cons.IH source_node_Inr [OF n(1)] show ?case by auto
qed simp

lemma check_source_Inr:
  assumes "check_source nodes result = Inr (ns, name)"
  shows "nodes_ok {} ns" "\<forall>n \<in> set ns. canon n" "name \<in> nid ` set ns" "result = JStr name"
proof -
  obtain js where "source_nodes {} js = Inr ns" "name \<in> nid ` set ns" "result = JStr name"
    using assms unfolding check_source_def by (auto simp: res_simps)
  with source_nodes_Inr show "nodes_ok {} ns" "\<forall>n \<in> set ns. canon n" "name \<in> nid ` set ns" "result = JStr name"
    by blast+
qed

lemma lower_nodes_eval:
  assumes "nodes_ok {} ns" "\<forall>n \<in> set ns. canon n" "eval_nodes load ns name = Inr v"
  shows "eval_nodes load (lower_nodes share ns) name = Inr v"
proof -
  obtain env where env: "foldM (eval_node load) Map.empty ns = Inr env" "env name = Some v"
    using assms(3) by (auto simp: eval_nodes_def res_simps)
  obtain env' where inv: "low_inv load (set ns) env (foldl (lower_node share) (initial_lowering ns) ns) env'"
    using low_inv_loop [OF low_inv_initial _ _ assms(2) env(1)] assms(1) by auto
  then have "foldM (eval_node load) Map.empty (lower_nodes share ns) = Inr env'"
    by (simp add: low_inv_def lower_nodes_def)
  then show ?thesis using low_inv_env [OF inv env(2)] by (simp add: eval_nodes_def)
qed

text \<open>The lowered program is dependency ordered, unsigned, and loads what the source loads.\<close>

lemma lower_nodes_ok:
  assumes "nodes_ok {} ns" "\<forall>n \<in> set ns. canon n"
  shows "nodes_ok {} (lower_nodes share ns)" "nid ` set ns \<subseteq> nid ` set (lower_nodes share ns)"
    "\<forall>n \<in> set (lower_nodes share ns). \<not> signed_op (nop n) \<and> canon n \<and> (nop n = OpLoad \<longrightarrow> n \<in> set ns)"
proof -
  obtain env where env: "foldM (eval_node (\<lambda>_. Inr 0)) Map.empty ns = Inr env" "dom env = nid ` set ns"
    using foldM_eval_total [of Map.empty ns "\<lambda>_. Inr 0"] assms(1) by auto
  obtain env' where inv: "low_inv (\<lambda>_. Inr 0) (set ns) env (foldl (lower_node share) (initial_lowering ns) ns) env'"
    using low_inv_loop [OF low_inv_initial _ _ assms(2) env(1)] assms(1) by auto
  then have "nid ` set (lower_nodes share ns) = dom env'" "env \<subseteq>\<^sub>m env'" "nodes_ok {} (lower_nodes share ns)"
    "\<forall>n \<in> set (lower_nodes share ns). \<not> signed_op (nop n) \<and> canon n \<and> (nop n = OpLoad \<longrightarrow> n \<in> set ns)"
    by (simp_all add: low_inv_def lower_nodes_def)
  then show "nodes_ok {} (lower_nodes share ns)" "nid ` set ns \<subseteq> nid ` set (lower_nodes share ns)"
    "\<forall>n \<in> set (lower_nodes share ns). \<not> signed_op (nop n) \<and> canon n \<and> (nop n = OpLoad \<longrightarrow> n \<in> set ns)"
    using map_le_implies_dom_le [of env env'] env(2) by auto
qed

section \<open>Emitted dictionaries pass the region check\<close>

lemma check_args_Nil [simp]: "check_args seen [] = Inr []"
  by (simp add: check_args_def)

lemma check_args_JStr [simp]: "check_args seen (map JStr args) = (if set args \<subseteq> seen then Inr args else Inl (ValueError ''nodes must be in dependency order''))"
  unfolding check_args_def by (induction args) auto

lemma region_node_json:
  assumes "node_ok seen n" "canon n" "region_node_ok views n"
  shows "region_node views seen (node_json n) = Inr n"
  using assms
  by (cases n; cases "nop n")
    (auto simp: node_ok_def canon_def region_node_ok_def region_node_def node_json_def has_imm_def node_fields_def
      want_dict_def want_str_def want_def want_list_def get_args_def node_name_def node_view_def node_imm_def int_in_def)

lemma region_nodes_json:
  assumes "nodes_ok seen ns" "\<forall>n \<in> set ns. canon n \<and> region_node_ok views n"
  shows "region_nodes views seen (map node_json ns) = Inr ns"
  using assms by (induction ns arbitrary: seen) (auto simp: region_node_json)

lemma source_node_value_error [simp]: "value_error (source_node seen j)"
  unfolding source_node_def by (intro value_error_intros) auto

lemma source_nodes_value_error [simp]: "value_error (source_nodes seen js)"
  by (induction js arbitrary: seen) (auto intro!: value_error_intros)

lemma lower_value_error [simp]: "value_error (lower nodes result share)"
  unfolding lower_def check_source_def by (intro value_error_intros) (auto split: prod.splits)

text \<open>
  C5. Signed lowering is correct: whenever \<open>lower\<close> accepts a source map, the nodes it emits
  use only unsigned operations and are in dependency order, and for every way the loads
  answer, the public result of the emitted program is the result of the source program with
  two's-complement \<open>max_i32\<close> and \<open>relu_i32\<close>, with or without shared transforms.
\<close>

theorem lower_correct:
  assumes "check_source nodes result = Inr (ns, name)"
  shows "lower nodes result share = Inr (map node_json (lower_nodes share ns)) \<and>
    nodes_ok {} (lower_nodes share ns) \<and>
    (\<forall>n \<in> set (lower_nodes share ns). nop n \<in> {OpLoad, OpAdd, OpMul, OpMax, OpAddImm, OpGeImm}) \<and>
    (\<forall>load v. eval_nodes load ns name = Inr v \<longrightarrow> eval_nodes load (lower_nodes share ns) name = Inr v)"
proof -
  note src = check_source_Inr [OF assms]
  note low = lower_nodes_ok [OF src(1,2), of share]
  have "nop n \<in> {OpLoad, OpAdd, OpMul, OpMax, OpAddImm, OpGeImm}" if "n \<in> set (lower_nodes share ns)" for n
    using low(3) that by (cases "nop n") (auto simp: signed_op_def)
  moreover have "lower nodes result share = Inr (map node_json (lower_nodes share ns))"
    by (simp add: lower_def assms)
  ultimately show ?thesis using low(1) lower_nodes_eval [OF src(1,2)] by blast
qed

definition relu_source :: "node list" where
  "relu_source =
     [\<lparr>nid = ''x'', nop = OpLoad, nargs = [], nview = ''in'', nimm = 0\<rparr>,
      \<lparr>nid = ''y'', nop = OpReluI32, nargs = [''x''], nview = [], nimm = 0\<rparr>,
      \<lparr>nid = ''z'', nop = OpMaxI32, nargs = [''x'', ''y''], nview = [], nimm = 0\<rparr>]"

theorem lower_correct_witness:
  "eval_nodes (\<lambda>_. Inr (2 ^ 32 - 5)) (lower_nodes True relu_source) ''z'' = Inr 0"
proof -
  have src: "check_source (JList (map node_json relu_source)) (JStr ''z'') = Inr (relu_source, ''z'')"
    by code_simp
  have "eval_nodes (\<lambda>_. Inr (2 ^ 32 - 5)) relu_source ''z'' = Inr 0"
    by code_simp
  then show ?thesis using lower_correct [OF src] by blast
qed

end
