(* ===== verification/Grid_Kernel.thy ===== *)
theory Grid_Kernel
  imports Mf01_Numeric
begin

text \<open>
  \<open>raveil/grid_kernel.py\<close> (grids, boundary rules, samples, tiles and halos) and
  \<open>raveil/grid_assembly.py\<close> (checked assembly of tile results). A grid arrives as the bytes
  \<open>project.encoded\<close> made of it, so the size limit is one on that JSON text: \<open>encoded_size\<close> is
  its length (two-space indentation, ASCII escapes, final newline).
\<close>

section \<open>Size of the encoded text\<close>

definition escaped_size :: "char \<Rightarrow> nat" where
  "escaped_size c = (let n = of_char c :: nat in
     if n \<in> {34, 92, 8, 9, 10, 12, 13} then 2 else if n < 32 \<or> 126 < n then 6 else 1)"

definition str_size :: "string \<Rightarrow> nat" where
  "str_size s = 2 + sum_list (map escaped_size s)"

definition int_size :: "int \<Rightarrow> nat" where
  "int_size n = length (str_nat (nat \<bar>n\<bar>)) + (if n < 0 then 1 else 0)"

text \<open>An item of a non-empty container at depth \<open>d\<close> costs its indentation and a newline, and all but the last a comma.\<close>

fun dump_size :: "nat \<Rightarrow> json \<Rightarrow> nat" where
  "dump_size d JNull = 4"
| "dump_size d (JBool b) = (if b then 4 else 5)"
| "dump_size d (JInt n) = int_size n"
| "dump_size d (JStr s) = str_size s"
| "dump_size d (JList xs) = (if xs = [] then 2
     else 2 + 1 + 2 * d + sum_list (map (\<lambda>x. 1 + 2 * (d + 1) + dump_size (d + 1) x) xs) + (length xs - 1))"
| "dump_size d (JDict kv) = (if kv = [] then 2
     else 2 + 1 + 2 * d + sum_list (map (\<lambda>(k, x). 1 + 2 * (d + 1) + str_size k + 2 + dump_size (d + 1) x) kv) + (length kv - 1))"

definition encoded_size :: "json \<Rightarrow> nat" where
  "encoded_size j = dump_size 0 j + 1"

section \<open>Grids\<close>

record grid =
  g_rows :: int
  g_columns :: int
  g_words :: "int list"

definition MAX_DIMENSION :: int where
  "MAX_DIMENSION = 64"

definition dimension :: "json option \<Rightarrow> int res" where
  "dimension j = (case j of
     Some (JInt n) \<Rightarrow> if 1 \<le> n \<and> n \<le> MAX_DIMENSION then Inr n else Inl (ValueError ''grid dimensions must be integers in 1..64'')
   | _ \<Rightarrow> Inl (ValueError ''grid dimensions must be integers in 1..64''))"

definition grid_word :: "json \<Rightarrow> int res" where
  "grid_word j = (case j of
     JInt n \<Rightarrow> if 0 \<le> n \<and> n \<le> MASK then Inr n else Inl (ValueError ''grid requires rows*columns uint32 words'')
   | _ \<Rightarrow> Inl (ValueError ''grid requires rows*columns uint32 words''))"

definition read_input :: "json \<Rightarrow> grid res" where
  "read_input j =
     rbind (reject (int (encoded_size j) > 128 * 1024) (ValueError ''grid input exceeds 128 KiB'')) (\<lambda>_.
     rbind (want_dict (Some j) ''expected composition object'') (\<lambda>d.
     rbind (reject (keys d \<noteq> {''schema'', ''rows'', ''columns'', ''words''} \<or>
                    map_of d ''schema'' \<noteq> Some (JStr ''raveil.grid-input/v2''))
              (ValueError ''expected exact grid-input/v2 schema'')) (\<lambda>_.
     rbind (dimension (map_of d ''rows'')) (\<lambda>rows.
     rbind (dimension (map_of d ''columns'')) (\<lambda>columns.
     rbind (want_list (map_of d ''words'') ''grid requires rows*columns uint32 words'') (\<lambda>ws.
     rbind (reject (int (length ws) \<noteq> rows * columns) (ValueError ''grid requires rows*columns uint32 words'')) (\<lambda>_.
     rbind (mapM grid_word ws) (\<lambda>words.
     Inr \<lparr>g_rows = rows, g_columns = columns, g_words = words\<rparr>))))))))"

datatype boundary_mode = BZero | BClamp | BWrap

definition boundary :: "json option \<Rightarrow> boundary_mode res" where
  "boundary j =
     (if j = Some (JStr ''zero'') then Inr BZero
      else if j = Some (JStr ''clamp'') then Inr BClamp
      else if j = Some (JStr ''wrap'') then Inr BWrap
      else Inl (ValueError ''boundary must be zero, clamp or wrap''))"

definition sample :: "grid \<Rightarrow> int \<Rightarrow> int \<Rightarrow> boundary_mode \<Rightarrow> int res" where
  "sample g row col mode =
     (let rows = g_rows g; columns = g_columns g
      in if mode = BZero \<and> \<not> (0 \<le> row \<and> row < rows \<and> 0 \<le> col \<and> col < columns) then Inr 0
         else (let (row, col) = (case mode of
                    BClamp \<Rightarrow> (min (rows - 1) (max 0 row), min (columns - 1) (max 0 col))
                  | BWrap \<Rightarrow> (row mod rows, col mod columns)
                  | BZero \<Rightarrow> (row, col))
               in py_nth (g_words g) (row * columns + col)))"

text \<open>\<open>range(start, stop, step)\<close>\<close>

definition stepped :: "int \<Rightarrow> int \<Rightarrow> int list" where
  "stepped stop s = map (\<lambda>k. int k * s) [0..<nat ((stop + s - 1) div s)]"

record tile =
  t_name :: string
  t_row :: int
  t_column :: int
  t_rows :: int
  t_columns :: int

text \<open>The 16 by 16 tiles of a grid and the 18 by 18 words around one; a tile's slot is its position.\<close>

definition layout :: "grid \<Rightarrow> (int \<times> int \<times> int \<times> int) list" where
  "layout g = concat (map (\<lambda>r. map (\<lambda>c. (r, c, min 16 (g_rows g - r), min 16 (g_columns g - c)))
     (stepped (g_columns g) 16)) (stepped (g_rows g) 16))"

definition halo :: "grid \<Rightarrow> int \<Rightarrow> int \<Rightarrow> boundary_mode \<Rightarrow> int list res" where
  "halo g row column mode =
     mapM (\<lambda>(r, c). sample g (row - 1 + int r) (column - 1 + int c) mode) (grid_list 18 18 Pair)"

section \<open>Assembly\<close>

record tile_output =
  o_name :: string
  o_shape :: "int list"
  o_words :: "int list"

definition place_cell :: "int \<Rightarrow> tile \<Rightarrow> int list \<Rightarrow> int option list \<Rightarrow> nat \<times> nat \<Rightarrow> int option list res" where
  "place_cell columns t words vals p = (case p of (r, c) \<Rightarrow>
     (let index = (t_row t + int r) * columns + t_column t + int c
      in if \<not> (0 \<le> index \<and> index < int (length vals)) \<or> vals ! nat index \<noteq> None
         then Inl (ValueError ''tile overlap/bounds'')
         else rbind (py_nth words (int r * t_columns t + int c)) (\<lambda>w. Inr (vals[nat index := Some w]))))"

definition place_tile :: "int \<Rightarrow> int \<Rightarrow> int option list \<Rightarrow> tile_output \<times> tile \<Rightarrow> int option list res" where
  "place_tile rows columns vals p = (case p of (out, t) \<Rightarrow>
     rbind (reject (t_row t < 0 \<or> t_column t < 0 \<or> t_rows t < 1 \<or> t_columns t < 1 \<or>
                    t_row t + t_rows t > rows \<or> t_column t + t_columns t > columns)
              (ValueError ''tile rectangle out of bounds'')) (\<lambda>_.
     rbind (reject (o_name out \<noteq> t_name t \<or> o_shape out \<noteq> [t_rows t, t_columns t])
              (ValueError ''tile identity differs'')) (\<lambda>_.
     rbind (reject (int (length (o_words out)) \<noteq> t_rows t * t_columns t) (ValueError ''tile length differs'')) (\<lambda>_.
     foldM (place_cell columns t (o_words out)) vals (grid_list (nat (t_rows t)) (nat (t_columns t)) Pair)))))"

definition assemble :: "tile_output list \<Rightarrow> tile list \<Rightarrow> int \<Rightarrow> int \<Rightarrow> int list res" where
  "assemble outputs tiles rows columns =
     rbind (reject (\<not> (1 \<le> rows \<and> rows \<le> 64) \<or> \<not> (1 \<le> columns \<and> columns \<le> 64))
              (ValueError ''invalid output dimensions'')) (\<lambda>_.
     rbind (reject (length outputs \<noteq> length tiles) (ValueError ''missing output tiles'')) (\<lambda>_.
     rbind (foldM (place_tile rows columns) (replicate (nat (rows * columns)) None) (zip outputs tiles)) (\<lambda>vals.
     rbind (reject (None \<in> set vals) (ValueError ''tile gap'')) (\<lambda>_.
     Inr (map the vals)))))"

section \<open>Grids and samples\<close>

definition grid_ok :: "grid \<Rightarrow> bool" where
  "grid_ok g \<longleftrightarrow> 1 \<le> g_rows g \<and> g_rows g \<le> 64 \<and> 1 \<le> g_columns g \<and> g_columns g \<le> 64 \<and>
     int (length (g_words g)) = g_rows g * g_columns g \<and> (\<forall>w \<in> set (g_words g). 0 \<le> w \<and> w < 2 ^ 32)"

lemma grid_word_Inr [res_simps]: "grid_word j = Inr n \<longleftrightarrow> j = JInt n \<and> 0 \<le> n \<and> n \<le> MASK"
  by (auto simp: grid_word_def split: json.splits if_splits)

lemma dimension_Inr [res_simps]: "dimension j = Inr n \<longleftrightarrow> j = Some (JInt n) \<and> 1 \<le> n \<and> n \<le> 64"
  by (auto simp: dimension_def MAX_DIMENSION_def split: option.splits json.splits if_splits)

lemma grid_value_errors [simp]:
  "value_error (grid_word j)" "value_error (dimension x)" "value_error (boundary x)"
  by (auto simp: grid_word_def dimension_def boundary_def split: json.splits option.splits)

lemma read_input_value_error [simp]: "value_error (read_input j)"
  unfolding read_input_def by (intro value_error_rbind value_error_mapM) simp_all

lemma read_input_ok: "read_input j = Inr g \<Longrightarrow> grid_ok g"
proof -
  assume "read_input j = Inr g"
  then obtain rows columns ws words where g: "g = \<lparr>g_rows = rows, g_columns = columns, g_words = words\<rparr>"
    and p: "1 \<le> rows" "rows \<le> 64" "1 \<le> columns" "columns \<le> 64" "int (length ws) = rows * columns" "mapM grid_word ws = Inr words"
    unfolding read_input_def by (simp only: res_simps reject_eq Inr_inject not_not) blast
  have "0 \<le> w \<and> w < 2 ^ 32" if w: "w \<in> set words" for w
  proof -
    obtain i where "i < length ws" "w = words ! i" using w mapM_Inr_length [OF p(6)] by (auto simp: in_set_conv_nth)
    with mapM_Inr_nth [OF p(6), of i] show ?thesis by (simp add: res_simps MASK_def)
  qed
  with p mapM_Inr_length [OF p(6)] show ?thesis by (simp add: grid_ok_def g)
qed

lemma grid_index_bounds:
  assumes "0 \<le> r" "r < rows" "0 \<le> c" "c < columns"
  shows "0 \<le> r * columns + c" "r * columns + c < rows * (columns :: int)"
proof -
  show "0 \<le> r * columns + c" using assms by simp
  have "r * columns \<le> (rows - 1) * columns" using assms by (intro mult_right_mono) auto
  then show "r * columns + c < rows * columns" using assms(4) by (simp add: algebra_simps)
qed

text \<open>A sample of an admitted grid is a word, at any coordinates and under every rule.\<close>

lemma sample_word:
  assumes "grid_ok g"
  shows "\<exists>w. sample g row col mode = Inr w \<and> 0 \<le> w \<and> w < 2 ^ 32"
proof -
  have inside: "\<exists>w. py_nth (g_words g) (r * g_columns g + c) = Inr w \<and> 0 \<le> w \<and> w < 2 ^ 32"
    if "0 \<le> r" "r < g_rows g" "0 \<le> c" "c < g_columns g" for r c
  proof -
    note b = grid_index_bounds [OF that]
    have i: "nat (r * g_columns g + c) < length (g_words g)" using assms b by (simp add: grid_ok_def nat_less_iff)
    then have "g_words g ! nat (r * g_columns g + c) \<in> set (g_words g)" by simp
    with assms b show ?thesis by (simp add: grid_ok_def)
  qed
  have pos: "1 \<le> g_rows g" "1 \<le> g_columns g" using assms by (auto simp: grid_ok_def)
  show ?thesis
  proof (cases mode)
    case BZero
    then show ?thesis using inside [of row col] by (auto simp: sample_def Let_def)
  next
    case BClamp
    then show ?thesis
      using inside [of "min (g_rows g - 1) (max 0 row)" "min (g_columns g - 1) (max 0 col)"] pos
      by (simp add: sample_def Let_def min_less_iff_disj)
  next
    case BWrap
    then show ?thesis using inside [of "row mod g_rows g" "col mod g_columns g"] pos by (simp add: sample_def Let_def)
  qed
qed

end
