(* ===== verification/Grid_Assembly.thy ===== *)
theory Grid_Assembly
  imports Grid_Kernel
begin

text \<open>
  Assembly of tile results: it succeeds exactly on partitions. \<open>covers t R C\<close> says that the
  tile's rectangle contains the global cell; a successful assembly gives every cell the word
  of the one tile that covers it, and conversely tiles that cover every cell exactly once
  assemble to the full grid.
\<close>

definition covers :: "tile \<Rightarrow> int \<Rightarrow> int \<Rightarrow> bool" where
  "covers t R C \<longleftrightarrow> t_row t \<le> R \<and> R < t_row t + t_rows t \<and> t_column t \<le> C \<and> C < t_column t + t_columns t"

definition tile_word :: "tile \<Rightarrow> int list \<Rightarrow> int \<Rightarrow> int \<Rightarrow> int" where
  "tile_word t words R C = words ! nat ((R - t_row t) * t_columns t + (C - t_column t))"

definition tile_fits :: "int \<Rightarrow> int \<Rightarrow> tile_output \<times> tile \<Rightarrow> bool" where
  "tile_fits rows columns p = (case p of (out, t) \<Rightarrow>
     0 \<le> t_row t \<and> 0 \<le> t_column t \<and> 1 \<le> t_rows t \<and> 1 \<le> t_columns t \<and>
     t_row t + t_rows t \<le> rows \<and> t_column t + t_columns t \<le> columns \<and>
     o_name out = t_name t \<and> o_shape out = [t_rows t, t_columns t] \<and>
     int (length (o_words out)) = t_rows t * t_columns t)"

section \<open>Row-major indices\<close>

lemma row_major_inject:
  assumes "0 \<le> C" "C < columns" "0 \<le> C'" "C' < columns" "R * columns + C = R' * columns + (C' :: int)"
  shows "R = R' \<and> C = C'"
proof -
  have "(R * columns + C) div columns = R" "(R' * columns + C') div columns = R'" using assms(1-4) by auto
  then have "R = R'" using assms(5) by metis
  with assms(5) show ?thesis by simp
qed

text \<open>The grid after some tiles: a partial function of global coordinates.\<close>

definition shows_grid :: "int \<Rightarrow> int \<Rightarrow> int option list \<Rightarrow> (int \<Rightarrow> int \<Rightarrow> int option) \<Rightarrow> bool" where
  "shows_grid rows columns vals f \<longleftrightarrow> length vals = nat (rows * columns) \<and>
     (\<forall>R C. 0 \<le> R \<and> R < rows \<and> 0 \<le> C \<and> C < columns \<longrightarrow> vals ! nat (R * columns + C) = f R C)"

lemma shows_grid_update:
  assumes "shows_grid rows columns vals f" "0 \<le> R" "R < rows" "0 \<le> C" "C < columns"
  shows "shows_grid rows columns (vals[nat (R * columns + C) := x]) (\<lambda>R' C'. if R' = R \<and> C' = C then x else f R' C')"
proof -
  have "vals[nat (R * columns + C) := x] ! nat (R' * columns + C') = (if R' = R \<and> C' = C then x else f R' C')"
    if "0 \<le> R'" "R' < rows" "0 \<le> C'" "C' < columns" for R' C'
  proof (cases "R' = R \<and> C' = C")
    case True
    have "nat (R * columns + C) < length vals"
      using assms grid_index_bounds [OF assms(2-5)] by (simp add: shows_grid_def)
    with True show ?thesis by simp
  next
    case False
    have "R' * columns + C' \<noteq> R * columns + C" using False row_major_inject [of C' columns C R' R] that assms by auto
    then have "nat (R' * columns + C') \<noteq> nat (R * columns + C)"
      using grid_index_bounds [OF that] grid_index_bounds [OF assms(2-5)] by (simp add: nat_eq_iff)
    then show ?thesis using False assms(1) that by (auto simp: shows_grid_def)
  qed
  with assms(1) show ?thesis by (simp add: shows_grid_def)
qed

section \<open>One tile\<close>

lemma place_cell_inside:
  assumes fits: "tile_fits rows columns (out, t)" and g: "shows_grid rows columns vals f"
    and p: "r < nat (t_rows t)" "c < nat (t_columns t)"
  shows "place_cell columns t (o_words out) vals (r, c) =
    (if f (t_row t + int r) (t_column t + int c) \<noteq> None then Inl (ValueError ''tile overlap/bounds'')
     else Inr (vals[nat ((t_row t + int r) * columns + (t_column t + int c)) :=
       Some (tile_word t (o_words out) (t_row t + int r) (t_column t + int c))]))"
proof -
  have R: "0 \<le> t_row t + int r" "t_row t + int r < rows" "0 \<le> t_column t + int c" "t_column t + int c < columns"
    using fits p by (auto simp: tile_fits_def)
  note b = grid_index_bounds [OF R]
  have "int (nat (rows * columns)) = rows * columns" using b by simp
  then have len: "int (length vals) = rows * columns" using g by (simp add: shows_grid_def)
  have w: "0 \<le> int r * t_columns t + int c" "int r * t_columns t + int c < int (length (o_words out))"
    using grid_index_bounds [of "int r" "t_rows t" "int c" "t_columns t"] fits p by (auto simp: tile_fits_def)
  have "vals ! nat ((t_row t + int r) * columns + (t_column t + int c)) = f (t_row t + int r) (t_column t + int c)"
    using g R by (simp add: shows_grid_def)
  then show ?thesis
    using b len w by (simp add: place_cell_def Let_def tile_word_def add.assoc)
qed

lemma place_cells:
  assumes fits: "tile_fits rows columns (out, t)"
    and "\<forall>r c. (r, c) \<in> set ps \<longrightarrow> r < nat (t_rows t) \<and> c < nat (t_columns t)" "distinct ps" "shows_grid rows columns vals f"
  shows "case foldM (place_cell columns t (o_words out)) vals ps of
      Inl e \<Rightarrow> \<exists>r c. (r, c) \<in> set ps \<and> f (t_row t + int r) (t_column t + int c) \<noteq> None
    | Inr vals' \<Rightarrow> (\<forall>r c. (r, c) \<in> set ps \<longrightarrow> f (t_row t + int r) (t_column t + int c) = None) \<and>
        shows_grid rows columns vals' (\<lambda>R C. if (nat (R - t_row t), nat (C - t_column t)) \<in> set ps \<and> covers t R C
          then Some (tile_word t (o_words out) R C) else f R C)"
  using assms(2-4)
proof (induction ps arbitrary: vals f)
  case Nil
  then show ?case by simp
next
  case (Cons p ps)
  obtain r c where p: "p = (r, c)" by (cases p)
  let ?R = "t_row t + int r" and ?C = "t_column t + int c"
  have rc: "r < nat (t_rows t)" "c < nat (t_columns t)" using Cons.prems(1) p by auto
  note step = place_cell_inside [OF fits Cons.prems(3) rc]
  show ?case
  proof (cases "f ?R ?C = None")
    case False
    then show ?thesis by (auto simp: p step)
  next
    case True
    define f1 where "f1 = (\<lambda>R C. if R = ?R \<and> C = ?C then Some (tile_word t (o_words out) ?R ?C) else f R C)"
    have g1: "shows_grid rows columns (vals[nat (?R * columns + ?C) := Some (tile_word t (o_words out) ?R ?C)]) f1"
      unfolding f1_def using fits rc by (intro shows_grid_update [OF Cons.prems(3)]) (auto simp: tile_fits_def)
    have same: "f1 (t_row t + int r') (t_column t + int c') = f (t_row t + int r') (t_column t + int c')"
      if "(r', c') \<in> set ps" for r' c' using that Cons.prems(2) by (auto simp: f1_def p)
    have cov: "covers t ?R ?C" using fits rc by (auto simp: covers_def tile_fits_def)
    have fn: "(\<lambda>R C. if (nat (R - t_row t), nat (C - t_column t)) \<in> set ps \<and> covers t R C
          then Some (tile_word t (o_words out) R C) else f1 R C)
       = (\<lambda>R C. if (nat (R - t_row t), nat (C - t_column t)) \<in> set (p # ps) \<and> covers t R C
          then Some (tile_word t (o_words out) R C) else f R C)"
    proof (intro ext)
      fix R C
      show "(if (nat (R - t_row t), nat (C - t_column t)) \<in> set ps \<and> covers t R C
          then Some (tile_word t (o_words out) R C) else f1 R C)
        = (if (nat (R - t_row t), nat (C - t_column t)) \<in> set (p # ps) \<and> covers t R C
          then Some (tile_word t (o_words out) R C) else f R C)"
        using cov by (auto simp: f1_def p covers_def)
    qed
    have IH: "case foldM (place_cell columns t (o_words out)) (vals[nat (?R * columns + ?C) := Some (tile_word t (o_words out) ?R ?C)]) ps of
      Inl e \<Rightarrow> \<exists>r c. (r, c) \<in> set ps \<and> f1 (t_row t + int r) (t_column t + int c) \<noteq> None
    | Inr vals' \<Rightarrow> (\<forall>r c. (r, c) \<in> set ps \<longrightarrow> f1 (t_row t + int r) (t_column t + int c) = None) \<and>
        shows_grid rows columns vals' (\<lambda>R C. if (nat (R - t_row t), nat (C - t_column t)) \<in> set ps \<and> covers t R C
          then Some (tile_word t (o_words out) R C) else f1 R C)"
      using Cons.IH [OF _ _ g1] Cons.prems(1,2) by auto
    let ?m = "foldM (place_cell columns t (o_words out)) (vals[nat (?R * columns + ?C) := Some (tile_word t (o_words out) ?R ?C)]) ps"
    have eq: "foldM (place_cell columns t (o_words out)) vals (p # ps) = ?m" using True by (simp add: p step)
    show ?thesis
    proof (cases ?m)
      case (Inl e)
      then obtain r' c' where "(r', c') \<in> set ps" "f1 (t_row t + int r') (t_column t + int c') \<noteq> None" using IH by auto
      then have "(r', c') \<in> set (p # ps)" "f (t_row t + int r') (t_column t + int c') \<noteq> None" using same by auto
      then show ?thesis unfolding eq Inl sum.case by blast
    next
      case (Inr vals')
      have "f (t_row t + int r') (t_column t + int c') = None" if "(r', c') \<in> set (p # ps)" for r' c'
        using IH Inr True same that p by auto
      then show ?thesis using IH unfolding eq Inr sum.case fn by blast
    qed
  qed
qed

lemma distinct_pairs: "distinct (grid_list h w Pair)"
proof -
  have "distinct (map (Pair r) [0..<w])" for r :: nat by (simp add: distinct_map inj_on_def)
  then show ?thesis
    by (induction h) (auto simp: grid_list_def)
qed

lemma place_tile_spec:
  assumes fits: "tile_fits rows columns (out, t)" and g: "shows_grid rows columns vals f"
  shows "case place_tile rows columns vals (out, t) of
      Inl e \<Rightarrow> \<exists>R C. covers t R C \<and> f R C \<noteq> None
    | Inr vals' \<Rightarrow> (\<forall>R C. covers t R C \<longrightarrow> f R C = None) \<and>
        shows_grid rows columns vals' (\<lambda>R C. if covers t R C then Some (tile_word t (o_words out) R C) else f R C)"
proof -
  let ?ps = "grid_list (nat (t_rows t)) (nat (t_columns t)) Pair"
  have ps: "(r, c) \<in> set ?ps \<longleftrightarrow> r < nat (t_rows t) \<and> c < nat (t_columns t)" for r c by (auto simp: set_grid_list)
  have cov: "covers t R C \<longleftrightarrow> (nat (R - t_row t), nat (C - t_column t)) \<in> set ?ps \<and> covers t R C" for R C
    by (auto simp: ps covers_def)
  have cell: "covers t (t_row t + int r) (t_column t + int c)" if "(r, c) \<in> set ?ps" for r c
    using that fits by (auto simp: ps covers_def tile_fits_def)
  have bwd: "\<exists>r c. (r, c) \<in> set ?ps \<and> R = t_row t + int r \<and> C = t_column t + int c" if "covers t R C" for R C
    using that by (intro exI [of _ "nat (R - t_row t)"] exI [of _ "nat (C - t_column t)"]) (auto simp: ps covers_def)
  have eq: "place_tile rows columns vals (out, t) = foldM (place_cell columns t (o_words out)) vals ?ps"
    using fits by (simp add: place_tile_def tile_fits_def)
  have spec: "case foldM (place_cell columns t (o_words out)) vals ?ps of
      Inl e \<Rightarrow> \<exists>r c. (r, c) \<in> set ?ps \<and> f (t_row t + int r) (t_column t + int c) \<noteq> None
    | Inr vals' \<Rightarrow> (\<forall>r c. (r, c) \<in> set ?ps \<longrightarrow> f (t_row t + int r) (t_column t + int c) = None) \<and>
        shows_grid rows columns vals' (\<lambda>R C. if covers t R C then Some (tile_word t (o_words out) R C) else f R C)"
  proof -
    have fn: "(\<lambda>R C. if (nat (R - t_row t), nat (C - t_column t)) \<in> set ?ps \<and> covers t R C
          then Some (tile_word t (o_words out) R C) else f R C)
       = (\<lambda>R C. if covers t R C then Some (tile_word t (o_words out) R C) else f R C)"
      unfolding cov [symmetric] ..
    have "\<forall>r c. (r, c) \<in> set ?ps \<longrightarrow> r < nat (t_rows t) \<and> c < nat (t_columns t)" using ps by blast
    from place_cells [OF fits this distinct_pairs g] show ?thesis unfolding fn .
  qed
  show ?thesis
  proof (cases "foldM (place_cell columns t (o_words out)) vals ?ps")
    case (Inl e)
    show ?thesis using spec cell unfolding eq Inl sum.case by blast
  next
    case (Inr vals')
    have "f R C = None" if "covers t R C" for R C using bwd [OF that] spec Inr by auto
    then show ?thesis using spec unfolding eq Inr sum.case by blast
  qed
qed

lemma place_tile_fits: "place_tile rows columns vals (out, t) = Inr vals' \<Longrightarrow> tile_fits rows columns (out, t)"
  by (auto simp: place_tile_def tile_fits_def split: if_splits)

section \<open>All tiles\<close>

text \<open>The word the first covering tile of a list gives to a cell.\<close>

fun cover_word :: "(tile_output \<times> tile) list \<Rightarrow> int \<Rightarrow> int \<Rightarrow> int option" where
  "cover_word [] R C = None"
| "cover_word ((out, t) # ps) R C = (if covers t R C then Some (tile_word t (o_words out) R C) else cover_word ps R C)"

definition apart :: "(tile_output \<times> tile) list \<Rightarrow> bool" where
  "apart ps \<longleftrightarrow> (\<forall>i j R C. i < j \<longrightarrow> j < length ps \<longrightarrow> covers (snd (ps ! i)) R C \<longrightarrow> \<not> covers (snd (ps ! j)) R C)"

lemma apart_Cons:
  "apart (p # ps) \<longleftrightarrow> apart ps \<and> (\<forall>q \<in> set ps. \<forall>R C. covers (snd p) R C \<longrightarrow> \<not> covers (snd q) R C)"
proof
  assume a: "apart (p # ps)"
  have "\<not> covers (snd (ps ! j)) R C" if "i < j" "j < length ps" "covers (snd (ps ! i)) R C" for i j R C
    using a [unfolded apart_def, rule_format, of "Suc i" "Suc j" R C] that by simp
  moreover have "\<not> covers (snd q) R C" if "q \<in> set ps" "covers (snd p) R C" for q R C
  proof -
    obtain j where "j < length ps" "q = ps ! j" using \<open>q \<in> set ps\<close> by (auto simp: in_set_conv_nth)
    with a [unfolded apart_def, rule_format, of 0 "Suc j" R C] that(2) show ?thesis by simp
  qed
  ultimately show "apart ps \<and> (\<forall>q \<in> set ps. \<forall>R C. covers (snd p) R C \<longrightarrow> \<not> covers (snd q) R C)"
    unfolding apart_def by blast
next
  assume a: "apart ps \<and> (\<forall>q \<in> set ps. \<forall>R C. covers (snd p) R C \<longrightarrow> \<not> covers (snd q) R C)"
  show "apart (p # ps)"
    unfolding apart_def
  proof (intro allI impI)
    fix i j R C
    assume *: "i < j" "j < length (p # ps)" "covers (snd ((p # ps) ! i)) R C"
    then obtain j' where j: "j = Suc j'" "j' < length ps" by (cases j) auto
    show "\<not> covers (snd ((p # ps) ! j)) R C"
      using a * j by (cases i) (auto simp: apart_def)
  qed
qed

lemma place_tiles:
  assumes "\<forall>p \<in> set ps. tile_fits rows columns p" "shows_grid rows columns vals f"
  shows "case foldM (place_tile rows columns) vals ps of
      Inl e \<Rightarrow> \<not> (apart ps \<and> (\<forall>R C. f R C \<noteq> None \<longrightarrow> cover_word ps R C = None))
    | Inr vals' \<Rightarrow> apart ps \<and> (\<forall>R C. f R C \<noteq> None \<longrightarrow> cover_word ps R C = None) \<and>
        shows_grid rows columns vals' (\<lambda>R C. case cover_word ps R C of None \<Rightarrow> f R C | Some w \<Rightarrow> Some w)"
  using assms
proof (induction ps arbitrary: vals f)
  case Nil
  then show ?case by (simp add: apart_def)
next
  case (Cons p ps)
  obtain out t where p: "p = (out, t)" by (cases p)
  have none: "cover_word qs R C = None \<longleftrightarrow> (\<forall>q \<in> set qs. \<not> covers (snd q) R C)" for qs R C
    by (induction qs) (auto split: if_splits)
  have fits: "tile_fits rows columns (out, t)" using Cons.prems(1) p by simp
  note step = place_tile_spec [OF fits Cons.prems(2)]
  show ?case
  proof (cases "place_tile rows columns vals (out, t)")
    case (Inl e)
    then obtain R C where "covers t R C" "f R C \<noteq> None" using step by auto
    then show ?thesis using Inl by (auto simp: p)
  next
    case (Inr vals1)
    define f1 where "f1 = (\<lambda>R C. if covers t R C then Some (tile_word t (o_words out) R C) else f R C)"
    have fresh: "\<And>R C. covers t R C \<Longrightarrow> f R C = None" and g1: "shows_grid rows columns vals1 f1"
      using step Inr by (auto simp: f1_def)
    have cond: "apart ps \<and> (\<forall>R C. f1 R C \<noteq> None \<longrightarrow> cover_word ps R C = None) \<longleftrightarrow>
        apart (p # ps) \<and> (\<forall>R C. f R C \<noteq> None \<longrightarrow> cover_word (p # ps) R C = None)"
    proof -
      have f1: "f1 R C \<noteq> None \<longleftrightarrow> covers t R C \<or> f R C \<noteq> None" for R C by (auto simp: f1_def)
      have "f R C \<noteq> None \<Longrightarrow> \<not> covers t R C" for R C using fresh by auto
      then show ?thesis unfolding apart_Cons none p f1 by (simp only: list.set ball_simps snd_conv) blast
    qed
    have fn: "(\<lambda>R C. case cover_word ps R C of None \<Rightarrow> f1 R C | Some w \<Rightarrow> Some w)
        = (\<lambda>R C. case cover_word (p # ps) R C of None \<Rightarrow> f R C | Some w \<Rightarrow> Some w)"
      if "\<forall>R C. f1 R C \<noteq> None \<longrightarrow> cover_word ps R C = None"
      using that by (intro ext) (auto simp: f1_def p split: option.splits)
    have IH: "case foldM (place_tile rows columns) vals1 ps of
      Inl e \<Rightarrow> \<not> (apart ps \<and> (\<forall>R C. f1 R C \<noteq> None \<longrightarrow> cover_word ps R C = None))
    | Inr vals' \<Rightarrow> apart ps \<and> (\<forall>R C. f1 R C \<noteq> None \<longrightarrow> cover_word ps R C = None) \<and>
        shows_grid rows columns vals' (\<lambda>R C. case cover_word ps R C of None \<Rightarrow> f1 R C | Some w \<Rightarrow> Some w)"
      using Cons.IH [OF _ g1] Cons.prems(1) by simp
    have eq: "foldM (place_tile rows columns) vals (p # ps) = foldM (place_tile rows columns) vals1 ps"
      using Inr by (simp add: p)
    show ?thesis
    proof (cases "foldM (place_tile rows columns) vals1 ps")
      case (Inl e)
      show ?thesis using IH unfolding eq Inl sum.case cond .
    next
      case (Inr vals')
      from IH have a: "apart ps \<and> (\<forall>R C. f1 R C \<noteq> None \<longrightarrow> cover_word ps R C = None)"
        and b: "shows_grid rows columns vals' (\<lambda>R C. case cover_word ps R C of None \<Rightarrow> f1 R C | Some w \<Rightarrow> Some w)"
        unfolding Inr sum.case by blast+
      have "shows_grid rows columns vals' (\<lambda>R C. case cover_word (p # ps) R C of None \<Rightarrow> f R C | Some w \<Rightarrow> Some w)"
        using b unfolding fn [OF conjunct2 [OF a]] .
      with a show ?thesis unfolding eq Inr sum.case cond by blast
    qed
  qed
qed

lemma shows_grid_empty: "shows_grid rows columns (replicate (nat (rows * columns)) None) (\<lambda>_ _. None)"
proof -
  have "nat (R * columns + C) < nat (rows * columns)" if "0 \<le> R" "R < rows" "0 \<le> C" "C < columns" for R C
    using grid_index_bounds [OF that] by simp
  then show ?thesis by (simp add: shows_grid_def)
qed

lemma cover_word_Some:
  "cover_word ps R C = Some w \<Longrightarrow> \<exists>i < length ps. covers (snd (ps ! i)) R C \<and> w = tile_word (snd (ps ! i)) (o_words (fst (ps ! i))) R C"
proof (induction ps)
  case (Cons p ps)
  then show ?case
    by (cases p; cases "covers (snd p) R C") (auto intro: exI [of _ 0])
qed simp

lemma cover_word_apart:
  assumes "apart ps" "i < length ps" "covers (snd (ps ! i)) R C"
  shows "cover_word ps R C = Some (tile_word (snd (ps ! i)) (o_words (fst (ps ! i))) R C)"
  using assms
proof (induction ps arbitrary: i)
  case (Cons p ps)
  then show ?case
  proof (cases i)
    case 0
    then show ?thesis using Cons.prems by (cases p) simp
  next
    case (Suc j)
    then have "\<not> covers (snd p) R C" using Cons.prems by (auto simp: apart_Cons)
    then show ?thesis using Suc Cons by (cases p) (auto simp: apart_Cons)
  qed
qed simp

lemma assemble_eq:
  assumes fits: "\<forall>p \<in> set (zip outputs tiles). tile_fits rows columns p" and len: "length outputs = length tiles"
    and dims: "1 \<le> rows" "rows \<le> 64" "1 \<le> columns" "columns \<le> 64"
    and apart: "apart (zip outputs tiles)"
    and cover: "\<And>R C. 0 \<le> R \<Longrightarrow> R < rows \<Longrightarrow> 0 \<le> C \<Longrightarrow> C < columns \<Longrightarrow> cover_word (zip outputs tiles) R C = Some (F R C)"
  shows "assemble outputs tiles rows columns = Inr (grid_list (nat rows) (nat columns) (\<lambda>r c. F (int r) (int c)))"
proof -
  obtain vals where vals: "foldM (place_tile rows columns) (replicate (nat (rows * columns)) None) (zip outputs tiles) = Inr vals"
    "shows_grid rows columns vals (\<lambda>R C. case cover_word (zip outputs tiles) R C of None \<Rightarrow> None | Some w \<Rightarrow> Some w)"
    using place_tiles [OF fits shows_grid_empty] apart
    by (cases "foldM (place_tile rows columns) (replicate (nat (rows * columns)) None) (zip outputs tiles)") auto
  have at: "vals ! nat (R * columns + C) = Some (F R C)" if "0 \<le> R" "R < rows" "0 \<le> C" "C < columns" for R C
    using vals(2) cover [OF that] that by (simp add: shows_grid_def)
  have lens: "length vals = nat rows * nat columns" using vals(2) dims by (simp add: shows_grid_def nat_mult_distrib)
  have "vals = map Some (grid_list (nat rows) (nat columns) (\<lambda>r c. F (int r) (int c)))"
  proof (rule nth_equalityI)
    show "length vals = length (map Some (grid_list (nat rows) (nat columns) (\<lambda>r c. F (int r) (int c))))" by (simp add: lens)
    fix i assume i: "i < length vals"
    define r c where "r = i div nat columns" and "c = i mod nat columns"
    have rc: "i = r * nat columns + c" "c < nat columns" "r < nat rows"
      using i dims by (auto simp: r_def c_def lens less_mult_imp_div_less)
    have "int r * columns + int c = int i" using rc(1) dims by simp
    then have "vals ! i = Some (F (int r) (int c))" using at [of "int r" "int c"] rc(2,3) by (metis nat_int of_nat_0_le_iff zless_nat_eq_int_zless)
    then show "vals ! i = map Some (grid_list (nat rows) (nat columns) (\<lambda>r c. F (int r) (int c))) ! i"
      using i rc by (simp add: lens nth_grid_list)
  qed
  then have v: "map the vals = grid_list (nat rows) (nat columns) (\<lambda>r c. F (int r) (int c))" "None \<notin> set vals"
    by (simp_all add: comp_def)
  show ?thesis using vals(1) v dims len by (simp add: assemble_def)
qed

text \<open>
  C23. Assembly succeeds only on a partition: if \<open>assemble\<close> returns words, there is one per cell,
  every cell is covered by exactly one tile, and its word is the one the covering tile holds
  at the cell's local position.
\<close>

theorem assemble_partition:
  assumes "assemble outputs tiles rows columns = Inr ws"
  shows "length ws = nat (rows * columns) \<and> length outputs = length tiles \<and>
    (\<forall>R C. 0 \<le> R \<and> R < rows \<and> 0 \<le> C \<and> C < columns \<longrightarrow>
      (\<exists>!i. i < length tiles \<and> covers (tiles ! i) R C) \<and>
      (\<forall>i < length tiles. covers (tiles ! i) R C \<longrightarrow>
        ws ! nat (R * columns + C) = tile_word (tiles ! i) (o_words (outputs ! i)) R C))"
proof -
  obtain vals where len: "length outputs = length tiles"
    and vals: "foldM (place_tile rows columns) (replicate (nat (rows * columns)) None) (zip outputs tiles) = Inr vals"
    and full: "None \<notin> set vals" and ws: "ws = map the vals"
    using assms by (auto simp: assemble_def res_simps split: if_splits)
  let ?ps = "zip outputs tiles"
  have fits: "\<forall>p \<in> set ps. tile_fits rows columns p" if "foldM (place_tile rows columns) v ps = Inr v'" for v v' ps
    using that
  proof (induction ps arbitrary: v)
    case (Cons p ps)
    then obtain v1 where "place_tile rows columns v p = Inr v1" "foldM (place_tile rows columns) v1 ps = Inr v'"
      by (auto elim: rbind_InrE)
    then show ?case using Cons.IH place_tile_fits by (cases p) auto
  qed simp
  have inv: "apart ?ps" "shows_grid rows columns vals (\<lambda>R C. case cover_word ?ps R C of None \<Rightarrow> None | Some w \<Rightarrow> Some w)"
    using place_tiles [OF fits [OF vals] shows_grid_empty] vals by auto
  have cell: "(\<exists>!i. i < length tiles \<and> covers (tiles ! i) R C) \<and>
      (\<forall>i < length tiles. covers (tiles ! i) R C \<longrightarrow> ws ! nat (R * columns + C) = tile_word (tiles ! i) (o_words (outputs ! i)) R C)"
    if RC: "0 \<le> R" "R < rows" "0 \<le> C" "C < columns" for R C
  proof -
    have idx: "nat (R * columns + C) < length vals" using inv(2) grid_index_bounds [OF RC] by (simp add: shows_grid_def)
    have v: "vals ! nat (R * columns + C) = cover_word ?ps R C" using inv(2) RC by (auto simp: shows_grid_def split: option.splits)
    obtain w where w: "vals ! nat (R * columns + C) = Some w" using full idx by (metis nth_mem option.exhaust)
    then obtain i where i: "i < length tiles" "covers (tiles ! i) R C"
      using cover_word_Some [of ?ps R C w] v len by auto
    have uniq: "j = i" if "j < length tiles" "covers (tiles ! j) R C" for j
      using inv(1) i that len unfolding apart_def by (metis linorder_neqE_nat length_zip min.idem nth_zip snd_conv)
    have "ws ! nat (R * columns + C) = tile_word (tiles ! j) (o_words (outputs ! j)) R C"
      if "j < length tiles" "covers (tiles ! j) R C" for j
      using cover_word_apart [OF inv(1), of j R C] that len v idx by (simp add: ws)
    with i uniq show ?thesis by blast
  qed
  have "length ws = nat (rows * columns)" using inv(2) by (simp add: ws shows_grid_def)
  with len cell show ?thesis by blast
qed

theorem assemble_partition_witness:
  "\<exists>ws. assemble
      [\<lparr>o_name = ''a'', o_shape = [1, 2], o_words = [10, 11]\<rparr>, \<lparr>o_name = ''b'', o_shape = [1, 2], o_words = [12, 13]\<rparr>]
      [\<lparr>t_name = ''a'', t_row = 0, t_column = 0, t_rows = 1, t_columns = 2\<rparr>,
       \<lparr>t_name = ''b'', t_row = 1, t_column = 0, t_rows = 1, t_columns = 2\<rparr>] 2 2 = Inr ws \<and> length ws = 4"
proof -
  have a: "assemble
      [\<lparr>o_name = ''a'', o_shape = [1, 2], o_words = [10, 11]\<rparr>, \<lparr>o_name = ''b'', o_shape = [1, 2], o_words = [12, 13]\<rparr>]
      [\<lparr>t_name = ''a'', t_row = 0, t_column = 0, t_rows = 1, t_columns = 2\<rparr>,
       \<lparr>t_name = ''b'', t_row = 1, t_column = 0, t_rows = 1, t_columns = 2\<rparr>] 2 2 = Inr [10, 11, 12, 13]"
    by code_simp
  from assemble_partition [OF a] a show ?thesis by simp
qed

end
