(* ===== verification/Fold_Dag.thy ===== *)
theory Fold_Dag
  imports Region_Correct
begin

text \<open>
  \<open>raveil/fold_dag.py\<close>: admission of a DAG of region jobs (links to earlier results, ranges,
  allocation of eight 128-word object slots by last use) and the host's model \<open>State\<close> of the
  guest's objects and versions. A job index is a natural number; a source is \<open>None\<close> where the
  code has the sentinel \<open>0xffffffff\<close> of a literal operand.
\<close>

section \<open>Names\<close>

text \<open>\<open>project.name\<close>: one alphanumeric character, then up to 79 of those or \<open>_\<close>, \<open>-\<close>.\<close>

definition alnum :: "char \<Rightarrow> bool" where
  "alnum c \<longleftrightarrow> (CHR ''a'' \<le> c \<and> c \<le> CHR ''z'') \<or> (CHR ''A'' \<le> c \<and> c \<le> CHR ''Z'') \<or> (CHR ''0'' \<le> c \<and> c \<le> CHR ''9'')"

definition name_match :: "string \<Rightarrow> bool" where
  "name_match s = (case s of [] \<Rightarrow> False
     | c # cs \<Rightarrow> alnum c \<and> length cs \<le> 79 \<and> list_all (\<lambda>d. alnum d \<or> d = CHR ''_'' \<or> d = CHR ''-'') cs)"

definition project_name :: "json option \<Rightarrow> string res" where
  "project_name j =
     rbind (want_str j ''name must contain only letters, digits, - or _ (1..80 characters)'') (\<lambda>s.
     rbind (reject (\<not> name_match s) (ValueError ''name must contain only letters, digits, - or _ (1..80 characters)'')) (\<lambda>_.
     Inr s))"

section \<open>Admission\<close>

record dag_job =
  dj_name :: string
  dj_region :: json
  dj_inputs :: "json list"

record planner =
  pl_names :: "(string \<times> nat) list"
  pl_jobs :: "dag_job list"
  pl_sources :: "nat option list list"
  pl_offsets :: "nat list list"
  pl_lengths :: "nat list list"
  pl_counts :: "nat list"
  pl_chunks :: "nat list"
  pl_last :: "nat list"

text \<open>\<open>operand.get(key, default)\<close>\<close>

definition get_default :: "(string \<times> json) list \<Rightarrow> string \<Rightarrow> json \<Rightarrow> json" where
  "get_default d k x = (case map_of d k of None \<Rightarrow> x | Some y \<Rightarrow> y)"

definition want_int :: "json \<Rightarrow> string \<Rightarrow> int res" where
  "want_int j msg = (case j of JInt n \<Rightarrow> Inr n | _ \<Rightarrow> Inl (ValueError msg))"

text \<open>One operand: its source, start, literal stand-in and the updated \<open>last\<close>.\<close>

definition plan_operand :: "bool \<Rightarrow> planner \<Rightarrow> nat \<Rightarrow> json \<times> nat \<Rightarrow> (nat option \<times> nat \<times> json) res" where
  "plan_operand ranged st index p = (case p of
     (JDict kv, len) \<Rightarrow>
       (let bad_link = ''link must name an earlier producer with a valid range'';
            bad_range = ''linked range must fit producer and equal consumer extent''
        in rbind (reject (\<not> (keys kv = {''from''} \<or> keys kv = {''from'', ''offset'', ''length''}) \<or>
                          (\<not> ranged \<and> keys kv \<noteq> {''from''})) (ValueError bad_link)) (\<lambda>_.
           rbind (want_str (map_of kv ''from'') bad_link) (\<lambda>producer.
           rbind (want (map_of (pl_names st) producer) bad_link) (\<lambda>source.
           rbind (want_int (get_default kv ''offset'' (JInt 0)) bad_range) (\<lambda>start.
           rbind (want_int (get_default kv ''length'' (JInt (int (pl_counts st ! source)))) bad_range) (\<lambda>extent.
           rbind (reject (start < 0 \<or> extent < 1 \<or> start > int (pl_counts st ! source) \<or>
                          extent > int (pl_counts st ! source) - start \<or> int len \<noteq> extent) (ValueError bad_range)) (\<lambda>_.
           Inr (Some source, nat start, JList (replicate len (JInt 0))))))))))
   | (operand, len) \<Rightarrow> Inr (None, 0, operand))"

text \<open>\<open>last[source] = index\<close> for every linked operand.\<close>

definition touch_last :: "nat \<Rightarrow> nat list \<Rightarrow> nat option \<Rightarrow> nat list" where
  "touch_last index lasts source = (case source of None \<Rightarrow> lasts | Some s \<Rightarrow> lasts[s := index])"

definition plan_job :: "bool \<Rightarrow> planner \<Rightarrow> json \<Rightarrow> planner res" where
  "plan_job ranged st j =
     (let index = length (pl_jobs st)
      in rbind (want_dict (Some j) ''invalid DAG job'') (\<lambda>kv.
         rbind (reject (keys kv \<noteq> {''name'', ''region'', ''inputs''}) (ValueError ''invalid DAG job'')) (\<lambda>_.
         rbind (project_name (map_of kv ''name'')) (\<lambda>name.
         rbind (reject (map_of (pl_names st) name \<noteq> None) (ValueError ''duplicate name'')) (\<lambda>_.
         rbind (compile_region (the (map_of kv ''region''))) (\<lambda>config.
         rbind (want_list (map_of kv ''inputs'') ''two inputs required'') (\<lambda>inputs.
         rbind (reject (length inputs \<noteq> 2) (ValueError ''two inputs required'')) (\<lambda>_.
         rbind (mapM (plan_operand ranged st index) (zip inputs [nat (config ! 5), nat (config ! 6)])) (\<lambda>ops.
         rbind (reference (the (map_of kv ''region'')) (JList (map (\<lambda>(_, _, l). l) ops))) (\<lambda>_.
         (let count = nat (config ! 1 * config ! 2); sources = map fst ops
          in Inr \<lparr>pl_names = pl_names st @ [(name, index)],
                  pl_jobs = pl_jobs st @ [\<lparr>dj_name = name, dj_region = the (map_of kv ''region''), dj_inputs = inputs\<rparr>],
                  pl_sources = pl_sources st @ [sources],
                  pl_offsets = pl_offsets st @ [map (\<lambda>(_, s, _). s) ops],
                  pl_lengths = pl_lengths st @ [[nat (config ! 5), nat (config ! 6)]],
                  pl_counts = pl_counts st @ [count],
                  pl_chunks = pl_chunks st @ [(count + 127) div 128],
                  pl_last = foldl (touch_last index) (pl_last st) sources @ [index]\<rparr>)))))))))))"

definition empty_planner :: planner where
  "empty_planner = \<lparr>pl_names = [], pl_jobs = [], pl_sources = [], pl_offsets = [], pl_lengths = [],
     pl_counts = [], pl_chunks = [], pl_last = []\<rparr>"

text \<open>The chunks of its source an operand reads.\<close>

definition chunk_range :: "nat \<Rightarrow> nat \<Rightarrow> nat list" where
  "chunk_range offset len = [offset div 128..<(offset + len - 1) div 128 + 1]"

definition read_chunks :: "nat option list \<Rightarrow> nat list \<Rightarrow> nat list \<Rightarrow> (nat \<times> nat) list" where
  "read_chunks sources offsets lengths =
     concat (map (\<lambda>(source, offset, len). case source of None \<Rightarrow> [] | Some s \<Rightarrow> map (Pair s) (chunk_range offset len))
       (zip sources (zip offsets lengths)))"

definition free_slots :: "nat list \<Rightarrow> nat option list \<Rightarrow> nat \<Rightarrow> nat list" where
  "free_slots lasts owners i =
     filter (\<lambda>s. case owners ! s of None \<Rightarrow> True | Some owner \<Rightarrow> lasts ! owner < i) [0..<8]"

text \<open>State of the allocation loop: the owners of the eight slots and the slots given so far.\<close>

definition plan_slots :: "planner \<Rightarrow> nat list \<Rightarrow> nat option list \<times> nat list list \<Rightarrow> nat \<Rightarrow> (nat option list \<times> nat list list) res" where
  "plan_slots st lasts s i =
     (let reads = length (remdups (read_chunks (pl_sources st ! i) (pl_offsets st ! i) (pl_lengths st ! i)));
          need = pl_chunks st ! i; free = free_slots lasts (fst s) i; selected = take need free
      in rbind (reject (reads + need > 4) (ValueError ''job exceeds four object references'')) (\<lambda>_.
         rbind (reject (length free < need) (ValueError ''live results exhaust eight object slots'')) (\<lambda>_.
         Inr (foldl (\<lambda>owners slot. owners[slot := Some i]) (fst s) selected, snd s @ [selected]))))"

record dag_plan =
  dp_jobs :: "dag_job list"
  dp_sources :: "nat option list list"
  dp_offsets :: "nat list list"
  dp_lengths :: "nat list list"
  dp_chunks :: "nat list"
  dp_last :: "nat list"
  dp_slots :: "nat list list"
  dp_output :: nat
  dp_output_name :: string

definition compile_plan :: "json \<Rightarrow> dag_plan res" where
  "compile_plan session =
     rbind (want_dict (Some session) ''invalid DAG schema'') (\<lambda>d.
     rbind (reject (keys d \<noteq> {''schema'', ''jobs'', ''output''}) (ValueError ''invalid DAG schema'')) (\<lambda>_.
     rbind (reject (map_of d ''schema'' \<noteq> Some (JStr ''raveil.fold-dag.v1'') \<and>
                    map_of d ''schema'' \<noteq> Some (JStr ''raveil.fold-dag.v2'')) (ValueError ''invalid DAG schema'')) (\<lambda>_.
     rbind (want_list (map_of d ''jobs'') ''DAG requires1..8 jobs'') (\<lambda>jobs.
     rbind (reject (length jobs < 1 \<or> 8 < length jobs) (ValueError ''DAG requires1..8 jobs'')) (\<lambda>_.
     rbind (foldM (plan_job (map_of d ''schema'' = Some (JStr ''raveil.fold-dag.v2''))) empty_planner jobs) (\<lambda>st.
     rbind (want_str (map_of d ''output'') ''named output required'') (\<lambda>out.
     rbind (want (map_of (pl_names st) out) ''named output required'') (\<lambda>output.
     (let lasts = (pl_last st)[output := length (pl_chunks st)]
      in rbind (foldM (plan_slots st lasts) (replicate 8 None, []) [0..<length (pl_jobs st)]) (\<lambda>s.
         Inr \<lparr>dp_jobs = pl_jobs st, dp_sources = pl_sources st, dp_offsets = pl_offsets st, dp_lengths = pl_lengths st,
              dp_chunks = pl_chunks st, dp_last = lasts, dp_slots = snd s, dp_output = output, dp_output_name = out\<rparr>))))))))))"

section \<open>The host model of the guest objects\<close>

definition read_slots :: "dag_plan \<Rightarrow> nat \<Rightarrow> nat set" where
  "read_slots plan index =
     set (map (\<lambda>(source, chunk). dp_slots plan ! source ! chunk)
       (read_chunks (dp_sources plan ! index) (dp_offsets plan ! index) (dp_lengths plan ! index)))"

record dag_state =
  ds_versions :: "nat list"
  ds_banks :: "int list list"
  ds_producers :: "nat \<rightharpoonup> nat list \<times> int list"

definition initial_state :: dag_state where
  "initial_state = \<lparr>ds_versions = replicate 8 1, ds_banks = replicate 8 (replicate 128 0), ds_producers = Map.empty\<rparr>"

definition available :: "dag_plan \<Rightarrow> dag_state \<Rightarrow> nat \<Rightarrow> bool" where
  "available plan st index = (case ds_producers st index of
     None \<Rightarrow> False
   | Some (saved, _) \<Rightarrow> saved = map (\<lambda>s. ds_versions st ! s) (dp_slots plan ! index))"

definition bad_source :: "dag_plan \<Rightarrow> dag_state \<Rightarrow> nat \<Rightarrow> nat option" where
  "bad_source plan st index =
     find (\<lambda>p. \<not> available plan st p) (List.map_filter id (dp_sources plan ! index))"

definition slot_mask :: "nat set \<Rightarrow> nat" where
  "slot_mask S = (\<Sum>s \<in> S. 2 ^ s)"

text \<open>The inputs a job runs on: a slice of the producer's words or the literal operand.\<close>

definition operand_input :: "(nat \<Rightarrow> int list) \<Rightarrow> nat option \<times> nat \<times> nat \<times> json \<Rightarrow> json" where
  "operand_input words p = (case p of
     (Some source, start, len, operand) \<Rightarrow> JList (map JInt (take len (drop start (words source))))
   | (None, start, len, operand) \<Rightarrow> operand)"

definition job_operands :: "dag_plan \<Rightarrow> nat \<Rightarrow> (nat option \<times> nat \<times> nat \<times> json) list" where
  "job_operands plan index =
     zip (dp_sources plan ! index) (zip (dp_offsets plan ! index) (zip (dp_lengths plan ! index) (dj_inputs (dp_jobs plan ! index))))"

definition resolve :: "dag_plan \<Rightarrow> dag_state \<Rightarrow> nat \<Rightarrow> (json list \<times> nat \<times> nat) option" where
  "resolve plan st index =
     (if bad_source plan st index \<noteq> None then None
      else Some (map (operand_input (\<lambda>p. snd (the (ds_producers st p)))) (job_operands plan index),
                 slot_mask (read_slots plan index), slot_mask (set (dp_slots plan ! index))))"

definition commit_slot :: "int list \<Rightarrow> dag_state \<Rightarrow> nat \<times> nat \<Rightarrow> dag_state" where
  "commit_slot padded st p = (case p of (j, slot) \<Rightarrow>
     st\<lparr>ds_versions := (ds_versions st)[slot := ds_versions st ! slot + 1],
        ds_banks := (ds_banks st)[slot := take 128 (drop (128 * j) padded)]\<rparr>)"

definition dag_commit :: "dag_plan \<Rightarrow> dag_state \<Rightarrow> nat \<Rightarrow> nat \<Rightarrow> int list \<Rightarrow> bool \<Rightarrow> dag_state res" where
  "dag_commit plan st index destination expected success =
     (let slots = dp_slots plan ! index
      in rbind (reject (destination \<noteq> slot_mask (set slots)) (ValueError ''destination allocation mismatch'')) (\<lambda>_.
         if success then
           (let st' = foldl (commit_slot (expected @ replicate (128 * length slots - length expected) 0)) st
                        (zip [0..<length slots] slots)
            in Inr (st'\<lparr>ds_producers := (ds_producers st')(index \<mapsto> (map (\<lambda>s. ds_versions st' ! s) slots, expected))\<rparr>))
         else Inr st))"

text \<open>\<open>State.final\<close>: whether the designated output is available, and its words.\<close>

definition dag_final :: "dag_plan \<Rightarrow> dag_state \<Rightarrow> bool \<times> int list" where
  "dag_final plan st =
     (let ok = available plan st (dp_output plan)
      in (ok, if ok then snd (the (ds_producers st (dp_output plan))) else []))"

section \<open>The session loop\<close>

definition BROKEN_FRAME :: "string list" where
  "BROKEN_FRAME = [''invalid-char'', ''no-response'', ''truncated'']"

text \<open>
  The loop of \<open>run\<close> over the jobs and their injections, as far as the host model goes: the
  state, the number of processed jobs and the halt code (3: unavailable producer, 1: framing
  lost, 0: all jobs processed).
\<close>

fun dag_loop :: "dag_plan \<Rightarrow> dag_state \<Rightarrow> nat \<Rightarrow> string list \<Rightarrow> (dag_state \<times> nat \<times> nat) res" where
  "dag_loop plan st index [] = Inr (st, index, 0)"
| "dag_loop plan st index (injection # rest) =
     (case resolve plan st index of
        None \<Rightarrow> Inr (st, index, 3)
      | Some (inputs, source, destination) \<Rightarrow>
          rbind (reference (dj_region (dp_jobs plan ! index)) (JList inputs)) (\<lambda>expected.
          rbind (dag_commit plan st index destination expected (injection = ''none'')) (\<lambda>st'.
          if injection \<in> set BROKEN_FRAME then Inr (st', index + 1, 1)
          else dag_loop plan st' (index + 1) rest)))"

definition dag_run :: "json \<Rightarrow> string list \<Rightarrow> (dag_plan \<times> dag_state \<times> nat \<times> nat) res" where
  "dag_run session injections =
     rbind (compile_plan session) (\<lambda>plan.
     rbind (dag_loop plan initial_state 0 injections) (\<lambda>r. Inr (plan, r)))"

section \<open>The meaning of a DAG\<close>

text \<open>Every job in order, on the full results of the earlier ones; no slots, no versions.\<close>

definition dag_values :: "dag_plan \<Rightarrow> int list list res" where
  "dag_values plan =
     foldM (\<lambda>vals i. rbind (reference (dj_region (dp_jobs plan ! i))
                              (JList (map (operand_input (\<lambda>p. vals ! p)) (job_operands plan i))))
                       (\<lambda>v. Inr (vals @ [v])))
       [] [0..<length (dp_jobs plan)]"

end
