(* ===== verification/Mf01_Grid.thy ===== *)
theory Mf01_Grid
  imports Grid_Assembly Fold_Dag
begin

text \<open>
  \<open>raveil/mf01_grid.py\<close>: the grid source, its lowering into one independent DAG per tile and
  the untiled reference. The source dictionary is decoded by the checks of \<open>source\<close>; kernel
  nodes stay JSON, because different schema versions have them checked by \<open>lower\<close> or by
  \<open>compile_region\<close>.
\<close>

section \<open>The source\<close>

type_synonym coord = "int \<times> int"

record gview =
  gv_input :: nat
  gv_offset :: coord
  gv_step :: coord
  gv_row :: coord
  gv_column :: coord

record grid_source =
  gs_schema :: string
  gs_grids :: "grid list"
  gs_shape :: coord
  gs_tile :: coord
  gs_boundary :: boundary_mode
  gs_extent :: int
  gs_fold :: fold_op
  gs_views :: "(string \<times> gview) list"
  gs_nodes :: json
  gs_result :: json
  gs_post :: "(json \<times> json) option"

definition GRID_V1 :: string where "GRID_V1 = ''raveil.mf01-grid/v1''"
definition GRID_V2 :: string where "GRID_V2 = ''raveil.mf01-grid/v2''"
definition GRID_V3 :: string where "GRID_V3 = ''raveil.mf01-grid/v3''"
definition GRID_V4 :: string where "GRID_V4 = ''raveil.mf01-grid/v4''"
definition GRID_V5 :: string where "GRID_V5 = ''raveil.mf01-grid/v5''"

definition integer_in :: "json option \<Rightarrow> int \<Rightarrow> int \<Rightarrow> int res" where
  "integer_in j low high = (case j of
     Some (JInt n) \<Rightarrow> if low \<le> n \<and> n \<le> high then Inr n else Inl (ValueError ''expected integer'')
   | _ \<Rightarrow> Inl (ValueError ''expected integer''))"

text \<open>A list of exactly two integers in a range.\<close>

definition int_pair :: "json option \<Rightarrow> string \<Rightarrow> int \<Rightarrow> int \<Rightarrow> coord res" where
  "int_pair j msg low high =
     rbind (want_list j msg) (\<lambda>xs.
     rbind (reject (length xs \<noteq> 2) (ValueError msg)) (\<lambda>_.
     rbind (integer_in (Some (xs ! 0)) low high) (\<lambda>a.
     rbind (integer_in (Some (xs ! 1)) low high) (\<lambda>b. Inr (a, b)))))"

definition read_view :: "bool \<Rightarrow> nat \<Rightarrow> string \<times> json \<Rightarrow> (string \<times> gview) res" where
  "read_view v2 grids p = (case p of (name, j) \<Rightarrow>
     rbind (reject (name = []) (ValueError ''invalid grid view'')) (\<lambda>_.
     rbind (want_dict (Some j) ''invalid grid view'') (\<lambda>d.
     rbind (reject (keys d \<noteq> {''input'', ''offset'', ''step''} \<union> (if v2 then {''row'', ''column''} else {}))
              (ValueError ''invalid grid view'')) (\<lambda>_.
     rbind (integer_in (map_of d ''input'') 0 (int grids - 1)) (\<lambda>input.
     rbind (int_pair (map_of d ''offset'') ''view needs two coordinates'' (-63) 63) (\<lambda>offset.
     rbind (int_pair (map_of d ''step'') ''view needs two coordinates'' 0 63) (\<lambda>step.
     rbind (if v2 then int_pair (map_of d ''row'') ''view needs two coordinates'' 0 63 else Inr (1, 0)) (\<lambda>row.
     rbind (if v2 then int_pair (map_of d ''column'') ''view needs two coordinates'' 0 63 else Inr (0, 1)) (\<lambda>column.
     Inr (name, \<lparr>gv_input = nat input, gv_offset = offset, gv_step = step, gv_row = row, gv_column = column\<rparr>))))))))))"

definition read_post :: "bool \<Rightarrow> json option \<Rightarrow> (json \<times> json) option res" where
  "read_post v3 j =
     (if v3 then rbind (want_dict j ''invalid post map'') (\<lambda>d.
        rbind (reject (keys d \<noteq> {''nodes'', ''result''}) (ValueError ''invalid post map'')) (\<lambda>_.
        Inr (Some (the (map_of d ''nodes''), the (map_of d ''result'')))))
      else Inr None)"

definition source_fields :: "bool \<Rightarrow> bool \<Rightarrow> string set" where
  "source_fields v2 v3 = {''schema'', ''inputs'', ''tile'', ''boundary'', ''kernel''} \<union>
     (if v2 then {''shape''} else {}) \<union> (if v3 then {''post''} else {})"

text \<open>The kernel dictionary, after the outer fields have been read.\<close>

definition read_kernel :: "bool \<Rightarrow> nat \<Rightarrow> json option \<Rightarrow> (int \<times> fold_op \<times> (string \<times> gview) list \<times> json \<times> json) res" where
  "read_kernel v2 grids j =
     rbind (want_dict j ''invalid grid kernel'') (\<lambda>k.
     rbind (reject (keys k \<noteq> {''extent'', ''fold'', ''views'', ''nodes'', ''result''}) (ValueError ''invalid grid kernel'')) (\<lambda>_.
     rbind (integer_in (map_of k ''extent'') 1 64) (\<lambda>extent.
     rbind (want (read_fold (map_of k ''fold'')) ''invalid fold'') (\<lambda>fo.
     rbind (want_dict (map_of k ''views'') ''one to eight named views required'') (\<lambda>views.
     rbind (reject (length views < 1 \<or> 8 < length views) (ValueError ''one to eight named views required'')) (\<lambda>_.
     rbind (mapM (read_view v2 grids) views) (\<lambda>vs.
     Inr (extent, fo, vs, the (map_of k ''nodes''), the (map_of k ''result'')))))))))"

definition grid_dims :: "grid \<Rightarrow> coord" where
  "grid_dims g = (g_rows g, g_columns g)"

definition tiles_needed :: "coord \<Rightarrow> coord \<Rightarrow> int" where
  "tiles_needed shape tile =
     ((fst shape + fst tile - 1) div fst tile) * ((snd shape + snd tile - 1) div snd tile)"

definition source :: "json \<Rightarrow> grid_source res" where
  "source j =
     rbind (want_dict (Some j) ''invalid MF01 grid source'') (\<lambda>d.
     rbind (want_str (map_of d ''schema'') ''invalid MF01 grid source'') (\<lambda>schema.
     rbind (reject (schema \<notin> {GRID_V1, GRID_V2, GRID_V3, GRID_V4, GRID_V5}) (ValueError ''invalid MF01 grid source'')) (\<lambda>_.
     (let v2 = schema \<noteq> GRID_V1;
          v3 = schema = GRID_V3 \<or> (schema \<in> {GRID_V4, GRID_V5} \<and> ''post'' \<in> keys d)
      in rbind (reject (keys d \<noteq> source_fields v2 v3) (ValueError ''invalid MF01 grid source fields'')) (\<lambda>_.
         rbind (read_post v3 (map_of d ''post'')) (\<lambda>post.
         rbind (want_list (map_of d ''inputs'') ''one or two grids required'') (\<lambda>inputs.
         rbind (reject (length inputs < 1 \<or> 2 < length inputs) (ValueError ''one or two grids required'')) (\<lambda>_.
         rbind (mapM read_input inputs) (\<lambda>grids.
         rbind (reject (\<not> v2 \<and> \<not> list_all (\<lambda>g. grid_dims g = grid_dims (grids ! 0)) grids)
                  (ValueError ''grid dimensions must agree'')) (\<lambda>_.
         rbind (int_pair (if v2 then map_of d ''shape'' else Some (JList [JInt (g_rows (grids ! 0)), JInt (g_columns (grids ! 0))]))
                  ''two output dimensions required'' 1 64) (\<lambda>shape.
         rbind (int_pair (map_of d ''tile'') ''two tile dimensions required'' 1 16) (\<lambda>tile.
         rbind (reject (tiles_needed shape tile > 16) (ValueError ''grid needs more than sixteen independent tiles'')) (\<lambda>_.
         rbind (boundary (map_of d ''boundary'')) (\<lambda>mode.
         rbind (read_kernel v2 (length grids) (map_of d ''kernel'')) (\<lambda>(extent, fo, views, nodes, result).
         Inr \<lparr>gs_schema = schema, gs_grids = grids, gs_shape = shape, gs_tile = tile, gs_boundary = mode,
              gs_extent = extent, gs_fold = fo, gs_views = views, gs_nodes = nodes, gs_result = result, gs_post = post\<rparr>)))))))))))))))"

section \<open>One tile\<close>

text \<open>\<open>except (TypeError, KeyError, IndexError, AttributeError): raise ValueError(msg)\<close>\<close>

definition recast :: "string \<Rightarrow> 'a res \<Rightarrow> 'a res" where
  "recast msg m = (case m of
     Inl e \<Rightarrow> Inl (if e \<in> {TypeError, KeyError, IndexError, AttributeError} then ValueError msg else e)
   | Inr x \<Rightarrow> Inr x)"

definition origin :: "int \<Rightarrow> int \<Rightarrow> gview \<Rightarrow> coord" where
  "origin row col v =
     (fst (gv_offset v) + row * fst (gv_row v) + col * fst (gv_column v),
      snd (gv_offset v) + row * snd (gv_row v) + col * snd (gv_column v))"

definition farthest :: "(coord \<Rightarrow> int) \<Rightarrow> int \<Rightarrow> int \<Rightarrow> int \<Rightarrow> int \<Rightarrow> int \<Rightarrow> gview \<Rightarrow> int" where
  "farthest axis row col height width extent v =
     axis (origin row col v) + (height - 1) * axis (gv_row v) + (width - 1) * axis (gv_column v) + (extent - 1) * axis (gv_step v)"

text \<open>The rectangle of one input that a tile reads: first row and column, height and width.\<close>

definition rectangle :: "(string \<times> gview) list \<Rightarrow> int \<Rightarrow> int \<Rightarrow> int \<Rightarrow> int \<Rightarrow> int \<Rightarrow> nat \<Rightarrow> (int \<times> int \<times> int \<times> int) option" where
  "rectangle views row col height width extent index =
     (case filter (\<lambda>v. gv_input v = index) (map snd views) of
        [] \<Rightarrow> None
      | v # vs \<Rightarrow>
          (let low = (\<lambda>axis. foldl min (axis (origin row col v)) (map (\<lambda>w. axis (origin row col w)) vs));
               high = (\<lambda>axis. foldl max (farthest axis row col height width extent v) (map (farthest axis row col height width extent) vs))
           in Some (low fst, low snd, high fst - low fst + 1, high snd - low snd + 1)))"

definition tile_buffer :: "grid_source \<Rightarrow> (int \<times> int \<times> int \<times> int) option \<Rightarrow> nat \<Rightarrow> int list res" where
  "tile_buffer gs rect index = (case rect of
     None \<Rightarrow> Inr []
   | Some (rmin, cmin, h, w) \<Rightarrow>
       rbind (reject (h * w > 324) (ValueError ''tile input rectangle exceeds324 words'')) (\<lambda>_.
       rbind (py_nth (gs_grids gs) (int index)) (\<lambda>g.
       mapM (\<lambda>(r, c). sample g (rmin + int r) (cmin + int c) (gs_boundary gs)) (grid_list (nat h) (nat w) Pair))))"

definition tile_view :: "(nat \<Rightarrow> (int \<times> int \<times> int \<times> int) option) \<Rightarrow> int \<Rightarrow> int \<Rightarrow> int \<Rightarrow> int \<Rightarrow> int \<Rightarrow> string \<times> gview \<Rightarrow> (string \<times> json) res" where
  "tile_view rect row col height width extent p = (case p of (name, v) \<Rightarrow>
     (case rect (gv_input v) of
        None \<Rightarrow> Inl TypeError
      | Some (rmin, cmin, h, w) \<Rightarrow>
          Inr (name, JList (map JInt
            [int (gv_input v),
             (fst (origin row col v) - rmin) * w + snd (origin row col v) - cmin,
             if height > 1 then fst (gv_row v) * w + snd (gv_row v) else 0,
             if width > 1 then fst (gv_column v) * w + snd (gv_column v) else 0,
             if extent > 1 then fst (gv_step v) * w + snd (gv_step v) else 0]))))"

definition fold_json :: "fold_op \<Rightarrow> json" where
  "fold_json f = JStr (case f of FoldSum \<Rightarrow> ''sum'' | FoldMax \<Rightarrow> ''max'')"

definition region_dict :: "int \<Rightarrow> int \<Rightarrow> int \<Rightarrow> json \<Rightarrow> int list \<Rightarrow> (string \<times> json) list \<Rightarrow> json \<Rightarrow> json \<Rightarrow> json" where
  "region_dict height width extent fo lengths views nodes result =
     JDict [(''schema'', JStr ''raveil.affine-fold.v1''), (''shape'', JList [JInt height, JInt width]), (''extent'', JInt extent),
       (''fold'', fo), (''lengths'', JList (map JInt lengths)), (''views'', JDict views), (''nodes'', nodes), (''result'', result)]"

definition words_json :: "int list \<Rightarrow> json" where
  "words_json ws = JList (map JInt ws)"

definition job_dict :: "string \<Rightarrow> json \<Rightarrow> json list \<Rightarrow> json" where
  "job_dict name region inputs = JDict [(''name'', JStr name), (''region'', region), (''inputs'', JList inputs)]"

definition dag_dict :: "json list \<Rightarrow> json" where
  "dag_dict jobs = JDict [(''schema'', JStr ''raveil.fold-dag.v1''), (''jobs'', JList jobs), (''output'', JStr ''result'')]"

definition post_region :: "int \<Rightarrow> int \<Rightarrow> json \<Rightarrow> json \<Rightarrow> json" where
  "post_region height width nodes result =
     region_dict height width 1 (JStr ''sum'') [height * width, 0]
       [(''reduced'', JList (map JInt [0, 0, if height > 1 then width else 0, if width > 1 then 1 else 0, 0]))] nodes result"

definition compile_tile :: "grid_source \<Rightarrow> json \<Rightarrow> (json \<times> json) option \<Rightarrow> nat \<Rightarrow> int \<times> int \<Rightarrow> (string \<times> json \<times> tile) res" where
  "compile_tile gs nodes post k p = (case p of (row, col) \<Rightarrow>
     (let height = min (fst (gs_tile gs)) (fst (gs_shape gs) - row); width = min (snd (gs_tile gs)) (snd (gs_shape gs) - col);
          rect = rectangle (gs_views gs) row col height width (gs_extent gs);
          name = ''tile-'' @ zfill 2 k
      in rbind (tile_buffer gs (rect 0) 0) (\<lambda>a.
         rbind (tile_buffer gs (rect 1) 1) (\<lambda>b.
         rbind (mapM (tile_view rect row col height width (gs_extent gs)) (gs_views gs)) (\<lambda>views.
         (let region = region_dict height width (gs_extent gs) (fold_json (gs_fold gs)) [int (length a), int (length b)] views nodes (gs_result gs)
          in rbind (recast ''malformed MF01 map program'' (compile_region region)) (\<lambda>_.
             rbind (case post of
                 None \<Rightarrow> Inr [job_dict ''result'' region [words_json a, words_json b]]
               | Some (pnodes, presult) \<Rightarrow>
                   (let pregion = post_region height width pnodes presult
                    in rbind (recast ''malformed post map'' (compile_region pregion)) (\<lambda>_.
                       Inr [job_dict ''reduce'' region [words_json a, words_json b],
                            job_dict ''result'' pregion [JDict [(''from'', JStr ''reduce'')], JList []]]))) (\<lambda>jobs.
             rbind (compile_plan (dag_dict jobs)) (\<lambda>_.
             Inr (name, dag_dict jobs, \<lparr>t_name = name, t_row = row, t_column = col, t_rows = height, t_columns = width\<rparr>))))))))))"

section \<open>The compiler\<close>

record compiled_grid =
  cg_items :: "(string \<times> json) list"
  cg_layout :: "tile list"
  cg_rows :: int
  cg_columns :: int

definition lowers :: "string \<Rightarrow> bool" where
  "lowers schema \<longleftrightarrow> schema \<in> {GRID_V4, GRID_V5}"

text \<open>Kernel or post nodes after the optional numeric lowering.\<close>

definition lowered_nodes :: "string \<Rightarrow> json \<Rightarrow> json \<Rightarrow> json res" where
  "lowered_nodes schema nodes result =
     (if lowers schema then rbind (lower nodes result (schema = GRID_V5)) (\<lambda>js. Inr (JList js)) else Inr nodes)"

definition lowered_post :: "grid_source \<Rightarrow> (json \<times> json) option res" where
  "lowered_post gs = (case gs_post gs of
     None \<Rightarrow> Inr None
   | Some (nodes, result) \<Rightarrow> rbind (lowered_nodes (gs_schema gs) nodes result) (\<lambda>ns. Inr (Some (ns, result))))"

definition tile_origins :: "grid_source \<Rightarrow> (int \<times> int) list" where
  "tile_origins gs = concat (map (\<lambda>r. map (Pair r) (stepped (snd (gs_shape gs)) (snd (gs_tile gs))))
     (stepped (fst (gs_shape gs)) (fst (gs_tile gs))))"

definition compile :: "json \<Rightarrow> compiled_grid res" where
  "compile j =
     rbind (source j) (\<lambda>gs.
     rbind (lowered_nodes (gs_schema gs) (gs_nodes gs) (gs_result gs)) (\<lambda>nodes.
     rbind (lowered_post gs) (\<lambda>post.
     rbind (mapM (\<lambda>(k, p). compile_tile gs nodes post k p) (enumerate 0 (tile_origins gs))) (\<lambda>tiles.
     Inr \<lparr>cg_items = map (\<lambda>(name, dag, _). (name, dag)) tiles, cg_layout = map (\<lambda>(_, _, t). t) tiles,
          cg_rows = fst (gs_shape gs), cg_columns = snd (gs_shape gs)\<rparr>))))"

section \<open>The untiled reference\<close>

definition grid_load :: "grid_source \<Rightarrow> int \<Rightarrow> int \<Rightarrow> int \<Rightarrow> string \<Rightarrow> int res" where
  "grid_load gs row col k name =
     rbind (dget (gs_views gs) name) (\<lambda>v.
     rbind (py_nth (gs_grids gs) (int (gv_input v))) (\<lambda>g.
       (let r = fst (gv_offset v) + row * fst (gv_row v) + col * fst (gv_column v) + k * fst (gv_step v);
            c = snd (gv_offset v) + row * snd (gv_row v) + col * snd (gv_column v) + k * snd (gv_step v);
            rows = g_rows g; columns = g_columns g
        in if gs_boundary gs = BZero \<and> \<not> (0 \<le> r \<and> r < rows \<and> 0 \<le> c \<and> c < columns) then Inr 0
           else (let (r, c) = (case gs_boundary gs of
                      BClamp \<Rightarrow> (max 0 (min r (rows - 1)), max 0 (min c (columns - 1)))
                    | BWrap \<Rightarrow> (r mod rows, c mod columns)
                    | BZero \<Rightarrow> (r, c))
                 in py_nth (g_words g) (r * columns + c)))))"

definition grid_cell :: "grid_source \<Rightarrow> node list \<Rightarrow> string \<Rightarrow> (node list \<times> string) option \<Rightarrow> int \<Rightarrow> int \<Rightarrow> int res" where
  "grid_cell gs ns result post row col =
     rbind (foldM (\<lambda>acc k. rbind (eval_nodes (grid_load gs row col (int k)) ns result)
                             (\<lambda>v. Inr (fold_step (gs_fold gs) acc v))) 0 [0..<nat (gs_extent gs)]) (\<lambda>acc.
     (case post of None \<Rightarrow> Inr acc | Some (pns, presult) \<Rightarrow> eval_nodes (\<lambda>_. Inr acc) pns presult))"

text \<open>
  \<open>reference\<close> interprets the dictionaries of the kernel and post nodes, which \<open>compile\<close> has
  admitted before; \<open>check_source\<close> reads them as records.
\<close>

definition grid_reference :: "json \<Rightarrow> int list res" where
  "grid_reference j =
     rbind (compile j) (\<lambda>_.
     rbind (source j) (\<lambda>gs.
     rbind (check_source (gs_nodes gs) (gs_result gs)) (\<lambda>(ns, result).
     rbind (case gs_post gs of None \<Rightarrow> Inr None
            | Some (nodes, res) \<Rightarrow> rbind (check_source nodes res) (\<lambda>p. Inr (Some p))) (\<lambda>post.
     mapM (\<lambda>(r, c). grid_cell gs ns result post (int r) (int c))
       (grid_list (nat (fst (gs_shape gs))) (nat (snd (gs_shape gs))) Pair)))))"

end
