(* ===== verification/Grid_Tiles.thy ===== *)
theory Grid_Tiles
  imports Mf01_Grid
begin

text \<open>
  A tile of a compiled grid computes its part of the untiled reference: the rectangle copied
  for an input contains every sample the tile's views address, the affine view words address
  it in row-major order, and the nodes of the region are the (lowered) kernel nodes.
\<close>

section \<open>Admitted sources\<close>

definition gview_ok :: "nat \<Rightarrow> gview \<Rightarrow> bool" where
  "gview_ok grids v \<longleftrightarrow> gv_input v < grids \<and> 0 \<le> fst (gv_step v) \<and> 0 \<le> snd (gv_step v) \<and>
     0 \<le> fst (gv_row v) \<and> 0 \<le> snd (gv_row v) \<and> 0 \<le> fst (gv_column v) \<and> 0 \<le> snd (gv_column v)"

definition gs_ok :: "grid_source \<Rightarrow> bool" where
  "gs_ok gs \<longleftrightarrow> length (gs_grids gs) \<le> 2 \<and> (\<forall>g \<in> set (gs_grids gs). grid_ok g) \<and>
     1 \<le> fst (gs_shape gs) \<and> fst (gs_shape gs) \<le> 64 \<and> 1 \<le> snd (gs_shape gs) \<and> snd (gs_shape gs) \<le> 64 \<and>
     1 \<le> fst (gs_tile gs) \<and> fst (gs_tile gs) \<le> 16 \<and> 1 \<le> snd (gs_tile gs) \<and> snd (gs_tile gs) \<le> 16 \<and>
     tiles_needed (gs_shape gs) (gs_tile gs) \<le> 16 \<and> 1 \<le> gs_extent gs \<and> gs_extent gs \<le> 64 \<and>
     (\<forall>p \<in> set (gs_views gs). fst p \<noteq> [] \<and> gview_ok (length (gs_grids gs)) (snd p))"

lemma integer_in_Inr [res_simps]:
  "integer_in j low high = Inr n \<longleftrightarrow> j = Some (JInt n) \<and> low \<le> n \<and> n \<le> high"
  by (auto simp: integer_in_def split: option.splits json.splits if_splits)

lemma integer_in_value_error [simp]: "value_error (integer_in j low high)"
  by (auto simp: integer_in_def split: option.splits json.splits)

lemma int_pair_Inr:
  "int_pair j msg low high = Inr (a, b) \<Longrightarrow> low \<le> a \<and> a \<le> high \<and> low \<le> b \<and> b \<le> high"
  unfolding int_pair_def by (simp only: res_simps reject_eq Inr_inject prod.inject) blast

lemma int_pair_range:
  "int_pair j msg low high = Inr p \<Longrightarrow> low \<le> fst p \<and> fst p \<le> high \<and> low \<le> snd p \<and> snd p \<le> high"
  using int_pair_Inr by (cases p) auto

lemma int_pair_value_error [simp]: "value_error (int_pair j msg low high)"
  unfolding int_pair_def by (intro value_error_rbind) simp_all

lemma read_view_Inr:
  assumes "read_view v2 grids (name, j) = Inr p"
  shows "fst p \<noteq> [] \<and> gview_ok grids (snd p)"
proof -
  from assms obtain d input offset step row column where
    parts: "name \<noteq> []" "0 \<le> input" "input \<le> int grids - 1"
    "int_pair (map_of d ''step'') ''view needs two coordinates'' 0 63 = Inr step"
    "(if v2 then int_pair (map_of d ''row'') ''view needs two coordinates'' 0 63 else Inr (1, 0)) = Inr row"
    "(if v2 then int_pair (map_of d ''column'') ''view needs two coordinates'' 0 63 else Inr (0, 1)) = Inr column"
    "p = (name, \<lparr>gv_input = nat input, gv_offset = offset, gv_step = step, gv_row = row, gv_column = column\<rparr>)"
    unfolding read_view_def prod.case by (simp only: res_simps reject_eq Inr_inject) blast
  have "0 \<le> fst row" "0 \<le> snd row" "0 \<le> fst column" "0 \<le> snd column" "0 \<le> fst step" "0 \<le> snd step"
    using parts(4-6) by (auto dest!: int_pair_range split: if_splits)
  with parts show ?thesis by (simp add: gview_ok_def nat_less_iff)
qed

lemma source_Inr:
  assumes "source j = Inr gs"
  shows "gs_ok gs"
proof -
  from assms obtain d v2 inputs shape tile mode extent fo views nodes result grids schema post where
    parts: "\<not> (length inputs < 1 \<or> 2 < length inputs)" "mapM read_input inputs = Inr grids"
      "int_pair (if v2 then map_of d ''shape'' else Some (JList [JInt (g_rows (grids ! 0)), JInt (g_columns (grids ! 0))]))
                  ''two output dimensions required'' 1 64 = Inr shape"
      "int_pair (map_of d ''tile'') ''two tile dimensions required'' 1 16 = Inr tile" "\<not> (tiles_needed shape tile > 16)"
      "read_kernel v2 (length grids) (map_of d ''kernel'') = Inr (extent, fo, views, nodes, result)"
      "gs = \<lparr>gs_schema = schema, gs_grids = grids, gs_shape = shape, gs_tile = tile, gs_boundary = mode,
              gs_extent = extent, gs_fold = fo, gs_views = views, gs_nodes = nodes, gs_result = result, gs_post = post\<rparr>"
    unfolding source_def Let_def by (simp only: res_simps reject_eq Inr_inject prod.case split_paired_Ex) blast
  have lens: "length grids \<le> 2" using parts(1) mapM_Inr_length [OF parts(2)] by simp
  have grids: "grid_ok g" if g: "g \<in> set grids" for g
  proof -
    obtain i where "i < length inputs" "g = grids ! i" using g mapM_Inr_length [OF parts(2)] by (auto simp: in_set_conv_nth)
    then show ?thesis using mapM_Inr_nth [OF parts(2)] read_input_ok by metis
  qed
  from parts(6) obtain vs where k: "1 \<le> extent" "extent \<le> 64" "mapM (read_view v2 (length grids)) vs = Inr views"
    unfolding read_kernel_def by (simp only: res_simps reject_eq Inr_inject prod.inject) blast
  have views: "fst p \<noteq> [] \<and> gview_ok (length grids) (snd p)" if p: "p \<in> set views" for p
  proof -
    obtain i where i: "i < length vs" "p = views ! i" using p mapM_Inr_length [OF k(3)] by (auto simp: in_set_conv_nth)
    obtain name jv where "vs ! i = (name, jv)" by (cases "vs ! i")
    then show ?thesis using mapM_Inr_nth [OF k(3) i(1)] i(2) read_view_Inr by metis
  qed
  show ?thesis
    using int_pair_range [OF parts(3)] int_pair_range [OF parts(4)] parts(5) k(1,2) lens grids views
    by (simp add: gs_ok_def parts(7))
qed

section \<open>Geometry\<close>

lemma foldl_min_le: "x \<in> set (a # xs) \<Longrightarrow> foldl min a xs \<le> (x :: int)"
proof (induction xs arbitrary: a x)
  case (Cons y xs)
  have m: "foldl min (min a y) xs \<le> min a y" using Cons.IH [of "min a y" "min a y"] by simp
  show ?case
  proof (cases "x \<in> set xs")
    case True
    then show ?thesis using Cons.IH [of x "min a y"] by simp
  next
    case False
    then have "x = a \<or> x = y" using Cons.prems by auto
    with m show ?thesis by auto
  qed
qed simp

lemma foldl_max_ge: "x \<in> set (a # xs) \<Longrightarrow> (x :: int) \<le> foldl max a xs"
proof (induction xs arbitrary: a x)
  case (Cons y xs)
  have m: "max a y \<le> foldl max (max a y) xs" using Cons.IH [of "max a y" "max a y"] by simp
  show ?case
  proof (cases "x \<in> set xs")
    case True
    then show ?thesis using Cons.IH [of x "max a y"] by simp
  next
    case False
    then have "x = a \<or> x = y" using Cons.prems by auto
    with m show ?thesis by auto
  qed
qed simp

text \<open>The global coordinates a view addresses for the cell \<open>(R, C)\<close> in iteration \<open>k\<close>.\<close>

definition addressed :: "gview \<Rightarrow> int \<Rightarrow> int \<Rightarrow> int \<Rightarrow> coord" where
  "addressed v R C k =
     (fst (gv_offset v) + R * fst (gv_row v) + C * fst (gv_column v) + k * fst (gv_step v),
      snd (gv_offset v) + R * snd (gv_row v) + C * snd (gv_column v) + k * snd (gv_step v))"

lemma rectangle_contains:
  assumes rect: "rectangle views row col height width extent (gv_input v) = Some (rmin, cmin, h, w)"
    and v: "v \<in> snd ` set views" "gview_ok n v"
    and r: "0 \<le> r" "r < height" "0 \<le> c" "c < width" "0 \<le> k" "k < extent"
  shows "rmin \<le> fst (addressed v (row + r) (col + c) k)" "fst (addressed v (row + r) (col + c) k) < rmin + h"
    "cmin \<le> snd (addressed v (row + r) (col + c) k)" "snd (addressed v (row + r) (col + c) k) < cmin + w"
proof -
  obtain u us where us: "filter (\<lambda>x. gv_input x = gv_input v) (map snd views) = u # us"
    and eqs: "rmin = foldl min (fst (origin row col u)) (map (\<lambda>x. fst (origin row col x)) us)"
      "cmin = foldl min (snd (origin row col u)) (map (\<lambda>x. snd (origin row col x)) us)"
      "rmin + h - 1 = foldl max (farthest fst row col height width extent u) (map (farthest fst row col height width extent) us)"
      "cmin + w - 1 = foldl max (farthest snd row col height width extent u) (map (farthest snd row col height width extent) us)"
    using rect by (auto simp: rectangle_def Let_def split: list.splits)
  have mem: "v \<in> set (u # us)"
    unfolding us [symmetric] using v(1) by auto
  have low: "rmin \<le> fst (origin row col v)" "cmin \<le> snd (origin row col v)"
    unfolding eqs using mem by (auto intro!: foldl_min_le)
  have high: "farthest fst row col height width extent v \<le> rmin + h - 1" "farthest snd row col height width extent v \<le> cmin + w - 1"
    unfolding eqs(3,4) using mem by (auto intro!: foldl_max_ge)
  have m: "x * y \<le> (z - 1) * y" "0 \<le> x * y" if "0 \<le> x" "x < z" "0 \<le> y" for x y z :: int
    using that by (auto intro: mult_right_mono)
  have ax: "fst (addressed v (row + r) (col + c) k) = fst (origin row col v) + r * fst (gv_row v) + c * fst (gv_column v) + k * fst (gv_step v)"
    "snd (addressed v (row + r) (col + c) k) = snd (origin row col v) + r * snd (gv_row v) + c * snd (gv_column v) + k * snd (gv_step v)"
    by (simp_all add: addressed_def origin_def algebra_simps)
  note nn = v(2)[unfolded gview_ok_def]
  show "rmin \<le> fst (addressed v (row + r) (col + c) k)"
    using low(1) m(2) [OF r(1,2), of "fst (gv_row v)"] m(2) [OF r(3,4), of "fst (gv_column v)"] m(2) [OF r(5,6), of "fst (gv_step v)"] nn
    unfolding ax by linarith
  show "cmin \<le> snd (addressed v (row + r) (col + c) k)"
    using low(2) m(2) [OF r(1,2), of "snd (gv_row v)"] m(2) [OF r(3,4), of "snd (gv_column v)"] m(2) [OF r(5,6), of "snd (gv_step v)"] nn
    unfolding ax by linarith
  show "fst (addressed v (row + r) (col + c) k) < rmin + h"
    using high(1) m [OF r(1,2), of "fst (gv_row v)"] m [OF r(3,4), of "fst (gv_column v)"] m [OF r(5,6), of "fst (gv_step v)"] nn
    unfolding ax farthest_def by linarith
  show "snd (addressed v (row + r) (col + c) k) < cmin + w"
    using high(2) m [OF r(1,2), of "snd (gv_row v)"] m [OF r(3,4), of "snd (gv_column v)"] m [OF r(5,6), of "snd (gv_step v)"] nn
    unfolding ax farthest_def by linarith
qed

text \<open>The reference resolves a coordinate as \<open>sample\<close> does.\<close>

lemma grid_load_sample:
  assumes "map_of (gs_views gs) name = Some v" "gv_input v < length (gs_grids gs)" "gs_ok gs"
  shows "grid_load gs R C k name =
    sample (gs_grids gs ! gv_input v) (fst (addressed v R C k)) (snd (addressed v R C k)) (gs_boundary gs)"
proof -
  have g: "grid_ok (gs_grids gs ! gv_input v)" using assms by (simp add: gs_ok_def)
  then have clamp: "max 0 (min x (g_rows (gs_grids gs ! gv_input v) - 1)) = min (g_rows (gs_grids gs ! gv_input v) - 1) (max 0 x)"
    "max 0 (min x (g_columns (gs_grids gs ! gv_input v) - 1)) = min (g_columns (gs_grids gs ! gv_input v) - 1) (max 0 x)" for x
    by (auto simp: grid_ok_def min_def max_def)
  show ?thesis
    using assms(1,2) by (cases "gs_boundary gs") (simp_all add: grid_load_def dget_def sample_def addressed_def Let_def clamp)
qed

section \<open>Buffers\<close>

lemma tile_buffer_Inr:
  assumes "tile_buffer gs (Some (rmin, cmin, h, w)) index = Inr buf" "index < length (gs_grids gs)" "0 \<le> h" "0 \<le> w"
  shows "int (length buf) = h * w"
    and "0 \<le> r \<Longrightarrow> r < h \<Longrightarrow> 0 \<le> c \<Longrightarrow> c < w \<Longrightarrow>
      sample (gs_grids gs ! index) (rmin + r) (cmin + c) (gs_boundary gs) = Inr (buf ! nat (r * w + c))"
proof -
  have buf: "mapM (\<lambda>(r, c). sample (gs_grids gs ! index) (rmin + int r) (cmin + int c) (gs_boundary gs)) (grid_list (nat h) (nat w) Pair) = Inr buf"
    using assms(1,2) by (simp add: tile_buffer_def res_simps split: if_splits)
  have "length buf = nat h * nat w" using mapM_Inr_length [OF buf] by simp
  then show "int (length buf) = h * w" using assms(3,4) by simp
  assume rc: "0 \<le> r" "r < h" "0 \<le> c" "c < w"
  then have lt: "nat r < nat h" "nat c < nat w" by auto
  have idx: "nat r * nat w + nat c = nat (r * w + c)" using rc by (simp add: nat_add_distrib nat_mult_distrib)
  have "sample (gs_grids gs ! index) (rmin + int (nat r)) (cmin + int (nat c)) (gs_boundary gs) = Inr (buf ! (nat r * nat w + nat c))"
    using mapM_Inr_nth [OF buf, of "nat r * nat w + nat c"] grid_index_less [OF lt] nth_grid_list [OF lt, of Pair] by simp
  then show "sample (gs_grids gs ! index) (rmin + r) (cmin + c) (gs_boundary gs) = Inr (buf ! nat (r * w + c))"
    using rc by (simp add: idx)
qed

text \<open>The facts a compiled tile provides.\<close>

definition tile_regions :: "grid_source \<Rightarrow> int \<Rightarrow> int \<Rightarrow> int \<Rightarrow> int \<Rightarrow> (string \<times> json) list \<Rightarrow> int list \<Rightarrow> int list \<Rightarrow> bool" where
  "tile_regions gs row col height width views a b \<longleftrightarrow>
     (let rect = rectangle (gs_views gs) row col height width (gs_extent gs)
      in tile_buffer gs (rect 0) 0 = Inr a \<and> tile_buffer gs (rect 1) 1 = Inr b \<and>
         mapM (tile_view rect row col height width (gs_extent gs)) (gs_views gs) = Inr views)"

lemma map_of_tile_views:
  assumes "mapM (tile_view rect row col height width extent) vs = Inr views"
  shows "map fst views = map fst vs" and "map_of vs name = Some v \<Longrightarrow>
    \<exists>x. tile_view rect row col height width extent (name, v) = Inr (name, x) \<and> map_of views name = Some x"
  using assms
proof (induction vs arbitrary: views)
  case (Cons p vs)
  { case 1
    then show ?case using Cons.IH(1)
      by (cases p) (auto simp: res_simps tile_view_def split: option.splits prod.splits) }
  { case 2
    then show ?case using Cons.IH(2)
      by (cases p) (auto simp: res_simps tile_view_def split: option.splits prod.splits if_splits) }
qed auto

lemma tile_load:
  assumes gs: "gs_ok gs" and t: "tile_regions gs row col height width views a b"
    and v: "map_of (gs_views gs) name = Some v"
    and r: "0 \<le> r" "r < height" "0 \<le> c" "c < width" "0 \<le> k" "k < gs_extent gs"
  shows "load_view views [a, b] r c k name = grid_load gs (row + r) (col + c) k name"
proof -
  let ?rect = "rectangle (gs_views gs) row col height width (gs_extent gs)"
  have mem: "(name, v) \<in> set (gs_views gs)" using v by (rule map_of_SomeD)
  have ok: "gview_ok (length (gs_grids gs)) v" using gs mem by (auto simp: gs_ok_def)
  then have inp: "gv_input v < length (gs_grids gs)" "gv_input v < 2" using gs by (auto simp: gview_ok_def gs_ok_def)
  obtain x where x: "tile_view ?rect row col height width (gs_extent gs) (name, v) = Inr (name, x)" "map_of views name = Some x"
    using t map_of_tile_views(2) [OF _ v] unfolding tile_regions_def Let_def by blast
  obtain rmin cmin h w where rect: "?rect (gv_input v) = Some (rmin, cmin, h, w)"
    using x(1) by (auto simp: tile_view_def split: option.splits)
  have view: "view_ints x = [int (gv_input v), (fst (origin row col v) - rmin) * w + snd (origin row col v) - cmin,
             if height > 1 then fst (gv_row v) * w + snd (gv_row v) else 0,
             if width > 1 then fst (gv_column v) * w + snd (gv_column v) else 0,
             if gs_extent gs > 1 then fst (gv_step v) * w + snd (gv_step v) else 0]"
    using x(1) rect by (auto simp: tile_view_def)
  define R C where "R = fst (addressed v (row + r) (col + c) k) - rmin" and "C = snd (addressed v (row + r) (col + c) k) - cmin"
  have "v \<in> snd ` set (gs_views gs)" using mem by force
  from rectangle_contains [OF rect this ok r]
  have RC: "0 \<le> R" "R < h" "0 \<le> C" "C < w" by (auto simp: R_def C_def)
  define buf where "buf = [a, b] ! gv_input v"
  have "gv_input v = 0 \<or> gv_input v = 1" using inp(2) by auto
  then have buf: "tile_buffer gs (Some (rmin, cmin, h, w)) (gv_input v) = Inr buf" "py_nth [a, b] (int (gv_input v)) = Inr buf"
    using t rect by (auto simp: tile_regions_def Let_def buf_def py_nth_def)
  note tb = tile_buffer_Inr [OF buf(1) inp(1)]
  have len: "int (length buf) = h * w" using tb(1) RC by simp
  have sam: "sample (gs_grids gs ! gv_input v) (rmin + R) (cmin + C) (gs_boundary gs) = Inr (buf ! nat (R * w + C))"
    using tb(2) RC by simp
  have strides: "(if height > 1 then z else 0) * r = z * r" "(if width > 1 then z else 0) * c = z * c"
    "(if gs_extent gs > 1 then z else 0) * k = z * k" for z :: int
    using r by auto
  have "view_ints x ! 1 + view_ints x ! 2 * r + view_ints x ! 3 * c + view_ints x ! 4 * k =
      ((fst (origin row col v) - rmin) * w + snd (origin row col v) - cmin) + (fst (gv_row v) * w + snd (gv_row v)) * r +
      (fst (gv_column v) * w + snd (gv_column v)) * c + (fst (gv_step v) * w + snd (gv_step v)) * k"
    unfolding view by (simp only: strides nth_Cons_0 nth_Cons_numeral nth_Cons_pos numeral_eq_Suc nth_Cons_Suc pred_numeral_simps BitM.simps One_nat_def)
  then have addr: "view_ints x ! 1 + view_ints x ! 2 * r + view_ints x ! 3 * c + view_ints x ! 4 * k = R * w + C"
    by (simp add: R_def C_def addressed_def origin_def algebra_simps)
  have buf': "py_nth [a, b] (view_ints x ! 0) = Inr buf" using buf(2) by (simp add: view)
  have idx: "py_nth buf (R * w + C) = Inr (buf ! nat (R * w + C))"
    using grid_index_bounds [OF RC] len by (simp add: py_nth_def)
  have "load_view views [a, b] r c k name = Inr (buf ! nat (R * w + C))"
    unfolding load_view_def Let_def using x(2) buf' idx by (simp add: dget_def addr [unfolded One_nat_def])
  also have "\<dots> = grid_load gs (row + r) (col + c) k name"
    using grid_load_sample [OF v inp(1) gs, of "row + r" "col + c" k] sam by (simp add: R_def C_def)
  finally show ?thesis .
qed

section \<open>Region nodes and source nodes\<close>

lemma check_args_source:
  "check_args seen xs = Inr args \<Longrightarrow>
     mapM (\<lambda>a. want_str (Some a) ''source nodes must be in dependency order'') xs = Inr args \<and> set args \<subseteq> seen"
proof (induction xs arbitrary: args)
  case (Cons x xs)
  then show ?case
    by (cases x) (auto simp: check_args_def res_simps)
qed (simp add: check_args_def)

lemma region_op_cases: "region_op s = Some o' \<Longrightarrow>
  (s, o') \<in> {(''load'', OpLoad), (''add'', OpAdd), (''max'', OpMax), (''mul'', OpMul), (''add_imm'', OpAddImm), (''ge_imm'', OpGeImm)}"
  by (auto split: if_splits)

lemma region_node_source:
  assumes "region_node views seen j = Inr n" "[] \<notin> keys views"
  shows "source_node seen j = Inr n"
proof -
  obtain kv s o' name xs args view imm where n: "n = \<lparr>nid = name, nop = o', nargs = args, nview = view, nimm = imm\<rparr>"
    and p: "j = JDict kv" "map_of kv ''op'' = Some (JStr s)" "region_op s = Some o'" "keys kv = node_fields s"
      "map_of kv ''id'' = Some (JStr name)" "\<not> (name = [] \<or> name \<in> seen)" "get_args kv = JList xs" "length xs = arity o'"
      "check_args seen xs = Inr args" "node_view o' views kv = Inr view" "node_imm kv = Inr imm"
    using assms(1) unfolding region_node_def node_name_def by (simp only: res_simps reject_eq option.inject not_not Inr_inject) blast
  have op: "numeric_op s = Some o'" using region_op_cases [OF p(3)] by auto
  have imm: "\<exists>x. map_of kv ''imm'' = Some x" if "has_imm o'"
  proof -
    have "''imm'' \<in> keys kv" using region_op_cases [OF p(3)] that unfolding p(4) by (auto simp: has_imm_def node_fields_def)
    then show ?thesis by (auto simp: keys_def dom_map_of_conv_image_fst [symmetric])
  qed
  have noimm: "map_of kv ''imm'' = None" if "\<not> has_imm o'"
  proof -
    have "''imm'' \<notin> keys kv" using region_op_cases [OF p(3)] that unfolding p(4) by (auto simp: has_imm_def node_fields_def)
    then show ?thesis by (simp add: map_of_eq_None_iff)
  qed
  have "(if has_imm o' then want (case map_of kv ''imm'' of Some (JInt n) \<Rightarrow> Some n | _ \<Rightarrow> None)
     ''source immediate must fit unsigned22 bits'' else Inr 0) = Inr imm \<and> 0 \<le> imm \<and> imm < 2 ^ 22"
    using p(11) imm noimm by (auto simp: node_imm_def res_simps)
  moreover have "(if o' = OpLoad then want_str (map_of kv ''view'') ''invalid source view'' else Inr []) = Inr view \<and> (o' = OpLoad \<longrightarrow> view \<noteq> [])"
    using p(10) assms(2) by (auto simp: node_view_def res_simps simp del: keys_code split: if_splits)
  ultimately show ?thesis
    using p op check_args_source [OF p(9)] unfolding source_node_def n
    by (simp add: want_dict_def want_str_def want_def want_list_def)
qed

lemma region_nodes_source:
  "region_nodes views seen js = Inr ns \<Longrightarrow> [] \<notin> keys views \<Longrightarrow> source_nodes seen js = Inr ns"
proof (induction js arbitrary: seen ns)
  case (Cons j js)
  then show ?case by (auto simp: res_simps region_node_source simp del: keys_code)
qed simp

lemma region_node_json_eq:
  assumes "region_node views seen (node_json m) = Inr n" "canon m" "\<not> signed_op (nop m)" "length (nargs m) = arity (nop m)"
  shows "n = m"
  using assms
  by (cases m; cases "nop m")
    (auto simp: canon_def signed_op_def region_node_def node_json_def has_imm_def node_fields_def res_simps get_args_def
      node_name_def node_view_def node_imm_def int_in_def want_def split: if_splits)

lemma region_nodes_json_eq:
  "region_nodes views seen (map node_json ms) = Inr ns \<Longrightarrow> \<forall>m \<in> set ms. canon m \<and> \<not> signed_op (nop m) \<Longrightarrow> nodes_ok seen' ms \<Longrightarrow> ns = ms"
proof (induction ms arbitrary: seen seen' ns)
  case (Cons m ms)
  obtain n ns' where n: "region_node views seen (node_json m) = Inr n" "region_nodes views (insert (nid n) seen) (map node_json ms) = Inr ns'" "ns = n # ns'"
    using Cons.prems(1) by (auto simp: res_simps)
  have "n = m" using region_node_json_eq [OF n(1)] Cons.prems(2,3) by (simp add: node_ok_def)
  moreover have "ns' = ms" using Cons.IH [OF n(2), of "insert (nid m) seen'"] Cons.prems(2,3) by simp
  ultimately show ?case using n(3) by simp
qed simp

text \<open>Lowering only appends, and copies every unsigned node.\<close>

lemma emit_emitted: "emit st o' args imm = (st', name) \<Longrightarrow> set (lw_emitted st) \<subseteq> set (lw_emitted st')"
  by (auto simp: emit_def emit_named_def Let_def split: prod.splits)

lemma get_sign_emitted: "get_sign st a = (st', name) \<Longrightarrow> set (lw_emitted st) \<subseteq> set (lw_emitted st')"
  by (auto simp: get_sign_def Let_def split: prod.splits option.splits dest!: emit_emitted) blast

lemma translated_emitted: "translated share st sign x = (st', name) \<Longrightarrow> set (lw_emitted st) \<subseteq> set (lw_emitted st')"
  by (auto simp: translated_def Let_def split: prod.splits option.splits if_splits dest!: emit_emitted)

lemma lower_node_emitted: "set (lw_emitted st) \<subseteq> set (lw_emitted (lower_node share st n))"
proof (cases "signed_op (nop n)")
  case True
  obtain st1 sign where 1: "get_sign st (nargs n ! 0) = (st1, sign)" by force
  obtain st2 left where 2: "translated share st1 sign (nargs n ! 0) = (st2, left)" by force
  obtain st3 right where 3: "(if nop n = OpReluI32 then (st2, sign) else translated share st2 sign (nargs n ! 1)) = (st3, right)" by force
  obtain st4 selected where 4: "emit st3 OpMax [left, right] 0 = (st4, selected)" by force
  have "set (lw_emitted st2) \<subseteq> set (lw_emitted st3)"
    using 3 translated_emitted by (auto split: if_splits)
  then have "set (lw_emitted st) \<subseteq> set (lw_emitted st4)"
    using get_sign_emitted [OF 1] translated_emitted [OF 2] emit_emitted [OF 4] by blast
  then show ?thesis using True by (auto simp: lower_node_def Let_def 1 2 3 4 emit_named_def)
qed (auto simp: lower_node_def)

lemma lower_loop_emitted: "set (lw_emitted st) \<subseteq> set (lw_emitted (foldl (lower_node share) st ns))"
proof (induction ns arbitrary: st)
  case (Cons n ns)
  then show ?case using lower_node_emitted [of st share n] by fastforce
qed simp

lemma lower_keeps:
  assumes "n \<in> set ns" "\<not> signed_op (nop n)"
  shows "n \<in> set (lower_nodes share ns)"
proof -
  have "n \<in> set (lw_emitted (foldl (lower_node share) st ns))" for st
    using assms(1)
  proof (induction ns arbitrary: st)
    case (Cons m ns)
    show ?case
    proof (cases "n = m")
      case True
      then have "n \<in> set (lw_emitted (lower_node share st m))" using assms(2) by (simp add: lower_node_def)
      then show ?thesis using lower_loop_emitted by fastforce
    qed (use Cons in simp)
  qed simp
  then show ?thesis by (simp add: lower_nodes_def)
qed

text \<open>
  The nodes of a compiled region compute what the source nodes compute, for every loader
  that answers on the named views.
\<close>

definition same_map :: "string set \<Rightarrow> node list \<Rightarrow> node list \<Rightarrow> string \<Rightarrow> bool" where
  "same_map views ms ns name \<longleftrightarrow> nodes_ok {} ns \<and> name \<in> nid ` set ns \<and>
     (\<forall>n \<in> set ns. nop n = OpLoad \<longrightarrow> nview n \<in> views) \<and>
     (\<forall>load load'. (\<forall>v \<in> views. load v = load' v \<and> (\<exists>w. load' v = Inr w)) \<longrightarrow>
        eval_nodes load ms name = eval_nodes load' ns name)"

lemma same_map_refl:
  assumes "nodes_ok {} ns" "name \<in> nid ` set ns" "\<And>n. n \<in> set ns \<Longrightarrow> nop n = OpLoad \<Longrightarrow> nview n \<in> views"
  shows "same_map views ns ns name"
  using assms unfolding same_map_def by (auto intro!: eval_nodes_cong)

lemma same_map_lowered:
  assumes "nodes_ok {} ns" "\<forall>n \<in> set ns. canon n" "name \<in> nid ` set ns"
    and views: "\<And>n. n \<in> set (lower_nodes share ns) \<Longrightarrow> nop n = OpLoad \<Longrightarrow> nview n \<in> views"
  shows "same_map views (lower_nodes share ns) ns name"
proof -
  have loads: "nview n \<in> views" if "n \<in> set ns" "nop n = OpLoad" for n
    using lower_keeps [OF that(1)] that(2) views by (simp add: signed_op_def)
  have "eval_nodes load (lower_nodes share ns) name = eval_nodes load' ns name"
    if eq: "\<forall>v \<in> views. load v = load' v \<and> (\<exists>w. load' v = Inr w)" for load load'
  proof -
    have "eval_nodes load ns name = eval_nodes load' ns name"
      using eq loads by (intro eval_nodes_cong) auto
    moreover obtain w where "eval_nodes load' ns name = Inr w"
      using eval_nodes_total [OF assms(1,3), of load'] eq loads by blast
    ultimately show ?thesis using lower_nodes_eval [OF assms(1,2)] by metis
  qed
  then show ?thesis using assms(1,3) loads by (auto simp: same_map_def)
qed

lemma kernel_agree:
  assumes low: "lowered_nodes schema nodes result = Inr (JList js)"
    and reg: "region_nodes views {} js = Inr ms" "result = JStr name" "name \<in> nid ` set ms"
    and len: "\<not> (length js < 1 \<or> 15 < length js)" and views: "[] \<notin> keys views"
  shows "\<exists>ns. check_source nodes result = Inr (ns, name) \<and> same_map (keys views) ms ns name"
proof (cases "lowers schema")
  case False
  then have js: "nodes = JList js" using low by (simp add: lowered_nodes_def)
  have "source_nodes {} js = Inr ms" using region_nodes_source [OF reg(1) views] .
  then have "check_source nodes result = Inr (ms, name)"
    using len reg(2,3) by (simp add: check_source_def js want_list_def want_str_def)
  moreover have "same_map (keys views) ms ms name"
    using region_nodes_Inr [OF reg(1)] reg(3) by (intro same_map_refl) (auto simp: region_node_ok_def)
  ultimately show ?thesis by blast
next
  case True
  then obtain ns nm where ns: "check_source nodes result = Inr (ns, nm)" "js = map node_json (lower_nodes (schema = GRID_V5) ns)"
    using low by (auto simp: lowered_nodes_def lower_def res_simps)
  note src = check_source_Inr [OF ns(1)]
  note lok = lower_nodes_ok [OF src(1,2), of "schema = GRID_V5"]
  have ms: "ms = lower_nodes (schema = GRID_V5) ns"
    using region_nodes_json_eq [OF reg(1)[unfolded ns(2)] _ lok(1)] lok(3) by blast
  have "nm = name" using src(4) reg(2) by simp
  moreover have "same_map (keys views) ms ns nm"
    unfolding ms using src region_nodes_Inr [OF reg(1)] by (intro same_map_lowered) (auto simp: ms region_node_ok_def)
  ultimately show ?thesis using ns(1) by auto
qed

section \<open>The cells of a tile\<close>

lemma check_region_dict:
  assumes "check_region (region_dict height width extent fo lengths views nodes result) = Inr r"
  shows "\<exists>js ns name f. nodes = JList js \<and> \<not> (length js < 1 \<or> 15 < length js) \<and> region_nodes views {} js = Inr ns \<and>
    result = JStr name \<and> name \<in> nid ` set ns \<and> read_fold (Some fo) = Some f \<and>
    r = \<lparr>r_shape = [JInt height, JInt width], r_extent = JInt extent, r_fold = f, r_lengths = map JInt lengths,
         r_views = views, r_nodes = ns, r_result = name\<rparr>"
  using assms unfolding check_region_def region_dict_def
  by (auto simp: res_simps split: if_splits)

lemma read_fold_json [simp]: "read_fold (Some (fold_json f)) = Some f"
  by (cases f) (simp_all add: read_fold_def fold_json_def)

definition grid_fold :: "grid_source \<Rightarrow> node list \<Rightarrow> string \<Rightarrow> int \<Rightarrow> int \<Rightarrow> int res" where
  "grid_fold gs ns result row col =
     foldM (\<lambda>acc k. rbind (eval_nodes (grid_load gs row col (int k)) ns result)
                      (\<lambda>v. Inr (fold_step (gs_fold gs) acc v))) 0 [0..<nat (gs_extent gs)]"

lemma grid_load_total:
  assumes "gs_ok gs" "name \<in> fst ` set (gs_views gs)"
  shows "\<exists>w. grid_load gs row col k name = Inr w \<and> 0 \<le> w \<and> w < 2 ^ 32"
proof -
  obtain v where v: "map_of (gs_views gs) name = Some v" using assms(2) by (metis not_None_eq map_of_eq_None_iff)
  have "(name, v) \<in> set (gs_views gs)" using v by (rule map_of_SomeD)
  then have i: "gv_input v < length (gs_grids gs)" using assms(1) by (auto simp: gs_ok_def gview_ok_def)
  then have "grid_ok (gs_grids gs ! gv_input v)" using assms(1) by (simp add: gs_ok_def)
  then show ?thesis using grid_load_sample [OF v i assms(1)] sample_word by metis
qed

lemma fold_loop_word:
  assumes "\<And>k. k \<in> set ks \<Longrightarrow> \<exists>v. f k = Inr v \<and> 0 \<le> v \<and> v < 2 ^ 32" "0 \<le> acc" "acc < 2 ^ 32"
  shows "\<exists>w. foldM (\<lambda>acc k. rbind (f k) (\<lambda>v. Inr (fold_step fo acc v))) acc ks = Inr w \<and> 0 \<le> w \<and> w < 2 ^ 32"
  using assms
proof (induction ks arbitrary: acc)
  case (Cons k ks)
  obtain v where v: "f k = Inr v" "0 \<le> v" "v < 2 ^ 32" using Cons.prems(1) by force
  have "0 \<le> fold_step fo acc v \<and> fold_step fo acc v < 2 ^ 32" using fold_step_word Cons.prems(2,3) v(2,3) by simp
  then show ?case using Cons.IH [of "fold_step fo acc v"] Cons.prems(1) v(1) by simp
qed auto

lemma grid_fold_total:
  assumes "gs_ok gs" "nodes_ok {} ns" "name \<in> nid ` set ns" "\<forall>n \<in> set ns. nop n = OpLoad \<longrightarrow> nview n \<in> fst ` set (gs_views gs)"
  shows "\<exists>w. grid_fold gs ns name row col = Inr w \<and> 0 \<le> w \<and> w < 2 ^ 32"
  unfolding grid_fold_def
proof (rule fold_loop_word)
  fix k
  show "\<exists>v. eval_nodes (grid_load gs row col (int k)) ns name = Inr v \<and> 0 \<le> v \<and> v < 2 ^ 32"
    using assms(4) grid_load_total [OF assms(1)] by (intro eval_nodes_total [OF assms(2,3)]) blast
qed simp_all

lemma tile_buffer_words:
  assumes "tile_buffer gs rect index = Inr buf" "gs_ok gs"
  shows "\<forall>x \<in> set buf. 0 \<le> x \<and> x < 2 ^ 32"
proof (cases rect)
  case (Some q)
  obtain rmin cmin h w where q: "q = (rmin, cmin, h, w)" by (cases q)
  obtain g where g: "py_nth (gs_grids gs) (int index) = Inr g"
    "mapM (\<lambda>(r, c). sample g (rmin + int r) (cmin + int c) (gs_boundary gs)) (grid_list (nat h) (nat w) Pair) = Inr buf"
    using assms(1) by (auto simp: tile_buffer_def Some q res_simps)
  have "g \<in> set (gs_grids gs)" using g(1) by (auto simp: py_nth_def split: if_splits)
  then have ok: "grid_ok g" using assms(2) by (simp add: gs_ok_def)
  show ?thesis
  proof
    fix x assume "x \<in> set buf"
    then obtain i where "i < length buf" "x = buf ! i" by (auto simp: in_set_conv_nth)
    then have "i < length (grid_list (nat h) (nat w) Pair)" using mapM_Inr_length [OF g(2)] by simp
    from mapM_Inr_nth [OF g(2) this] obtain r c where "sample g r c (gs_boundary gs) = Inr x"
      using \<open>x = buf ! i\<close> by (auto split: prod.splits)
    then show "0 \<le> x \<and> x < 2 ^ 32" using sample_word [OF ok, of r c "gs_boundary gs"] by auto
  qed
qed (use assms in \<open>simp add: tile_buffer_def\<close>)

text \<open>
  The words a tile's first job must produce, and that the SSA interpreter of the region
  produces them.
\<close>

lemma tile_reference:
  assumes gs: "gs_ok gs" and t: "tile_regions gs row col height width views a b"
    and low: "lowered_nodes (gs_schema gs) (gs_nodes gs) (gs_result gs) = Inr nodes"
    and c: "compile_region (region_dict height width (gs_extent gs) (fold_json (gs_fold gs)) [int (length a), int (length b)]
              views nodes (gs_result gs)) = Inr cfg" (is "compile_region ?region = _")
  shows "\<exists>ns name f. check_source (gs_nodes gs) (gs_result gs) = Inr (ns, name) \<and>
    reference ?region (JList [words_json a, words_json b]) = Inr (grid_list (nat height) (nat width) f) \<and>
    (\<forall>i < nat height. \<forall>j < nat width. grid_fold gs ns name (row + int i) (col + int j) = Inr (f i j) \<and> 0 \<le> f i j \<and> f i j < 2 ^ 32)"
proof -
  obtain r where r: "check_region ?region = Inr r" using c unfolding compile_region_def by (auto simp: res_simps)
  obtain js ms name where ms: "nodes = JList js" "\<not> (length js < 1 \<or> 15 < length js)" "region_nodes views {} js = Inr ms"
      "gs_result gs = JStr name" "name \<in> nid ` set ms"
    and req: "r = \<lparr>r_shape = [JInt height, JInt width], r_extent = JInt (gs_extent gs), r_fold = gs_fold gs,
       r_lengths = map JInt [int (length a), int (length b)], r_views = views, r_nodes = ms, r_result = name\<rparr>"
    using check_region_dict [OF r] by auto
  have keys: "keys views = fst ` set (gs_views gs)"
    using t map_of_tile_views(1) unfolding tile_regions_def Let_def keys_def by (metis list.set_map)
  have nonempty: "[] \<notin> keys views" using gs unfolding keys by (auto simp: gs_ok_def)
  obtain ns where ns: "check_source (gs_nodes gs) (gs_result gs) = Inr (ns, name)" "same_map (keys views) ms ns name"
    using kernel_agree [OF low[unfolded ms(1)] ms(3,4,5,2) nonempty] by blast
  note sm = ns(2)[unfolded same_map_def]
  have tot: "\<exists>w. grid_fold gs ns name R C = Inr w \<and> 0 \<le> w \<and> w < 2 ^ 32" for R C
    using sm gs unfolding keys by (intro grid_fold_total) auto
  define f where "f i j = (SOME w. grid_fold gs ns name (row + int i) (col + int j) = Inr w)" for i j :: nat
  have f: "grid_fold gs ns name (row + int i) (col + int j) = Inr (f i j) \<and> 0 \<le> f i j \<and> f i j < 2 ^ 32" for i j
    using tot [of "row + int i" "col + int j"] by (auto simp: f_def)
  have cell: "region_cell r [a, b] i j = Inr (f i j)" if ij: "i < nat height" "j < nat width" for i j
  proof -
    have "eval_nodes (load_view views [a, b] (int i) (int j) (int k)) ms name = eval_nodes (grid_load gs (row + int i) (col + int j) (int k)) ns name"
      if k: "k \<in> set [0..<nat (gs_extent gs)]" for k
    proof -
      have "load_view views [a, b] (int i) (int j) (int k) v = grid_load gs (row + int i) (col + int j) (int k) v \<and>
          (\<exists>w. grid_load gs (row + int i) (col + int j) (int k) v = Inr w)" if v: "v \<in> keys views" for v
      proof -
        obtain x where x: "map_of (gs_views gs) v = Some x" using v unfolding keys by (metis not_None_eq map_of_eq_None_iff)
        have "load_view views [a, b] (int i) (int j) (int k) v = grid_load gs (row + int i) (col + int j) (int k) v"
          using ij k by (intro tile_load [OF gs t x]) auto
        then show ?thesis using grid_load_total [OF gs v[unfolded keys]] by blast
      qed
      then show ?thesis using sm by blast
    qed
    then have "region_cell r [a, b] i j = grid_fold gs ns name (row + int i) (col + int j)"
      unfolding region_cell_def grid_fold_def req by (intro foldM_cong) simp_all
    then show ?thesis using f by simp
  qed
  have "check_inputs (JList [words_json a, words_json b]) [int (length a), int (length b)] = Inr [a, b]"
    unfolding words_json_def using t gs tile_buffer_words unfolding tile_regions_def Let_def by (intro check_inputs_words) blast+
  then have "reference ?region (JList [words_json a, words_json b]) =
      mapM (\<lambda>(i, k). region_cell r [a, b] i k) (region_cells (nat height) (nat width))"
    unfolding reference_def r c by (simp add: req)
  also have "\<dots> = Inr (map (\<lambda>(i, k). f i k) (region_cells (nat height) (nat width)))"
    using cell by (intro mapM_eq_map) (auto simp: region_cells_def set_grid_list)
  also have "map (\<lambda>(i, k). f i k) (region_cells (nat height) (nat width)) = grid_list (nat height) (nat width) f"
    by (simp add: region_cells_def grid_list_def map_concat comp_def)
  finally show ?thesis using ns(1) f by blast
qed

end
