(* ===== verification/Dag_Correct.thy ===== *)
theory Dag_Correct
  imports Fold_Dag
begin

text \<open>
  What admission of a DAG guarantees (\<open>plan_ok\<close>): links go to earlier jobs and stay inside
  their results, and a slot is not handed out again while a later job, or the designated
  output, still needs it. From this the host model is shown to deliver the meaning of the DAG:
  no version check fails without an injection, and with injections no stale value is ever
  passed on.
\<close>

section \<open>Links\<close>

definition link_ok :: "nat list \<Rightarrow> nat \<Rightarrow> nat option \<times> nat \<times> nat \<times> json \<Rightarrow> bool" where
  "link_ok counts i p = (case p of
     (None, start, len, operand) \<Rightarrow> \<exists>ws. check_input operand (int len) = Inr ws
   | (Some source, start, len, operand) \<Rightarrow> source < i \<and> start + len \<le> counts ! source)"

definition job_ok :: "nat list \<Rightarrow> nat \<Rightarrow> dag_job \<Rightarrow> nat option list \<Rightarrow> nat list \<Rightarrow> nat list \<Rightarrow> bool" where
  "job_ok counts i job sources offsets lengths \<longleftrightarrow>
     length sources = 2 \<and> length offsets = 2 \<and> length (dj_inputs job) = 2 \<and>
     (\<exists>c. compile_region (dj_region job) = Inr c \<and> counts ! i = nat (c ! 1 * c ! 2) \<and>
        lengths = [nat (c ! 5), nat (c ! 6)]) \<and>
     (\<forall>p \<in> set (zip sources (zip offsets (zip lengths (dj_inputs job)))). link_ok counts i p)"

definition planner_ok :: "planner \<Rightarrow> bool" where
  "planner_ok st \<longleftrightarrow>
     (let n = length (pl_jobs st)
      in length (pl_sources st) = n \<and> length (pl_offsets st) = n \<and> length (pl_lengths st) = n \<and>
         length (pl_counts st) = n \<and> length (pl_chunks st) = n \<and> length (pl_last st) = n \<and>
         map snd (pl_names st) = [0..<n] \<and>
         (\<forall>i < n. job_ok (pl_counts st) i (pl_jobs st ! i) (pl_sources st ! i) (pl_offsets st ! i) (pl_lengths st ! i) \<and>
            pl_chunks st ! i = (pl_counts st ! i + 127) div 128 \<and>
            i \<le> pl_last st ! i \<and> pl_last st ! i < n \<and>
            (\<forall>p. Some p \<in> set (pl_sources st ! i) \<longrightarrow> i \<le> pl_last st ! p)))"

lemma empty_planner_ok: "planner_ok empty_planner"
  by (simp add: planner_ok_def empty_planner_def)

lemma planner_names:
  assumes "planner_ok st" "map_of (pl_names st) name = Some i"
  shows "i < length (pl_jobs st)"
proof -
  have "i \<in> set (map snd (pl_names st))" using map_of_SomeD [OF assms(2)] by force
  moreover have "map snd (pl_names st) = [0..<length (pl_jobs st)]" using assms(1) by (simp add: planner_ok_def Let_def)
  ultimately show ?thesis by (simp del: set_map)
qed

lemma config_dims:
  assumes "compile_region j = Inr c"
  shows "0 \<le> c ! 5" "0 \<le> c ! 6" "1 \<le> c ! 1" "c ! 1 \<le> 16" "1 \<le> c ! 2" "c ! 2 \<le> 16"
proof -
  have "config_ok c" using assms by (metis compile_region_Inr)
  then have "check_header c = Inr ()" by (simp add: config_ok_def)
  from header_bounds [OF this] show "0 \<le> c ! 5" "0 \<le> c ! 6" "1 \<le> c ! 1" "c ! 1 \<le> 16" "1 \<le> c ! 2" "c ! 2 \<le> 16" by auto
qed

lemma check_inputs_pair:
  "check_inputs (JList [a, b]) [n, m] = Inr [A, B] \<longleftrightarrow> check_input a n = Inr A \<and> check_input b m = Inr B"
  by (auto simp: check_inputs_def res_simps)

lemma want_int_Inr [res_simps]: "want_int j msg = Inr n \<longleftrightarrow> j = JInt n"
  by (auto simp: want_int_def split: json.splits)

lemma want_int_value_error [simp]: "value_error (want_int j msg)"
  by (auto simp: want_int_def split: json.splits)

text \<open>An accepted operand is a literal or a slice of an earlier result.\<close>

lemma plan_operand_Inr:
  assumes ok: "planner_ok st" and op: "plan_operand ranged st i (operand, len) = Inr (source, start, literal)"
  shows "source = None \<and> start = 0 \<and> literal = operand \<or>
    (\<exists>p. source = Some p \<and> p < length (pl_jobs st) \<and> start + len \<le> pl_counts st ! p \<and> literal = JList (replicate len (JInt 0)))"
proof (cases "\<exists>kv. operand = JDict kv")
  case True
  then obtain kv where kv: "operand = JDict kv" by blast
  from op obtain producer p s e where
    "map_of (pl_names st) producer = Some p" "source = Some p"
    "\<not> (s < 0 \<or> e < 1 \<or> s > int (pl_counts st ! p) \<or> e > int (pl_counts st ! p) - s \<or> int len \<noteq> e)"
    "start = nat s" "literal = JList (replicate len (JInt 0))"
    unfolding plan_operand_def kv Let_def
    by (simp only: res_simps reject_eq prod.case json.case) auto
  with planner_names [OF ok] show ?thesis by auto
next
  case False
  then show ?thesis using op by (cases operand) (auto simp: plan_operand_def)
qed

lemma foldl_touch_last:
  "length (foldl (touch_last i) lasts sources) = length lasts"
  "p < length lasts \<Longrightarrow> foldl (touch_last i) lasts sources ! p =
     (if Some p \<in> set sources then i else lasts ! p)"
  by (induction sources arbitrary: lasts) (auto simp: touch_last_def nth_list_update split: option.splits)

lemma plan_job_Inr:
  assumes "plan_job ranged st j = Inr st'"
  obtains name region inputs config ops out where
    "compile_region region = Inr config" "length inputs = 2"
    "mapM (plan_operand ranged st (length (pl_jobs st))) (zip inputs [nat (config ! 5), nat (config ! 6)]) = Inr ops"
    "reference region (JList (map (\<lambda>(_, _, l). l) ops)) = Inr out"
    "st' = \<lparr>pl_names = pl_names st @ [(name, length (pl_jobs st))],
        pl_jobs = pl_jobs st @ [\<lparr>dj_name = name, dj_region = region, dj_inputs = inputs\<rparr>],
        pl_sources = pl_sources st @ [map fst ops],
        pl_offsets = pl_offsets st @ [map (\<lambda>(_, s, _). s) ops],
        pl_lengths = pl_lengths st @ [[nat (config ! 5), nat (config ! 6)]],
        pl_counts = pl_counts st @ [nat (config ! 1 * config ! 2)],
        pl_chunks = pl_chunks st @ [(nat (config ! 1 * config ! 2) + 127) div 128],
        pl_last = foldl (touch_last (length (pl_jobs st))) (pl_last st) (map fst ops) @ [length (pl_jobs st)]\<rparr>"
  using assms unfolding plan_job_def Let_def
  by (simp only: res_simps reject_eq Inr_inject not_not) blast

lemma job_ok_mono:
  assumes "job_ok counts i job sources offsets lengths" "i < length counts"
  shows "job_ok (counts @ extra) i job sources offsets lengths"
proof -
  have "link_ok (counts @ extra) i p" if "link_ok counts i p" for p
    using that assms(2) by (cases p; cases "fst p") (auto simp: link_ok_def nth_append)
  then show ?thesis using assms unfolding job_ok_def by (simp add: nth_append)
qed

lemma two_elements: "length xs = 2 \<longleftrightarrow> (\<exists>a b. xs = [a, b])"
  by (auto simp: length_Suc_conv eval_nat_numeral)

lemma job_ok_source:
  assumes "job_ok counts i job sources offsets lengths" "Some p \<in> set sources"
  shows "p < i"
  using assms by (auto simp: job_ok_def two_elements link_ok_def)

lemma plan_job_ok:
  assumes ok: "planner_ok st" and small: "length (pl_jobs st) < 8" and step: "plan_job ranged st j = Inr st'"
  shows "planner_ok st'" "length (pl_jobs st') = Suc (length (pl_jobs st))"
proof -
  let ?n = "length (pl_jobs st)"
  obtain name region inputs config ops out where
    config: "compile_region region = Inr config" and inputs: "length inputs = 2"
    and ops: "mapM (plan_operand ranged st ?n) (zip inputs [nat (config ! 5), nat (config ! 6)]) = Inr ops"
    and ref: "reference region (JList (map (\<lambda>(_, _, l). l) ops)) = Inr out"
    and st': "st' = \<lparr>pl_names = pl_names st @ [(name, ?n)],
        pl_jobs = pl_jobs st @ [\<lparr>dj_name = name, dj_region = region, dj_inputs = inputs\<rparr>],
        pl_sources = pl_sources st @ [map fst ops],
        pl_offsets = pl_offsets st @ [map (\<lambda>(_, s, _). s) ops],
        pl_lengths = pl_lengths st @ [[nat (config ! 5), nat (config ! 6)]],
        pl_counts = pl_counts st @ [nat (config ! 1 * config ! 2)],
        pl_chunks = pl_chunks st @ [(nat (config ! 1 * config ! 2) + 127) div 128],
        pl_last = foldl (touch_last ?n) (pl_last st) (map fst ops) @ [?n]\<rparr>"
    using plan_job_Inr [OF step] by metis
  show "length (pl_jobs st') = Suc ?n" by (simp add: st')
  obtain a b where ab: "inputs = [a, b]" using inputs by (auto simp: two_elements)
  obtain sa oa la sb ob lb where op: "ops = [(sa, oa, la), (sb, ob, lb)]"
    and pa: "plan_operand ranged st ?n (a, nat (config ! 5)) = Inr (sa, oa, la)"
    and pb: "plan_operand ranged st ?n (b, nat (config ! 6)) = Inr (sb, ob, lb)"
    using ops unfolding ab by (auto simp: res_simps)
  obtain A B where AB: "check_input la (config ! 5) = Inr A" "check_input lb (config ! 6) = Inr B"
    using reference_inputs [OF ref config] by (auto simp: op check_inputs_pair)
  have links: "link_ok (pl_counts st @ [nat (config ! 1 * config ! 2)]) ?n (sa, oa, nat (config ! 5), a)"
    "link_ok (pl_counts st @ [nat (config ! 1 * config ! 2)]) ?n (sb, ob, nat (config ! 6), b)"
    using plan_operand_Inr [OF ok pa] plan_operand_Inr [OF ok pb] AB config_dims [OF config] ok small
    by (auto simp: link_ok_def planner_ok_def Let_def nth_append)
  have old: "length (pl_sources st) = ?n" "length (pl_offsets st) = ?n" "length (pl_lengths st) = ?n"
    "length (pl_counts st) = ?n" "length (pl_chunks st) = ?n" "length (pl_last st) = ?n" "map snd (pl_names st) = [0..<?n]"
    and job: "\<And>i. i < ?n \<Longrightarrow> job_ok (pl_counts st) i (pl_jobs st ! i) (pl_sources st ! i) (pl_offsets st ! i) (pl_lengths st ! i) \<and>
            pl_chunks st ! i = (pl_counts st ! i + 127) div 128 \<and> i \<le> pl_last st ! i \<and> pl_last st ! i < ?n \<and>
            (\<forall>p. Some p \<in> set (pl_sources st ! i) \<longrightarrow> i \<le> pl_last st ! p)"
    using ok by (auto simp: planner_ok_def Let_def)
  have src: "p < ?n" if "Some p \<in> set (pl_sources st ! i)" "i < ?n" for p i
    using job_ok_source [OF _ that(1)] job [OF that(2)] that(2) by (metis less_trans)
  have new_job: "job_ok (pl_counts st') ?n (pl_jobs st' ! ?n) (pl_sources st' ! ?n) (pl_offsets st' ! ?n) (pl_lengths st' ! ?n)"
    using links config old by (auto simp: job_ok_def st' op ab nth_append)
  have lasts: "pl_last st' ! p = (if Some p \<in> {sa, sb} then ?n else pl_last st ! p)" if "p < ?n" for p
    using that old(6) foldl_touch_last(1) [of ?n "pl_last st" "[sa, sb]"] foldl_touch_last(2) [of p "pl_last st" ?n "[sa, sb]"]
    by (simp add: st' op nth_append)
  have new_last: "pl_last st' ! ?n = ?n" using old(6) by (simp add: st' foldl_touch_last nth_append)
  have new_src: "p < ?n" if "Some p \<in> {sa, sb}" for p
    using that links by (auto simp: link_ok_def)
  have "job_ok (pl_counts st') i (pl_jobs st' ! i) (pl_sources st' ! i) (pl_offsets st' ! i) (pl_lengths st' ! i) \<and>
        pl_chunks st' ! i = (pl_counts st' ! i + 127) div 128 \<and> i \<le> pl_last st' ! i \<and> pl_last st' ! i < Suc ?n \<and>
        (\<forall>p. Some p \<in> set (pl_sources st' ! i) \<longrightarrow> i \<le> pl_last st' ! p)" if "i < Suc ?n" for i
  proof (cases "i = ?n")
    case True
    have "\<forall>p. Some p \<in> set (pl_sources st' ! ?n) \<longrightarrow> ?n \<le> pl_last st' ! p"
      using lasts new_src old(1) by (auto simp: st' op nth_append)
    moreover have "pl_chunks st' ! ?n = (pl_counts st' ! ?n + 127) div 128" using old by (simp add: st' nth_append)
    ultimately show ?thesis using True new_job new_last by simp
  next
    case False
    with that have i: "i < ?n" by simp
    have "\<forall>p. Some p \<in> set (pl_sources st ! i) \<longrightarrow> i \<le> pl_last st' ! p"
      using job [OF i] src [OF _ i] lasts i by auto
    moreover have "job_ok (pl_counts st') i (pl_jobs st ! i) (pl_sources st ! i) (pl_offsets st ! i) (pl_lengths st ! i)"
      using job [OF i] job_ok_mono i old(4) by (simp add: st')
    ultimately show ?thesis
      using job [OF i] lasts [OF i] i old by (auto simp: st' nth_append)
  qed
  moreover have "length (pl_jobs st') = Suc ?n" "length (pl_last st') = Suc ?n" "length (pl_names st') = Suc (length (pl_names st))"
    using old(6) by (simp_all add: st' foldl_touch_last)
  ultimately show "planner_ok st'"
    unfolding planner_ok_def Let_def using old by (simp add: st' foldl_touch_last)
qed

lemma plan_jobs_ok:
  assumes "foldM (plan_job ranged) st js = Inr st'" "planner_ok st" "length (pl_jobs st) + length js \<le> 8"
  shows "planner_ok st' \<and> length (pl_jobs st') = length (pl_jobs st) + length js"
  using assms
proof (induction js arbitrary: st)
  case (Cons j js)
  then obtain st1 where st1: "plan_job ranged st j = Inr st1" "foldM (plan_job ranged) st1 js = Inr st'"
    by (auto elim: rbind_InrE)
  show ?case using Cons.IH [OF st1(2)] plan_job_ok [OF Cons.prems(2) _ st1(1)] Cons.prems(3) by simp
qed simp

section \<open>Slots\<close>

text \<open>
  After \<open>i\<close> jobs: a slot's owner is the last job it was given to, and the slots of a job are
  disjoint from those of every later job up to its last use.
\<close>

definition slots_inv :: "nat list \<Rightarrow> nat list \<Rightarrow> nat \<Rightarrow> nat option list \<times> nat list list \<Rightarrow> bool" where
  "slots_inv chunks lasts i s \<longleftrightarrow> length (fst s) = 8 \<and> length (snd s) = i \<and>
     (\<forall>q < i. distinct (snd s ! q) \<and> set (snd s ! q) \<subseteq> {..<8} \<and> length (snd s ! q) = chunks ! q) \<and>
     (\<forall>p q. p < q \<longrightarrow> q < i \<longrightarrow> q \<le> lasts ! p \<longrightarrow> set (snd s ! p) \<inter> set (snd s ! q) = {}) \<and>
     (\<forall>p < i. \<forall>x \<in> set (snd s ! p). \<exists>o'. fst s ! x = Some o' \<and> p \<le> o' \<and> o' < i \<and> x \<in> set (snd s ! o'))"

lemma foldl_owners:
  "length (foldl (\<lambda>owners slot. owners[slot := Some i]) owners sel) = length owners"
  "x < length owners \<Longrightarrow> foldl (\<lambda>owners slot. owners[slot := Some i]) owners sel ! x
     = (if x \<in> set sel then Some i else owners ! x)"
  by (induction sel arbitrary: owners) (auto simp: nth_list_update)

lemma plan_slots_inv:
  assumes inv: "slots_inv (pl_chunks st) lasts i s" and step: "plan_slots st lasts s i = Inr s'"
  shows "slots_inv (pl_chunks st) lasts (Suc i) s'"
    and "length (remdups (read_chunks (pl_sources st ! i) (pl_offsets st ! i) (pl_lengths st ! i))) + pl_chunks st ! i \<le> 4"
proof -
  define sel where "sel = take (pl_chunks st ! i) (free_slots lasts (fst s) i)"
  have s': "s' = (foldl (\<lambda>owners slot. owners[slot := Some i]) (fst s) sel, snd s @ [sel])"
    and len: "length sel = pl_chunks st ! i"
    and four: "length (remdups (read_chunks (pl_sources st ! i) (pl_offsets st ! i) (pl_lengths st ! i))) + pl_chunks st ! i \<le> 4"
    using step by (auto simp: plan_slots_def Let_def sel_def split: if_splits)
  show "length (remdups (read_chunks (pl_sources st ! i) (pl_offsets st ! i) (pl_lengths st ! i))) + pl_chunks st ! i \<le> 4"
    by (fact four)
  have i: "length (snd s) = i" "length (fst s) = 8" using inv by (auto simp: slots_inv_def)
  have sel8: "set sel \<subseteq> {..<8}" "distinct sel"
    by (auto simp: sel_def free_slots_def dest!: in_set_takeD)
  have free: "case fst s ! x of None \<Rightarrow> True | Some owner \<Rightarrow> lasts ! owner < i" if "x \<in> set sel" for x
    using that by (auto simp: sel_def free_slots_def dest!: in_set_takeD)
  have disj: "set (snd s ! p) \<inter> set sel = {}" if p: "p < i" "i \<le> lasts ! p" for p
  proof (rule ccontr)
    assume "set (snd s ! p) \<inter> set sel \<noteq> {}"
    then obtain x where x: "x \<in> set (snd s ! p)" "x \<in> set sel" by blast
    obtain w where w: "fst s ! x = Some w" "p \<le> w" "w < i" "x \<in> set (snd s ! w)"
      using inv p(1) x(1) unfolding slots_inv_def by blast
    have "lasts ! w < i" using free [OF x(2)] w(1) by simp
    with p(2) have "w \<noteq> p" by auto
    with w(2) have "p < w" by simp
    moreover have "w \<le> lasts ! p" using w(3) p(2) by simp
    ultimately have "set (snd s ! p) \<inter> set (snd s ! w) = {}" using inv w(3) unfolding slots_inv_def by blast
    with x(1) w(4) show False by blast
  qed
  have nth: "snd s' ! q = (if q = i then sel else snd s ! q)" if "q < Suc i" for q
    using that i by (auto simp: s' nth_append)
  have own: "fst s' ! x = (if x \<in> set sel then Some i else fst s ! x)" if "x < 8" for x
    using that i foldl_owners(2) [of x "fst s" i sel] by (simp add: s')
  have A: "distinct (snd s' ! q) \<and> set (snd s' ! q) \<subseteq> {..<8} \<and> length (snd s' ! q) = pl_chunks st ! q" if "q < Suc i" for q
    using nth [OF that] that inv sel8 len by (auto simp: slots_inv_def less_Suc_eq)
  have B: "set (snd s' ! p) \<inter> set (snd s' ! q) = {}" if "p < q" "q < Suc i" "q \<le> lasts ! p" for p q
  proof (cases "q = i")
    case True
    then show ?thesis using nth [of p] nth [of q] that disj [of p] by simp
  next
    case False
    have "set (snd s ! p) \<inter> set (snd s ! q) = {}" using inv that False unfolding slots_inv_def by simp
    then show ?thesis using nth [of p] nth [of q] that False by simp
  qed
  have C: "\<exists>w. fst s' ! x = Some w \<and> p \<le> w \<and> w < Suc i \<and> x \<in> set (snd s' ! w)" if p: "p < Suc i" "x \<in> set (snd s' ! p)" for p x
  proof (cases "x \<in> set sel")
    case True
    then show ?thesis using own [of x] sel8 nth [of i] p(1) by auto
  next
    case False
    then have "p < i" "x \<in> set (snd s ! p)" using p nth [OF p(1)] by (auto split: if_splits)
    then obtain w where "fst s ! x = Some w" "p \<le> w" "w < i" "x \<in> set (snd s ! w)"
      using inv unfolding slots_inv_def by blast
    moreover have "x < 8" using A [OF p(1)] p(2) by auto
    ultimately show ?thesis using False own [of x] nth [of w] by auto
  qed
  show "slots_inv (pl_chunks st) lasts (Suc i) s'"
    unfolding slots_inv_def using A B C i by (simp add: s' foldl_owners)
qed

lemma plan_slots_loop:
  assumes "foldM (plan_slots st lasts) s [i..<n] = Inr s'" "slots_inv (pl_chunks st) lasts i s" "i \<le> n"
  shows "slots_inv (pl_chunks st) lasts n s' \<and>
    (\<forall>q. i \<le> q \<and> q < n \<longrightarrow> length (remdups (read_chunks (pl_sources st ! q) (pl_offsets st ! q) (pl_lengths st ! q))) + pl_chunks st ! q \<le> 4)"
  using assms
proof (induction "n - i" arbitrary: i s)
  case (Suc d)
  then have less: "i < n" by simp
  then obtain s1 where s1: "plan_slots st lasts s i = Inr s1" "foldM (plan_slots st lasts) s1 [Suc i..<n] = Inr s'"
    using Suc.prems(1) by (auto simp: upt_conv_Cons elim: rbind_InrE)
  note inv1 = plan_slots_inv [OF Suc.prems(2) s1(1)]
  have rest: "slots_inv (pl_chunks st) lasts n s' \<and>
    (\<forall>q. Suc i \<le> q \<and> q < n \<longrightarrow> length (remdups (read_chunks (pl_sources st ! q) (pl_offsets st ! q) (pl_lengths st ! q))) + pl_chunks st ! q \<le> 4)"
    using Suc.hyps(1) [of "Suc i" s1] Suc.hyps(2) less s1(2) inv1(1) by simp
  moreover have "Suc i \<le> q" if "i \<le> q" "q \<noteq> i" for q using that by simp
  ultimately show ?case using inv1(2) by blast
qed auto

definition plan_ok :: "dag_plan \<Rightarrow> bool" where
  "plan_ok plan \<longleftrightarrow>
     (let n = length (dp_jobs plan)
      in 1 \<le> n \<and> n \<le> 8 \<and> dp_output plan < n \<and> n \<le> dp_last plan ! dp_output plan \<and> length (dp_slots plan) = n \<and>
         (\<exists>counts. length counts = n \<and> (\<forall>i < n.
            job_ok counts i (dp_jobs plan ! i) (dp_sources plan ! i) (dp_offsets plan ! i) (dp_lengths plan ! i) \<and>
            (\<forall>p. Some p \<in> set (dp_sources plan ! i) \<longrightarrow> i \<le> dp_last plan ! p) \<and>
            distinct (dp_slots plan ! i) \<and> set (dp_slots plan ! i) \<subseteq> {..<8} \<and>
            length (dp_slots plan ! i) = (counts ! i + 127) div 128 \<and>
            card (read_slots plan i) + length (dp_slots plan ! i) \<le> 4 \<and>
            (\<forall>p < i. i \<le> dp_last plan ! p \<longrightarrow> set (dp_slots plan ! p) \<inter> set (dp_slots plan ! i) = {}))))"

lemma compile_plan_Inr:
  assumes "compile_plan session = Inr plan"
  obtains jobs ranged st out s where "1 \<le> length jobs" "length jobs \<le> 8" "foldM (plan_job ranged) empty_planner jobs = Inr st"
    "map_of (pl_names st) out = Some (dp_output plan)"
    "foldM (plan_slots st ((pl_last st)[dp_output plan := length (pl_chunks st)])) (replicate 8 None, []) [0..<length (pl_jobs st)] = Inr s"
    "plan = \<lparr>dp_jobs = pl_jobs st, dp_sources = pl_sources st, dp_offsets = pl_offsets st, dp_lengths = pl_lengths st,
        dp_chunks = pl_chunks st, dp_last = (pl_last st)[dp_output plan := length (pl_chunks st)], dp_slots = snd s,
        dp_output = dp_output plan, dp_output_name = out\<rparr>"
proof -
  from assms obtain d jobs st out outp s where
    parts: "\<not> (length jobs < 1 \<or> 8 < length jobs)"
    "foldM (plan_job (map_of d ''schema'' = Some (JStr ''raveil.fold-dag.v2''))) empty_planner jobs = Inr st"
    "map_of (pl_names st) out = Some outp"
    "foldM (plan_slots st ((pl_last st)[outp := length (pl_chunks st)])) (replicate 8 None, []) [0..<length (pl_jobs st)] = Inr s"
    "\<lparr>dp_jobs = pl_jobs st, dp_sources = pl_sources st, dp_offsets = pl_offsets st, dp_lengths = pl_lengths st,
        dp_chunks = pl_chunks st, dp_last = (pl_last st)[outp := length (pl_chunks st)], dp_slots = snd s,
        dp_output = outp, dp_output_name = out\<rparr> = plan"
    unfolding compile_plan_def Let_def by (simp only: res_simps reject_eq Inr_inject) blast
  from parts(5) have "dp_output plan = outp" by auto
  with parts show ?thesis by (intro that [of jobs _ st out s]) (auto simp: Suc_le_eq)
qed

lemma card_read_slots:
  "card (read_slots plan i) \<le> length (remdups (read_chunks (dp_sources plan ! i) (dp_offsets plan ! i) (dp_lengths plan ! i)))"
proof -
  have "read_slots plan i = (\<lambda>(source, chunk). dp_slots plan ! source ! chunk) `
      set (remdups (read_chunks (dp_sources plan ! i) (dp_offsets plan ! i) (dp_lengths plan ! i)))"
    by (simp add: read_slots_def)
  then show ?thesis by (metis card_image_le card_length finite_set le_trans)
qed

lemma compile_plan_ok:
  assumes "compile_plan session = Inr plan"
  shows "plan_ok plan"
proof -
  obtain jobs ranged st out s where js: "1 \<le> length jobs" "length jobs \<le> 8" "foldM (plan_job ranged) empty_planner jobs = Inr st"
    and out: "map_of (pl_names st) out = Some (dp_output plan)"
    and slots: "foldM (plan_slots st ((pl_last st)[dp_output plan := length (pl_chunks st)])) (replicate 8 None, []) [0..<length (pl_jobs st)] = Inr s"
    and plan: "plan = \<lparr>dp_jobs = pl_jobs st, dp_sources = pl_sources st, dp_offsets = pl_offsets st, dp_lengths = pl_lengths st,
        dp_chunks = pl_chunks st, dp_last = (pl_last st)[dp_output plan := length (pl_chunks st)], dp_slots = snd s,
        dp_output = dp_output plan, dp_output_name = out\<rparr>"
    using compile_plan_Inr [OF assms] by metis
  let ?n = "length (pl_jobs st)" let ?out = "dp_output plan" let ?last = "(pl_last st)[?out := length (pl_chunks st)]"
  have ok: "planner_ok st" "?n = length jobs"
    using plan_jobs_ok [OF js(3) empty_planner_ok] js(2) by (simp_all add: empty_planner_def)
  have less: "?out < ?n" using planner_names [OF ok(1) out] .
  have lens: "length (pl_last st) = ?n" "length (pl_chunks st) = ?n" "length (pl_counts st) = ?n"
    and job: "\<And>i. i < ?n \<Longrightarrow> job_ok (pl_counts st) i (pl_jobs st ! i) (pl_sources st ! i) (pl_offsets st ! i) (pl_lengths st ! i) \<and>
      pl_chunks st ! i = (pl_counts st ! i + 127) div 128 \<and> (\<forall>p. Some p \<in> set (pl_sources st ! i) \<longrightarrow> i \<le> pl_last st ! p)"
    using ok(1) by (auto simp: planner_ok_def Let_def)
  have "slots_inv (pl_chunks st) ?last 0 (replicate 8 None, [])" by (simp add: slots_inv_def)
  from plan_slots_loop [OF slots this]
  have inv: "slots_inv (pl_chunks st) ?last ?n s"
    and four: "\<And>q. q < ?n \<Longrightarrow> length (remdups (read_chunks (pl_sources st ! q) (pl_offsets st ! q) (pl_lengths st ! q))) + pl_chunks st ! q \<le> 4"
    by auto
  have fields: "dp_jobs plan = pl_jobs st" "dp_sources plan = pl_sources st" "dp_offsets plan = pl_offsets st"
    "dp_lengths plan = pl_lengths st" "dp_last plan = ?last" "dp_slots plan = snd s"
    by (subst plan, simp)+
  have last_ge: "i \<le> ?last ! p" if "i < ?n" "Some p \<in> set (pl_sources st ! i)" for i p
    using job [OF that(1)] that lens less by (cases "p = ?out") (auto simp: nth_list_update)
  have per: "\<forall>i < ?n. job_ok (pl_counts st) i (pl_jobs st ! i) (dp_sources plan ! i) (dp_offsets plan ! i) (dp_lengths plan ! i) \<and>
        (\<forall>p. Some p \<in> set (dp_sources plan ! i) \<longrightarrow> i \<le> dp_last plan ! p) \<and>
        distinct (dp_slots plan ! i) \<and> set (dp_slots plan ! i) \<subseteq> {..<8} \<and>
        length (dp_slots plan ! i) = (pl_counts st ! i + 127) div 128 \<and>
        card (read_slots plan i) + length (dp_slots plan ! i) \<le> 4 \<and>
        (\<forall>p < i. i \<le> dp_last plan ! p \<longrightarrow> set (dp_slots plan ! p) \<inter> set (dp_slots plan ! i) = {})"
  proof (intro allI impI)
    fix i assume i: "i < ?n"
    have sl: "distinct (snd s ! i)" "set (snd s ! i) \<subseteq> {..<8}" "length (snd s ! i) = pl_chunks st ! i"
      "\<And>p. p < i \<Longrightarrow> i \<le> ?last ! p \<Longrightarrow> set (snd s ! p) \<inter> set (snd s ! i) = {}"
      using inv i unfolding slots_inv_def by blast+
    show "job_ok (pl_counts st) i (pl_jobs st ! i) (dp_sources plan ! i) (dp_offsets plan ! i) (dp_lengths plan ! i) \<and>
        (\<forall>p. Some p \<in> set (dp_sources plan ! i) \<longrightarrow> i \<le> dp_last plan ! p) \<and>
        distinct (dp_slots plan ! i) \<and> set (dp_slots plan ! i) \<subseteq> {..<8} \<and>
        length (dp_slots plan ! i) = (pl_counts st ! i + 127) div 128 \<and>
        card (read_slots plan i) + length (dp_slots plan ! i) \<le> 4 \<and>
        (\<forall>p < i. i \<le> dp_last plan ! p \<longrightarrow> set (dp_slots plan ! p) \<inter> set (dp_slots plan ! i) = {})"
      using job [OF i] last_ge [OF i] sl four [OF i] card_read_slots [of plan i] by (simp add: fields)
  qed
  have "length (dp_slots plan) = ?n" using inv by (simp add: slots_inv_def fields)
  moreover have "?n \<le> dp_last plan ! ?out" using less lens by (simp add: fields)
  moreover have "1 \<le> ?n" "?n \<le> 8" using js ok(2) by simp_all
  ultimately show ?thesis
    unfolding plan_ok_def Let_def fields(1) using per less lens(3) by blast
qed

section \<open>The meaning is defined\<close>

definition value_ok :: "nat \<Rightarrow> int list \<Rightarrow> bool" where
  "value_ok n w \<longleftrightarrow> length w = n \<and> (\<forall>x \<in> set w. 0 \<le> x \<and> x < 2 ^ 32)"

lemma check_input_words:
  "value_ok n w \<Longrightarrow> check_input (JList (map JInt w)) (int n) = Inr w"
proof -
  assume w: "value_ok n w"
  have "mapM (\<lambda>x. int_in x 0 MASK) (map JInt w) = Inr w"
    using w by (subst mapM_int_in) (auto simp: value_ok_def MASK_def)
  with w show ?thesis by (simp add: check_input_def value_ok_def)
qed

lemma operand_checked:
  assumes "link_ok counts i (source, start, len, operand)" "\<And>p. p < i \<Longrightarrow> value_ok (counts ! p) (words p)"
  shows "\<exists>A. check_input (operand_input words (source, start, len, operand)) (int len) = Inr A"
proof (cases source)
  case (Some p)
  then have "p < i" "start + len \<le> counts ! p" using assms(1) by (auto simp: link_ok_def)
  then have "value_ok len (take len (drop start (words p)))"
    using assms(2) [of p] by (auto simp: value_ok_def dest!: in_set_takeD in_set_dropD)
  then show ?thesis using Some check_input_words by (auto simp: operand_input_def)
qed (use assms(1) in \<open>simp add: link_ok_def operand_input_def\<close>)

lemma job_runs:
  assumes job: "job_ok counts i job sources offsets lengths" and vals: "\<And>p. p < i \<Longrightarrow> value_ok (counts ! p) (words p)"
  shows "\<exists>out. reference (dj_region job) (JList (map (operand_input words)
      (zip sources (zip offsets (zip lengths (dj_inputs job)))))) = Inr out \<and> value_ok (counts ! i) out"
proof -
  obtain c where c: "compile_region (dj_region job) = Inr c" "counts ! i = nat (c ! 1 * c ! 2)" "lengths = [nat (c ! 5), nat (c ! 6)]"
    and two: "length sources = 2" "length offsets = 2" "length (dj_inputs job) = 2"
    and links: "\<forall>p \<in> set (zip sources (zip offsets (zip lengths (dj_inputs job)))). link_ok counts i p"
    using job by (auto simp: job_ok_def)
  obtain sa sb oa ob a b where l: "sources = [sa, sb]" "offsets = [oa, ob]" "dj_inputs job = [a, b]"
    using two by (auto simp: two_elements)
  obtain A where A: "check_input (operand_input words (sa, oa, nat (c ! 5), a)) (c ! 5) = Inr A"
    using operand_checked [of counts i sa oa "nat (c ! 5)" a words] links vals config_dims [OF c(1)] by (auto simp: l c(3))
  obtain B where B: "check_input (operand_input words (sb, ob, nat (c ! 6), b)) (c ! 6) = Inr B"
    using operand_checked [of counts i sb ob "nat (c ! 6)" b words] links vals config_dims [OF c(1)] by (auto simp: l c(3))
  have "check_inputs (JList (map (operand_input words) (zip sources (zip offsets (zip lengths (dj_inputs job)))))) [c ! 5, c ! 6] = Inr [A, B]"
    using A B by (simp add: l c(3) check_inputs_pair)
  from region_runs [OF c(1) this] show ?thesis by (metis c(2) value_ok_def)
qed

text \<open>The values of the first \<open>k\<close> jobs.\<close>

definition vals_ok :: "dag_plan \<Rightarrow> nat list \<Rightarrow> nat \<Rightarrow> int list list \<Rightarrow> bool" where
  "vals_ok plan counts k vals \<longleftrightarrow> length vals = k \<and> (\<forall>i < k. value_ok (counts ! i) (vals ! i) \<and>
     reference (dj_region (dp_jobs plan ! i)) (JList (map (operand_input (\<lambda>p. vals ! p)) (job_operands plan i))) = Inr (vals ! i))"

lemma operands_cong:
  assumes "job_ok counts i (dp_jobs plan ! i) (dp_sources plan ! i) (dp_offsets plan ! i) (dp_lengths plan ! i)"
    and "\<And>p. Some p \<in> set (dp_sources plan ! i) \<Longrightarrow> p < i \<Longrightarrow> words p = words' p"
  shows "map (operand_input words) (job_operands plan i) = map (operand_input words') (job_operands plan i)"
proof (rule map_cong [OF refl])
  fix x assume x: "x \<in> set (job_operands plan i)"
  then have "link_ok counts i x" using assms(1) by (auto simp: job_ok_def job_operands_def)
  moreover have "fst x \<in> set (dp_sources plan ! i)"
    using x unfolding job_operands_def by (metis prod.collapse set_zip_leftD)
  ultimately show "operand_input words x = operand_input words' x"
    using assms(2) by (cases x; cases "fst x") (auto simp: link_ok_def operand_input_def)
qed

lemma dag_values_prefix:
  assumes "\<forall>i < n. job_ok counts i (dp_jobs plan ! i) (dp_sources plan ! i) (dp_offsets plan ! i) (dp_lengths plan ! i)" "k \<le> n"
  shows "\<exists>vals. foldM (\<lambda>vals i. rbind (reference (dj_region (dp_jobs plan ! i))
                              (JList (map (operand_input (\<lambda>p. vals ! p)) (job_operands plan i))))
                       (\<lambda>v. Inr (vals @ [v]))) [] [0..<k] = Inr vals \<and> vals_ok plan counts k vals"
  using assms(2)
proof (induction k)
  case 0
  then show ?case by (simp add: vals_ok_def)
next
  case (Suc k)
  then obtain vals where vals: "foldM (\<lambda>vals i. rbind (reference (dj_region (dp_jobs plan ! i))
                              (JList (map (operand_input (\<lambda>p. vals ! p)) (job_operands plan i))))
                       (\<lambda>v. Inr (vals @ [v]))) [] [0..<k] = Inr vals" "vals_ok plan counts k vals" by auto
  have job: "job_ok counts k (dp_jobs plan ! k) (dp_sources plan ! k) (dp_offsets plan ! k) (dp_lengths plan ! k)"
    using assms(1) Suc.prems by simp
  obtain out where out: "reference (dj_region (dp_jobs plan ! k)) (JList (map (operand_input (\<lambda>p. vals ! p)) (job_operands plan k))) = Inr out"
    "value_ok (counts ! k) out"
    using job_runs [OF job, of "\<lambda>p. vals ! p"] vals(2) by (auto simp: vals_ok_def job_operands_def)
  have len: "length vals = k" using vals(2) by (simp add: vals_ok_def)
  have same: "map (operand_input (\<lambda>p. (vals @ [out]) ! p)) (job_operands plan i) = map (operand_input (\<lambda>p. vals ! p)) (job_operands plan i)"
    if "i < Suc k" for i
    using assms(1) Suc.prems that len by (intro operands_cong [where counts = counts]) (auto simp: nth_append)
  have "value_ok (counts ! i) ((vals @ [out]) ! i) \<and> reference (dj_region (dp_jobs plan ! i))
      (JList (map (operand_input (\<lambda>p. (vals @ [out]) ! p)) (job_operands plan i))) = Inr ((vals @ [out]) ! i)" if "i < Suc k" for i
    unfolding same [OF that] using vals(2) out len that by (cases "i = k") (auto simp: vals_ok_def nth_append)
  then have "vals_ok plan counts (Suc k) (vals @ [out])" using len by (simp add: vals_ok_def)
  then show ?case using vals(1) out(1) by (auto simp: foldM_append)
qed

lemma plan_okE:
  assumes "plan_ok plan"
  obtains counts where "1 \<le> length (dp_jobs plan)" "length (dp_jobs plan) \<le> 8" "dp_output plan < length (dp_jobs plan)"
    "length (dp_jobs plan) \<le> dp_last plan ! dp_output plan" "length (dp_slots plan) = length (dp_jobs plan)"
    "\<And>i. i < length (dp_jobs plan) \<Longrightarrow> job_ok counts i (dp_jobs plan ! i) (dp_sources plan ! i) (dp_offsets plan ! i) (dp_lengths plan ! i)"
    "\<And>i p. i < length (dp_jobs plan) \<Longrightarrow> Some p \<in> set (dp_sources plan ! i) \<Longrightarrow> i \<le> dp_last plan ! p"
    "\<And>i. i < length (dp_jobs plan) \<Longrightarrow> distinct (dp_slots plan ! i) \<and> set (dp_slots plan ! i) \<subseteq> {..<8} \<and>
        length (dp_slots plan ! i) = (counts ! i + 127) div 128"
    "\<And>i p. i < length (dp_jobs plan) \<Longrightarrow> p < i \<Longrightarrow> i \<le> dp_last plan ! p \<Longrightarrow> set (dp_slots plan ! p) \<inter> set (dp_slots plan ! i) = {}"
proof -
  note N = assms [unfolded plan_ok_def Let_def]
  from N obtain counts where B: "\<forall>i < length (dp_jobs plan).
            job_ok counts i (dp_jobs plan ! i) (dp_sources plan ! i) (dp_offsets plan ! i) (dp_lengths plan ! i) \<and>
            (\<forall>p. Some p \<in> set (dp_sources plan ! i) \<longrightarrow> i \<le> dp_last plan ! p) \<and>
            distinct (dp_slots plan ! i) \<and> set (dp_slots plan ! i) \<subseteq> {..<8} \<and>
            length (dp_slots plan ! i) = (counts ! i + 127) div 128 \<and>
            card (read_slots plan i) + length (dp_slots plan ! i) \<le> 4 \<and>
            (\<forall>p < i. i \<le> dp_last plan ! p \<longrightarrow> set (dp_slots plan ! p) \<inter> set (dp_slots plan ! i) = {})" by blast
  show ?thesis
    by (rule that [of counts]; (insert N)?; (insert B)?; blast)
qed

section \<open>The host model\<close>

definition bank_chunks :: "int list \<Rightarrow> nat \<Rightarrow> int list list" where
  "bank_chunks w k = map (\<lambda>j. take 128 (drop (128 * j) (w @ replicate (128 * k - length w) 0))) [0..<k]"

lemma commit_slots:
  "let st' = foldl (commit_slot padded) st (zip [k..<k + length slots] slots)
   in length (ds_versions st') = length (ds_versions st) \<and> length (ds_banks st') = length (ds_banks st) \<and>
      ds_producers st' = ds_producers st \<and>
      (\<forall>x. x \<notin> set slots \<longrightarrow> ds_versions st' ! x = ds_versions st ! x \<and> ds_banks st' ! x = ds_banks st ! x) \<and>
      (distinct slots \<longrightarrow> set slots \<subseteq> {..<length (ds_banks st)} \<longrightarrow>
       map (\<lambda>s. ds_banks st' ! s) slots = map (\<lambda>j. take 128 (drop (128 * j) padded)) [k..<k + length slots])"
proof (induction slots arbitrary: st k)
  case (Cons y slots)
  let ?st1 = "commit_slot padded st (k, y)"
  define st' where "st' = foldl (commit_slot padded) ?st1 (zip [Suc k..<Suc k + length slots] slots)"
  have step: "foldl (commit_slot padded) st (zip [k..<k + length (y # slots)] (y # slots)) = st'"
    by (simp add: upt_conv_Cons st'_def del: upt_Suc)
  have upt: "[k..<k + length (y # slots)] = k # [Suc k..<Suc k + length slots]" by (simp add: upt_conv_Cons del: upt_Suc)
  have st1: "length (ds_versions ?st1) = length (ds_versions st)" "length (ds_banks ?st1) = length (ds_banks st)"
    "ds_producers ?st1 = ds_producers st"
    "\<And>x. x \<noteq> y \<Longrightarrow> ds_versions ?st1 ! x = ds_versions st ! x \<and> ds_banks ?st1 ! x = ds_banks st ! x"
    "y < length (ds_banks st) \<Longrightarrow> ds_banks ?st1 ! y = take 128 (drop (128 * k) padded)"
    by (simp_all add: commit_slot_def)
  have IH: "length (ds_versions st') = length (ds_versions ?st1)" "length (ds_banks st') = length (ds_banks ?st1)"
    "ds_producers st' = ds_producers ?st1"
    "\<And>x. x \<notin> set slots \<Longrightarrow> ds_versions st' ! x = ds_versions ?st1 ! x \<and> ds_banks st' ! x = ds_banks ?st1 ! x"
    "distinct slots \<Longrightarrow> set slots \<subseteq> {..<length (ds_banks ?st1)} \<Longrightarrow>
       map (\<lambda>s. ds_banks st' ! s) slots = map (\<lambda>j. take 128 (drop (128 * j) padded)) [Suc k..<Suc k + length slots]"
    using Cons.IH [where st = ?st1 and k = "Suc k"] unfolding Let_def st'_def by blast+
  show ?case
    unfolding Let_def step unfolding upt using IH st1 by (simp del: upt_Suc)
qed simp

lemma commit_all:
  fixes padded :: "int list"
  assumes "length (ds_banks st) = 8" "distinct slots" "set slots \<subseteq> {..<8}"
  defines "st' \<equiv> foldl (commit_slot padded) st (zip [0..<length slots] slots)"
  shows "length (ds_versions st') = length (ds_versions st)" "length (ds_banks st') = 8" "ds_producers st' = ds_producers st"
    "\<And>x. x \<notin> set slots \<Longrightarrow> ds_versions st' ! x = ds_versions st ! x \<and> ds_banks st' ! x = ds_banks st ! x"
    "map (\<lambda>s. ds_banks st' ! s) slots = map (\<lambda>j. take 128 (drop (128 * j) padded)) [0..<length slots]"
  using commit_slots [of padded st 0 slots] assms unfolding Let_def by simp_all

text \<open>
  After \<open>i\<close> jobs every saved result is the job's value; its versions are current and its banks
  hold the zero-padded words as long as no later job was given one of its slots.
\<close>

definition run_inv :: "dag_plan \<Rightarrow> int list list \<Rightarrow> nat \<Rightarrow> dag_state \<Rightarrow> bool" where
  "run_inv plan vals i st \<longleftrightarrow> length (ds_versions st) = 8 \<and> length (ds_banks st) = 8 \<and>
     (\<forall>p saved w. ds_producers st p = Some (saved, w) \<longrightarrow> p < i \<and> w = vals ! p \<and>
        ((\<forall>q. p < q \<and> q < i \<longrightarrow> set (dp_slots plan ! p) \<inter> set (dp_slots plan ! q) = {}) \<longrightarrow>
          saved = map (\<lambda>s. ds_versions st ! s) (dp_slots plan ! p) \<and>
          map (\<lambda>s. ds_banks st ! s) (dp_slots plan ! p) = bank_chunks w (length (dp_slots plan ! p))))"

lemma initial_run_inv: "run_inv plan vals 0 initial_state"
  by (simp add: run_inv_def initial_state_def)

lemma commit_run_inv:
  assumes inv: "run_inv plan vals i st" and slots: "distinct (dp_slots plan ! i)" "set (dp_slots plan ! i) \<subseteq> {..<8}"
  shows "\<exists>st'. dag_commit plan st i (slot_mask (set (dp_slots plan ! i))) (vals ! i) success = Inr st' \<and>
    run_inv plan vals (Suc i) st' \<and>
    (\<forall>p. ds_producers st p \<noteq> None \<or> success \<and> p = i \<longrightarrow> ds_producers st' p \<noteq> None)"
proof (cases success)
  case False
  have "run_inv plan vals (Suc i) st" using inv unfolding run_inv_def by (blast intro: less_SucI)
  with False show ?thesis by (simp add: dag_commit_def)
next
  case True
  let ?slots = "dp_slots plan ! i"
  define padded where "padded = vals ! i @ replicate (128 * length ?slots - length (vals ! i)) 0"
  define st1 where "st1 = foldl (commit_slot padded) st (zip [0..<length ?slots] ?slots)"
  note c = commit_all [OF _ slots, where st = st and padded = padded, folded st1_def]
  have lens: "length (ds_banks st) = 8" "length (ds_versions st) = 8" using inv by (auto simp: run_inv_def)
  define st' where "st' = st1\<lparr>ds_producers := (ds_producers st1)(i \<mapsto> (map (\<lambda>s. ds_versions st1 ! s) ?slots, vals ! i))\<rparr>"
  have commit: "dag_commit plan st i (slot_mask (set ?slots)) (vals ! i) success = Inr st'"
    using True by (simp add: dag_commit_def Let_def st'_def st1_def padded_def)
  have "p < Suc i \<and> w = vals ! p \<and>
        ((\<forall>q. p < q \<and> q < Suc i \<longrightarrow> set (dp_slots plan ! p) \<inter> set (dp_slots plan ! q) = {}) \<longrightarrow>
          saved = map (\<lambda>s. ds_versions st' ! s) (dp_slots plan ! p) \<and>
          map (\<lambda>s. ds_banks st' ! s) (dp_slots plan ! p) = bank_chunks w (length (dp_slots plan ! p)))"
    if p: "ds_producers st' p = Some (saved, w)" for p saved w
  proof (cases "p = i")
    case True
    then show ?thesis using p c(5) [OF lens(1)] by (auto simp: st'_def bank_chunks_def padded_def)
  next
    case False
    then have old: "ds_producers st p = Some (saved, w)" using p c(3) [OF lens(1)] by (simp add: st'_def)
    then have less: "p < i" and w: "w = vals ! p"
      and keep: "(\<forall>q. p < q \<and> q < i \<longrightarrow> set (dp_slots plan ! p) \<inter> set (dp_slots plan ! q) = {}) \<Longrightarrow>
          saved = map (\<lambda>s. ds_versions st ! s) (dp_slots plan ! p) \<and>
          map (\<lambda>s. ds_banks st ! s) (dp_slots plan ! p) = bank_chunks w (length (dp_slots plan ! p))"
      using inv unfolding run_inv_def by blast+
    have "saved = map (\<lambda>s. ds_versions st' ! s) (dp_slots plan ! p) \<and>
          map (\<lambda>s. ds_banks st' ! s) (dp_slots plan ! p) = bank_chunks w (length (dp_slots plan ! p))"
      if d: "\<forall>q. p < q \<and> q < Suc i \<longrightarrow> set (dp_slots plan ! p) \<inter> set (dp_slots plan ! q) = {}"
    proof -
      have "x \<notin> set ?slots" if "x \<in> set (dp_slots plan ! p)" for x using d less that by blast
      then have "map (\<lambda>s. ds_versions st' ! s) (dp_slots plan ! p) = map (\<lambda>s. ds_versions st ! s) (dp_slots plan ! p)"
        "map (\<lambda>s. ds_banks st' ! s) (dp_slots plan ! p) = map (\<lambda>s. ds_banks st ! s) (dp_slots plan ! p)"
        using c(4) [OF lens(1)] by (simp_all add: st'_def)
      moreover have "\<forall>q. p < q \<and> q < i \<longrightarrow> set (dp_slots plan ! p) \<inter> set (dp_slots plan ! q) = {}" using d by simp
      ultimately show ?thesis using keep by metis
    qed
    with less w show ?thesis by simp
  qed
  moreover have "length (ds_versions st') = 8" "length (ds_banks st') = 8" using c(1,2) [OF lens(1)] lens by (simp_all add: st'_def)
  ultimately have "run_inv plan vals (Suc i) st'" unfolding run_inv_def by blast
  moreover have "\<forall>p. ds_producers st p \<noteq> None \<or> success \<and> p = i \<longrightarrow> ds_producers st' p \<noteq> None"
    using c(3) [OF lens(1)] by (auto simp: st'_def)
  ultimately show ?thesis using commit by blast
qed

text \<open>A saved result none of whose slots was given away is available and holds its value.\<close>

lemma run_inv_available:
  assumes inv: "run_inv plan vals i st" and "ds_producers st p \<noteq> None"
    and "\<And>q. p < q \<Longrightarrow> q < i \<Longrightarrow> set (dp_slots plan ! p) \<inter> set (dp_slots plan ! q) = {}"
  shows "available plan st p"
proof -
  obtain saved w where p: "ds_producers st p = Some (saved, w)" using assms(2) by auto
  then have "saved = map (\<lambda>s. ds_versions st ! s) (dp_slots plan ! p)"
    using inv assms(3) unfolding run_inv_def by blast
  with p show ?thesis by (simp add: available_def)
qed

lemma available_value:
  assumes "run_inv plan vals i st" "available plan st p"
  shows "p < i" "snd (the (ds_producers st p)) = vals ! p"
  using assms by (auto simp: available_def run_inv_def split: option.splits)

lemma bad_source_None: "bad_source plan st i = None \<longleftrightarrow> (\<forall>p. Some p \<in> set (dp_sources plan ! i) \<longrightarrow> available plan st p)"
proof -
  have "p \<in> set (List.map_filter id xs) \<longleftrightarrow> Some p \<in> set xs" for p :: nat and xs
    by (induction xs) (auto simp: map_filter_simps split: option.splits)
  then show ?thesis by (auto simp: bad_source_def find_None_iff)
qed

lemma resolve_inputs:
  assumes inv: "run_inv plan vals i st"
    and job: "job_ok counts i (dp_jobs plan ! i) (dp_sources plan ! i) (dp_offsets plan ! i) (dp_lengths plan ! i)"
    and res: "resolve plan st i = Some (inputs, r, d)"
  shows "inputs = map (operand_input (\<lambda>p. vals ! p)) (job_operands plan i)" "d = slot_mask (set (dp_slots plan ! i))"
proof -
  have none: "bad_source plan st i = None" using res by (auto simp: resolve_def split: if_splits)
  have "available plan st p" if "Some p \<in> set (dp_sources plan ! i)" for p
    using none that by (auto simp: bad_source_None)
  then have "map (operand_input (\<lambda>p. snd (the (ds_producers st p)))) (job_operands plan i)
      = map (operand_input (\<lambda>p. vals ! p)) (job_operands plan i)"
    using available_value(2) [OF inv] by (intro operands_cong [OF job]) auto
  then show "inputs = map (operand_input (\<lambda>p. vals ! p)) (job_operands plan i)" "d = slot_mask (set (dp_slots plan ! i))"
    using res by (auto simp: resolve_def split: if_splits)
qed

lemma dag_loop_sound:
  assumes plan: "plan_ok plan"
    and job: "\<And>i. i < length (dp_jobs plan) \<Longrightarrow> job_ok counts i (dp_jobs plan ! i) (dp_sources plan ! i) (dp_offsets plan ! i) (dp_lengths plan ! i)"
    and vals: "vals_ok plan counts (length (dp_jobs plan)) vals"
  shows "run_inv plan vals i st \<Longrightarrow> i + length injections \<le> length (dp_jobs plan) \<Longrightarrow>
    \<exists>st' k h. dag_loop plan st i injections = Inr (st', k, h) \<and> i \<le> k \<and> k \<le> i + length injections \<and> run_inv plan vals k st' \<and>
      (h = 0 \<longleftrightarrow> k = i + length injections \<and> h \<noteq> 1) \<and> h \<in> {0, 1, 3}"
proof (induction injections arbitrary: st i)
  case Nil
  then show ?case by auto
next
  case (Cons inj rest)
  have i: "i < length (dp_jobs plan)" using Cons.prems(2) by simp
  show ?case
  proof (cases "resolve plan st i")
    case None
    then show ?thesis using Cons.prems(1) by auto
  next
    case (Some r)
    obtain inputs src d where r: "r = (inputs, src, d)" by (cases r)
    have inp: "inputs = map (operand_input (\<lambda>p. vals ! p)) (job_operands plan i)" "d = slot_mask (set (dp_slots plan ! i))"
      using resolve_inputs [OF Cons.prems(1) job [OF i]] Some r by auto
    have ref: "reference (dj_region (dp_jobs plan ! i)) (JList inputs) = Inr (vals ! i)"
      using vals i by (simp add: inp(1) vals_ok_def)
    have "distinct (dp_slots plan ! i)" "set (dp_slots plan ! i) \<subseteq> {..<8}"
      using plan_okE [OF plan] i by metis+
    from commit_run_inv [OF Cons.prems(1) this, of "inj = ''none''"]
    obtain st' where st': "dag_commit plan st i d (vals ! i) (inj = ''none'') = Inr st'" "run_inv plan vals (Suc i) st'"
      by (auto simp: inp(2))
    show ?thesis
    proof (cases "inj \<in> set BROKEN_FRAME")
      case True
      then show ?thesis using Some r ref st' by simp
    next
      case False
      then show ?thesis using Cons.IH [OF st'(2)] Cons.prems(2) Some r ref st'(1) by auto
    qed
  qed
qed

lemma dag_loop_complete:
  assumes plan: "plan_ok plan"
    and job: "\<And>i. i < length (dp_jobs plan) \<Longrightarrow> job_ok counts i (dp_jobs plan ! i) (dp_sources plan ! i) (dp_offsets plan ! i) (dp_lengths plan ! i)"
    and vals: "vals_ok plan counts (length (dp_jobs plan)) vals"
  shows "run_inv plan vals i st \<Longrightarrow> (\<And>p. p < i \<Longrightarrow> ds_producers st p \<noteq> None) \<Longrightarrow> i + m = length (dp_jobs plan) \<Longrightarrow>
    \<exists>st'. dag_loop plan st i (replicate m ''none'') = Inr (st', length (dp_jobs plan), 0) \<and>
      run_inv plan vals (length (dp_jobs plan)) st' \<and> (\<forall>p < length (dp_jobs plan). ds_producers st' p \<noteq> None)"
proof (induction m arbitrary: st i)
  case 0
  then show ?case by auto
next
  case (Suc m)
  have i: "i < length (dp_jobs plan)" using Suc.prems(3) by simp
  obtain counts' where last: "\<And>p. Some p \<in> set (dp_sources plan ! i) \<Longrightarrow> i \<le> dp_last plan ! p"
    and disj: "\<And>q p. q < length (dp_jobs plan) \<Longrightarrow> p < q \<Longrightarrow> q \<le> dp_last plan ! p \<Longrightarrow> set (dp_slots plan ! p) \<inter> set (dp_slots plan ! q) = {}"
    and sl: "distinct (dp_slots plan ! i)" "set (dp_slots plan ! i) \<subseteq> {..<8}"
    using plan_okE [OF plan] i by metis
  have "available plan st p" if "Some p \<in> set (dp_sources plan ! i)" for p
  proof (rule run_inv_available [OF Suc.prems(1)])
    have "p < i" using job_ok_source [OF job [OF i] that] .
    then show "ds_producers st p \<noteq> None" by (rule Suc.prems(2))
    show "set (dp_slots plan ! p) \<inter> set (dp_slots plan ! q) = {}" if "p < q" "q < i" for q
      using disj [of q p] last [OF \<open>Some p \<in> set (dp_sources plan ! i)\<close>] i that by simp
  qed
  then have "bad_source plan st i = None" by (auto simp: bad_source_None)
  then obtain inputs src d where res: "resolve plan st i = Some (inputs, src, d)" by (simp add: resolve_def)
  note inp = resolve_inputs [OF Suc.prems(1) job [OF i] res]
  have ref: "reference (dj_region (dp_jobs plan ! i)) (JList inputs) = Inr (vals ! i)"
    using vals i by (simp add: inp(1) vals_ok_def)
  obtain st' where st': "dag_commit plan st i d (vals ! i) True = Inr st'" "run_inv plan vals (Suc i) st'"
    "\<And>p. ds_producers st p \<noteq> None \<or> p = i \<Longrightarrow> ds_producers st' p \<noteq> None"
    using commit_run_inv [OF Suc.prems(1) sl, of True] unfolding inp(2) by blast
  have "\<And>p. p < Suc i \<Longrightarrow> ds_producers st' p \<noteq> None" using st'(3) Suc.prems(2) by (metis less_SucE)
  from Suc.IH [OF st'(2) this] show ?case
    using Suc.prems(3) res ref st'(1) by (simp add: BROKEN_FRAME_def)
qed

section \<open>Properties\<close>

lemma dag_values_total:
  assumes "plan_ok plan"
  obtains counts vals where "dag_values plan = Inr vals" "vals_ok plan counts (length (dp_jobs plan)) vals"
    "\<And>i. i < length (dp_jobs plan) \<Longrightarrow> job_ok counts i (dp_jobs plan ! i) (dp_sources plan ! i) (dp_offsets plan ! i) (dp_lengths plan ! i)"
proof -
  obtain counts where job: "\<And>i. i < length (dp_jobs plan) \<Longrightarrow> job_ok counts i (dp_jobs plan ! i) (dp_sources plan ! i) (dp_offsets plan ! i) (dp_lengths plan ! i)"
    using plan_okE [OF assms] by metis
  then obtain vals where "dag_values plan = Inr vals" "vals_ok plan counts (length (dp_jobs plan)) vals"
    using dag_values_prefix [of "length (dp_jobs plan)" counts plan "length (dp_jobs plan)"] by (auto simp: dag_values_def)
  with job that show ?thesis by blast
qed

text \<open>A session of two jobs: a matrix product and the doubling of its result.\<close>

definition double_region :: json where
  "double_region = JDict [(''schema'', JStr ''raveil.affine-fold.v1''), (''shape'', JList [JInt 2, JInt 2]),
     (''extent'', JInt 1), (''fold'', JStr ''sum''), (''lengths'', JList [JInt 4, JInt 0]),
     (''views'', JDict [(''x'', JList (map JInt [0, 0, 2, 1, 0]))]),
     (''nodes'', JList (map node_json
        [\<lparr>nid = ''a'', nop = OpLoad, nargs = [], nview = ''x'', nimm = 0\<rparr>,
         \<lparr>nid = ''b'', nop = OpAdd, nargs = [''a'', ''a''], nview = [], nimm = 0\<rparr>])),
     (''result'', JStr ''b'')]"

definition demo_session :: json where
  "demo_session = JDict [(''schema'', JStr ''raveil.fold-dag.v1''),
     (''jobs'', JList
       [JDict [(''name'', JStr ''product''), (''region'', matmul_region),
               (''inputs'', JList [JList (map JInt [1, 2, 3, 4]), JList (map JInt [5, 6, 7, 8])])],
        JDict [(''name'', JStr ''double''), (''region'', double_region),
               (''inputs'', JList [JDict [(''from'', JStr ''product'')], JList []])]]),
     (''output'', JStr ''double'')]"

lemma demo_plan:
  obtains plan where "compile_plan demo_session = Inr plan" "length (dp_jobs plan) = 2"
proof -
  have "case compile_plan demo_session of Inl _ \<Rightarrow> False | Inr plan \<Rightarrow> length (dp_jobs plan) = 2"
    by code_simp
  with that show ?thesis by (auto split: sum.splits)
qed

text \<open>
  C19. An admitted DAG runs to its meaning. If \<open>compile_plan\<close> accepts a session, evaluating its
  jobs in order on full results is defined, and the host loop without injections processes
  every job, never halts on an unavailable producer although only eight slots are shared, and
  reports the designated output available with exactly the value of the named job.
\<close>

theorem dag_run_correct:
  assumes "compile_plan session = Inr plan"
  shows "\<exists>vals st. dag_values plan = Inr vals \<and> length vals = length (dp_jobs plan) \<and>
    dag_run session (replicate (length (dp_jobs plan)) ''none'') = Inr (plan, st, length (dp_jobs plan), 0) \<and>
    dag_final plan st = (True, vals ! dp_output plan)"
proof -
  have ok: "plan_ok plan" using assms by (rule compile_plan_ok)
  obtain counts vals where vals: "dag_values plan = Inr vals" "vals_ok plan counts (length (dp_jobs plan)) vals"
    and job: "\<And>i. i < length (dp_jobs plan) \<Longrightarrow> job_ok counts i (dp_jobs plan ! i) (dp_sources plan ! i) (dp_offsets plan ! i) (dp_lengths plan ! i)"
    using dag_values_total [OF ok] by metis
  obtain st where st: "dag_loop plan initial_state 0 (replicate (length (dp_jobs plan)) ''none'') = Inr (st, length (dp_jobs plan), 0)"
    "run_inv plan vals (length (dp_jobs plan)) st" "\<And>p. p < length (dp_jobs plan) \<Longrightarrow> ds_producers st p \<noteq> None"
    using dag_loop_complete [OF ok job vals(2) initial_run_inv, of "length (dp_jobs plan)"] by auto
  have out: "dp_output plan < length (dp_jobs plan)" "length (dp_jobs plan) \<le> dp_last plan ! dp_output plan"
    and disj: "\<And>q p. q < length (dp_jobs plan) \<Longrightarrow> p < q \<Longrightarrow> q \<le> dp_last plan ! p \<Longrightarrow> set (dp_slots plan ! p) \<inter> set (dp_slots plan ! q) = {}"
    using plan_okE [OF ok] by metis+
  have "available plan st (dp_output plan)"
    using out disj by (intro run_inv_available [OF st(2) st(3)]) auto
  with available_value(2) [OF st(2) this] have "dag_final plan st = (True, vals ! dp_output plan)"
    by (simp add: dag_final_def Let_def)
  moreover have "length vals = length (dp_jobs plan)" using vals(2) by (simp add: vals_ok_def)
  ultimately show ?thesis using vals(1) st(1) assms by (auto simp: dag_run_def)
qed

theorem dag_run_correct_witness:
  "\<exists>plan vals st. compile_plan demo_session = Inr plan \<and> dag_values plan = Inr vals \<and>
    dag_run demo_session [''none'', ''none''] = Inr (plan, st, 2, 0) \<and> dag_final plan st = (True, vals ! dp_output plan)"
proof -
  obtain plan where plan: "compile_plan demo_session = Inr plan" "length (dp_jobs plan) = 2" by (rule demo_plan)
  from dag_run_correct [OF plan(1)] plan show ?thesis by (auto simp: eval_nat_numeral)
qed

text \<open>
  C20. No stale data under faults. Whatever fault is injected into whichever job, the host
  loop ends normally with at most the declared jobs processed, and if it reports the
  designated output as available then its words are the value of the named job; moreover the
  banks of that job's slots hold exactly these words, padded with zeros.
\<close>

theorem dag_run_no_stale_output:
  assumes "compile_plan session = Inr plan" and "length injections = length (dp_jobs plan)"
  shows "\<exists>vals st k h. dag_values plan = Inr vals \<and> dag_run session injections = Inr (plan, st, k, h) \<and>
    k \<le> length (dp_jobs plan) \<and>
    (fst (dag_final plan st) \<longrightarrow> snd (dag_final plan st) = vals ! dp_output plan \<and>
       map (\<lambda>s. ds_banks st ! s) (dp_slots plan ! dp_output plan)
         = bank_chunks (vals ! dp_output plan) (length (dp_slots plan ! dp_output plan)))"
proof -
  have ok: "plan_ok plan" using assms(1) by (rule compile_plan_ok)
  obtain counts vals where vals: "dag_values plan = Inr vals" "vals_ok plan counts (length (dp_jobs plan)) vals"
    and job: "\<And>i. i < length (dp_jobs plan) \<Longrightarrow> job_ok counts i (dp_jobs plan ! i) (dp_sources plan ! i) (dp_offsets plan ! i) (dp_lengths plan ! i)"
    using dag_values_total [OF ok] by metis
  obtain st k h where st: "dag_loop plan initial_state 0 injections = Inr (st, k, h)" "k \<le> length (dp_jobs plan)" "run_inv plan vals k st"
    using dag_loop_sound [OF ok job vals(2) initial_run_inv, of injections] assms(2) by auto
  have out: "length (dp_jobs plan) \<le> dp_last plan ! dp_output plan"
    and disj: "\<And>q p. q < length (dp_jobs plan) \<Longrightarrow> p < q \<Longrightarrow> q \<le> dp_last plan ! p \<Longrightarrow> set (dp_slots plan ! p) \<inter> set (dp_slots plan ! q) = {}"
    using plan_okE [OF ok] by metis+
  have "snd (dag_final plan st) = vals ! dp_output plan \<and>
       map (\<lambda>s. ds_banks st ! s) (dp_slots plan ! dp_output plan)
         = bank_chunks (vals ! dp_output plan) (length (dp_slots plan ! dp_output plan))" if "fst (dag_final plan st)"
  proof -
    have av: "available plan st (dp_output plan)" using that by (simp add: dag_final_def Let_def)
    then obtain saved w where p: "ds_producers st (dp_output plan) = Some (saved, w)"
      by (auto simp: available_def split: option.splits)
    have "\<forall>q. dp_output plan < q \<and> q < k \<longrightarrow> set (dp_slots plan ! dp_output plan) \<inter> set (dp_slots plan ! q) = {}"
      using disj out st(2) by auto
    then have "w = vals ! dp_output plan" "map (\<lambda>s. ds_banks st ! s) (dp_slots plan ! dp_output plan)
         = bank_chunks w (length (dp_slots plan ! dp_output plan))"
      using st(3) p unfolding run_inv_def by blast+
    then show ?thesis using av p by (simp add: dag_final_def Let_def)
  qed
  then show ?thesis using vals(1) st(1,2) assms(1) by (auto simp: dag_run_def)
qed

theorem dag_run_no_stale_output_witness:
  "\<exists>plan vals st k h. compile_plan demo_session = Inr plan \<and> dag_values plan = Inr vals \<and>
    dag_run demo_session [''rtl-fault'', ''none''] = Inr (plan, st, k, h) \<and> k \<le> 2 \<and>
    (fst (dag_final plan st) \<longrightarrow> snd (dag_final plan st) = vals ! dp_output plan)"
proof -
  obtain plan where plan: "compile_plan demo_session = Inr plan" "length (dp_jobs plan) = 2" by (rule demo_plan)
  from dag_run_no_stale_output [OF plan(1), of "[''rtl-fault'', ''none'']"] plan show ?thesis by auto
qed

text \<open>
  C21. Lifetime safety of the slot allocation: an admitted plan has one to eight jobs, each
  job owns distinct slots among the eight, one per 128 result words, touches at most four
  objects, and shares no slot with an earlier job whose result is still to be read or is the
  designated output.
\<close>

theorem plan_slots_safe:
  assumes "compile_plan session = Inr plan" and "i < length (dp_jobs plan)"
  shows "length (dp_jobs plan) \<le> 8 \<and> distinct (dp_slots plan ! i) \<and> set (dp_slots plan ! i) \<subseteq> {..<8} \<and>
    card (read_slots plan i) + length (dp_slots plan ! i) \<le> 4 \<and>
    (\<forall>p < i. i \<le> dp_last plan ! p \<longrightarrow> set (dp_slots plan ! p) \<inter> set (dp_slots plan ! i) = {}) \<and>
    (\<forall>j p. j < length (dp_jobs plan) \<longrightarrow> Some p \<in> set (dp_sources plan ! j) \<longrightarrow> j \<le> dp_last plan ! p)"
proof -
  note N = compile_plan_ok [OF assms(1), unfolded plan_ok_def Let_def]
  then obtain counts where B: "\<forall>i < length (dp_jobs plan).
            job_ok counts i (dp_jobs plan ! i) (dp_sources plan ! i) (dp_offsets plan ! i) (dp_lengths plan ! i) \<and>
            (\<forall>p. Some p \<in> set (dp_sources plan ! i) \<longrightarrow> i \<le> dp_last plan ! p) \<and>
            distinct (dp_slots plan ! i) \<and> set (dp_slots plan ! i) \<subseteq> {..<8} \<and>
            length (dp_slots plan ! i) = (counts ! i + 127) div 128 \<and>
            card (read_slots plan i) + length (dp_slots plan ! i) \<le> 4 \<and>
            (\<forall>p < i. i \<le> dp_last plan ! p \<longrightarrow> set (dp_slots plan ! p) \<inter> set (dp_slots plan ! i) = {})" by blast
  then have "\<forall>j p. j < length (dp_jobs plan) \<longrightarrow> Some p \<in> set (dp_sources plan ! j) \<longrightarrow> j \<le> dp_last plan ! p"
    by blast
  with N B [rule_format, OF assms(2)] show ?thesis by (intro conjI) simp_all
qed

theorem plan_slots_safe_witness:
  "\<exists>plan. compile_plan demo_session = Inr plan \<and> length (dp_jobs plan) = 2 \<and>
    card (read_slots plan 1) + length (dp_slots plan ! 1) \<le> 4"
proof -
  obtain plan where plan: "compile_plan demo_session = Inr plan" "length (dp_jobs plan) = 2" by (rule demo_plan)
  from plan_slots_safe [OF plan(1), of 1] plan show ?thesis by auto
qed

lemma plan_operand_value_error [simp]: "value_error (plan_operand ranged st i p)"
proof (cases p)
  case (Pair operand len)
  show ?thesis
  proof (cases operand)
    case (JDict kv)
    show ?thesis
      unfolding plan_operand_def Pair JDict prod.case json.case Let_def by (intro value_error_rbind) simp_all
  qed (simp_all add: plan_operand_def Pair)
qed

lemma project_name_value_error [simp]: "value_error (project_name j)"
  unfolding project_name_def by (intro value_error_rbind) simp_all

lemma plan_job_value_error [simp]: "value_error (plan_job ranged st j)"
  unfolding plan_job_def Let_def
  by (intro value_error_rbind value_error_mapM) (simp_all add: compile_region_value_error reference_value_error)

lemma plan_slots_value_error [simp]: "value_error (plan_slots st lasts s i)"
  by (simp add: plan_slots_def Let_def)

lemma compile_plan_value_error [simp]: "value_error (compile_plan session)"
  unfolding compile_plan_def Let_def by (intro value_error_rbind value_error_foldM) simp_all

end
