(* ===== verification/Dag_Batch.thy ===== *)
theory Dag_Batch
  imports Dag_Correct Grid_Kernel
begin

text \<open>
  \<open>raveil/project_dag_batch.py\<close> and the output check of \<open>raveil/project_dag.py\<close>: several
  independent DAGs run one after the other, and their outputs are published together only if
  every child completed.

  The child executor is the session loop of \<open>Fold_Dag\<close>. What the QEMU and RTL processes add
  to it is that they answer as the host model expects or \<open>d.run\<close> raises; the argument
  \<open>raised\<close> of the batch loop gives, for every child, the exception it raised, if any. Files,
  hashes and receipts are not modelled.
\<close>

section \<open>Admission\<close>

record batch_item =
  bi_name :: string
  bi_dag :: json

definition batch_item_of :: "string set \<Rightarrow> json \<Rightarrow> batch_item res" where
  "batch_item_of names j =
     rbind (want_dict (Some j) ''invalid batch item'') (\<lambda>d.
     rbind (reject (keys d \<noteq> {''name'', ''dag''}) (ValueError ''invalid batch item'')) (\<lambda>_.
     rbind (want_str (map_of d ''name'') ''invalid batch item'') (\<lambda>s.
     rbind (project_name (Some (JStr s))) (\<lambda>name.
     rbind (reject (name \<in> names) (ValueError ''duplicate batch name'')) (\<lambda>_.
     rbind (compile_plan (the (map_of d ''dag''))) (\<lambda>_.
     Inr \<lparr>bi_name = name, bi_dag = the (map_of d ''dag'')\<rparr>))))))"

fun batch_items :: "string set \<Rightarrow> json list \<Rightarrow> batch_item list res" where
  "batch_items names [] = Inr []"
| "batch_items names (j # js) =
     rbind (batch_item_of names j) (\<lambda>i.
     rbind (batch_items (insert (bi_name i) names) js) (\<lambda>is. Inr (i # is)))"

definition batch_validate :: "json \<Rightarrow> batch_item list res" where
  "batch_validate j =
     (let msg = ''batch requires1..16 named independent DAGs''
      in rbind (want_dict (Some j) msg) (\<lambda>d.
         rbind (reject (keys d \<noteq> {''schema'', ''items''} \<or> map_of d ''schema'' \<noteq> Some (JStr ''raveil.dag-batch.v1'')) (ValueError msg)) (\<lambda>_.
         rbind (want_list (map_of d ''items'') msg) (\<lambda>items.
         rbind (reject (length items < 1 \<or> 16 < length items) (ValueError msg)) (\<lambda>_.
         batch_items {} items)))))"

section \<open>Children\<close>

record child =
  ch_processed :: nat
  ch_planned :: nat
  ch_halted :: nat
  ch_index :: nat
  ch_name :: string
  ch_available :: bool
  ch_output :: "int list"
  ch_objects :: "(nat \<times> nat \<times> nat) list"
  ch_approved :: "bool list"

text \<open>\<open>State.final\<close> with the object identities, and the rows of the processed jobs.\<close>

definition final_objects :: "dag_plan \<Rightarrow> dag_state \<Rightarrow> (nat \<times> nat \<times> nat) list" where
  "final_objects plan st =
     (if available plan st (dp_output plan) then map (\<lambda>s. (s + 1, 1, ds_versions st ! s)) (dp_slots plan ! dp_output plan) else [])"

definition dag_child :: "json \<Rightarrow> string list \<Rightarrow> child res" where
  "dag_child session injections =
     rbind (dag_run session injections) (\<lambda>(plan, st, processed, halted).
     Inr \<lparr>ch_processed = processed, ch_planned = length (dp_jobs plan), ch_halted = halted,
          ch_index = dp_output plan, ch_name = dp_output_name plan,
          ch_available = fst (dag_final plan st), ch_output = snd (dag_final plan st), ch_objects = final_objects plan st,
          ch_approved = map (\<lambda>i. i = ''none'') (take processed injections)\<rparr>)"

definition typed_output :: "child \<Rightarrow> bool" where
  "typed_output c \<longleftrightarrow> ch_index c < 8 \<and> list_all (\<lambda>v. 0 \<le> v \<and> v < 2 ^ 32) (ch_output c) \<and>
     (if \<not> ch_available c then ch_output c = [] \<and> ch_objects c = []
      else 1 \<le> length (ch_output c) \<and> length (ch_output c) \<le> 256 \<and>
           length (ch_objects c) = (length (ch_output c) + 127) div 128 \<and>
           list_all (\<lambda>(object_id, generation, version). 1 \<le> object_id \<and> object_id \<le> 8 \<and> generation = 1 \<and> version > 1) (ch_objects c))"

definition child_complete :: "child \<Rightarrow> bool" where
  "child_complete c \<longleftrightarrow> ch_processed c = ch_planned c \<and> ch_halted c = 0 \<and> typed_output c \<and> ch_available c \<and>
     list_all id (ch_approved c)"

section \<open>The batch\<close>

text \<open>The shape of the designated job: \<open>next(j for j in jobs if j["name"] == output)["region"]["shape"]\<close>.\<close>

definition jget :: "json \<Rightarrow> string \<Rightarrow> json res" where
  "jget j k = (case j of JDict d \<Rightarrow> dget d k | _ \<Rightarrow> Inl TypeError)"

definition jlist :: "json \<Rightarrow> json list res" where
  "jlist j = (case j of JList xs \<Rightarrow> Inr xs | _ \<Rightarrow> Inl TypeError)"

fun first_job :: "json \<Rightarrow> json list \<Rightarrow> json res" where
  "first_job out [] = Inl TypeError"
| "first_job out (j # js) = rbind (jget j ''name'') (\<lambda>n. if n = out then Inr j else first_job out js)"

definition batch_output :: "batch_item \<Rightarrow> child \<Rightarrow> tile_output res" where
  "batch_output item c =
     rbind (jget (bi_dag item) ''jobs'') (\<lambda>js.
     rbind (jlist js) (\<lambda>jobs.
     rbind (jget (bi_dag item) ''output'') (\<lambda>out.
     rbind (first_job out jobs) (\<lambda>job.
     rbind (jget job ''region'') (\<lambda>region.
     rbind (jget region ''shape'') (\<lambda>shape.
     Inr \<lparr>o_name = bi_name item, o_shape = view_ints shape, o_words = ch_output c\<rparr>))))))"

record batch_record =
  br_succeeded :: bool
  br_attempted :: nat
  br_planned :: nat
  br_outputs :: "tile_output list option"

text \<open>The number of jobs \<open>options\<close> gives the injection \<open>none\<close> when the caller names none.\<close>

definition job_count :: "json \<Rightarrow> nat" where
  "job_count session = (case compile_plan session of Inl _ \<Rightarrow> 0 | Inr plan \<Rightarrow> length (dp_jobs plan))"

text \<open>The loop of \<open>run\<close>: children attempted, outputs collected, whether all completed.\<close>

fun batch_loop :: "(nat \<Rightarrow> py_error option) \<Rightarrow> nat \<Rightarrow> batch_item list \<Rightarrow> (nat \<times> tile_output list \<times> bool) res" where
  "batch_loop raised i [] = Inr (i, [], True)"
| "batch_loop raised i (item # items) =
     (case raised i of
        Some e \<Rightarrow> Inl e
      | None \<Rightarrow>
          rbind (dag_child (bi_dag item) (replicate (job_count (bi_dag item)) ''none'')) (\<lambda>c.
          if \<not> child_complete c then Inr (i + 1, [], False)
          else rbind (batch_output item c) (\<lambda>o'.
               rbind (batch_loop raised (i + 1) items) (\<lambda>(n, os, complete). Inr (n, o' # os, complete)))))"

definition batch_run :: "(nat \<Rightarrow> py_error option) \<Rightarrow> json \<Rightarrow> batch_record res" where
  "batch_run raised j =
     rbind (batch_validate j) (\<lambda>items.
     rbind (batch_loop raised 0 items) (\<lambda>(attempted, outputs, complete).
     Inr \<lparr>br_succeeded = complete, br_attempted = attempted, br_planned = length items,
          br_outputs = (if complete then Some outputs else None)\<rparr>))"

section \<open>Object versions\<close>

lemma commit_versions:
  "length (ds_versions (foldl (commit_slot padded) st ps)) = length (ds_versions st) \<and>
   (\<forall>x < length (ds_versions st). ds_versions st ! x \<le> ds_versions (foldl (commit_slot padded) st ps) ! x \<and>
     (x \<in> snd ` set ps \<longrightarrow> Suc (ds_versions st ! x) \<le> ds_versions (foldl (commit_slot padded) st ps) ! x))"
proof (induction ps arbitrary: st)
  case (Cons p ps)
  let ?st1 = "commit_slot padded st p"
  have st1: "length (ds_versions ?st1) = length (ds_versions st)"
    "\<And>x. x < length (ds_versions st) \<Longrightarrow> ds_versions ?st1 ! x = ds_versions st ! x + (if x = snd p then 1 else 0)"
    by (auto simp: commit_slot_def nth_list_update split: prod.splits)
  let ?v = "ds_versions (foldl (commit_slot padded) ?st1 ps)"
  have "ds_versions st ! x \<le> ?v ! x \<and> (x \<in> snd ` set (p # ps) \<longrightarrow> Suc (ds_versions st ! x) \<le> ?v ! x)"
    if x: "x < length (ds_versions st)" for x
  proof -
    have "ds_versions ?st1 ! x \<le> ?v ! x" "x \<in> snd ` set ps \<Longrightarrow> Suc (ds_versions ?st1 ! x) \<le> ?v ! x"
      using Cons.IH [of ?st1] st1(1) x by auto
    with st1(2) [OF x] show ?thesis by (cases "x = snd p") auto
  qed
  then show ?case using Cons.IH [of ?st1] st1(1) by simp
qed simp

text \<open>Every version is at least one, and the versions saved with a result at least two.\<close>

definition versions_inv :: "dag_plan \<Rightarrow> dag_state \<Rightarrow> bool" where
  "versions_inv plan st \<longleftrightarrow> length (ds_versions st) = 8 \<and> (\<forall>x < 8. 1 \<le> ds_versions st ! x) \<and>
     (\<forall>p saved w. ds_producers st p = Some (saved, w) \<longrightarrow> (\<forall>v \<in> set saved. 2 \<le> v))"

lemma dag_commit_versions:
  assumes inv: "versions_inv plan st" and slots: "set (dp_slots plan ! i) \<subseteq> {..<8}"
    and c: "dag_commit plan st i destination expected success = Inr st'"
  shows "versions_inv plan st'"
proof (cases success)
  case True
  let ?slots = "dp_slots plan ! i"
  define st1 where "st1 = foldl (commit_slot (expected @ replicate (128 * length ?slots - length expected) 0)) st (zip [0..<length ?slots] ?slots)"
  have st': "st' = st1\<lparr>ds_producers := (ds_producers st1)(i \<mapsto> (map (\<lambda>s. ds_versions st1 ! s) ?slots, expected))\<rparr>"
    using c True by (simp add: dag_commit_def Let_def st1_def)
  have prod: "ds_producers st1 = ds_producers st"
    using commit_slots [of _ st 0 ?slots] unfolding st1_def Let_def by simp
  have "snd ` set (zip [0..<length ?slots] ?slots) = set ?slots"
    by (metis length_map list.set_map map_nth map_snd_zip)
  then have v: "length (ds_versions st1) = 8" "\<And>x. x < 8 \<Longrightarrow> ds_versions st ! x \<le> ds_versions st1 ! x"
    "\<And>x. x \<in> set ?slots \<Longrightarrow> Suc (ds_versions st ! x) \<le> ds_versions st1 ! x"
    using commit_versions [of _ st "zip [0..<length ?slots] ?slots"] inv slots unfolding st1_def versions_inv_def by auto
  have "2 \<le> ds_versions st1 ! x" if x: "x \<in> set ?slots" for x
  proof -
    have "1 \<le> ds_versions st ! x" using inv slots x by (auto simp: versions_inv_def)
    with v(3) [OF x] show ?thesis by simp
  qed
  moreover have "1 \<le> ds_versions st1 ! x" if "x < 8" for x
    using v(2) [OF that] inv that by (force simp: versions_inv_def)
  ultimately show ?thesis using inv v(1) unfolding versions_inv_def st' prod
    by (auto simp: prod)
qed (use c inv in \<open>simp add: dag_commit_def Let_def\<close>)

lemma dag_loop_versions:
  assumes "\<And>i. i < length (dp_jobs plan) \<Longrightarrow> set (dp_slots plan ! i) \<subseteq> {..<8}"
  shows "versions_inv plan st \<Longrightarrow> i + length injections \<le> length (dp_jobs plan) \<Longrightarrow>
    dag_loop plan st i injections = Inr (st', k, h) \<Longrightarrow> versions_inv plan st'"
proof (induction injections arbitrary: st i)
  case (Cons inj rest)
  show ?case
  proof (cases "resolve plan st i")
    case None
    then show ?thesis using Cons.prems by simp
  next
    case (Some r)
    obtain inputs src d where r: "r = (inputs, src, d)" by (cases r)
    obtain expected st1 where "reference (dj_region (dp_jobs plan ! i)) (JList inputs) = Inr expected"
      and c: "dag_commit plan st i d expected (inj = ''none'') = Inr st1"
      and rest: "(if inj \<in> set BROKEN_FRAME then Inr (st1, i + 1, 1) else dag_loop plan st1 (i + 1) rest) = Inr (st', k, h)"
      using Cons.prems(3) Some r by (auto simp: res_simps)
    have "versions_inv plan st1"
      using dag_commit_versions [OF Cons.prems(1) assms c] Cons.prems(2) by simp
    then show ?thesis using rest Cons.IH [of st1 "i + 1"] Cons.prems(2) by (auto split: if_splits)
  qed
qed simp

lemma initial_versions_inv: "versions_inv plan initial_state"
  by (simp add: versions_inv_def initial_state_def)

section \<open>A child without injections completes\<close>

lemma config_count:
  assumes "compile_region j = Inr c"
  shows "1 \<le> nat (c ! 1 * c ! 2)" "nat (c ! 1 * c ! 2) \<le> 256"
proof -
  note d = config_dims(3-6) [OF assms]
  have "1 * 1 \<le> c ! 1 * c ! 2" "c ! 1 * c ! 2 \<le> 16 * 16" using d by (intro mult_mono; simp)+
  then show "1 \<le> nat (c ! 1 * c ! 2)" "nat (c ! 1 * c ! 2) \<le> 256" by simp_all
qed

lemma child_completes:
  assumes plan: "compile_plan session = Inr plan" and vals: "dag_values plan = Inr vals"
  shows "\<exists>c. dag_child session (replicate (job_count session) ''none'') = Inr c \<and> child_complete c \<and>
    ch_name c = dp_output_name plan \<and> ch_output c = vals ! dp_output plan"
proof -
  let ?n = "length (dp_jobs plan)"
  have ok: "plan_ok plan" using plan by (rule compile_plan_ok)
  obtain counts where vok: "vals_ok plan counts ?n vals"
    and job: "\<And>i. i < ?n \<Longrightarrow> job_ok counts i (dp_jobs plan ! i) (dp_sources plan ! i) (dp_offsets plan ! i) (dp_lengths plan ! i)"
    using dag_values_total [OF ok] vals by (metis Inr_inject)
  obtain counts' where out: "dp_output plan < ?n" "?n \<le> 8" "?n \<le> dp_last plan ! dp_output plan"
    and sl: "\<And>i. i < ?n \<Longrightarrow> distinct (dp_slots plan ! i) \<and> set (dp_slots plan ! i) \<subseteq> {..<8} \<and>
        length (dp_slots plan ! i) = (counts' ! i + 127) div 128"
    and job': "\<And>i. i < ?n \<Longrightarrow> job_ok counts' i (dp_jobs plan ! i) (dp_sources plan ! i) (dp_offsets plan ! i) (dp_lengths plan ! i)"
    and disj: "\<And>i p. i < ?n \<Longrightarrow> p < i \<Longrightarrow> i \<le> dp_last plan ! p \<Longrightarrow> set (dp_slots plan ! p) \<inter> set (dp_slots plan ! i) = {}"
    using plan_okE [OF ok] by metis
  obtain st where st: "dag_loop plan initial_state 0 (replicate ?n ''none'') = Inr (st, ?n, 0)"
    "run_inv plan vals ?n st" "\<And>p. p < ?n \<Longrightarrow> ds_producers st p \<noteq> None"
    using dag_loop_complete [OF ok job vok initial_run_inv, of ?n] by auto
  have av: "available plan st (dp_output plan)"
    using out disj by (intro run_inv_available [OF st(2) st(3)]) auto
  have "versions_inv plan st"
    using dag_loop_versions [OF _ initial_versions_inv, of plan 0 "replicate ?n ''none''"] sl st(1) by auto
  moreover obtain saved w where saved: "ds_producers st (dp_output plan) = Some (saved, w)"
    using st(3) [OF out(1)] by (metis option.exhaust surj_pair)
  ultimately have "\<forall>v \<in> set saved. 2 \<le> v" unfolding versions_inv_def by blast
  then have vers: "\<forall>s \<in> set (dp_slots plan ! dp_output plan). 2 \<le> ds_versions st ! s"
    using av saved by (simp add: available_def)
  have count: "counts ! dp_output plan = counts' ! dp_output plan"
    using job [OF out(1)] job' [OF out(1)] by (auto simp: job_ok_def)
  obtain cfg where cfg: "compile_region (dj_region (dp_jobs plan ! dp_output plan)) = Inr cfg"
    "counts ! dp_output plan = nat (cfg ! 1 * cfg ! 2)"
    using job [OF out(1)] by (auto simp: job_ok_def)
  have len: "length (vals ! dp_output plan) = counts ! dp_output plan" "list_all (\<lambda>v. 0 \<le> v \<and> v < 2 ^ 32) (vals ! dp_output plan)"
    using vok out(1) by (auto simp: vals_ok_def value_ok_def list_all_iff)
  have small: "1 \<le> counts ! dp_output plan" "counts ! dp_output plan \<le> 256"
    using config_count [OF cfg(1)] cfg(2) by auto
  define c where "c = \<lparr>ch_processed = ?n, ch_planned = ?n, ch_halted = 0, ch_index = dp_output plan, ch_name = dp_output_name plan,
     ch_available = True, ch_output = vals ! dp_output plan, ch_objects = final_objects plan st, ch_approved = replicate ?n True\<rparr>"
  have fin: "dag_final plan st = (True, vals ! dp_output plan)"
    using av available_value(2) [OF st(2) av] by (simp add: dag_final_def)
  have "job_count session = ?n" using plan by (simp add: job_count_def)
  then have "dag_child session (replicate (job_count session) ''none'') = Inr c"
    using plan st(1) fin by (simp add: dag_child_def dag_run_def c_def)
  moreover have "typed_output c"
    using out(1,2) len small sl [OF out(1)] vers count av
    by (auto simp: typed_output_def c_def final_objects_def list_all_iff)
  ultimately show ?thesis by (auto simp: child_complete_def c_def list_all_iff)
qed

section \<open>Jobs of an admitted session\<close>

lemma key_Some: "keys d = K \<Longrightarrow> k \<in> K \<Longrightarrow> \<exists>v. map_of d k = Some v"
  by (metis keys_def map_of_eq_None_iff not_None_eq)

definition job_matches :: "json \<Rightarrow> dag_job \<Rightarrow> bool" where
  "job_matches j job \<longleftrightarrow> jget j ''name'' = Inr (JStr (dj_name job)) \<and> jget j ''region'' = Inr (dj_region job) \<and>
     jget j ''inputs'' = Inr (JList (dj_inputs job))"

definition names_inv :: "planner \<Rightarrow> bool" where
  "names_inv st \<longleftrightarrow> pl_names st = zip (map dj_name (pl_jobs st)) [0..<length (pl_jobs st)] \<and> distinct (map dj_name (pl_jobs st))"

lemma map_of_names:
  assumes "names_inv st"
  shows "map_of (pl_names st) name = Some i \<longleftrightarrow> i < length (pl_jobs st) \<and> dj_name (pl_jobs st ! i) = name"
proof -
  have "distinct (map fst (pl_names st))" using assms by (simp add: names_inv_def)
  then have "map_of (pl_names st) name = Some i \<longleftrightarrow> (name, i) \<in> set (pl_names st)" by simp
  also have "\<dots> \<longleftrightarrow> i < length (pl_jobs st) \<and> dj_name (pl_jobs st ! i) = name"
    using assms by (auto simp: names_inv_def in_set_zip intro!: exI [of _ i])
  finally show ?thesis .
qed

lemma plan_job_source:
  assumes "plan_job ranged st j = Inr st'" "names_inv st"
  shows "\<exists>job. pl_jobs st' = pl_jobs st @ [job] \<and> job_matches j job \<and> names_inv st'"
proof -
  obtain kv name inputs names where p: "j = JDict kv" "keys kv = {''name'', ''region'', ''inputs''}"
    "project_name (map_of kv ''name'') = Inr name" "map_of (pl_names st) name = None" "map_of kv ''inputs'' = Some (JList inputs)"
    and f: "pl_jobs st' = pl_jobs st @ [\<lparr>dj_name = name, dj_region = the (map_of kv ''region''), dj_inputs = inputs\<rparr>] \<and>
      pl_names st' = pl_names st @ [(name, length (pl_jobs st))]"
    using assms(1) unfolding plan_job_def Let_def
    by (simp only: res_simps reject_eq Inr_inject not_not option.inject) fastforce
  have "map_of kv ''name'' = Some (JStr name)" using p(3) by (auto simp: project_name_def res_simps)
  moreover obtain rg where rg: "map_of kv ''region'' = Some rg"
    using key_Some [OF p(2), of "''region''"] by auto
  moreover have "name \<notin> set (map dj_name (pl_jobs st))"
  proof
    assume "name \<in> set (map dj_name (pl_jobs st))"
    then obtain i where "i < length (pl_jobs st)" "dj_name (pl_jobs st ! i) = name" by (auto simp: in_set_conv_nth)
    then have "map_of (pl_names st) name = Some i" using map_of_names [OF assms(2)] by blast
    with p(4) show False by simp
  qed
  ultimately show ?thesis using p(1,5) f assms(2)
    by (intro exI [of _ "\<lparr>dj_name = name, dj_region = rg, dj_inputs = inputs\<rparr>"])
      (simp add: job_matches_def jget_def dget_def names_inv_def)
qed

lemma plan_jobs_source:
  assumes "foldM (plan_job ranged) st js = Inr st'" "names_inv st"
  shows "\<exists>jobs. pl_jobs st' = pl_jobs st @ jobs \<and> list_all2 job_matches js jobs \<and> names_inv st'"
  using assms
proof (induction js arbitrary: st)
  case (Cons j js)
  obtain st1 where st1: "plan_job ranged st j = Inr st1" "foldM (plan_job ranged) st1 js = Inr st'"
    using Cons.prems(1) by (auto simp: res_simps)
  obtain job where job: "pl_jobs st1 = pl_jobs st @ [job]" "job_matches j job" "names_inv st1"
    using plan_job_source [OF st1(1) Cons.prems(2)] by blast
  obtain jobs where "pl_jobs st' = pl_jobs st1 @ jobs" "list_all2 job_matches js jobs" "names_inv st'"
    using Cons.IH [OF st1(2) job(3)] by blast
  with job show ?case by (intro exI [of _ "job # jobs"]) simp
qed simp

lemma compile_plan_source:
  assumes "compile_plan session = Inr plan"
  obtains js where "jget session ''jobs'' = Inr (JList js)" "jget session ''output'' = Inr (JStr (dp_output_name plan))"
    "list_all2 job_matches js (dp_jobs plan)" "distinct (map dj_name (dp_jobs plan))"
    "dj_name (dp_jobs plan ! dp_output plan) = dp_output_name plan" "dp_output plan < length (dp_jobs plan)"
proof -
  obtain d js st out outp and s :: "nat option list \<times> nat list list" where
    d: "session = JDict d" and p: "map_of d ''jobs'' = Some (JList js)"
    "foldM (plan_job (map_of d ''schema'' = Some (JStr ''raveil.fold-dag.v2''))) empty_planner js = Inr st"
    "map_of d ''output'' = Some (JStr out)" "map_of (pl_names st) out = Some outp"
    "\<lparr>dp_jobs = pl_jobs st, dp_sources = pl_sources st, dp_offsets = pl_offsets st, dp_lengths = pl_lengths st,
        dp_chunks = pl_chunks st, dp_last = (pl_last st)[outp := length (pl_chunks st)], dp_slots = snd s, dp_output = outp, dp_output_name = out\<rparr> = plan"
    using assms unfolding compile_plan_def Let_def by (simp only: res_simps reject_eq sum.inject option.inject) blast
  have "names_inv empty_planner" by (simp add: names_inv_def empty_planner_def)
  from plan_jobs_source [OF p(2) this] have js: "list_all2 job_matches js (pl_jobs st)" "names_inv st"
    by (auto simp: empty_planner_def)
  have "outp < length (pl_jobs st)" "dj_name (pl_jobs st ! outp) = out" using map_of_names [OF js(2)] p(4) by auto
  moreover have "distinct (map dj_name (pl_jobs st))" using js(2) by (simp add: names_inv_def)
  ultimately show ?thesis
    using js(1) p(1,3) by (intro that [of js]) (simp_all add: p(5) [symmetric] d jget_def dget_def)
qed

lemma first_job_nth:
  assumes "list_all2 job_matches js jobs" "i < length jobs" "distinct (map dj_name jobs)"
  shows "first_job (JStr (dj_name (jobs ! i))) js = Inr (js ! i)"
  using assms
proof (induction js jobs arbitrary: i rule: list_all2_induct)
  case (Cons j js job jobs)
  show ?case
  proof (cases i)
    case 0
    then show ?thesis using Cons.hyps by (simp add: job_matches_def)
  next
    case (Suc k)
    then have "dj_name job \<noteq> dj_name (jobs ! k)" using Cons.prems by auto
    then show ?thesis using Cons Suc by (simp add: job_matches_def)
  qed
qed simp

lemma region_shape:
  assumes "compile_region region = Inr c"
  shows "\<exists>shape. jget region ''shape'' = Inr shape \<and> view_ints shape = [c ! 1, c ! 2]"
proof -
  obtain r ws where r: "check_region region = Inr r" "config_layout r ws c" using compile_region_Inr [OF assms] by metis
  have valid: "\<exists>vs. validate_config (JList ([JInt MAGIC] @ r_shape r @ vs)) = Inr c"
    using assms r(1) unfolding compile_region_def by (auto simp: res_simps)
  obtain d shape where d: "region = JDict d" "keys d = region_keys" "seq_elems (the (map_of d ''shape'')) = Some shape"
    "length shape = 2" "r_shape r = shape"
    using r(1) unfolding check_region_def by (auto simp: res_simps simp del: keys_code)
  obtain j where j: "map_of d ''shape'' = Some j"
    using key_Some [OF d(2), of "''shape''"] by (auto simp: region_keys_def)
  obtain a b where ab: "shape = [a, b]" using d(4) by (auto simp: two_elements)
  obtain vs where "validate_config (JList ([JInt MAGIC, a, b] @ vs)) = Inr c" using valid by (auto simp: d(5) ab)
  then have "map JInt c = [JInt MAGIC, a, b] @ vs" by (simp add: validate_config_iff)
  then have e: "a = JInt (c ! 1)" "b = JInt (c ! 2)"
    by (cases c; cases "tl c"; cases "tl (tl c)"; auto)+
  have "j = JList [a, b]" using d(3) by (cases j) (auto simp: j ab e)
  then show ?thesis using d(1) j e by (simp add: jget_def dget_def)
qed

section \<open>All outputs or none\<close>

definition published :: "batch_item \<Rightarrow> tile_output \<Rightarrow> bool" where
  "published item o' \<longleftrightarrow> (\<exists>plan vals cfg. compile_plan (bi_dag item) = Inr plan \<and> dag_values plan = Inr vals \<and>
     compile_region (dj_region (dp_jobs plan ! dp_output plan)) = Inr cfg \<and>
     o' = \<lparr>o_name = bi_name item, o_shape = [cfg ! 1, cfg ! 2], o_words = vals ! dp_output plan\<rparr>)"

lemma published_unique: "published item a \<Longrightarrow> published item b \<Longrightarrow> a = b"
  by (auto simp: published_def)

lemma item_published:
  assumes "compile_plan (bi_dag item) = Inr plan"
  shows "\<exists>c o'. dag_child (bi_dag item) (replicate (job_count (bi_dag item)) ''none'') = Inr c \<and> child_complete c \<and>
    batch_output item c = Inr o' \<and> published item o'"
proof -
  obtain vals where vals: "dag_values plan = Inr vals" using dag_values_total [OF compile_plan_ok [OF assms]] by metis
  obtain c where c: "dag_child (bi_dag item) (replicate (job_count (bi_dag item)) ''none'') = Inr c" "child_complete c"
    "ch_output c = vals ! dp_output plan"
    using child_completes [OF assms vals] by blast
  obtain js where js: "jget (bi_dag item) ''jobs'' = Inr (JList js)" "jget (bi_dag item) ''output'' = Inr (JStr (dp_output_name plan))"
    "list_all2 job_matches js (dp_jobs plan)" "distinct (map dj_name (dp_jobs plan))"
    "dj_name (dp_jobs plan ! dp_output plan) = dp_output_name plan" "dp_output plan < length (dp_jobs plan)"
    using compile_plan_source [OF assms] .
  have job: "first_job (JStr (dp_output_name plan)) js = Inr (js ! dp_output plan)"
    using first_job_nth [OF js(3,6,4)] js(5) by simp
  have reg: "jget (js ! dp_output plan) ''region'' = Inr (dj_region (dp_jobs plan ! dp_output plan))"
    using list_all2_nthD2 [OF js(3,6)] by (simp add: job_matches_def)
  obtain counts where "job_ok counts (dp_output plan) (dp_jobs plan ! dp_output plan) (dp_sources plan ! dp_output plan)
      (dp_offsets plan ! dp_output plan) (dp_lengths plan ! dp_output plan)"
    using plan_okE [OF compile_plan_ok [OF assms]] js(6) by metis
  then obtain cfg where cfg: "compile_region (dj_region (dp_jobs plan ! dp_output plan)) = Inr cfg" by (auto simp: job_ok_def)
  obtain shape where shape: "jget (dj_region (dp_jobs plan ! dp_output plan)) ''shape'' = Inr shape" "view_ints shape = [cfg ! 1, cfg ! 2]"
    using region_shape [OF cfg] by blast
  have "batch_output item c = Inr \<lparr>o_name = bi_name item, o_shape = [cfg ! 1, cfg ! 2], o_words = vals ! dp_output plan\<rparr>"
    using js(1,2) job reg shape c(3) by (simp add: batch_output_def jlist_def)
  then show ?thesis using c(1,2) assms vals cfg by (auto simp: published_def)
qed

lemma batch_items_Inr:
  "batch_items names js = Inr items \<Longrightarrow> length items = length js \<and> distinct (map bi_name items) \<and>
     set (map bi_name items) \<inter> names = {} \<and> (\<forall>i \<in> set items. \<exists>plan. compile_plan (bi_dag i) = Inr plan)"
proof (induction js arbitrary: names items)
  case (Cons j js)
  obtain i rest where i: "batch_item_of names j = Inr i" "batch_items (insert (bi_name i) names) js = Inr rest" "items = i # rest"
    using Cons.prems by (auto simp: res_simps)
  obtain d name plan where "name \<notin> names" "compile_plan (the (map_of d ''dag'')) = Inr plan"
      "\<lparr>bi_name = name, bi_dag = the (map_of d ''dag'')\<rparr> = i"
    using i(1) unfolding batch_item_of_def by (simp only: res_simps reject_eq sum.inject) blast
  then have "bi_name i \<notin> names" "\<exists>plan. compile_plan (bi_dag i) = Inr plan" by auto
  with Cons.IH [OF i(2)] i(3) show ?case by auto
qed simp

lemma batch_loop_complete:
  assumes "\<forall>item \<in> set items. \<exists>plan. compile_plan (bi_dag item) = Inr plan" "\<forall>k < length items. raised (i + k) = None"
  shows "\<exists>outs. batch_loop raised i items = Inr (i + length items, outs, True) \<and> list_all2 published items outs"
  using assms
proof (induction items arbitrary: i)
  case (Cons item items)
  obtain c o' where c: "dag_child (bi_dag item) (replicate (job_count (bi_dag item)) ''none'') = Inr c" "child_complete c"
    "batch_output item c = Inr o'" "published item o'"
    using item_published Cons.prems(1) by (metis list.set_intros(1))
  have "raised (Suc i + k) = None" if "k < length items" for k using Cons.prems(2) [rule_format, of "Suc k"] that by simp
  then obtain outs where "batch_loop raised (Suc i) items = Inr (Suc i + length items, outs, True)" "list_all2 published items outs"
    using Cons.IH [of "Suc i"] Cons.prems(1) by auto
  moreover have "raised i = None" using Cons.prems(2) [rule_format, of 0] by simp
  ultimately show ?case
    using c by (intro exI [of _ "o' # outs"]) simp
qed simp

lemma batch_loop_raises:
  assumes "\<forall>item \<in> set items. \<exists>plan. compile_plan (bi_dag item) = Inr plan"
    and "k < length items" "\<forall>m < k. raised (i + m) = None" "raised (i + k) = Some e"
  shows "batch_loop raised i items = Inl e"
  using assms
proof (induction items arbitrary: i k)
  case (Cons item items)
  obtain c o' where c: "dag_child (bi_dag item) (replicate (job_count (bi_dag item)) ''none'') = Inr c" "child_complete c"
    "batch_output item c = Inr o'"
    using item_published Cons.prems(1) by (metis list.set_intros(1))
  show ?case
  proof (cases k)
    case 0
    then show ?thesis using Cons.prems(4) by simp
  next
    case (Suc m)
    have "raised (Suc i + q) = None" if "q < m" for q using Cons.prems(3) [rule_format, of "Suc q"] that Suc by simp
    then have "batch_loop raised (Suc i) items = Inl e" using Cons.IH [of m "Suc i"] Cons.prems Suc by simp
    moreover have "raised i = None" using Cons.prems(3) [rule_format, of 0] Suc by simp
    ultimately show ?thesis using c by simp
  qed
qed simp

text \<open>
  C22. A batch publishes all outputs or none. Every admitted batch has one to sixteen items with
  distinct names. If no child raises, the record is complete and holds, in order, the name,
  shape and value of the designated job of every DAG; the first child that raises leaves no
  record.
\<close>

theorem batch_run_all_or_nothing:
  assumes "batch_validate j = Inr items"
  shows "1 \<le> length items \<and> length items \<le> 16 \<and> distinct (map bi_name items) \<and>
    ((\<forall>i < length items. raised i = None) \<longrightarrow>
       (\<exists>outs. batch_run raised j = Inr \<lparr>br_succeeded = True, br_attempted = length items, br_planned = length items, br_outputs = Some outs\<rparr> \<and>
          list_all2 published items outs)) \<and>
    (\<forall>k e. k < length items \<and> (\<forall>m < k. raised m = None) \<and> raised k = Some e \<longrightarrow> batch_run raised j = Inl e)"
proof -
  obtain js where js: "batch_items {} js = Inr items" "\<not> (length js < 1 \<or> 16 < length js)"
    using assms unfolding batch_validate_def Let_def by (simp only: res_simps reject_eq) blast
  note items = batch_items_Inr [OF js(1)]
  then have plans: "\<forall>i \<in> set items. \<exists>plan. compile_plan (bi_dag i) = Inr plan" by blast
  have run: "\<exists>outs. batch_run raised j = Inr \<lparr>br_succeeded = True, br_attempted = length items, br_planned = length items, br_outputs = Some outs\<rparr> \<and>
      list_all2 published items outs" if r: "\<forall>i < length items. raised i = None"
  proof -
    obtain outs where "batch_loop raised 0 items = Inr (length items, outs, True)" "list_all2 published items outs"
      using batch_loop_complete [OF plans, of raised 0] r by auto
    then show ?thesis using assms by (simp add: batch_run_def)
  qed
  have raise: "batch_run raised j = Inl e" if "k < length items" "\<forall>m < k. raised m = None" "raised k = Some e" for k e
    using batch_loop_raises [OF plans, of k raised 0 e] that assms by (simp add: batch_run_def)
  have "1 \<le> length items" "length items \<le> 16" "distinct (map bi_name items)" using items js(2) by (auto simp: Suc_le_eq)
  then show ?thesis using run raise by blast
qed

definition demo_batch :: json where
  "demo_batch = JDict [(''schema'', JStr ''raveil.dag-batch.v1''),
     (''items'', JList [JDict [(''name'', JStr ''left''), (''dag'', demo_session)], JDict [(''name'', JStr ''right''), (''dag'', demo_session)]])]"

lemma demo_batch_valid:
  "batch_validate demo_batch = Inr [\<lparr>bi_name = ''left'', bi_dag = demo_session\<rparr>, \<lparr>bi_name = ''right'', bi_dag = demo_session\<rparr>]"
proof -
  obtain plan where plan: "compile_plan demo_session = Inr plan" by (rule demo_plan)
  have "project_name (Some (JStr ''left'')) = Inr ''left''" "project_name (Some (JStr ''right'')) = Inr ''right''"
    by code_simp+
  then show ?thesis
    by (simp add: batch_validate_def demo_batch_def want_dict_def want_list_def want_str_def batch_item_of_def plan insert_commute)
qed

theorem batch_run_all_or_nothing_witness:
  "\<exists>outs. batch_run (\<lambda>_. None) demo_batch = Inr \<lparr>br_succeeded = True, br_attempted = 2, br_planned = 2, br_outputs = Some outs\<rparr> \<and> length outs = 2"
  using batch_run_all_or_nothing [OF demo_batch_valid, of "\<lambda>_. None"]
  by (auto simp: eval_nat_numeral dest!: list_all2_lengthD)

end
