(* ===== verification/Grid_Run.thy ===== *)
theory Grid_Run
  imports Grid_Tiles Dag_Batch
begin

text \<open>
  \<open>raveil/project_mf01_grid.py\<close>: a compiled grid is run as a batch of tile DAGs, its outputs are
  assembled and compared with the untiled reference. The comparison never fails: every
  admitted source runs to exactly the words of the reference.
\<close>

section \<open>The tile sessions\<close>

lemma plan_operand_words: "plan_operand ranged st i (words_json ws, n) = Inr (None, 0, words_json ws)"
  by (simp add: plan_operand_def words_json_def)

lemma plan_operand_empty: "plan_operand ranged st i (JList [], n) = Inr (None, 0, JList [])"
  by (simp add: plan_operand_def)

lemma plan_operand_from:
  assumes "plan_operand ranged st i (JDict [(''from'', JStr producer)], n) = Inr (src, start, literal)"
  shows "src = map_of (pl_names st) producer" "start = 0" "literal = JList (replicate n (JInt 0))"
  using assms by (auto simp: plan_operand_def Let_def res_simps get_default_def split: if_splits)

lemma plan_job_dict:
  assumes "plan_job ranged st (job_dict name region inputs) = Inr st'" and c: "compile_region region = Inr c" and inv: "names_inv st"
  shows "\<exists>ops. mapM (plan_operand ranged st (length (pl_jobs st))) (zip inputs [nat (c ! 5), nat (c ! 6)]) = Inr ops \<and>
    st' = \<lparr>pl_names = pl_names st @ [(name, length (pl_jobs st))],
        pl_jobs = pl_jobs st @ [\<lparr>dj_name = name, dj_region = region, dj_inputs = inputs\<rparr>],
        pl_sources = pl_sources st @ [map fst ops],
        pl_offsets = pl_offsets st @ [map (\<lambda>(_, s, _). s) ops],
        pl_lengths = pl_lengths st @ [[nat (c ! 5), nat (c ! 6)]],
        pl_counts = pl_counts st @ [nat (c ! 1 * c ! 2)],
        pl_chunks = pl_chunks st @ [(nat (c ! 1 * c ! 2) + 127) div 128],
        pl_last = foldl (touch_last (length (pl_jobs st))) (pl_last st) (map fst ops) @ [length (pl_jobs st)]\<rparr>"
proof -
  obtain nm rg ins cfg ops where p: "compile_region rg = Inr cfg"
    "mapM (plan_operand ranged st (length (pl_jobs st))) (zip ins [nat (cfg ! 5), nat (cfg ! 6)]) = Inr ops"
    "st' = \<lparr>pl_names = pl_names st @ [(nm, length (pl_jobs st))],
        pl_jobs = pl_jobs st @ [\<lparr>dj_name = nm, dj_region = rg, dj_inputs = ins\<rparr>],
        pl_sources = pl_sources st @ [map fst ops],
        pl_offsets = pl_offsets st @ [map (\<lambda>(_, s, _). s) ops],
        pl_lengths = pl_lengths st @ [[nat (cfg ! 5), nat (cfg ! 6)]],
        pl_counts = pl_counts st @ [nat (cfg ! 1 * cfg ! 2)],
        pl_chunks = pl_chunks st @ [(nat (cfg ! 1 * cfg ! 2) + 127) div 128],
        pl_last = foldl (touch_last (length (pl_jobs st))) (pl_last st) (map fst ops) @ [length (pl_jobs st)]\<rparr>"
    using plan_job_Inr [OF assms(1)] .
  have "job_matches (job_dict name region inputs) \<lparr>dj_name = nm, dj_region = rg, dj_inputs = ins\<rparr>"
    using plan_job_source [OF assms(1) inv] p(3) by simp
  then have "nm = name" "rg = region" "ins = inputs" by (simp_all add: job_matches_def job_dict_def jget_def dget_def)
  moreover from this have "cfg = c" using c p(1) by simp
  ultimately show ?thesis using p(2,3) by blast
qed

lemma empty_names_inv: "names_inv empty_planner"
  by (simp add: names_inv_def empty_planner_def)

text \<open>The fields of an admitted plan that its jobs determine.\<close>

lemma compile_plan_dag_dict:
  assumes "compile_plan (dag_dict jobs) = Inr plan"
  shows "\<exists>st. foldM (plan_job False) empty_planner jobs = Inr st \<and> dp_jobs plan = pl_jobs st \<and> dp_sources plan = pl_sources st \<and>
    dp_offsets plan = pl_offsets st \<and> dp_lengths plan = pl_lengths st \<and> map_of (pl_names st) ''result'' = Some (dp_output plan)"
proof -
  have f: "map_of [(''schema'', JStr ''raveil.fold-dag.v1''), (''jobs'', JList jobs), (''output'', JStr ''result'')] ''schema'' =
      Some (JStr ''raveil.fold-dag.v1'')"
    "map_of [(''schema'', JStr ''raveil.fold-dag.v1''), (''jobs'', JList jobs), (''output'', JStr ''result'')] ''jobs'' = Some (JList jobs)"
    "map_of [(''schema'', JStr ''raveil.fold-dag.v1''), (''jobs'', JList jobs), (''output'', JStr ''result'')] ''output'' = Some (JStr ''result'')"
    "(JStr ''raveil.fold-dag.v1'' = JStr ''raveil.fold-dag.v2'') = False"
    by simp_all
  show ?thesis
    using assms unfolding compile_plan_def Let_def dag_dict_def
    by (simp only: res_simps reject_eq sum.inject option.inject json.inject)
      (elim exE conjE, hypsubst, simp only: f option.inject json.inject, auto)
qed

lemma plan_one_job:
  assumes "compile_plan (dag_dict [job_dict ''result'' region [words_json a, words_json b]]) = Inr plan"
    and c: "compile_region region = Inr c"
  shows "dp_jobs plan = [\<lparr>dj_name = ''result'', dj_region = region, dj_inputs = [words_json a, words_json b]\<rparr>] \<and>
    dp_sources plan = [[None, None]] \<and> dp_offsets plan = [[0, 0]] \<and> dp_lengths plan = [[nat (c ! 5), nat (c ! 6)]] \<and> dp_output plan = 0"
proof -
  obtain st where st: "foldM (plan_job False) empty_planner [job_dict ''result'' region [words_json a, words_json b]] = Inr st"
    and plan: "dp_jobs plan = pl_jobs st" "dp_sources plan = pl_sources st" "dp_offsets plan = pl_offsets st" "dp_lengths plan = pl_lengths st"
      "map_of (pl_names st) ''result'' = Some (dp_output plan)"
    using compile_plan_dag_dict [OF assms(1)] by blast
  from st have "plan_job False empty_planner (job_dict ''result'' region [words_json a, words_json b]) = Inr st" by (simp add: res_simps)
  from plan_job_dict [OF this c empty_names_inv] plan show ?thesis
    by (auto simp: empty_planner_def plan_operand_words)
qed

lemma plan_two_jobs:
  assumes "compile_plan (dag_dict [job_dict ''reduce'' region [words_json a, words_json b],
      job_dict ''result'' post [JDict [(''from'', JStr ''reduce'')], JList []]]) = Inr plan"
    and c: "compile_region region = Inr c" and p: "compile_region post = Inr p"
  shows "dp_jobs plan = [\<lparr>dj_name = ''reduce'', dj_region = region, dj_inputs = [words_json a, words_json b]\<rparr>,
      \<lparr>dj_name = ''result'', dj_region = post, dj_inputs = [JDict [(''from'', JStr ''reduce'')], JList []]\<rparr>] \<and>
    dp_sources plan = [[None, None], [Some 0, None]] \<and> dp_offsets plan = [[0, 0], [0, 0]] \<and>
    dp_lengths plan = [[nat (c ! 5), nat (c ! 6)], [nat (p ! 5), nat (p ! 6)]] \<and> dp_output plan = 1"
proof -
  let ?j1 = "job_dict ''reduce'' region [words_json a, words_json b]"
  let ?j2 = "job_dict ''result'' post [JDict [(''from'', JStr ''reduce'')], JList []]"
  obtain st where st: "foldM (plan_job False) empty_planner [?j1, ?j2] = Inr st"
    and plan: "dp_jobs plan = pl_jobs st" "dp_sources plan = pl_sources st" "dp_offsets plan = pl_offsets st" "dp_lengths plan = pl_lengths st"
      "map_of (pl_names st) ''result'' = Some (dp_output plan)"
    using compile_plan_dag_dict [OF assms(1)] by blast
  from st obtain st1 where st1: "plan_job False empty_planner ?j1 = Inr st1" and st2: "plan_job False st1 ?j2 = Inr st"
    by (auto simp: res_simps)
  have f1: "pl_names st1 = [(''reduce'', 0)]" "pl_jobs st1 = [\<lparr>dj_name = ''reduce'', dj_region = region, dj_inputs = [words_json a, words_json b]\<rparr>]"
    "pl_sources st1 = [[None, None]]" "pl_offsets st1 = [[0, 0]]" "pl_lengths st1 = [[nat (c ! 5), nat (c ! 6)]]"
    using plan_job_dict [OF st1 c empty_names_inv] by (auto simp: empty_planner_def plan_operand_words)
  have inv1: "names_inv st1" using plan_job_source [OF st1 empty_names_inv] by blast
  obtain ops where ops: "mapM (plan_operand False st1 (length (pl_jobs st1)))
      (zip [JDict [(''from'', JStr ''reduce'')], JList []] [nat (p ! 5), nat (p ! 6)]) = Inr ops"
    and f2: "pl_names st = pl_names st1 @ [(''result'', length (pl_jobs st1))]"
      "pl_jobs st = pl_jobs st1 @ [\<lparr>dj_name = ''result'', dj_region = post, dj_inputs = [JDict [(''from'', JStr ''reduce'')], JList []]\<rparr>]"
      "pl_sources st = pl_sources st1 @ [map fst ops]" "pl_offsets st = pl_offsets st1 @ [map (\<lambda>(_, s, _). s) ops]"
      "pl_lengths st = pl_lengths st1 @ [[nat (p ! 5), nat (p ! 6)]]"
    using plan_job_dict [OF st2 p inv1] by auto
  obtain src start lit where o1: "plan_operand False st1 1 (JDict [(''from'', JStr ''reduce'')], nat (p ! 5)) = Inr (src, start, lit)"
    and "ops = [(src, start, lit), (None, 0, JList [])]"
    using ops by (auto simp: res_simps plan_operand_empty f1)
  then have "map fst ops = [Some 0, None]" "map (\<lambda>(_, s, _). s) ops = [0, 0]"
    using plan_operand_from [OF o1] by (simp_all add: f1)
  then show ?thesis using plan f1 f2 by simp
qed

lemma values_one_job:
  assumes "compile_plan (dag_dict [job_dict ''result'' region [words_json a, words_json b]]) = Inr plan"
    and "compile_region region = Inr c" and ref: "reference region (JList [words_json a, words_json b]) = Inr ws"
  shows "dag_values plan = Inr [ws]" "dp_output plan = 0" "dj_region (dp_jobs plan ! dp_output plan) = region"
  using plan_one_job [OF assms(1,2)] ref by (simp_all add: dag_values_def job_operands_def operand_input_def)

lemma values_two_jobs:
  assumes "compile_plan (dag_dict [job_dict ''reduce'' region [words_json a, words_json b],
      job_dict ''result'' post [JDict [(''from'', JStr ''reduce'')], JList []]]) = Inr plan"
    and "compile_region region = Inr c" "compile_region post = Inr p" "nat (p ! 5) = length ws"
    and ref: "reference region (JList [words_json a, words_json b]) = Inr ws"
    and ref': "reference post (JList [words_json ws, JList []]) = Inr vs"
  shows "dag_values plan = Inr [ws, vs]" "dp_output plan = 1" "dj_region (dp_jobs plan ! dp_output plan) = post"
  using plan_two_jobs [OF assms(1-3)] ref ref' assms(4)
  by (simp_all add: dag_values_def job_operands_def operand_input_def upt_rec words_json_def)

section \<open>The post map\<close>

lemma post_load:
  assumes "length ws = nat height * nat width" "i < nat height" "j < nat width"
  shows "load_view [(''reduced'', JList (map JInt [0, 0, if height > 1 then width else 0, if width > 1 then 1 else 0, 0]))] [ws, []]
    (int i) (int j) k ''reduced'' = Inr (ws ! (i * nat width + j))"
proof -
  have strides: "(if height > 1 then width else 0) * int i = int i * width" "(if width > 1 then 1 else 0) * int j = int j"
    using assms(2,3) by auto
  have inside: "py_nth ws (int n) = Inr (ws ! n)" if "n < length ws" for n using that by (simp add: py_nth_def)
  have "i * nat width + j < length ws" using grid_index_less [OF assms(2,3)] assms(1) by simp
  moreover have "0 \<le> width" using assms(3) by linarith
  then have "int (i * nat width + j) = int i * width + int j" by simp
  ultimately have "py_nth ws (int i * width + int j) = Inr (ws ! (i * nat width + j))" using inside by metis
  then show ?thesis
    unfolding load_view_def Let_def dget_def by (simp add: strides py_nth_def [of "[ws, []]"] cong: if_cong)
qed

lemma post_reference:
  assumes low: "lowered_nodes schema nodes result = Inr pnodes"
    and c: "compile_region (post_region height width pnodes result) = Inr cfg" (is "compile_region ?region = _")
    and f: "\<And>i j. i < nat height \<Longrightarrow> j < nat width \<Longrightarrow> 0 \<le> f i j \<and> f i j < 2 ^ 32"
  shows "\<exists>ns name g. check_source nodes result = Inr (ns, name) \<and>
    reference ?region (JList [words_json (grid_list (nat height) (nat width) f), JList []]) = Inr (grid_list (nat height) (nat width) g) \<and>
    (\<forall>i < nat height. \<forall>j < nat width. eval_nodes (\<lambda>_. Inr (f i j)) ns name = Inr (g i j) \<and> 0 \<le> g i j \<and> g i j < 2 ^ 32)"
proof -
  let ?ws = "grid_list (nat height) (nat width) f"
  let ?views = "[(''reduced'', JList (map JInt [0, 0, if height > 1 then width else 0, if width > 1 then 1 else 0, 0]))]"
  obtain r where r: "check_region ?region = Inr r" using c unfolding compile_region_def by (auto simp: res_simps)
  have read: "read_fold (Some (JStr ''sum'')) = Some FoldSum" by (simp add: read_fold_def)
  obtain js ms name where ms: "pnodes = JList js" "\<not> (length js < 1 \<or> 15 < length js)" "region_nodes ?views {} js = Inr ms"
      "result = JStr name" "name \<in> nid ` set ms"
    and req: "r = \<lparr>r_shape = [JInt height, JInt width], r_extent = JInt 1, r_fold = FoldSum,
       r_lengths = map JInt [height * width, 0], r_views = ?views, r_nodes = ms, r_result = name\<rparr>"
    using check_region_dict [OF r[unfolded post_region_def]] unfolding read by blast
  have dims: "1 \<le> height" "1 \<le> width"
  proof -
    obtain r' ws where "check_region ?region = Inr r'" "config_layout r' ws cfg" using compile_region_Inr [OF c] by metis
    then have "cfg ! 1 = height" "cfg ! 2 = width" using r req by (auto simp: config_layout_def)
    then show "1 \<le> height" "1 \<le> width" using config_dims(3,5) [OF c] by auto
  qed
  obtain ns where ns: "check_source nodes result = Inr (ns, name)" "same_map (keys ?views) ms ns name"
    using kernel_agree [OF low[unfolded ms(1)] ms(3,4,5,2)] by auto
  note sm = ns(2)[unfolded same_map_def]
  have tot: "\<exists>w. eval_nodes (\<lambda>_. Inr x) ns name = Inr w \<and> 0 \<le> w \<and> w < 2 ^ 32" for x
    using sm by (intro eval_nodes_total) auto
  define g where "g i j = (SOME w. eval_nodes (\<lambda>_. Inr (f i j)) ns name = Inr w)" for i j
  have g: "eval_nodes (\<lambda>_. Inr (f i j)) ns name = Inr (g i j) \<and> 0 \<le> g i j \<and> g i j < 2 ^ 32" for i j
    using tot [of "f i j"] by (auto simp: g_def)
  have cell: "region_cell r [?ws, []] i j = Inr (g i j)" if ij: "i < nat height" "j < nat width" for i j
  proof -
    have "eval_nodes (load_view ?views [?ws, []] (int i) (int j) 0) ms name = eval_nodes (\<lambda>_. Inr (f i j)) ns name"
    proof -
      have "load_view ?views [?ws, []] (int i) (int j) 0 ''reduced'' = Inr (f i j)"
        unfolding post_load [OF length_grid_list ij] nth_grid_list [OF ij] ..
      then show ?thesis using sm by simp
    qed
    then have "region_cell r [?ws, []] i j = Inr (fold_step FoldSum 0 (g i j))"
      unfolding region_cell_def req using g by simp
    then show ?thesis using g [of i j] by (simp add: fold_step_def take_bit_int_eq_self)
  qed
  have words: "\<forall>x \<in> set ?ws. 0 \<le> x \<and> x < 2 ^ 32" using f by (auto simp: set_grid_list)
  have "check_inputs (JList [JList (map JInt ?ws), JList (map JInt [])]) [height * width, 0] = Inr [?ws, []]"
    using words dims by (intro check_inputs_words) simp_all
  then have "reference ?region (JList [words_json ?ws, JList []]) =
      mapM (\<lambda>(i, k). region_cell r [?ws, []] i k) (region_cells (nat height) (nat width))"
    unfolding reference_def r c by (simp add: req words_json_def)
  also have "\<dots> = Inr (map (\<lambda>(i, k). g i k) (region_cells (nat height) (nat width)))"
    using cell by (intro mapM_eq_map) (auto simp: region_cells_def set_grid_list)
  also have "map (\<lambda>(i, k). g i k) (region_cells (nat height) (nat width)) = grid_list (nat height) (nat width) g"
    by (simp add: region_cells_def grid_list_def map_concat comp_def)
  finally show ?thesis using ns(1) g by blast
qed

section \<open>One tile\<close>

text \<open>The reference cell as a function of the reduced word and the optional post map.\<close>

definition post_value :: "(node list \<times> string) option \<Rightarrow> int \<Rightarrow> int res" where
  "post_value post acc = (case post of None \<Rightarrow> Inr acc | Some (pns, presult) \<Rightarrow> eval_nodes (\<lambda>_. Inr acc) pns presult)"

definition read_maps :: "grid_source \<Rightarrow> ((node list \<times> string) \<times> (node list \<times> string) option) res" where
  "read_maps gs =
     rbind (check_source (gs_nodes gs) (gs_result gs)) (\<lambda>m.
     rbind (case gs_post gs of None \<Rightarrow> Inr None
            | Some (nodes, res) \<Rightarrow> rbind (check_source nodes res) (\<lambda>p. Inr (Some p))) (\<lambda>post. Inr (m, post)))"

lemma grid_cell_fold: "grid_cell gs ns name post row col = rbind (grid_fold gs ns name row col) (post_value post)"
  by (simp add: grid_cell_def grid_fold_def post_value_def [abs_def])

lemma compile_region_recast: "recast msg (compile_region j) = Inr c \<longleftrightarrow> compile_region j = Inr c"
  by (cases "compile_region j") (auto simp: recast_def split: py_error.splits)

text \<open>
  What a compiled tile publishes: its rectangle of the reference, in row-major order.
\<close>

lemma compile_tile_Inr:
  assumes gs: "gs_ok gs" and low: "lowered_nodes (gs_schema gs) (gs_nodes gs) (gs_result gs) = Inr nodes"
    and post: "lowered_post gs = Inr post"
    and tile: "compile_tile gs nodes post k (row, col) = Inr (name, dag, t)"
    and inside: "0 \<le> row" "row < fst (gs_shape gs)" "0 \<le> col" "col < snd (gs_shape gs)"
  defines "h \<equiv> min (fst (gs_tile gs)) (fst (gs_shape gs) - row)" and "w \<equiv> min (snd (gs_tile gs)) (snd (gs_shape gs) - col)"
  shows "\<exists>ns result pm plan vals f. name = ''tile-'' @ zfill 2 k \<and>
    t = \<lparr>t_name = name, t_row = row, t_column = col, t_rows = h, t_columns = w\<rparr> \<and>
    read_maps gs = Inr ((ns, result), pm) \<and> compile_plan dag = Inr plan \<and>
    published \<lparr>bi_name = name, bi_dag = dag\<rparr> \<lparr>o_name = name, o_shape = [h, w], o_words = grid_list (nat h) (nat w) f\<rparr> \<and>
    (\<forall>i < nat h. \<forall>j < nat w. grid_cell gs ns result pm (row + int i) (col + int j) = Inr (f i j) \<and> 0 \<le> f i j \<and> f i j < 2 ^ 32)"
proof -
  let ?rect = "rectangle (gs_views gs) row col h w (gs_extent gs)"
  let ?region = "\<lambda>a b views. region_dict h w (gs_extent gs) (fold_json (gs_fold gs)) [int (length a), int (length b)] views nodes (gs_result gs)"
  obtain a b views c jobs plan where
    bufs: "tile_buffer gs (?rect 0) 0 = Inr a" "tile_buffer gs (?rect 1) 1 = Inr b"
      "mapM (tile_view ?rect row col h w (gs_extent gs)) (gs_views gs) = Inr views"
    and c: "compile_region (?region a b views) = Inr c"
    and jobs: "(case post of
         None \<Rightarrow> Inr [job_dict ''result'' (?region a b views) [words_json a, words_json b]]
       | Some (pnodes, presult) \<Rightarrow>
           rbind (recast ''malformed post map'' (compile_region (post_region h w pnodes presult))) (\<lambda>_.
           Inr [job_dict ''reduce'' (?region a b views) [words_json a, words_json b],
                job_dict ''result'' (post_region h w pnodes presult) [JDict [(''from'', JStr ''reduce'')], JList []]])) = Inr jobs"
    and plan: "compile_plan (dag_dict jobs) = Inr plan"
    and eqs: "name = ''tile-'' @ zfill 2 k" "dag = dag_dict jobs"
      "t = \<lparr>t_name = ''tile-'' @ zfill 2 k, t_row = row, t_column = col, t_rows = h, t_columns = w\<rparr>"
    using tile unfolding compile_tile_def prod.case Let_def h_def [symmetric] w_def [symmetric]
    by (simp only: res_simps sum.inject prod.inject compile_region_recast) blast
  have t: "tile_regions gs row col h w views a b" using bufs by (simp add: tile_regions_def)
  have hw: "1 \<le> h" "1 \<le> w" using gs inside by (auto simp: h_def w_def gs_ok_def)
  obtain ns result f where ns: "check_source (gs_nodes gs) (gs_result gs) = Inr (ns, result)"
    and ref: "reference (?region a b views) (JList [words_json a, words_json b]) = Inr (grid_list (nat h) (nat w) f)"
    and f: "\<And>i j. i < nat h \<Longrightarrow> j < nat w \<Longrightarrow> grid_fold gs ns result (row + int i) (col + int j) = Inr (f i j) \<and> 0 \<le> f i j \<and> f i j < 2 ^ 32"
    using tile_reference [OF gs t low c] by metis
  obtain r ws where lay: "check_region (?region a b views) = Inr r" "config_layout r ws c" using compile_region_Inr [OF c] by metis
  then have cdim: "c ! 1 = h" "c ! 2 = w" using check_region_dict [OF lay(1)] by (auto simp: config_layout_def)
  show ?thesis
  proof (cases "gs_post gs")
    case None
    then have pn: "post = None" using post by (simp add: lowered_post_def)
    then have dag: "dag = dag_dict [job_dict ''result'' (?region a b views) [words_json a, words_json b]]" using jobs eqs(2) by simp
    note v = values_one_job [OF plan[folded eqs(2), unfolded dag] c ref]
    have "published \<lparr>bi_name = name, bi_dag = dag\<rparr> \<lparr>o_name = name, o_shape = [h, w], o_words = grid_list (nat h) (nat w) f\<rparr>"
      unfolding published_def using plan eqs(2) v c cdim by (intro exI [of _ plan] exI [of _ "[grid_list (nat h) (nat w) f]"] exI [of _ c]) simp
    moreover have "read_maps gs = Inr ((ns, result), None)" using ns None by (simp add: read_maps_def)
    moreover have "\<forall>i < nat h. \<forall>j < nat w. grid_cell gs ns result None (row + int i) (col + int j) = Inr (f i j) \<and> 0 \<le> f i j \<and> f i j < 2 ^ 32"
      using f by (simp add: grid_cell_fold post_value_def)
    ultimately show ?thesis using eqs plan by blast
  next
    case (Some q)
    obtain qn qr where q: "q = (qn, qr)" by force
    obtain pnodes where pn: "post = Some (pnodes, qr)" "lowered_nodes (gs_schema gs) qn qr = Inr pnodes"
      using post Some q by (auto simp: lowered_post_def res_simps)
    obtain pc where pc: "compile_region (post_region h w pnodes qr) = Inr pc"
      using jobs pn(1) by (auto simp: res_simps compile_region_recast)
    have dag: "dag = dag_dict [job_dict ''reduce'' (?region a b views) [words_json a, words_json b],
                job_dict ''result'' (post_region h w pnodes qr) [JDict [(''from'', JStr ''reduce'')], JList []]]"
      using jobs pn(1) eqs(2) by (auto simp: res_simps)
    obtain pns pname g where pns: "check_source qn qr = Inr (pns, pname)"
      and pref: "reference (post_region h w pnodes qr) (JList [words_json (grid_list (nat h) (nat w) f), JList []]) = Inr (grid_list (nat h) (nat w) g)"
      and g: "\<And>i j. i < nat h \<Longrightarrow> j < nat w \<Longrightarrow> eval_nodes (\<lambda>_. Inr (f i j)) pns pname = Inr (g i j) \<and> 0 \<le> g i j \<and> g i j < 2 ^ 32"
      using post_reference [OF pn(2) pc, of f] f by metis
    obtain r' ws' where lay': "check_region (post_region h w pnodes qr) = Inr r'" "config_layout r' ws' pc" using compile_region_Inr [OF pc] by metis
    then have pdim: "pc ! 1 = h" "pc ! 2 = w" "pc ! 5 = h * w"
      using check_region_dict [OF lay'(1)[unfolded post_region_def]] by (auto simp: config_layout_def)
    have len: "nat (pc ! 5) = length (grid_list (nat h) (nat w) f)" using hw pdim(3) by (simp add: nat_mult_distrib)
    note v = values_two_jobs [OF plan[folded eqs(2), unfolded dag] c pc len ref pref]
    have "published \<lparr>bi_name = name, bi_dag = dag\<rparr> \<lparr>o_name = name, o_shape = [h, w], o_words = grid_list (nat h) (nat w) g\<rparr>"
      unfolding published_def using plan eqs(2) v pc pdim
      by (intro exI [of _ plan] exI [of _ "[grid_list (nat h) (nat w) f, grid_list (nat h) (nat w) g]"] exI [of _ pc]) simp
    moreover have "read_maps gs = Inr ((ns, result), Some (pns, pname))" using ns pns Some q by (simp add: read_maps_def)
    moreover have "\<forall>i < nat h. \<forall>j < nat w. grid_cell gs ns result (Some (pns, pname)) (row + int i) (col + int j) = Inr (g i j) \<and> 0 \<le> g i j \<and> g i j < 2 ^ 32"
      using f g by (simp add: grid_cell_fold post_value_def)
    ultimately show ?thesis using eqs plan by blast
  qed
qed

section \<open>The tiles partition the output\<close>

lemma stepped_iff:
  assumes "1 \<le> s" "0 \<le> stop"
  shows "x \<in> set (stepped stop s) \<longleftrightarrow> 0 \<le> x \<and> x < stop \<and> s dvd x"
proof
  assume "x \<in> set (stepped stop s)"
  then obtain k where k: "k < nat ((stop + s - 1) div s)" "x = int k * s" by (auto simp: stepped_def)
  then have "int k + 1 \<le> (stop + s - 1) div s" by linarith
  then have "(int k + 1) * s \<le> (stop + s - 1) div s * s" using assms by (intro mult_right_mono) auto
  also have "\<dots> \<le> stop + s - 1"
    using pos_mod_sign [of s "stop + s - 1"] minus_mod_eq_div_mult [of "stop + s - 1" s] assms by linarith
  finally show "0 \<le> x \<and> x < stop \<and> s dvd x" using k assms by (auto simp: algebra_simps)
next
  assume x: "0 \<le> x \<and> x < stop \<and> s dvd x"
  then obtain k where k: "x = s * k" by (auto elim: dvdE)
  have k0: "0 \<le> k" using x k assms by (metis mult_less_0_iff not_le zero_less_one less_le_trans)
  have "s * k + 1 + (s - 1) \<le> stop + s - 1" using x k by simp
  then have "(k + 1) * s \<le> stop + s - 1" by (simp add: algebra_simps)
  then have "k + 1 \<le> (stop + s - 1) div s" using assms by (metis zdiv_mono1 nonzero_mult_div_cancel_right less_le_trans zero_less_one less_irrefl)
  then have "nat k < nat ((stop + s - 1) div s)" using k0 by linarith
  then show "x \<in> set (stepped stop s)" using k k0 by (auto simp: stepped_def image_iff intro!: bexI [of _ "nat k"])
qed

lemma distinct_stepped: "1 \<le> s \<Longrightarrow> distinct (stepped stop s)"
  by (auto simp: stepped_def distinct_map inj_on_def)

lemma length_stepped: "length (stepped stop s) = nat ((stop + s - 1) div s)"
  by (simp add: stepped_def)

lemma tile_origins_iff:
  assumes "gs_ok gs"
  shows "(r, c) \<in> set (tile_origins gs) \<longleftrightarrow> 0 \<le> r \<and> r < fst (gs_shape gs) \<and> fst (gs_tile gs) dvd r \<and>
    0 \<le> c \<and> c < snd (gs_shape gs) \<and> snd (gs_tile gs) dvd c"
  using stepped_iff [of "fst (gs_tile gs)" "fst (gs_shape gs)" r] stepped_iff [of "snd (gs_tile gs)" "snd (gs_shape gs)" c] assms
  by (auto simp: tile_origins_def gs_ok_def)

lemma distinct_origins:
  assumes "gs_ok gs"
  shows "distinct (tile_origins gs)"
proof -
  have "distinct (concat (map (\<lambda>r. map (Pair r) cs) rs))" if "distinct rs" "distinct cs" for rs cs :: "int list"
    using that by (induction rs) (auto simp: distinct_map inj_on_def)
  then show ?thesis using assms distinct_stepped by (auto simp: tile_origins_def gs_ok_def)
qed

lemma length_origins:
  assumes "gs_ok gs"
  shows "1 \<le> length (tile_origins gs) \<and> length (tile_origins gs) \<le> 16"
proof -
  let ?a = "(fst (gs_shape gs) + fst (gs_tile gs) - 1) div fst (gs_tile gs)"
  let ?b = "(snd (gs_shape gs) + snd (gs_tile gs) - 1) div snd (gs_tile gs)"
  have "length (concat (map (\<lambda>r. map (Pair r) cs) rs)) = length rs * length cs" for rs cs :: "int list"
    by (induction rs) simp_all
  then have "length (tile_origins gs) = nat ?a * nat ?b" by (simp add: tile_origins_def length_stepped)
  moreover have "0 \<le> ?a" "0 \<le> ?b" using assms by (auto simp: gs_ok_def pos_imp_zdiv_nonneg_iff)
  ultimately have "int (length (tile_origins gs)) = tiles_needed (gs_shape gs) (gs_tile gs)" by (simp add: tiles_needed_def)
  moreover have "(0, 0) \<in> set (tile_origins gs)" using assms by (simp add: tile_origins_iff gs_ok_def)
  ultimately show ?thesis using assms by (cases "tile_origins gs") (auto simp: gs_ok_def)
qed

lemma multiple_of:
  assumes "s dvd x" "x \<le> y" "y < x + (s :: int)"
  shows "y div s * s = x"
proof -
  obtain k where k: "x = s * k" using assms(1) by (auto elim: dvdE)
  have "0 < s" using assms by linarith
  moreover have "y = k * s + (y - x)" using k by (simp add: algebra_simps)
  moreover have "0 \<le> y - x" "y - x < s" using assms by auto
  ultimately have "y div s = k" by (intro int_div_pos_eq [of y s k "y - x"]) (simp_all add: algebra_simps)
  then show ?thesis using k by simp
qed

definition tile_at :: "grid_source \<Rightarrow> string \<Rightarrow> int \<times> int \<Rightarrow> tile" where
  "tile_at gs name p = \<lparr>t_name = name, t_row = fst p, t_column = snd p,
     t_rows = min (fst (gs_tile gs)) (fst (gs_shape gs) - fst p), t_columns = min (snd (gs_tile gs)) (snd (gs_shape gs) - snd p)\<rparr>"

definition origin_of :: "grid_source \<Rightarrow> int \<Rightarrow> int \<Rightarrow> int \<times> int" where
  "origin_of gs R C = (R div fst (gs_tile gs) * fst (gs_tile gs), C div snd (gs_tile gs) * snd (gs_tile gs))"

lemma covers_origin:
  assumes "gs_ok gs" "p \<in> set (tile_origins gs)" "covers (tile_at gs name p) R C"
  shows "p = origin_of gs R C"
proof -
  obtain r c where p: "p = (r, c)" by force
  have "fst (gs_tile gs) dvd r" "snd (gs_tile gs) dvd c" using tile_origins_iff [OF assms(1), of r c] assms(2) p by auto
  moreover have "r \<le> R" "R < r + fst (gs_tile gs)" "c \<le> C" "C < c + snd (gs_tile gs)"
    using assms(3) by (auto simp: covers_def tile_at_def p)
  ultimately show ?thesis using multiple_of [of "fst (gs_tile gs)" r R] multiple_of [of "snd (gs_tile gs)" c C] by (simp add: p origin_of_def)
qed

lemma origin_covers:
  assumes "gs_ok gs" "0 \<le> R" "R < fst (gs_shape gs)" "0 \<le> C" "C < snd (gs_shape gs)"
  shows "origin_of gs R C \<in> set (tile_origins gs)" "covers (tile_at gs name (origin_of gs R C)) R C"
proof -
  have low: "0 \<le> y div s * s \<and> y div s * s \<le> y \<and> y < y div s * s + s" if "0 \<le> y" "1 \<le> s" for y s :: int
  proof -
    have m: "0 \<le> y mod s" "y mod s < s" "y mod s \<le> y" using that by (auto simp: zmod_le_nonneg_dividend)
    show ?thesis using m minus_mod_eq_div_mult [of y s] by linarith
  qed
  have R: "0 \<le> fst (origin_of gs R C) \<and> fst (origin_of gs R C) \<le> R \<and> R < fst (origin_of gs R C) + fst (gs_tile gs)"
    "0 \<le> snd (origin_of gs R C) \<and> snd (origin_of gs R C) \<le> C \<and> C < snd (origin_of gs R C) + snd (gs_tile gs)"
    using low [of R "fst (gs_tile gs)"] low [of C "snd (gs_tile gs)"] assms by (auto simp: origin_of_def gs_ok_def)
  show "origin_of gs R C \<in> set (tile_origins gs)"
    using R assms by (cases "origin_of gs R C") (auto simp: tile_origins_iff origin_of_def)
  show "covers (tile_at gs name (origin_of gs R C)) R C"
    using R assms by (auto simp: covers_def tile_at_def)
qed

section \<open>Running a compiled grid\<close>

definition batch_dict :: "compiled_grid \<Rightarrow> json" where
  "batch_dict cg = JDict [(''schema'', JStr ''raveil.dag-batch.v1''),
     (''items'', JList (map (\<lambda>(name, dag). JDict [(''name'', JStr name), (''dag'', dag)]) (cg_items cg)))]"

record grid_result =
  gr_succeeded :: bool
  gr_output :: "(int \<times> int \<times> int list) option"

definition grid_run :: "(nat \<Rightarrow> py_error option) \<Rightarrow> json \<Rightarrow> grid_result res" where
  "grid_run raised j =
     rbind (compile j) (\<lambda>cg.
     rbind (batch_run raised (batch_dict cg)) (\<lambda>child.
     if br_succeeded child then
       rbind (want (br_outputs child) ''outputs'') (\<lambda>outputs.
       rbind (assemble outputs (cg_layout cg) (cg_rows cg) (cg_columns cg)) (\<lambda>words.
       rbind (grid_reference j) (\<lambda>oracle.
       rbind (reject (words \<noteq> oracle) (ValueError ''full-grid oracle mismatch'')) (\<lambda>_.
       Inr \<lparr>gr_succeeded = True, gr_output = Some (cg_rows cg, cg_columns cg, words)\<rparr>))))
     else Inr \<lparr>gr_succeeded = False, gr_output = None\<rparr>))"

lemma batch_items_map:
  assumes "\<forall>p \<in> set ps. name_match (fst p) \<and> (\<exists>plan. compile_plan (snd p) = Inr plan)" "distinct (map fst ps)" "set (map fst ps) \<inter> names = {}"
  shows "batch_items names (map (\<lambda>(name, dag). JDict [(''name'', JStr name), (''dag'', dag)]) ps)
    = Inr (map (\<lambda>(name, dag). \<lparr>bi_name = name, bi_dag = dag\<rparr>) ps)"
  using assms
proof (induction ps arbitrary: names)
  case (Cons p ps)
  obtain name dag where p: "p = (name, dag)" by force
  obtain plan where "compile_plan dag = Inr plan" "name_match name" "name \<notin> names" using Cons.prems p by auto
  then have "batch_item_of names (JDict [(''name'', JStr name), (''dag'', dag)]) = Inr \<lparr>bi_name = name, bi_dag = dag\<rparr>"
    by (simp add: batch_item_of_def want_dict_def want_str_def project_name_def)
  then show ?case using Cons.IH [of "insert name names"] Cons.prems p by simp
qed simp

lemma tile_names: "k < 16 \<Longrightarrow> name_match (''tile-'' @ zfill 2 k)"
proof -
  have "list_all (\<lambda>k. name_match (''tile-'' @ zfill 2 k)) [0..<16]" by code_simp
  then show "k < 16 \<Longrightarrow> name_match (''tile-'' @ zfill 2 k)" by (simp add: list_all_iff)
qed

text \<open>Everything the parts of a compiled source say about each other.\<close>

lemma compile_Inr:
  assumes "compile j = Inr cg"
  obtains gs nodes post tiles where "source j = Inr gs" "gs_ok gs"
    "lowered_nodes (gs_schema gs) (gs_nodes gs) (gs_result gs) = Inr nodes" "lowered_post gs = Inr post"
    "length tiles = length (tile_origins gs)"
    "\<And>k. k < length (tile_origins gs) \<Longrightarrow> compile_tile gs nodes post k (tile_origins gs ! k) = Inr (tiles ! k)"
    "cg = \<lparr>cg_items = map (\<lambda>(name, dag, _). (name, dag)) tiles, cg_layout = map (\<lambda>(_, _, t). t) tiles,
          cg_rows = fst (gs_shape gs), cg_columns = snd (gs_shape gs)\<rparr>"
proof -
  obtain gs nodes post tiles where p: "source j = Inr gs" "lowered_nodes (gs_schema gs) (gs_nodes gs) (gs_result gs) = Inr nodes"
    "lowered_post gs = Inr post"
    "mapM (\<lambda>(k, p). compile_tile gs nodes post k p) (enumerate 0 (tile_origins gs)) = Inr tiles"
    "cg = \<lparr>cg_items = map (\<lambda>(name, dag, _). (name, dag)) tiles, cg_layout = map (\<lambda>(_, _, t). t) tiles,
          cg_rows = fst (gs_shape gs), cg_columns = snd (gs_shape gs)\<rparr>"
    using assms unfolding compile_def by (simp only: res_simps sum.inject) blast
  have len: "length tiles = length (tile_origins gs)" using mapM_Inr_length [OF p(4)] by simp
  have nth: "compile_tile gs nodes post k (tile_origins gs ! k) = Inr (tiles ! k)" if "k < length (tile_origins gs)" for k
    using mapM_Inr_nth [OF p(4), of k] that by (simp add: nth_enumerate_eq)
  show ?thesis using that [OF p(1) source_Inr [OF p(1)] p(2,3) len nth p(5)] .
qed

definition grid_tiles_ok :: "grid_source \<Rightarrow> compiled_grid \<Rightarrow> (node list \<times> string) \<Rightarrow> (node list \<times> string) option \<Rightarrow> (nat \<Rightarrow> tile_output) \<Rightarrow> bool" where
  "grid_tiles_ok gs cg m pm out \<longleftrightarrow> length (cg_items cg) = length (tile_origins gs) \<and> length (cg_layout cg) = length (tile_origins gs) \<and>
     cg_rows cg = fst (gs_shape gs) \<and> cg_columns cg = snd (gs_shape gs) \<and>
     (\<forall>k < length (tile_origins gs).
        fst (cg_items cg ! k) = ''tile-'' @ zfill 2 k \<and>
        cg_layout cg ! k = tile_at gs (''tile-'' @ zfill 2 k) (tile_origins gs ! k) \<and>
        (\<exists>plan. compile_plan (snd (cg_items cg ! k)) = Inr plan) \<and>
        published \<lparr>bi_name = fst (cg_items cg ! k), bi_dag = snd (cg_items cg ! k)\<rparr> (out k) \<and>
        tile_fits (cg_rows cg) (cg_columns cg) (out k, cg_layout cg ! k) \<and>
        (\<forall>R C. covers (cg_layout cg ! k) R C \<longrightarrow>
           grid_cell gs (fst m) (snd m) pm R C = Inr (tile_word (cg_layout cg ! k) (o_words (out k)) R C) \<and>
           0 \<le> tile_word (cg_layout cg ! k) (o_words (out k)) R C \<and> tile_word (cg_layout cg ! k) (o_words (out k)) R C < 2 ^ 32))"

lemma compiled_tile:
  assumes gs: "gs_ok gs" and low: "lowered_nodes (gs_schema gs) (gs_nodes gs) (gs_result gs) = Inr nodes"
    and post: "lowered_post gs = Inr post" and k: "p \<in> set (tile_origins gs)"
    and tile: "compile_tile gs nodes post k p = Inr (name, dag, t)"
  shows "\<exists>m pm out. read_maps gs = Inr (m, pm) \<and> name = ''tile-'' @ zfill 2 k \<and> t = tile_at gs name p \<and>
    (\<exists>plan. compile_plan dag = Inr plan) \<and> published \<lparr>bi_name = name, bi_dag = dag\<rparr> out \<and>
    tile_fits (fst (gs_shape gs)) (snd (gs_shape gs)) (out, t) \<and>
    (\<forall>R C. covers t R C \<longrightarrow> grid_cell gs (fst m) (snd m) pm R C = Inr (tile_word t (o_words out) R C) \<and>
       0 \<le> tile_word t (o_words out) R C \<and> tile_word t (o_words out) R C < 2 ^ 32)"
proof -
  obtain row col where p: "p = (row, col)" by force
  have inside: "0 \<le> row" "row < fst (gs_shape gs)" "0 \<le> col" "col < snd (gs_shape gs)"
    using tile_origins_iff [OF gs, of row col] k p by auto
  define h w where "h = min (fst (gs_tile gs)) (fst (gs_shape gs) - row)" and "w = min (snd (gs_tile gs)) (snd (gs_shape gs) - col)"
  have hw: "1 \<le> h" "1 \<le> w" using gs inside by (auto simp: h_def w_def gs_ok_def)
  obtain ns result pm plan f where c: "name = ''tile-'' @ zfill 2 k"
    "t = \<lparr>t_name = name, t_row = row, t_column = col, t_rows = h, t_columns = w\<rparr>"
    "read_maps gs = Inr ((ns, result), pm)" "compile_plan dag = Inr plan"
    "published \<lparr>bi_name = name, bi_dag = dag\<rparr> \<lparr>o_name = name, o_shape = [h, w], o_words = grid_list (nat h) (nat w) f\<rparr>"
    and f: "\<And>i j. i < nat h \<Longrightarrow> j < nat w \<Longrightarrow> grid_cell gs ns result pm (row + int i) (col + int j) = Inr (f i j) \<and> 0 \<le> f i j \<and> f i j < 2 ^ 32"
    using compile_tile_Inr [OF gs low post tile[unfolded p] inside] unfolding h_def w_def by metis
  have "grid_cell gs ns result pm R C = Inr (tile_word t (grid_list (nat h) (nat w) f) R C) \<and>
      0 \<le> tile_word t (grid_list (nat h) (nat w) f) R C \<and> tile_word t (grid_list (nat h) (nat w) f) R C < 2 ^ 32"
    if cov: "covers t R C" for R C
  proof -
    define i j where "i = nat (R - row)" and "j = nat (C - col)"
    have ij: "R = row + int i" "C = col + int j" "i < nat h" "j < nat w" using cov by (auto simp: covers_def c(2) i_def j_def)
    have "nat ((R - row) * w + (C - col)) = i * nat w + j" using ij(1,2) hw by (simp add: nat_add_distrib nat_mult_distrib)
    then have "tile_word t (grid_list (nat h) (nat w) f) R C = f i j"
      using nth_grid_list [OF ij(3,4), of f] by (simp add: tile_word_def c(2))
    then show ?thesis using f [OF ij(3,4)] ij(1,2) by simp
  qed
  moreover have "tile_fits (fst (gs_shape gs)) (snd (gs_shape gs)) (\<lparr>o_name = name, o_shape = [h, w], o_words = grid_list (nat h) (nat w) f\<rparr>, t)"
    using inside hw by (auto simp: tile_fits_def c(2) h_def w_def)
  moreover have "t = tile_at gs name p" by (simp add: c(2) tile_at_def p h_def w_def)
  ultimately show ?thesis using c(1,3,4,5)
    by (intro exI [of _ "(ns, result)"] exI [of _ pm] exI [of _ "\<lparr>o_name = name, o_shape = [h, w], o_words = grid_list (nat h) (nat w) f\<rparr>"]) auto
qed

lemma compile_tiles_ok:
  assumes "compile j = Inr cg"
  shows "\<exists>gs m pm out. source j = Inr gs \<and> gs_ok gs \<and> read_maps gs = Inr (m, pm) \<and> grid_tiles_ok gs cg m pm out"
proof -
  obtain gs nodes post tiles where gs: "source j = Inr gs" "gs_ok gs"
    and low: "lowered_nodes (gs_schema gs) (gs_nodes gs) (gs_result gs) = Inr nodes" "lowered_post gs = Inr post"
    and len: "length tiles = length (tile_origins gs)"
    and tile: "\<And>k. k < length (tile_origins gs) \<Longrightarrow> compile_tile gs nodes post k (tile_origins gs ! k) = Inr (tiles ! k)"
    and cg: "cg = \<lparr>cg_items = map (\<lambda>(name, dag, _). (name, dag)) tiles, cg_layout = map (\<lambda>(_, _, t). t) tiles,
          cg_rows = fst (gs_shape gs), cg_columns = snd (gs_shape gs)\<rparr>"
    using compile_Inr [OF assms] by metis
  have pos: "0 < length (tile_origins gs)" using length_origins [OF gs(2)] by linarith
  define good where "good m pm k out \<longleftrightarrow> published \<lparr>bi_name = fst (tiles ! k), bi_dag = fst (snd (tiles ! k))\<rparr> out \<and>
      tile_fits (fst (gs_shape gs)) (snd (gs_shape gs)) (out, snd (snd (tiles ! k))) \<and>
      (\<forall>R C. covers (snd (snd (tiles ! k))) R C \<longrightarrow> grid_cell gs (fst m) (snd m) pm R C = Inr (tile_word (snd (snd (tiles ! k))) (o_words out) R C) \<and>
       0 \<le> tile_word (snd (snd (tiles ! k))) (o_words out) R C \<and> tile_word (snd (snd (tiles ! k))) (o_words out) R C < 2 ^ 32)" for m pm k out
  have one: "(\<exists>m pm out. read_maps gs = Inr (m, pm) \<and> good m pm k out) \<and> fst (tiles ! k) = ''tile-'' @ zfill 2 k \<and>
      snd (snd (tiles ! k)) = tile_at gs (''tile-'' @ zfill 2 k) (tile_origins gs ! k) \<and>
      (\<exists>plan. compile_plan (fst (snd (tiles ! k))) = Inr plan)"
    if k: "k < length (tile_origins gs)" for k
  proof -
    obtain name dag t where e: "tiles ! k = (name, dag, t)" by (metis surj_pair)
    have "tile_origins gs ! k \<in> set (tile_origins gs)" using k by simp
    from compiled_tile [OF gs(2) low this tile [OF k, unfolded e]] show ?thesis unfolding good_def e fst_conv snd_conv by metis
  qed
  obtain m pm where m: "read_maps gs = Inr (m, pm)" using one [OF pos] by metis
  have "\<exists>out. good m pm k out" if "k < length (tile_origins gs)" for k
    using one [OF that] m by auto
  then obtain out where out: "\<And>k. k < length (tile_origins gs) \<Longrightarrow> good m pm k (out k)" by metis
  have "grid_tiles_ok gs cg m pm out"
    unfolding grid_tiles_ok_def
  proof (intro conjI allI impI)
    fix k assume k: "k < length (tile_origins gs)"
    then have it: "cg_items cg ! k = (fst (tiles ! k), fst (snd (tiles ! k)))" "cg_layout cg ! k = snd (snd (tiles ! k))"
      using len by (simp_all add: cg split: prod.splits)
    show "fst (cg_items cg ! k) = ''tile-'' @ zfill 2 k" "cg_layout cg ! k = tile_at gs (''tile-'' @ zfill 2 k) (tile_origins gs ! k)"
      "\<exists>plan. compile_plan (snd (cg_items cg ! k)) = Inr plan"
      using one [OF k] it by auto
    show "published \<lparr>bi_name = fst (cg_items cg ! k), bi_dag = snd (cg_items cg ! k)\<rparr> (out k)"
      "tile_fits (cg_rows cg) (cg_columns cg) (out k, cg_layout cg ! k)"
      using out [OF k] it unfolding good_def by (simp_all add: cg)
    fix R C assume "covers (cg_layout cg ! k) R C"
    then show "grid_cell gs (fst m) (snd m) pm R C = Inr (tile_word (cg_layout cg ! k) (o_words (out k)) R C)"
      "0 \<le> tile_word (cg_layout cg ! k) (o_words (out k)) R C" "tile_word (cg_layout cg ! k) (o_words (out k)) R C < 2 ^ 32"
      using out [OF k] it unfolding good_def by auto
  qed (simp_all add: cg len)
  then show ?thesis using gs m by blast
qed

lemma grid_reference_list:
  assumes "compile j = Inr cg" "source j = Inr gs" "read_maps gs = Inr (m, pm)"
    and "\<And>r c. r < nat (fst (gs_shape gs)) \<Longrightarrow> c < nat (snd (gs_shape gs)) \<Longrightarrow> grid_cell gs (fst m) (snd m) pm (int r) (int c) = Inr (F (int r) (int c))"
  shows "grid_reference j = Inr (grid_list (nat (fst (gs_shape gs))) (nat (snd (gs_shape gs))) (\<lambda>r c. F (int r) (int c)))"
proof -
  obtain ns res where m: "m = (ns, res)" by force
  have "grid_reference j = mapM (\<lambda>(r, c). grid_cell gs ns res pm (int r) (int c))
       (grid_list (nat (fst (gs_shape gs))) (nat (snd (gs_shape gs))) Pair)"
    using assms(1-3) unfolding grid_reference_def read_maps_def m by (auto simp: res_simps)
  also have "\<dots> = Inr (map (\<lambda>(r, c). F (int r) (int c)) (grid_list (nat (fst (gs_shape gs))) (nat (snd (gs_shape gs))) Pair))"
    using assms(4) by (intro mapM_eq_map) (auto simp: set_grid_list m)
  also have "\<dots> = Inr (grid_list (nat (fst (gs_shape gs))) (nat (snd (gs_shape gs))) (\<lambda>r c. F (int r) (int c)))"
    by (simp add: grid_list_def map_concat comp_def)
  finally show ?thesis .
qed

lemma layout_partition:
  assumes gs: "gs_ok gs" and ok: "grid_tiles_ok gs cg m pm out"
  shows "apart (zip (map out [0..<length (tile_origins gs)]) (cg_layout cg))"
    and "\<And>R C. 0 \<le> R \<Longrightarrow> R < cg_rows cg \<Longrightarrow> 0 \<le> C \<Longrightarrow> C < cg_columns cg \<Longrightarrow>
      \<exists>k < length (tile_origins gs). covers (cg_layout cg ! k) R C"
proof -
  let ?n = "length (tile_origins gs)"
  have lay: "\<And>k. k < ?n \<Longrightarrow> cg_layout cg ! k = tile_at gs (''tile-'' @ zfill 2 k) (tile_origins gs ! k)"
    and dims: "cg_rows cg = fst (gs_shape gs)" "cg_columns cg = snd (gs_shape gs)" "length (cg_layout cg) = ?n"
    using ok unfolding grid_tiles_ok_def by blast+
  show "apart (zip (map out [0..<?n]) (cg_layout cg))"
    unfolding apart_def
  proof (intro allI impI notI)
    fix i j R C
    assume "i < j" "j < length (zip (map out [0..<?n]) (cg_layout cg))"
      "covers (snd (zip (map out [0..<?n]) (cg_layout cg) ! i)) R C" "covers (snd (zip (map out [0..<?n]) (cg_layout cg) ! j)) R C"
    then have ij: "i < ?n" "j < ?n" "i \<noteq> j" and cov: "covers (cg_layout cg ! i) R C" "covers (cg_layout cg ! j) R C"
      using dims(3) by auto
    have "tile_origins gs ! i = tile_origins gs ! j"
      using covers_origin [OF gs _ cov(1)[unfolded lay [OF ij(1)]]] covers_origin [OF gs _ cov(2)[unfolded lay [OF ij(2)]]] ij by simp
    then show False using distinct_origins [OF gs] ij by (simp add: nth_eq_iff_index_eq)
  qed
  fix R C assume RC: "0 \<le> R" "R < cg_rows cg" "0 \<le> C" "C < cg_columns cg"
  note o = origin_covers [OF gs RC(1) RC(2)[unfolded dims] RC(3) RC(4)[unfolded dims]]
  obtain k where "k < ?n" "tile_origins gs ! k = origin_of gs R C" using o(1) by (auto simp: in_set_conv_nth)
  then show "\<exists>k < ?n. covers (cg_layout cg ! k) R C" using o(2) lay by metis
qed

lemma batch_of_tiles:
  assumes gs: "gs_ok gs" and ok: "grid_tiles_ok gs cg m pm out" and r: "\<forall>i < length (tile_origins gs). raised i = None"
  shows "batch_run raised (batch_dict cg) = Inr \<lparr>br_succeeded = True, br_attempted = length (tile_origins gs),
    br_planned = length (tile_origins gs), br_outputs = Some (map out [0..<length (tile_origins gs)])\<rparr>"
proof -
  let ?n = "length (tile_origins gs)" and ?item = "\<lambda>(name, dag). \<lparr>bi_name = name, bi_dag = dag\<rparr>"
  have n: "1 \<le> ?n" "?n \<le> 16" using length_origins [OF gs] by auto
  have len: "length (cg_items cg) = ?n" and names: "\<And>k. k < ?n \<Longrightarrow> fst (cg_items cg ! k) = ''tile-'' @ zfill 2 k"
    and plans: "\<And>k. k < ?n \<Longrightarrow> \<exists>plan. compile_plan (snd (cg_items cg ! k)) = Inr plan"
    and pub: "\<And>k. k < ?n \<Longrightarrow> published \<lparr>bi_name = fst (cg_items cg ! k), bi_dag = snd (cg_items cg ! k)\<rparr> (out k)"
    using ok unfolding grid_tiles_ok_def by blast+
  have all: "\<forall>p \<in> set (cg_items cg). name_match (fst p) \<and> (\<exists>plan. compile_plan (snd p) = Inr plan)"
  proof
    fix p assume "p \<in> set (cg_items cg)"
    then obtain k where "k < ?n" "p = cg_items cg ! k" using len by (auto simp: in_set_conv_nth)
    then show "name_match (fst p) \<and> (\<exists>plan. compile_plan (snd p) = Inr plan)" using names plans tile_names n by auto
  qed
  have dist: "distinct (map fst (cg_items cg))"
    using names len by (auto simp: distinct_conv_nth)
  have "batch_items {} (map (\<lambda>(name, dag). JDict [(''name'', JStr name), (''dag'', dag)]) (cg_items cg)) = Inr (map ?item (cg_items cg))"
    using all dist by (intro batch_items_map) auto
  moreover have "cg_items cg \<noteq> []" using n len by auto
  ultimately have valid: "batch_validate (batch_dict cg) = Inr (map ?item (cg_items cg))"
    using n len by (simp add: batch_validate_def batch_dict_def want_dict_def want_list_def)
  have "\<forall>i \<in> set (map ?item (cg_items cg)). \<exists>plan. compile_plan (bi_dag i) = Inr plan" using all by auto
  then obtain outs where outs: "batch_loop raised 0 (map ?item (cg_items cg)) = Inr (?n, outs, True)" "list_all2 published (map ?item (cg_items cg)) outs"
    using batch_loop_complete [of "map ?item (cg_items cg)" raised 0] r len by auto
  have "outs = map out [0..<?n]"
  proof (rule nth_equalityI)
    show lo: "length outs = length (map out [0..<?n])" using outs(2) len by (auto dest: list_all2_lengthD)
    fix k assume "k < length outs"
    then have k: "k < ?n" using lo by simp
    then have "published (?item (cg_items cg ! k)) (outs ! k)" using list_all2_nthD [OF outs(2), of k] len by simp
    then show "outs ! k = map out [0..<?n] ! k"
      using pub [OF k] published_unique k by (cases "cg_items cg ! k") auto
  qed
  then show ?thesis using valid outs(1) len by (simp add: batch_run_def)
qed

text \<open>The run of a compiled source and its reference.\<close>

lemma grid_run_words:
  assumes "compile j = Inr cg"
  shows "\<exists>ws. grid_reference j = Inr ws \<and> length ws = nat (cg_rows cg * cg_columns cg) \<and> (\<forall>w \<in> set ws. 0 \<le> w \<and> w < 2 ^ 32) \<and>
    (\<forall>raised. (\<forall>i < length (cg_items cg). raised i = None) \<longrightarrow>
       grid_run raised j = Inr \<lparr>gr_succeeded = True, gr_output = Some (cg_rows cg, cg_columns cg, ws)\<rparr>)"
proof -
  obtain gs m pm out where gs: "source j = Inr gs" "gs_ok gs" "read_maps gs = Inr (m, pm)" and ok: "grid_tiles_ok gs cg m pm out"
    using compile_tiles_ok [OF assms] by blast
  let ?n = "length (tile_origins gs)" let ?outs = "map out [0..<?n]" let ?ps = "zip ?outs (cg_layout cg)"
  have dims: "cg_rows cg = fst (gs_shape gs)" "cg_columns cg = snd (gs_shape gs)" "length (cg_layout cg) = ?n" "length (cg_items cg) = ?n"
    and fits: "\<And>k. k < ?n \<Longrightarrow> tile_fits (cg_rows cg) (cg_columns cg) (out k, cg_layout cg ! k)"
    and word: "\<And>k R C. k < ?n \<Longrightarrow> covers (cg_layout cg ! k) R C \<Longrightarrow>
           grid_cell gs (fst m) (snd m) pm R C = Inr (tile_word (cg_layout cg ! k) (o_words (out k)) R C) \<and>
           0 \<le> tile_word (cg_layout cg ! k) (o_words (out k)) R C \<and> tile_word (cg_layout cg ! k) (o_words (out k)) R C < 2 ^ 32"
    using ok unfolding grid_tiles_ok_def by blast+
  note part = layout_partition [OF gs(2) ok]
  define F where "F R C = the (cover_word ?ps R C)" for R C
  have cell: "cover_word ?ps R C = Some (F R C) \<and> grid_cell gs (fst m) (snd m) pm R C = Inr (F R C) \<and> 0 \<le> F R C \<and> F R C < 2 ^ 32"
    if RC: "0 \<le> R" "R < cg_rows cg" "0 \<le> C" "C < cg_columns cg" for R C
  proof -
    obtain k where k: "k < ?n" "covers (cg_layout cg ! k) R C" using part(2) [OF RC] by blast
    have "cover_word ?ps R C = Some (tile_word (cg_layout cg ! k) (o_words (out k)) R C)"
      using cover_word_apart [OF part(1), of k R C] k dims(3) by simp
    then show ?thesis using word [OF k] by (simp add: F_def)
  qed
  let ?ws = "grid_list (nat (cg_rows cg)) (nat (cg_columns cg)) (\<lambda>r c. F (int r) (int c))"
  have ref: "grid_reference j = Inr ?ws"
    unfolding dims using cell dims by (intro grid_reference_list [OF assms gs(1,3)]) auto
  have asm: "assemble ?outs (cg_layout cg) (cg_rows cg) (cg_columns cg) = Inr ?ws"
  proof (rule assemble_eq [OF _ _ _ _ _ _ part(1)])
    show "\<forall>p \<in> set ?ps. tile_fits (cg_rows cg) (cg_columns cg) p" using fits dims(3) by (auto simp: set_zip)
    show "1 \<le> cg_rows cg" "cg_rows cg \<le> 64" "1 \<le> cg_columns cg" "cg_columns cg \<le> 64" using gs(2) dims by (auto simp: gs_ok_def)
  qed (use cell dims in auto)
  have "grid_run raised j = Inr \<lparr>gr_succeeded = True, gr_output = Some (cg_rows cg, cg_columns cg, ?ws)\<rparr>"
    if "\<forall>i < length (cg_items cg). raised i = None" for raised
    using batch_of_tiles [OF gs(2) ok, of raised] that dims(4) asm ref assms by (simp add: grid_run_def want_def)
  moreover have "\<forall>w \<in> set ?ws. 0 \<le> w \<and> w < 2 ^ 32" using cell by (auto simp: set_grid_list)
  moreover have "length ?ws = nat (cg_rows cg * cg_columns cg)" using dims gs(2) by (simp add: gs_ok_def nat_mult_distrib)
  ultimately show ?thesis using ref by blast
qed

text \<open>
  C2. Tiled execution computes the grid. Whenever \<open>compile\<close> admits a source, the untiled
  reference is defined and has one 32-bit word per output cell, and running the compiled
  batch of tile DAGs (lowered nodes, halo rectangles, register allocation, guest slots) and
  assembling its outputs gives exactly these words: the oracle comparison of \<open>run\<close> never
  raises, whatever the boundary mode, tile shape or post map.
\<close>

theorem grid_run_correct:
  assumes "compile j = Inr cg"
  shows "\<exists>ws. grid_reference j = Inr ws \<and> length ws = nat (cg_rows cg * cg_columns cg) \<and> (\<forall>w \<in> set ws. 0 \<le> w \<and> w < 2 ^ 32) \<and>
    (\<forall>raised. (\<forall>i < length (cg_items cg). raised i = None) \<longrightarrow>
       grid_run raised j = Inr \<lparr>gr_succeeded = True, gr_output = Some (cg_rows cg, cg_columns cg, ws)\<rparr>)"
  by (rule grid_run_words [OF assms])

text \<open>A row of two cells on one tile: the clamped sum of a cell and its right neighbour.\<close>

definition demo_grid :: json where
  "demo_grid = JDict [(''schema'', JStr GRID_V2),
     (''inputs'', JList [JDict [(''schema'', JStr ''raveil.grid-input/v2''), (''rows'', JInt 1), (''columns'', JInt 2), (''words'', JList [JInt 7, JInt 5])]]),
     (''shape'', JList [JInt 1, JInt 2]), (''tile'', JList [JInt 1, JInt 2]), (''boundary'', JStr ''clamp''),
     (''kernel'', JDict [(''extent'', JInt 2), (''fold'', JStr ''sum''),
        (''views'', JDict [(''v'', JDict [(''input'', JInt 0), (''offset'', JList [JInt 0, JInt 0]), (''step'', JList [JInt 0, JInt 1]),
           (''row'', JList [JInt 1, JInt 0]), (''column'', JList [JInt 0, JInt 1])])]),
        (''nodes'', JList [node_json \<lparr>nid = ''x'', nop = OpLoad, nargs = [], nview = ''v'', nimm = 0\<rparr>]), (''result'', JStr ''x'')])]"

lemma demo_grid_compiles: "\<exists>cg. compile demo_grid = Inr cg \<and> length (cg_items cg) = 1"
proof -
  have "(case compile demo_grid of Inl _ \<Rightarrow> False | Inr cg \<Rightarrow> length (cg_items cg) = 1)" by code_simp
  then show ?thesis by (auto split: sum.splits)
qed

theorem grid_run_correct_witness:
  "\<exists>ws cg. compile demo_grid = Inr cg \<and> grid_reference demo_grid = Inr ws \<and>
     grid_run (\<lambda>_. None) demo_grid = Inr \<lparr>gr_succeeded = True, gr_output = Some (cg_rows cg, cg_columns cg, ws)\<rparr>"
proof -
  obtain cg where cg: "compile demo_grid = Inr cg" using demo_grid_compiles by blast
  from grid_run_correct [OF cg] cg show ?thesis by auto
qed

section \<open>Rejection\<close>

lemma read_view_value_error [simp]: "value_error (read_view v2 n p)"
  unfolding read_view_def by (cases p) (auto intro!: value_error_rbind)

lemma read_kernel_value_error [simp]: "value_error (read_kernel v2 n j)"
  unfolding read_kernel_def by (intro value_error_rbind value_error_mapM) simp_all

lemma read_post_value_error [simp]: "value_error (read_post v3 j)"
  unfolding read_post_def by (auto intro!: value_error_rbind)

lemma source_value_error [simp]: "value_error (source j)"
  unfolding source_def Let_def
  by (intro value_error_rbind value_error_mapM) (simp_all split: prod.splits)

lemma recast_value_error [simp]: "value_error (recast msg (compile_region j))"
  using compile_region_value_error [of j] by (cases "compile_region j") (auto simp: recast_def value_error_def)

lemma rectangle_Some:
  assumes "v \<in> snd ` set views"
  shows "\<exists>q. rectangle views row col height width extent (gv_input v) = Some q"
proof -
  have "filter (\<lambda>x. gv_input x = gv_input v) (map snd views) \<noteq> []" using assms by (auto simp: filter_empty_conv)
  then show ?thesis by (auto simp: rectangle_def Let_def split: list.splits)
qed

lemma tile_buffer_value_error:
  assumes "gs_ok gs" "rect = None \<or> index < length (gs_grids gs)"
  shows "value_error (tile_buffer gs rect index)"
proof (cases rect)
  case (Some q)
  obtain rmin cmin h w where q: "q = (rmin, cmin, h, w)" by (cases q)
  have "gs_grids gs ! index \<in> set (gs_grids gs)" using assms(2) Some by simp
  then have ok: "grid_ok (gs_grids gs ! index)" using assms(1) by (simp add: gs_ok_def)
  have "value_error (sample (gs_grids gs ! index) r c (gs_boundary gs))" for r c using sample_word [OF ok, of r c] by (metis value_error_simps(1))
  then show ?thesis using Some q assms(2) by (auto simp: tile_buffer_def intro!: value_error_mapM)
qed (simp add: tile_buffer_def)

lemma rectangle_input:
  assumes "gs_ok gs"
  shows "rectangle (gs_views gs) row col h w ext index = None \<or> index < length (gs_grids gs)"
proof (cases "rectangle (gs_views gs) row col h w ext index")
  case (Some q)
  then have "filter (\<lambda>v. gv_input v = index) (map snd (gs_views gs)) \<noteq> []" by (auto simp: rectangle_def split: list.splits)
  then obtain p where "p \<in> set (gs_views gs)" "gv_input (snd p) = index" by (auto simp: filter_empty_conv)
  then show ?thesis using assms by (auto simp: gs_ok_def gview_ok_def)
qed simp

lemma compile_tile_value_error:
  assumes "gs_ok gs"
  shows "value_error (compile_tile gs nodes post k p)"
proof -
  obtain row col where p: "p = (row, col)" by force
  have "value_error (tile_view (rectangle (gs_views gs) row col h w ext) row col h w ext x)" if x: "x \<in> set (gs_views gs)" for x h w ext
  proof -
    obtain q where "rectangle (gs_views gs) row col h w ext (gv_input (snd x)) = Some q"
      using rectangle_Some [of "snd x" "gs_views gs" row col h w ext] x by blast
    then show ?thesis by (auto simp: tile_view_def split: prod.splits)
  qed
  then show ?thesis
    unfolding compile_tile_def p prod.case Let_def
    by (intro value_error_rbind value_error_mapM tile_buffer_value_error rectangle_input assms)
      (auto intro!: value_error_rbind split: option.splits prod.splits)
qed

lemma lowered_nodes_value_error [simp]: "value_error (lowered_nodes schema nodes result)"
  by (auto simp: lowered_nodes_def intro!: value_error_rbind)

lemma lowered_post_value_error [simp]: "value_error (lowered_post gs)"
  by (auto simp: lowered_post_def intro!: value_error_rbind split: option.splits)

lemma compile_value_error: "value_error (compile j)"
  unfolding compile_def
  by (intro value_error_rbind value_error_mapM) (auto intro: compile_tile_value_error source_Inr)

text \<open>
  C27. The grid compiler and its reference raise \<open>ValueError\<close> or return on every JSON tree: no
  key, index, type or attribute error escapes, although the kernel nodes are interpreted from
  unchecked dictionaries.
\<close>

theorem grid_total_or_value_error: "value_error (compile j) \<and> value_error (grid_reference j)"
proof (cases "compile j")
  case (Inl e)
  then show ?thesis using compile_value_error [of j] by (auto simp: grid_reference_def value_error_def split: py_error.splits)
next
  case (Inr cg)
  obtain gs m pm out where gs: "source j = Inr gs" "gs_ok gs" "read_maps gs = Inr (m, pm)" and ok: "grid_tiles_ok gs cg m pm out"
    using compile_tiles_ok [OF Inr] by blast
  have dims: "cg_rows cg = fst (gs_shape gs)" "cg_columns cg = snd (gs_shape gs)" using ok by (auto simp: grid_tiles_ok_def)
  have "\<exists>w. grid_cell gs (fst m) (snd m) pm R C = Inr w" if "0 \<le> R" "R < fst (gs_shape gs)" "0 \<le> C" "C < snd (gs_shape gs)" for R C
    using layout_partition(2) [OF gs(2) ok] that ok unfolding dims grid_tiles_ok_def by meson
  then obtain F where "\<And>R C. 0 \<le> R \<Longrightarrow> R < fst (gs_shape gs) \<Longrightarrow> 0 \<le> C \<Longrightarrow> C < snd (gs_shape gs) \<Longrightarrow> grid_cell gs (fst m) (snd m) pm R C = Inr (F R C)"
    by metis
  then have "grid_reference j = Inr (grid_list (nat (fst (gs_shape gs))) (nat (snd (gs_shape gs))) (\<lambda>r c. F (int r) (int c)))"
    by (intro grid_reference_list [OF Inr gs(1,3)]) auto
  then show ?thesis using Inr by simp
qed

end
