(* ===== verification/Graph_Descriptor.thy ===== *)
theory Graph_Descriptor
  imports Raveil_Prelude
begin

text \<open>
  \<open>raveil/graph_device_dag.py\<close>, first part: admission of a bounded graph descriptor and the stable
  topological schedule of its nodes. A descriptor arrives as a dictionary; the checks of
  \<open>validate_descriptor\<close> turn it into the record the compiler and the oracle read.
  \<open>GraphDeviceDagError\<close> is a \<open>ValueError\<close>. Membership of an unhashable value (a list or a
  dictionary) in a set raises \<open>TypeError\<close>, which the checks of \<open>schema\<close> and \<open>op\<close> can meet.
\<close>

section \<open>Data\<close>

datatype dag_op = LOAD_U32 | ADD_U32 | MAX_U32 | MUL_U32 | ADD_IMM_U32 | GE_IMM_U32 | STORE_U32

datatype address = Selector nat | Relative int int

record dag_node =
  dn_id :: string
  dn_op :: dag_op
  dn_deps :: "string list"
  dn_address :: "address option"
  dn_imm :: "int option"

record affine =
  af_rows :: int
  af_columns :: int
  af_input :: int
  af_output :: int

record descriptor =
  gd_schema :: string
  gd_id :: string
  gd_affine :: affine
  gd_nodes :: "dag_node list"

definition GRAPH_V1 :: string where "GRAPH_V1 = ''raveil.graph-device-dag/v1''"
definition GRAPH_V2 :: string where "GRAPH_V2 = ''raveil.graph-device-dag/v2''"
definition GRAPH_V3 :: string where "GRAPH_V3 = ''raveil.graph-device-dag/v3''"
definition GRAPH_V4 :: string where "GRAPH_V4 = ''raveil.graph-device-dag/v4''"
definition GRAPH_V5 :: string where "GRAPH_V5 = ''raveil.graph-device-dag/v5''"

definition MAX_IMMEDIATE :: int where "MAX_IMMEDIATE = 2 ^ 22 - 1"
definition PROGRAM_CAPACITY :: nat where "PROGRAM_CAPACITY = 16"
definition VALUE_REGISTERS :: nat where "VALUE_REGISTERS = 8"

fun dag_op_of :: "string \<Rightarrow> dag_op option" where
  "dag_op_of s =
     (if s = ''LOAD_U32'' then Some LOAD_U32 else if s = ''ADD_U32'' then Some ADD_U32
      else if s = ''MAX_U32'' then Some MAX_U32 else if s = ''MUL_U32'' then Some MUL_U32
      else if s = ''ADD_IMM_U32'' then Some ADD_IMM_U32 else if s = ''GE_IMM_U32'' then Some GE_IMM_U32
      else if s = ''STORE_U32'' then Some STORE_U32 else None)"

fun dag_op_name :: "dag_op \<Rightarrow> string" where
  "dag_op_name LOAD_U32 = ''LOAD_U32''"
| "dag_op_name ADD_U32 = ''ADD_U32''"
| "dag_op_name MAX_U32 = ''MAX_U32''"
| "dag_op_name MUL_U32 = ''MUL_U32''"
| "dag_op_name ADD_IMM_U32 = ''ADD_IMM_U32''"
| "dag_op_name GE_IMM_U32 = ''GE_IMM_U32''"
| "dag_op_name STORE_U32 = ''STORE_U32''"

definition selector_names :: "string list" where
  "selector_names = [''center'', ''north'', ''south'', ''west'', ''east'']"

definition selector_of :: "string \<Rightarrow> nat option" where
  "selector_of s = map_of (zip selector_names [0..<5]) s"

section \<open>Fields\<close>

text \<open>\<open>IDENTIFIER_RE.fullmatch\<close>: a letter or digit, then up to thirty of those, \<open>.\<close>, \<open>_\<close> or \<open>-\<close>.\<close>

definition ascii_alnum :: "char \<Rightarrow> bool" where
  "ascii_alnum c \<longleftrightarrow> (CHR ''A'' \<le> c \<and> c \<le> CHR ''Z'') \<or> (CHR ''a'' \<le> c \<and> c \<le> CHR ''z'') \<or> (CHR ''0'' \<le> c \<and> c \<le> CHR ''9'')"

definition identifier_ok :: "string \<Rightarrow> bool" where
  "identifier_ok s = (case s of [] \<Rightarrow> False
     | c # cs \<Rightarrow> ascii_alnum c \<and> length cs \<le> 30 \<and> list_all (\<lambda>d. ascii_alnum d \<or> d \<in> {CHR ''.'', CHR ''_'', CHR ''-''}) cs)"

definition want_identifier :: "json option \<Rightarrow> string \<Rightarrow> string res" where
  "want_identifier j msg = rbind (want_str j msg) (\<lambda>s. rbind (reject (\<not> identifier_ok s) (ValueError msg)) (\<lambda>_. Inr s))"

text \<open>\<open>x in {...}\<close> for a set of texts.\<close>

definition in_texts :: "json option \<Rightarrow> (string \<Rightarrow> 'a option) \<Rightarrow> 'a option res" where
  "in_texts j f = (case j of
     Some (JStr s) \<Rightarrow> Inr (f s)
   | Some (JList _) \<Rightarrow> Inl TypeError
   | Some (JDict _) \<Rightarrow> Inl TypeError
   | _ \<Rightarrow> Inr None)"

definition graph_schema :: "json option \<Rightarrow> string res" where
  "graph_schema j =
     rbind (in_texts j (\<lambda>s. if s \<in> {GRAPH_V1, GRAPH_V2, GRAPH_V3, GRAPH_V4, GRAPH_V5} then Some s else None)) (\<lambda>s.
     want s ''exact descriptor keys and schema are required'')"

definition int_field :: "(string \<times> json) list \<Rightarrow> string \<Rightarrow> string \<Rightarrow> int res" where
  "int_field d k msg = (case map_of d k of Some (JInt n) \<Rightarrow> Inr n | _ \<Rightarrow> Inl (ValueError msg))"

definition read_affine :: "json option \<Rightarrow> affine res" where
  "read_affine j =
     (let msg = ''affine shape is invalid''
      in rbind (want_dict j msg) (\<lambda>d.
         rbind (reject (keys d \<noteq> {''rows'', ''columns'', ''input_stride'', ''output_stride''}) (ValueError msg)) (\<lambda>_.
         rbind (int_field d ''rows'' msg) (\<lambda>rows.
         rbind (int_field d ''columns'' msg) (\<lambda>columns.
         rbind (int_field d ''input_stride'' msg) (\<lambda>istride.
         rbind (int_field d ''output_stride'' msg) (\<lambda>ostride.
         rbind (reject (\<not> (1 \<le> rows \<and> rows \<le> 16) \<or> \<not> (1 \<le> columns \<and> columns \<le> 16) \<or>
                        istride < columns + 2 \<or> ostride < columns \<or>
                        (rows + 1) * istride + columns \<ge> 324 \<or> (rows - 1) * ostride + columns - 1 \<ge> 256)
                  (ValueError ''affine shape escapes the bounded windows'')) (\<lambda>_.
         Inr \<lparr>af_rows = rows, af_columns = columns, af_input = istride, af_output = ostride\<rparr>))))))))"

section \<open>Nodes\<close>

definition read_delta :: "(string \<times> json) list \<Rightarrow> string \<Rightarrow> int res" where
  "read_delta d k =
     rbind (int_field d k ''LOAD_U32 relative address is invalid'') (\<lambda>n.
     rbind (reject (\<not> (-1 \<le> n \<and> n \<le> 1)) (ValueError ''LOAD_U32 relative address is invalid'')) (\<lambda>_. Inr n))"

definition read_address :: "string \<Rightarrow> (string \<times> json) list \<Rightarrow> address res" where
  "read_address schema kv =
     (if schema = GRAPH_V1 then
        rbind (reject (keys kv \<noteq> {''id'', ''op'', ''address''}) (ValueError ''LOAD_U32 is invalid'')) (\<lambda>_.
        rbind (want_str (map_of kv ''address'') ''LOAD_U32 is invalid'') (\<lambda>s.
        rbind (want (selector_of s) ''LOAD_U32 is invalid'') (\<lambda>k. Inr (Selector k))))
      else
        rbind (reject (keys kv \<noteq> {''id'', ''op'', ''address''}) (ValueError ''LOAD_U32 relative address is invalid'')) (\<lambda>_.
        rbind (want_dict (map_of kv ''address'') ''LOAD_U32 relative address is invalid'') (\<lambda>d.
        rbind (reject (keys d \<noteq> {''row_delta'', ''column_delta''}) (ValueError ''LOAD_U32 relative address is invalid'')) (\<lambda>_.
        rbind (read_delta d ''row_delta'') (\<lambda>r.
        rbind (read_delta d ''column_delta'') (\<lambda>c. Inr (Relative r c)))))))"

definition read_immediate :: "string \<Rightarrow> dag_op \<Rightarrow> (string \<times> json) list \<Rightarrow> (string \<times> int) res" where
  "read_immediate schema o' kv =
     (let msg = ''requires schema and an unsigned 22-bit immediate'';
          allowed = (if o' = GE_IMM_U32 then {GRAPH_V5} else {GRAPH_V4, GRAPH_V5})
      in rbind (reject (schema \<notin> allowed \<or> keys kv \<noteq> {''id'', ''op'', ''input'', ''immediate''}) (ValueError msg)) (\<lambda>_.
         rbind (want_str (map_of kv ''input'') msg) (\<lambda>s.
         rbind (int_field kv ''immediate'' msg) (\<lambda>n.
         rbind (reject (\<not> (0 \<le> n \<and> n \<le> MAX_IMMEDIATE)) (ValueError msg)) (\<lambda>_. Inr (s, n))))))"

definition read_operands :: "(string \<times> json) list \<Rightarrow> string list res" where
  "read_operands kv =
     (let msg = ''operands are invalid''
      in rbind (reject (keys kv \<noteq> {''id'', ''op'', ''inputs''}) (ValueError msg)) (\<lambda>_.
         rbind (want_list (map_of kv ''inputs'') msg) (\<lambda>xs.
         rbind (reject (length xs \<noteq> 2) (ValueError msg)) (\<lambda>_.
         mapM (\<lambda>x. want_str (Some x) msg) xs))))"

definition read_store :: "nat \<Rightarrow> (string \<times> json) list \<Rightarrow> string res" where
  "read_store stores kv =
     rbind (reject (keys kv \<noteq> {''id'', ''op'', ''input''}) (ValueError ''STORE_U32 is invalid'')) (\<lambda>_.
     rbind (want_str (map_of kv ''input'') ''STORE_U32 is invalid'') (\<lambda>s.
     rbind (reject (stores \<noteq> 0) (ValueError ''STORE_U32 is invalid'')) (\<lambda>_. Inr s)))"

text \<open>One node, given the identifiers read before it and the number of stores among them.\<close>

definition read_dag_node :: "string \<Rightarrow> string set \<Rightarrow> nat \<Rightarrow> json \<Rightarrow> dag_node res" where
  "read_dag_node schema identifiers stores j =
     (let msg = ''node identity or opcode is invalid''
      in rbind (want_dict (Some j) msg) (\<lambda>kv.
         rbind (want_identifier (map_of kv ''id'') msg) (\<lambda>name.
         rbind (reject (name \<in> identifiers) (ValueError msg)) (\<lambda>_.
         rbind (in_texts (map_of kv ''op'') dag_op_of) (\<lambda>known.
         rbind (want known msg) (\<lambda>o'.
         rbind (reject (o' = GE_IMM_U32 \<and> schema \<noteq> GRAPH_V5) (ValueError msg)) (\<lambda>_.
         rbind (reject (o' = MUL_U32 \<and> schema \<notin> {GRAPH_V3, GRAPH_V4, GRAPH_V5}) (ValueError ''MUL_U32 requires graph schema v3'')) (\<lambda>_.
         if o' = LOAD_U32 then
           rbind (read_address schema kv) (\<lambda>a.
           Inr \<lparr>dn_id = name, dn_op = o', dn_deps = [], dn_address = Some a, dn_imm = None\<rparr>)
         else if o' \<in> {ADD_IMM_U32, GE_IMM_U32} then
           rbind (read_immediate schema o' kv) (\<lambda>(s, n).
           Inr \<lparr>dn_id = name, dn_op = o', dn_deps = [s], dn_address = None, dn_imm = Some n\<rparr>)
         else if o' \<in> {ADD_U32, MAX_U32, MUL_U32} then
           rbind (read_operands kv) (\<lambda>xs.
           Inr \<lparr>dn_id = name, dn_op = o', dn_deps = xs, dn_address = None, dn_imm = None\<rparr>)
         else
           rbind (read_store stores kv) (\<lambda>s.
           Inr \<lparr>dn_id = name, dn_op = o', dn_deps = [s], dn_address = None, dn_imm = None\<rparr>)))))))))"

fun read_dag_nodes :: "string \<Rightarrow> string set \<Rightarrow> nat \<Rightarrow> json list \<Rightarrow> dag_node list res" where
  "read_dag_nodes schema identifiers stores [] = Inr []"
| "read_dag_nodes schema identifiers stores (j # js) =
     rbind (read_dag_node schema identifiers stores j) (\<lambda>n.
     rbind (read_dag_nodes schema (insert (dn_id n) identifiers) (if dn_op n = STORE_U32 then stores + 1 else stores) js) (\<lambda>ns.
     Inr (n # ns)))"

section \<open>The schedule\<close>

text \<open>
  \<open>pending\<close> keeps the descriptor order, so the ready node of least position is the first one
  without open dependencies.
\<close>

type_synonym pending = "(dag_node \<times> string list) list"

definition discard_ready :: "string \<Rightarrow> pending \<Rightarrow> pending" where
  "discard_ready name pending =
     map (\<lambda>(n, deps). (n, filter (\<lambda>d. d \<noteq> name) deps)) (filter (\<lambda>(n, _). dn_id n \<noteq> name) pending)"

lemma discard_ready_shorter:
  assumes "find P pending = Some (n, deps)"
  shows "length (discard_ready (dn_id n) pending) < length pending"
proof -
  have "(n, deps) \<in> set pending" using assms by (metis find_Some_iff nth_mem)
  then have "length (filter (\<lambda>(m, _). dn_id m \<noteq> dn_id n) pending) < length pending"
    by (intro length_filter_less [of "(n, deps)"]) auto
  then show ?thesis by (simp add: discard_ready_def)
qed

function schedule_loop :: "pending \<Rightarrow> dag_node list res" where
  "schedule_loop pending =
     (if pending = [] then Inr []
      else (case find (\<lambda>(n, deps). deps = []) pending of
              None \<Rightarrow> Inl (ValueError ''Graph dependencies contain a cycle'')
            | Some (n, _) \<Rightarrow> rbind (schedule_loop (discard_ready (dn_id n) pending)) (\<lambda>ns. Inr (n # ns))))"
  by pat_completeness auto
termination
  by (relation "measure length") (auto dest: discard_ready_shorter)

declare schedule_loop.simps [simp del]

definition scheduled_nodes :: "dag_node list \<Rightarrow> dag_node list res" where
  "scheduled_nodes ns = schedule_loop (map (\<lambda>n. (n, dn_deps n)) ns)"

section \<open>Admission\<close>

definition check_operands :: "dag_node list \<Rightarrow> unit res" where
  "check_operands ns =
     foldM (\<lambda>_ (n, s). case find (\<lambda>m. dn_id m = s) ns of
         None \<Rightarrow> Inl (ValueError ''undefined operand'')
       | Some m \<Rightarrow> reject (dn_op m = STORE_U32) (ValueError ''STORE_U32 cannot be an operand''))
       () (concat (map (\<lambda>n. map (Pair n) (dn_deps n)) ns))"

definition validate_descriptor :: "(string \<times> json) list \<Rightarrow> descriptor res" where
  "validate_descriptor d =
     rbind (reject (keys d \<noteq> {''schema'', ''graph_id'', ''affine'', ''nodes''}) (ValueError ''exact descriptor keys and schema are required'')) (\<lambda>_.
     rbind (graph_schema (map_of d ''schema'')) (\<lambda>schema.
     rbind (want_identifier (map_of d ''graph_id'') ''graph_id must be a bounded ASCII identifier'') (\<lambda>graph.
     rbind (read_affine (map_of d ''affine'')) (\<lambda>af.
     rbind (want_list (map_of d ''nodes'') ''node count is outside the bounded program'') (\<lambda>js.
     rbind (reject (length js < 2 \<or> PROGRAM_CAPACITY < length js) (ValueError ''node count is outside the bounded program'')) (\<lambda>_.
     rbind (read_dag_nodes schema {} 0 js) (\<lambda>ns.
     rbind (reject (length (filter (\<lambda>n. dn_op n = STORE_U32) ns) \<noteq> 1 \<or> dn_op (last ns) \<noteq> STORE_U32)
              (ValueError ''exactly one final STORE_U32 is required'')) (\<lambda>_.
     rbind (check_operands ns) (\<lambda>_.
     rbind (scheduled_nodes ns) (\<lambda>_.
     Inr \<lparr>gd_schema = schema, gd_id = graph, gd_affine = af, gd_nodes = ns\<rparr>))))))))))"

end
