(* ===== verification/Graph_Schedule.thy ===== *)
theory Graph_Schedule
  imports Graph_Descriptor "HOL-Library.Multiset"
begin

text \<open>
  The stable topological schedule: it is a permutation of the nodes in dependency order, it
  leaves an ordered program as it is, and it fails exactly on a cyclic set of nodes.
\<close>

fun topo :: "string set \<Rightarrow> dag_node list \<Rightarrow> bool" where
  "topo seen [] \<longleftrightarrow> True"
| "topo seen (n # ns) \<longleftrightarrow> set (dn_deps n) \<subseteq> seen \<and> dn_id n \<notin> seen \<and> topo (insert (dn_id n) seen) ns"

definition cyclic :: "dag_node set \<Rightarrow> bool" where
  "cyclic S \<longleftrightarrow> S \<noteq> {} \<and> (\<forall>n \<in> S. \<exists>m \<in> S. dn_id m \<in> set (dn_deps n))"

definition pending_inv :: "string set \<Rightarrow> pending \<Rightarrow> bool" where
  "pending_inv fin pending \<longleftrightarrow> distinct (map (dn_id \<circ> fst) pending) \<and>
     (\<forall>(n, deps) \<in> set pending. set deps = set (dn_deps n) - fin \<and> dn_id n \<notin> fin)"

lemma pending_inv_initial:
  "distinct (map dn_id ns) \<Longrightarrow> pending_inv {} (map (\<lambda>n. (n, dn_deps n)) ns)"
  by (auto simp: pending_inv_def comp_def)

lemma find_ready:
  assumes "find (\<lambda>(n, deps). deps = []) pending = Some (n, deps)"
  shows "(n, deps) \<in> set pending" "deps = []"
  using assms by (auto simp: find_Some_iff) (metis nth_mem)

lemma pending_inv_discard:
  assumes inv: "pending_inv fin pending" and mem: "(n, []) \<in> set pending"
  shows "pending_inv (insert (dn_id n) fin) (discard_ready (dn_id n) pending)"
    "set (dn_deps n) \<subseteq> fin" "dn_id n \<notin> fin"
    "mset (map fst pending) = add_mset n (mset (map fst (discard_ready (dn_id n) pending)))"
proof -
  have dist: "distinct (map (dn_id \<circ> fst) pending)" and all: "\<And>m deps. (m, deps) \<in> set pending \<Longrightarrow> set deps = set (dn_deps m) - fin \<and> dn_id m \<notin> fin"
    using inv by (auto simp: pending_inv_def)
  show "set (dn_deps n) \<subseteq> fin" "dn_id n \<notin> fin" using all [OF mem] by auto
  have ids: "map (dn_id \<circ> fst) (discard_ready x pending) = filter (\<lambda>y. y \<noteq> x) (map (dn_id \<circ> fst) pending)" for x
    by (auto simp: discard_ready_def filter_map comp_def case_prod_unfold)
  show "pending_inv (insert (dn_id n) fin) (discard_ready (dn_id n) pending)"
    unfolding pending_inv_def
  proof (intro conjI ballI)
    show "distinct (map (dn_id \<circ> fst) (discard_ready (dn_id n) pending))" unfolding ids using dist by (rule distinct_filter)
  next
    fix p assume "p \<in> set (discard_ready (dn_id n) pending)"
    then obtain m deps where p: "p = (m, filter (\<lambda>d. d \<noteq> dn_id n) deps)" "(m, deps) \<in> set pending" "dn_id m \<noteq> dn_id n"
      by (auto simp: discard_ready_def)
    then show "case p of (m, deps) \<Rightarrow> set deps = set (dn_deps m) - insert (dn_id n) fin \<and> dn_id m \<notin> insert (dn_id n) fin"
      using all [OF p(2)] by auto
  qed
  obtain xs ys where split: "pending = xs @ (n, []) # ys" using mem by (metis split_list)
  have "dn_id n \<notin> (dn_id \<circ> fst) ` set xs" "dn_id n \<notin> (dn_id \<circ> fst) ` set ys" using dist unfolding split by simp_all
  then have "\<forall>q \<in> set xs \<union> set ys. dn_id (fst q) \<noteq> dn_id n" by (metis UnE comp_apply imageI)
  then have "filter (\<lambda>(m, _). dn_id m \<noteq> dn_id n) pending = xs @ ys"
    by (simp add: split case_prod_unfold filter_id_conv)
  then show "mset (map fst pending) = add_mset n (mset (map fst (discard_ready (dn_id n) pending)))"
    by (simp add: discard_ready_def split comp_def case_prod_unfold)
qed

lemma schedule_loop_Inr:
  "schedule_loop pending = Inr ns \<Longrightarrow> pending_inv fin pending \<Longrightarrow> topo fin ns \<and> mset ns = mset (map fst pending)"
proof (induction pending arbitrary: fin ns rule: schedule_loop.induct)
  case (1 pending)
  show ?case
  proof (cases "pending = []")
    case True
    then show ?thesis using "1.prems"(1) by (subst (asm) schedule_loop.simps) simp
  next
    case False
    then obtain n deps ms where n: "find (\<lambda>(n, deps). deps = []) pending = Some (n, deps)"
      and ms: "schedule_loop (discard_ready (dn_id n) pending) = Inr ms" "ns = n # ms"
      using "1.prems"(1) by (subst (asm) schedule_loop.simps) (auto simp: res_simps split: option.splits)
    have mem: "(n, []) \<in> set pending" using find_ready [OF n] by simp
    note d = pending_inv_discard [OF "1.prems"(2) mem]
    have "topo (insert (dn_id n) fin) ms \<and> mset ms = mset (map fst (discard_ready (dn_id n) pending))"
      using "1.IH" [OF False n refl ms(1) d(1)] .
    then show ?thesis using d ms(2) by simp
  qed
qed

lemma schedule_loop_Inl:
  "schedule_loop pending = Inl e \<Longrightarrow> pending_inv fin pending \<Longrightarrow>
   (\<forall>(n, deps) \<in> set pending. set (dn_deps n) \<subseteq> fin \<union> dn_id ` fst ` set pending) \<Longrightarrow>
   e = ValueError ''Graph dependencies contain a cycle'' \<and> (\<exists>S \<subseteq> fst ` set pending. cyclic S)"
proof (induction pending arbitrary: fin rule: schedule_loop.induct)
  case (1 pending)
  have ne: "pending \<noteq> []" using "1.prems"(1) by (subst (asm) schedule_loop.simps) (auto split: if_splits)
  show ?case
  proof (cases "find (\<lambda>(n, deps). deps = []) pending")
    case None
    then have e: "e = ValueError ''Graph dependencies contain a cycle''"
      using "1.prems"(1) ne by (subst (asm) schedule_loop.simps) simp
    have "cyclic (fst ` set pending)"
      unfolding cyclic_def
    proof (intro conjI ballI)
      show "fst ` set pending \<noteq> {}" using ne by simp
      fix n assume "n \<in> fst ` set pending"
      then obtain deps where p: "(n, deps) \<in> set pending" by force
      then have "deps \<noteq> []" using None by (auto simp: find_None_iff)
      then obtain d where "d \<in> set deps" by (cases deps) auto
      then have "d \<in> set (dn_deps n)" "d \<notin> fin" using "1.prems"(2) p by (auto simp: pending_inv_def)
      moreover have "set (dn_deps n) \<subseteq> fin \<union> dn_id ` fst ` set pending" using "1.prems"(3) p by auto
      ultimately show "\<exists>m \<in> fst ` set pending. dn_id m \<in> set (dn_deps n)" by force
    qed
    then show ?thesis using e by blast
  next
    case (Some p)
    obtain n deps where n: "find (\<lambda>(n, deps). deps = []) pending = Some (n, deps)" using Some by (cases p) auto
    have rest: "schedule_loop (discard_ready (dn_id n) pending) = Inl e"
      using "1.prems"(1) ne n by (subst (asm) schedule_loop.simps) (auto simp: res_simps)
    have mem: "(n, []) \<in> set pending" using find_ready [OF n] by simp
    note d = pending_inv_discard [OF "1.prems"(2) mem]
    have sub: "fst ` set (discard_ready (dn_id n) pending) \<subseteq> fst ` set pending" by (force simp: discard_ready_def)
    have ids: "dn_id ` fst ` set pending \<subseteq> insert (dn_id n) (dn_id ` fst ` set (discard_ready (dn_id n) pending))"
      by (force simp: discard_ready_def)
    have "\<forall>(m, deps) \<in> set (discard_ready (dn_id n) pending).
        set (dn_deps m) \<subseteq> insert (dn_id n) fin \<union> dn_id ` fst ` set (discard_ready (dn_id n) pending)"
    proof (intro ballI, clarify)
      fix m deps x assume "(m, deps) \<in> set (discard_ready (dn_id n) pending)" "x \<in> set (dn_deps m)"
        "x \<notin> dn_id ` fst ` set (discard_ready (dn_id n) pending)" "x \<notin> fin"
      moreover from this(1) obtain deps' where "(m, deps') \<in> set pending" by (auto simp: discard_ready_def)
      then have "set (dn_deps m) \<subseteq> fin \<union> dn_id ` fst ` set pending" using "1.prems"(3) by auto
      ultimately show "x = dn_id n" using ids by blast
    qed
    from "1.IH" [OF ne n refl rest d(1) this] obtain S where
      "e = ValueError ''Graph dependencies contain a cycle''" "S \<subseteq> fst ` set (discard_ready (dn_id n) pending)" "cyclic S" by metis
    then show ?thesis using sub by (meson order_trans)
  qed
qed

text \<open>An already ordered program is scheduled as it stands.\<close>

lemma schedule_loop_ordered:
  assumes "topo fin ns" "distinct (map dn_id ns)"
  shows "schedule_loop (map (\<lambda>n. (n, filter (\<lambda>d. d \<notin> fin) (dn_deps n))) ns) = Inr ns"
  using assms
proof (induction ns arbitrary: fin)
  case Nil
  then show ?case by (simp add: schedule_loop.simps)
next
  case (Cons n ns)
  have "filter (\<lambda>d. d \<notin> fin) (dn_deps n) = []" using Cons.prems(1) by (auto simp: filter_empty_conv)
  moreover have "\<forall>m \<in> set ns. dn_id m \<noteq> dn_id n" using Cons.prems(2) by (metis distinct.simps(2) imageI list.set_map list.simps(9))
  then have "filter (\<lambda>(m, _). dn_id m \<noteq> dn_id n) (map (\<lambda>n. (n, filter (\<lambda>d. d \<notin> fin) (dn_deps n))) ns) =
      map (\<lambda>n. (n, filter (\<lambda>d. d \<notin> fin) (dn_deps n))) ns"
    by (auto simp: filter_id_conv)
  then have "discard_ready (dn_id n) (map (\<lambda>n. (n, filter (\<lambda>d. d \<notin> fin) (dn_deps n))) (n # ns)) =
      map (\<lambda>m. (m, filter (\<lambda>d. d \<notin> insert (dn_id n) fin) (dn_deps m))) ns"
    by (simp add: discard_ready_def comp_def case_prod_unfold conj_commute)
  moreover have "schedule_loop (map (\<lambda>m. (m, filter (\<lambda>d. d \<notin> insert (dn_id n) fin) (dn_deps m))) ns) = Inr ns"
    using Cons.prems by (intro Cons.IH) simp_all
  ultimately show ?case by (subst schedule_loop.simps) simp
qed

lemma scheduled_nodes_Inr:
  assumes "scheduled_nodes ns = Inr ms" "distinct (map dn_id ns)"
  shows "topo {} ms" "mset ms = mset ns"
  using schedule_loop_Inr [OF assms(1)[unfolded scheduled_nodes_def] pending_inv_initial [OF assms(2)]] by (simp_all add: comp_def)

lemma scheduled_nodes_Inl:
  assumes "scheduled_nodes ns = Inl e" "distinct (map dn_id ns)" "\<forall>n \<in> set ns. set (dn_deps n) \<subseteq> dn_id ` set ns"
  shows "e = ValueError ''Graph dependencies contain a cycle'' \<and> (\<exists>S \<subseteq> set ns. cyclic S)"
proof -
  have e: "fst ` set (map (\<lambda>n. (n, dn_deps n)) ns) = set ns" by force
  then have "\<forall>(n, deps) \<in> set (map (\<lambda>n. (n, dn_deps n)) ns). set (dn_deps n) \<subseteq> {} \<union> dn_id ` fst ` set (map (\<lambda>n. (n, dn_deps n)) ns)"
    using assms(3) by auto
  from schedule_loop_Inl [OF assms(1)[unfolded scheduled_nodes_def] pending_inv_initial [OF assms(2)] this] e show ?thesis by simp
qed

lemma topo_acyclic:
  assumes "topo seen ns" "S \<subseteq> set ns" "distinct (map dn_id ns)"
  shows "\<not> (cyclic S \<and> (\<forall>n \<in> S. dn_id n \<notin> seen))"
  using assms
proof (induction ns arbitrary: seen S)
  case (Cons n ns)
  show ?case
  proof
    assume c: "cyclic S \<and> (\<forall>n \<in> S. dn_id n \<notin> seen)"
    have "n \<notin> S"
    proof
      assume "n \<in> S"
      then obtain m where "m \<in> S" "dn_id m \<in> set (dn_deps n)" using c by (auto simp: cyclic_def)
      then show False using c Cons.prems(1) by auto
    qed
    then have "S \<subseteq> set ns" using Cons.prems(2) by auto
    moreover have "\<forall>m \<in> S. dn_id m \<notin> insert (dn_id n) seen" using c \<open>S \<subseteq> set ns\<close> Cons.prems(3) by (force simp: image_iff)
    ultimately show False using Cons.IH [of "insert (dn_id n) seen" S] Cons.prems c by auto
  qed
qed (auto simp: cyclic_def)

text \<open>
  C15. The schedule of a node list with distinct identifiers and defined operands is a
  permutation in dependency order when no set of nodes is cyclic, and the reported error is
  raised exactly when some set is; a list already in dependency order is left unchanged.
\<close>

theorem scheduled_nodes_correct:
  assumes "distinct (map dn_id ns)" "\<forall>n \<in> set ns. set (dn_deps n) \<subseteq> dn_id ` set ns"
  shows "(case scheduled_nodes ns of
      Inr ms \<Rightarrow> mset ms = mset ns \<and> topo {} ms \<and> \<not> (\<exists>S \<subseteq> set ns. cyclic S)
    | Inl e \<Rightarrow> e = ValueError ''Graph dependencies contain a cycle'' \<and> (\<exists>S \<subseteq> set ns. cyclic S)) \<and>
    (topo {} ns \<longrightarrow> scheduled_nodes ns = Inr ns)"
proof -
  have "topo {} ns \<longrightarrow> scheduled_nodes ns = Inr ns"
    using schedule_loop_ordered [of "{}" ns] assms(1) by (auto simp: scheduled_nodes_def)
  moreover have "mset ms = mset ns \<and> topo {} ms \<and> \<not> (\<exists>S \<subseteq> set ns. cyclic S)" if ms: "scheduled_nodes ns = Inr ms" for ms
  proof -
    note m = scheduled_nodes_Inr [OF ms assms(1)]
    have "set ms = set ns" "distinct (map dn_id ms)"
      using m(2) assms(1) by (metis mset_eq_setD, metis m(2) mset_eq_imp_distinct_iff mset_map)
    then show ?thesis using m topo_acyclic [OF m(1)] by auto
  qed
  ultimately show ?thesis using scheduled_nodes_Inl [OF _ assms] by (auto split: sum.splits)
qed

definition demo_dag :: "dag_node list" where
  "demo_dag = [\<lparr>dn_id = ''sum'', dn_op = ADD_U32, dn_deps = [''a'', ''b''], dn_address = None, dn_imm = None\<rparr>,
     \<lparr>dn_id = ''a'', dn_op = LOAD_U32, dn_deps = [], dn_address = Some (Selector 0), dn_imm = None\<rparr>,
     \<lparr>dn_id = ''b'', dn_op = LOAD_U32, dn_deps = [], dn_address = Some (Selector 1), dn_imm = None\<rparr>,
     \<lparr>dn_id = ''out'', dn_op = STORE_U32, dn_deps = [''sum''], dn_address = None, dn_imm = None\<rparr>]"

theorem scheduled_nodes_correct_witness:
  "\<exists>ms. scheduled_nodes demo_dag = Inr ms \<and> map dn_id ms = [''a'', ''b'', ''sum'', ''out''] \<and> topo {} ms"
proof -
  have run: "scheduled_nodes demo_dag = Inr (map ((!) demo_dag) [1, 2, 0, 3])" by code_simp
  have "distinct (map dn_id demo_dag)" "\<forall>n \<in> set demo_dag. set (dn_deps n) \<subseteq> dn_id ` set demo_dag"
    by (simp_all add: demo_dag_def)
  from scheduled_nodes_correct [OF this] run show ?thesis by (simp add: demo_dag_def)
qed

end
