(* ===== verification/Graph_Program.thy ===== *)
theory Graph_Program
  imports Graph_Schedule Affine_Fold
begin

text \<open>
  \<open>raveil/graph_device_dag.py\<close>, second part: the compiler from scheduled nodes to at most sixteen
  32-bit instructions over eight registers, the explanation it attaches (the lowering trace)
  with its checker, and the source-level oracle.

  SHA-256 enters as two arguments: \<open>sha\<close> maps a list of 32-bit words to the hexadecimal digest
  of its little-endian bytes, \<open>jsha\<close> maps a descriptor to the digest of its canonical text.
  Use counts, live names and free registers are the record \<open>alloc\<close> of the region compiler.
\<close>

unbundle bit_operations_syntax

section \<open>Encoding\<close>

fun opcode :: "dag_op \<Rightarrow> int" where
  "opcode LOAD_U32 = 1"
| "opcode ADD_U32 = 2"
| "opcode STORE_U32 = 3"
| "opcode MAX_U32 = 4"
| "opcode MUL_U32 = 5"
| "opcode ADD_IMM_U32 = 6"
| "opcode GE_IMM_U32 = 7"

definition encode_load :: "int \<Rightarrow> address \<Rightarrow> int" where
  "encode_load destination a = (case a of
     Selector k \<Rightarrow> push_bit 28 1 OR push_bit 25 destination OR push_bit 22 (int k)
   | Relative r c \<Rightarrow> push_bit 28 1 OR push_bit 25 destination OR push_bit 20 (take_bit 5 r) OR push_bit 15 (take_bit 5 c))"

definition signed_five :: "int \<Rightarrow> int" where
  "signed_five v = (let w = take_bit 5 v in if bit w 4 then w - 32 else w)"

definition relative_load :: "int \<Rightarrow> int \<times> int" where
  "relative_load word = (signed_five (drop_bit 20 word), signed_five (drop_bit 15 word))"

definition encode_binary :: "dag_op \<Rightarrow> int \<Rightarrow> int \<Rightarrow> int \<Rightarrow> int" where
  "encode_binary o' destination a b = push_bit 28 (opcode o') OR push_bit 25 destination OR push_bit 22 a OR push_bit 19 b"

definition encode_store :: "int \<Rightarrow> int" where
  "encode_store s = push_bit 28 3 OR push_bit 25 s"

definition encode_immediate :: "dag_op \<Rightarrow> int \<Rightarrow> int \<Rightarrow> int \<Rightarrow> int" where
  "encode_immediate o' destination s imm = push_bit 28 (opcode o') OR push_bit 25 destination OR push_bit 22 s OR imm"

text \<open>The chain on \<open>op\<close> shared by the compiler and the trace checker, without the store.\<close>

definition encode_node :: "dag_node \<Rightarrow> int \<Rightarrow> int list \<Rightarrow> int" where
  "encode_node n destination regs =
     (if dn_op n = LOAD_U32 then encode_load destination (the (dn_address n))
      else if dn_op n \<in> {ADD_U32, MAX_U32, MUL_U32} then encode_binary (dn_op n) destination (regs ! 0) (regs ! 1)
      else encode_immediate (dn_op n) destination (regs ! 0) (the (dn_imm n)))"

definition program_version :: "descriptor \<Rightarrow> int" where
  "program_version d =
     (if gd_schema d = GRAPH_V5 then 6 else if gd_schema d = GRAPH_V4 then 5 else if gd_schema d = GRAPH_V3 then 4
      else if gd_schema d = GRAPH_V2 then 3 else if list_ex (\<lambda>n. dn_op n = MAX_U32) (gd_nodes d) then 2 else 1)"

section \<open>The compiler\<close>

definition node_uses :: "dag_node list \<Rightarrow> string \<Rightarrow> int" where
  "node_uses ns x = int (count_list (concat (map dn_deps ns)) x)"

definition initial_gd :: "dag_node list \<Rightarrow> alloc \<times> (string \<rightharpoonup> int)" where
  "initial_gd ns = (\<lparr>al_uses = node_uses ns, al_live = Map.empty, al_free = [0, 1, 2, 3, 4, 5, 6, 7], al_words = []\<rparr>, Map.empty)"

definition gd_step :: "alloc \<times> (string \<rightharpoonup> int) \<Rightarrow> dag_node \<Rightarrow> (alloc \<times> (string \<rightharpoonup> int)) res" where
  "gd_step p n = (case p of (s, allocations) \<Rightarrow>
     rbind (mapM (mget (al_live s)) (dn_deps n)) (\<lambda>regs.
     rbind (foldM consume s (dn_deps n)) (\<lambda>s1.
     if dn_op n = STORE_U32
     then Inr (s1\<lparr>al_free := sort (al_free s1), al_words := al_words s1 @ [encode_store (regs ! 0)]\<rparr>, allocations)
     else (case sort (al_free s1) of
        [] \<Rightarrow> Inl (ValueError ''Graph requires more than eight live values'')
      | dst # rest \<Rightarrow>
          Inr (s1\<lparr>al_live := (al_live s1)(dn_id n \<mapsto> dst), al_free := rest, al_words := al_words s1 @ [encode_node n dst regs]\<rparr>,
               allocations(dn_id n \<mapsto> dst))))))"

definition gd_allocate :: "dag_node list \<Rightarrow> (int list \<times> (string \<rightharpoonup> int)) res" where
  "gd_allocate ns = rbind (foldM gd_step (initial_gd ns) ns) (\<lambda>(s, allocations). Inr (al_words s, allocations))"

text \<open>\<open>struct.unpack("<8I", bytes.fromhex(digest))\<close>\<close>

definition hex_digit :: "char \<Rightarrow> int" where
  "hex_digit c = (let n = int (of_char c) in if n \<le> 57 then n - 48 else n - 87)"

definition hex_byte :: "string \<Rightarrow> nat \<Rightarrow> int" where
  "hex_byte s k = 16 * hex_digit (s ! (2 * k)) + hex_digit (s ! (2 * k + 1))"

definition digest_words :: "string \<Rightarrow> int list" where
  "digest_words s = map (\<lambda>k. hex_byte s (4 * k) + 2 ^ 8 * hex_byte s (4 * k + 1) + 2 ^ 16 * hex_byte s (4 * k + 2) + 2 ^ 24 * hex_byte s (4 * k + 3)) [0..<8]"

definition MAGIC_PROGRAM :: int where
  "MAGIC_PROGRAM = 0x52504731"

definition program_payload :: "int \<Rightarrow> string \<Rightarrow> int list \<Rightarrow> int list" where
  "program_payload version digest instructions =
     [MAGIC_PROGRAM, version, int (length instructions), int VALUE_REGISTERS] @ digest_words digest @ instructions @
     replicate (PROGRAM_CAPACITY - length instructions) 0 @ [0, 0, 0, 0]"

section \<open>The lowering trace\<close>

definition opt_json :: "('a \<Rightarrow> json) \<Rightarrow> 'a option \<Rightarrow> json" where
  "opt_json f x = (case x of None \<Rightarrow> JNull | Some y \<Rightarrow> f y)"

definition address_json :: "address \<Rightarrow> json" where
  "address_json a = (case a of
     Selector k \<Rightarrow> JStr (selector_names ! k)
   | Relative r c \<Rightarrow> JDict [(''row_delta'', JInt r), (''column_delta'', JInt c)])"

definition use_indices :: "dag_node list \<Rightarrow> string \<Rightarrow> nat list" where
  "use_indices ns x = concat (map (\<lambda>(i, n). replicate (count_list (dn_deps n) x) i) (enumerate 0 ns))"

definition last_use :: "dag_node list \<Rightarrow> dag_node \<Rightarrow> nat option" where
  "last_use ns n = (let us = use_indices ns (dn_id n) in if dn_op n \<noteq> STORE_U32 \<and> us \<noteq> [] then Some (Max (set us)) else None)"

definition jnat :: "nat \<Rightarrow> json" where
  "jnat k = JInt (int k)"

definition live_range :: "dag_node list \<Rightarrow> nat \<Rightarrow> nat \<Rightarrow> dag_node \<Rightarrow> json" where
  "live_range ns size_n index n =
     (if dn_op n \<noteq> STORE_U32 then JList [jnat index, jnat (case last_use ns n of Some k \<Rightarrow> k | None \<Rightarrow> size_n - 1)] else JNull)"

definition trace_entry :: "descriptor \<Rightarrow> dag_node list \<Rightarrow> nat \<Rightarrow> (string \<rightharpoonup> int) \<Rightarrow> nat \<Rightarrow> dag_node \<times> int \<Rightarrow> json" where
  "trace_entry d ns size_n allocations index p = (case p of (n, word) \<Rightarrow>
     (let produces = dn_op n \<noteq> STORE_U32; us = use_indices ns (dn_id n)
      in JDict ([(''index'', jnat index), (''node_id'', JStr (dn_id n)), (''op'', JStr (dag_op_name (dn_op n))),
           (''dependencies'', JList (map JStr (dn_deps n))), (''selector'', opt_json address_json (dn_address n)),
           (''fan_out'', jnat (length us)), (''consumers'', JList (map (\<lambda>k. JStr (dn_id (ns ! k))) us)),
           (''encoded_word'', JInt word), (''source_registers'', JList (map (\<lambda>s. JInt (the (allocations s))) (dn_deps n))),
           (''destination_register'', if produces then JInt (the (allocations (dn_id n))) else JNull),
           (''definition_index'', if produces then jnat index else JNull),
           (''last_use_index'', opt_json jnat (last_use ns n)),
           (''live_range'', live_range ns size_n index n),
           (''release_after_index'', opt_json jnat (last_use ns n))] @
           (if program_version d \<ge> 5 then [(''immediate'', opt_json JInt (dn_imm n))] else []))))"

definition trace_schema :: "descriptor \<Rightarrow> string" where
  "trace_schema d = (if program_version d \<ge> 5 then ''raveil.graph-device-lowering-trace/v2'' else ''raveil.graph-device-lowering-trace/v1'')"

definition lowering_trace :: "(int list \<Rightarrow> string) \<Rightarrow> string \<Rightarrow> descriptor \<Rightarrow> dag_node list \<Rightarrow> int list \<Rightarrow> (string \<rightharpoonup> int) \<Rightarrow> (string \<times> json) list" where
  "lowering_trace sha identity d ns instructions allocations =
     [(''schema'', JStr (trace_schema d)), (''graph_id'', JStr (gd_id d)), (''descriptor_canonical_sha256'', JStr identity),
      (''program_version'', JInt (program_version d)), (''instruction_count'', jnat (length instructions)),
      (''program_sha256'', JStr (sha (int (length instructions) # instructions))),
      (''instructions'', JList (map (\<lambda>(i, p). trace_entry d ns (length instructions) allocations i p) (enumerate 0 (zip ns instructions))))]"

text \<open>Python's \<open>==\<close> on JSON values: \<open>True\<close> equals \<open>1\<close>, and dictionaries are compared without order.\<close>

fun py_eq :: "json \<Rightarrow> json \<Rightarrow> bool" where
  "py_eq (JList xs) (JList ys) \<longleftrightarrow> list_all2 py_eq xs ys"
| "py_eq (JDict a) (JDict b) \<longleftrightarrow> length a = length b \<and>
     list_all (\<lambda>(k, x). case map_of b k of None \<Rightarrow> False | Some y \<Rightarrow> py_eq x y) a"
| "py_eq (JBool b) (JInt n) \<longleftrightarrow> n = (if b then 1 else 0)"
| "py_eq (JInt n) (JBool b) \<longleftrightarrow> n = (if b then 1 else 0)"
| "py_eq x y \<longleftrightarrow> x = y"

text \<open>The checker of the trace. \<open>expect\<close> is one comparison \<open>entry[key] != value\<close>.\<close>

definition expect :: "(string \<times> json) list \<Rightarrow> string \<Rightarrow> json \<Rightarrow> bool" where
  "expect e k v \<longleftrightarrow> (case map_of e k of Some x \<Rightarrow> py_eq x v | None \<Rightarrow> False)"

definition entry_keys :: "descriptor \<Rightarrow> string set" where
  "entry_keys d = {''index'', ''node_id'', ''op'', ''dependencies'', ''selector'', ''fan_out'', ''consumers'', ''encoded_word'', ''source_registers'',
     ''destination_register'', ''definition_index'', ''last_use_index'', ''live_range'', ''release_after_index''} \<union>
     (if program_version d \<ge> 5 then {''immediate''} else {})"

definition check_entry :: "descriptor \<Rightarrow> dag_node list \<Rightarrow> nat \<Rightarrow> (string \<rightharpoonup> int) \<Rightarrow> nat \<times> dag_node \<times> int \<times> json \<Rightarrow> (string \<rightharpoonup> int) res" where
  "check_entry d ns size_n allocations p = (case p of (index, n, word, j) \<Rightarrow>
     rbind (want_dict (Some j) ''lowering trace instruction fields are invalid'') (\<lambda>e.
     rbind (reject (keys e \<noteq> entry_keys d) (ValueError ''lowering trace instruction fields are invalid'')) (\<lambda>_.
     rbind (reject (program_version d \<ge> 5 \<and> map_of e ''immediate'' \<noteq> Some (opt_json JInt (dn_imm n))) (ValueError ''lowering trace immediate is invalid'')) (\<lambda>_.
     rbind (mapM (mget allocations) (dn_deps n)) (\<lambda>regs.
     (let us = use_indices ns (dn_id n); produces = dn_op n \<noteq> STORE_U32; destination = f_d word
      in rbind (reject (\<not> (expect e ''index'' (jnat index) \<and> expect e ''node_id'' (JStr (dn_id n)) \<and> expect e ''op'' (JStr (dag_op_name (dn_op n))) \<and>
                  expect e ''dependencies'' (JList (map JStr (dn_deps n))) \<and> expect e ''selector'' (opt_json address_json (dn_address n)) \<and>
                  expect e ''fan_out'' (jnat (length us)) \<and> expect e ''consumers'' (JList (map (\<lambda>k. JStr (dn_id (ns ! k))) us)) \<and>
                  expect e ''encoded_word'' (JInt word) \<and> expect e ''source_registers'' (JList (map JInt regs))))
                (ValueError ''lowering trace does not match the descriptor or words'')) (\<lambda>_.
         rbind (reject (\<not> (expect e ''destination_register'' (if produces then JInt destination else JNull) \<and>
                  expect e ''definition_index'' (if produces then jnat index else JNull) \<and>
                  expect e ''last_use_index'' (opt_json jnat (last_use ns n)) \<and>
                  expect e ''live_range'' (live_range ns size_n index n) \<and>
                  expect e ''release_after_index'' (opt_json jnat (last_use ns n))))
                (ValueError ''lowering trace lifetime or register is invalid'')) (\<lambda>_.
         rbind (reject (word \<noteq> (if produces then encode_node n destination regs else encode_store (regs ! 0)))
                (ValueError ''lowering trace encoded word is invalid'')) (\<lambda>_.
         Inr (if produces then allocations(dn_id n \<mapsto> destination) else allocations))))))))))"

definition validate_lowering_trace :: "(int list \<Rightarrow> string) \<Rightarrow> ((string \<times> json) list \<Rightarrow> string) \<Rightarrow> (string \<times> json) list \<Rightarrow> (string \<times> json) list \<Rightarrow> int list \<Rightarrow> unit res" where
  "validate_lowering_trace sha jsha value trace instructions =
     rbind (validate_descriptor value) (\<lambda>d.
     rbind (reject (keys trace \<noteq> {''schema'', ''graph_id'', ''descriptor_canonical_sha256'', ''program_version'', ''instruction_count'', ''program_sha256'', ''instructions''} \<or>
                \<not> (expect trace ''schema'' (JStr (trace_schema d)) \<and> expect trace ''graph_id'' (JStr (gd_id d)) \<and>
                   expect trace ''descriptor_canonical_sha256'' (JStr (jsha value)) \<and> expect trace ''program_version'' (JInt (program_version d)) \<and>
                   expect trace ''instruction_count'' (jnat (length instructions))))
              (ValueError ''lowering trace identity is invalid'')) (\<lambda>_.
     rbind (reject (\<not> expect trace ''program_sha256'' (JStr (sha (int (length instructions) # instructions))))
              (ValueError ''lowering trace program identity is invalid'')) (\<lambda>_.
     rbind (want_list (map_of trace ''instructions'') ''lowering trace instruction count is invalid'') (\<lambda>entries.
     rbind (reject (length entries \<noteq> length (gd_nodes d)) (ValueError ''lowering trace instruction count is invalid'')) (\<lambda>_.
     rbind (scheduled_nodes (gd_nodes d)) (\<lambda>ns.
     rbind (foldM (check_entry d ns (length instructions)) Map.empty (enumerate 0 (zip ns (zip instructions entries)))) (\<lambda>_.
     Inr ())))))))"

section \<open>Compiled programs\<close>

record gd_program =
  pg_graph :: string
  pg_affine :: affine
  pg_instructions :: "int list"
  pg_digest :: string
  pg_trace :: "(string \<times> json) list"
  pg_payload :: "int list"
  pg_transactions :: nat

definition compile_descriptor :: "(int list \<Rightarrow> string) \<Rightarrow> ((string \<times> json) list \<Rightarrow> string) \<Rightarrow> (string \<times> json) list \<Rightarrow> gd_program res" where
  "compile_descriptor sha jsha value =
     rbind (validate_descriptor value) (\<lambda>d.
     rbind (scheduled_nodes (gd_nodes d)) (\<lambda>ns.
     rbind (gd_allocate ns) (\<lambda>(instructions, allocations).
     (let digest = sha (int (length instructions) # instructions);
          payload = program_payload (program_version d) digest instructions;
          trace = lowering_trace sha (jsha value) d ns instructions allocations
      in rbind (validate_lowering_trace sha jsha value trace instructions) (\<lambda>_.
         Inr \<lparr>pg_graph = gd_id d, pg_affine = gd_affine d, pg_instructions = instructions, pg_digest = digest, pg_trace = trace,
              pg_payload = payload, pg_transactions = length (filter (\<lambda>w. f_op w = 1) instructions) + 1\<rparr>)))))"

definition affine_json :: "affine \<Rightarrow> json" where
  "affine_json a = JDict [(''rows'', JInt (af_rows a)), (''columns'', JInt (af_columns a)),
     (''input_stride'', JInt (af_input a)), (''output_stride'', JInt (af_output a))]"

text \<open>The dictionary \<open>compile_descriptor\<close> returns.\<close>

definition program_dict :: "gd_program \<Rightarrow> (string \<times> json) list" where
  "program_dict p =
     [(''graph_id'', JStr (pg_graph p)), (''affine'', affine_json (pg_affine p)), (''instruction_count'', jnat (length (pg_instructions p))),
      (''instructions'', JList (map JInt (pg_instructions p))), (''program_sha256'', JStr (pg_digest p)),
      (''lowering_trace'', JDict (pg_trace p)), (''payload'', JList (map JInt (pg_payload p))), (''transactions_per_output'', jnat (pg_transactions p))]"

section \<open>The oracle\<close>

definition node_address :: "address \<Rightarrow> int \<Rightarrow> int \<Rightarrow> int" where
  "node_address a center stride = (case a of
     Selector k \<Rightarrow> center + [0, -stride, stride, -1, 1] ! k
   | Relative r c \<Rightarrow> center + r * stride + c)"

text \<open>One node of one cell: an environment update, or for the store the stored word.\<close>

definition oracle_node :: "int list \<Rightarrow> int \<Rightarrow> int \<Rightarrow> (string \<rightharpoonup> int) \<times> int option \<Rightarrow> dag_node \<Rightarrow> ((string \<rightharpoonup> int) \<times> int option) res" where
  "oracle_node words center stride p n = (case p of (values, out) \<Rightarrow>
     rbind (mapM (mget values) (dn_deps n)) (\<lambda>args.
     (case dn_op n of
        LOAD_U32 \<Rightarrow> rbind (py_nth words (node_address (the (dn_address n)) center stride)) (\<lambda>v. Inr (values(dn_id n \<mapsto> v), out))
      | ADD_U32 \<Rightarrow> Inr (values(dn_id n \<mapsto> take_bit 32 (args ! 0 + args ! 1)), out)
      | MAX_U32 \<Rightarrow> Inr (values(dn_id n \<mapsto> max (args ! 0) (args ! 1)), out)
      | MUL_U32 \<Rightarrow> Inr (values(dn_id n \<mapsto> take_bit 32 (args ! 0 * args ! 1)), out)
      | ADD_IMM_U32 \<Rightarrow> Inr (values(dn_id n \<mapsto> take_bit 32 (args ! 0 + the (dn_imm n))), out)
      | GE_IMM_U32 \<Rightarrow> Inr (values(dn_id n \<mapsto> if args ! 0 \<ge> the (dn_imm n) then 1 else 0), out)
      | STORE_U32 \<Rightarrow> Inr (values, Some (args ! 0)))))"

text \<open>\<open>output[index] = word\<close> on a list: a negative index counts from the end.\<close>

definition py_set :: "'a list \<Rightarrow> int \<Rightarrow> 'a \<Rightarrow> 'a list res" where
  "py_set xs i v =
     (if 0 \<le> i \<and> i < int (length xs) then Inr (xs[nat i := v])
      else if i < 0 \<and> 0 \<le> int (length xs) + i then Inr (xs[nat (int (length xs) + i) := v])
      else Inl IndexError)"

definition store_cell :: "int list \<Rightarrow> int \<Rightarrow> int option \<Rightarrow> int list res" where
  "store_cell outp index out = (case out of None \<Rightarrow> Inr outp | Some v \<Rightarrow> py_set outp index v)"

text \<open>The word of the input window under a cell, and the word of the output it stores.\<close>

definition center_index :: "affine \<Rightarrow> nat \<Rightarrow> nat \<Rightarrow> int" where
  "center_index af row column = (int row + 1) * af_input af + int column + 1"

definition store_index :: "affine \<Rightarrow> nat \<Rightarrow> nat \<Rightarrow> int" where
  "store_index af row column = int row * af_output af + int column"

definition oracle_cell :: "affine \<Rightarrow> dag_node list \<Rightarrow> int list \<Rightarrow> int list \<Rightarrow> nat \<times> nat \<Rightarrow> int list res" where
  "oracle_cell af ns words outp p = (case p of (row, column) \<Rightarrow>
     rbind (foldM (oracle_node words (center_index af row column) (af_input af)) (Map.empty, None) ns) (\<lambda>(_, out).
     store_cell outp (store_index af row column) out))"

definition graph_oracle :: "(string \<times> json) list \<Rightarrow> int list \<Rightarrow> int list res" where
  "graph_oracle value words =
     rbind (validate_descriptor value) (\<lambda>d.
     rbind (reject (length words \<noteq> 324) (ValueError ''input must contain exactly 324 words'')) (\<lambda>_.
     rbind (scheduled_nodes (gd_nodes d)) (\<lambda>ns.
     foldM (oracle_cell (gd_affine d) ns words) (replicate 256 0)
       (grid_list (nat (af_rows (gd_affine d))) (nat (af_columns (gd_affine d))) Pair))))"

end

