(* ===== verification/Graph_Fallback.thy ===== *)
theory Graph_Fallback
  imports Graph_Program
begin

text \<open>
  \<open>raveil/graph_device_dag.py\<close>, third part: the standalone software fallback. It takes the
  dictionary of a compiled program, checks payload, digest and every instruction again, and
  interprets the words on eight registers; \<open>expected_transactions\<close> lists the memory traffic of
  the same run. The fields of \<open>affine\<close> are read where the code reads them, so a missing field
  raises only if the loop reaches it.
\<close>

section \<open>The checker\<close>

definition PROGRAM_WORDS :: nat where "PROGRAM_WORDS = 32"

definition payload_word :: "json \<Rightarrow> int res" where
  "payload_word j = (case j of
     JInt n \<Rightarrow> rbind (reject (n < 0 \<or> n \<ge> 2 ^ 32) (ValueError ''fallback program payload is invalid'')) (\<lambda>_. Inr n)
   | _ \<Rightarrow> Inl (ValueError ''fallback program payload is invalid''))"

definition read_payload :: "(string \<times> json) list \<Rightarrow> int list res" where
  "read_payload program =
     (let msg = ''fallback program payload is invalid''
      in rbind (want_list (map_of program ''payload'') msg) (\<lambda>js.
         rbind (reject (length js \<noteq> PROGRAM_WORDS) (ValueError msg)) (\<lambda>_.
         mapM payload_word js)))"

text \<open>One instruction: the registers defined so far, and the number of stores.\<close>

definition fallback_instr :: "int \<Rightarrow> nat \<Rightarrow> int set \<times> nat \<Rightarrow> nat \<times> int \<Rightarrow> (int set \<times> nat) res" where
  "fallback_instr version size_n s p = (case (s, p) of ((defined, stores), (index, w)) \<Rightarrow>
     if f_op w = 1 then
       (let (row_delta, column_delta) = relative_load w;
            legacy_invalid = (version < 3 \<and> (f_a w > 4 \<or> take_bit 22 w \<noteq> 0));
            relative_invalid = (version \<ge> 3 \<and> (take_bit 15 w \<noteq> 0 \<or> row_delta \<notin> {-1, 0, 1} \<or> column_delta \<notin> {-1, 0, 1}))
        in rbind (reject (Suc index = size_n \<or> legacy_invalid \<or> relative_invalid) (ValueError ''fallback load instruction is invalid'')) (\<lambda>_.
           Inr (insert (f_d w) defined, stores)))
     else if f_op w \<in> {2, 4, 5} then
       rbind (reject (Suc index = size_n \<or> take_bit 19 w \<noteq> 0 \<or> f_a w \<notin> defined \<or> f_b w \<notin> defined \<or>
                (f_op w = 4 \<and> version \<notin> {2, 3, 4, 5, 6}) \<or> (f_op w = 5 \<and> version \<notin> {4, 5, 6}))
              (ValueError ''fallback arithmetic instruction is invalid'')) (\<lambda>_.
       Inr (insert (f_d w) defined, stores))
     else if f_op w \<in> {6, 7} then
       rbind (reject (version \<notin> (if f_op w = 7 then {6} else {5, 6}) \<or> Suc index = size_n \<or> f_a w \<notin> defined)
              (ValueError ''fallback immediate instruction is invalid'')) (\<lambda>_.
       Inr (insert (f_d w) defined, stores))
     else if f_op w = 3 then
       rbind (reject (Suc index \<noteq> size_n \<or> take_bit 25 w \<noteq> 0 \<or> f_d w \<notin> defined) (ValueError ''fallback store instruction is invalid'')) (\<lambda>_.
       Inr (defined, stores + 1))
     else Inl (ValueError ''fallback program contains an unknown opcode''))"

definition validate_fallback_program :: "(int list \<Rightarrow> string) \<Rightarrow> (string \<times> json) list \<Rightarrow> (int list \<times> int list) res" where
  "validate_fallback_program sha program =
     rbind (read_payload program) (\<lambda>payload.
     rbind (want_list (map_of program ''instructions'') ''fallback program payload is invalid'') (\<lambda>js.
     rbind (reject (payload ! 0 \<noteq> MAGIC_PROGRAM \<or> payload ! 1 \<notin> {1, 2, 3, 4, 5, 6} \<or> payload ! 3 \<noteq> int VALUE_REGISTERS)
              (ValueError ''fallback program header is invalid'')) (\<lambda>_.
     (let size_n = nat (payload ! 2); instructions = take size_n (drop 12 payload)
      in rbind (reject (\<not> (2 \<le> payload ! 2 \<and> payload ! 2 \<le> int PROGRAM_CAPACITY) \<or>
                  \<not> expect program ''instruction_count'' (JInt (payload ! 2)) \<or>
                  \<not> py_eq (JList js) (JList (map JInt instructions)) \<or>
                  list_ex (\<lambda>w. w \<noteq> 0) (drop (12 + size_n) payload))
                (ValueError ''fallback program count or padding is invalid'')) (\<lambda>_.
         (let digest = sha (payload ! 2 # instructions)
          in rbind (reject (\<not> expect program ''program_sha256'' (JStr digest) \<or> take 8 (drop 4 payload) \<noteq> digest_words digest)
                    (ValueError ''fallback program digest is invalid'')) (\<lambda>_.
             rbind (foldM (fallback_instr (payload ! 1) size_n) ({}, 0) (enumerate 0 instructions)) (\<lambda>(_, stores).
             rbind (reject (stores \<noteq> 1) (ValueError ''fallback program must have one final store'')) (\<lambda>_.
             Inr (payload, instructions)))))))))) "

section \<open>The interpreter\<close>

text \<open>\<open>affine[field]\<close> used as an integer.\<close>

definition py_int :: "json \<Rightarrow> int res" where
  "py_int j = (case j of JInt n \<Rightarrow> Inr n | JBool b \<Rightarrow> Inr (if b then 1 else 0) | _ \<Rightarrow> Inl TypeError)"

definition affine_field :: "json \<Rightarrow> string \<Rightarrow> int res" where
  "affine_field af k = (case af of JDict d \<Rightarrow> rbind (dget d k) py_int | _ \<Rightarrow> Inl TypeError)"

definition load_offset :: "int \<Rightarrow> int \<Rightarrow> int \<Rightarrow> int res" where
  "load_offset version stride w =
     (if version \<ge> 3 then (case relative_load w of (r, c) \<Rightarrow> Inr (r * stride + c))
      else if f_a w = 0 then Inr 0 else if f_a w = 1 then Inr (- stride) else if f_a w = 2 then Inr stride
      else if f_a w = 3 then Inr (-1) else if f_a w = 4 then Inr 1 else Inl KeyError)"

definition fallback_exec :: "int \<Rightarrow> int list \<Rightarrow> int \<Rightarrow> int \<Rightarrow> int list \<times> int option \<Rightarrow> int \<Rightarrow> (int list \<times> int option) res" where
  "fallback_exec version words center stride s w = (case s of (regs, out) \<Rightarrow>
     (let d = nat (f_d w); a = regs ! nat (f_a w); b = regs ! nat (f_b w); imm = take_bit 22 w
      in if f_op w = 1 then
           rbind (load_offset version stride w) (\<lambda>delta.
           rbind (py_nth words (center + delta)) (\<lambda>v. Inr (regs[d := v], out)))
         else if f_op w = 2 then Inr (regs[d := take_bit 32 (a + b)], out)
         else if f_op w = 4 then Inr (regs[d := max a b], out)
         else if f_op w = 5 then Inr (regs[d := take_bit 32 (a * b)], out)
         else if f_op w = 6 then Inr (regs[d := take_bit 32 (a + imm)], out)
         else if f_op w = 7 then Inr (regs[d := if a \<ge> imm then 1 else 0], out)
         else if f_op w = 3 then Inr (regs, Some (regs ! d))
         else Inl (ValueError ''program contains an unknown opcode'')))"

text \<open>The stored word of a cell is kept aside until the output stride is read; the store is the last instruction.\<close>

definition fallback_cell :: "json \<Rightarrow> int \<Rightarrow> int list \<Rightarrow> int list \<Rightarrow> int list \<Rightarrow> nat \<times> nat \<Rightarrow> int list res" where
  "fallback_cell af version instructions words outp p = (case p of (row, column) \<Rightarrow>
     rbind (affine_field af ''input_stride'') (\<lambda>istride.
     rbind (foldM (fallback_exec version words ((int row + 1) * istride + int column + 1) istride) (replicate VALUE_REGISTERS 0, None) instructions) (\<lambda>(_, out).
     rbind (affine_field af ''output_stride'') (\<lambda>ostride.
     store_cell outp (int row * ostride + int column) out))))"

definition fallback_row :: "json \<Rightarrow> int \<Rightarrow> int list \<Rightarrow> int list \<Rightarrow> int list \<Rightarrow> nat \<Rightarrow> int list res" where
  "fallback_row af version instructions words outp row =
     rbind (affine_field af ''columns'') (\<lambda>columns.
     foldM (fallback_cell af version instructions words) outp (map (Pair row) [0..<nat columns]))"

definition software_fallback :: "(int list \<Rightarrow> string) \<Rightarrow> (string \<times> json) list \<Rightarrow> int list \<Rightarrow> int list res" where
  "software_fallback sha program words =
     rbind (validate_fallback_program sha program) (\<lambda>(payload, instructions).
     rbind (reject (length words \<noteq> 324) (ValueError ''fallback input must contain exactly 324 words'')) (\<lambda>_.
     rbind (dget program ''affine'') (\<lambda>af.
     rbind (affine_field af ''rows'') (\<lambda>rows.
     foldM (fallback_row af (payload ! 1) instructions words) (replicate 256 0) [0..<nat rows]))))"

section \<open>Memory transactions\<close>

record transaction =
  tx_write :: bool
  tx_address :: int
  tx_data :: int

definition instr_transactions :: "int \<Rightarrow> int \<Rightarrow> int list \<Rightarrow> int \<Rightarrow> int \<Rightarrow> int \<Rightarrow> transaction list res" where
  "instr_transactions version stride oracle center index w =
     (if f_op w = 1 then rbind (load_offset version stride w) (\<lambda>delta. Inr [\<lparr>tx_write = False, tx_address = center + delta, tx_data = 0\<rparr>])
      else if f_op w = 3 then rbind (py_nth oracle index) (\<lambda>v. Inr [\<lparr>tx_write = True, tx_address = 324 + index, tx_data = v\<rparr>])
      else if f_op w \<in> {2, 4, 5, 6, 7} then Inr []
      else Inl (ValueError ''program contains an unknown opcode''))"

definition cell_transactions :: "json \<Rightarrow> int \<Rightarrow> int list \<Rightarrow> int \<Rightarrow> int list \<Rightarrow> nat \<times> nat \<Rightarrow> transaction list res" where
  "cell_transactions af version instructions istride oracle p = (case p of (row, column) \<Rightarrow>
     rbind (affine_field af ''output_stride'') (\<lambda>ostride.
     rbind (mapM (instr_transactions version istride oracle ((int row + 1) * istride + int column + 1) (int row * ostride + int column)) instructions) (\<lambda>ts.
     Inr (concat ts))))"

definition row_transactions :: "json \<Rightarrow> int \<Rightarrow> int list \<Rightarrow> int \<Rightarrow> int list \<Rightarrow> nat \<Rightarrow> transaction list res" where
  "row_transactions af version instructions istride oracle row =
     rbind (affine_field af ''columns'') (\<lambda>columns.
     rbind (mapM (cell_transactions af version instructions istride oracle) (map (Pair row) [0..<nat columns])) (\<lambda>ts.
     Inr (concat ts)))"

definition expected_transactions :: "(int list \<Rightarrow> string) \<Rightarrow> (string \<times> json) list \<Rightarrow> int list \<Rightarrow> transaction list res" where
  "expected_transactions sha program words =
     rbind (dget program ''affine'') (\<lambda>af.
     rbind (software_fallback sha program words) (\<lambda>oracle.
     rbind (validate_fallback_program sha program) (\<lambda>(payload, instructions).
     rbind (affine_field af ''input_stride'') (\<lambda>istride.
     rbind (affine_field af ''rows'') (\<lambda>rows.
     rbind (mapM (row_transactions af (payload ! 1) instructions istride oracle) [0..<nat rows]) (\<lambda>ts.
     Inr (concat ts)))))))"

end
