(* ===== verification/Graph_Alloc.thy ===== *)
theory Graph_Alloc
  imports Graph_Fallback Region_Alloc
begin

text \<open>
  What admission establishes of a descriptor, and the register allocation of
  \<open>compile_descriptor\<close> as a relation: \<open>arun\<close> relates a schedule to the words emitted for it
  when every operand is read from the register it lives in and every result goes to a
  register no other live value holds. The compiler, its trace checker and the fallback are
  compared with it by rule induction.
\<close>

section \<open>Admitted descriptors\<close>

fun dag_arity :: "dag_op \<Rightarrow> nat" where
  "dag_arity LOAD_U32 = 0"
| "dag_arity ADD_U32 = 2"
| "dag_arity MAX_U32 = 2"
| "dag_arity MUL_U32 = 2"
| "dag_arity _ = 1"

definition address_ok :: "string \<Rightarrow> address option \<Rightarrow> bool" where
  "address_ok schema a \<longleftrightarrow> (if schema = GRAPH_V1 then \<exists>k < 5. a = Some (Selector k)
     else \<exists>r \<in> {-1..1}. \<exists>c \<in> {-1..1}. a = Some (Relative r c))"

definition dag_node_ok :: "string \<Rightarrow> dag_node \<Rightarrow> bool" where
  "dag_node_ok schema n \<longleftrightarrow> length (dn_deps n) = dag_arity (dn_op n) \<and>
     (if dn_op n = LOAD_U32 then address_ok schema (dn_address n) else dn_address n = None) \<and>
     (if dn_op n \<in> {ADD_IMM_U32, GE_IMM_U32} then \<exists>m \<in> {0..MAX_IMMEDIATE}. dn_imm n = Some m else dn_imm n = None) \<and>
     (dn_op n = MUL_U32 \<longrightarrow> schema \<in> {GRAPH_V3, GRAPH_V4, GRAPH_V5}) \<and>
     (dn_op n = ADD_IMM_U32 \<longrightarrow> schema \<in> {GRAPH_V4, GRAPH_V5}) \<and> (dn_op n = GE_IMM_U32 \<longrightarrow> schema = GRAPH_V5)"

definition affine_ok :: "affine \<Rightarrow> bool" where
  "affine_ok a \<longleftrightarrow> 1 \<le> af_rows a \<and> af_rows a \<le> 16 \<and> 1 \<le> af_columns a \<and> af_columns a \<le> 16 \<and>
     af_columns a + 2 \<le> af_input a \<and> af_columns a \<le> af_output a \<and>
     (af_rows a + 1) * af_input a + af_columns a < 324 \<and> (af_rows a - 1) * af_output a + af_columns a - 1 < 256"

definition descriptor_ok :: "descriptor \<Rightarrow> bool" where
  "descriptor_ok d \<longleftrightarrow> gd_schema d \<in> {GRAPH_V1, GRAPH_V2, GRAPH_V3, GRAPH_V4, GRAPH_V5} \<and> affine_ok (gd_affine d) \<and>
     2 \<le> length (gd_nodes d) \<and> length (gd_nodes d) \<le> PROGRAM_CAPACITY \<and> distinct (map dn_id (gd_nodes d)) \<and>
     (\<forall>n \<in> set (gd_nodes d). dag_node_ok (gd_schema d) n) \<and>
     (\<exists>ns n. gd_nodes d = ns @ [n] \<and> dn_op n = STORE_U32 \<and> (\<forall>m \<in> set ns. dn_op m \<noteq> STORE_U32)) \<and>
     (\<forall>n \<in> set (gd_nodes d). \<forall>x \<in> set (dn_deps n). \<exists>m \<in> set (gd_nodes d). dn_id m = x \<and> dn_op m \<noteq> STORE_U32)"

lemma in_texts_Inr: "in_texts j f = Inr (Some x) \<Longrightarrow> \<exists>s. j = Some (JStr s) \<and> f s = Some x"
  by (auto simp: in_texts_def split: option.splits json.splits)

lemma int_field_Inr [res_simps]: "int_field d k msg = Inr n \<longleftrightarrow> map_of d k = Some (JInt n)"
  by (auto simp: int_field_def split: option.splits json.splits)

lemma read_delta_Inr: "read_delta d k = Inr n \<Longrightarrow> n \<in> {-1..1}"
  by (auto simp: read_delta_def res_simps)

lemma selector_of_bound: "selector_of s = Some k \<Longrightarrow> k < 5"
  by (auto simp: selector_of_def dest!: map_of_SomeD set_zip_rightD)

lemma read_address_Inr:
  assumes "read_address schema kv = Inr a"
  shows "address_ok schema (Some a)"
proof (cases "schema = GRAPH_V1")
  case True
  then obtain s k where "selector_of s = Some k" "a = Selector k"
    using assms by (auto simp: read_address_def res_simps)
  then show ?thesis using True selector_of_bound by (auto simp: address_ok_def)
next
  case False
  then obtain d r c where "read_delta d ''row_delta'' = Inr r" "read_delta d ''column_delta'' = Inr c" "a = Relative r c"
    using assms by (auto simp: read_address_def res_simps)
  then show ?thesis using False read_delta_Inr by (auto simp: address_ok_def)
qed

lemma read_immediate_Inr:
  "read_immediate schema o' kv = Inr (s, m) \<Longrightarrow>
   m \<in> {0..MAX_IMMEDIATE} \<and> schema \<in> (if o' = GE_IMM_U32 then {GRAPH_V5} else {GRAPH_V4, GRAPH_V5})"
  by (auto simp: read_immediate_def Let_def res_simps split: if_splits)

lemma read_operands_Inr: "read_operands kv = Inr xs \<Longrightarrow> length xs = 2"
  unfolding read_operands_def Let_def by (simp only: res_simps reject_eq) (metis mapM_Inr_length)

lemma read_store_Inr: "read_store stores kv = Inr s \<Longrightarrow> stores = 0"
  unfolding read_store_def by (simp only: res_simps reject_eq) blast

lemma read_dag_node_Inr:
  assumes "read_dag_node schema identifiers stores j = Inr n"
  shows "dag_node_ok schema n \<and> dn_id n \<notin> identifiers \<and> (dn_op n = STORE_U32 \<longrightarrow> stores = 0)"
proof -
  obtain kv name o' where o': "name \<notin> identifiers" "\<not> (o' = GE_IMM_U32 \<and> schema \<noteq> GRAPH_V5)"
    "\<not> (o' = MUL_U32 \<and> schema \<notin> {GRAPH_V3, GRAPH_V4, GRAPH_V5})"
    and rest: "(if o' = LOAD_U32 then
           rbind (read_address schema kv) (\<lambda>a.
           Inr \<lparr>dn_id = name, dn_op = o', dn_deps = [], dn_address = Some a, dn_imm = None\<rparr>)
         else if o' \<in> {ADD_IMM_U32, GE_IMM_U32} then
           rbind (read_immediate schema o' kv) (\<lambda>(s, n).
           Inr \<lparr>dn_id = name, dn_op = o', dn_deps = [s], dn_address = None, dn_imm = Some n\<rparr>)
         else if o' \<in> {ADD_U32, MAX_U32, MUL_U32} then
           rbind (read_operands kv) (\<lambda>xs.
           Inr \<lparr>dn_id = name, dn_op = o', dn_deps = xs, dn_address = None, dn_imm = None\<rparr>)
         else
           rbind (read_store stores kv) (\<lambda>s.
           Inr \<lparr>dn_id = name, dn_op = o', dn_deps = [s], dn_address = None, dn_imm = None\<rparr>)) = Inr n"
    using assms unfolding read_dag_node_def Let_def by (simp only: res_simps reject_eq) blast
  show ?thesis
  proof (cases o')
    case LOAD_U32
    then obtain a where "read_address schema kv = Inr a"
      "\<lparr>dn_id = name, dn_op = LOAD_U32, dn_deps = [], dn_address = Some a, dn_imm = None\<rparr> = n"
      using rest by (auto simp: res_simps)
    then show ?thesis using o'(1) read_address_Inr by (auto simp: dag_node_ok_def)
  next
    case STORE_U32
    then obtain s where "read_store stores kv = Inr s"
      "\<lparr>dn_id = name, dn_op = STORE_U32, dn_deps = [s], dn_address = None, dn_imm = None\<rparr> = n"
      using rest by (auto simp: res_simps)
    then show ?thesis using o'(1) read_store_Inr by (auto simp: dag_node_ok_def)
  qed (use rest o' in \<open>auto simp: res_simps dag_node_ok_def dest!: read_operands_Inr read_immediate_Inr split: if_splits prod.splits\<close>)
qed

lemma read_dag_nodes_Inr:
  "read_dag_nodes schema identifiers stores js = Inr ns \<Longrightarrow>
   (\<forall>n \<in> set ns. dag_node_ok schema n \<and> dn_id n \<notin> identifiers) \<and> distinct (map dn_id ns) \<and> length ns = length js"
proof (induction js arbitrary: identifiers stores ns)
  case (Cons j js)
  then obtain n ms where n: "read_dag_node schema identifiers stores j = Inr n" "ns = n # ms"
    "read_dag_nodes schema (insert (dn_id n) identifiers) (if dn_op n = STORE_U32 then stores + 1 else stores) js = Inr ms"
    by (auto simp: res_simps)
  with Cons.IH [OF n(3)] read_dag_node_Inr [OF n(1)] show ?case by auto
qed simp

lemma check_operands_Inr:
  assumes "check_operands ns = Inr ()"
  shows "\<forall>n \<in> set ns. \<forall>x \<in> set (dn_deps n). \<exists>m \<in> set ns. dn_id m = x \<and> dn_op m \<noteq> STORE_U32"
proof (intro ballI)
  fix n x assume "n \<in> set ns" "x \<in> set (dn_deps n)"
  then have "(n, x) \<in> set (concat (map (\<lambda>n. map (Pair n) (dn_deps n)) ns))" by auto
  then have "(case find (\<lambda>m. dn_id m = x) ns of None \<Rightarrow> Inl (ValueError ''undefined operand'')
       | Some m \<Rightarrow> reject (dn_op m = STORE_U32) (ValueError ''STORE_U32 cannot be an operand'')) = Inr ()"
    using assms unfolding check_operands_def foldM_unit_all by (metis (no_types, lifting) case_prod_conv)
  then show "\<exists>m \<in> set ns. dn_id m = x \<and> dn_op m \<noteq> STORE_U32"
    by (auto simp: find_Some_iff split: option.splits)
qed

lemma read_affine_Inr:
  assumes "read_affine j = Inr a"
  shows "affine_ok a"
proof -
  obtain rows columns istride ostride where
    "\<not> (\<not> (1 \<le> rows \<and> rows \<le> 16) \<or> \<not> (1 \<le> columns \<and> columns \<le> 16) \<or> istride < columns + 2 \<or> ostride < columns \<or>
        (rows + 1) * istride + columns \<ge> 324 \<or> (rows - 1) * ostride + columns - 1 \<ge> 256)"
    "\<lparr>af_rows = rows, af_columns = columns, af_input = istride, af_output = ostride\<rparr> = a"
    using assms unfolding read_affine_def Let_def by (simp only: res_simps reject_eq sum.inject) blast
  then show ?thesis unfolding affine_ok_def by auto
qed

lemma graph_schema_Inr: "graph_schema j = Inr s \<Longrightarrow> s \<in> {GRAPH_V1, GRAPH_V2, GRAPH_V3, GRAPH_V4, GRAPH_V5}"
  by (auto simp: graph_schema_def res_simps dest!: in_texts_Inr split: if_splits)

lemma single_store:
  assumes "length (filter (\<lambda>n. dn_op n = STORE_U32) ns) = 1" "dn_op (last ns) = STORE_U32"
  shows "\<exists>ms n. ns = ms @ [n] \<and> dn_op n = STORE_U32 \<and> (\<forall>m \<in> set ms. dn_op m \<noteq> STORE_U32)"
proof -
  have "ns \<noteq> []" using assms(1) by auto
  then obtain ms n where "ns = ms @ [n]" by (metis append_butlast_last_id)
  then show ?thesis using assms by (auto simp: filter_empty_conv)
qed

lemma validate_descriptor_Inr:
  assumes "validate_descriptor v = Inr d"
  shows "descriptor_ok d" "\<exists>ms. scheduled_nodes (gd_nodes d) = Inr ms"
proof -
  obtain schema graph af js ns ms u where
    v: "graph_schema (map_of v ''schema'') = Inr schema" "read_affine (map_of v ''affine'') = Inr af"
      "\<not> (length js < 2 \<or> PROGRAM_CAPACITY < length js)" "read_dag_nodes schema {} 0 js = Inr ns"
      "\<not> (length (filter (\<lambda>n. dn_op n = STORE_U32) ns) \<noteq> 1 \<or> dn_op (last ns) \<noteq> STORE_U32)"
      "check_operands ns = Inr u" "scheduled_nodes ns = Inr ms"
      "\<lparr>gd_schema = schema, gd_id = graph, gd_affine = af, gd_nodes = ns\<rparr> = d"
    using assms unfolding validate_descriptor_def by (simp only: res_simps reject_eq sum.inject) blast
  note n = read_dag_nodes_Inr [OF v(4)]
  show "descriptor_ok d"
    unfolding descriptor_ok_def v(8) [symmetric] descriptor.simps
    using graph_schema_Inr [OF v(1)] read_affine_Inr [OF v(2)] v(3,5) n check_operands_Inr [of ns] v(6) single_store [of ns] by auto
  show "\<exists>ms. scheduled_nodes (gd_nodes d) = Inr ms" using v(7,8) by auto
qed

section \<open>The schedule ends with the store\<close>

lemma discard_ready_last:
  assumes "x \<noteq> dn_id n"
  shows "discard_ready x (ps @ [(n, deps)]) = discard_ready x ps @ [(n, filter (\<lambda>d. d \<noteq> x) deps)]"
  using assms by (simp add: discard_ready_def)

lemma discard_ready_id:
  "\<forall>(m, ds) \<in> set ps. x \<notin> set ds \<and> dn_id m \<noteq> x \<Longrightarrow> discard_ready x ps = ps"
proof (induction ps)
  case (Cons p ps)
  obtain m ds where p: "p = (m, ds)" by (cases p)
  have "filter (\<lambda>d. d \<noteq> x) ds = ds" using Cons.prems by (auto simp: p filter_id_conv)
  then show ?case using Cons by (auto simp: discard_ready_def p)
qed (simp add: discard_ready_def)

lemma schedule_loop_last:
  assumes "schedule_loop pending = Inr ms" "pending = ps @ [(n, deps)]" "\<forall>(m, ds) \<in> set ps. dn_id n \<notin> set ds \<and> dn_id m \<noteq> dn_id n"
  shows "ms \<noteq> [] \<and> last ms = n"
  using assms
proof (induction pending arbitrary: ps deps ms rule: schedule_loop.induct)
  case (1 pending)
  have ne: "pending \<noteq> []" using "1.prems"(2) by simp
  obtain p where "find (\<lambda>(n, deps). deps = []) pending = Some p"
    using "1.prems"(1) ne by (subst (asm) schedule_loop.simps) (auto split: option.splits)
  then obtain m ds where m: "find (\<lambda>(n, deps). deps = []) pending = Some (m, ds)" by (cases p) auto
  obtain ms' where ms': "schedule_loop (discard_ready (dn_id m) pending) = Inr ms'" "ms = m # ms'"
    using "1.prems"(1) ne m by (subst (asm) schedule_loop.simps) (auto simp: res_simps)
  have mem: "(m, ds) \<in> set pending" "ds = []" using find_ready [OF m] by auto
  show ?case
  proof (cases "(m, ds) \<in> set ps")
    case True
    then have neq: "dn_id m \<noteq> dn_id n" using "1.prems"(3) by auto
    have "\<forall>(k, ds) \<in> set (discard_ready (dn_id m) ps). dn_id n \<notin> set ds \<and> dn_id k \<noteq> dn_id n"
      using "1.prems"(3) by (force simp: discard_ready_def)
    then have "ms' \<noteq> [] \<and> last ms' = n"
      using "1.IH" [OF ne m refl ms'(1)] discard_ready_last [OF neq, of ps deps] "1.prems"(2) by metis
    then show ?thesis using ms'(2) by simp
  next
    case False
    then have mn: "m = n" using mem "1.prems"(2) by auto
    have none: "find (\<lambda>(n, deps). deps = []) ps = None"
    proof (rule ccontr)
      assume "find (\<lambda>(n, deps). deps = []) ps \<noteq> None"
      then obtain q where q: "find (\<lambda>(n, deps). deps = []) ps = Some q" by auto
      have "find (\<lambda>(n, deps). deps = []) pending = find (\<lambda>(n, deps). deps = []) ps"
        using q unfolding "1.prems"(2) by (induction ps) auto
      then have "find (\<lambda>(n, deps). deps = []) ps = Some (m, ds)" using m by simp
      from find_ready(1) [OF this] show False using False by simp
    qed
    have "discard_ready (dn_id n) ps = ps" using "1.prems"(3) by (rule discard_ready_id)
    then have "discard_ready (dn_id m) pending = ps" by (simp add: "1.prems"(2) mn discard_ready_def)
    then have "ps = []" using ms'(1) none by (subst (asm) schedule_loop.simps) (auto split: if_splits)
    then show ?thesis using ms' mn \<open>discard_ready (dn_id m) pending = ps\<close> by (simp add: schedule_loop.simps)
  qed
qed

text \<open>A schedule: value nodes in dependency order, then the store.\<close>

definition sched_ok :: "string \<Rightarrow> dag_node list \<Rightarrow> dag_node \<Rightarrow> bool" where
  "sched_ok schema ns n \<longleftrightarrow> topo {} ns \<and> (\<forall>m \<in> set ns. dag_node_ok schema m \<and> dn_op m \<noteq> STORE_U32) \<and>
     dag_node_ok schema n \<and> dn_op n = STORE_U32 \<and> set (dn_deps n) \<subseteq> dn_id ` set ns \<and> dn_id n \<notin> dn_id ` set ns"

lemma topo_append: "topo seen (xs @ ys) \<longleftrightarrow> topo seen xs \<and> topo (seen \<union> dn_id ` set xs) ys"
  by (induction xs arbitrary: seen) auto

lemma schedule_ok:
  assumes "descriptor_ok d" "scheduled_nodes (gd_nodes d) = Inr ms"
  shows "\<exists>ns n. ms = ns @ [n] \<and> sched_ok (gd_schema d) ns n" "length ms = length (gd_nodes d)" "distinct (map dn_id ms)"
proof -
  have dist: "distinct (map dn_id (gd_nodes d))" using assms(1) by (auto simp: descriptor_ok_def)
  note sched = scheduled_nodes_Inr [OF assms(2) dist]
  show len: "length ms = length (gd_nodes d)" using sched(2) by (metis size_mset)
  show "distinct (map dn_id ms)" using sched(2) dist by (metis mset_eq_imp_distinct_iff mset_map)
  have set: "set ms = set (gd_nodes d)" using sched(2) by (metis mset_eq_setD)
  obtain vs st where vs: "gd_nodes d = vs @ [st]" "dn_op st = STORE_U32" "\<forall>m \<in> set vs. dn_op m \<noteq> STORE_U32"
    using assms(1) by (auto simp: descriptor_ok_def)
  have ok: "\<forall>n \<in> set (vs @ [st]). dag_node_ok (gd_schema d) n"
    and ops: "\<forall>n \<in> set (vs @ [st]). \<forall>x \<in> set (dn_deps n). \<exists>m \<in> set (vs @ [st]). dn_id m = x \<and> dn_op m \<noteq> STORE_U32"
    using assms(1) vs(1) by (auto simp: descriptor_ok_def)
  have nost: "dn_id st \<notin> set (dn_deps m) \<and> (m \<in> set vs \<longrightarrow> dn_id m \<noteq> dn_id st)" if "m \<in> set (vs @ [st])" for m
  proof -
    have "dn_id k \<noteq> dn_id st" if "k \<in> set vs" for k using dist that unfolding vs(1) by (auto simp: image_iff)
    moreover have "dn_id st \<notin> set (dn_deps m)"
      using ops \<open>m \<in> set (vs @ [st])\<close> vs(2) calculation by (metis Un_iff empty_iff empty_set insert_iff list.simps(15) set_append)
    ultimately show ?thesis by auto
  qed
  have "ms \<noteq> [] \<and> last ms = st"
    using schedule_loop_last [OF assms(2)[unfolded scheduled_nodes_def vs(1)], of "map (\<lambda>n. (n, dn_deps n)) vs" st "dn_deps st"] nost by auto
  then obtain ns where ns: "ms = ns @ [st]" by (metis append_butlast_last_id)
  have setn: "set ns = set vs"
  proof -
    have "distinct ms" "distinct (vs @ [st])" using \<open>distinct (map dn_id ms)\<close> dist by (metis distinct_map, metis vs(1) distinct_map)
    then show ?thesis using set by (auto simp: ns vs(1))
  qed
  have "topo {} ns" "topo (dn_id ` set ns) [st]" using sched(1) by (simp_all add: ns topo_append)
  then have "sched_ok (gd_schema d) ns st"
    unfolding sched_ok_def using ok vs setn by auto
  then show "\<exists>ns n. ms = ns @ [n] \<and> sched_ok (gd_schema d) ns n" using ns by blast
qed

section \<open>Allocation as a relation\<close>

text \<open>
  \<open>arun allocations live ns ws\<close>: from the register map \<open>live\<close> the nodes \<open>ns\<close> are lowered to
  \<open>ws\<close>, and the register of every result is recorded in \<open>allocations\<close>.
\<close>

inductive arun :: "(string \<rightharpoonup> int) \<Rightarrow> (string \<rightharpoonup> int) \<Rightarrow> dag_node list \<Rightarrow> int list \<Rightarrow> bool"
  for allocations where
  stored: "dn_op n = STORE_U32 \<Longrightarrow> \<forall>a \<in> set (dn_deps n). live a \<noteq> None \<Longrightarrow>
     arun allocations live [n] [encode_store (map (\<lambda>a. the (live a)) (dn_deps n) ! 0)]"
| computed: "dn_op n \<noteq> STORE_U32 \<Longrightarrow> \<forall>a \<in> set (dn_deps n). live a \<noteq> None \<Longrightarrow> 0 \<le> dst \<Longrightarrow> dst \<le> 7 \<Longrightarrow>
     (\<forall>x r. x \<noteq> dn_id n \<longrightarrow> live' x = Some r \<longrightarrow> live x = Some r \<and> r \<noteq> dst) \<Longrightarrow>
     live' (dn_id n) = Some dst \<Longrightarrow> allocations (dn_id n) = Some dst \<Longrightarrow> arun allocations live' ns ws \<Longrightarrow>
     arun allocations live (n # ns) (encode_node n dst (map (\<lambda>a. the (live a)) (dn_deps n)) # ws)"

definition live_ok :: "(string \<rightharpoonup> int) \<Rightarrow> (string \<rightharpoonup> int) \<Rightarrow> bool" where
  "live_ok allocations live \<longleftrightarrow> (\<forall>x r. live x = Some r \<longrightarrow> 0 \<le> r \<and> r \<le> 7 \<and> allocations x = Some r)"

lemma live_ok_step:
  assumes "live_ok allocations live" "0 \<le> dst" "dst \<le> 7" "allocations (dn_id n) = Some dst" "live' (dn_id n) = Some dst"
    "\<forall>x r. x \<noteq> dn_id n \<longrightarrow> live' x = Some r \<longrightarrow> live x = Some r \<and> r \<noteq> dst"
  shows "live_ok allocations live'"
  using assms unfolding live_ok_def by (metis option.inject)

definition galloc_inv :: "string set \<Rightarrow> dag_node list \<Rightarrow> alloc \<Rightarrow> bool" where
  "galloc_inv seen ns s \<longleftrightarrow> regs_inv s \<and> (\<forall>x. al_uses s x = node_uses ns x) \<and> dom (al_live s) \<subseteq> seen \<and>
     (\<forall>x \<in> seen. 0 < node_uses ns x \<longrightarrow> x \<in> dom (al_live s))"

lemma galloc_inv_initial: "galloc_inv {} ns (fst (initial_gd ns))"
  by (auto simp: galloc_inv_def initial_gd_def regs_inv_def)

lemma node_uses_Cons: "node_uses (n # ns) x = int (count_list (dn_deps n) x) + node_uses ns x"
  by (simp add: node_uses_def)

lemma node_uses_nonneg: "0 \<le> node_uses ns x"
  by (simp add: node_uses_def)

lemma gd_operands:
  assumes inv: "galloc_inv seen (n # ns) s" and deps: "set (dn_deps n) \<subseteq> seen"
  shows "\<forall>a \<in> set (dn_deps n). al_live s a \<noteq> None"
    and "mapM (mget (al_live s)) (dn_deps n) = Inr (map (\<lambda>a. the (al_live s a)) (dn_deps n))"
    and "\<exists>s1. foldM consume s (dn_deps n) = Inr s1 \<and> al_words s1 = al_words s \<and> galloc_inv seen ns s1 \<and>
      (\<forall>x r. al_live s1 x = Some r \<longrightarrow> al_live s x = Some r)"
proof -
  have uses: "al_uses s x = int (count_list (dn_deps n) x) + node_uses ns x" for x
    using inv by (simp add: galloc_inv_def node_uses_Cons)
  have pos: "0 < node_uses (n # ns) x" if "x \<in> set (dn_deps n)" for x
    using that node_uses_nonneg [of ns x] count_list_pos [of "dn_deps n" x] by (simp add: node_uses_Cons)
  have live_args: "x \<in> dom (al_live s)" if "x \<in> set (dn_deps n)" for x
    using inv deps pos [OF that] that by (auto simp: galloc_inv_def)
  then show "\<forall>a \<in> set (dn_deps n). al_live s a \<noteq> None" by auto
  show "mapM (mget (al_live s)) (dn_deps n) = Inr (map (\<lambda>a. the (al_live s a)) (dn_deps n))"
    by (rule mapM_mget_the) (use live_args in auto)
  have counts: "int (count_list (dn_deps n) x) \<le> al_uses s x" for x
    using node_uses_nonneg [of ns x] by (simp add: uses)
  have regs: "regs_inv s" using inv by (simp add: galloc_inv_def)
  obtain s1 where s1: "foldM consume s (dn_deps n) = Inr s1" "regs_inv s1" "al_words s1 = al_words s"
    "\<And>x. al_uses s1 x = al_uses s x - int (count_list (dn_deps n) x)"
    "\<And>x. al_live s1 x = (if x \<in> set (dn_deps n) \<and> al_uses s x = int (count_list (dn_deps n) x) then None else al_live s x)"
    using consume_loop [OF regs live_args counts] by blast
  have "galloc_inv seen ns s1"
    unfolding galloc_inv_def
  proof (intro conjI allI ballI impI)
    show "regs_inv s1" by (fact s1(2))
    show "al_uses s1 x = node_uses ns x" for x by (simp add: s1(4) uses)
    show "dom (al_live s1) \<subseteq> seen" using inv by (auto simp: galloc_inv_def s1(5) split: if_splits)
    show "x \<in> dom (al_live s1)" if "x \<in> seen" "0 < node_uses ns x" for x
      using inv that by (auto simp: galloc_inv_def s1(5) uses node_uses_Cons domIff)
  qed
  then show "\<exists>s1. foldM consume s (dn_deps n) = Inr s1 \<and> al_words s1 = al_words s \<and> galloc_inv seen ns s1 \<and>
      (\<forall>x r. al_live s1 x = Some r \<longrightarrow> al_live s x = Some r)"
    using s1 by (auto split: if_splits)
qed

text \<open>A value node fails only for want of a register and takes one no live operand keeps.\<close>

lemma gd_step_value:
  assumes inv: "galloc_inv seen (n # ns) s" and deps: "set (dn_deps n) \<subseteq> seen" and fresh: "dn_id n \<notin> seen"
    and op: "dn_op n \<noteq> STORE_U32"
  shows "gd_step (s, al) n = Inl (ValueError ''Graph requires more than eight live values'') \<or>
    (\<exists>s' dst. gd_step (s, al) n = Inr (s', al(dn_id n \<mapsto> dst)) \<and> 0 \<le> dst \<and> dst \<le> 7 \<and>
       al_words s' = al_words s @ [encode_node n dst (map (\<lambda>a. the (al_live s a)) (dn_deps n))] \<and>
       galloc_inv (insert (dn_id n) seen) ns s' \<and> al_live s' (dn_id n) = Some dst \<and>
       (\<forall>x r. x \<noteq> dn_id n \<longrightarrow> al_live s' x = Some r \<longrightarrow> al_live s x = Some r \<and> r \<noteq> dst))"
proof -
  obtain s1 where s1: "foldM consume s (dn_deps n) = Inr s1" "al_words s1 = al_words s" "galloc_inv seen ns s1"
      "\<And>x r. al_live s1 x = Some r \<Longrightarrow> al_live s x = Some r"
    using gd_operands(3) [OF inv deps] by blast
  show ?thesis
  proof (cases "sort (al_free s1)")
    case Nil
    then show ?thesis by (simp add: gd_step_def gd_operands(2) [OF inv deps] s1(1) op)
  next
    case (Cons dst rest)
    define s' where "s' = s1\<lparr>al_live := (al_live s1)(dn_id n \<mapsto> dst), al_free := rest,
       al_words := al_words s1 @ [encode_node n dst (map (\<lambda>a. the (al_live s a)) (dn_deps n))]\<rparr>"
    have regs1: "regs_inv s1" and dom1: "dom (al_live s1) \<subseteq> seen" using s1(3) by (auto simp: galloc_inv_def)
    have free: "set (al_free s1) = insert dst (set rest)" "distinct (dst # rest)"
      using Cons regs1 by (metis list.simps(15) set_sort) (metis Cons regs1 regs_inv_def distinct_sort)
    have dst: "dst \<notin> ran (al_live s1)" "0 \<le> dst" "dst \<le> 7"
      using regs1 free(1) by (auto simp: regs_inv_def set_eq_iff)
    have new: "al_live s1 (dn_id n) = None" using dom1 fresh by auto
    have "inj_on (al_live s') (dom (al_live s'))"
      using regs1 dst(1) by (auto simp: s'_def regs_inv_def inj_on_def ran_def)
    moreover have "ran (al_live s') = insert dst (ran (al_live s1))" using new by (simp add: s'_def)
    ultimately have "regs_inv s'" using regs1 free dst by (auto simp: s'_def regs_inv_def)
    then have "galloc_inv (insert (dn_id n) seen) ns s'"
      using s1(3) by (auto simp: galloc_inv_def s'_def)
    moreover have "gd_step (s, al) n = Inr (s', al(dn_id n \<mapsto> dst))"
      by (simp add: gd_step_def gd_operands(2) [OF inv deps] s1(1) op Cons s'_def)
    moreover have "\<forall>x r. x \<noteq> dn_id n \<longrightarrow> al_live s' x = Some r \<longrightarrow> al_live s x = Some r \<and> r \<noteq> dst"
      using s1(4) dst(1) by (auto simp: s'_def ran_def)
    ultimately show ?thesis using dst by (intro disjI2 exI [of _ s'] exI [of _ dst]) (simp add: s'_def s1(2))
  qed
qed

lemma gd_step_store:
  assumes inv: "galloc_inv seen [n] s" and deps: "set (dn_deps n) \<subseteq> seen" and op: "dn_op n = STORE_U32"
  shows "\<exists>s'. gd_step (s, al) n = Inr (s', al) \<and>
     al_words s' = al_words s @ [encode_store (map (\<lambda>a. the (al_live s a)) (dn_deps n) ! 0)]"
proof -
  obtain s1 where "foldM consume s (dn_deps n) = Inr s1" "al_words s1 = al_words s"
    using gd_operands(3) [OF inv deps] by blast
  then show ?thesis by (simp add: gd_step_def gd_operands(2) [OF inv deps] op)
qed

lemma gd_loop:
  assumes "galloc_inv seen (ns @ [n]) s" "topo seen ns" "\<forall>m \<in> set ns. dn_op m \<noteq> STORE_U32"
    "dn_op n = STORE_U32" "set (dn_deps n) \<subseteq> seen \<union> dn_id ` set ns"
  shows "foldM gd_step (s, al) (ns @ [n]) = Inl (ValueError ''Graph requires more than eight live values'') \<or>
    (\<exists>s' al' ws. foldM gd_step (s, al) (ns @ [n]) = Inr (s', al') \<and> al_words s' = al_words s @ ws \<and>
       arun al' (al_live s) (ns @ [n]) ws \<and> (\<forall>x \<in> seen. al' x = al x))"
  using assms
proof (induction ns arbitrary: seen s al)
  case Nil
  then obtain s' where "gd_step (s, al) n = Inr (s', al)"
     "al_words s' = al_words s @ [encode_store (map (\<lambda>a. the (al_live s a)) (dn_deps n) ! 0)]"
    using gd_step_store [of seen n s al] by auto
  moreover have "\<forall>a \<in> set (dn_deps n). al_live s a \<noteq> None" using gd_operands(1) [of seen n "[]" s] Nil by simp
  ultimately show ?case using Nil.prems(4) by (auto intro: arun.stored)
next
  case (Cons m ns)
  have inv: "galloc_inv seen (m # ns @ [n]) s" and m: "set (dn_deps m) \<subseteq> seen" "dn_id m \<notin> seen" "dn_op m \<noteq> STORE_U32"
    using Cons.prems(1-3) by auto
  from gd_step_value [OF inv m, of al] show ?case
  proof (elim disjE exE conjE)
    fix s1 dst
    assume s1: "gd_step (s, al) m = Inr (s1, al(dn_id m \<mapsto> dst))" "0 \<le> dst" "dst \<le> 7"
       "al_words s1 = al_words s @ [encode_node m dst (map (\<lambda>a. the (al_live s a)) (dn_deps m))]"
       "galloc_inv (insert (dn_id m) seen) (ns @ [n]) s1" "al_live s1 (dn_id m) = Some dst"
       "\<forall>x r. x \<noteq> dn_id m \<longrightarrow> al_live s1 x = Some r \<longrightarrow> al_live s x = Some r \<and> r \<noteq> dst"
    have "topo (insert (dn_id m) seen) ns" "\<forall>m \<in> set ns. dn_op m \<noteq> STORE_U32"
      "set (dn_deps n) \<subseteq> insert (dn_id m) seen \<union> dn_id ` set ns"
      using Cons.prems by auto
    from Cons.IH [OF s1(5) this(1,2) Cons.prems(4) this(3), of "al(dn_id m \<mapsto> dst)"]
    show ?thesis
    proof (elim disjE exE conjE)
      fix s' al' ws
      assume IH: "foldM gd_step (s1, al(dn_id m \<mapsto> dst)) (ns @ [n]) = Inr (s', al')" "al_words s' = al_words s1 @ ws"
        "arun al' (al_live s1) (ns @ [n]) ws" "\<forall>x \<in> insert (dn_id m) seen. al' x = (al(dn_id m \<mapsto> dst)) x"
      have "al' (dn_id m) = Some dst" using IH(4) by simp
      then have "arun al' (al_live s) (m # ns @ [n]) (encode_node m dst (map (\<lambda>a. the (al_live s a)) (dn_deps m)) # ws)"
        by (intro arun.computed [OF m(3) gd_operands(1) [OF inv m(1)] s1(2,3,7,6) _ IH(3)])
      moreover have "\<forall>x \<in> seen. al' x = al x" using IH(4) m(2) by auto
      ultimately show ?thesis using s1(1,4) IH(1,2) by auto
    qed (use s1(1) in \<open>simp add: fun_upd_def\<close>)
  qed simp
qed

lemma gd_allocate_arun:
  assumes "sched_ok schema ns n"
  shows "gd_allocate (ns @ [n]) = Inl (ValueError ''Graph requires more than eight live values'') \<or>
    (\<exists>ws allocations. gd_allocate (ns @ [n]) = Inr (ws, allocations) \<and> arun allocations Map.empty (ns @ [n]) ws)"
proof -
  obtain s where s: "initial_gd (ns @ [n]) = (s, Map.empty)" "al_live s = Map.empty" "al_words s = []"
    by (simp add: initial_gd_def)
  have "galloc_inv {} (ns @ [n]) s" using galloc_inv_initial [of "ns @ [n]"] s(1) by simp
  then show ?thesis
    using gd_loop [of "{}" ns n s Map.empty] assms by (auto simp: gd_allocate_def s sched_ok_def)
qed

lemma arun_length: "arun allocations live ns ws \<Longrightarrow> length ws = length ns"
  by (induction rule: arun.induct) simp_all

end
