(* ===== verification/Graph_Correct.thy ===== *)
theory Graph_Correct
  imports Graph_Alloc
begin

text \<open>
  The compiler of \<open>raveil/graph_device_dag.py\<close> against its oracle: the fallback accepts every
  program the compiler returns and computes the oracle's words, the compiler's own check of
  the lowering trace never fails, and the expected transactions have the announced number.
\<close>

unbundle bit_operations_syntax

section \<open>Fields of the emitted words\<close>

lemma load_selector_word:
  assumes "d \<in> {0..7}" "k < 5"
  shows "f_op (encode_load d (Selector k)) = 1" "f_d (encode_load d (Selector k)) = d"
    "f_a (encode_load d (Selector k)) = int k" "take_bit 22 (encode_load d (Selector k)) = 0"
    "0 \<le> encode_load d (Selector k)" "encode_load d (Selector k) < 2 ^ 32"
proof -
  have w: "encode_load d (Selector k) = 1 * 2 ^ 28 + d * 2 ^ 25 + int k * 2 ^ 22 + 0"
    using encode_word [of d "int k" 0 1] assms by (simp add: encode_load_def or.assoc)
  note dec = decode_fields [of 1 d "int k" 0, folded w]
  show "f_op (encode_load d (Selector k)) = 1" "f_d (encode_load d (Selector k)) = d"
    "f_a (encode_load d (Selector k)) = int k" "take_bit 22 (encode_load d (Selector k)) = 0"
    "0 \<le> encode_load d (Selector k)" "encode_load d (Selector k) < 2 ^ 32"
    using dec assms by simp_all
qed

definition relative_word_ok :: "int \<Rightarrow> int \<Rightarrow> int \<Rightarrow> bool" where
  "relative_word_ok d r c \<longleftrightarrow> (let w = encode_load d (Relative r c) in
     f_op w = 1 \<and> f_d w = d \<and> relative_load w = (r, c) \<and> take_bit 15 w = 0 \<and> 0 \<le> w \<and> w < 2 ^ 32)"

lemma relative_words: "list_all (\<lambda>d. list_all (\<lambda>r. list_all (relative_word_ok d r) [-1, 0, 1]) [-1, 0, 1]) [0..7]"
  by code_simp

lemma load_relative_word:
  assumes "d \<in> {0..7}" "r \<in> {-1..1}" "c \<in> {-1..1}"
  shows "f_op (encode_load d (Relative r c)) = 1" "f_d (encode_load d (Relative r c)) = d"
    "relative_load (encode_load d (Relative r c)) = (r, c)" "take_bit 15 (encode_load d (Relative r c)) = 0"
    "0 \<le> encode_load d (Relative r c)" "encode_load d (Relative r c) < 2 ^ 32"
proof -
  have "r \<in> set [-1, 0, 1]" "c \<in> set [-1, 0, 1]" "d \<in> set [0..7]" using assms by auto
  then have "relative_word_ok d r c" using relative_words unfolding list_all_iff by blast
  then show "f_op (encode_load d (Relative r c)) = 1" "f_d (encode_load d (Relative r c)) = d"
    "relative_load (encode_load d (Relative r c)) = (r, c)" "take_bit 15 (encode_load d (Relative r c)) = 0"
    "0 \<le> encode_load d (Relative r c)" "encode_load d (Relative r c) < 2 ^ 32"
    by (simp_all add: relative_word_ok_def Let_def)
qed

lemma opcode_range: "0 \<le> opcode o' \<and> opcode o' < 16"
  by (cases o') simp_all

lemma binary_word:
  fixes o' :: dag_op
  assumes "d \<in> {0..7}" "a \<in> {0..7}" "b \<in> {0..7}"
  defines "w \<equiv> encode_binary o' d a b"
  shows "f_op w = opcode o'" "f_d w = d" "f_a w = a" "f_b w = b" "take_bit 19 w = 0" "0 \<le> w" "w < 2 ^ 32"
proof -
  have w: "w = opcode o' * 2 ^ 28 + d * 2 ^ 25 + a * 2 ^ 22 + b * 2 ^ 19"
    using encode_word [of d a "b * 2 ^ 19" "opcode o'"] assms(1-3)
    unfolding w_def encode_binary_def push_bit_eq_mult [of 19] by (simp add: or.assoc)
  note dec = decode_fields [of "opcode o'" d a "b * 2 ^ 19", folded w]
  have range: "0 \<le> opcode o'" "opcode o' < 16" using opcode_range by auto
  show "f_op w = opcode o'" "f_d w = d" "f_a w = a" "f_b w = b" "0 \<le> w" "w < 2 ^ 32"
    using dec range assms(1-3) by simp_all
  have "w = (opcode o' * 2 ^ 9 + d * 2 ^ 6 + a * 2 ^ 3 + b) * 2 ^ 19" by (simp add: w)
  then show "take_bit 19 w = 0" by (simp only: take_bit_eq_mod mod_mult_self2_is_0)
qed

lemma immediate_word:
  fixes o' :: dag_op
  assumes "d \<in> {0..7}" "a \<in> {0..7}" "m \<in> {0..MAX_IMMEDIATE}"
  defines "w \<equiv> encode_immediate o' d a m"
  shows "f_op w = opcode o'" "f_d w = d" "f_a w = a" "take_bit 22 w = m" "0 \<le> w" "w < 2 ^ 32"
proof -
  have m: "0 \<le> m" "m < 2 ^ 22" using assms(3) by (auto simp: MAX_IMMEDIATE_def)
  have w: "w = opcode o' * 2 ^ 28 + d * 2 ^ 25 + a * 2 ^ 22 + m"
    using encode_word [of d a m "opcode o'"] assms(1,2) m unfolding w_def encode_immediate_def by (simp add: or.assoc)
  note dec = decode_fields [of "opcode o'" d a m, folded w]
  have range: "0 \<le> opcode o'" "opcode o' < 16" using opcode_range by auto
  show "f_op w = opcode o'" "f_d w = d" "f_a w = a" "take_bit 22 w = m" "0 \<le> w" "w < 2 ^ 32"
    using dec range assms(1,2) m by simp_all
qed

lemma store_word:
  assumes "d \<in> {0..7}"
  shows "f_op (encode_store d) = 3" "f_d (encode_store d) = d" "take_bit 25 (encode_store d) = 0"
    "0 \<le> encode_store d" "encode_store d < 2 ^ 32"
proof -
  have "list_all (\<lambda>d. f_op (encode_store d) = 3 \<and> f_d (encode_store d) = d \<and> take_bit 25 (encode_store d) = 0 \<and>
      0 \<le> encode_store d \<and> encode_store d < 2 ^ 32) [0..7]" by code_simp
  then show "f_op (encode_store d) = 3" "f_d (encode_store d) = d" "take_bit 25 (encode_store d) = 0"
    "0 \<le> encode_store d" "encode_store d < 2 ^ 32" using assms unfolding list_all_iff by auto
qed

section \<open>Fallback and oracle on one cell\<close>

definition gsim :: "(string \<rightharpoonup> int) \<Rightarrow> (string \<rightharpoonup> int) \<Rightarrow> int list \<Rightarrow> bool" where
  "gsim live env regs \<longleftrightarrow> length regs = VALUE_REGISTERS \<and> (\<forall>x r. live x = Some r \<longrightarrow> env x = Some (regs ! nat r))"

definition same_out :: "('a \<times> 'o) res \<Rightarrow> ('b \<times> 'o) res \<Rightarrow> bool" where
  "same_out p q \<longleftrightarrow> (case p of Inl e \<Rightarrow> q = Inl e | Inr (_, out) \<Rightarrow> \<exists>v. q = Inr (v, out))"

definition version_of :: "string \<Rightarrow> int \<Rightarrow> bool" where
  "version_of schema version \<longleftrightarrow> version \<in> (if schema = GRAPH_V1 then {1, 2} else if schema = GRAPH_V2 then {3}
     else if schema = GRAPH_V3 then {4} else if schema = GRAPH_V4 then {5} else {6})"

lemma schema_distinct [simp]:
  "GRAPH_V1 \<noteq> GRAPH_V2" "GRAPH_V1 \<noteq> GRAPH_V3" "GRAPH_V1 \<noteq> GRAPH_V4" "GRAPH_V1 \<noteq> GRAPH_V5" "GRAPH_V2 \<noteq> GRAPH_V3" "GRAPH_V2 \<noteq> GRAPH_V4"
  "GRAPH_V2 \<noteq> GRAPH_V5" "GRAPH_V3 \<noteq> GRAPH_V4" "GRAPH_V3 \<noteq> GRAPH_V5" "GRAPH_V4 \<noteq> GRAPH_V5"
  "GRAPH_V2 \<noteq> GRAPH_V1" "GRAPH_V3 \<noteq> GRAPH_V1" "GRAPH_V4 \<noteq> GRAPH_V1" "GRAPH_V5 \<noteq> GRAPH_V1" "GRAPH_V3 \<noteq> GRAPH_V2" "GRAPH_V4 \<noteq> GRAPH_V2"
  "GRAPH_V5 \<noteq> GRAPH_V2" "GRAPH_V4 \<noteq> GRAPH_V3" "GRAPH_V5 \<noteq> GRAPH_V3" "GRAPH_V5 \<noteq> GRAPH_V4"
  by (simp_all add: GRAPH_V1_def GRAPH_V2_def GRAPH_V3_def GRAPH_V4_def GRAPH_V5_def)

lemma version_of_program: "gd_schema d \<in> {GRAPH_V1, GRAPH_V2, GRAPH_V3, GRAPH_V4, GRAPH_V5} \<Longrightarrow> version_of (gd_schema d) (program_version d)"
  by (auto simp: version_of_def program_version_def)

lemma load_word:
  assumes "address_ok schema (Some a)" "version_of schema version" "d \<in> {0..7}"
  shows "f_op (encode_load d a) = 1" "f_d (encode_load d a) = d"
    "\<exists>delta. load_offset version stride (encode_load d a) = Inr delta \<and> node_address a center stride = center + delta"
    "0 \<le> encode_load d a \<and> encode_load d a < 2 ^ 32"
    "\<not> (version < 3 \<and> (f_a (encode_load d a) > 4 \<or> take_bit 22 (encode_load d a) \<noteq> 0))"
    "version \<ge> 3 \<Longrightarrow> take_bit 15 (encode_load d a) = 0 \<and> (\<exists>r \<in> {-1, 0, 1}. \<exists>c \<in> {-1, 0, 1}. relative_load (encode_load d a) = (r, c))"
proof -
  have v: "version \<ge> 3 \<longleftrightarrow> schema \<noteq> GRAPH_V1" using assms(2) by (auto simp: version_of_def split: if_splits)
  consider (sel) k where "schema = GRAPH_V1" "k < 5" "a = Selector k"
    | (rel) r c where "schema \<noteq> GRAPH_V1" "r \<in> {-1..1}" "c \<in> {-1..1}" "a = Relative r c"
    using assms(1) by (auto simp: address_ok_def split: if_splits)
  note cases = this
  show "f_op (encode_load d a) = 1" "f_d (encode_load d a) = d" "0 \<le> encode_load d a \<and> encode_load d a < 2 ^ 32"
    using cases load_selector_word [OF assms(3)] load_relative_word [OF assms(3)] by (metis)+
  show "\<exists>delta. load_offset version stride (encode_load d a) = Inr delta \<and> node_address a center stride = center + delta"
  proof (cases rule: cases)
    case (sel k)
    have "k \<in> {0, 1, 2, 3, 4}" using sel(2) by auto
    then show ?thesis using sel v load_selector_word(3) [OF assms(3) sel(2)]
      by (auto simp: load_offset_def node_address_def)
  next
    case (rel r c)
    then show ?thesis using v load_relative_word(3) [OF assms(3) rel(2,3)] by (simp add: load_offset_def node_address_def)
  qed
  show "\<not> (version < 3 \<and> (f_a (encode_load d a) > 4 \<or> take_bit 22 (encode_load d a) \<noteq> 0))"
  proof (cases rule: cases)
    case (sel k)
    then show ?thesis using load_selector_word(3,4) [OF assms(3) sel(2)] by simp
  qed (use v in simp)
  show "version \<ge> 3 \<Longrightarrow> take_bit 15 (encode_load d a) = 0 \<and> (\<exists>r \<in> {-1, 0, 1}. \<exists>c \<in> {-1, 0, 1}. relative_load (encode_load d a) = (r, c))"
  proof (cases rule: cases)
    case (rel r c)
    then have "r \<in> {-1, 0, 1}" "c \<in> {-1, 0, 1}" by auto
    then show ?thesis using load_relative_word(3,4) [OF assms(3) rel(2,3)] rel(4) by blast
  qed (use v in simp)
qed

lemma node_shape:
  assumes "dag_node_ok schema n" "dn_op n \<noteq> STORE_U32"
  obtains (load) a where "dn_op n = LOAD_U32" "dn_deps n = []" "dn_address n = Some a" "address_ok schema (Some a)"
    | (bin) x y where "dn_op n \<in> {ADD_U32, MAX_U32, MUL_U32}" "dn_deps n = [x, y]"
    | (imm) x m where "dn_op n \<in> {ADD_IMM_U32, GE_IMM_U32}" "dn_deps n = [x]" "dn_imm n = Some m" "m \<in> {0..MAX_IMMEDIATE}"
  using assms by (cases "dn_op n") (auto simp: dag_node_ok_def address_ok_def length_Suc_conv numeral_2_eq_2 split: if_splits)

definition binary_value :: "dag_op \<Rightarrow> int \<Rightarrow> int \<Rightarrow> int" where
  "binary_value o' a b = (if o' = ADD_U32 then take_bit 32 (a + b) else if o' = MAX_U32 then max a b else take_bit 32 (a * b))"

definition immediate_value :: "dag_op \<Rightarrow> int \<Rightarrow> int \<Rightarrow> int" where
  "immediate_value o' a m = (if o' = ADD_IMM_U32 then take_bit 32 (a + m) else if a \<ge> m then 1 else 0)"

text \<open>A value node and its word do the same step on related states.\<close>

lemma value_step:
  assumes ok: "dag_node_ok schema n" "dn_op n \<noteq> STORE_U32" and ver: "version_of schema version"
    and live: "live_ok allocations live" "\<forall>a \<in> set (dn_deps n). live a \<noteq> None" and d: "0 \<le> d" "d \<le> 7"
    and sim: "gsim live env regs"
  shows "\<exists>X. oracle_node words center stride (env, out) n = rbind X (\<lambda>v. Inr (env(dn_id n \<mapsto> v), out)) \<and>
    fallback_exec version words center stride (regs, out) (encode_node n d (map (\<lambda>a. the (live a)) (dn_deps n))) =
      rbind X (\<lambda>v. Inr (regs[nat d := v], out))"
proof -
  let ?rs = "map (\<lambda>a. the (live a)) (dn_deps n)"
  have d7: "d \<in> {0..7}" using d by simp
  have arg: "\<exists>r. live a = Some r \<and> r \<in> {0..7} \<and> env a = Some (regs ! nat r)" if a: "a \<in> set (dn_deps n)" for a
  proof -
    obtain r where "live a = Some r" using live(2) a by auto
    then show ?thesis using live(1) sim by (auto simp: live_ok_def gsim_def)
  qed
  show ?thesis
    using ok
  proof (cases rule: node_shape)
    case (load a)
    note w = load_word [OF load(4) ver d7]
    obtain delta where delta: "load_offset version stride (encode_load d a) = Inr delta" "node_address a center stride = center + delta"
      using w(3) by blast
    show ?thesis
      by (intro exI [of _ "py_nth words (center + delta)"])
        (simp add: oracle_node_def fallback_exec_def encode_node_def load delta w(1,2) Let_def)
  next
    case (bin x y)
    obtain r q where r: "live x = Some r" "r \<in> {0..7}" "live y = Some q" "q \<in> {0..7}"
        "env x = Some (regs ! nat r)" "env y = Some (regs ! nat q)"
      using arg [of x] arg [of y] bin(2) by auto
    have enc: "encode_node n d ?rs = encode_binary (dn_op n) d r q" using bin r by (auto simp: encode_node_def)
    have orc: "oracle_node words center stride (env, out) n = Inr (env(dn_id n \<mapsto> binary_value (dn_op n) (regs ! nat r) (regs ! nat q)), out)"
      using bin(1) by (auto simp: oracle_node_def bin(2) r(5,6) binary_value_def)
    have "fallback_exec version words center stride (regs, out) (encode_binary (dn_op n) d r q) =
        Inr (regs[nat d := binary_value (dn_op n) (regs ! nat r) (regs ! nat q)], out)"
      using bin(1) by (elim insertE) (simp_all add: fallback_exec_def binary_word [OF d7 r(2,4)] binary_value_def Let_def)
    with enc orc show ?thesis by (intro exI [of _ "Inr (binary_value (dn_op n) (regs ! nat r) (regs ! nat q))"]) simp
  next
    case (imm x m)
    obtain r where r: "live x = Some r" "r \<in> {0..7}" "env x = Some (regs ! nat r)" using arg [of x] imm(2) by auto
    have enc: "encode_node n d ?rs = encode_immediate (dn_op n) d r m" using imm r by (auto simp: encode_node_def)
    have orc: "oracle_node words center stride (env, out) n = Inr (env(dn_id n \<mapsto> immediate_value (dn_op n) (regs ! nat r) m), out)"
      using imm(1) by (auto simp: oracle_node_def imm(2,3) r(3) immediate_value_def)
    have "fallback_exec version words center stride (regs, out) (encode_immediate (dn_op n) d r m) =
        Inr (regs[nat d := immediate_value (dn_op n) (regs ! nat r) m], out)"
      using imm(1) by (elim insertE) (simp_all add: fallback_exec_def immediate_word [OF d7 r(2) imm(4)] immediate_value_def Let_def)
    with enc orc show ?thesis by (intro exI [of _ "Inr (immediate_value (dn_op n) (regs ! nat r) m)"]) simp
  qed
qed

lemma gsim_step:
  assumes "gsim live env regs" "0 \<le> d" "d \<le> 7" "live_ok allocations live" "live' x = Some d"
    "\<forall>y r. y \<noteq> x \<longrightarrow> live' y = Some r \<longrightarrow> live y = Some r \<and> r \<noteq> d"
  shows "gsim live' (env(x \<mapsto> v)) (regs[nat d := v])"
  unfolding gsim_def
proof (intro conjI allI impI)
  have len: "length regs = VALUE_REGISTERS" using assms(1) by (simp add: gsim_def)
  then show "length (regs[nat d := v]) = VALUE_REGISTERS" by simp
  fix y r assume y: "live' y = Some r"
  show "(env(x \<mapsto> v)) y = Some (regs[nat d := v] ! nat r)"
  proof (cases "y = x")
    case True
    then have "r = d" using y assms(5) by simp
    then show ?thesis using True assms(2,3) len by (simp add: VALUE_REGISTERS_def)
  next
    case False
    then have r: "live y = Some r" "r \<noteq> d" using assms(6) y by auto
    then have "0 \<le> r" using assms(4) by (auto simp: live_ok_def)
    then have "nat d \<noteq> nat r" using r(2) assms(2) by auto
    then show ?thesis using False r(1) assms(1) by (simp add: gsim_def)
  qed
qed

lemma cell_same_out:
  assumes "arun allocations live ns ws" "\<forall>n \<in> set ns. dag_node_ok schema n" "version_of schema version"
    "live_ok allocations live" "gsim live env regs"
  shows "same_out (foldM (oracle_node words center stride) (env, out) ns) (foldM (fallback_exec version words center stride) (regs, out) ws)"
  using assms
proof (induction arbitrary: env regs out rule: arun.induct)
  case (stored n live)
  obtain x where x: "dn_deps n = [x]"
    using stored.prems(1) stored.hyps(1) by (auto simp: dag_node_ok_def length_Suc_conv)
  obtain r where r: "live x = Some r" using stored.hyps(2) x by auto
  then have r7: "r \<in> {0..7}" "env x = Some (regs ! nat r)" using stored.prems(3,4) by (auto simp: live_ok_def gsim_def)
  then show ?case
    by (simp add: same_out_def oracle_node_def fallback_exec_def x r stored.hyps(1) store_word Let_def)
next
  case (computed n live d live' ns ws)
  obtain X where X: "oracle_node words center stride (env, out) n = rbind X (\<lambda>v. Inr (env(dn_id n \<mapsto> v), out))"
    "fallback_exec version words center stride (regs, out) (encode_node n d (map (\<lambda>a. the (live a)) (dn_deps n))) =
      rbind X (\<lambda>v. Inr (regs[nat d := v], out))"
    using value_step [OF _ computed.hyps(1) computed.prems(2,3) computed.hyps(2-4) computed.prems(4)] computed.prems(1) by (metis list.set_intros(1))
  show ?case
  proof (cases X)
    case (Inl e)
    then show ?thesis by (simp add: X same_out_def)
  next
    case (Inr v)
    have "gsim live' (env(dn_id n \<mapsto> v)) (regs[nat d := v])"
      by (rule gsim_step [OF computed.prems(4) computed.hyps(3,4) computed.prems(3) computed.hyps(6,5)])
    moreover have "live_ok allocations live'"
      by (rule live_ok_step [OF computed.prems(3) computed.hyps(3,4,7,6,5)])
    ultimately show ?thesis
      using computed.IH [of "env(dn_id n \<mapsto> v)" "regs[nat d := v]" out] computed.prems(1,2) by (simp add: X Inr fun_upd_def)
  qed
qed

section \<open>The fallback's own checks\<close>

lemma fallback_instr_value:
  assumes ok: "dag_node_ok schema n" "dn_op n \<noteq> STORE_U32" and ver: "version_of schema version"
    and max: "dn_op n = MAX_U32 \<Longrightarrow> version \<noteq> 1"
    and live: "live_ok allocations live" "\<forall>a \<in> set (dn_deps n). live a \<noteq> None" "ran live \<subseteq> defined" and d: "0 \<le> d" "d \<le> 7"
    and i: "Suc i < size_n"
  defines "w \<equiv> encode_node n d (map (\<lambda>a. the (live a)) (dn_deps n))"
  shows "fallback_instr version size_n (defined, stores) (i, w) = Inr (insert d defined, stores)" "0 \<le> w \<and> w < 2 ^ 32"
proof -
  have d7: "d \<in> {0..7}" using d by simp
  have arg: "\<exists>r. live a = Some r \<and> r \<in> {0..7} \<and> r \<in> defined" if a: "a \<in> set (dn_deps n)" for a
  proof -
    obtain r where "live a = Some r" using live(2) a by auto
    then show ?thesis using live(1,3) by (auto simp: live_ok_def ran_def)
  qed
  have "fallback_instr version size_n (defined, stores) (i, w) = Inr (insert d defined, stores) \<and> 0 \<le> w \<and> w < 2 ^ 32"
    using ok
  proof (cases rule: node_shape)
    case (load a)
    have w: "w = encode_load d a" by (simp add: w_def encode_node_def load)
    note l = load_word [OF load(4) ver d7, folded w]
    obtain r c where rc: "relative_load w = (r, c)" by (cases "relative_load w")
    have "version \<ge> 3 \<Longrightarrow> take_bit 15 w = 0 \<and> r \<in> {-1, 0, 1} \<and> c \<in> {-1, 0, 1}" using l(6) rc by auto
    then show ?thesis using l(1,2,4,5) i by (auto simp: fallback_instr_def rc Let_def)
  next
    case (bin x y)
    obtain r q where r: "live x = Some r" "r \<in> {0..7}" "live y = Some q" "q \<in> {0..7}" "r \<in> defined" "q \<in> defined"
      using arg [of x] arg [of y] bin(2) by auto
    have w: "w = encode_binary (dn_op n) d r q" using bin by (auto simp: w_def encode_node_def r)
    note l = binary_word [OF d7 r(2,4), of "dn_op n", folded w]
    have "dn_op n = MUL_U32 \<Longrightarrow> version \<in> {4, 5, 6}" "dn_op n = MAX_U32 \<Longrightarrow> version \<in> {2, 3, 4, 5, 6}"
      using ok(1) ver max by (auto simp: dag_node_ok_def version_of_def split: if_splits)
    then show ?thesis using bin(1) i l(6,7) by (auto simp: fallback_instr_def l(1-5) r)
  next
    case (imm x m)
    obtain r where r: "live x = Some r" "r \<in> {0..7}" "r \<in> defined" using arg imm(2) by auto
    have w: "w = encode_immediate (dn_op n) d r m" using imm by (auto simp: w_def encode_node_def r)
    note l = immediate_word [OF d7 r(2) imm(4), of "dn_op n", folded w]
    have "dn_op n = GE_IMM_U32 \<Longrightarrow> version = 6" "dn_op n = ADD_IMM_U32 \<Longrightarrow> version \<in> {5, 6}"
      using ok(1) ver by (auto simp: dag_node_ok_def version_of_def split: if_splits)
    then show ?thesis using imm(1) i l(5,6) by (auto simp: fallback_instr_def l(1-4) r)
  qed
  then show "fallback_instr version size_n (defined, stores) (i, w) = Inr (insert d defined, stores)" "0 \<le> w \<and> w < 2 ^ 32" by auto
qed

lemma value_word_dest:
  assumes ok: "dag_node_ok schema n" "dn_op n \<noteq> STORE_U32" and ver: "version_of schema version"
    and live: "live_ok allocations live" "\<forall>a \<in> set (dn_deps n). live a \<noteq> None" and d: "0 \<le> d" "d \<le> 7"
  shows "f_d (encode_node n d (map (\<lambda>a. the (live a)) (dn_deps n))) = d"
proof -
  have d7: "d \<in> {0..7}" using d by simp
  have arg: "the (live a) \<in> {0..7}" if a: "a \<in> set (dn_deps n)" for a
    using live a unfolding live_ok_def by fastforce
  show ?thesis
    using ok
  proof (cases rule: node_shape)
    case (load a)
    then show ?thesis using load_word(2) [OF load(4) ver d7] by (simp add: encode_node_def)
  next
    case (bin x y)
    then show ?thesis using binary_word(2) [OF d7 arg arg] by (auto simp: encode_node_def)
  next
    case (imm x m)
    then show ?thesis using immediate_word(2) [OF d7 arg imm(4)] by (auto simp: encode_node_def)
  qed
qed

lemma fallback_accepts:
  assumes "arun allocations live ns ws" "\<forall>n \<in> set ns. dag_node_ok schema n" "version_of schema version"
    "\<forall>n \<in> set ns. dn_op n = MAX_U32 \<longrightarrow> version \<noteq> 1"
    "live_ok allocations live" "ran live \<subseteq> defined" "i + length ns = size_n"
  shows "\<exists>D. foldM (fallback_instr version size_n) (defined, 0) (enumerate i ws) = Inr (D, 1)"
    "\<forall>w \<in> set ws. 0 \<le> w \<and> w < 2 ^ 32"
proof -
  have "(\<exists>D. foldM (fallback_instr version size_n) (defined, 0) (enumerate i ws) = Inr (D, 1)) \<and> (\<forall>w \<in> set ws. 0 \<le> w \<and> w < 2 ^ 32)"
    using assms
  proof (induction arbitrary: defined i rule: arun.induct)
    case (stored n live)
    obtain x where x: "dn_deps n = [x]"
      using stored.prems(1) stored.hyps(1) by (auto simp: dag_node_ok_def length_Suc_conv)
    obtain r where r: "live x = Some r" using stored.hyps(2) x by auto
    then have "r \<in> {0..7}" "r \<in> defined" using stored.prems(4,5) by (auto simp: live_ok_def ran_def)
    then show ?case using stored.prems(6) using store_word [of r] by (simp add: fallback_instr_def x r)
  next
    case (computed n live d live' ns ws)
    have ns: "ns \<noteq> []" using computed.hyps(8) by (auto elim: arun.cases)
    then have i: "Suc i < size_n" using computed.prems(6) by (cases ns) auto
    have ok: "dag_node_ok schema n" "dn_op n = MAX_U32 \<Longrightarrow> version \<noteq> 1" using computed.prems(1,3) by auto
    note v = fallback_instr_value [OF ok(1) computed.hyps(1) computed.prems(2) ok(2) computed.prems(4) computed.hyps(2) computed.prems(5) computed.hyps(3,4) i]
    have live: "live_ok allocations live'" by (rule live_ok_step [OF computed.prems(4) computed.hyps(3,4,7,6,5)])
    have "ran live' \<subseteq> insert d defined"
    proof
      fix r assume "r \<in> ran live'"
      then obtain y where y: "live' y = Some r" by (auto simp: ran_def)
      then show "r \<in> insert d defined"
        using computed.hyps(5,6) computed.prems(5) by (cases "y = dn_id n") (auto simp: ran_def)
    qed
    then show ?case
      using computed.IH [OF _ computed.prems(2) _ live, of "insert d defined" "Suc i"] computed.prems(1,3,6) v by auto
  qed
  then show "\<exists>D. foldM (fallback_instr version size_n) (defined, 0) (enumerate i ws) = Inr (D, 1)"
    "\<forall>w \<in> set ws. 0 \<le> w \<and> w < 2 ^ 32" by auto
qed

section \<open>The compiler's own trace check\<close>

lemma py_eq_list: "(\<And>x. x \<in> set xs \<Longrightarrow> py_eq (f x) (f x)) \<Longrightarrow> py_eq (JList (map f xs)) (JList (map f xs))"
  by (simp add: list_all2_same list.rel_map)

lemma py_eq_opt: "(\<And>x. py_eq (f x) (f x)) \<Longrightarrow> py_eq (opt_json f a) (opt_json f a)"
  by (simp add: opt_json_def split: option.splits)

lemma py_eq_selector: "py_eq (opt_json address_json a) (opt_json address_json a)"
  by (rule py_eq_opt) (simp add: address_json_def split: address.splits)

lemma py_eq_live_range: "py_eq (live_range ns k i n) (live_range ns k i n)"
  by (simp add: live_range_def jnat_def)

lemmas py_eq_trace = py_eq_selector py_eq_live_range py_eq_list [of _ JStr] py_eq_list [of _ JInt]
  py_eq_opt [of jnat] py_eq_opt [of JInt]

definition entry_fields :: "descriptor \<Rightarrow> dag_node list \<Rightarrow> nat \<Rightarrow> (string \<rightharpoonup> int) \<Rightarrow> nat \<Rightarrow> dag_node \<Rightarrow> int \<Rightarrow> (string \<times> json) list" where
  "entry_fields d ns size_n allocations i n w = (case trace_entry d ns size_n allocations i (n, w) of JDict e \<Rightarrow> e | _ \<Rightarrow> [])"

lemma trace_entry_fields: "trace_entry d ns size_n allocations i (n, w) = JDict (entry_fields d ns size_n allocations i n w)"
  by (simp add: entry_fields_def trace_entry_def Let_def)

lemma entry_keys_ok: "keys (entry_fields d ns size_n allocations i n w) = entry_keys d"
  by (simp add: entry_fields_def trace_entry_def Let_def entry_keys_def)

lemma entry_identity:
  fixes d ns size_n allocations i n w
  defines "e \<equiv> entry_fields d ns size_n allocations i n w"
  shows "expect e ''index'' (jnat i)" "expect e ''node_id'' (JStr (dn_id n))" "expect e ''op'' (JStr (dag_op_name (dn_op n)))"
    "expect e ''dependencies'' (JList (map JStr (dn_deps n)))" "expect e ''selector'' (opt_json address_json (dn_address n))"
    "expect e ''fan_out'' (jnat (length (use_indices ns (dn_id n))))"
    "expect e ''consumers'' (JList (map (\<lambda>k. JStr (dn_id (ns ! k))) (use_indices ns (dn_id n))))"
    "expect e ''encoded_word'' (JInt w)"
    "expect e ''source_registers'' (JList (map (\<lambda>s. JInt (the (allocations s))) (dn_deps n)))"
  unfolding e_def entry_fields_def trace_entry_def Let_def expect_def
  by (simp_all add: jnat_def py_eq_selector list_all2_same list.rel_map)

lemma entry_lifetime:
  fixes d ns size_n allocations i n w
  defines "e \<equiv> entry_fields d ns size_n allocations i n w"
  shows "expect e ''destination_register'' (if dn_op n \<noteq> STORE_U32 then JInt (the (allocations (dn_id n))) else JNull)"
    "expect e ''definition_index'' (if dn_op n \<noteq> STORE_U32 then jnat i else JNull)"
    "expect e ''last_use_index'' (opt_json jnat (last_use ns n))"
    "expect e ''live_range'' (live_range ns size_n i n)"
    "expect e ''release_after_index'' (opt_json jnat (last_use ns n))"
    "program_version d \<ge> 5 \<Longrightarrow> map_of e ''immediate'' = Some (opt_json JInt (dn_imm n))"
  unfolding e_def entry_fields_def trace_entry_def Let_def expect_def
  by (simp_all add: jnat_def py_eq_live_range py_eq_opt)

lemma check_entry_ok:
  assumes regs: "mapM (mget al) (dn_deps n) = Inr regs" "map (\<lambda>s. the (allocations s)) (dn_deps n) = regs"
    and dst: "dn_op n \<noteq> STORE_U32 \<Longrightarrow> allocations (dn_id n) = Some (f_d w)"
    and w: "w = (if dn_op n \<noteq> STORE_U32 then encode_node n (f_d w) regs else encode_store (regs ! 0))"
  shows "check_entry d ns size_n al (i, n, w, trace_entry d ns size_n allocations i (n, w)) =
     Inr (if dn_op n \<noteq> STORE_U32 then al(dn_id n \<mapsto> f_d w) else al)"
proof -
  let ?e = "entry_fields d ns size_n allocations i n w"
  have "map (\<lambda>s. JInt (the (allocations s))) (dn_deps n) = map JInt regs" using regs(2) by auto
  then have src: "expect ?e ''source_registers'' (JList (map JInt regs))" using entry_identity(9) by metis
  have des: "expect ?e ''destination_register'' (if dn_op n \<noteq> STORE_U32 then JInt (f_d w) else JNull)"
    using entry_lifetime(1) [of d ns size_n allocations i n w] dst by (cases "dn_op n = STORE_U32") simp_all
  show ?thesis
    unfolding check_entry_def trace_entry_fields prod.case Let_def want_dict_def option.case json.case rbind_simps
    using entry_lifetime(6) [of d ns size_n allocations i n w] w
    by (simp only: entry_keys_ok regs(1) rbind_simps entry_identity entry_lifetime(2-5) src des rbind_reject) simp
qed

lemma trace_accepts:
  assumes "arun allocations live ns ws" "\<forall>n \<in> set ns. dag_node_ok schema n" "version_of schema version"
    "live_ok allocations live" "live \<subseteq>\<^sub>m al" "distinct (map dn_id ns)"
  shows "\<exists>al'. foldM (check_entry d ns0 size_n) al
     (enumerate i (zip ns (zip ws (map (\<lambda>(i, p). trace_entry d ns0 size_n allocations i p) (enumerate i (zip ns ws)))))) = Inr al'"
  using assms
proof (induction arbitrary: al i rule: arun.induct)
  case (stored n live)
  obtain x where x: "dn_deps n = [x]"
    using stored.prems(1) stored.hyps(1) by (auto simp: dag_node_ok_def length_Suc_conv)
  obtain r where r: "live x = Some r" using stored.hyps(2) x by auto
  then have al: "al x = Some r" "allocations x = Some r"
    using stored.prems(3,4) by (auto simp: live_ok_def map_le_def dom_def)
  then show ?case
    using check_entry_ok [of al n "[r]" allocations "encode_store r" d ns0 size_n i] stored.hyps(1) by (simp add: x r)
next
  case (computed n live dst live' ns ws)
  let ?w = "encode_node n dst (map (\<lambda>a. the (live a)) (dn_deps n))"
  have arg: "al a = live a \<and> allocations a = live a \<and> live a \<noteq> None" if a: "a \<in> set (dn_deps n)" for a
    using computed.hyps(2) a computed.prems(3,4) by (auto simp: live_ok_def map_le_def dom_def)
  have regs: "mapM (mget al) (dn_deps n) = Inr (map (\<lambda>a. the (live a)) (dn_deps n))"
    by (rule mapM_eq_map) (use arg in \<open>force simp: mget_def\<close>)
  have alls: "map (\<lambda>s. the (allocations s)) (dn_deps n) = map (\<lambda>a. the (live a)) (dn_deps n)" using arg by auto
  have fd: "f_d ?w = dst"
    using value_word_dest [OF _ computed.hyps(1) computed.prems(2,3) computed.hyps(2,3,4)] computed.prems(1) by simp
  have step: "check_entry d ns0 size_n al (i, n, ?w, trace_entry d ns0 size_n allocations i (n, ?w)) = Inr (al(dn_id n \<mapsto> dst))"
    using check_entry_ok [OF regs alls, of ?w d ns0 size_n i] computed.hyps(1,7) by (simp add: fd)
  have live: "live_ok allocations live'" by (rule live_ok_step [OF computed.prems(3) computed.hyps(3,4,7,6,5)])
  have "live' \<subseteq>\<^sub>m al(dn_id n \<mapsto> dst)"
    unfolding map_le_def
  proof
    fix y assume "y \<in> dom live'"
    then obtain r where r: "live' y = Some r" by auto
    show "live' y = (al(dn_id n \<mapsto> dst)) y"
    proof (cases "y = dn_id n")
      case False
      then have "live y = Some r" using computed.hyps(5) r by blast
      then show ?thesis using r False computed.prems(4) by (auto simp: map_le_def dom_def)
    qed (use computed.hyps(6) in simp)
  qed
  then show ?case
    using computed.IH [OF _ computed.prems(2) live, of "al(dn_id n \<mapsto> dst)" "Suc i"] computed.prems(1,5) by (simp add: step fun_upd_def)
qed

section \<open>Compiled programs\<close>

lemma compile_cases:
  assumes "validate_descriptor value = Inr d"
  shows "(compile_descriptor sha jsha value = Inl (ValueError ''Graph requires more than eight live values'') \<and>
      (\<exists>ms e. scheduled_nodes (gd_nodes d) = Inr ms \<and> gd_allocate ms = Inl e)) \<or>
    (\<exists>ns n ws allocations. scheduled_nodes (gd_nodes d) = Inr (ns @ [n]) \<and> sched_ok (gd_schema d) ns n \<and>
       length (ns @ [n]) = length (gd_nodes d) \<and> set (ns @ [n]) = set (gd_nodes d) \<and> arun allocations Map.empty (ns @ [n]) ws \<and>
       compile_descriptor sha jsha value = Inr \<lparr>pg_graph = gd_id d, pg_affine = gd_affine d, pg_instructions = ws,
          pg_digest = sha (int (length ws) # ws), pg_trace = lowering_trace sha (jsha value) d (ns @ [n]) ws allocations,
          pg_payload = program_payload (program_version d) (sha (int (length ws) # ws)) ws,
          pg_transactions = length (filter (\<lambda>w. f_op w = 1) ws) + 1\<rparr>)"
proof -
  note d = validate_descriptor_Inr [OF assms]
  obtain ms where ms: "scheduled_nodes (gd_nodes d) = Inr ms" using d(2) by blast
  have dist: "distinct (map dn_id (gd_nodes d))" using d(1) by (simp add: descriptor_ok_def)
  have set: "set ms = set (gd_nodes d)" using scheduled_nodes_Inr(2) [OF ms dist] by (metis mset_eq_setD)
  obtain ns n where ns: "ms = ns @ [n]" "sched_ok (gd_schema d) ns n" using schedule_ok(1) [OF d(1) ms] by blast
  have len: "length ms = length (gd_nodes d)" and dms: "distinct (map dn_id ms)" using schedule_ok(2,3) [OF d(1) ms] by auto
  from gd_allocate_arun [OF ns(2)] show ?thesis
  proof (elim disjE exE conjE)
    assume "gd_allocate (ns @ [n]) = Inl (ValueError ''Graph requires more than eight live values'')"
    then show ?thesis by (simp add: compile_descriptor_def assms ms ns(1))
  next
    fix ws allocations
    assume ws: "gd_allocate (ns @ [n]) = Inr (ws, allocations)" and run: "arun allocations Map.empty (ns @ [n]) ws"
    have lws: "length ws = length (ns @ [n])" using arun_length [OF run] .
    define trace where "trace = lowering_trace sha (jsha value) d (ns @ [n]) ws allocations"
    have ok: "\<forall>m \<in> set (ns @ [n]). dag_node_ok (gd_schema d) m" using ns(2) by (auto simp: sched_ok_def)
    have ver: "version_of (gd_schema d) (program_version d)" using d(1) by (auto simp: descriptor_ok_def intro: version_of_program)
    obtain al' where al': "foldM (check_entry d (ns @ [n]) (length ws)) Map.empty
       (enumerate 0 (zip (ns @ [n]) (zip ws (map (\<lambda>(i, p). trace_entry d (ns @ [n]) (length ws) allocations i p) (enumerate 0 (zip (ns @ [n]) ws)))))) = Inr al'"
      using trace_accepts [OF run ok ver _ _ dms [unfolded ns(1)], of Map.empty d "ns @ [n]" "length ws" 0] by (auto simp: live_ok_def)
    have "validate_lowering_trace sha jsha value trace ws = Inr ()"
      unfolding validate_lowering_trace_def assms rbind_simps trace_def lowering_trace_def ms ns(1)
      using al' by (simp add: expect_def jnat_def want_list_def lws len [symmetric] ns(1))
    then show ?thesis
      using run ns set len unfolding compile_descriptor_def assms rbind_simps ms ns(1) ws trace_def prod.case Let_def by auto
  qed
qed

definition hex_text :: "string \<Rightarrow> bool" where
  "hex_text s \<longleftrightarrow> length s = 64 \<and> list_all (\<lambda>c. (CHR ''0'' \<le> c \<and> c \<le> CHR ''9'') \<or> (CHR ''a'' \<le> c \<and> c \<le> CHR ''f'')) s"

lemma hex_digit_range: "(CHR ''0'' \<le> c \<and> c \<le> CHR ''9'') \<or> (CHR ''a'' \<le> c \<and> c \<le> CHR ''f'') \<Longrightarrow> 0 \<le> hex_digit c \<and> hex_digit c \<le> 15"
proof -
  assume "(CHR ''0'' \<le> c \<and> c \<le> CHR ''9'') \<or> (CHR ''a'' \<le> c \<and> c \<le> CHR ''f'')"
  then have "(48 \<le> (of_char c :: nat) \<and> (of_char c :: nat) \<le> 57) \<or> (97 \<le> (of_char c :: nat) \<and> (of_char c :: nat) \<le> 102)"
    by (auto simp: less_eq_char_def)
  then show ?thesis unfolding hex_digit_def Let_def by (auto simp: of_char_of [symmetric] simp del: of_char_of)
qed

lemma hex_byte_range:
  assumes "hex_text s" "k < 32"
  shows "0 \<le> hex_byte s k \<and> hex_byte s k < 256"
proof -
  have "0 \<le> hex_digit (s ! i) \<and> hex_digit (s ! i) \<le> 15" if "i < 64" for i
    using assms(1) that by (intro hex_digit_range) (auto simp: hex_text_def list_all_length)
  from this [of "2 * k"] this [of "2 * k + 1"] show ?thesis using assms(2) by (simp add: hex_byte_def)
qed

lemma digest_words_range:
  assumes "hex_text s"
  shows "length (digest_words s) = 8" "\<forall>w \<in> set (digest_words s). 0 \<le> w \<and> w < 2 ^ 32"
proof -
  show "length (digest_words s) = 8" by (simp add: digest_words_def)
  have "0 \<le> hex_byte s (4 * k) + 2 ^ 8 * hex_byte s (4 * k + 1) + 2 ^ 16 * hex_byte s (4 * k + 2) + 2 ^ 24 * hex_byte s (4 * k + 3) \<and>
      hex_byte s (4 * k) + 2 ^ 8 * hex_byte s (4 * k + 1) + 2 ^ 16 * hex_byte s (4 * k + 2) + 2 ^ 24 * hex_byte s (4 * k + 3) < 2 ^ 32"
    if "k < 8" for k
    using hex_byte_range [OF assms, of "4 * k"] hex_byte_range [OF assms, of "4 * k + 1"]
      hex_byte_range [OF assms, of "4 * k + 2"] hex_byte_range [OF assms, of "4 * k + 3"] that by simp
  then show "\<forall>w \<in> set (digest_words s). 0 \<le> w \<and> w < 2 ^ 32" unfolding digest_words_def by auto
qed

lemma payload_layout:
  fixes version :: int
  assumes "length ws \<le> PROGRAM_CAPACITY" "hex_text s"
  defines "payload \<equiv> program_payload version s ws"
  shows "length payload = PROGRAM_WORDS" "payload ! 0 = MAGIC_PROGRAM" "payload ! 1 = version" "payload ! 2 = int (length ws)"
    "payload ! 3 = int VALUE_REGISTERS" "take 8 (drop 4 payload) = digest_words s" "take (length ws) (drop 12 payload) = ws"
    "\<not> list_ex (\<lambda>w. w \<noteq> 0) (drop (12 + length ws) payload)"
  using assms(1) digest_words_range(1) [OF assms(2)]
  unfolding payload_def program_payload_def
  by (simp_all add: PROGRAM_WORDS_def PROGRAM_CAPACITY_def numeral_eq_Suc list_ex_iff)

lemma read_payload_ok:
  assumes "map_of program ''payload'' = Some (JList (map JInt payload))" "length payload = PROGRAM_WORDS"
    "\<forall>w \<in> set payload. 0 \<le> w \<and> w < 2 ^ 32"
  shows "read_payload program = Inr payload"
proof -
  have "mapM payload_word (map JInt payload) = Inr (map id payload)"
    unfolding mapM_map by (rule mapM_eq_map) (use assms(3) in \<open>auto simp: payload_word_def\<close>)
  then show ?thesis using assms(1,2) by (simp add: read_payload_def want_list_def Let_def)
qed

lemma version_max:
  assumes "descriptor_ok d"
  shows "\<forall>n \<in> set (gd_nodes d). dn_op n = MAX_U32 \<longrightarrow> program_version d \<noteq> 1" "program_version d \<in> {1, 2, 3, 4, 5, 6}"
  by (auto simp: program_version_def list_ex_iff)

lemma fallback_program_ok:
  assumes d: "descriptor_ok d" and run: "arun allocations Map.empty ms ws" "\<forall>n \<in> set ms. dag_node_ok (gd_schema d) n"
    "set ms = set (gd_nodes d)" "length ms = length (gd_nodes d)" and hex: "\<forall>xs. hex_text (sha xs)"
    and p: "pg_instructions p = ws" "pg_digest p = sha (int (length ws) # ws)" "pg_payload p = program_payload (program_version d) (sha (int (length ws) # ws)) ws"
  shows "validate_fallback_program sha (program_dict p) = Inr (pg_payload p, ws)"
proof -
  let ?digest = "sha (int (length ws) # ws)"
  have ver: "version_of (gd_schema d) (program_version d)" using d by (auto simp: descriptor_ok_def intro: version_of_program)
  have len: "length ws = length ms" using arun_length [OF run(1)] .
  have cap: "length ws \<le> PROGRAM_CAPACITY" "2 \<le> length ws" using d run(4) len by (auto simp: descriptor_ok_def)
  have max: "\<forall>n \<in> set ms. dn_op n = MAX_U32 \<longrightarrow> program_version d \<noteq> 1" using version_max(1) [OF d] run(3) by auto
  note acc = fallback_accepts [OF run(1,2) ver max, of "{}" 0 "length ws"]
  obtain D where D: "foldM (fallback_instr (program_version d) (length ws)) ({}, 0) (enumerate 0 ws) = Inr (D, 1)"
    using acc(1) len by (auto simp: live_ok_def)
  have wr: "\<forall>w \<in> set ws. 0 \<le> w \<and> w < 2 ^ 32" using acc(2) len by (auto simp: live_ok_def)
  note lay = payload_layout [OF cap(1), of ?digest "program_version d", folded p(3)]
  have range: "\<forall>w \<in> set (pg_payload p). 0 \<le> w \<and> w < 2 ^ 32"
    using wr digest_words_range(2) [of ?digest] hex cap version_max(2) [OF d]
    by (auto simp: p(3) program_payload_def MAGIC_PROGRAM_def VALUE_REGISTERS_def PROGRAM_CAPACITY_def)
  have rp: "read_payload (program_dict p) = Inr (pg_payload p)"
    using lay(1) hex range by (intro read_payload_ok) (simp_all add: program_dict_def)
  have eqs: "map_of (program_dict p) ''instructions'' = Some (JList (map JInt ws))"
    "expect (program_dict p) ''instruction_count'' (JInt (int (length ws)))" "expect (program_dict p) ''program_sha256'' (JStr ?digest)"
    by (simp_all add: program_dict_def expect_def p jnat_def)
  have same: "py_eq (JList (map JInt ws)) (JList (map JInt ws))" by (rule py_eq_list) simp
  show ?thesis
    unfolding validate_fallback_program_def rp rbind_simps eqs want_list_def option.case json.case Let_def
    using lay hex cap eqs(2,3) same D version_max(2) [OF d] by (simp del: py_eq.simps)
qed

section \<open>All cells\<close>

lemma foldM_concat_map: "foldM f s (concat (map g xs)) = foldM (\<lambda>s x. foldM f s (g x)) s xs"
  by (induction xs arbitrary: s) (simp_all add: foldM_append)

lemma fallback_cells:
  assumes p: "pg_affine p = af" and cell: "\<And>center stride. same_out (foldM (oracle_node words center stride) (Map.empty, None) ms)
     (foldM (fallback_exec version words center stride) (replicate VALUE_REGISTERS 0, None) ws)"
  shows "foldM (fallback_row (affine_json af) version ws words) outp [0..<nat (af_rows af)] =
    foldM (oracle_cell af ms words) outp (grid_list (nat (af_rows af)) (nat (af_columns af)) Pair)"
proof -
  have fields: "affine_field (affine_json af) ''rows'' = Inr (af_rows af)" "affine_field (affine_json af) ''columns'' = Inr (af_columns af)"
    "affine_field (affine_json af) ''input_stride'' = Inr (af_input af)" "affine_field (affine_json af) ''output_stride'' = Inr (af_output af)"
    by (simp_all add: affine_field_def affine_json_def dget_def py_int_def)
  have "fallback_cell (affine_json af) version ws words s q = oracle_cell af ms words s q" for s q
  proof (cases q)
    case (Pair row column)
    note c = cell [of "center_index af row column" "af_input af"]
    note cell_defs = Pair fallback_cell_def oracle_cell_def fields same_out_def center_index_def store_index_def
    show ?thesis
    proof (cases "foldM (oracle_node words (center_index af row column) (af_input af)) (Map.empty, None) ms")
      case (Inl e)
      then show ?thesis using c by (simp add: cell_defs)
    next
      case (Inr r)
      then show ?thesis using c by (cases r) (auto simp: cell_defs)
    qed
  qed
  then have "fallback_cell (affine_json af) version ws words = oracle_cell af ms words" by (intro ext)
  then show ?thesis unfolding grid_list_def foldM_concat_map fallback_row_def fields rbind_simps by simp
qed

lemma fallback_oracle_eq:
  assumes "\<forall>xs. hex_text (sha xs)" "compile_descriptor sha jsha value = Inr p" "length words = 324"
  shows "software_fallback sha (program_dict p) words = graph_oracle value words"
proof -
  obtain d where d: "validate_descriptor value = Inr d"
    using assms(2) unfolding compile_descriptor_def by (simp only: res_simps) blast
  obtain ns n ws allocations where s: "scheduled_nodes (gd_nodes d) = Inr (ns @ [n])" "sched_ok (gd_schema d) ns n"
      "length (ns @ [n]) = length (gd_nodes d)" "set (ns @ [n]) = set (gd_nodes d)" "arun allocations Map.empty (ns @ [n]) ws"
    and p: "p = \<lparr>pg_graph = gd_id d, pg_affine = gd_affine d, pg_instructions = ws,
          pg_digest = sha (int (length ws) # ws), pg_trace = lowering_trace sha (jsha value) d (ns @ [n]) ws allocations,
          pg_payload = program_payload (program_version d) (sha (int (length ws) # ws)) ws,
          pg_transactions = length (filter (\<lambda>w. f_op w = 1) ws) + 1\<rparr>"
    using compile_cases [OF d, of sha jsha] assms(2) by auto
  note dok = validate_descriptor_Inr(1) [OF d]
  have ok: "\<forall>m \<in> set (ns @ [n]). dag_node_ok (gd_schema d) m" using s(2) by (auto simp: sched_ok_def)
  have ver: "version_of (gd_schema d) (program_version d)" using dok by (auto simp: descriptor_ok_def intro: version_of_program)
  have chk: "validate_fallback_program sha (program_dict p) = Inr (pg_payload p, ws)"
    by (rule fallback_program_ok [OF dok s(5) ok s(4,3) assms(1)]) (simp_all add: p)
  have cell: "same_out (foldM (oracle_node words center stride) (Map.empty, None) (ns @ [n]))
     (foldM (fallback_exec (program_version d) words center stride) (replicate VALUE_REGISTERS 0, None) ws)" for center stride
    by (rule cell_same_out [OF s(5) ok ver]) (simp_all add: live_ok_def gsim_def)
  have v1: "pg_payload p ! 1 = program_version d" by (simp add: p program_payload_def)
  have af: "dget (program_dict p) ''affine'' = Inr (affine_json (gd_affine d))" by (simp add: program_dict_def dget_def p)
  have rows: "affine_field (affine_json (gd_affine d)) ''rows'' = Inr (af_rows (gd_affine d))"
    by (simp add: affine_field_def affine_json_def dget_def py_int_def)
  have "software_fallback sha (program_dict p) words =
      foldM (fallback_row (affine_json (gd_affine d)) (program_version d) ws words) (replicate 256 0) [0..<nat (af_rows (gd_affine d))]"
    by (simp add: software_fallback_def chk af rows v1 assms(3) del: One_nat_def)
  also have "\<dots> = graph_oracle value words"
    using fallback_cells [OF _ cell, of p "gd_affine d"] by (simp add: graph_oracle_def d s(1) assms(3) p)
  finally show ?thesis .
qed

text \<open>
  C12. Every program the compiler returns passes the standalone checks of the fallback, and on
  an input window of 324 words the fallback computes what the oracle computes on the
  descriptor, failures included. SHA-256 is any function to 64 hexadecimal digits.
\<close>

theorem fallback_refines_oracle:
  assumes "\<forall>xs. hex_text (sha xs)" "compile_descriptor sha jsha value = Inr p" "length words = 324"
  shows "software_fallback sha (program_dict p) words = graph_oracle value words"
  using assms by (rule fallback_oracle_eq)

text \<open>A small program: the sum of a cell and its south-east neighbour, compared with 7.\<close>

definition demo_sha :: "int list \<Rightarrow> string" where
  "demo_sha ws = replicate 64 CHR ''0''"

definition jload :: "string \<Rightarrow> int \<Rightarrow> int \<Rightarrow> json" where
  "jload name r c = JDict [(''id'', JStr name), (''op'', JStr ''LOAD_U32''), (''address'', JDict [(''row_delta'', JInt r), (''column_delta'', JInt c)])]"

definition demo_affine :: "int \<Rightarrow> json" where
  "demo_affine stride = JDict [(''rows'', JInt 1), (''columns'', JInt 1), (''input_stride'', JInt stride), (''output_stride'', JInt 1)]"

definition demo_graph :: "int \<Rightarrow> (string \<times> json) list" where
  "demo_graph stride = [(''schema'', JStr ''raveil.graph-device-dag/v5''), (''graph_id'', JStr ''demo''), (''affine'', demo_affine stride),
     (''nodes'', JList [JDict [(''id'', JStr ''s''), (''op'', JStr ''ADD_U32''), (''inputs'', JList [JStr ''a'', JStr ''b''])], jload ''a'' 0 0, jload ''b'' 1 1,
        JDict [(''id'', JStr ''g''), (''op'', JStr ''GE_IMM_U32''), (''input'', JStr ''s''), (''immediate'', JInt 7)],
        JDict [(''id'', JStr ''o''), (''op'', JStr ''STORE_U32''), (''input'', JStr ''g'')]])]"

lemma demo_sha_hex: "\<forall>xs. hex_text (demo_sha xs)"
  by (simp add: demo_sha_def hex_text_def list_all_iff)

lemma compiles_if:
  assumes "case validate_descriptor v of Inl e \<Rightarrow> False | Inr d \<Rightarrow>
    (case scheduled_nodes (gd_nodes d) of Inl e \<Rightarrow> False | Inr ms \<Rightarrow> \<not> isl (gd_allocate ms))"
  shows "\<exists>p. compile_descriptor sha jsha v = Inr p"
proof -
  obtain d where d: "validate_descriptor v = Inr d" using assms by (cases "validate_descriptor v") auto
  show ?thesis using compile_cases [OF d, of sha jsha] assms by (auto simp: d isl_def)
qed

lemma demo_compiles: "\<exists>p. compile_descriptor demo_sha (\<lambda>_. []) (demo_graph 3) = Inr p"
  by (rule compiles_if) code_simp

theorem fallback_refines_oracle_witness:
  "\<exists>p. compile_descriptor demo_sha (\<lambda>_. []) (demo_graph 3) = Inr p \<and>
     software_fallback demo_sha (program_dict p) (replicate 324 4) = graph_oracle (demo_graph 3) (replicate 324 4)"
  using demo_compiles fallback_refines_oracle [OF demo_sha_hex, of "\<lambda>_. []" "demo_graph 3" _ "replicate 324 4"] by auto

text \<open>
  C16. Compilation fails only as the validation of the descriptor fails, or because more than
  eight values are live at once: no dictionary access of the allocator fails and the check of
  the lowering trace the compiler runs on its own output never rejects.
\<close>

theorem compile_self_check:
  "case compile_descriptor sha jsha value of
     Inl e \<Rightarrow> (case validate_descriptor value of Inl e' \<Rightarrow> e = e' | Inr _ \<Rightarrow> e = ValueError ''Graph requires more than eight live values'')
   | Inr p \<Rightarrow> validate_lowering_trace sha jsha value (pg_trace p) (pg_instructions p) = Inr ()"
proof (cases "validate_descriptor value")
  case (Inl e)
  then show ?thesis by (simp add: compile_descriptor_def)
next
  case (Inr d)
  have "validate_lowering_trace sha jsha value (pg_trace p) (pg_instructions p) = Inr ()" if p: "compile_descriptor sha jsha value = Inr p" for p
  proof -
    obtain ns ws al u where "validate_lowering_trace sha jsha value (lowering_trace sha (jsha value) d ns ws al) ws = Inr u"
      "pg_trace p = lowering_trace sha (jsha value) d ns ws al" "pg_instructions p = ws"
      using p unfolding compile_descriptor_def Inr rbind_simps Let_def by (auto simp: res_simps split: prod.splits)
    then show ?thesis by simp
  qed
  then show ?thesis using compile_cases [OF Inr, of sha jsha] Inr by (auto split: sum.splits)
qed

section \<open>Bounds of the windows\<close>

text \<open>Every load of a cell stays inside the window, except the south-east neighbour of the last cell.\<close>

lemma cell_center:
  assumes "affine_ok af" "row < nat (af_rows af)" "column < nat (af_columns af)"
  defines "center \<equiv> center_index af row column"
  shows "af_input af + 1 \<le> center" "center \<le> af_rows af * af_input af + af_columns af"
    "0 \<le> store_index af row column" "store_index af row column < 256"
proof -
  have a: "1 \<le> af_input af" "1 \<le> af_output af" "int row + 1 \<le> af_rows af" "int column + 1 \<le> af_columns af"
    using assms(1-3) by (auto simp: affine_ok_def)
  have "1 * af_input af \<le> (int row + 1) * af_input af" using a(1) by (intro mult_right_mono) auto
  then show "af_input af + 1 \<le> center" unfolding center_def center_index_def by simp
  have "(int row + 1) * af_input af \<le> af_rows af * af_input af" using a by (intro mult_right_mono) auto
  then show "center \<le> af_rows af * af_input af + af_columns af" using a(4) unfolding center_def center_index_def by linarith
  show "0 \<le> store_index af row column" using a(2) by (simp add: store_index_def)
  have "int row * af_output af \<le> (af_rows af - 1) * af_output af" using a by (intro mult_right_mono) auto
  moreover have "(af_rows af - 1) * af_output af + af_columns af - 1 < 256" using assms(1) by (simp add: affine_ok_def)
  ultimately show "store_index af row column < 256" using a(4) unfolding store_index_def by linarith
qed

lemma node_address_bounds:
  assumes "affine_ok af" "row < nat (af_rows af)" "column < nat (af_columns af)" "address_ok schema (Some a)"
    and margin: "schema = GRAPH_V1 \<or> (af_rows af + 1) * af_input af + af_columns af < 323"
  shows "0 \<le> node_address a (center_index af row column) (af_input af)"
    "node_address a (center_index af row column) (af_input af) < 324"
proof -
  define c where "c = center_index af row column"
  define t where "t = (af_rows af + 1) * af_input af + af_columns af"
  note cc = cell_center(1,2) [OF assms(1-3), folded c_def]
  have top: "c + af_input af \<le> t" using cc(2) by (simp add: t_def distrib_right)
  have lim: "t < 324" "3 \<le> af_input af" using assms(1) by (auto simp: affine_ok_def t_def)
  have "0 \<le> node_address a c (af_input af) \<and> node_address a c (af_input af) < 324"
  proof (cases "schema = GRAPH_V1")
    case True
    then obtain k where k: "k < 5" "a = Selector k" using assms(4) by (auto simp: address_ok_def)
    then have "k = 0 \<or> k = 1 \<or> k = 2 \<or> k = 3 \<or> k = 4" by linarith
    then show ?thesis using cc(1) top lim k(2) unfolding node_address_def by (elim disjE) simp_all
  next
    case False
    then have margin: "t < 323" using margin by (simp add: t_def)
    obtain r q where rq: "r \<in> {-1..1}" "q \<in> {-1..1}" "a = Relative r q" using assms(4) False by (auto simp: address_ok_def)
    then have "r = -1 \<or> r = 0 \<or> r = 1" "- 1 \<le> q" "q \<le> 1" by auto
    then show ?thesis using cc(1) top lim margin rq(3) unfolding node_address_def by (elim disjE) simp_all
  qed
  then show "0 \<le> node_address a (center_index af row column) (af_input af)"
    "node_address a (center_index af row column) (af_input af) < 324" unfolding c_def by auto
qed

lemma load_address:
  assumes "dag_node_ok schema n" "dn_op n = LOAD_U32"
  obtains a where "dn_address n = Some a" "address_ok schema (Some a)"
proof -
  have "dn_op n \<noteq> STORE_U32" using assms(2) by simp
  with assms(1) show thesis by (cases rule: node_shape) (use assms(2) that in auto)
qed

lemma oracle_nodes_total:
  assumes "topo (dom env) ns" "\<forall>n \<in> set ns. dag_node_ok schema n \<and> dn_op n \<noteq> STORE_U32"
    "\<And>a. address_ok schema (Some a) \<Longrightarrow> 0 \<le> node_address a center stride \<and> node_address a center stride < int (length words)"
  shows "\<exists>env'. foldM (oracle_node words center stride) (env, out) ns = Inr (env', out) \<and> dom env' = dom env \<union> dn_id ` set ns"
  using assms(1,2)
proof (induction ns arbitrary: env)
  case (Cons n ns)
  have n: "dag_node_ok schema n" "dn_op n \<noteq> STORE_U32" "set (dn_deps n) \<subseteq> dom env" using Cons.prems by auto
  have "\<exists>v. oracle_node words center stride (env, out) n = Inr (env(dn_id n \<mapsto> v), out)"
    using n(1,2)
  proof (cases rule: node_shape)
    case (load a)
    then show ?thesis using assms(3) [OF load(4)] by (auto simp: oracle_node_def)
  next
    case (bin x y)
    then obtain u v where "env x = Some u" "env y = Some v" using n(3) by auto
    then show ?thesis using bin by (auto simp: oracle_node_def)
  next
    case (imm x m)
    then obtain u where "env x = Some u" using n(3) by auto
    then show ?thesis using imm by (auto simp: oracle_node_def)
  qed
  then obtain v where v: "oracle_node words center stride (env, out) n = Inr (env(dn_id n \<mapsto> v), out)" by blast
  have "topo (dom (env(dn_id n \<mapsto> v))) ns" using Cons.prems(1) by simp
  then obtain env' where e: "foldM (oracle_node words center stride) (env(dn_id n \<mapsto> v), out) ns = Inr (env', out)"
      "dom env' = dom (env(dn_id n \<mapsto> v)) \<union> dn_id ` set ns"
    using Cons.IH Cons.prems(2) by (meson list.set_intros(2))
  have "dom env' = dom env \<union> dn_id ` set (n # ns)" unfolding e(2) by auto
  then show ?case using e(1) v by (simp only: foldM.simps rbind_simps) blast
qed simp

text \<open>
  C18. On an input window of 324 words the oracle stays in bounds for every admitted version 1
  descriptor, and for every later version whose window leaves one word of margin: at every cell
  each scheduled load reads one of the words 0 to 323 and the store goes to one of the words 0
  to 255, so no index is negative (where a list access would wrap) or too large, and the
  oracle returns 256 words.
\<close>

theorem graph_oracle_bounds:
  assumes "validate_descriptor value = Inr d" "length words = 324"
    "gd_schema d = GRAPH_V1 \<or> (af_rows (gd_affine d) + 1) * af_input (gd_affine d) + af_columns (gd_affine d) < 323"
  shows "\<exists>ns out. scheduled_nodes (gd_nodes d) = Inr ns \<and> graph_oracle value words = Inr out \<and> length out = 256 \<and>
    (\<forall>row < nat (af_rows (gd_affine d)). \<forall>column < nat (af_columns (gd_affine d)).
       0 \<le> store_index (gd_affine d) row column \<and> store_index (gd_affine d) row column < 256 \<and>
       (\<forall>n \<in> set ns. dn_op n = LOAD_U32 \<longrightarrow>
          0 \<le> node_address (the (dn_address n)) (center_index (gd_affine d) row column) (af_input (gd_affine d)) \<and>
          node_address (the (dn_address n)) (center_index (gd_affine d) row column) (af_input (gd_affine d)) < 324))"
proof -
  note dok = validate_descriptor_Inr [OF assms(1)]
  let ?af = "gd_affine d"
  have af: "affine_ok ?af" using dok(1) by (simp add: descriptor_ok_def)
  obtain ns n where s: "scheduled_nodes (gd_nodes d) = Inr (ns @ [n])" "sched_ok (gd_schema d) ns n"
    using dok(2) schedule_ok(1) [OF dok(1)] by blast
  obtain x where x: "dn_deps n = [x]" "dn_op n = STORE_U32" "x \<in> dn_id ` set ns"
    using s(2) by (auto simp: sched_ok_def dag_node_ok_def length_Suc_conv)
  have cell: "\<exists>o'. oracle_cell ?af (ns @ [n]) words outp q = Inr o' \<and> length o' = 256"
    if len: "length outp = 256" and q: "q \<in> set (grid_list (nat (af_rows ?af)) (nat (af_columns ?af)) Pair)" for outp q
  proof -
    obtain row column where rc: "q = (row, column)" "row < nat (af_rows ?af)" "column < nat (af_columns ?af)"
      using q by (auto simp: set_grid_list)
    let ?c = "center_index ?af row column"
    obtain env where env: "foldM (oracle_node words ?c (af_input ?af)) (Map.empty, None) ns = Inr (env, None)" "dom env = dn_id ` set ns"
      using oracle_nodes_total [of Map.empty ns "gd_schema d" ?c "af_input ?af" words None] s(2)
        node_address_bounds [OF af rc(2,3) _ assms(3)] assms(2) by (auto simp: sched_ok_def)
    then obtain v where "env x = Some v" using x(3) by auto
    then have "foldM (oracle_node words ?c (af_input ?af)) (Map.empty, None) (ns @ [n]) = Inr (env, Some v)"
      by (simp add: foldM_append env(1)) (simp add: oracle_node_def x)
    then show ?thesis using cell_center(3,4) [OF af rc(2,3)] len by (simp add: oracle_cell_def rc(1) store_cell_def py_set_def)
  qed
  have "\<exists>o'. foldM (oracle_cell ?af (ns @ [n]) words) outp qs = Inr o' \<and> length o' = 256"
    if "length outp = 256" "set qs \<subseteq> set (grid_list (nat (af_rows ?af)) (nat (af_columns ?af)) Pair)" for outp qs
    using that
  proof (induction qs arbitrary: outp)
    case (Cons q qs)
    then obtain o' where "oracle_cell ?af (ns @ [n]) words outp q = Inr o'" "length o' = 256" using cell [of outp q] by auto
    then show ?case using Cons.IH [of o'] Cons.prems(2) by simp
  qed simp
  then have out: "\<exists>out. graph_oracle value words = Inr out \<and> length out = 256" by (simp add: graph_oracle_def assms(1,2) s(1))
  have "0 \<le> node_address (the (dn_address m)) (center_index ?af row column) (af_input ?af) \<and>
      node_address (the (dn_address m)) (center_index ?af row column) (af_input ?af) < 324"
    if rc: "row < nat (af_rows ?af)" "column < nat (af_columns ?af)" and m: "m \<in> set (ns @ [n])" "dn_op m = LOAD_U32" for row column m
  proof -
    have ok: "dag_node_ok (gd_schema d) m" using s(2) m(1) by (auto simp: sched_ok_def)
    obtain a where "dn_address m = Some a" "address_ok (gd_schema d) (Some a)" by (rule load_address [OF ok m(2)])
    then show ?thesis using node_address_bounds [OF af rc _ assms(3)] by simp
  qed
  then show ?thesis using out s(1) cell_center(3,4) [OF af] by blast
qed

theorem graph_oracle_bounds_witness:
  "\<exists>d ns. validate_descriptor (demo_graph 3) = Inr d \<and> scheduled_nodes (gd_nodes d) = Inr ns \<and> \<not> isl (graph_oracle (demo_graph 3) (replicate 324 4)) \<and>
     (\<forall>n \<in> set ns. dn_op n = LOAD_U32 \<longrightarrow> 0 \<le> node_address (the (dn_address n)) (center_index (gd_affine d) 0 0) (af_input (gd_affine d)))"
proof -
  have "case validate_descriptor (demo_graph 3) of Inl e \<Rightarrow> False | Inr d \<Rightarrow> 0 < af_rows (gd_affine d) \<and> 0 < af_columns (gd_affine d) \<and>
      (af_rows (gd_affine d) + 1) * af_input (gd_affine d) + af_columns (gd_affine d) < 323" by code_simp
  then obtain d where d: "validate_descriptor (demo_graph 3) = Inr d" "0 < af_rows (gd_affine d)" "0 < af_columns (gd_affine d)"
      "(af_rows (gd_affine d) + 1) * af_input (gd_affine d) + af_columns (gd_affine d) < 323"
    by (auto split: sum.splits)
  then show ?thesis using graph_oracle_bounds [of "demo_graph 3" d "replicate 324 4"] by auto
qed

text \<open>
  C29. The margin is needed: the admitted window test \<open>(rows + 1) * input_stride + columns < 324\<close>
  lets the south-east neighbour of the last cell read one word past the input, and the oracle
  raises \<open>IndexError\<close> on a descriptor that compiles.
\<close>

theorem affine_window_gap:
  "\<not> isl (compile_descriptor demo_sha (\<lambda>_. []) (demo_graph 161)) \<and> graph_oracle (demo_graph 161) (replicate 324 0) = Inl IndexError"
proof
  have "\<exists>p. compile_descriptor demo_sha (\<lambda>_. []) (demo_graph 161) = Inr p" by (rule compiles_if) code_simp
  then show "\<not> isl (compile_descriptor demo_sha (\<lambda>_. []) (demo_graph 161))" by auto
  show "graph_oracle (demo_graph 161) (replicate 324 0) = Inl IndexError" by code_simp
qed

end
