(* ===== verification/Graph_Traffic.thy ===== *)
theory Graph_Traffic
  imports Graph_Correct
begin

text \<open>
  The expected memory traffic of a compiled program, and the exceptions of descriptor
  admission.
\<close>

section \<open>Transactions\<close>

definition writes_ok :: "int list \<Rightarrow> transaction list \<Rightarrow> bool" where
  "writes_ok oracle ts \<longleftrightarrow> (\<forall>t \<in> set ts. tx_write t \<longrightarrow>
     324 \<le> tx_address t \<and> tx_address t < 580 \<and> oracle ! nat (tx_address t - 324) = tx_data t)"

lemma writes_ok_concat: "writes_ok oracle (concat tss) \<longleftrightarrow> (\<forall>ts \<in> set tss. writes_ok oracle ts)"
  by (auto simp: writes_ok_def)

lemma value_word_op:
  assumes "dag_node_ok schema n" "dn_op n \<noteq> STORE_U32" "version_of schema version"
    "live_ok allocations live" "\<forall>a \<in> set (dn_deps n). live a \<noteq> None" "0 \<le> d" "d \<le> 7"
  defines "w \<equiv> encode_node n d (map (\<lambda>a. the (live a)) (dn_deps n))"
  shows "(f_op w = 1 \<and> (\<exists>delta. load_offset version stride w = Inr delta)) \<or> f_op w \<in> {2, 4, 5, 6, 7}"
proof -
  have d7: "d \<in> {0..7}" using assms(6,7) by simp
  have arg: "the (live a) \<in> {0..7}" if a: "a \<in> set (dn_deps n)" for a
    using assms(4,5) a unfolding live_ok_def by fastforce
  show ?thesis
    using assms(1,2)
  proof (cases rule: node_shape)
    case (load a)
    then show ?thesis using load_word(1,3) [OF load(4) assms(3) d7] unfolding w_def by (auto simp: encode_node_def)
  next
    case (bin x y)
    then show ?thesis using binary_word(1) [OF d7 arg arg] unfolding w_def by (auto simp: encode_node_def)
  next
    case (imm x m)
    then show ?thesis using immediate_word(1) [OF d7 arg imm(4)] unfolding w_def by (auto simp: encode_node_def)
  qed
qed

lemma instr_traffic:
  assumes "arun allocations live ns ws" "\<forall>n \<in> set ns. dag_node_ok schema n" "version_of schema version" "live_ok allocations live"
    "0 \<le> index" "index < 256" "length oracle = 256"
  shows "\<exists>tss. mapM (instr_transactions version stride oracle center index) ws = Inr tss \<and>
    length (concat tss) = length (filter (\<lambda>w. f_op w = 1) ws) + 1 \<and> writes_ok oracle (concat tss)"
  using assms
proof (induction rule: arun.induct)
  case (stored n live)
  obtain x where x: "dn_deps n = [x]"
    using stored.prems(1) stored.hyps(1) by (auto simp: dag_node_ok_def length_Suc_conv)
  obtain r where r: "live x = Some r" using stored.hyps(2) x by auto
  then have "r \<in> {0..7}" using stored.prems(3) by (auto simp: live_ok_def)
  then show ?case using stored.prems(4-6) by (simp add: x r instr_transactions_def store_word writes_ok_def)
next
  case (computed n live dst live' ns ws)
  let ?w = "encode_node n dst (map (\<lambda>a. the (live a)) (dn_deps n))"
  have live: "live_ok allocations live'" by (rule live_ok_step [OF computed.prems(3) computed.hyps(3,4,7,6,5)])
  obtain tss where tss: "mapM (instr_transactions version stride oracle center index) ws = Inr tss"
    "length (concat tss) = length (filter (\<lambda>w. f_op w = 1) ws) + 1" "writes_ok oracle (concat tss)"
    using computed.IH [OF _ computed.prems(2) live computed.prems(4-6)] computed.prems(1) by auto
  have "\<exists>ts. instr_transactions version stride oracle center index ?w = Inr ts \<and>
      length ts = (if f_op ?w = 1 then 1 else 0) \<and> writes_ok oracle ts"
    using value_word_op [OF _ computed.hyps(1) computed.prems(2,3) computed.hyps(2-4), of stride] computed.prems(1)
    by (auto simp: instr_transactions_def writes_ok_def)
  then show ?case using tss by (auto simp: writes_ok_def)
qed

lemma mapM_concat_count:
  assumes "\<And>x. x \<in> set xs \<Longrightarrow> \<exists>ts. f x = Inr ts \<and> length ts = k \<and> writes_ok oracle ts"
  shows "\<exists>tss. mapM f xs = Inr tss \<and> length (concat tss) = length xs * k \<and> writes_ok oracle (concat tss)"
  using assms
proof (induction xs)
  case (Cons x xs)
  obtain ts where "f x = Inr ts" "length ts = k" "writes_ok oracle ts" using Cons.prems [of x] by auto
  moreover obtain tss where "mapM f xs = Inr tss" "length (concat tss) = length xs * k" "writes_ok oracle (concat tss)"
    using Cons by auto
  ultimately show ?case by (auto simp: writes_ok_def)
qed (simp add: writes_ok_def)

lemma oracle_length: "graph_oracle value words = Inr out \<Longrightarrow> length out = 256"
proof -
  have cell: "length o' = length outp" if o': "oracle_cell af ns words outp q = Inr o'" for af ns o' outp q
  proof -
    obtain row column where q: "q = (row, column)" by (cases q)
    obtain v where "store_cell outp (store_index af row column) v = Inr o'"
      using o' unfolding oracle_cell_def q prod.case by (auto simp: res_simps split: prod.splits)
    then show ?thesis by (auto simp: store_cell_def py_set_def split: option.splits if_splits)
  qed
  assume "graph_oracle value words = Inr out"
  then obtain d :: descriptor and ns where "foldM (oracle_cell (gd_affine d) ns words) (replicate 256 0)
       (grid_list (nat (af_rows (gd_affine d))) (nat (af_columns (gd_affine d))) Pair) = Inr out"
    unfolding graph_oracle_def by (auto simp: res_simps)
  then have "length out = length (replicate 256 (0 :: int))"
    by (rule foldM_invariant [where P = "\<lambda>o'. length o' = length (replicate 256 (0 :: int))"]) (auto dest: cell)
  then show ?thesis by simp
qed

text \<open>Rows of cells that have the same number of transactions.\<close>

lemma rows_traffic:
  assumes columns: "affine_field af ''columns'' = Inr columns"
    and cell: "\<And>row column. row < rows \<Longrightarrow> column < nat columns \<Longrightarrow>
      \<exists>ts. cell_transactions af version ws stride out (row, column) = Inr ts \<and> length ts = k \<and> writes_ok out ts"
  shows "\<exists>tss. mapM (row_transactions af version ws stride out) [0..<rows] = Inr tss \<and>
    length (concat tss) = rows * (nat columns * k) \<and> writes_ok out (concat tss)"
proof -
  have row: "\<exists>ts. row_transactions af version ws stride out row = Inr ts \<and> length ts = nat columns * k \<and> writes_ok out ts" if r: "row < rows" for row
  proof -
    have "\<exists>ts. cell_transactions af version ws stride out q = Inr ts \<and> length ts = k \<and> writes_ok out ts"
      if "q \<in> set (map (Pair row) [0..<nat columns])" for q
      using that cell [OF r] by auto
    then obtain tss where "mapM (cell_transactions af version ws stride out) (map (Pair row) [0..<nat columns]) = Inr tss"
        "length (concat tss) = length (map (Pair row) [0..<nat columns]) * k" "writes_ok out (concat tss)"
      using mapM_concat_count [of "map (Pair row) [0..<nat columns]" "cell_transactions af version ws stride out" k out] by blast
    then show ?thesis unfolding row_transactions_def columns rbind_simps by simp
  qed
  then show ?thesis
    using mapM_concat_count [of "[0..<rows]" "row_transactions af version ws stride out" "nat columns * k" out] by auto
qed

text \<open>
  C17. When the fallback runs, the transaction list of a compiled program exists and has
  \<open>rows * columns\<close> times the number of transactions per output the compiler announced; every
  write goes to the output window behind the 324 input words and carries the fallback's word.
\<close>

theorem transactions_counted:
  assumes "\<forall>xs. hex_text (sha xs)" "compile_descriptor sha jsha value = Inr p" "software_fallback sha (program_dict p) words = Inr out"
    "length words = 324"
  shows "\<exists>ts. expected_transactions sha (program_dict p) words = Inr ts \<and>
     length ts = nat (af_rows (pg_affine p)) * (nat (af_columns (pg_affine p)) * pg_transactions p) \<and> writes_ok out ts"
proof -
  obtain d where d: "validate_descriptor value = Inr d"
    using assms(2) unfolding compile_descriptor_def by (simp only: res_simps) blast
  obtain ns n ws allocations where s: "sched_ok (gd_schema d) ns n"
      "length (ns @ [n]) = length (gd_nodes d)" "set (ns @ [n]) = set (gd_nodes d)" "arun allocations Map.empty (ns @ [n]) ws"
    and p: "p = \<lparr>pg_graph = gd_id d, pg_affine = gd_affine d, pg_instructions = ws,
          pg_digest = sha (int (length ws) # ws), pg_trace = lowering_trace sha (jsha value) d (ns @ [n]) ws allocations,
          pg_payload = program_payload (program_version d) (sha (int (length ws) # ws)) ws,
          pg_transactions = length (filter (\<lambda>w. f_op w = 1) ws) + 1\<rparr>"
    using compile_cases [OF d, of sha jsha] assms(2) by auto
  note dok = validate_descriptor_Inr(1) [OF d]
  let ?af = "gd_affine d" and ?k = "length (filter (\<lambda>w. f_op w = 1) ws) + 1"
  have af: "affine_ok ?af" using dok by (simp add: descriptor_ok_def)
  have ok: "\<forall>m \<in> set (ns @ [n]). dag_node_ok (gd_schema d) m" using s(1) by (auto simp: sched_ok_def)
  have ver: "version_of (gd_schema d) (program_version d)" using dok by (auto simp: descriptor_ok_def intro: version_of_program)
  have chk: "validate_fallback_program sha (program_dict p) = Inr (pg_payload p, ws)"
    by (rule fallback_program_ok [OF dok s(4) ok s(3,2) assms(1)]) (simp_all add: p)
  have out: "length out = 256" using fallback_oracle_eq [OF assms(1,2,4)] assms(3) by (metis oracle_length)
  have fields: "affine_field (affine_json ?af) ''rows'' = Inr (af_rows ?af)" "affine_field (affine_json ?af) ''columns'' = Inr (af_columns ?af)"
    "affine_field (affine_json ?af) ''input_stride'' = Inr (af_input ?af)" "affine_field (affine_json ?af) ''output_stride'' = Inr (af_output ?af)"
    by (simp_all add: affine_field_def affine_json_def dget_def py_int_def)
  have cell: "\<exists>ts. cell_transactions (affine_json ?af) (program_version d) ws (af_input ?af) out (row, column) = Inr ts \<and> length ts = ?k \<and> writes_ok out ts"
    if "row < nat (af_rows ?af)" "column < nat (af_columns ?af)" for row column
    using instr_traffic [OF s(4) ok ver _ cell_center(3,4) [OF af that, unfolded store_index_def] out, of "af_input ?af" "(int row + 1) * af_input ?af + int column + 1"]
    by (auto simp: cell_transactions_def fields live_ok_def store_index_def)
  obtain tss where tss: "mapM (row_transactions (affine_json ?af) (program_version d) ws (af_input ?af) out) [0..<nat (af_rows ?af)] = Inr tss"
      "length (concat tss) = nat (af_rows ?af) * (nat (af_columns ?af) * ?k)" "writes_ok out (concat tss)"
    using rows_traffic [OF fields(2) cell] by blast
  have v1: "pg_payload p ! 1 = program_version d" by (simp add: p program_payload_def)
  have dg: "dget (program_dict p) ''affine'' = Inr (affine_json ?af)" by (simp add: program_dict_def dget_def p)
  have "expected_transactions sha (program_dict p) words = Inr (concat tss)"
    by (simp add: expected_transactions_def dg assms(3) chk v1 fields tss(1) del: One_nat_def)
  then show ?thesis using tss(2,3) by (simp add: p)
qed

theorem transactions_counted_witness:
  "\<exists>p out ts. compile_descriptor demo_sha (\<lambda>_. []) (demo_graph 3) = Inr p \<and>
     software_fallback demo_sha (program_dict p) (replicate 324 4) = Inr out \<and>
     expected_transactions demo_sha (program_dict p) (replicate 324 4) = Inr ts \<and> writes_ok out ts"
proof -
  obtain p where p: "compile_descriptor demo_sha (\<lambda>_. []) (demo_graph 3) = Inr p" using demo_compiles by blast
  have "\<not> isl (graph_oracle (demo_graph 3) (replicate 324 4))" by code_simp
  then obtain out where out: "software_fallback demo_sha (program_dict p) (replicate 324 4) = Inr out"
    using fallback_oracle_eq [OF demo_sha_hex p, of "replicate 324 4"] by (cases "graph_oracle (demo_graph 3) (replicate 324 4)") auto
  then show ?thesis using transactions_counted [OF demo_sha_hex p out] p by auto
qed

section \<open>Exceptions of admission\<close>

text \<open>
  A list or a dictionary is not hashable, so a membership test in a set raises \<open>TypeError\<close>. The
  test of \<open>op\<close> is reached by a node that is a dictionary with a fresh identifier.
\<close>

definition unhashable :: "json option \<Rightarrow> bool" where
  "unhashable j = (case j of Some (JList _) \<Rightarrow> True | Some (JDict _) \<Rightarrow> True | _ \<Rightarrow> False)"

definition unhashable_op :: "string set \<Rightarrow> json \<Rightarrow> bool" where
  "unhashable_op identifiers j = (case j of
     JDict kv \<Rightarrow> (case want_identifier (map_of kv ''id'') [] of Inl _ \<Rightarrow> False | Inr name \<Rightarrow> name \<notin> identifiers \<and> unhashable (map_of kv ''op''))
   | _ \<Rightarrow> False)"

lemma in_texts_unhashable:
  "unhashable j \<Longrightarrow> in_texts j f = Inl TypeError" "\<not> unhashable j \<Longrightarrow> value_error (in_texts j f)"
  by (auto simp: unhashable_def in_texts_def split: option.splits json.splits)

lemma value_error_int_field [simp]: "value_error (int_field d k msg)"
  by (auto simp: int_field_def split: option.splits json.splits)

lemma value_error_identifier [simp]: "value_error (want_identifier j msg)"
  unfolding want_identifier_def by (intro value_error_intros) simp_all

lemma want_identifier_Inr: "want_identifier j msg = Inr name \<longleftrightarrow> j = Some (JStr name) \<and> identifier_ok name"
  by (auto simp: want_identifier_def res_simps)

lemma value_error_read_affine: "value_error (read_affine j)"
  unfolding read_affine_def Let_def by (intro value_error_intros) simp_all

lemma value_error_read_address: "value_error (read_address schema kv)"
  unfolding read_address_def read_delta_def by (intro value_error_intros) simp_all

lemma value_error_read_immediate: "value_error (read_immediate schema o' kv)"
  unfolding read_immediate_def Let_def by (intro value_error_intros) simp_all

lemma value_error_read_operands: "value_error (read_operands kv)"
  unfolding read_operands_def Let_def by (intro value_error_intros) simp_all

lemma value_error_read_store: "value_error (read_store stores kv)"
  unfolding read_store_def by (intro value_error_intros) simp_all

lemma unhashable_op_raises:
  assumes "unhashable_op identifiers j"
  shows "read_dag_node schema identifiers stores j = Inl TypeError"
proof -
  obtain kv name where kv: "j = JDict kv" "map_of kv ''id'' = Some (JStr name)" "identifier_ok name" "name \<notin> identifiers" "unhashable (map_of kv ''op'')"
    using assms by (auto simp: unhashable_op_def want_identifier_Inr split: json.split_asm sum.split_asm)
  have d: "want_dict (Some j) msg = Inr kv" and n: "want_identifier (map_of kv ''id'') msg = Inr name" for msg
    using kv by (simp_all add: res_simps want_identifier_Inr)
  show ?thesis unfolding read_dag_node_def Let_def d rbind_simps n using kv(4) in_texts_unhashable(1) [OF kv(5), of dag_op_of] by simp
qed

lemma value_error_read_dag_node:
  assumes "\<not> unhashable_op identifiers j"
  shows "value_error (read_dag_node schema identifiers stores j)"
proof (cases "\<exists>kv name. j = JDict kv \<and> map_of kv ''id'' = Some (JStr name) \<and> identifier_ok name \<and> name \<notin> identifiers")
  case True
  then obtain kv name where kv: "j = JDict kv" "map_of kv ''id'' = Some (JStr name)" "identifier_ok name" "name \<notin> identifiers" by blast
  then have "want_identifier (map_of kv ''id'') [] = Inr name" by (simp add: want_identifier_Inr)
  then have "\<not> unhashable (map_of kv ''op'')" using assms kv by (simp add: unhashable_op_def)
  then have o': "value_error (in_texts (map_of kv ''op'') dag_op_of)" by (rule in_texts_unhashable(2))
  have d: "want_dict (Some j) msg = Inr kv" and n: "want_identifier (map_of kv ''id'') msg = Inr name" for msg
    using kv by (simp_all add: res_simps want_identifier_Inr)
  show ?thesis
    unfolding read_dag_node_def Let_def d rbind_simps n
    by (intro value_error_intros o' value_error_read_address value_error_read_immediate value_error_read_operands value_error_read_store)
      (auto split: prod.splits)
next
  case False
  have "value_error (rbind (want_dict (Some j) msg) (\<lambda>kv. rbind (want_identifier (map_of kv ''id'') msg) (\<lambda>name.
      rbind (reject (name \<in> identifiers) (ValueError msg)) (\<lambda>_. f kv name))))" for msg f
    by (intro value_error_rbind) (use False in \<open>auto simp: res_simps want_identifier_Inr\<close>)
  then show ?thesis unfolding read_dag_node_def Let_def .
qed

definition stumbles :: "string \<Rightarrow> string set \<Rightarrow> nat \<Rightarrow> json list \<Rightarrow> bool" where
  "stumbles schema identifiers stores js \<longleftrightarrow>
     (\<exists>pre ns j post. js = pre @ j # post \<and> read_dag_nodes schema identifiers stores pre = Inr ns \<and> unhashable_op (identifiers \<union> dn_id ` set ns) j)"

lemma stumbles_simps:
  "\<not> stumbles schema identifiers stores []"
  "stumbles schema identifiers stores (j # js) \<longleftrightarrow> unhashable_op identifiers j \<or>
     (\<exists>n. read_dag_node schema identifiers stores j = Inr n \<and>
        stumbles schema (insert (dn_id n) identifiers) (if dn_op n = STORE_U32 then stores + 1 else stores) js)"
proof -
  show "\<not> stumbles schema identifiers stores []" by (simp add: stumbles_def)
  let ?more = "\<lambda>n. if dn_op n = STORE_U32 then stores + 1 else stores"
  show "stumbles schema identifiers stores (j # js) \<longleftrightarrow> unhashable_op identifiers j \<or>
     (\<exists>n. read_dag_node schema identifiers stores j = Inr n \<and> stumbles schema (insert (dn_id n) identifiers) (?more n) js)"
  proof (intro iffI; (elim disjE exE conjE)?)
    assume "stumbles schema identifiers stores (j # js)"
    then obtain pre ns i post where s: "j # js = pre @ i # post" "read_dag_nodes schema identifiers stores pre = Inr ns"
        "unhashable_op (identifiers \<union> dn_id ` set ns) i" unfolding stumbles_def by blast
    show "unhashable_op identifiers j \<or>
     (\<exists>n. read_dag_node schema identifiers stores j = Inr n \<and> stumbles schema (insert (dn_id n) identifiers) (?more n) js)"
    proof (cases pre)
      case Nil
      then show ?thesis using s by simp
    next
      case (Cons p rest)
      then obtain n ms where "p = j" "read_dag_node schema identifiers stores j = Inr n"
          "read_dag_nodes schema (insert (dn_id n) identifiers) (?more n) rest = Inr ms" "ns = n # ms"
        using s by (auto simp only: res_simps read_dag_nodes.simps append_Cons list.inject)
      moreover from this have "stumbles schema (insert (dn_id n) identifiers) (?more n) js"
        using s Cons unfolding stumbles_def by (intro exI [of _ rest] exI [of _ ms] exI [of _ i] exI [of _ post]) auto
      ultimately show ?thesis by blast
    qed
  next
    assume "unhashable_op identifiers j"
    then show "stumbles schema identifiers stores (j # js)"
      unfolding stumbles_def by (intro exI [of _ "[]"] exI [of _ j] exI [of _ js]) simp
  next
    fix n assume n: "read_dag_node schema identifiers stores j = Inr n" "stumbles schema (insert (dn_id n) identifiers) (?more n) js"
    then obtain pre ns i post where s: "js = pre @ i # post" "read_dag_nodes schema (insert (dn_id n) identifiers) (?more n) pre = Inr ns"
        "unhashable_op (insert (dn_id n) identifiers \<union> dn_id ` set ns) i" unfolding stumbles_def by blast
    then show "stumbles schema identifiers stores (j # js)"
      unfolding stumbles_def using n(1) by (intro exI [of _ "j # pre"] exI [of _ "n # ns"] exI [of _ i] exI [of _ post]) simp
  qed
qed

lemma read_dag_nodes_exceptions:
  "if stumbles schema identifiers stores js then read_dag_nodes schema identifiers stores js = Inl TypeError
   else value_error (read_dag_nodes schema identifiers stores js)"
proof (induction js arbitrary: identifiers stores)
  case (Cons j js)
  show ?case
  proof (cases "unhashable_op identifiers j")
    case True
    then show ?thesis by (simp add: stumbles_simps unhashable_op_raises)
  next
    case False
    note v = value_error_read_dag_node [OF False, of schema stores]
    show ?thesis
    proof (cases "read_dag_node schema identifiers stores j")
      case (Inl e)
      then show ?thesis using False v by (simp add: stumbles_simps value_error_def)
    next
      case (Inr n)
      then show ?thesis using False Cons.IH [of "insert (dn_id n) identifiers" "if dn_op n = STORE_U32 then stores + 1 else stores"]
        by (auto simp: stumbles_simps intro!: value_error_rbind split: if_split_asm)
    qed
  qed
qed (simp add: stumbles_simps)

lemma value_error_schedule_loop: "value_error (schedule_loop pending)"
proof (induction pending rule: schedule_loop.induct)
  case (1 pending)
  then show ?case
    by (subst schedule_loop.simps) (auto intro!: value_error_rbind split: option.splits)
qed

lemma value_error_check_operands: "value_error (check_operands ns)"
  unfolding check_operands_def by (intro value_error_foldM) (auto split: option.splits)

text \<open>Admission reaches the nodes once the keys, the schema, the name, the affine map and the count are accepted.\<close>

definition node_tables :: "(string \<times> json) list \<Rightarrow> string \<Rightarrow> json list \<Rightarrow> bool" where
  "node_tables v schema js \<longleftrightarrow> graph_schema (map_of v ''schema'') = Inr schema \<and> (\<exists>graph. map_of v ''graph_id'' = Some (JStr graph) \<and> identifier_ok graph) \<and>
     \<not> isl (read_affine (map_of v ''affine'')) \<and> map_of v ''nodes'' = Some (JList js) \<and> 2 \<le> length js \<and> length js \<le> PROGRAM_CAPACITY"

text \<open>
  C28. Exactly when admission of a descriptor raises \<open>TypeError\<close>: the four keys are the expected
  ones and \<open>schema\<close> is a list or a dictionary, or everything before the nodes is accepted and the
  first node that cannot be read, after a readable prefix, is a dictionary with a fresh
  identifier whose \<open>op\<close> is a list or a dictionary. On every other JSON value it returns the
  descriptor or raises the module's own error.
\<close>

theorem validate_descriptor_errors:
  "if keys v = {''schema'', ''graph_id'', ''affine'', ''nodes''} \<and> (unhashable (map_of v ''schema'') \<or>
       (\<exists>schema js pre ns j post. node_tables v schema js \<and> js = pre @ j # post \<and> read_dag_nodes schema {} 0 pre = Inr ns \<and> unhashable_op (dn_id ` set ns) j))
   then validate_descriptor v = Inl TypeError else value_error (validate_descriptor v)"
proof -
  have trap: "(\<exists>schema js pre ns j post. node_tables v schema js \<and> js = pre @ j # post \<and> read_dag_nodes schema {} 0 pre = Inr ns \<and> unhashable_op (dn_id ` set ns) j)
      \<longleftrightarrow> (\<exists>schema js. node_tables v schema js \<and> stumbles schema {} 0 js)" by (auto simp: stumbles_def)
  show ?thesis
  proof (cases "keys v = {''schema'', ''graph_id'', ''affine'', ''nodes''}")
    case False
    then show ?thesis by (simp add: validate_descriptor_def del: keys_code)
  next
    case keys: True
    show ?thesis
    proof (cases "unhashable (map_of v ''schema'')")
      case True
      then show ?thesis using keys by (simp add: validate_descriptor_def graph_schema_def in_texts_unhashable(1) del: keys_code)
    next
      case False
      have s: "value_error (graph_schema (map_of v ''schema''))"
        unfolding graph_schema_def by (intro value_error_rbind in_texts_unhashable(2) False) simp
      have "if \<exists>schema js. node_tables v schema js \<and> stumbles schema {} 0 js then validate_descriptor v = Inl TypeError else value_error (validate_descriptor v)"
      proof (cases "\<exists>schema js. node_tables v schema js \<and> stumbles schema {} 0 js")
        case True
        then obtain schema js where t: "node_tables v schema js" "stumbles schema {} 0 js" by blast
        have r: "read_dag_nodes schema {} 0 js = Inl TypeError" using t(2) read_dag_nodes_exceptions [of schema "{}" 0 js] by simp
        obtain af where "read_affine (map_of v ''affine'') = Inr af" using t(1) by (cases "read_affine (map_of v ''affine'')") (auto simp: node_tables_def)
        moreover obtain graph where "map_of v ''graph_id'' = Some (JStr graph)" "identifier_ok graph" using t(1) by (auto simp: node_tables_def)
        then have "want_identifier (map_of v ''graph_id'') msg = Inr graph" for msg by (simp add: want_identifier_Inr)
        moreover have "want_list (map_of v ''nodes'') msg = Inr js" for msg using t(1) by (simp add: node_tables_def res_simps)
        ultimately have "validate_descriptor v = Inl TypeError"
          using keys t(1) r unfolding validate_descriptor_def node_tables_def by (simp del: keys_code)
        then show ?thesis using True by simp
      next
        case none: False
        have "value_error (validate_descriptor v)"
          unfolding validate_descriptor_def scheduled_nodes_def
        proof (intro value_error_rbind s value_error_read_affine value_error_check_operands value_error_schedule_loop, goal_cases)
          case (5 u schema graph af js u')
          then have "node_tables v schema js" by (auto simp: node_tables_def res_simps want_identifier_Inr)
          then show ?case using none read_dag_nodes_exceptions [of schema "{}" 0 js] by (metis (full_types))
        qed simp_all
        then show ?thesis using none by (simp only: if_False)
      qed
      then show ?thesis using keys False trap by simp
    qed
  qed
qed

text \<open>A second node whose \<open>op\<close> is a dictionary, after a readable load.\<close>

definition trap_graph :: "(string \<times> json) list" where
  "trap_graph = [(''schema'', JStr GRAPH_V1), (''graph_id'', JStr ''g''), (''affine'', affine_json \<lparr>af_rows = 1, af_columns = 1, af_input = 3, af_output = 1\<rparr>),
     (''nodes'', JList [JDict [(''id'', JStr ''a''), (''op'', JStr ''LOAD_U32''), (''address'', JStr ''center'')], JDict [(''id'', JStr ''b''), (''op'', JDict [])]])]"

theorem validate_descriptor_errors_witness: "validate_descriptor trap_graph = Inl TypeError"
proof -
  let ?a = "JDict [(''id'', JStr ''a''), (''op'', JStr ''LOAD_U32''), (''address'', JStr ''center'')]" and ?b = "JDict [(''id'', JStr ''b''), (''op'', JDict [])]"
  have k: "keys trap_graph = {''schema'', ''graph_id'', ''affine'', ''nodes''}" by code_simp
  have "identifier_ok ''g'' \<and> \<not> isl (read_affine (map_of trap_graph ''affine'')) \<and> graph_schema (map_of trap_graph ''schema'') = Inr GRAPH_V1" by code_simp
  then have t: "node_tables trap_graph GRAPH_V1 [?a, ?b]" by (simp add: node_tables_def trap_graph_def PROGRAM_CAPACITY_def)
  have "case read_dag_nodes GRAPH_V1 {} 0 [?a] of Inl _ \<Rightarrow> False | Inr ns \<Rightarrow> unhashable_op (dn_id ` set ns) ?b" by code_simp
  then obtain ns where "read_dag_nodes GRAPH_V1 {} 0 [?a] = Inr ns" "unhashable_op (dn_id ` set ns) ?b" by (auto split: sum.splits)
  then have "\<exists>schema js pre ns j post. node_tables trap_graph schema js \<and> js = pre @ j # post \<and>
      read_dag_nodes schema {} 0 pre = Inr ns \<and> unhashable_op (dn_id ` set ns) j"
    using t by (intro exI [of _ GRAPH_V1] exI [of _ "[?a, ?b]"] exI [of _ "[?a]"] exI [of _ ns] exI [of _ ?b] exI [of _ "[]"]) simp
  then show "validate_descriptor trap_graph = Inl TypeError" using validate_descriptor_errors [of trap_graph] k by (simp only: simp_thms if_True)
qed

end
