(* ===== verification/Command_Program.thy ===== *)
theory Command_Program
  imports Graph_Program
begin

text \<open>
  \<open>raveil/command_graph.py\<close>, first part: tool identities, policies, nodes, edges and programs of
  the bounded command graph with their dictionaries, and the program's own validation. The
  identity of a program is the SHA-256 of the canonical text of its dictionary; the argument
  \<open>jsha\<close> stands for it. Text is a list of code points below 256.
\<close>

section \<open>Fields\<close>

definition PROGRAM_SCHEMA :: string where "PROGRAM_SCHEMA = ''raveil.command-graph-program/v1''"
definition POLICY_SCHEMA :: string where "POLICY_SCHEMA = ''raveil.command-execution-policy/v1''"
definition TOOL_SCHEMA :: string where "TOOL_SCHEMA = ''raveil.command-tool/v1''"
definition NODE_SCHEMA :: string where "NODE_SCHEMA = ''raveil.command-node/v1''"
definition EDGE_SCHEMA :: string where "EDGE_SCHEMA = ''raveil.command-edge/v1''"

definition MAX_NODES :: int where "MAX_NODES = 64"
definition MAX_CAPTURE_BYTES :: int where "MAX_CAPTURE_BYTES = 1024 * 1024"
definition MAX_PARALLEL :: int where "MAX_PARALLEL = 8"

text \<open>\<open>len(value.encode("utf-8"))\<close>\<close>

definition utf8_size :: "string \<Rightarrow> int" where
  "utf8_size s = (\<Sum>c\<leftarrow>s. if (of_char c :: nat) < 128 then 1 else 2)"

definition text_ok :: "int \<Rightarrow> string \<Rightarrow> bool" where
  "text_ok limit s \<longleftrightarrow> s \<noteq> [] \<and> utf8_size s \<le> limit \<and> CHR 0x00 \<notin> set s"

definition text_of :: "int \<Rightarrow> string \<Rightarrow> json \<Rightarrow> string res" where
  "text_of limit msg j =
     rbind (want_str (Some j) msg) (\<lambda>s. rbind (reject (\<not> text_ok limit s) (ValueError msg)) (\<lambda>_. Inr s))"

definition integer_of :: "int \<Rightarrow> int \<Rightarrow> string \<Rightarrow> json \<Rightarrow> int res" where
  "integer_of low high msg j = (case j of
     JInt n \<Rightarrow> rbind (reject (n < low \<or> high < n) (ValueError msg)) (\<lambda>_. Inr n)
   | _ \<Rightarrow> Inl (ValueError msg))"

definition exact :: "json \<Rightarrow> string set \<Rightarrow> string \<Rightarrow> (string \<times> json) list res" where
  "exact j expected msg =
     rbind (want_dict (Some j) msg) (\<lambda>d. rbind (reject (keys d \<noteq> expected) (ValueError msg)) (\<lambda>_. Inr d))"

text \<open>\<open>data[key]\<close> after the exact field set has been checked.\<close>

definition item :: "(string \<times> json) list \<Rightarrow> string \<Rightarrow> json" where
  "item d k = (case map_of d k of Some j \<Rightarrow> j | None \<Rightarrow> JNull)"

text \<open>Reading a text or a list that an earlier check of the same code has established.\<close>

definition jstr :: "json \<Rightarrow> string" where "jstr j = (case j of JStr s \<Rightarrow> s | _ \<Rightarrow> [])"
definition jitems :: "json \<Rightarrow> json list" where "jitems j = (case j of JList xs \<Rightarrow> xs | _ \<Rightarrow> [])"

section \<open>Tools and policies\<close>

record tool_identity =
  ti_name :: string
  ti_locator :: string
  ti_version :: string
  ti_sha :: string
  ti_adapter :: string
  ti_schema :: string

definition tool_to_dict :: "tool_identity \<Rightarrow> json" where
  "tool_to_dict t = JDict [(''schema'', JStr (ti_schema t)), (''logical_name'', JStr (ti_name t)), (''locator'', JStr (ti_locator t)),
     (''version'', JStr (ti_version t)), (''binary_sha256'', JStr (ti_sha t)), (''adapter'', JStr (ti_adapter t))]"

definition tool_from_dict :: "json \<Rightarrow> tool_identity res" where
  "tool_from_dict j =
     rbind (exact j {''schema'', ''logical_name'', ''locator'', ''version'', ''binary_sha256'', ''adapter''} ''tool fields do not match schema'') (\<lambda>d.
     rbind (text_of 4096 ''invalid tool'' (item d ''logical_name'')) (\<lambda>name.
     rbind (text_of 4096 ''invalid locator'' (item d ''locator'')) (\<lambda>locator.
     rbind (text_of 512 ''invalid version'' (item d ''version'')) (\<lambda>version.
     rbind (text_of 64 ''invalid binary hash'' (item d ''binary_sha256'')) (\<lambda>binary.
     rbind (text_of 4096 ''invalid adapter'' (item d ''adapter'')) (\<lambda>adapter.
     rbind (text_of 4096 ''invalid schema'' (item d ''schema'')) (\<lambda>schema.
     rbind (reject (schema \<noteq> TOOL_SCHEMA \<or> length binary \<noteq> 64) (ValueError ''invalid tool identity'')) (\<lambda>_.
     Inr \<lparr>ti_name = name, ti_locator = locator, ti_version = version, ti_sha = binary, ti_adapter = adapter, ti_schema = schema\<rparr>))))))))"

record execution_policy =
  ep_timeout :: int
  ep_capture :: int
  ep_nodes :: int
  ep_parallel :: int
  ep_schema :: string

definition policy_to_dict :: "execution_policy \<Rightarrow> json" where
  "policy_to_dict p = JDict [(''schema'', JStr (ep_schema p)), (''timeout_ms'', JInt (ep_timeout p)), (''max_capture_bytes'', JInt (ep_capture p)),
     (''max_nodes'', JInt (ep_nodes p)), (''max_parallel'', JInt (ep_parallel p))]"

definition policy_from_dict :: "json \<Rightarrow> execution_policy res" where
  "policy_from_dict j =
     rbind (exact j {''schema'', ''timeout_ms'', ''max_capture_bytes'', ''max_nodes'', ''max_parallel''} ''policy fields do not match schema'') (\<lambda>d.
     rbind (integer_of 1 60000 ''invalid timeout'' (item d ''timeout_ms'')) (\<lambda>timeout.
     rbind (integer_of 1 MAX_CAPTURE_BYTES ''invalid capture'' (item d ''max_capture_bytes'')) (\<lambda>capture.
     rbind (integer_of 1 MAX_NODES ''invalid nodes'' (item d ''max_nodes'')) (\<lambda>nodes.
     rbind (integer_of 1 MAX_PARALLEL ''invalid parallel'' (item d ''max_parallel'')) (\<lambda>parallel.
     rbind (text_of 4096 ''invalid schema'' (item d ''schema'')) (\<lambda>schema.
     rbind (reject (schema \<noteq> POLICY_SCHEMA) (ValueError ''invalid policy schema'')) (\<lambda>_.
     Inr \<lparr>ep_timeout = timeout, ep_capture = capture, ep_nodes = nodes, ep_parallel = parallel, ep_schema = schema\<rparr>)))))))"

section \<open>Nodes and edges\<close>

record command_node =
  cn_id :: string
  cn_tool :: tool_identity
  cn_argv :: "string list"
  cn_paths :: "int list"
  cn_writes :: "string list"
  cn_stdin :: "string option"
  cn_stdout :: "string option"
  cn_deps :: "string list"
  cn_mode :: string
  cn_fanout :: int
  cn_schema :: string

definition node_to_dict :: "command_node \<Rightarrow> json" where
  "node_to_dict n = JDict [(''schema'', JStr (cn_schema n)), (''node_id'', JStr (cn_id n)), (''tool'', tool_to_dict (cn_tool n)),
     (''argv'', JList (map JStr (cn_argv n))), (''path_indices'', JList (map JInt (cn_paths n))), (''declared_writes'', JList (map JStr (cn_writes n))),
     (''stdin_file'', opt_json JStr (cn_stdin n)), (''stdout_file'', opt_json JStr (cn_stdout n)), (''dependencies'', JList (map JStr (cn_deps n))),
     (''dependency_mode'', JStr (cn_mode n)), (''fanout_group'', JInt (cn_fanout n))]"

definition optional_text :: "string \<Rightarrow> json \<Rightarrow> string option res" where
  "optional_text msg j = (if j = JNull then Inr None else rbind (text_of 4096 msg j) (\<lambda>s. Inr (Some s)))"

definition node_from_dict :: "json \<Rightarrow> command_node res" where
  "node_from_dict j =
     rbind (exact j {''schema'', ''node_id'', ''tool'', ''argv'', ''path_indices'', ''declared_writes'', ''stdin_file'', ''stdout_file'', ''dependencies'',
              ''dependency_mode'', ''fanout_group''} ''node fields do not match schema'') (\<lambda>d.
     rbind (want_list (map_of d ''argv'') ''invalid node lists'') (\<lambda>argv_items.
     rbind (want_list (map_of d ''path_indices'') ''invalid node lists'') (\<lambda>path_items.
     rbind (want_list (map_of d ''declared_writes'') ''invalid node lists'') (\<lambda>write_items.
     rbind (want_list (map_of d ''dependencies'') ''invalid node lists'') (\<lambda>dep_items.
     rbind (mapM (text_of 4096 ''invalid argv'') argv_items) (\<lambda>argv.
     rbind (mapM (integer_of 0 (max 0 (int (length argv) - 1)) ''invalid path index'') path_items) (\<lambda>paths.
     rbind (mapM (text_of 4096 ''invalid dependency'') dep_items) (\<lambda>deps.
     rbind (optional_text ''invalid stdin file'' (item d ''stdin_file'')) (\<lambda>stdin_file.
     rbind (optional_text ''invalid stdout file'' (item d ''stdout_file'')) (\<lambda>stdout_file.
     rbind (mapM (text_of 4096 ''invalid declared write'') write_items) (\<lambda>writes.
     rbind (text_of 4096 ''invalid node id'' (item d ''node_id'')) (\<lambda>name.
     rbind (tool_from_dict (item d ''tool'')) (\<lambda>tool.
     rbind (text_of 4096 ''invalid dependency mode'' (item d ''dependency_mode'')) (\<lambda>mode.
     rbind (integer_of 0 MAX_NODES ''invalid fanout group'' (item d ''fanout_group'')) (\<lambda>fanout.
     rbind (text_of 4096 ''invalid schema'' (item d ''schema'')) (\<lambda>schema.
     rbind (reject (schema \<noteq> NODE_SCHEMA \<or> mode \<notin> {''always'', ''success'', ''stream''}) (ValueError ''invalid node'')) (\<lambda>_.
     Inr \<lparr>cn_id = name, cn_tool = tool, cn_argv = argv, cn_paths = paths, cn_writes = writes, cn_stdin = stdin_file, cn_stdout = stdout_file,
          cn_deps = deps, cn_mode = mode, cn_fanout = fanout, cn_schema = schema\<rparr>)))))))))))))))))"

record command_edge =
  ce_source :: string
  ce_target :: string
  ce_kind :: string
  ce_schema :: string

definition edge_to_dict :: "command_edge \<Rightarrow> json" where
  "edge_to_dict e = JDict [(''schema'', JStr (ce_schema e)), (''source'', JStr (ce_source e)), (''target'', JStr (ce_target e)), (''kind'', JStr (ce_kind e))]"

definition edge_from_dict :: "json \<Rightarrow> command_edge res" where
  "edge_from_dict j =
     rbind (exact j {''schema'', ''source'', ''target'', ''kind''} ''edge fields do not match schema'') (\<lambda>d.
     rbind (text_of 4096 ''invalid source'' (item d ''source'')) (\<lambda>s.
     rbind (text_of 4096 ''invalid target'' (item d ''target'')) (\<lambda>t.
     rbind (text_of 4096 ''invalid edge kind'' (item d ''kind'')) (\<lambda>kind.
     rbind (text_of 4096 ''invalid schema'' (item d ''schema'')) (\<lambda>schema.
     rbind (reject (schema \<noteq> EDGE_SCHEMA \<or> kind \<notin> {''stream'', ''success'', ''sequence''}) (ValueError ''invalid edge'')) (\<lambda>_.
     Inr \<lparr>ce_source = s, ce_target = t, ce_kind = kind, ce_schema = schema\<rparr>))))))"

section \<open>Programs\<close>

record command_program =
  cp_id :: string
  cp_source :: string
  cp_nodes :: "command_node list"
  cp_edges :: "command_edge list"
  cp_inputs :: "string list"
  cp_outputs :: "string list"
  cp_policy :: execution_policy
  cp_env :: "(string \<times> string) list"
  cp_schema :: string

definition identity_dict :: "command_program \<Rightarrow> (string \<times> json) list" where
  "identity_dict p = [(''schema'', JStr (cp_schema p)), (''source'', JStr (cp_source p)), (''nodes'', JList (map node_to_dict (cp_nodes p))),
     (''edges'', JList (map edge_to_dict (cp_edges p))), (''declared_inputs'', JList (map JStr (cp_inputs p))), (''declared_outputs'', JList (map JStr (cp_outputs p))),
     (''policy'', policy_to_dict (cp_policy p)), (''environment'', JList (map (\<lambda>(k, v). JList [JStr k, JStr v]) (cp_env p)))]"

definition program_identity :: "((string \<times> json) list \<Rightarrow> string) \<Rightarrow> command_program \<Rightarrow> string" where
  "program_identity jsha p = jsha (identity_dict p)"

definition topological_step :: "string set \<Rightarrow> command_node \<Rightarrow> string set res" where
  "topological_step prior n =
     rbind (reject (\<not> set (cn_deps n) \<subseteq> prior) (ValueError ''command graph is not topological'')) (\<lambda>_. Inr (insert (cn_id n) prior))"

definition validate_program :: "((string \<times> json) list \<Rightarrow> string) \<Rightarrow> command_program \<Rightarrow> unit res" where
  "validate_program jsha p =
     rbind (reject (cp_schema p \<noteq> PROGRAM_SCHEMA \<or> cp_id p \<noteq> ''command-'' @ take 16 (program_identity jsha p))
              (ValueError ''command graph identity does not match'')) (\<lambda>_.
     rbind (reject (cp_nodes p = [] \<or> int (length (cp_nodes p)) > ep_nodes (cp_policy p)) (ValueError ''invalid command graph node count'')) (\<lambda>_.
     rbind (reject (\<not> distinct (map cn_id (cp_nodes p))) (ValueError ''duplicate command node'')) (\<lambda>_.
     rbind (foldM topological_step {} (cp_nodes p)) (\<lambda>_.
     rbind (reject (\<not> distinct (cp_outputs p)) (ValueError ''duplicate declared output'')) (\<lambda>_.
     reject (\<not> distinct (cp_inputs p)) (ValueError ''duplicate declared input''))))))"

definition program_to_dict :: "command_program \<Rightarrow> json" where
  "program_to_dict p = JDict ((''graph_id'', JStr (cp_id p)) # identity_dict p)"

definition env_item :: "json \<Rightarrow> (string \<times> string) res" where
  "env_item j = (case j of
     JList [k, v] \<Rightarrow> rbind (text_of 4096 ''invalid environment key'' k) (\<lambda>k. rbind (text_of 4096 ''invalid environment value'' v) (\<lambda>v. Inr (k, v)))
   | _ \<Rightarrow> Inl (ValueError ''invalid environment''))"

definition program_from_dict :: "((string \<times> json) list \<Rightarrow> string) \<Rightarrow> json \<Rightarrow> command_program res" where
  "program_from_dict jsha j =
     rbind (exact j {''schema'', ''graph_id'', ''source'', ''nodes'', ''edges'', ''declared_inputs'', ''declared_outputs'', ''policy'', ''environment''}
              ''command graph fields do not match schema'') (\<lambda>d.
     rbind (want_list (map_of d ''nodes'') ''invalid command graph list'') (\<lambda>node_items.
     rbind (want_list (map_of d ''edges'') ''invalid command graph list'') (\<lambda>edge_items.
     rbind (want_list (map_of d ''declared_inputs'') ''invalid command graph list'') (\<lambda>input_items.
     rbind (want_list (map_of d ''declared_outputs'') ''invalid command graph list'') (\<lambda>output_items.
     rbind (want_list (map_of d ''environment'') ''invalid command graph list'') (\<lambda>env_items.
     rbind (mapM env_item env_items) (\<lambda>env.
     rbind (text_of 4096 ''invalid graph id'' (item d ''graph_id'')) (\<lambda>name.
     rbind (text_of 8192 ''invalid source'' (item d ''source'')) (\<lambda>text.
     rbind (mapM node_from_dict node_items) (\<lambda>nodes.
     rbind (mapM edge_from_dict edge_items) (\<lambda>edges.
     rbind (mapM (text_of 4096 ''invalid input'') input_items) (\<lambda>inputs.
     rbind (mapM (text_of 4096 ''invalid output'') output_items) (\<lambda>outputs.
     rbind (policy_from_dict (item d ''policy'')) (\<lambda>policy.
     rbind (text_of 4096 ''invalid schema'' (item d ''schema'')) (\<lambda>schema.
     (let p = \<lparr>cp_id = name, cp_source = text, cp_nodes = nodes, cp_edges = edges, cp_inputs = inputs, cp_outputs = outputs,
               cp_policy = policy, cp_env = env, cp_schema = schema\<rparr>
      in rbind (validate_program jsha p) (\<lambda>_. Inr p)))))))))))))))))"

end
