(* ===== verification/Command_Roundtrip.thy ===== *)
theory Command_Roundtrip
  imports Command_Program
begin

text \<open>
  Reading and writing command-graph programs: a program that was read is written as a
  dictionary that reads as the same program, and every program that was read is well formed
  and topologically ordered.
\<close>

section \<open>Fields\<close>

lemma text_of_ok: "text_ok limit s \<Longrightarrow> text_of limit msg (JStr s) = Inr s"
  by (simp add: text_of_def want_str_def)

lemma text_of_Inr: "text_of limit msg j = Inr s \<Longrightarrow> j = JStr s \<and> text_ok limit s"
  by (auto simp: text_of_def res_simps)

lemma integer_of_ok: "low \<le> n \<Longrightarrow> n \<le> high \<Longrightarrow> integer_of low high msg (JInt n) = Inr n"
  by (simp add: integer_of_def)

lemma integer_of_Inr: "integer_of low high msg j = Inr n \<Longrightarrow> j = JInt n \<and> low \<le> n \<and> n \<le> high"
  by (auto simp: integer_of_def split: json.splits)

lemma mapM_of_maps: "(\<And>x. x \<in> set xs \<Longrightarrow> f (g x) = Inr x) \<Longrightarrow> mapM f (map g xs) = Inr xs"
  using mapM_eq_map [of xs "\<lambda>x. f (g x)" id] by (simp add: mapM_map)

lemma mapM_text_ok: "\<forall>s \<in> set ss. text_ok limit s \<Longrightarrow> mapM (text_of limit msg) (map JStr ss) = Inr ss"
  by (rule mapM_of_maps) (simp add: text_of_ok)

lemma mapM_text_Inr: "mapM (text_of limit msg) js = Inr ss \<Longrightarrow> \<forall>s \<in> set ss. text_ok limit s"
  by (induction js arbitrary: ss) (auto simp: res_simps dest: text_of_Inr)

lemma mapM_integer_ok: "\<forall>n \<in> set ns. low \<le> n \<and> n \<le> high \<Longrightarrow> mapM (integer_of low high msg) (map JInt ns) = Inr ns"
  by (rule mapM_of_maps) (simp add: integer_of_ok)

lemma mapM_integer_Inr: "mapM (integer_of low high msg) js = Inr ns \<Longrightarrow> \<forall>n \<in> set ns. low \<le> n \<and> n \<le> high"
  by (induction js arbitrary: ns) (auto simp: res_simps dest: integer_of_Inr)

lemma optional_ok: "(\<And>t. s = Some t \<Longrightarrow> text_ok 4096 t) \<Longrightarrow> optional_text msg (opt_json JStr s) = Inr s"
  by (cases s) (auto simp: optional_text_def opt_json_def text_of_ok)

lemma optional_Inr: "optional_text msg j = Inr s \<Longrightarrow> s = Some t \<Longrightarrow> text_ok 4096 t"
  by (auto simp: optional_text_def res_simps dest: text_of_Inr split: if_splits)

lemma schema_texts: "text_ok 4096 TOOL_SCHEMA" "text_ok 4096 POLICY_SCHEMA" "text_ok 4096 NODE_SCHEMA" "text_ok 4096 EDGE_SCHEMA" "text_ok 4096 PROGRAM_SCHEMA"
  by code_simp+

lemma mode_texts: "mode \<in> {''always'', ''success'', ''stream''} \<Longrightarrow> text_ok 4096 mode" "kind \<in> {''stream'', ''success'', ''sequence''} \<Longrightarrow> text_ok 4096 kind"
  by (auto simp: text_ok_def utf8_size_def)

section \<open>Parts\<close>

definition tool_ok :: "tool_identity \<Rightarrow> bool" where
  "tool_ok t \<longleftrightarrow> text_ok 4096 (ti_name t) \<and> text_ok 4096 (ti_locator t) \<and> text_ok 512 (ti_version t) \<and> text_ok 64 (ti_sha t) \<and>
     text_ok 4096 (ti_adapter t) \<and> ti_schema t = TOOL_SCHEMA \<and> length (ti_sha t) = 64"

lemma tool_roundtrip: "tool_ok t \<Longrightarrow> tool_from_dict (tool_to_dict t) = Inr t"
  by (simp add: tool_from_dict_def tool_to_dict_def exact_def want_dict_def item_def tool_ok_def text_of_ok schema_texts insert_commute)

lemma tool_from_dict_Inr:
  assumes "tool_from_dict j = Inr t"
  shows "tool_ok t"
proof -
  obtain a b c e f s d where t: "text_of 4096 ''invalid tool'' (item d ''logical_name'') = Inr a" "text_of 4096 ''invalid locator'' (item d ''locator'') = Inr b"
    "text_of 512 ''invalid version'' (item d ''version'') = Inr c" "text_of 64 ''invalid binary hash'' (item d ''binary_sha256'') = Inr e"
    "text_of 4096 ''invalid adapter'' (item d ''adapter'') = Inr f" "\<not> (s \<noteq> TOOL_SCHEMA \<or> length e \<noteq> 64)"
    "\<lparr>ti_name = a, ti_locator = b, ti_version = c, ti_sha = e, ti_adapter = f, ti_schema = s\<rparr> = t"
    using assms unfolding tool_from_dict_def by (simp only: res_simps reject_eq sum.inject) blast
  then show ?thesis using text_of_Inr by (auto simp: tool_ok_def)
qed

definition policy_ok :: "execution_policy \<Rightarrow> bool" where
  "policy_ok p \<longleftrightarrow> ep_timeout p \<in> {1..60000} \<and> ep_capture p \<in> {1..MAX_CAPTURE_BYTES} \<and> ep_nodes p \<in> {1..MAX_NODES} \<and>
     ep_parallel p \<in> {1..MAX_PARALLEL} \<and> ep_schema p = POLICY_SCHEMA"

lemma policy_roundtrip: "policy_ok p \<Longrightarrow> policy_from_dict (policy_to_dict p) = Inr p"
  by (simp add: policy_from_dict_def policy_to_dict_def exact_def want_dict_def item_def policy_ok_def integer_of_ok text_of_ok schema_texts)

lemma policy_from_dict_Inr:
  assumes "policy_from_dict j = Inr p"
  shows "policy_ok p"
proof -
  obtain d a b c e s where t: "integer_of 1 60000 ''invalid timeout'' (item d ''timeout_ms'') = Inr a"
    "integer_of 1 MAX_CAPTURE_BYTES ''invalid capture'' (item d ''max_capture_bytes'') = Inr b" "integer_of 1 MAX_NODES ''invalid nodes'' (item d ''max_nodes'') = Inr c"
    "integer_of 1 MAX_PARALLEL ''invalid parallel'' (item d ''max_parallel'') = Inr e" "\<not> s \<noteq> POLICY_SCHEMA"
    "\<lparr>ep_timeout = a, ep_capture = b, ep_nodes = c, ep_parallel = e, ep_schema = s\<rparr> = p"
    using assms unfolding policy_from_dict_def by (simp only: res_simps reject_eq sum.inject) blast
  then show ?thesis using integer_of_Inr by (auto simp: policy_ok_def)
qed

definition cmd_node_ok :: "command_node \<Rightarrow> bool" where
  "cmd_node_ok n \<longleftrightarrow> text_ok 4096 (cn_id n) \<and> tool_ok (cn_tool n) \<and> (\<forall>s \<in> set (cn_argv n). text_ok 4096 s) \<and>
     (\<forall>k \<in> set (cn_paths n). 0 \<le> k \<and> k \<le> max 0 (int (length (cn_argv n)) - 1)) \<and> (\<forall>s \<in> set (cn_writes n). text_ok 4096 s) \<and>
     (\<forall>s. cn_stdin n = Some s \<longrightarrow> text_ok 4096 s) \<and> (\<forall>s. cn_stdout n = Some s \<longrightarrow> text_ok 4096 s) \<and> (\<forall>s \<in> set (cn_deps n). text_ok 4096 s) \<and>
     cn_mode n \<in> {''always'', ''success'', ''stream''} \<and> 0 \<le> cn_fanout n \<and> cn_fanout n \<le> MAX_NODES \<and> cn_schema n = NODE_SCHEMA"

lemma node_keys: "keys (case node_to_dict n of JDict d \<Rightarrow> d | _ \<Rightarrow> []) =
  {''schema'', ''node_id'', ''tool'', ''argv'', ''path_indices'', ''declared_writes'', ''stdin_file'', ''stdout_file'', ''dependencies'', ''dependency_mode'', ''fanout_group''}"
  by (simp add: node_to_dict_def)

lemma node_roundtrip:
  assumes "cmd_node_ok n"
  shows "node_from_dict (node_to_dict n) = Inr n"
proof -
  have a: "mapM (text_of 4096 ''invalid argv'') (map JStr (cn_argv n)) = Inr (cn_argv n)"
    "mapM (text_of 4096 ''invalid dependency'') (map JStr (cn_deps n)) = Inr (cn_deps n)"
    "mapM (text_of 4096 ''invalid declared write'') (map JStr (cn_writes n)) = Inr (cn_writes n)"
    "mapM (integer_of 0 (max 0 (int (length (cn_argv n)) - 1)) ''invalid path index'') (map JInt (cn_paths n)) = Inr (cn_paths n)"
    "optional_text ''invalid stdin file'' (opt_json JStr (cn_stdin n)) = Inr (cn_stdin n)"
    "optional_text ''invalid stdout file'' (opt_json JStr (cn_stdout n)) = Inr (cn_stdout n)"
    "tool_from_dict (tool_to_dict (cn_tool n)) = Inr (cn_tool n)"
    using assms by (simp_all add: cmd_node_ok_def mapM_text_ok mapM_integer_ok optional_ok tool_roundtrip)
  show ?thesis
    using a assms mode_texts(1) [of "cn_mode n"]
    by (simp add: node_from_dict_def node_to_dict_def exact_def want_dict_def want_list_def item_def cmd_node_ok_def text_of_ok integer_of_ok schema_texts)
qed

lemma node_from_dict_Inr:
  assumes "node_from_dict j = Inr n"
  shows "cmd_node_ok n"
proof -
  obtain d ja jp jw jd argv paths deps si so writes name tool mode fanout schema where t:
    "mapM (text_of 4096 ''invalid argv'') ja = Inr argv" "mapM (integer_of 0 (max 0 (int (length argv) - 1)) ''invalid path index'') jp = Inr paths"
    "mapM (text_of 4096 ''invalid dependency'') jd = Inr deps" "optional_text ''invalid stdin file'' (item d ''stdin_file'') = Inr si"
    "optional_text ''invalid stdout file'' (item d ''stdout_file'') = Inr so" "mapM (text_of 4096 ''invalid declared write'') jw = Inr writes"
    "text_of 4096 ''invalid node id'' (item d ''node_id'') = Inr name" "tool_from_dict (item d ''tool'') = Inr tool"
    "integer_of 0 MAX_NODES ''invalid fanout group'' (item d ''fanout_group'') = Inr fanout"
    "\<not> (schema \<noteq> NODE_SCHEMA \<or> mode \<notin> {''always'', ''success'', ''stream''})"
    "\<lparr>cn_id = name, cn_tool = tool, cn_argv = argv, cn_paths = paths, cn_writes = writes, cn_stdin = si, cn_stdout = so,
      cn_deps = deps, cn_mode = mode, cn_fanout = fanout, cn_schema = schema\<rparr> = n"
    using assms unfolding node_from_dict_def by (simp only: res_simps reject_eq sum.inject) blast
  show ?thesis
    unfolding cmd_node_ok_def t(11) [symmetric] command_node.simps
    using mapM_text_Inr [OF t(1)] mapM_text_Inr [OF t(3)] mapM_text_Inr [OF t(6)] mapM_integer_Inr [OF t(2)] optional_Inr [OF t(4)] optional_Inr [OF t(5)]
      text_of_Inr [OF t(7)] tool_from_dict_Inr [OF t(8)] integer_of_Inr [OF t(9)] t(10) by blast
qed

definition cmd_edge_ok :: "command_edge \<Rightarrow> bool" where
  "cmd_edge_ok e \<longleftrightarrow> text_ok 4096 (ce_source e) \<and> text_ok 4096 (ce_target e) \<and> ce_kind e \<in> {''stream'', ''success'', ''sequence''} \<and> ce_schema e = EDGE_SCHEMA"

lemma edge_roundtrip: "cmd_edge_ok e \<Longrightarrow> edge_from_dict (edge_to_dict e) = Inr e"
  using mode_texts(2) [of "ce_kind e"]
  by (simp add: edge_from_dict_def edge_to_dict_def exact_def want_dict_def item_def cmd_edge_ok_def text_of_ok schema_texts)

lemma edge_from_dict_Inr:
  assumes "edge_from_dict j = Inr e"
  shows "cmd_edge_ok e"
proof -
  obtain d a b k s where t: "text_of 4096 ''invalid source'' (item d ''source'') = Inr a" "text_of 4096 ''invalid target'' (item d ''target'') = Inr b"
    "\<not> (s \<noteq> EDGE_SCHEMA \<or> k \<notin> {''stream'', ''success'', ''sequence''})" "\<lparr>ce_source = a, ce_target = b, ce_kind = k, ce_schema = s\<rparr> = e"
    using assms unfolding edge_from_dict_def by (simp only: res_simps reject_eq sum.inject) blast
  then show ?thesis using text_of_Inr by (auto simp: cmd_edge_ok_def)
qed

section \<open>Programs\<close>

definition program_ok :: "command_program \<Rightarrow> bool" where
  "program_ok p \<longleftrightarrow> text_ok 4096 (cp_id p) \<and> text_ok 8192 (cp_source p) \<and> (\<forall>n \<in> set (cp_nodes p). cmd_node_ok n) \<and> (\<forall>e \<in> set (cp_edges p). cmd_edge_ok e) \<and>
     (\<forall>s \<in> set (cp_inputs p) \<union> set (cp_outputs p). text_ok 4096 s) \<and> policy_ok (cp_policy p) \<and> (\<forall>(k, v) \<in> set (cp_env p). text_ok 4096 k \<and> text_ok 4096 v) \<and>
     text_ok 4096 (cp_schema p)"

lemma env_item_ok: "text_ok 4096 k \<Longrightarrow> text_ok 4096 v \<Longrightarrow> env_item (JList [JStr k, JStr v]) = Inr (k, v)"
  by (simp add: env_item_def text_of_ok)

lemma env_item_Inr: "env_item j = Inr (k, v) \<Longrightarrow> text_ok 4096 k \<and> text_ok 4096 v"
  by (auto simp: env_item_def res_simps dest: text_of_Inr split: json.splits list.splits)

lemma program_roundtrip:
  assumes "program_ok p" "validate_program jsha p = Inr ()"
  shows "program_from_dict jsha (program_to_dict p) = Inr p"
proof -
  have a: "mapM node_from_dict (map node_to_dict (cp_nodes p)) = Inr (cp_nodes p)" "mapM edge_from_dict (map edge_to_dict (cp_edges p)) = Inr (cp_edges p)"
    "mapM (text_of 4096 ''invalid input'') (map JStr (cp_inputs p)) = Inr (cp_inputs p)"
    "mapM (text_of 4096 ''invalid output'') (map JStr (cp_outputs p)) = Inr (cp_outputs p)"
    "mapM env_item (map (\<lambda>(k, v). JList [JStr k, JStr v]) (cp_env p)) = Inr (cp_env p)"
    "policy_from_dict (policy_to_dict (cp_policy p)) = Inr (cp_policy p)"
    using assms(1) by (auto simp: program_ok_def node_roundtrip edge_roundtrip mapM_text_ok policy_roundtrip env_item_ok intro!: mapM_of_maps)
  have k: "keys ((''graph_id'', JStr (cp_id p)) # identity_dict p) =
      {''schema'', ''graph_id'', ''source'', ''nodes'', ''edges'', ''declared_inputs'', ''declared_outputs'', ''policy'', ''environment''}"
    by (simp add: identity_dict_def insert_commute)
  show ?thesis
    using a assms unfolding program_from_dict_def program_to_dict_def exact_def want_dict_def option.case json.case rbind_simps k rbind_reject
    by (cases p) (simp add: identity_dict_def want_list_def item_def program_ok_def text_of_ok Let_def)
qed

lemma program_from_dict_Inr:
  assumes "program_from_dict jsha j = Inr p"
  shows "program_ok p" "validate_program jsha p = Inr ()"
proof -
  obtain d jn je ji jo jv env name src_text nodes edges inputs outputs policy schema u where t:
    "mapM env_item jv = Inr env" "text_of 4096 ''invalid graph id'' (item d ''graph_id'') = Inr name" "text_of 8192 ''invalid source'' (item d ''source'') = Inr src_text"
    "mapM node_from_dict jn = Inr nodes" "mapM edge_from_dict je = Inr edges" "mapM (text_of 4096 ''invalid input'') ji = Inr inputs"
    "mapM (text_of 4096 ''invalid output'') jo = Inr outputs" "policy_from_dict (item d ''policy'') = Inr policy" "text_of 4096 ''invalid schema'' (item d ''schema'') = Inr schema"
    "validate_program jsha \<lparr>cp_id = name, cp_source = src_text, cp_nodes = nodes, cp_edges = edges, cp_inputs = inputs, cp_outputs = outputs,
               cp_policy = policy, cp_env = env, cp_schema = schema\<rparr> = Inr u"
    "\<lparr>cp_id = name, cp_source = src_text, cp_nodes = nodes, cp_edges = edges, cp_inputs = inputs, cp_outputs = outputs,
               cp_policy = policy, cp_env = env, cp_schema = schema\<rparr> = p"
    using assms unfolding program_from_dict_def Let_def by (simp only: res_simps reject_eq sum.inject) blast
  have envs: "\<forall>x \<in> set env. case x of (k, v) \<Rightarrow> text_ok 4096 k \<and> text_ok 4096 v" by (rule mapM_all [OF t(1)]) (auto dest: env_item_Inr)
  have nodes: "\<forall>n \<in> set nodes. cmd_node_ok n" by (rule mapM_all [OF t(4)]) (rule node_from_dict_Inr)
  have edges: "\<forall>e \<in> set edges. cmd_edge_ok e" by (rule mapM_all [OF t(5)]) (rule edge_from_dict_Inr)
  show "program_ok p"
    unfolding program_ok_def t(11) [symmetric] command_program.simps
    using text_of_Inr [OF t(2)] text_of_Inr [OF t(3)] text_of_Inr [OF t(9)] nodes edges
      mapM_text_Inr [OF t(6)] mapM_text_Inr [OF t(7)] policy_from_dict_Inr [OF t(8)] envs by blast
  show "validate_program jsha p = Inr ()" using t(10,11) by simp
qed

text \<open>Validation establishes dependency order.\<close>

fun command_order :: "string set \<Rightarrow> command_node list \<Rightarrow> bool" where
  "command_order seen [] \<longleftrightarrow> True"
| "command_order seen (n # ns) \<longleftrightarrow> set (cn_deps n) \<subseteq> seen \<and> command_order (insert (cn_id n) seen) ns"

lemma topological_order: "foldM topological_step seen ns = Inr s \<Longrightarrow> command_order seen ns"
  by (induction ns arbitrary: seen) (auto simp: topological_step_def split: if_splits)

lemma validate_program_Inr:
  assumes "validate_program jsha p = Inr ()"
  shows "command_order {} (cp_nodes p)" "distinct (map cn_id (cp_nodes p))" "cp_nodes p \<noteq> []" "int (length (cp_nodes p)) \<le> ep_nodes (cp_policy p)"
    "cp_id p = ''command-'' @ take 16 (program_identity jsha p)"
proof -
  obtain s where s: "foldM topological_step {} (cp_nodes p) = Inr s" "\<not> \<not> distinct (map cn_id (cp_nodes p))"
    "\<not> (cp_nodes p = [] \<or> int (length (cp_nodes p)) > ep_nodes (cp_policy p))"
    "\<not> (cp_schema p \<noteq> PROGRAM_SCHEMA \<or> cp_id p \<noteq> ''command-'' @ take 16 (program_identity jsha p))"
    using assms unfolding validate_program_def by (simp only: res_simps reject_eq) blast
  show "command_order {} (cp_nodes p)" using topological_order [OF s(1)] .
  show "distinct (map cn_id (cp_nodes p))" "cp_nodes p \<noteq> []" "int (length (cp_nodes p)) \<le> ep_nodes (cp_policy p)"
    "cp_id p = ''command-'' @ take 16 (program_identity jsha p)" using s by auto
qed

text \<open>
  C34. A program read from a dictionary is written as a dictionary that reads as the same program.
  Its nodes are distinct and topologically ordered, their number is within the policy and at
  most 64, and its name is derived from the digest of its content.
\<close>

theorem command_program_roundtrip:
  assumes "program_from_dict jsha j = Inr p"
  shows "program_from_dict jsha (program_to_dict p) = Inr p \<and> command_order {} (cp_nodes p) \<and> distinct (map cn_id (cp_nodes p)) \<and>
    cp_nodes p \<noteq> [] \<and> int (length (cp_nodes p)) \<le> 64 \<and> cp_id p = ''command-'' @ take 16 (program_identity jsha p)"
proof -
  note ok = program_from_dict_Inr [OF assms]
  note v = validate_program_Inr [OF ok(2)]
  have "ep_nodes (cp_policy p) \<le> 64" using ok(1) by (auto simp: program_ok_def policy_ok_def MAX_NODES_def)
  then show ?thesis using program_roundtrip [OF ok] v by auto
qed

definition demo_tool :: tool_identity where
  "demo_tool = \<lparr>ti_name = ''echo'', ti_locator = ''system://echo/00'', ti_version = ''v1'', ti_sha = replicate 64 CHR ''0'', ti_adapter = ''direct-argv'',
     ti_schema = TOOL_SCHEMA\<rparr>"

definition demo_node :: "string \<Rightarrow> string list \<Rightarrow> command_node" where
  "demo_node name deps = \<lparr>cn_id = name, cn_tool = demo_tool, cn_argv = [''hi''], cn_paths = [], cn_writes = [], cn_stdin = None, cn_stdout = None,
     cn_deps = deps, cn_mode = ''always'', cn_fanout = 0, cn_schema = NODE_SCHEMA\<rparr>"

definition demo_program :: command_program where
  "demo_program = \<lparr>cp_id = ''command-x'', cp_source = ''echo hi ; echo hi'', cp_nodes = [demo_node ''n1'' [], demo_node ''n2'' [''n1'']],
     cp_edges = [\<lparr>ce_source = ''n1'', ce_target = ''n2'', ce_kind = ''sequence'', ce_schema = EDGE_SCHEMA\<rparr>], cp_inputs = [], cp_outputs = [],
     cp_policy = \<lparr>ep_timeout = 10, ep_capture = 10, ep_nodes = 2, ep_parallel = 1, ep_schema = POLICY_SCHEMA\<rparr>, cp_env = [(''LC_ALL'', ''C'')],
     cp_schema = PROGRAM_SCHEMA\<rparr>"

theorem command_program_roundtrip_witness:
  "\<exists>p. program_from_dict (\<lambda>_. ''x'') (program_to_dict demo_program) = Inr p \<and> program_from_dict (\<lambda>_. ''x'') (program_to_dict p) = Inr p"
proof -
  have "\<not> isl (program_from_dict (\<lambda>_. ''x'') (program_to_dict demo_program))" by code_simp
  then obtain p where "program_from_dict (\<lambda>_. ''x'') (program_to_dict demo_program) = Inr p"
    by (cases "program_from_dict (\<lambda>_. ''x'') (program_to_dict demo_program)") auto
  with command_program_roundtrip [OF this] show ?thesis by blast
qed

end
