(* ===== verification/Command_Compile.thy ===== *)
theory Command_Compile
  imports Command_Roundtrip
begin

text \<open>
  \<open>raveil/workspace.py\<close> (virtual paths) and \<open>raveil/command_graph.py\<close>, second part: the path
  classification of the allowed tools and the compiler from shell tokens to a program. Tokens
  come from \<open>shlex\<close>; the registry of installed tools and the state of the workspace on disk are
  the arguments \<open>registry\<close> and \<open>probe\<close>. \<open>WorkspaceError\<close> is a \<open>ValueError\<close>. Where the code iterates
  over a set, the model uses its sorted order, which only selects among failures.
\<close>

section \<open>Virtual paths\<close>

fun split_slash :: "string \<Rightarrow> string list" where
  "split_slash [] = [[]]"
| "split_slash (c # cs) = (if c = CHR ''/'' then [] # split_slash cs
     else (case split_slash cs of [] \<Rightarrow> [[c]] | w # ws \<Rightarrow> (c # w) # ws))"

definition check_text_path :: "string \<Rightarrow> unit res" where
  "check_text_path path =
     rbind (reject (path = []) (ValueError ''path must not be empty'')) (\<lambda>_.
     rbind (reject (CHR 0x00 \<in> set path) (ValueError ''path contains NUL'')) (\<lambda>_.
     reject (utf8_size path > 4096) (ValueError ''path exceeds 4096 bytes'')))"

text \<open>\<open>PurePosixPath(path).parts\<close> without the root: empty and \<open>.\<close> components are dropped.\<close>

definition raw_parts :: "string \<Rightarrow> string list" where
  "raw_parts path = filter (\<lambda>c. c \<noteq> [] \<and> c \<noteq> ''.'') (split_slash path)"

definition path_parts :: "string list \<Rightarrow> string \<Rightarrow> string list res" where
  "path_parts cwd path =
     rbind (check_text_path path) (\<lambda>_.
     rbind (reject (''..'' \<in> set (raw_parts path)) (ValueError ''parent traversal is not allowed'')) (\<lambda>_.
     Inr ((if hd path = CHR ''/'' then [] else cwd) @ raw_parts path)))"

definition virtual_path :: "string list \<Rightarrow> string" where
  "virtual_path parts = (if parts = [] then ''/'' else concat (map (\<lambda>c. CHR ''/'' # c) parts))"

definition normalize :: "string list \<Rightarrow> string \<Rightarrow> string res" where
  "normalize cwd path = rbind (path_parts cwd path) (\<lambda>parts. Inr (virtual_path parts))"

section \<open>Path arguments of the tools\<close>

record path_state =
  ps_args :: "string list"
  ps_paths :: "int list"
  ps_reads :: "string set"
  ps_writes :: "string set"

definition initial_paths :: "string list \<Rightarrow> path_state" where
  "initial_paths args = \<lparr>ps_args = args, ps_paths = [], ps_reads = {}, ps_writes = {}\<rparr>"

definition use_path :: "string list \<Rightarrow> bool \<Rightarrow> path_state \<Rightarrow> nat \<Rightarrow> path_state res" where
  "use_path cwd write s k =
     rbind (normalize cwd (ps_args s ! k)) (\<lambda>v.
     Inr \<lparr>ps_args = (ps_args s)[k := v], ps_paths = ps_paths s @ [int k],
          ps_reads = (if write then ps_reads s else insert v (ps_reads s)), ps_writes = (if write then insert v (ps_writes s) else ps_writes s)\<rparr>)"

definition use_paths :: "string list \<Rightarrow> bool \<Rightarrow> path_state \<Rightarrow> nat list \<Rightarrow> path_state res" where
  "use_paths cwd write = foldM (use_path cwd write)"

definition dashed :: "string \<Rightarrow> bool" where
  "dashed s \<longleftrightarrow> s \<noteq> [] \<and> hd s = CHR ''-''"

text \<open>\<open>str.isdigit\<close> on code points below 256\<close>

definition is_digits :: "string \<Rightarrow> bool" where
  "is_digits s \<longleftrightarrow> s \<noteq> [] \<and> list_all (\<lambda>c. (CHR ''0'' \<le> c \<and> c \<le> CHR ''9'') \<or> c \<in> {CHR 0xB2, CHR 0xB3, CHR 0xB9}) s"

fun contains_n :: "string \<Rightarrow> bool" where
  "contains_n (a # b # cs) \<longleftrightarrow> (a = CHR ''%'' \<and> b = CHR ''n'') \<or> contains_n (b # cs)"
| "contains_n _ \<longleftrightarrow> False"

fun cut_options :: "string list \<Rightarrow> nat res" where
  "cut_options (a # rest) = (if a \<in> {''-d'', ''-f''} then
     (case rest of [] \<Rightarrow> Inl (ValueError ''invalid cut option'') | _ # later \<Rightarrow> rbind (cut_options later) (\<lambda>k. Inr (k + 2))) else Inr 0)"
| "cut_options [] = Inr 0"

fun uniq_options :: "string list \<Rightarrow> nat res" where
  "uniq_options (a # rest) = (if dashed a then
     (if a \<in> {''-c'', ''-d'', ''-u''} then rbind (uniq_options rest) (\<lambda>k. Inr (k + 1)) else Inl (ValueError ''unsupported uniq option'')) else Inr 0)"
| "uniq_options [] = Inr 0"

definition grep_paths :: "string list \<Rightarrow> string list \<Rightarrow> path_state res" where
  "grep_paths cwd args =
     (let k = length (takeWhile (\<lambda>a. a \<in> {''-E'', ''-F'', ''-i'', ''-v'', ''-c''}) args)
      in rbind (reject (k \<ge> length args) (ValueError ''grep requires a pattern'')) (\<lambda>_.
         rbind (reject (dashed (args ! k)) (ValueError ''unsupported grep option'')) (\<lambda>_.
         foldM (\<lambda>s i. rbind (reject (dashed (args ! i)) (ValueError ''unsupported grep option'')) (\<lambda>_. use_path cwd False s i))
           (initial_paths args) [k + 1..<length args])))"

definition count_paths :: "string list \<Rightarrow> string \<Rightarrow> string list \<Rightarrow> path_state res" where
  "count_paths cwd name args =
     foldM (\<lambda>s i. if dashed (args ! i)
         then rbind (reject (args ! i \<notin> (if name = ''wc'' then {''-l'', ''-w'', ''-c''} else {''-r'', ''-n'', ''-u''})) (ValueError ''unsupported option'')) (\<lambda>_. Inr s)
         else use_path cwd False s i) (initial_paths args) [0..<length args]"

definition head_start :: "string list \<Rightarrow> nat res" where
  "head_start args =
     (if take 1 args = [''-n''] then rbind (reject (length args < 2 \<or> \<not> is_digits (args ! 1)) (ValueError ''invalid count'')) (\<lambda>_. Inr 2)
      else if args \<noteq> [] \<and> dashed (hd args) then Inl (ValueError ''unsupported option'') else Inr 0)"

definition tool_paths :: "string list \<Rightarrow> string \<Rightarrow> string list \<Rightarrow> path_state res" where
  "tool_paths cwd name args =
     (let s = initial_paths args; options = list_ex dashed args; every = [0..<length args]
      in if name = ''cat'' then rbind (reject (args = [] \<or> options) (ValueError ''cat accepts file operands only'')) (\<lambda>_. use_paths cwd False s every)
         else if name = ''grep'' then grep_paths cwd args
         else if name \<in> {''wc'', ''sort''} then count_paths cwd name args
         else if name = ''uniq'' then
           rbind (uniq_options args) (\<lambda>k.
           rbind (reject (length args - k > 1) (ValueError ''uniq supports at most one input file'')) (\<lambda>_. use_paths cwd False s [k..<length args]))
         else if name = ''tr'' then rbind (reject (length args \<noteq> 2 \<or> options) (ValueError ''tr requires two sets'')) (\<lambda>_. Inr s)
         else if name \<in> {''head'', ''tail''} then rbind (head_start args) (\<lambda>k. use_paths cwd False s [k..<length args])
         else if name = ''cut'' then
           rbind (cut_options args) (\<lambda>k. rbind (reject (k = 0) (ValueError ''cut requires -d/-f'')) (\<lambda>_. use_paths cwd False s [k..<length args]))
         else if name = ''tee'' then rbind (reject (args = [] \<or> options) (ValueError ''tee append/options are unsupported'')) (\<lambda>_. use_paths cwd True s every)
         else if name = ''cp'' then
           rbind (reject (length args \<noteq> 2 \<or> options) (ValueError ''cp requires source and destination'')) (\<lambda>_.
           rbind (use_path cwd False s 0) (\<lambda>s. use_path cwd True s 1))
         else if name = ''sha256sum'' then rbind (reject (args = [] \<or> options) (ValueError ''sha256sum accepts files only'')) (\<lambda>_. use_paths cwd False s every)
         else if name \<in> {''ls'', ''stat''} then
           rbind (reject (length args > 1 \<or> options) (ValueError ''unsupported arguments'')) (\<lambda>_. use_paths cwd False s every)
         else if name = ''mkdir'' then rbind (reject (length args \<noteq> 1 \<or> options) (ValueError ''mkdir requires one path'')) (\<lambda>_. use_path cwd True s 0)
         else if name = ''pwd'' then rbind (reject (args \<noteq> []) (ValueError ''pwd accepts no arguments'')) (\<lambda>_. Inr s)
         else if name = ''echo'' then rbind (reject options (ValueError ''echo options are unsupported'')) (\<lambda>_. Inr s)
         else if name = ''printf'' then rbind (reject (args = [] \<or> contains_n (hd args)) (ValueError ''invalid printf arguments'')) (\<lambda>_. Inr s)
         else Inl (ValueError ''unsupported tool adapter''))"

section \<open>The compiler\<close>

definition MAX_ARGV :: nat where "MAX_ARGV = 32"
definition MAX_ARG_BYTES :: int where "MAX_ARG_BYTES = 4096"

definition OPERATORS :: "string set" where "OPERATORS = {''|'', ''&&'', '';'', ''|||''}"

definition check_tokens :: "string list \<Rightarrow> unit res" where
  "check_tokens tokens =
     rbind (reject (tokens = []) (ValueError ''command is empty'')) (\<lambda>_.
     reject (list_ex (\<lambda>t. t \<in> {''>>'', ''||'', ''&''} \<or> list_ex (\<lambda>c. c \<in> {CHR ''*'', CHR ''?'', CHR ''['', CHR '']''}) t) tokens)
       (ValueError ''unsupported shell operator or expansion''))"

record command_state =
  cs_nodes :: "command_node list"
  cs_edges :: "command_edge list"
  cs_inputs :: "string set"
  cs_outputs :: "string set"
  cs_command :: "string list"
  cs_stdin :: "string option"
  cs_stdout :: "string option"
  cs_operator :: "string option"
  cs_previous :: "string list"
  cs_fanout :: int

definition initial_command :: command_state where
  "initial_command = \<lparr>cs_nodes = [], cs_edges = [], cs_inputs = {}, cs_outputs = {}, cs_command = [], cs_stdin = None, cs_stdout = None,
     cs_operator = None, cs_previous = [], cs_fanout = 0\<rparr>"

definition command_node_name :: "nat \<Rightarrow> string \<Rightarrow> string" where
  "command_node_name k name = ''node-'' @ zfill 3 k @ ''-'' @ name"

definition node_mode :: "string option \<Rightarrow> string" where
  "node_mode pending = (if pending = Some ''|'' then ''stream'' else if pending = Some ''&&'' then ''success'' else ''always'')"

definition node_deps :: "string option \<Rightarrow> string list \<Rightarrow> string list" where
  "node_deps pending previous =
     (if pending = Some ''|'' then [last previous] else if pending \<in> {Some ''&&'', Some '';''} then previous else [])"

definition edge_kind :: "string \<Rightarrow> string" where
  "edge_kind mode = (if mode = ''stream'' then ''stream'' else if mode = ''success'' then ''success'' else ''sequence'')"

definition emit_command :: "(string \<Rightarrow> tool_identity res) \<Rightarrow> string list \<Rightarrow> command_state \<Rightarrow> command_state res" where
  "emit_command registry cwd s = (case cs_command s of
     [] \<Rightarrow> Inl (ValueError ''operator requires a command'')
   | name # args \<Rightarrow>
       rbind (reject (length (cs_command s) > MAX_ARGV \<or> (\<Sum>t\<leftarrow>cs_command s. utf8_size t) > MAX_ARG_BYTES) (ValueError ''command argv exceeds bounds'')) (\<lambda>_.
       rbind (reject (CHR ''/'' \<in> set name) (ValueError ''executable paths are not accepted'')) (\<lambda>_.
       rbind (registry name) (\<lambda>tool.
       rbind (tool_paths cwd name args) (\<lambda>ps.
       (let node_id = command_node_name (length (cs_nodes s) + 1) name; mode = node_mode (cs_operator s); deps = node_deps (cs_operator s) (cs_previous s);
            fanout = (if cs_operator s = Some ''|||'' then cs_fanout s + 1 else cs_fanout s);
            n = \<lparr>cn_id = node_id, cn_tool = tool, cn_argv = ps_args ps, cn_paths = ps_paths ps,
                 cn_writes = sorted_list_of_set (ps_writes ps \<union> set_option (cs_stdout s)), cn_stdin = cs_stdin s, cn_stdout = cs_stdout s,
                 cn_deps = deps, cn_mode = mode, cn_fanout = fanout, cn_schema = NODE_SCHEMA\<rparr>
        in Inr \<lparr>cs_nodes = cs_nodes s @ [n],
             cs_edges = cs_edges s @ map (\<lambda>d. \<lparr>ce_source = d, ce_target = node_id, ce_kind = edge_kind mode, ce_schema = EDGE_SCHEMA\<rparr>) deps,
             cs_inputs = cs_inputs s \<union> ps_reads ps \<union> set_option (cs_stdin s), cs_outputs = cs_outputs s \<union> ps_writes ps \<union> set_option (cs_stdout s),
             cs_command = [], cs_stdin = None, cs_stdout = None, cs_operator = None,
             cs_previous = (if cs_operator s = Some ''|||'' then cs_previous s @ [node_id] else [node_id]), cs_fanout = fanout\<rparr>))))))"

fun compile_tokens :: "(string \<Rightarrow> tool_identity res) \<Rightarrow> string list \<Rightarrow> command_state \<Rightarrow> string list \<Rightarrow> command_state res" where
  "compile_tokens registry cwd s [] = emit_command registry cwd s"
| "compile_tokens registry cwd s (t # ts) =
     (if t \<in> OPERATORS then rbind (emit_command registry cwd s) (\<lambda>s'. compile_tokens registry cwd (s'\<lparr>cs_operator := Some t\<rparr>) ts)
      else if t \<in> {''<'', ''>''} then
        (case ts of
           [] \<Rightarrow> Inl (ValueError ''redirection requires a path'')
         | path # rest \<Rightarrow>
             rbind (reject (path \<in> OPERATORS \<union> {''<'', ''>''}) (ValueError ''redirection requires a path'')) (\<lambda>_.
             rbind (normalize cwd path) (\<lambda>v.
             if t = ''<'' then
               rbind (reject (cs_stdin s \<noteq> None) (ValueError ''duplicate input redirection'')) (\<lambda>_. compile_tokens registry cwd (s\<lparr>cs_stdin := Some v\<rparr>) rest)
             else
               rbind (reject (cs_stdout s \<noteq> None) (ValueError ''duplicate output redirection'')) (\<lambda>_. compile_tokens registry cwd (s\<lparr>cs_stdout := Some v\<rparr>) rest))))
      else compile_tokens registry cwd (s\<lparr>cs_command := cs_command s @ [t]\<rparr>) ts)"

text \<open>What the workspace answers for a virtual path.\<close>

datatype presence = Missing | Regular | Irregular | Unavailable string

definition external_input :: "(string \<Rightarrow> presence) \<Rightarrow> string set \<Rightarrow> string list \<Rightarrow> string \<Rightarrow> string list res" where
  "external_input probe outputs external path = (case probe path of
     Missing \<Rightarrow> if path \<in> outputs then Inr external else Inl (ValueError ''path does not exist'')
   | Regular \<Rightarrow> Inr (external @ [path])
   | Irregular \<Rightarrow> Inl (ValueError ''declared input must be a regular file'')
   | Unavailable msg \<Rightarrow> Inl (ValueError msg))"

definition fresh_output :: "(string \<Rightarrow> presence) \<Rightarrow> string \<Rightarrow> unit res" where
  "fresh_output probe path = (case probe path of
     Missing \<Rightarrow> Inr () | Unavailable msg \<Rightarrow> Inl (ValueError msg) | _ \<Rightarrow> Inl (ValueError ''output already exists''))"

definition CONTROLLED_ENV :: "(string \<times> string) list" where
  "CONTROLLED_ENV = [(''LANG'', ''C''), (''LC_ALL'', ''C''), (''TZ'', ''UTC'')]"

definition build_program :: "((string \<times> json) list \<Rightarrow> string) \<Rightarrow> (string \<Rightarrow> tool_identity res) \<Rightarrow> (string \<Rightarrow> presence) \<Rightarrow> string list \<Rightarrow> execution_policy \<Rightarrow> string \<Rightarrow>
    string list \<Rightarrow> command_program res" where
  "build_program jsha registry probe cwd policy source_text tokens =
     rbind (check_tokens tokens) (\<lambda>_.
     rbind (compile_tokens registry cwd initial_command tokens) (\<lambda>s.
     rbind (reject (int (length (cs_nodes s)) > ep_nodes policy) (ValueError ''command graph exceeds node limit'')) (\<lambda>_.
     rbind (foldM (external_input probe (cs_outputs s)) [] (sorted_list_of_set (cs_inputs s))) (\<lambda>external.
     rbind (foldM (\<lambda>_. fresh_output probe) () (sorted_list_of_set (cs_outputs s))) (\<lambda>_.
     (let provisional = \<lparr>cp_id = ''pending'', cp_source = source_text, cp_nodes = cs_nodes s, cp_edges = cs_edges s, cp_inputs = external,
            cp_outputs = sorted_list_of_set (cs_outputs s), cp_policy = policy, cp_env = CONTROLLED_ENV, cp_schema = PROGRAM_SCHEMA\<rparr>
      in Inr (provisional\<lparr>cp_id := ''command-'' @ take 16 (program_identity jsha provisional)\<rparr>)))))))"

definition compile_command :: "((string \<times> json) list \<Rightarrow> string) \<Rightarrow> (string \<Rightarrow> tool_identity res) \<Rightarrow> (string \<Rightarrow> presence) \<Rightarrow> string list \<Rightarrow> execution_policy \<Rightarrow> string \<Rightarrow>
    string list \<Rightarrow> command_program res" where
  "compile_command jsha registry probe cwd policy source_text tokens =
     rbind (build_program jsha registry probe cwd policy source_text tokens) (\<lambda>p. rbind (validate_program jsha p) (\<lambda>_. Inr p))"

end
