(* ===== verification/Command_Paths.thy ===== *)
theory Command_Paths
  imports Command_Compile
begin

text \<open>
  Virtual paths are fixed points of the normalisation, whatever the current directory, and the
  path classification of a tool is stable: classifying the rewritten arguments again returns
  the same arguments, indices, reads and writes.
\<close>

section \<open>Normal forms\<close>

definition good_part :: "string \<Rightarrow> bool" where
  "good_part c \<longleftrightarrow> c \<noteq> [] \<and> c \<noteq> ''.'' \<and> c \<noteq> ''..'' \<and> CHR ''/'' \<notin> set c \<and> CHR 0x00 \<notin> set c"

definition virtual_ok :: "string \<Rightarrow> bool" where
  "virtual_ok v \<longleftrightarrow> (\<exists>parts. list_all good_part parts \<and> v = virtual_path parts)"

lemma split_slash_nonempty [simp]: "split_slash s \<noteq> []"
  by (induction s) (auto split: list.splits)

lemma split_slash_parts: "c \<in> set (split_slash s) \<Longrightarrow> CHR ''/'' \<notin> set c \<and> set c \<subseteq> set s"
proof (induction s arbitrary: c)
  case (Cons a s)
  obtain w ws where w: "split_slash s = w # ws" by (cases "split_slash s") auto
  have w_in: "CHR ''/'' \<notin> set w \<and> set w \<subseteq> set s" using Cons.IH w by simp
  show ?case
  proof (cases "a = CHR ''/''")
    case True
    then show ?thesis using Cons.IH Cons.prems by force
  next
    case False
    then have "c = a # w \<or> c \<in> set ws" using Cons.prems w by simp
    then show ?thesis
    proof
      assume "c = a # w"
      then show ?thesis using w_in False by auto
    next
      assume "c \<in> set ws"
      then show ?thesis using Cons.IH [of c] w by force
    qed
  qed
qed simp

lemma split_slash_word: "CHR ''/'' \<notin> set c \<Longrightarrow> split_slash c = [c]"
  by (induction c) auto

lemma split_slash_join: "CHR ''/'' \<notin> set c \<Longrightarrow> split_slash (c @ CHR ''/'' # s) = c # split_slash s"
  by (induction c) auto

lemma split_virtual:
  assumes "list_all (\<lambda>c. CHR ''/'' \<notin> set c) parts" and "CHR ''/'' \<notin> set c"
  shows "split_slash (c @ concat (map ((#) (CHR ''/'')) parts)) = c # parts"
  using assms
proof (induction parts arbitrary: c)
  case (Cons p ps)
  then show ?case using split_slash_join [of c] by simp
qed (simp add: split_slash_word)

lemma raw_parts_virtual:
  assumes "list_all good_part parts"
  shows "raw_parts (virtual_path parts) = parts"
proof (cases "parts = []")
  case True
  then show ?thesis by (simp add: raw_parts_def virtual_path_def)
next
  case False
  have "list_all (\<lambda>c. CHR ''/'' \<notin> set c) parts" using assms by (auto simp: list_all_iff good_part_def)
  from split_virtual [OF this, of "[]"] have "split_slash (virtual_path parts) = [] # parts"
    using False by (simp add: virtual_path_def)
  moreover have "filter (\<lambda>c. c \<noteq> [] \<and> c \<noteq> ''.'') parts = parts"
    using assms by (auto simp: list_all_iff good_part_def intro!: filter_True)
  ultimately show ?thesis by (simp add: raw_parts_def)
qed

lemma virtual_hd [simp]: "virtual_path parts \<noteq> []" "hd (virtual_path parts) = CHR ''/''"
  by (cases parts; simp add: virtual_path_def)+

lemma virtual_nul: "list_all good_part parts \<Longrightarrow> CHR 0x00 \<notin> set (virtual_path parts)"
  by (auto simp: virtual_path_def list_all_iff good_part_def)

lemma normalize_parts:
  assumes "normalize cwd path = Inr v" and "list_all good_part cwd"
  shows "virtual_ok v"
proof -
  let ?p = "(if hd path = CHR ''/'' then [] else cwd) @ raw_parts path"
  have c: "''..'' \<notin> set (raw_parts path)" "CHR 0x00 \<notin> set path" and v: "v = virtual_path ?p"
    using assms(1) by (auto simp: normalize_def path_parts_def check_text_path_def res_simps)
  have "list_all good_part (raw_parts path)"
    using c split_slash_parts by (fastforce simp: raw_parts_def list_all_iff good_part_def)
  then have "list_all good_part ?p" using assms(2) by simp
  then show ?thesis unfolding virtual_ok_def using v by blast
qed

lemma normalize_fixed:
  assumes "virtual_ok v" and "utf8_size v \<le> 4096"
  shows "normalize cwd v = Inr v"
proof -
  obtain parts where p: "list_all good_part parts" "v = virtual_path parts" using assms(1) by (auto simp: virtual_ok_def)
  have "''..'' \<notin> set parts" using p(1) by (auto simp: list_all_iff good_part_def)
  then show ?thesis using p assms(2) virtual_nul [OF p(1)]
    by (simp add: normalize_def path_parts_def check_text_path_def raw_parts_virtual reject_def)
qed

lemma virtual_not_dashed: "virtual_ok v \<Longrightarrow> \<not> dashed v"
  by (auto simp: virtual_ok_def dashed_def)

lemma virtual_hd_ok: "virtual_ok v \<Longrightarrow> v \<noteq> [] \<and> hd v = CHR ''/''"
  by (auto simp: virtual_ok_def)

section \<open>Walking over path arguments\<close>

lemma rbind_return: "rbind m Inr = m"
  by (cases m) simp_all

definition walk :: "string list \<Rightarrow> string list \<Rightarrow> (nat \<times> bool) list \<Rightarrow> path_state res" where
  "walk cwd args plan = foldM (\<lambda>s (k, w). use_path cwd w s k) (initial_paths args) plan"

definition walked :: "string list \<Rightarrow> (nat \<Rightarrow> string) \<Rightarrow> (nat \<times> bool) list \<Rightarrow> path_state" where
  "walked args v plan =
     \<lparr>ps_args = map (\<lambda>k. if k \<in> fst ` set plan then v k else args ! k) [0..<length args], ps_paths = map (int \<circ> fst) plan,
      ps_reads = {v k | k. (k, False) \<in> set plan}, ps_writes = {v k | k. (k, True) \<in> set plan}\<rparr>"

lemma walk_intro:
  assumes "\<And>k w. (k, w) \<in> set plan \<Longrightarrow> normalize cwd (args ! k) = Inr (v k)"
    and "distinct (map fst plan)" and "\<And>k w. (k, w) \<in> set plan \<Longrightarrow> k < length args"
  shows "walk cwd args plan = Inr (walked args v plan)"
  using assms
proof (induction plan rule: rev_induct)
  case Nil
  show ?case by (simp add: walk_def initial_paths_def walked_def map_nth)
next
  case (snoc kw plan)
  obtain k w where kw: "kw = (k, w)" by fastforce
  have new: "k \<notin> fst ` set plan" and k: "k < length args" and nk: "normalize cwd (args ! k) = Inr (v k)"
    using snoc.prems kw by auto
  have ih: "walk cwd args plan = Inr (walked args v plan)" using snoc by auto
  have arg: "ps_args (walked args v plan) ! k = args ! k" using new k by (simp add: walked_def)
  have upd: "(ps_args (walked args v plan))[k := v k] = ps_args (walked args v (plan @ [kw]))"
    by (rule nth_equalityI) (auto simp: walked_def nth_list_update kw k)
  have "walk cwd args (plan @ [kw]) = use_path cwd w (walked args v plan) k"
    using ih by (simp add: walk_def foldM_append kw rbind_return)
  also have "\<dots> = Inr \<lparr>ps_args = (ps_args (walked args v plan))[k := v k], ps_paths = ps_paths (walked args v plan) @ [int k],
      ps_reads = (if w then ps_reads (walked args v plan) else insert (v k) (ps_reads (walked args v plan))),
      ps_writes = (if w then insert (v k) (ps_writes (walked args v plan)) else ps_writes (walked args v plan))\<rparr>"
    by (simp add: use_path_def arg nk)
  also have "\<dots> = Inr (walked args v (plan @ [kw]))"
    unfolding upd by (cases w) (auto simp: walked_def kw)
  finally show ?case .
qed

lemma walk_elim:
  assumes "walk cwd args plan = Inr ps" and "distinct (map fst plan)" and "\<And>k w. (k, w) \<in> set plan \<Longrightarrow> k < length args"
  shows "\<exists>v. (\<forall>k w. (k, w) \<in> set plan \<longrightarrow> normalize cwd (args ! k) = Inr (v k)) \<and> ps = walked args v plan"
    using assms
  proof (induction plan arbitrary: ps rule: rev_induct)
    case Nil
    then show ?case by (simp add: walk_def initial_paths_def walked_def map_nth)
  next
    case (snoc kw plan)
    obtain k w where kw: "kw = (k, w)" by fastforce
    have new: "k \<notin> fst ` set plan" and k: "k < length args" using snoc.prems kw by auto
    obtain s where s: "walk cwd args plan = Inr s" and u: "use_path cwd w s k = Inr ps"
      using snoc.prems(1) by (auto simp: walk_def foldM_append kw res_simps)
    obtain v where v: "\<forall>k w. (k, w) \<in> set plan \<longrightarrow> normalize cwd (args ! k) = Inr (v k)" and sv: "s = walked args v plan"
      using snoc.IH [OF s] snoc.prems by auto
    have "ps_args s ! k = args ! k" using new k by (simp add: sv walked_def)
    then obtain x where x: "normalize cwd (args ! k) = Inr x" using u by (auto simp: use_path_def res_simps)
    let ?v = "v(k := x)"
    have all: "\<forall>j w. (j, w) \<in> set (plan @ [kw]) \<longrightarrow> normalize cwd (args ! j) = Inr (?v j)" using v x new kw by force
    then have "walk cwd args (plan @ [kw]) = Inr (walked args ?v (plan @ [kw]))"
      using snoc.prems by (intro walk_intro) auto
    then have "ps = walked args ?v (plan @ [kw])" using snoc.prems(1) by simp
    with all show ?case by blast
  qed

section \<open>Which arguments are paths\<close>

text \<open>The classification without the rewriting: the indices that are paths, marked when written.\<close>

definition reading :: "nat list \<Rightarrow> (nat \<times> bool) list" where
  "reading ks = map (\<lambda>k. (k, False)) ks"

definition writing :: "nat list \<Rightarrow> (nat \<times> bool) list" where
  "writing ks = map (\<lambda>k. (k, True)) ks"

definition need :: "bool \<Rightarrow> 'a \<Rightarrow> 'a option" where
  "need c x = (if c then Some x else None)"

definition grep_options :: "string list \<Rightarrow> nat" where
  "grep_options args = length (takeWhile (\<lambda>a. a \<in> {''-E'', ''-F'', ''-i'', ''-v'', ''-c''}) args)"

definition path_plan :: "string \<Rightarrow> string list \<Rightarrow> (nat \<times> bool) list option" where
  "path_plan name args =
     (let options = list_ex dashed args; every = [0..<length args]
      in if name = ''cat'' then need (args \<noteq> [] \<and> \<not> options) (reading every)
         else if name = ''grep'' then
           (let k = grep_options args in need (k < length args \<and> (\<forall>i \<in> set [k..<length args]. \<not> dashed (args ! i))) (reading [k + 1..<length args]))
         else if name \<in> {''wc'', ''sort''} then
           need (\<forall>i \<in> set every. dashed (args ! i) \<longrightarrow> args ! i \<in> (if name = ''wc'' then {''-l'', ''-w'', ''-c''} else {''-r'', ''-n'', ''-u''}))
             (reading (filter (\<lambda>i. \<not> dashed (args ! i)) every))
         else if name = ''uniq'' then
           (case uniq_options args of Inl _ \<Rightarrow> None | Inr k \<Rightarrow> need (length args - k \<le> 1) (reading [k..<length args]))
         else if name = ''tr'' then need (length args = 2 \<and> \<not> options) []
         else if name \<in> {''head'', ''tail''} then (case head_start args of Inl _ \<Rightarrow> None | Inr k \<Rightarrow> Some (reading [k..<length args]))
         else if name = ''cut'' then (case cut_options args of Inl _ \<Rightarrow> None | Inr k \<Rightarrow> need (k \<noteq> 0) (reading [k..<length args]))
         else if name = ''tee'' then need (args \<noteq> [] \<and> \<not> options) (writing every)
         else if name = ''cp'' then need (length args = 2 \<and> \<not> options) [(0, False), (1, True)]
         else if name = ''sha256sum'' then need (args \<noteq> [] \<and> \<not> options) (reading every)
         else if name \<in> {''ls'', ''stat''} then need (length args \<le> 1 \<and> \<not> options) (reading every)
         else if name = ''mkdir'' then need (length args = 1 \<and> \<not> options) [(0, True)]
         else if name = ''pwd'' then need (args = []) []
         else if name = ''echo'' then need (\<not> options) []
         else if name = ''printf'' then need (args \<noteq> [] \<and> \<not> contains_n (hd args)) []
         else None)"

lemma need_Some [simp]: "need c x = Some y \<longleftrightarrow> c \<and> y = x"
  by (auto simp: need_def)

lemma use_paths_walk:
  "use_paths cwd False (initial_paths args) ks = walk cwd args (reading ks)"
  "use_paths cwd True (initial_paths args) ks = walk cwd args (writing ks)"
proof -
  have "foldM (\<lambda>s (k, w). use_path cwd w s k) s (map (\<lambda>k. (k, b)) ks) = foldM (use_path cwd b) s ks" for s b
    by (induction ks arbitrary: s) simp_all
  then show "use_paths cwd False (initial_paths args) ks = walk cwd args (reading ks)"
    "use_paths cwd True (initial_paths args) ks = walk cwd args (writing ks)"
    by (simp_all add: use_paths_def walk_def reading_def writing_def)
qed

lemma guarded_fold:
  assumes "\<And>s k. k \<in> set ks \<Longrightarrow> f s k = (if bad k then Inl (e k) else if skip k then Inr s else use_path cwd False s k)"
  shows "foldM f s ks = Inr t \<longleftrightarrow> (\<forall>k \<in> set ks. \<not> bad k) \<and> foldM (\<lambda>s (k, w). use_path cwd w s k) s (reading (filter (\<lambda>k. \<not> skip k) ks)) = Inr t"
  using assms
proof (induction ks arbitrary: s)
  case (Cons k ks)
  then show ?case by (cases "bad k"; cases "skip k") (auto simp: reading_def res_simps)
qed (simp add: reading_def)

lemma grep_walk:
  "grep_paths cwd args = Inr ps \<longleftrightarrow>
     grep_options args < length args \<and> (\<forall>i \<in> set [grep_options args..<length args]. \<not> dashed (args ! i)) \<and>
     walk cwd args (reading [grep_options args + 1..<length args]) = Inr ps"
proof -
  let ?k = "grep_options args"
  let ?f = "\<lambda>s i. rbind (reject (dashed (args ! i)) (ValueError ''unsupported grep option'')) (\<lambda>_. use_path cwd False s i)"
  have fold: "foldM ?f (initial_paths args) [?k + 1..<length args] = Inr ps \<longleftrightarrow>
      (\<forall>i \<in> set [?k + 1..<length args]. \<not> dashed (args ! i)) \<and> walk cwd args (reading [?k + 1..<length args]) = Inr ps"
    using guarded_fold [of "[?k + 1..<length args]" ?f "\<lambda>i. dashed (args ! i)" "\<lambda>_. ValueError ''unsupported grep option''" "\<lambda>_. False" cwd
        "initial_paths args" ps]
    by (simp add: walk_def)
  have up: "?k < length args \<Longrightarrow> set [?k..<length args] = insert ?k (set [?k + 1..<length args])"
    by (metis Suc_eq_plus1 list.simps(15) upt_conv_Cons)
  show ?thesis
  proof (cases "?k < length args")
    case True
    then show ?thesis
      unfolding grep_paths_def grep_options_def [symmetric] Let_def up [OF True] using fold by (simp add: reject_def)
  next
    case False
    then show ?thesis unfolding grep_paths_def grep_options_def [symmetric] Let_def by (simp add: reject_def)
  qed
qed

lemma count_walk:
  "count_paths cwd name args = Inr ps \<longleftrightarrow>
     (\<forall>i \<in> set [0..<length args]. dashed (args ! i) \<longrightarrow> args ! i \<in> (if name = ''wc'' then {''-l'', ''-w'', ''-c''} else {''-r'', ''-n'', ''-u''})) \<and>
     walk cwd args (reading (filter (\<lambda>i. \<not> dashed (args ! i)) [0..<length args])) = Inr ps"
proof -
  let ?allowed = "if name = ''wc'' then {''-l'', ''-w'', ''-c''} else {''-r'', ''-n'', ''-u''}"
  show ?thesis unfolding count_paths_def walk_def
    by (subst guarded_fold [where bad = "\<lambda>i. dashed (args ! i) \<and> args ! i \<notin> ?allowed" and e = "\<lambda>_. ValueError ''unsupported option''"
          and skip = "\<lambda>i. dashed (args ! i)" and cwd = cwd]) (auto simp: reject_def)
qed

lemma tool_paths_plan:
  "tool_paths cwd name args = Inr ps \<longleftrightarrow> (\<exists>plan. path_plan name args = Some plan \<and> walk cwd args plan = Inr ps)"
proof -
  have two: "walk cwd args [(0, False), (Suc 0, True)] = rbind (use_path cwd False (initial_paths args) 0) (\<lambda>s. use_path cwd True s (Suc 0))"
    and one: "walk cwd args [(0, True)] = use_path cwd True (initial_paths args) 0" and none: "walk cwd args [] = Inr (initial_paths args)"
    by (simp_all add: walk_def rbind_return)
  note walks = use_paths_walk grep_walk count_walk two one none res_simps
  define A B C D E where kinds: "A = {''cat'', ''tee'', ''sha256sum'', ''ls'', ''stat''}" "B = {''uniq'', ''cut''}" "C = {''head'', ''tail''}" "D = {''wc'', ''sort''}"
    "E = {''tr'', ''cp'', ''mkdir'', ''pwd'', ''echo'', ''printf''}"
  consider (operands) "name \<in> A" | (prefixed) "name \<in> B" | (head) "name \<in> C" | (grep) "name = ''grep''" | (count) "name \<in> D" | (fixed) "name \<in> E"
    | (other) "name \<noteq> ''grep''" "name \<notin> A" "name \<notin> B" "name \<notin> C" "name \<notin> D" "name \<notin> E" by argo
  then show ?thesis
  proof cases
    case operands
    then show ?thesis unfolding kinds by (elim insertE emptyE; simp add: tool_paths_def path_plan_def walks; auto)
  next
    case prefixed
    then show ?thesis unfolding kinds by (elim insertE emptyE; simp add: tool_paths_def path_plan_def walks split: sum.splits; auto)
  next
    case head
    then show ?thesis unfolding kinds by (elim insertE emptyE; simp add: tool_paths_def path_plan_def walks split: sum.splits)
  next
    case grep
    then show ?thesis by (simp add: tool_paths_def path_plan_def walks Let_def)
  next
    case count
    then show ?thesis unfolding kinds by (elim insertE emptyE; simp add: tool_paths_def path_plan_def walks; auto)
  next
    case fixed
    then show ?thesis unfolding kinds by (elim insertE emptyE; simp add: tool_paths_def path_plan_def walks; auto)
  next
    case other
    then show ?thesis by (simp add: tool_paths_def path_plan_def kinds)
  qed
qed

section \<open>Stability of the classification\<close>

text \<open>\<open>args'\<close> differs from \<open>args\<close> only at the given indices, where it holds a virtual path.\<close>

definition rewritten :: "nat set \<Rightarrow> string list \<Rightarrow> string list \<Rightarrow> bool" where
  "rewritten ks args args' \<longleftrightarrow> length args' = length args \<and>
     (\<forall>i < length args. if i \<in> ks then virtual_ok (args' ! i) else args' ! i = args ! i)"

lemma rewritten_dashed:
  assumes "rewritten ks args args'" and "\<And>i. i \<in> ks \<Longrightarrow> i < length args \<Longrightarrow> \<not> dashed (args ! i)" and "i < length args"
  shows "dashed (args' ! i) = dashed (args ! i)"
  using assms virtual_not_dashed unfolding rewritten_def by metis

lemma rewritten_options:
  assumes "rewritten ks args args'" and "\<not> list_ex dashed args"
  shows "\<not> list_ex dashed args'"
proof -
  have "dashed (args' ! i) = dashed (args ! i)" if "i < length args" for i
    using assms that by (intro rewritten_dashed) (auto simp: list_ex_iff)
  then show ?thesis using assms by (auto simp: rewritten_def list_ex_length)
qed

lemma rewritten_Cons:
  assumes "rewritten {Suc k..<n} (a # args) args'"
  obtains args'' where "args' = a # args''" "rewritten {k..<n - 1} args args''"
proof -
  obtain b args'' where e: "args' = b # args''" using assms by (cases args') (auto simp: rewritten_def)
  have all: "if i \<in> {Suc k..<n} then virtual_ok (args' ! i) else args' ! i = (a # args) ! i" if "i < Suc (length args)" for i
    using assms that by (simp add: rewritten_def)
  have "b = a" using all [of 0] e by simp
  moreover have "if i \<in> {k..<n - 1} then virtual_ok (args'' ! i) else args'' ! i = args ! i" if "i < length args" for i
    using all [of "Suc i"] e that by (auto split: if_splits)
  then have "rewritten {k..<n - 1} args args''" using assms e by (auto simp: rewritten_def)
  ultimately show thesis using that e by blast
qed

lemma rewritten_first:
  assumes "rewritten {0..<length args} args args'"
  shows "args = [] \<and> args' = [] \<or> args' \<noteq> [] \<and> virtual_ok (hd args')"
proof (cases args)
  case (Cons a as)
  then show ?thesis using assms by (cases args') (auto simp: rewritten_def)
qed (use assms in \<open>simp add: rewritten_def\<close>)

lemma uniq_options_stable:
  assumes "uniq_options args = Inr k" and "rewritten {k..<length args} args args'"
  shows "uniq_options args' = Inr k"
  using assms
proof (induction args arbitrary: k args')
  case (Cons a args)
  show ?case
  proof (cases "dashed a")
    case True
    obtain j where j: "k = Suc j" "uniq_options args = Inr j" and a: "a \<in> {''-c'', ''-d'', ''-u''}"
      using Cons.prems(1) True by (auto simp: res_simps split: if_splits)
    have w: "rewritten {Suc j..<length (a # args)} (a # args) args'" using Cons.prems(2) j by simp
    obtain as where as: "args' = a # as" "rewritten {j..<length args} args as" by (rule rewritten_Cons [OF w]) simp
    show ?thesis using Cons.IH [OF j(2) as(2)] as(1) j(1) True a by simp
  next
    case False
    then have "k = 0" using Cons.prems(1) by simp
    then have "args' \<noteq> [] \<and> virtual_ok (hd args')" using rewritten_first [of "a # args" args'] Cons.prems(2) by simp
    then show ?thesis using \<open>k = 0\<close> virtual_not_dashed by (cases args') auto
  qed
qed (simp add: rewritten_def)

lemma virtual_no_option: "virtual_ok v \<Longrightarrow> hd o' = CHR ''-'' \<Longrightarrow> v \<noteq> o'"
  using virtual_hd_ok by fastforce

lemma cut_options_stable:
  assumes "cut_options args = Inr k" and "rewritten {k..<length args} args args'"
  shows "cut_options args' = Inr k"
  using assms
proof (induction args arbitrary: k args' rule: cut_options.induct)
  case (1 a rest)
  show ?case
  proof (cases "a \<in> {''-d'', ''-f''}")
    case True
    obtain b later j where r: "rest = b # later" and j: "k = Suc (Suc j)" "cut_options later = Inr j"
      using 1(2) True by (auto simp: res_simps split: list.splits)
    have w: "rewritten {Suc (Suc j)..<length (a # rest)} (a # rest) args'" using 1(3) j by simp
    obtain as where as: "args' = a # as" "rewritten {Suc j..<length rest} rest as" by (rule rewritten_Cons [OF w]) simp
    have w2: "rewritten {Suc j..<length (b # later)} (b # later) as" using as r by simp
    obtain bs where bs: "as = b # bs" "rewritten {j..<length later} later bs" by (rule rewritten_Cons [OF w2]) simp
    show ?thesis using 1(1) [OF True r j(2) bs(2)] as(1) bs(1) j(1) True by simp
  next
    case False
    then have "k = 0" using 1(2) by simp
    then have v: "args' \<noteq> [] \<and> virtual_ok (hd args')" using rewritten_first [of "a # rest" args'] 1(3) by simp
    then have "hd args' \<notin> {''-d'', ''-f''}" using virtual_no_option [of "hd args'" "''-d''"] virtual_no_option [of "hd args'" "''-f''"] by simp
    then show ?thesis using \<open>k = 0\<close> v by (cases args') auto
  qed
qed (simp add: rewritten_def)

lemma head_start_stable:
  assumes "head_start args = Inr k" and "rewritten {k..<length args} args args'"
  shows "head_start args' = Inr k"
proof (cases "take 1 args = [''-n'']")
  case True
  have len: "2 \<le> length args" "is_digits (args ! 1)" and k: "k = 2" using assms(1) True by (auto simp: head_start_def res_simps)
  have all: "\<forall>i < length args. if i \<in> {2..<length args} then virtual_ok (args' ! i) else args' ! i = args ! i" "length args' = length args"
    using assms(2) k by (simp_all add: rewritten_def)
  have "args' ! 0 = args ! 0" "args' ! 1 = args ! 1"
    using all(1) [rule_format, of 0] all(1) [rule_format, of 1] len by force+
  moreover have "args ! 0 = ''-n''" using True by (cases args) auto
  moreover have "take 1 args' = [args' ! 0]" using len all(2) by (cases args') auto
  ultimately show ?thesis using len k all(2) by (simp add: head_start_def)
next
  case False
  then have "k = 0" using assms(1) by (auto simp: head_start_def split: if_splits)
  then have "args = [] \<and> args' = [] \<or> args' \<noteq> [] \<and> virtual_ok (hd args')" using rewritten_first assms(2) by simp
  moreover have "take 1 args' = [''-n''] \<Longrightarrow> args' \<noteq> [] \<and> hd args' = ''-n''" by (cases args') auto
  ultimately show ?thesis using \<open>k = 0\<close> virtual_not_dashed virtual_no_option [of "hd args'" "''-n''"]
    by (auto simp: head_start_def)
qed

lemma grep_stable:
  assumes k: "grep_options args < length args" and clean: "\<And>i. grep_options args \<le> i \<Longrightarrow> i < length args \<Longrightarrow> \<not> dashed (args ! i)"
    and r: "rewritten {Suc (grep_options args)..<length args} args args'"
  shows "grep_options args' = grep_options args" "\<And>i. grep_options args \<le> i \<Longrightarrow> i < length args \<Longrightarrow> \<not> dashed (args' ! i)"
proof -
  let ?k = "grep_options args" let ?P = "\<lambda>a. a \<in> {''-E'', ''-F'', ''-i'', ''-v'', ''-c''}"
  have len: "length args' = length args" using r by (simp add: rewritten_def)
  have same: "args' ! i = args ! i" if "i \<le> ?k" for i
    using r that k by (auto simp: rewritten_def)
  have "take (Suc ?k) args' = take (Suc ?k) args" using same len k by (intro nth_equalityI) auto
  then have prefix: "takeWhile ?P (take (Suc ?k) args') = takeWhile ?P (take (Suc ?k) args)" by simp
  have stop: "\<not> ?P (args ! ?k)" using nth_length_takeWhile [of ?P args] k by (simp add: grep_options_def)
  have cut: "takeWhile ?P xs = takeWhile ?P (take (Suc ?k) xs)" if "?k < length xs" "\<not> ?P (xs ! ?k)" for xs
  proof -
    have "xs ! ?k \<in> set (take (Suc ?k) xs)" using that(1) by (simp add: take_Suc_conv_app_nth)
    from takeWhile_append1 [of _ _ ?P "drop (Suc ?k) xs", OF this that(2)] show ?thesis by (simp only: append_take_drop_id)
  qed
  have "\<not> ?P (args' ! ?k)" by (subst same [OF order_refl]) (rule stop)
  then have "takeWhile ?P args' = takeWhile ?P args" using cut [OF k stop] cut [of args'] k len prefix by metis
  then show "grep_options args' = ?k" by (simp only: grep_options_def)
  show "\<not> dashed (args' ! i)" if "?k \<le> i" "i < length args" for i
  proof (cases "i = ?k")
    case True
    then show ?thesis using same clean that by simp
  next
    case False
    then show ?thesis using r that virtual_not_dashed by (auto simp: rewritten_def)
  qed
qed

lemma fst_reading [simp]: "fst ` set (reading ks) = set ks" "fst ` set (writing ks) = set ks" "map fst (reading ks) = ks" "map fst (writing ks) = ks"
  by (auto simp: reading_def writing_def comp_def image_image)

lemma plan_bounds:
  assumes "path_plan name args = Some plan"
  shows "distinct (map fst plan) \<and> fst ` set plan \<subseteq> {..<length args}"
proof -
  define good where "good p \<longleftrightarrow> (\<forall>plan. p = Some plan \<longrightarrow> distinct (map fst plan) \<and> fst ` set plan \<subseteq> {..<length args})" for p :: "(nat \<times> bool) list option"
  have branch: "good p \<Longrightarrow> good q \<Longrightarrow> good (if c then p else q)" for c p q by simp
  have "good (path_plan name args)" unfolding path_plan_def Let_def
    by (intro branch; auto simp: good_def split: sum.splits)
  then show ?thesis using assms by (simp add: good_def)
qed

lemma plan_stable:
  assumes "path_plan name args = Some plan" and r: "rewritten (fst ` set plan) args args'"
  shows "path_plan name args' = Some plan"
proof -
  have len: "length args' = length args" using r by (simp add: rewritten_def)
  have empty: "(args' \<noteq> []) = (args \<noteq> [])" using len by force
  define A B C D where kinds: "A = {''cat'', ''tee'', ''sha256sum'', ''ls'', ''stat'', ''cp'', ''mkdir''}" "B = {''head'', ''tail''}" "C = {''wc'', ''sort''}"
    "D = {''pwd'', ''echo'', ''printf'', ''tr''}"
  consider (operands) "name \<in> A" | (head) "name \<in> B" | (count) "name \<in> C" | (silent) "name \<in> D" | (uniq) "name = ''uniq''" | (cut) "name = ''cut''"
    | (grep) "name = ''grep''" | (other) "name \<noteq> ''grep''" "name \<noteq> ''uniq''" "name \<noteq> ''cut''" "name \<notin> A" "name \<notin> B" "name \<notin> C" "name \<notin> D" by argo
  then show ?thesis
  proof cases
    case operands
    then have "\<not> list_ex dashed args" using assms(1) unfolding kinds by (elim insertE emptyE; simp add: path_plan_def)
    then have "\<not> list_ex dashed args'" using rewritten_options r by blast
    then show ?thesis using operands assms(1) len empty unfolding kinds by (elim insertE emptyE; simp add: path_plan_def)
  next
    case head
    then have eq: "path_plan name xs = (case head_start xs of Inl _ \<Rightarrow> None | Inr k \<Rightarrow> Some (reading [k..<length xs]))" for xs
      unfolding kinds path_plan_def Let_def by (elim insertE emptyE) simp_all
    obtain k where k: "head_start args = Inr k" "plan = reading [k..<length args]"
      using assms(1) unfolding eq by (cases "head_start args") simp_all
    then have "head_start args' = Inr k" using r head_start_stable [OF k(1)] by simp
    then show ?thesis using k len unfolding eq by simp
  next
    case count
    have d: "\<And>i. i < length args \<Longrightarrow> dashed (args' ! i) = dashed (args ! i)"
      using r assms(1) count unfolding kinds by (intro rewritten_dashed) (auto simp: path_plan_def reading_def split: if_splits)
    moreover have "\<And>i. i < length args \<Longrightarrow> dashed (args ! i) \<Longrightarrow> args' ! i = args ! i"
      using r assms(1) count unfolding kinds by (auto simp: path_plan_def rewritten_def split: if_splits)
    moreover have "filter (\<lambda>i. \<not> dashed (args' ! i)) [0..<length args] = filter (\<lambda>i. \<not> dashed (args ! i)) [0..<length args]"
      using d by (intro filter_cong) simp_all
    ultimately show ?thesis using count assms(1) len unfolding kinds
      by (elim insertE emptyE; simp add: path_plan_def)
  next
    case silent
    then have "plan = []" using assms(1) unfolding kinds by (elim insertE emptyE; simp add: path_plan_def)
    then have "args' = args" using r by (auto simp: rewritten_def intro: nth_equalityI)
    then show ?thesis using assms(1) by simp
  next
    case uniq
    then obtain k where k: "uniq_options args = Inr k" "plan = reading [k..<length args]" "length args - k \<le> 1"
      using assms(1) by (cases "uniq_options args"; cases "cut_options args") (simp_all add: path_plan_def)
    then have "uniq_options args' = Inr k" using r uniq_options_stable [OF k(1)] by simp
    then show ?thesis using uniq k len by (simp add: path_plan_def)
  next
    case cut
    then obtain k where k: "cut_options args = Inr k" "plan = reading [k..<length args]" "k \<noteq> 0"
      using assms(1) by (cases "uniq_options args"; cases "cut_options args") (simp_all add: path_plan_def)
    then have "cut_options args' = Inr k" using r cut_options_stable [OF k(1)] by simp
    then show ?thesis using cut k len by (simp add: path_plan_def)
  next
    case grep
    then have g: "grep_options args < length args" "\<And>i. grep_options args \<le> i \<Longrightarrow> i < length args \<Longrightarrow> \<not> dashed (args ! i)"
      "plan = reading [Suc (grep_options args)..<length args]"
      using assms(1) by (simp_all add: path_plan_def Let_def)
    then have "rewritten {Suc (grep_options args)..<length args} args args'" using r by simp
    from grep_stable [OF g(1,2) this] show ?thesis using g grep len by (simp add: path_plan_def Let_def)
  next
    case other
    then show ?thesis using assms(1) by (simp add: path_plan_def kinds)
  qed
qed

lemma tool_paths_stable:
  assumes t: "tool_paths cwd name args = Inr ps" and cwd: "list_all good_part cwd"
    and size: "\<forall>v \<in> ps_reads ps \<union> ps_writes ps. utf8_size v \<le> 4096"
  shows "tool_paths cwd' name (ps_args ps) = Inr ps"
proof -
  obtain plan where plan: "path_plan name args = Some plan" "walk cwd args plan = Inr ps" using t by (auto simp: tool_paths_plan)
  have dist: "distinct (map fst plan)" and inside: "\<And>k w. (k, w) \<in> set plan \<Longrightarrow> k < length args" using plan_bounds [OF plan(1)] by force+
  obtain v where v: "\<And>k w. (k, w) \<in> set plan \<Longrightarrow> normalize cwd (args ! k) = Inr (v k)" and ps: "ps = walked args v plan"
    using walk_elim [OF plan(2) dist] inside by blast
  have ok: "\<And>k w. (k, w) \<in> set plan \<Longrightarrow> virtual_ok (v k)" using v normalize_parts cwd by blast
  have small: "\<And>k w. (k, w) \<in> set plan \<Longrightarrow> utf8_size (v k) \<le> 4096" 
  proof -
    fix k w assume "(k, w) \<in> set plan"
    then have "v k \<in> ps_reads ps \<union> ps_writes ps" by (cases w) (auto simp: ps walked_def)
    then show "utf8_size (v k) \<le> 4096" using size by blast
  qed
  have len: "length (ps_args ps) = length args" by (simp add: ps walked_def)
  have arg: "\<And>k w. (k, w) \<in> set plan \<Longrightarrow> ps_args ps ! k = v k" using inside by (force simp: ps walked_def)
  have "rewritten (fst ` set plan) args (ps_args ps)" using ok by (auto simp: rewritten_def ps walked_def)
  then have plan': "path_plan name (ps_args ps) = Some plan" by (rule plan_stable [OF plan(1)])
  have "walk cwd' (ps_args ps) plan = Inr (walked (ps_args ps) v plan)"
    using dist inside ok small arg len by (intro walk_intro) (auto simp: normalize_fixed)
  also have "walked (ps_args ps) v plan = ps" by (simp add: ps walked_def)
  finally show ?thesis using plan' by (auto simp: tool_paths_plan)
qed

end
