(* ===== verification/Command_Check.thy ===== *)
theory Command_Check
  imports Command_Paths
begin

text \<open>
  \<open>raveil/command_graph.py\<close>, third part: the registry of installed tools and the admission of a
  program before it is executed (\<open>CommandComparison._validate_executable\<close>), with the proof that
  a compiled program passes both its own validation and this admission, whatever the current
  directory is by then.

  What the host answers is a record: which candidate files are executable regular files, the
  SHA-256 of their contents and the version line each reports.
\<close>

section \<open>The tool registry\<close>

record tool_host =
  th_installed :: "string \<Rightarrow> string \<Rightarrow> bool"
  th_digest :: "string \<Rightarrow> string \<Rightarrow> string"
  th_report :: "string \<Rightarrow> string \<Rightarrow> string \<Rightarrow> string option"

definition TOOL_DIRS :: "string list" where
  "TOOL_DIRS = [''/usr/bin'', ''/bin'', ''/usr/local/bin'', ''/opt/homebrew/bin'']"

definition ALLOWLIST :: "string set" where
  "ALLOWLIST = {''echo'', ''printf'', ''pwd'', ''ls'', ''cat'', ''stat'', ''mkdir'', ''grep'', ''wc'', ''sort'', ''uniq'', ''cut'', ''tr'', ''head'', ''tail'',
     ''tee'', ''cp'', ''sha256sum''}"

definition candidate :: "tool_host \<Rightarrow> string \<Rightarrow> (string \<times> string) res" where
  "candidate h name =
     (let names = (if name \<noteq> ''sha256sum'' then [name] else [''sha256sum'', ''shasum''])
      in want (find (\<lambda>(d, c). th_installed h d c) (List.product TOOL_DIRS names)) ''allowlisted tool is unavailable'')"

definition expected_adapter :: "string \<Rightarrow> string \<Rightarrow> string" where
  "expected_adapter name actual = (if name = ''sha256sum'' \<and> actual = ''shasum'' then ''shasum-a-256'' else ''direct-argv'')"

definition tool_locator :: "string \<Rightarrow> string \<Rightarrow> string" where
  "tool_locator actual digest = ''system://'' @ actual @ ''/'' @ take 16 digest"

definition reported_version :: "tool_host \<Rightarrow> string \<Rightarrow> string \<Rightarrow> string \<Rightarrow> string" where
  "reported_version h d c digest = (case th_report h d c ''--version'' of
     Some v \<Rightarrow> v
   | None \<Rightarrow> (case th_report h d c ''-V'' of Some v \<Rightarrow> v | None \<Rightarrow> ''unreported-'' @ take 12 digest))"

definition resolve_tool :: "tool_host \<Rightarrow> string \<Rightarrow> tool_identity res" where
  "resolve_tool h name =
     rbind (reject (name \<notin> ALLOWLIST) (ValueError ''tool is not allowlisted'')) (\<lambda>_.
     rbind (candidate h name) (\<lambda>(d, actual).
     (let digest = th_digest h d actual
      in Inr \<lparr>ti_name = name, ti_locator = tool_locator actual digest, ti_version = reported_version h d actual digest, ti_sha = digest,
              ti_adapter = expected_adapter name actual, ti_schema = TOOL_SCHEMA\<rparr>)))"

definition executable :: "tool_host \<Rightarrow> tool_identity \<Rightarrow> (string \<times> string) res" where
  "executable h t =
     rbind (candidate h (ti_name t)) (\<lambda>(d, actual).
     rbind (reject (ti_adapter t \<noteq> expected_adapter (ti_name t) actual \<or> ti_locator t \<noteq> tool_locator actual (ti_sha t)) (ValueError ''tool identity mismatch'')) (\<lambda>_.
     rbind (reject (th_digest h d actual \<noteq> ti_sha t) (ValueError ''stale tool identity'')) (\<lambda>_. Inr (d, actual))))"

section \<open>Admission before execution\<close>

type_synonym admission = "(string \<times> string \<times> string) set \<times> string set \<times> string set"

definition admit_node :: "(tool_identity \<Rightarrow> 'p res) \<Rightarrow> string list \<Rightarrow> admission \<Rightarrow> command_node \<Rightarrow> admission res" where
  "admit_node exe cwd acc n = (case acc of (expected, reads, writes) \<Rightarrow>
     rbind (exe (cn_tool n)) (\<lambda>_.
     rbind (tool_paths cwd (ti_name (cn_tool n)) (cn_argv n)) (\<lambda>ps.
     rbind (reject (ps_args ps \<noteq> cn_argv n \<or> ps_paths ps \<noteq> cn_paths n) (ValueError ''command node path classification does not match'')) (\<lambda>_.
     (let declared = ps_writes ps \<union> set_option (cn_stdout n)
      in rbind (reject (sorted_list_of_set declared \<noteq> cn_writes n) (ValueError ''command node writes do not match'')) (\<lambda>_.
         rbind (case cn_stdin n of None \<Rightarrow> Inr {} | Some f \<Rightarrow> rbind (normalize cwd f) (\<lambda>v. Inr {v})) (\<lambda>stdin_reads.
         Inr (expected \<union> (\<lambda>d. (d, cn_id n, edge_kind (cn_mode n))) ` set (cn_deps n), reads \<union> ps_reads ps \<union> stdin_reads, writes \<union> declared))))))))"

definition edge_triple :: "command_edge \<Rightarrow> string \<times> string \<times> string" where
  "edge_triple e = (ce_source e, ce_target e, ce_kind e)"

definition validate_executable :: "(tool_identity \<Rightarrow> 'p res) \<Rightarrow> string list \<Rightarrow> command_program \<Rightarrow> unit res" where
  "validate_executable exe cwd p =
     rbind (reject (cp_env p \<noteq> CONTROLLED_ENV) (ValueError ''command graph environment is not admitted'')) (\<lambda>_.
     rbind (foldM (admit_node exe cwd) ({}, {}, {}) (cp_nodes p)) (\<lambda>(expected, reads, writes).
     (let actual = set (map edge_triple (cp_edges p))
      in rbind (reject (card actual \<noteq> length (cp_edges p) \<or> actual \<noteq> expected) (ValueError ''command graph edges do not match dependencies'')) (\<lambda>_.
         rbind (reject (set (cp_outputs p) \<noteq> writes) (ValueError ''command graph outputs do not match declared writes'')) (\<lambda>_.
         reject (set (cp_inputs p) \<noteq> reads - writes) (ValueError ''command graph inputs do not match declared reads''))))))"

section \<open>Node names\<close>

lemma str_nat_no_dash: "CHR ''-'' \<notin> set (str_nat n)"
proof (induction n rule: str_nat.induct)
  case (1 n)
  have digit: "digit_char d \<noteq> CHR ''-''" if "d < 10" for d
  proof
    assume "digit_char d = CHR ''-''"
    then have "(of_char (digit_char d) :: nat) = of_char CHR ''-''" by simp
    then show False using that by (simp add: digit_char_def)
  qed
  show ?case
  proof (cases "n < 10")
    case True
    then show ?thesis using digit [of n] by (subst str_nat.simps) simp
  next
    case False
    then show ?thesis using 1 digit [of "n mod 10"] by (subst str_nat.simps) simp
  qed
qed

lemma zfill_no_dash: "CHR ''-'' \<notin> set (zfill w n)"
  using str_nat_no_dash by (simp add: zfill_def)

lemma command_node_name_inject: "command_node_name k a = command_node_name j b \<Longrightarrow> k = j"
proof -
  assume "command_node_name k a = command_node_name j b"
  then have eq: "zfill 3 k @ CHR ''-'' # a = zfill 3 j @ CHR ''-'' # b" by (simp add: command_node_name_def)
  have cut: "takeWhile (\<lambda>c. c \<noteq> CHR ''-'') (s @ CHR ''-'' # t) = s" if "CHR ''-'' \<notin> set s" for s t
    using that by (induction s) auto
  show "k = j" using arg_cong [OF eq, of "takeWhile (\<lambda>c. c \<noteq> CHR ''-'')"] zfill_no_dash [of 3 k] zfill_no_dash [of 3 j]
    by (simp add: cut)
qed

definition numbered :: "command_node list \<Rightarrow> bool" where
  "numbered ns \<longleftrightarrow> (\<forall>k < length ns. \<exists>name. cn_id (ns ! k) = command_node_name (Suc k) name)"

lemma numbered_distinct: "numbered ns \<Longrightarrow> distinct (map cn_id ns)"
  by (auto simp: numbered_def distinct_conv_nth dest!: command_node_name_inject) (metis command_node_name_inject nat.inject)

lemma numbered_fresh:
  assumes "numbered ns" shows "command_node_name (Suc (length ns)) name \<notin> cn_id ` set ns"
proof
  assume "command_node_name (Suc (length ns)) name \<in> cn_id ` set ns"
  then obtain k where "k < length ns" "command_node_name (Suc (length ns)) name = cn_id (ns ! k)" by (auto simp: in_set_conv_nth)
  then show False using assms command_node_name_inject unfolding numbered_def by fastforce
qed

lemma numbered_snoc: "numbered ns \<Longrightarrow> cn_id n = command_node_name (Suc (length ns)) name \<Longrightarrow> numbered (ns @ [n])"
  by (auto simp: numbered_def nth_append less_Suc_eq)

section \<open>What the compiler keeps\<close>

definition short :: "command_state \<Rightarrow> bool" where
  "short s \<longleftrightarrow> (\<forall>v \<in> cs_inputs s \<union> cs_outputs s. utf8_size v \<le> 4096)"

definition wired :: "command_state \<Rightarrow> bool" where
  "wired s \<longleftrightarrow> numbered (cs_nodes s) \<and> (cs_nodes s \<noteq> [] \<longrightarrow> cs_previous s \<noteq> []) \<and> distinct (cs_previous s) \<and>
     set (cs_previous s) \<subseteq> cn_id ` set (cs_nodes s) \<and> (cs_operator s \<noteq> None \<longrightarrow> cs_nodes s \<noteq> []) \<and>
     foldM topological_step {} (cs_nodes s) = Inr (cn_id ` set (cs_nodes s)) \<and>
     distinct (map edge_triple (cs_edges s)) \<and> ce_target ` set (cs_edges s) \<subseteq> cn_id ` set (cs_nodes s) \<and>
     finite (cs_inputs s) \<and> finite (cs_outputs s)"

definition redirected :: "command_state \<Rightarrow> bool" where
  "redirected s \<longleftrightarrow> (\<forall>v \<in> set_option (cs_stdin s) \<union> set_option (cs_stdout s). virtual_ok v)"

definition admitted :: "(tool_identity \<Rightarrow> 'p res) \<Rightarrow> string list \<Rightarrow> command_state \<Rightarrow> bool" where
  "admitted exe cwd s \<longleftrightarrow> redirected s \<and>
     (short s \<longrightarrow> foldM (admit_node exe cwd) ({}, {}, {}) (cs_nodes s) = Inr (set (map edge_triple (cs_edges s)), cs_inputs s, cs_outputs s))"

text \<open>One emitted command, as an equation between the states.\<close>

lemma emit_command_elim:
  assumes "emit_command registry cwd s = Inr s'"
  obtains name args tool ps n where "registry name = Inr tool" "tool_paths cwd name args = Inr ps"
    "n = \<lparr>cn_id = command_node_name (Suc (length (cs_nodes s))) name, cn_tool = tool, cn_argv = ps_args ps, cn_paths = ps_paths ps,
          cn_writes = sorted_list_of_set (ps_writes ps \<union> set_option (cs_stdout s)), cn_stdin = cs_stdin s, cn_stdout = cs_stdout s,
          cn_deps = node_deps (cs_operator s) (cs_previous s), cn_mode = node_mode (cs_operator s), cn_fanout = cs_fanout s', cn_schema = NODE_SCHEMA\<rparr>"
    "cs_nodes s' = cs_nodes s @ [n]"
    "cs_edges s' = cs_edges s @ map (\<lambda>d. \<lparr>ce_source = d, ce_target = cn_id n, ce_kind = edge_kind (cn_mode n), ce_schema = EDGE_SCHEMA\<rparr>) (cn_deps n)"
    "cs_inputs s' = cs_inputs s \<union> ps_reads ps \<union> set_option (cs_stdin s)" "cs_outputs s' = cs_outputs s \<union> ps_writes ps \<union> set_option (cs_stdout s)"
    "cs_stdin s' = None" "cs_stdout s' = None" "cs_operator s' = None"
    "cs_previous s' = (if cs_operator s = Some ''|||'' then cs_previous s @ [cn_id n] else [cn_id n])"
proof -
  obtain name args where c: "cs_command s = name # args" using assms by (cases "cs_command s") (auto simp: emit_command_def)
  obtain tool ps where t: "registry name = Inr tool" "tool_paths cwd name args = Inr ps"
    using assms by (auto simp: emit_command_def c res_simps Let_def)
  show thesis using assms by (rule_tac that [OF t refl]) (auto simp: emit_command_def c t Let_def res_simps)
qed

lemma tool_paths_finite: "tool_paths cwd name args = Inr ps \<Longrightarrow> finite (ps_reads ps) \<and> finite (ps_writes ps)"
proof -
  assume "tool_paths cwd name args = Inr ps"
  then obtain plan where p: "path_plan name args = Some plan" "walk cwd args plan = Inr ps" by (auto simp: tool_paths_plan)
  obtain v where "ps = walked args v plan" using walk_elim [OF p(2)] plan_bounds [OF p(1)] by force
  moreover have "{v k |k. (k, b) \<in> set plan} \<subseteq> v ` fst ` set plan" for b by force
  ultimately show ?thesis by (auto simp: walked_def intro: finite_subset)
qed

lemma deps_previous:
  assumes "wired s"
  shows "set (node_deps (cs_operator s) (cs_previous s)) \<subseteq> cn_id ` set (cs_nodes s)" "distinct (node_deps (cs_operator s) (cs_previous s))"
proof -
  have "cs_operator s = Some ''|'' \<Longrightarrow> last (cs_previous s) \<in> set (cs_previous s)" using assms by (simp add: wired_def)
  then show "set (node_deps (cs_operator s) (cs_previous s)) \<subseteq> cn_id ` set (cs_nodes s)" "distinct (node_deps (cs_operator s) (cs_previous s))"
    using assms by (auto simp: node_deps_def wired_def)
qed

lemma emit_wired:
  assumes w: "wired s" and e: "emit_command registry cwd s = Inr s'"
  shows "wired s' \<and> cs_nodes s' \<noteq> []"
  using e
proof (cases rule: emit_command_elim)
  case (1 name args tool ps n)
  let ?ids = "cn_id ` set (cs_nodes s)"
  have id: "cn_id n = command_node_name (Suc (length (cs_nodes s))) name" and deps: "cn_deps n = node_deps (cs_operator s) (cs_previous s)"
    using 1(3) by simp_all
  have num: "numbered (cs_nodes s)" using w by (simp add: wired_def)
  have fresh: "cn_id n \<notin> ?ids" using numbered_fresh [OF num] id by simp
  have num': "numbered (cs_nodes s')" using numbered_snoc [OF num id] 1(4) by simp
  have sub: "set (cn_deps n) \<subseteq> ?ids" and dd: "distinct (cn_deps n)" using deps_previous [OF w] deps by auto
  have top: "foldM topological_step {} (cs_nodes s') = Inr (cn_id ` set (cs_nodes s'))"
    using w sub by (simp add: 1(4) foldM_append wired_def topological_step_def)
  have prev: "distinct (cs_previous s') \<and> set (cs_previous s') \<subseteq> cn_id ` set (cs_nodes s') \<and> cs_previous s' \<noteq> []"
    using w fresh by (auto simp: 1(4) 1(11) wired_def)
  let ?new = "map (\<lambda>d. \<lparr>ce_source = d, ce_target = cn_id n, ce_kind = edge_kind (cn_mode n), ce_schema = EDGE_SCHEMA\<rparr>) (cn_deps n)"
  have "edge_triple ` set (cs_edges s) \<inter> edge_triple ` set ?new = {}"
  proof -
    have "ce_target x \<noteq> cn_id n" if "x \<in> set (cs_edges s)" for x
    proof -
      have "ce_target x \<in> ?ids" using w that unfolding wired_def by blast
      then show ?thesis using fresh by auto
    qed
    then show ?thesis by (auto simp: edge_triple_def)
  qed
  moreover have "distinct (map edge_triple ?new)" using dd by (simp add: comp_def edge_triple_def distinct_map inj_on_def)
  ultimately have edges: "distinct (map edge_triple (cs_edges s'))" using w by (simp add: 1(5) wired_def image_image comp_def)
  have targets: "ce_target ` set (cs_edges s') \<subseteq> cn_id ` set (cs_nodes s')" using w by (auto simp: 1(4,5) wired_def)
  have fin: "finite (cs_inputs s')" "finite (cs_outputs s')" using w tool_paths_finite [OF 1(2)] by (auto simp: 1(6,7) wired_def)
  show ?thesis unfolding wired_def using num' prev top edges targets fin 1(4,10) by simp
qed

text \<open>What every emitted command establishes and every token keeps holds of a compiled state.\<close>

lemma compile_tokens_invariant:
  assumes "compile_tokens registry cwd s tokens = Inr s'" and "P s"
    and emit: "\<And>s s'. P s \<Longrightarrow> emit_command registry cwd s = Inr s' \<Longrightarrow> Q s'"
    and operator: "\<And>s t. Q s \<Longrightarrow> P (s\<lparr>cs_operator := Some t\<rparr>)"
    and stdin: "\<And>s path v. P s \<Longrightarrow> normalize cwd path = Inr v \<Longrightarrow> P (s\<lparr>cs_stdin := Some v\<rparr>)"
    and stdout: "\<And>s path v. P s \<Longrightarrow> normalize cwd path = Inr v \<Longrightarrow> P (s\<lparr>cs_stdout := Some v\<rparr>)"
    and command: "\<And>s c. P s \<Longrightarrow> P (s\<lparr>cs_command := c\<rparr>)"
  shows "Q s'"
  using assms(1,2)
proof (induction "length tokens" arbitrary: s tokens rule: less_induct)
  case less
  show ?case
  proof (cases tokens)
    case Nil
    then show ?thesis using less.prems emit by simp
  next
    case (Cons t ts)
    note run = less.prems(1) [unfolded Cons]
    show ?thesis
    proof (cases "t \<in> OPERATORS")
      case True
      then obtain u where u: "emit_command registry cwd s = Inr u" "compile_tokens registry cwd (u\<lparr>cs_operator := Some t\<rparr>) ts = Inr s'"
        using run by (auto simp: res_simps)
      show ?thesis using less.hyps [OF _ u(2)] operator [OF emit [OF less.prems(2) u(1)]] Cons by simp
    next
      case no_operator: False
      show ?thesis
      proof (cases "t \<in> {''<'', ''>''}")
        case redirection: True
        obtain path rest where ts: "ts = path # rest" using run no_operator redirection by (cases ts) auto
        obtain v where v: "normalize cwd path = Inr v" using run no_operator redirection by (auto simp: ts res_simps)
        show ?thesis
        proof (cases "t = ''<''")
          case True
          then have "compile_tokens registry cwd (s\<lparr>cs_stdin := Some v\<rparr>) rest = Inr s'" using run no_operator by (simp add: ts v)
          then show ?thesis using less.hyps [of rest "s\<lparr>cs_stdin := Some v\<rparr>"] stdin [OF less.prems(2) v] Cons ts by simp
        next
          case False
          then have "compile_tokens registry cwd (s\<lparr>cs_stdout := Some v\<rparr>) rest = Inr s'" using run no_operator redirection by (simp add: ts v)
          then show ?thesis using less.hyps [of rest "s\<lparr>cs_stdout := Some v\<rparr>"] stdout [OF less.prems(2) v] Cons ts by simp
        qed
      next
        case False
        then have "compile_tokens registry cwd (s\<lparr>cs_command := cs_command s @ [t]\<rparr>) ts = Inr s'" using run no_operator by simp
        then show ?thesis using less.hyps [of ts "s\<lparr>cs_command := cs_command s @ [t]\<rparr>"] command [OF less.prems(2)] Cons by simp
      qed
    qed
  qed
qed

lemma initial_wired: "wired initial_command"
  by (simp add: wired_def initial_command_def numbered_def)

lemma compile_tokens_wired:
  "compile_tokens registry cwd initial_command tokens = Inr s \<Longrightarrow> wired s \<and> cs_nodes s \<noteq> []"
proof (erule compile_tokens_invariant [where P = wired and Q = "\<lambda>s. wired s \<and> cs_nodes s \<noteq> []"])
  show "wired s \<Longrightarrow> emit_command registry cwd s = Inr s' \<Longrightarrow> wired s' \<and> cs_nodes s' \<noteq> []" for s s' by (rule emit_wired)
qed (use initial_wired in \<open>auto simp: wired_def\<close>)

section \<open>Compiled programs are admitted\<close>

text \<open>
  What the compiler and the admission rely on: the identity a registry resolves for a name
  carries that name, and the registry finds the executable of an identity it has resolved.
\<close>

locale tool_registry =
  fixes lookup :: "string \<Rightarrow> tool_identity res" and exe :: "tool_identity \<Rightarrow> 'p res"
  assumes lookup_name: "lookup name = Inr t \<Longrightarrow> ti_name t = name"
    and lookup_exe: "lookup name = Inr t \<Longrightarrow> \<exists>p. exe t = Inr p"
begin

lemma emit_admitted:
  assumes a: "admitted exe cwd' s" and e: "emit_command lookup cwd s = Inr s'" and cwd: "list_all good_part cwd"
  shows "admitted exe cwd' s'"
  using e
proof (cases rule: emit_command_elim)
  case (1 name args tool ps n)
  have "foldM (admit_node exe cwd') ({}, {}, {}) (cs_nodes s') = Inr (set (map edge_triple (cs_edges s')), cs_inputs s', cs_outputs s')" if short: "short s'"
  proof -
    have "short s" using short by (auto simp: short_def 1(6,7))
    then have before: "foldM (admit_node exe cwd') ({}, {}, {}) (cs_nodes s) = Inr (set (map edge_triple (cs_edges s)), cs_inputs s, cs_outputs s)"
      using a by (simp add: admitted_def)
    have again: "tool_paths cwd' name (ps_args ps) = Inr ps"
      using short by (intro tool_paths_stable [OF 1(2) cwd]) (auto simp: short_def 1(6,7))
    obtain p where p: "exe tool = Inr p" using lookup_exe [OF 1(1)] by blast
    have stdin: "normalize cwd' v = Inr v" if "cs_stdin s = Some v" for v
      using a short that by (intro normalize_fixed) (auto simp: admitted_def redirected_def short_def 1(6))
    have "admit_node exe cwd' (set (map edge_triple (cs_edges s)), cs_inputs s, cs_outputs s) n =
        Inr (set (map edge_triple (cs_edges s')), cs_inputs s', cs_outputs s')"
      using again p stdin lookup_name [OF 1(1)]
      by (cases "cs_stdin s") (auto simp: admit_node_def 1(3,5,6,7) edge_triple_def image_image)
    then show ?thesis by (simp add: 1(4) foldM_append before)
  qed
  then show ?thesis by (simp add: admitted_def redirected_def 1(8,9))
qed

lemma compile_tokens_admitted:
  assumes "compile_tokens lookup cwd initial_command tokens = Inr s" and cwd: "list_all good_part cwd"
  shows "admitted exe cwd' s"
  using assms(1)
proof (rule compile_tokens_invariant [where P = "admitted exe cwd'" and Q = "admitted exe cwd'"])
  show "admitted exe cwd' initial_command" by (simp add: admitted_def redirected_def initial_command_def)
  show "admitted exe cwd' s \<Longrightarrow> emit_command lookup cwd s = Inr s' \<Longrightarrow> admitted exe cwd' s'" for s s' using emit_admitted cwd by blast
qed (use normalize_parts [OF _ cwd] in \<open>auto simp: admitted_def redirected_def short_def\<close>)

end

lemma external_inputs:
  assumes "foldM (external_input probe outs) ext paths = Inr found"
  shows "found = ext @ filter (\<lambda>p. probe p = Regular) paths \<and> (\<forall>p \<in> set paths. probe p = Regular \<or> probe p = Missing \<and> p \<in> outs)"
  using assms
proof (induction paths arbitrary: ext)
  case (Cons p paths)
  obtain ext' where step: "external_input probe outs ext p = Inr ext'" and rest: "foldM (external_input probe outs) ext' paths = Inr found"
    using Cons.prems by (auto simp: res_simps)
  have "ext' = (if probe p = Regular then ext @ [p] else ext) \<and> (probe p = Regular \<or> probe p = Missing \<and> p \<in> outs)"
    using step by (cases "probe p") (auto simp: external_input_def split: if_splits)
  then show ?case using Cons.IH [OF rest] by auto
qed simp

lemma fresh_outputs: "foldM (\<lambda>_. fresh_output probe) () paths = Inr u \<Longrightarrow> p \<in> set paths \<Longrightarrow> probe p = Missing"
proof (induction paths)
  case (Cons q paths)
  then show ?case by (auto simp: fresh_output_def res_simps split: presence.splits)
qed simp

lemma build_program_elim:
  assumes "build_program jsha registry probe cwd policy source_text tokens = Inr p"
  obtains s where "compile_tokens registry cwd initial_command tokens = Inr s" "int (length (cs_nodes s)) \<le> ep_nodes policy"
    "cp_nodes p = cs_nodes s" "cp_edges p = cs_edges s" "cp_inputs p = filter (\<lambda>p. probe p = Regular) (sorted_list_of_set (cs_inputs s))"
    "cp_outputs p = sorted_list_of_set (cs_outputs s)" "cp_policy p = policy" "cp_env p = CONTROLLED_ENV" "cp_schema p = PROGRAM_SCHEMA"
    "cp_id p = ''command-'' @ take 16 (program_identity jsha p)"
    "finite (cs_inputs s) \<Longrightarrow> finite (cs_outputs s) \<Longrightarrow> set (cp_inputs p) = cs_inputs s - cs_outputs s"
proof -
  obtain s ext u where c: "compile_tokens registry cwd initial_command tokens = Inr s" and n: "int (length (cs_nodes s)) \<le> ep_nodes policy"
    and x: "foldM (external_input probe (cs_outputs s)) [] (sorted_list_of_set (cs_inputs s)) = Inr ext"
    and f: "foldM (\<lambda>_. fresh_output probe) () (sorted_list_of_set (cs_outputs s)) = Inr u"
    and p: "p = (let provisional = \<lparr>cp_id = ''pending'', cp_source = source_text, cp_nodes = cs_nodes s, cp_edges = cs_edges s, cp_inputs = ext,
            cp_outputs = sorted_list_of_set (cs_outputs s), cp_policy = policy, cp_env = CONTROLLED_ENV, cp_schema = PROGRAM_SCHEMA\<rparr>
      in provisional\<lparr>cp_id := ''command-'' @ take 16 (program_identity jsha provisional)\<rparr>)"
    using assms by (auto simp: build_program_def res_simps Let_def)
  note ext = external_inputs [OF x]
  have "set (cp_inputs p) = cs_inputs s - cs_outputs s" if "finite (cs_inputs s)" "finite (cs_outputs s)"
    using ext fresh_outputs [OF f] that by (auto simp: p Let_def)
  then show thesis using ext by (intro that [OF c n]) (auto simp: p Let_def program_identity_def identity_dict_def)
qed

lemma built_program_valid:
  assumes "build_program jsha registry probe cwd policy source_text tokens = Inr p"
  shows "validate_program jsha p = Inr ()"
  using assms
proof (cases rule: build_program_elim)
  case (1 s)
  have w: "wired s" "cs_nodes s \<noteq> []" using compile_tokens_wired [OF 1(1)] by auto
  then show ?thesis using 1 numbered_distinct [of "cs_nodes s"] by (simp add: validate_program_def wired_def)
qed

interpretation host: tool_registry "resolve_tool h" "executable h" for h :: tool_host
  by unfold_locales (auto simp: resolve_tool_def executable_def res_simps Let_def)

text \<open>
  The validation at the end of the compiler never fails: for every token list, registry,
  workspace and policy the compiler returns exactly what it has built, so its node names are
  distinct, its dependencies go backwards and its declared paths have no duplicates.
\<close>

theorem compile_self_validation:
  "compile_command jsha registry probe cwd policy source_text tokens = build_program jsha registry probe cwd policy source_text tokens"
  using built_program_valid [of jsha registry probe cwd policy source_text tokens]
  by (cases "build_program jsha registry probe cwd policy source_text tokens") (auto simp: compile_command_def)

text \<open>
  C11. A compiled program passes the admission before execution on the same host, in whatever
  directory the session is by then, unless a declared path has more than 4096 bytes once the
  current directory is put in front of it.
\<close>

theorem compiled_program_executable:
  assumes "compile_command jsha (resolve_tool h) probe cwd policy source_text tokens = Inr p" and "list_all good_part cwd"
    and "\<forall>v \<in> set (cp_inputs p) \<union> set (cp_outputs p). utf8_size v \<le> 4096"
  shows "validate_executable (executable h) cwd' p = Inr ()"
proof -
  have "build_program jsha (resolve_tool h) probe cwd policy source_text tokens = Inr p" using assms(1) by (auto simp: compile_command_def res_simps)
  then show ?thesis
  proof (cases rule: build_program_elim)
    case (1 s)
    have w: "wired s" using compile_tokens_wired [OF 1(1)] by blast
    have fin: "finite (cs_inputs s)" "finite (cs_outputs s)" using w by (simp_all add: wired_def)
    have "short s" using assms(3) 1(6,11) fin unfolding short_def by (auto simp: Ball_def)
    then have "foldM (admit_node (executable h) cwd') ({}, {}, {}) (cs_nodes s) = Inr (set (map edge_triple (cs_edges s)), cs_inputs s, cs_outputs s)"
      using host.compile_tokens_admitted [OF 1(1) assms(2)] by (simp add: admitted_def)
    moreover have "card (set (map edge_triple (cs_edges s))) = length (cs_edges s)"
      using w distinct_card [of "map edge_triple (cs_edges s)"] by (simp add: wired_def)
    ultimately show ?thesis using 1 fin by (simp add: validate_executable_def)
  qed
qed

text \<open>A host with \<open>echo\<close>, \<open>cat\<close> and \<open>cp\<close> in \<open>/usr/bin\<close>, and the program \<open>echo hi > f ; cat f\<close>.\<close>

definition demo_host :: tool_host where
  "demo_host = \<lparr>th_installed = (\<lambda>d c. d = ''/usr/bin'' \<and> c \<in> {''echo'', ''cat'', ''cp''}), th_digest = (\<lambda>d c. c @ replicate 61 CHR ''0''),
     th_report = (\<lambda>_ _ _. None)\<rparr>"

definition demo_policy :: execution_policy where
  "demo_policy = \<lparr>ep_timeout = 10, ep_capture = 10, ep_nodes = 4, ep_parallel = 1, ep_schema = POLICY_SCHEMA\<rparr>"

theorem compiled_program_executable_witness:
  "\<exists>p. compile_command (\<lambda>_. ''x'') (resolve_tool demo_host) (\<lambda>_. Missing) [''d''] demo_policy ''echo hi > f ; cat f'' [''echo'', ''hi'', ''>'', ''f'', '';'', ''cat'', ''f''] = Inr p \<and>
     validate_executable (executable demo_host) [] p = Inr ()"
proof -
  let ?c = "compile_command (\<lambda>_. ''x'') (resolve_tool demo_host) (\<lambda>_. Missing) [''d''] demo_policy ''echo hi > f ; cat f'' [''echo'', ''hi'', ''>'', ''f'', '';'', ''cat'', ''f'']"
  have "(case ?c of Inl _ \<Rightarrow> False | Inr p \<Rightarrow> \<forall>v \<in> set (cp_inputs p) \<union> set (cp_outputs p). utf8_size v \<le> 4096)" by code_simp
  then obtain p where p: "?c = Inr p" "\<forall>v \<in> set (cp_inputs p) \<union> set (cp_outputs p). utf8_size v \<le> 4096" by (auto split: sum.splits)
  have "list_all good_part [''d'']" by code_simp
  from compiled_program_executable [OF p(1) this p(2)] show ?thesis using p(1) by blast
qed

text \<open>
  C36. An empty word survives the lexer and the compiler accepts it, but the decoder does not:
  the program of \<open>echo ""\<close> cannot be read back from its own dictionary.
\<close>

theorem empty_argument_unreadable:
  "\<exists>p. compile_command (\<lambda>_. ''x'') (resolve_tool demo_host) (\<lambda>_. Missing) [] demo_policy (''echo '' @ [CHR 0x22, CHR 0x22]) [''echo'', ''''] = Inr p \<and>
     validate_program (\<lambda>_. ''x'') p = Inr () \<and> program_from_dict (\<lambda>_. ''x'') (program_to_dict p) = Inl (ValueError ''invalid argv'')"
proof -
  let ?c = "compile_command (\<lambda>_. ''x'') (resolve_tool demo_host) (\<lambda>_. Missing) [] demo_policy (''echo '' @ [CHR 0x22, CHR 0x22]) [''echo'', '''']"
  have "(case ?c of Inl _ \<Rightarrow> False | Inr p \<Rightarrow> validate_program (\<lambda>_. ''x'') p = Inr () \<and> program_from_dict (\<lambda>_. ''x'') (program_to_dict p) = Inl (ValueError ''invalid argv''))"
    by code_simp
  then show ?thesis by (auto split: sum.splits)
qed

end
