(* ===== verification/Command_Exec.thy ===== *)
theory Command_Exec
  imports Command_Check "HOL-Library.Multiset"
begin

text \<open>
  \<open>raveil/command_graph.py\<close>, fourth part: the two executors and their comparison. Running one
  node (\<open>_run_node\<close>: a subprocess in the staged copy of the workspace) and surveying the stage
  afterwards are arguments of the model, so that the stage may be of any type. The thread pool
  runs the nodes of a batch in submission order, which is what it does with one worker;
  durations are left out. A batch reads the streams of earlier batches only, since no node of
  a batch depends on another.
\<close>

section \<open>Outcomes and batches\<close>

record node_outcome =
  no_id :: string
  no_status :: string
  no_exit :: int
  no_sha :: string
  no_stderr :: string

record 's executor =
  xr_run :: "command_node \<Rightarrow> string \<Rightarrow> 's \<Rightarrow> (node_outcome \<times> string \<times> 's) res"
  xr_digest :: "string \<Rightarrow> string"
  xr_survey :: "'s \<Rightarrow> (string \<times> string) list \<times> string list"

record 's exec_state =
  ex_outcomes :: "string \<rightharpoonup> node_outcome"
  ex_streams :: "string \<rightharpoonup> string"
  ex_stage :: 's
  ex_maximum :: int

definition skipped_outcome :: "(string \<Rightarrow> string) \<Rightarrow> string \<Rightarrow> node_outcome" where
  "skipped_outcome digest node_id = \<lparr>no_id = node_id, no_status = ''skipped'', no_exit = 125, no_sha = digest [], no_stderr = ''dependency failed''\<rparr>"

definition blocked :: "command_node \<Rightarrow> node_outcome list \<Rightarrow> bool" where
  "blocked n deps \<longleftrightarrow> cn_mode n \<in> {''success'', ''stream''} \<and> list_ex (\<lambda>i. no_status i \<noteq> ''executed'') deps"

definition sort_node :: "(string \<Rightarrow> string) \<Rightarrow> (string \<rightharpoonup> node_outcome) \<times> command_node list \<Rightarrow> command_node \<Rightarrow>
    ((string \<rightharpoonup> node_outcome) \<times> command_node list) res" where
  "sort_node digest acc n = (case acc of (outcomes, runnable) \<Rightarrow>
     rbind (mapM (mget outcomes) (cn_deps n)) (\<lambda>deps.
     Inr (if blocked n deps then (outcomes(cn_id n \<mapsto> skipped_outcome digest (cn_id n)), runnable) else (outcomes, runnable @ [n]))))"

definition stream_input :: "(string \<rightharpoonup> string) \<Rightarrow> command_node \<Rightarrow> string res" where
  "stream_input streams n =
     (if cn_mode n = ''stream'' then if cn_deps n = [] then Inl IndexError else Inr (case streams (last (cn_deps n)) of None \<Rightarrow> [] | Some b \<Rightarrow> b)
      else Inr [])"

definition run_one :: "'s executor \<Rightarrow> (string \<rightharpoonup> string) \<Rightarrow> 's exec_state \<Rightarrow> command_node \<Rightarrow> 's exec_state res" where
  "run_one x streams st n =
     rbind (stream_input streams n) (\<lambda>stdin.
     rbind (xr_run x n stdin (ex_stage st)) (\<lambda>(outcome, stdout, stage).
     Inr (st\<lparr>ex_outcomes := (ex_outcomes st)(cn_id n \<mapsto> outcome), ex_streams := (ex_streams st)(cn_id n \<mapsto> stdout), ex_stage := stage\<rparr>)))"

definition run_batch :: "'s executor \<Rightarrow> int \<Rightarrow> 's exec_state \<Rightarrow> command_node list \<Rightarrow> 's exec_state res" where
  "run_batch x parallel st batch =
     rbind (foldM (sort_node (xr_digest x)) (ex_outcomes st, []) batch) (\<lambda>(outcomes, runnable).
     foldM (run_one x (ex_streams st))
       (st\<lparr>ex_outcomes := outcomes, ex_maximum := max (ex_maximum st) (min (int (length runnable)) parallel)\<rparr>) runnable)"

section \<open>The two executors\<close>

function direct_loop :: "'s executor \<Rightarrow> int \<Rightarrow> 's exec_state \<Rightarrow> command_node list \<Rightarrow> 's exec_state res" where
  "direct_loop x parallel st [] = Inr st"
| "direct_loop x parallel st (n # ns) =
     (let extra = (if cn_deps n = [] then takeWhile (\<lambda>m. cn_deps m = []) ns else [])
      in rbind (run_batch x parallel st (n # extra)) (\<lambda>st'. direct_loop x parallel st' (drop (length extra) ns)))"
  by pat_completeness auto
termination
  by (relation "measure (\<lambda>(x, parallel, st, ns). length ns)") auto

function graph_loop :: "'s executor \<Rightarrow> int \<Rightarrow> 's exec_state \<Rightarrow> command_node list \<Rightarrow> 's exec_state res" where
  "graph_loop x parallel st pending =
     (if pending = [] then Inr st
      else let ready = filter (\<lambda>n. \<forall>d \<in> set (cn_deps n). ex_outcomes st d \<noteq> None) pending
           in if ready = [] then Inl (ValueError ''command graph made no progress'')
              else rbind (run_batch x parallel st ready) (\<lambda>st'. graph_loop x parallel st' (filter (\<lambda>n. n \<notin> set ready) pending)))"
  by pat_completeness auto
termination
proof (relation "measure (\<lambda>(x, parallel, st, pending). length pending)", goal_cases)
  case (2 x parallel st pending ready st')
  have "set ready \<subseteq> set pending" using 2(2) by auto
  moreover have "set ready \<noteq> {}" using 2(3) by (simp only: set_empty not_False_eq_True)
  ultimately obtain n where "n \<in> set ready" "n \<in> set pending" by (metis ex_in_conv subsetD)
  then show ?case by (auto intro: length_filter_less)
qed simp

declare graph_loop.simps [simp del]

record execution_outcome =
  eo_status :: string
  eo_exit :: int
  eo_stdout :: string
  eo_stderr :: string
  eo_outputs :: "(string \<times> string) list"
  eo_nodes :: "node_outcome list"
  eo_concurrency :: int

definition unexpected_changes :: "command_program \<Rightarrow> (string \<times> string) list \<Rightarrow> (string \<times> string) list \<Rightarrow> string list" where
  "unexpected_changes p initial after =
     (let allowed = set (cp_outputs p) \<union> (\<Union>n \<in> set (cp_nodes p). set (cn_writes n))
      in map fst (filter (\<lambda>(path, digest). map_of initial path \<noteq> Some digest \<and> path \<notin> allowed) after) @
         filter (\<lambda>path. map_of after path = None \<and> path \<notin> allowed) (map fst initial))"

definition finish :: "'s executor \<Rightarrow> command_program \<Rightarrow> (string \<times> string) list \<Rightarrow> 's \<Rightarrow> node_outcome list \<Rightarrow> (string \<rightharpoonup> string) \<Rightarrow> int \<Rightarrow> execution_outcome" where
  "finish x p initial stage outcomes streams maximum = (case xr_survey x stage of (after, special) \<Rightarrow>
     (let unexpected = special @ unexpected_changes p initial after;
          hashes = concat (map (\<lambda>path. case map_of after path of None \<Rightarrow> [] | Some h \<Rightarrow> [(path, h)]) (cp_outputs p));
          failed = find (\<lambda>i. no_status i \<noteq> ''executed'') outcomes;
          invalid = unexpected \<noteq> [] \<or> length hashes \<noteq> length (cp_outputs p);
          terminal = filter (\<lambda>i. i \<notin> ce_source ` set (cp_edges p)) (map cn_id (cp_nodes p))
      in \<lparr>eo_status = (if invalid then ''invalid-mutation'' else case failed of None \<Rightarrow> ''executed'' | Some i \<Rightarrow> no_status i),
          eo_exit = (if invalid then 125 else case failed of None \<Rightarrow> 0 | Some i \<Rightarrow> no_exit i),
          eo_stdout = concat (map (\<lambda>i. case streams i of None \<Rightarrow> [] | Some b \<Rightarrow> b) terminal),
          eo_stderr = (if invalid then ''undeclared or missing output mutation'' else case failed of None \<Rightarrow> [] | Some i \<Rightarrow> no_stderr i),
          eo_outputs = hashes, eo_nodes = outcomes, eo_concurrency = maximum\<rparr>))"

definition conclude :: "'s executor \<Rightarrow> command_program \<Rightarrow> (string \<times> string) list \<Rightarrow> 's exec_state \<Rightarrow> execution_outcome res" where
  "conclude x p initial st =
     rbind (mapM (\<lambda>n. mget (ex_outcomes st) (cn_id n)) (cp_nodes p)) (\<lambda>ordered.
     Inr (finish x p initial (ex_stage st) ordered (ex_streams st) (max 1 (ex_maximum st))))"

definition start_state :: "'s \<Rightarrow> int \<Rightarrow> 's exec_state" where
  "start_state stage maximum = \<lparr>ex_outcomes = Map.empty, ex_streams = Map.empty, ex_stage = stage, ex_maximum = maximum\<rparr>"

definition direct_execute :: "'s executor \<Rightarrow> command_program \<Rightarrow> 's \<Rightarrow> (string \<times> string) list \<Rightarrow> execution_outcome res" where
  "direct_execute x p stage initial =
     rbind (direct_loop x (ep_parallel (cp_policy p)) (start_state stage 1) (cp_nodes p)) (conclude x p initial)"

definition graph_execute :: "'s executor \<Rightarrow> command_program \<Rightarrow> 's \<Rightarrow> (string \<times> string) list \<Rightarrow> execution_outcome res" where
  "graph_execute x p stage initial =
     rbind (graph_loop x (ep_parallel (cp_policy p)) (start_state stage 0) (cp_nodes p)) (conclude x p initial)"

definition differences :: "execution_outcome \<Rightarrow> execution_outcome \<Rightarrow> string list" where
  "differences direct graph =
     (if eo_stdout direct \<noteq> eo_stdout graph then [''stdout''] else []) @
     (if eo_stderr direct \<noteq> eo_stderr graph then [''stderr''] else []) @
     (if eo_exit direct \<noteq> eo_exit graph \<or> eo_status direct \<noteq> eo_status graph then [''status''] else []) @
     (if eo_outputs direct \<noteq> eo_outputs graph then [''outputs''] else [])"

text \<open>
  \<open>CommandComparison.execute\<close> up to publication: both stages are snapshots of the same
  workspace, so they and their manifests are equal, but they lie in different directories,
  which an executor may show to its tools; so each side has its own executor.
\<close>

definition compare_execute :: "((string \<times> json) list \<Rightarrow> string) \<Rightarrow> (tool_identity \<Rightarrow> 'p res) \<Rightarrow> string list \<Rightarrow> 's executor \<Rightarrow> 's executor \<Rightarrow> command_program \<Rightarrow> 's \<Rightarrow>
    (string \<times> string) list \<Rightarrow> (bool \<times> string list) res" where
  "compare_execute jsha exe cwd x x' p stage initial =
     rbind (validate_program jsha p) (\<lambda>_.
     rbind (validate_executable exe cwd p) (\<lambda>_.
     rbind (direct_execute x p stage initial) (\<lambda>direct.
     rbind (graph_execute x' p stage initial) (\<lambda>graph.
     Inr (differences direct graph = [] \<and> eo_status direct = ''executed'' \<and> eo_status graph = ''executed'', differences direct graph)))))"

section \<open>One node after another\<close>

text \<open>
  The part of an executor's state that its nodes see, and one node executed on it alone. Both
  executors turn out to execute the nodes one after another in some order.
\<close>

type_synonym 's store = "(string \<rightharpoonup> node_outcome) \<times> (string \<rightharpoonup> string) \<times> 's"

definition core :: "'s exec_state \<Rightarrow> 's store" where
  "core st = (ex_outcomes st, ex_streams st, ex_stage st)"

definition core_of :: "'s exec_state res \<Rightarrow> 's store res" where
  "core_of m = (case m of Inl e \<Rightarrow> Inl e | Inr st \<Rightarrow> Inr (core st))"

lemma core_of_simps [simp]: "core_of (Inl e) = Inl e" "core_of (Inr st) = Inr (core st)"
  by (simp_all add: core_of_def)

definition exec_node :: "'s executor \<Rightarrow> 's store \<Rightarrow> command_node \<Rightarrow> 's store res" where
  "exec_node x c n = (case c of (outcomes, streams, stage) \<Rightarrow>
     rbind (mapM (mget outcomes) (cn_deps n)) (\<lambda>deps.
     if blocked n deps then Inr (outcomes(cn_id n \<mapsto> skipped_outcome (xr_digest x) (cn_id n)), streams, stage)
     else rbind (stream_input streams n) (\<lambda>stdin.
          rbind (xr_run x n stdin stage) (\<lambda>(outcome, stdout, stage').
          Inr (outcomes(cn_id n \<mapsto> outcome), streams(cn_id n \<mapsto> stdout), stage')))))"

text \<open>A list of nodes that can be executed in this order once the nodes named in \<open>K\<close> are.\<close>

fun ordered_from :: "string set \<Rightarrow> command_node list \<Rightarrow> bool" where
  "ordered_from K [] \<longleftrightarrow> True"
| "ordered_from K (n # ns) \<longleftrightarrow> set (cn_deps n) \<subseteq> K \<and> cn_id n \<notin> K \<and> ordered_from (insert (cn_id n) K) ns"

lemma ordered_from_append: "ordered_from K (ns @ ms) \<longleftrightarrow> ordered_from K ns \<and> ordered_from (K \<union> cn_id ` set ns) ms"
  by (induction ns arbitrary: K) auto

lemma ordered_from_fresh: "ordered_from K ns \<Longrightarrow> distinct (map cn_id ns) \<and> cn_id ` set ns \<inter> K = {}"
  by (induction ns arbitrary: K) auto

lemma topological_ordered:
  "foldM topological_step K ns = Inr u \<Longrightarrow> distinct (map cn_id ns) \<Longrightarrow> cn_id ` set ns \<inter> K = {} \<Longrightarrow> ordered_from K ns"
  by (induction ns arbitrary: K) (auto simp: topological_step_def res_simps)

lemma validated_ordered: "validate_program jsha p = Inr () \<Longrightarrow> ordered_from {} (cp_nodes p)"
  using topological_ordered [of "{}"] by (auto simp: validate_program_def res_simps)

text \<open>The nodes that are ready can be executed first.\<close>

lemma ordered_ready:
  "ordered_from K ns \<Longrightarrow> K0 \<subseteq> K' \<Longrightarrow> K' \<subseteq> K \<Longrightarrow> \<forall>n \<in> set ns. P n \<longrightarrow> set (cn_deps n) \<subseteq> K0 \<Longrightarrow> ordered_from K' (filter P ns)"
proof (induction ns arbitrary: K K')
  case (Cons n ns)
  show ?case
  proof (cases "P n")
    case True
    have "ordered_from (insert (cn_id n) K') (filter P ns)" by (rule Cons.IH [of "insert (cn_id n) K"]) (use Cons.prems in auto)
    then show ?thesis using True Cons.prems by auto
  next
    case False
    have "ordered_from K' (filter P ns)" by (rule Cons.IH [of "insert (cn_id n) K"]) (use Cons.prems in auto)
    then show ?thesis using False by simp
  qed
qed simp

lemma ordered_waiting:
  "ordered_from K ns \<Longrightarrow> K \<subseteq> K' \<Longrightarrow> cn_id ` set (filter P ns) \<subseteq> K' \<Longrightarrow> cn_id ` set (filter (\<lambda>n. \<not> P n) ns) \<inter> K' = {} \<Longrightarrow>
     ordered_from K' (filter (\<lambda>n. \<not> P n) ns)"
proof (induction ns arbitrary: K K')
  case (Cons n ns)
  have fresh: "cn_id n \<notin> cn_id ` set ns" using ordered_from_fresh [OF Cons.prems(1)] by simp
  show ?case
  proof (cases "P n")
    case True
    have "ordered_from K' (filter (\<lambda>n. \<not> P n) ns)" by (rule Cons.IH [of "insert (cn_id n) K"]) (use Cons.prems True in auto)
    then show ?thesis using True by simp
  next
    case False
    have "ordered_from (insert (cn_id n) K') (filter (\<lambda>n. \<not> P n) ns)"
      by (rule Cons.IH [of "insert (cn_id n) K"]) (use Cons.prems False fresh in auto)
    then show ?thesis using False Cons.prems by auto
  qed
qed simp

lemma ordered_partition:
  assumes "ordered_from K ns" "\<forall>n \<in> set ns. P n \<longrightarrow> set (cn_deps n) \<subseteq> K"
  shows "ordered_from K (filter P ns @ filter (\<lambda>n. \<not> P n) ns)"
proof -
  have fresh: "distinct (map cn_id ns)" "cn_id ` set ns \<inter> K = {}" using ordered_from_fresh [OF assms(1)] by auto
  have "cn_id m \<notin> cn_id ` set (filter P ns)" if "m \<in> set ns" "\<not> P m" for m
  proof
    assume "cn_id m \<in> cn_id ` set (filter P ns)"
    then obtain n where "n \<in> set ns" "P n" "cn_id m = cn_id n" by auto
    then show False using that fresh(1) by (metis distinct_map inj_onD)
  qed
  moreover have "cn_id m \<notin> K" if "m \<in> set ns" for m using that fresh(2) by blast
  ultimately have "cn_id ` set (filter (\<lambda>n. \<not> P n) ns) \<inter> (K \<union> cn_id ` set (filter P ns)) = {}" by (auto simp del: set_filter simp: filter_set [symmetric])
  then show ?thesis
    unfolding ordered_from_append using ordered_ready [OF assms(1) order_refl order_refl assms(2)]
    using ordered_waiting [OF assms(1), of "K \<union> cn_id ` set (filter P ns)" P] by simp
qed

lemma exec_node_dom: "exec_node x c n = Inr c' \<Longrightarrow> dom (fst c') = insert (cn_id n) (dom (fst c))"
  by (cases c) (auto simp: exec_node_def res_simps split: if_splits prod.splits)

lemma exec_nodes_dom: "foldM (exec_node x) c ns = Inr c' \<Longrightarrow> dom (fst c') = dom (fst c) \<union> cn_id ` set ns"
proof (induction ns arbitrary: c)
  case (Cons n ns)
  then obtain c'' where "exec_node x c n = Inr c''" "foldM (exec_node x) c'' ns = Inr c'" by (auto simp only: foldM.simps res_simps)
  then show ?case using Cons.IH [of c''] exec_node_dom [of x c n c''] by simp
qed simp

section \<open>One batch\<close>

text \<open>
  A batch first records the skipped nodes and then runs the others. Since no node of the batch
  depends on another, this is the same as executing the nodes one by one.
\<close>

definition held :: "(string \<rightharpoonup> node_outcome) \<Rightarrow> command_node \<Rightarrow> bool" where
  "held known n \<longleftrightarrow> blocked n (map (\<lambda>d. the (known d)) (cn_deps n))"

definition skip :: "(string \<Rightarrow> string) \<Rightarrow> command_node \<Rightarrow> (string \<rightharpoonup> node_outcome) \<Rightarrow> (string \<rightharpoonup> node_outcome)" where
  "skip digest n outs = outs(cn_id n \<mapsto> skipped_outcome digest (cn_id n))"

lemma skip_commute: "k \<notin> cn_id ` set ns \<Longrightarrow> fold (skip digest) ns (outs(k \<mapsto> v)) = (fold (skip digest) ns outs)(k \<mapsto> v)"
proof (induction ns arbitrary: outs)
  case (Cons n ns)
  have "k \<noteq> cn_id n" using Cons.prems by simp
  then have "skip digest n (outs(k \<mapsto> v)) = (skip digest n outs)(k \<mapsto> v)" by (auto simp: skip_def fun_eq_iff)
  moreover have "fold (skip digest) ns ((skip digest n outs)(k \<mapsto> v)) = (fold (skip digest) ns (skip digest n outs))(k \<mapsto> v)"
    by (rule Cons.IH) (use Cons.prems in simp)
  ultimately show ?case by (simp only: fold_simps)
qed simp

lemma known_deps:
  assumes "known \<subseteq>\<^sub>m outs" "set (cn_deps n) \<subseteq> dom known"
  shows "mapM (mget outs) (cn_deps n) = Inr (map (\<lambda>d. the (known d)) (cn_deps n))"
proof (rule mapM_eq_map)
  fix d assume "d \<in> set (cn_deps n)"
  then obtain v where "known d = Some v" using assms(2) by auto
  then show "mget outs d = Inr (the (known d))" using assms(1) by (auto simp: mget_def map_le_def dom_def)
qed

lemma map_le_fresh: "known \<subseteq>\<^sub>m outs \<Longrightarrow> k \<notin> dom known \<Longrightarrow> known \<subseteq>\<^sub>m outs(k \<mapsto> v)"
  by (auto simp: map_le_def)

lemma sort_batch:
  assumes "\<forall>n \<in> set batch. set (cn_deps n) \<subseteq> dom known \<and> cn_id n \<notin> dom known" and "known \<subseteq>\<^sub>m outs"
  shows "foldM (sort_node digest) (outs, acc) batch =
    Inr (fold (skip digest) (filter (held known) batch) outs, acc @ filter (\<lambda>n. \<not> held known n) batch)"
  using assms
proof (induction batch arbitrary: outs acc)
  case (Cons n batch)
  have "mapM (mget outs) (cn_deps n) = Inr (map (\<lambda>d. the (known d)) (cn_deps n))" using Cons.prems by (intro known_deps) auto
  then have "sort_node digest (outs, acc) n = Inr (if held known n then (skip digest n outs, acc) else (outs, acc @ [n]))"
    by (simp add: sort_node_def held_def skip_def)
  moreover have "known \<subseteq>\<^sub>m skip digest n outs" unfolding skip_def using Cons.prems by (intro map_le_fresh) auto
  ultimately show ?case using Cons.IH Cons.prems by simp
qed simp

lemma run_batch_live:
  assumes "\<forall>n \<in> set batch. set (cn_deps n) \<subseteq> dom known \<and> cn_id n \<notin> dom known" "distinct (map cn_id batch)"
    and "known \<subseteq>\<^sub>m outs" "\<forall>d \<in> dom known. old d = streams d"
    and "ex_outcomes st = fold (skip (xr_digest x)) (filter (held known) batch) outs" "ex_streams st = streams"
  shows "core_of (foldM (run_one x old) st (filter (\<lambda>n. \<not> held known n) batch)) = foldM (exec_node x) (outs, streams, ex_stage st) batch"
  using assms
proof (induction batch arbitrary: st outs streams)
  case Nil
  then show ?case by (simp add: core_def)
next
  case (Cons n batch)
  have deps: "set (cn_deps n) \<subseteq> dom known" "cn_id n \<notin> dom known" "cn_id n \<notin> cn_id ` set batch" using Cons.prems(1,2) by auto
  have rest: "\<forall>n \<in> set batch. set (cn_deps n) \<subseteq> dom known \<and> cn_id n \<notin> dom known" "distinct (map cn_id batch)" using Cons.prems(1,2) by auto
  have args: "mapM (mget outs) (cn_deps n) = Inr (map (\<lambda>d. the (known d)) (cn_deps n))" using Cons.prems(3) deps(1) by (rule known_deps)
  show ?case
  proof (cases "held known n")
    case True
    have le: "known \<subseteq>\<^sub>m skip (xr_digest x) n outs" unfolding skip_def using Cons.prems(3) deps(2) by (rule map_le_fresh)
    have "exec_node x (outs, streams, ex_stage st) n = Inr (skip (xr_digest x) n outs, streams, ex_stage st)"
      using True args by (simp add: exec_node_def held_def skip_def)
    then show ?thesis using Cons.IH [OF rest le Cons.prems(4), of st] Cons.prems(5,6) True by simp
  next
    case False
    have same: "stream_input old n = stream_input streams n"
      using Cons.prems(4) deps(1) subsetD [OF deps(1) last_in_set] by (cases "cn_deps n = []") (simp_all add: stream_input_def)
    show ?thesis
    proof (cases "rbind (stream_input streams n) (\<lambda>stdin. xr_run x n stdin (ex_stage st))")
      case (Inl e)
      then have "run_one x old st n = Inl e \<and> exec_node x (outs, streams, ex_stage st) n = Inl e"
        using args False by (auto simp: run_one_def exec_node_def held_def same res_simps)
      then show ?thesis using False by simp
    next
      case (Inr r)
      obtain out piped stage where r: "r = (out, piped, stage)" by (cases r) auto
      let ?st = "st\<lparr>ex_outcomes := (ex_outcomes st)(cn_id n \<mapsto> out), ex_streams := (ex_streams st)(cn_id n \<mapsto> piped), ex_stage := stage\<rparr>"
      have one: "run_one x old st n = Inr ?st" "exec_node x (outs, streams, ex_stage st) n = Inr (outs(cn_id n \<mapsto> out), streams(cn_id n \<mapsto> piped), stage)"
        using Inr args False by (auto simp: run_one_def exec_node_def held_def same r res_simps)
      have "core_of (foldM (run_one x old) ?st (filter (\<lambda>n. \<not> held known n) batch)) =
          foldM (exec_node x) (outs(cn_id n \<mapsto> out), streams(cn_id n \<mapsto> piped), ex_stage ?st) batch"
      proof (rule Cons.IH [OF rest])
        show "known \<subseteq>\<^sub>m outs(cn_id n \<mapsto> out)" using Cons.prems(3) deps(2) by (rule map_le_fresh)
        show "\<forall>d \<in> dom known. old d = (streams(cn_id n \<mapsto> piped)) d" using Cons.prems(4) deps(2) by auto
        have "cn_id n \<notin> cn_id ` set (filter (held known) batch)" using deps(3) by auto
        then show "ex_outcomes ?st = fold (skip (xr_digest x)) (filter (held known) batch) (outs(cn_id n \<mapsto> out))"
          using Cons.prems(5) False skip_commute [of "cn_id n" "filter (held known) batch"] by simp
      qed (use Cons.prems(6) in simp)
      then show ?thesis using one False by simp
    qed
  qed
qed

lemma run_batch_exec:
  assumes "ordered_from (dom (ex_outcomes st)) batch" "\<forall>n \<in> set batch. set (cn_deps n) \<subseteq> dom (ex_outcomes st)"
  shows "core_of (run_batch x par st batch) = foldM (exec_node x) (core st) batch"
proof -
  let ?known = "ex_outcomes st"
  have batch: "\<forall>n \<in> set batch. set (cn_deps n) \<subseteq> dom ?known \<and> cn_id n \<notin> dom ?known" "distinct (map cn_id batch)"
    using ordered_from_fresh [OF assms(1)] assms(2) by auto
  let ?st = "st\<lparr>ex_outcomes := fold (skip (xr_digest x)) (filter (held ?known) batch) ?known,
      ex_maximum := max (ex_maximum st) (min (int (length (filter (\<lambda>n. \<not> held ?known n) batch))) par)\<rparr>"
  have "core_of (foldM (run_one x (ex_streams st)) ?st (filter (\<lambda>n. \<not> held ?known n) batch)) =
      foldM (exec_node x) (?known, ex_streams st, ex_stage ?st) batch"
    by (rule run_batch_live [OF batch map_le_refl]) simp_all
  then show ?thesis
    unfolding run_batch_def sort_batch [OF batch(1) map_le_refl] rbind_simps prod.case append_Nil by (simp add: core_def [of st])
qed

section \<open>The loops\<close>

lemma direct_loop_exec:
  "ordered_from (dom (ex_outcomes st)) ns \<Longrightarrow> core_of (direct_loop x par st ns) = foldM (exec_node x) (core st) ns"
proof (induction x par st ns rule: direct_loop.induct)
  case (2 x par st n ns)
  define extra where "extra = (if cn_deps n = [] then takeWhile (\<lambda>m. cn_deps m = []) ns else [])"
  have ns: "ns = extra @ drop (length extra) ns"
    by (simp add: extra_def) (metis takeWhile_eq_take append_take_drop_id)
  have "\<forall>m \<in> set extra. cn_deps m = []" by (auto simp: extra_def dest: set_takeWhileD split: if_splits)
  then have free: "\<forall>m \<in> set (n # extra). set (cn_deps m) \<subseteq> dom (ex_outcomes st)" using 2(2) by auto
  have split: "n # ns = (n # extra) @ drop (length extra) ns" using ns by simp
  have ord: "ordered_from (dom (ex_outcomes st)) (n # extra)" "ordered_from (dom (ex_outcomes st) \<union> cn_id ` set (n # extra)) (drop (length extra) ns)"
    using 2(2) unfolding split ordered_from_append by auto
  note batch = run_batch_exec [OF ord(1) free, of x par]
  have all: "foldM (exec_node x) (core st) (n # ns) = rbind (foldM (exec_node x) (core st) (n # extra)) (\<lambda>c. foldM (exec_node x) c (drop (length extra) ns))"
    by (subst split) (rule foldM_append)
  have loop: "direct_loop x par st (n # ns) = rbind (run_batch x par st (n # extra)) (\<lambda>st'. direct_loop x par st' (drop (length extra) ns))"
    by (simp add: extra_def [symmetric])
  show ?case
  proof (cases "run_batch x par st (n # extra)")
    case (Inl e)
    then have "foldM (exec_node x) (core st) (n # extra) = Inl e" using batch by simp
    then show ?thesis unfolding all loop Inl by simp
  next
    case (Inr st')
    have c: "foldM (exec_node x) (core st) (n # extra) = Inr (core st')" using batch Inr by simp
    have "dom (ex_outcomes st') = dom (ex_outcomes st) \<union> cn_id ` set (n # extra)" using exec_nodes_dom [OF c] by (simp add: core_def)
    then show ?thesis unfolding all loop c Inr rbind_simps using 2(1) [OF extra_def Inr] ord(2) by simp
  qed
qed simp

lemma graph_loop_exec:
  "ordered_from (dom (ex_outcomes st)) pending \<Longrightarrow> \<exists>ns. mset ns = mset pending \<and> ordered_from (dom (ex_outcomes st)) ns \<and>
     core_of (graph_loop x par st pending) = foldM (exec_node x) (core st) ns"
proof (induction "length pending" arbitrary: st pending rule: less_induct)
  case less
  show ?case
  proof (cases pending)
    case Nil
    then show ?thesis by (simp add: graph_loop.simps)
  next
    case (Cons n tail)
    let ?K = "dom (ex_outcomes st)" and ?free = "\<lambda>n. \<forall>d \<in> set (cn_deps n). ex_outcomes st d \<noteq> None"
    define ready where "ready = filter ?free pending"
    define waiting where "waiting = filter (\<lambda>n. \<not> ?free n) pending"
    have first: "?free n" using less.prems Cons by auto
    then have some: "ready \<noteq> []" "length waiting < length pending" by (auto simp: ready_def waiting_def Cons less_Suc_eq_le)
    have left: "filter (\<lambda>n. n \<notin> set ready) pending = waiting" unfolding ready_def waiting_def by (rule filter_cong) auto
    have parts: "mset ready + mset waiting = mset pending" unfolding ready_def waiting_def by (simp only: mset_filter multiset_partition [symmetric])
    have ord: "ordered_from ?K ready" "ordered_from (?K \<union> cn_id ` set ready) waiting"
      using ordered_partition [OF less.prems, of ?free] unfolding ready_def waiting_def ordered_from_append by auto
    have free: "\<forall>m \<in> set ready. set (cn_deps m) \<subseteq> ?K" by (auto simp: ready_def)
    note batch = run_batch_exec [OF ord(1) free, of x par]
    have loop: "graph_loop x par st pending = rbind (run_batch x par st ready) (\<lambda>st'. graph_loop x par st' waiting)"
      using some(1) Cons unfolding graph_loop.simps [of x par st pending] Let_def ready_def [symmetric] left by simp
    show ?thesis
    proof (cases "run_batch x par st ready")
      case (Inl e)
      then have "foldM (exec_node x) (core st) ready = Inl e" using batch by simp
      then have "core_of (graph_loop x par st pending) = foldM (exec_node x) (core st) (ready @ waiting)"
        unfolding loop foldM_append Inl by simp
      then show ?thesis using parts ord by (intro exI [of _ "ready @ waiting"]) (simp add: ordered_from_append)
    next
      case (Inr st')
      have c: "foldM (exec_node x) (core st) ready = Inr (core st')" using batch Inr by simp
      have dom: "dom (ex_outcomes st') = ?K \<union> cn_id ` set ready" using exec_nodes_dom [OF c] by (simp add: core_def)
      obtain ms where ms: "mset ms = mset waiting" "ordered_from (?K \<union> cn_id ` set ready) ms"
          "core_of (graph_loop x par st' waiting) = foldM (exec_node x) (core st') ms"
        using less.hyps [OF some(2), of st'] ord(2) dom by auto
      then have "core_of (graph_loop x par st pending) = foldM (exec_node x) (core st) (ready @ ms)"
        unfolding loop Inr rbind_simps foldM_append c by simp
      then show ?thesis using parts ord(1) ms by (intro exI [of _ "ready @ ms"]) (simp add: ordered_from_append)
    qed
  qed
qed

section \<open>Progress\<close>

text \<open>A node that streams from nothing: \<open>dependencies[-1]\<close> of an empty tuple.\<close>

definition unfed :: "command_node \<Rightarrow> bool" where
  "unfed n \<longleftrightarrow> cn_mode n = ''stream'' \<and> cn_deps n = []"

lemma exec_node_result:
  assumes "set (cn_deps n) \<subseteq> dom (fst c)"
  shows "case exec_node x c n of Inr _ \<Rightarrow> \<not> unfed n | Inl e \<Rightarrow> (e = IndexError \<and> unfed n) \<or> (\<exists>b s. xr_run x n b s = Inl e)"
proof -
  obtain outs streams stage where c: "c = (outs, streams, stage)" by (cases c) auto
  have args: "mapM (mget outs) (cn_deps n) = Inr (map (\<lambda>d. the (outs d)) (cn_deps n))"
    using known_deps [OF map_le_refl, of n outs] assms by (simp add: c)
  show ?thesis
  proof (cases "held outs n \<or> unfed n")
    case True
    then show ?thesis by (auto simp: c exec_node_def args held_def unfed_def blocked_def stream_input_def)
  next
    case False
    then have "\<exists>b. stream_input streams n = Inr b" by (auto simp: stream_input_def unfed_def)
    then obtain b where "stream_input streams n = Inr b" by blast
    then show ?thesis using False by (cases "xr_run x n b stage") (auto simp: c exec_node_def args held_def)
  qed
qed

lemma exec_nodes_result:
  "ordered_from (dom (fst c)) ns \<Longrightarrow> case foldM (exec_node x) c ns of Inr _ \<Rightarrow> \<forall>n \<in> set ns. \<not> unfed n
     | Inl e \<Rightarrow> (e = IndexError \<and> (\<exists>n \<in> set ns. unfed n)) \<or> (\<exists>n \<in> set ns. \<exists>b s. xr_run x n b s = Inl e)"
proof (induction ns arbitrary: c)
  case (Cons n ns)
  have one: "case exec_node x c n of Inr _ \<Rightarrow> \<not> unfed n | Inl e \<Rightarrow> (e = IndexError \<and> unfed n) \<or> (\<exists>b s. xr_run x n b s = Inl e)"
    using Cons.prems by (intro exec_node_result) simp
  show ?case
  proof (cases "exec_node x c n")
    case (Inl e)
    then show ?thesis using one by auto
  next
    case (Inr c')
    then have "ordered_from (dom (fst c')) ns" using Cons.prems by (simp add: exec_node_dom)
    then show ?thesis using Cons.IH [of c'] one Inr by (cases "foldM (exec_node x) c' ns") auto
  qed
qed simp

text \<open>From the end of a loop to the end of the execution.\<close>

lemma conclude_total:
  assumes "dom (ex_outcomes st) = cn_id ` set (cp_nodes p)"
  shows "conclude x p initial st = Inr (finish x p initial (ex_stage st) (map (\<lambda>n. the (ex_outcomes st (cn_id n))) (cp_nodes p)) (ex_streams st) (max 1 (ex_maximum st)))"
proof -
  have "mapM (\<lambda>n. mget (ex_outcomes st) (cn_id n)) (cp_nodes p) = Inr (map (\<lambda>n. the (ex_outcomes st (cn_id n))) (cp_nodes p))"
    using assms by (intro mapM_eq_map) (auto simp: mget_def dom_def set_eq_iff split: option.splits)
  then show ?thesis by (simp add: conclude_def)
qed

text \<open>Both executions are the nodes one by one, in program order or in some other admissible order.\<close>

lemma core_start [simp]: "core (start_state stage m) = (Map.empty, Map.empty, stage)" "dom (ex_outcomes (start_state stage m)) = {}"
  by (simp_all add: core_def start_state_def)

lemma direct_order:
  assumes "validate_program jsha p = Inr ()"
  shows "core_of (direct_loop x (ep_parallel (cp_policy p)) (start_state stage 1) (cp_nodes p)) =
    foldM (exec_node x) (Map.empty, Map.empty, stage) (cp_nodes p)"
  using direct_loop_exec [of "start_state stage 1"] validated_ordered [OF assms] by simp

lemma graph_order:
  assumes "validate_program jsha p = Inr ()"
  shows "\<exists>ns. mset ns = mset (cp_nodes p) \<and> ordered_from {} ns \<and>
    core_of (graph_loop x (ep_parallel (cp_policy p)) (start_state stage 0) (cp_nodes p)) = foldM (exec_node x) (Map.empty, Map.empty, stage) ns"
  using graph_loop_exec [of "start_state stage 0"] validated_ordered [OF assms] by simp

definition ended_well :: "'s executor \<Rightarrow> command_program \<Rightarrow> execution_outcome res \<Rightarrow> bool" where
  "ended_well x p r \<longleftrightarrow> (case r of
     Inr e \<Rightarrow> length (eo_nodes e) = length (cp_nodes p) \<and> (\<forall>n \<in> set (cp_nodes p). \<not> unfed n)
   | Inl err \<Rightarrow> (err = IndexError \<and> (\<exists>n \<in> set (cp_nodes p). unfed n)) \<or> (\<exists>n \<in> set (cp_nodes p). \<exists>b s. xr_run x n b s = Inl err))"

lemma ended_well_loop:
  assumes "mset ns = mset (cp_nodes p)" "ordered_from {} ns" "core_of m = foldM (exec_node x) (Map.empty, Map.empty, stage) ns"
  shows "ended_well x p (rbind m (conclude x p initial))"
proof -
  have nodes: "set ns = set (cp_nodes p)" using assms(1) by (rule mset_eq_setD)
  note result = exec_nodes_result [of "(Map.empty, Map.empty, stage)" ns x, folded assms(3)]
  show ?thesis
  proof (cases m)
    case (Inl e)
    then show ?thesis using result assms(2) nodes by (simp add: ended_well_def)
  next
    case (Inr st)
    then have "dom (ex_outcomes st) = cn_id ` set (cp_nodes p)"
      using exec_nodes_dom [of x "(Map.empty, Map.empty, stage)" ns "core st"] assms(3) nodes by (simp add: core_def)
    then show ?thesis using Inr result assms(2) nodes
      by (simp add: ended_well_def conclude_total) (simp add: finish_def Let_def split: prod.splits)
  qed
qed

text \<open>
  C7. Both executors finish every validated program, whatever its nodes do to the stage. Each
  returns, with one outcome per node, or raises; an exception is either the one a run of some
  node raised or the \<open>IndexError\<close> of a node that streams from nothing, which validation admits
  and which makes both raise. In particular no outcome is looked up before it is known and the
  graph executor never reports a lack of progress.
\<close>

theorem executors_finish:
  assumes "validate_program jsha p = Inr ()"
  shows "ended_well x p (direct_execute x p stage initial) \<and> ended_well x p (graph_execute x p stage initial)"
proof
  show "ended_well x p (direct_execute x p stage initial)"
    unfolding direct_execute_def using validated_ordered [OF assms] direct_order [OF assms] by (intro ended_well_loop) auto
  obtain ns where "mset ns = mset (cp_nodes p)" "ordered_from {} ns"
      "core_of (graph_loop x (ep_parallel (cp_policy p)) (start_state stage 0) (cp_nodes p)) = foldM (exec_node x) (Map.empty, Map.empty, stage) ns"
    using graph_order [OF assms, of x stage] by (elim exE conjE)
  then show "ended_well x p (graph_execute x p stage initial)" unfolding graph_execute_def by (intro ended_well_loop) auto
qed

text \<open>The compiler gives every streaming node a dependency, so only a program from elsewhere can have such a node.\<close>

lemma emit_fed:
  assumes "wired s" "\<forall>n \<in> set (cs_nodes s). \<not> unfed n" "emit_command registry cwd s = Inr s'"
  shows "\<forall>n \<in> set (cs_nodes s'). \<not> unfed n"
  using assms(3)
proof (cases rule: emit_command_elim)
  case (1 name args tool ps n)
  have "cn_mode n = node_mode (cs_operator s)" "cn_deps n = node_deps (cs_operator s) (cs_previous s)" using 1(3) by simp_all
  then have "\<not> unfed n" by (simp add: unfed_def node_mode_def node_deps_def)
  then show ?thesis using assms(2) 1(4) by simp
qed

theorem compiled_fed:
  assumes "compile_command jsha registry probe cwd policy source_text tokens = Inr p"
  shows "\<forall>n \<in> set (cp_nodes p). \<not> unfed n"
proof -
  have "build_program jsha registry probe cwd policy source_text tokens = Inr p" using assms by (simp add: compile_self_validation)
  then show ?thesis
  proof (cases rule: build_program_elim)
    case (1 s)
    let ?P = "\<lambda>s. wired s \<and> (\<forall>n \<in> set (cs_nodes s). \<not> unfed n)"
    have "?P s \<and> cs_nodes s \<noteq> []" using 1(1)
    proof (rule compile_tokens_invariant [where P = ?P and Q = "\<lambda>s. ?P s \<and> cs_nodes s \<noteq> []"])
      show "?P s \<Longrightarrow> emit_command registry cwd s = Inr s' \<Longrightarrow> ?P s' \<and> cs_nodes s' \<noteq> []" for s s' using emit_wired emit_fed by blast
      show "?P initial_command" using initial_wired by (simp add: initial_command_def)
    qed (auto simp: wired_def)
    then show ?thesis using 1(3) by simp
  qed
qed

section \<open>Examples\<close>

text \<open>An executor whose nodes echo their arguments and leave the stage alone.\<close>

definition echo_executor :: "unit executor" where
  "echo_executor = \<lparr>xr_run = (\<lambda>n b s. Inr (\<lparr>no_id = cn_id n, no_status = ''executed'', no_exit = 0, no_sha = [], no_stderr = []\<rparr>, concat (cn_argv n), s)),
     xr_digest = id, xr_survey = (\<lambda>_. ([], []))\<rparr>"

text \<open>A program of one node that streams from nothing.\<close>

definition unfed_program :: command_program where
  "unfed_program = demo_program\<lparr>cp_nodes := [(demo_node ''n1'' [])\<lparr>cn_mode := ''stream''\<rparr>]\<rparr>"

theorem executors_finish_witness:
  "validate_program (\<lambda>_. ''x'') unfed_program = Inr () \<and> direct_execute echo_executor unfed_program () [] = Inl IndexError \<and>
   graph_execute echo_executor unfed_program () [] = Inl IndexError"
proof -
  have v: "validate_program (\<lambda>_. ''x'') unfed_program = Inr ()" by code_simp
  have "\<exists>n \<in> set (cp_nodes unfed_program). unfed n" by code_simp
  moreover have "xr_run echo_executor n b s \<noteq> Inl e" for n b s e by (simp add: echo_executor_def)
  ultimately have "r = Inl IndexError" if "ended_well echo_executor unfed_program r" for r
    using that by (cases r) (auto simp: ended_well_def)
  then show ?thesis using executors_finish [OF v, of echo_executor "()" "[]"] v by blast
qed

text \<open>
  An executor on a stage of named texts: \<open>echo\<close> prints or writes its arguments, \<open>cp\<close> copies and
  \<open>cat\<close> prints a file; both fail when the file is missing.
\<close>

definition file_outcome :: "command_node \<Rightarrow> bool \<Rightarrow> node_outcome" where
  "file_outcome n ok = \<lparr>no_id = cn_id n, no_status = (if ok then ''executed'' else ''failed''), no_exit = (if ok then 0 else 1), no_sha = [],
     no_stderr = (if ok then [] else ''missing'')\<rparr>"

definition file_run :: "command_node \<Rightarrow> string \<Rightarrow> (string \<times> string) list \<Rightarrow> (node_outcome \<times> string \<times> (string \<times> string) list) res" where
  "file_run n b files =
     (if ti_name (cn_tool n) = ''echo'' then
        (case cn_stdout n of None \<Rightarrow> Inr (file_outcome n True, concat (cn_argv n), files) | Some f \<Rightarrow> Inr (file_outcome n True, [], (f, concat (cn_argv n)) # files))
      else (case map_of files (hd (cn_argv n)) of
         None \<Rightarrow> Inr (file_outcome n False, [], files)
       | Some c \<Rightarrow> if ti_name (cn_tool n) = ''cp'' then Inr (file_outcome n True, [], (last (cn_argv n), c) # files) else Inr (file_outcome n True, c, files)))"

definition file_executor :: "(string \<times> string) list executor" where
  "file_executor = \<lparr>xr_run = file_run, xr_digest = id, xr_survey = (\<lambda>files. (files, []))\<rparr>"

definition fan_tokens :: "string list" where
  "fan_tokens = [''echo'', ''hi'', ''>'', ''f'', '';'', ''cp'', ''f'', ''g'', ''|||'', ''cat'', ''g'']"

text \<open>
  C35. A fan-out after a sequence loses its order in the graph executor: \<open>echo hi > f ; cp f g |||
  cat g\<close> compiles and is admitted, the direct executor runs \<open>cat\<close> after \<open>cp\<close> and succeeds, the
  graph executor starts \<open>cat\<close>, which has no recorded dependency, in the first round, before \<open>g\<close>
  exists; with one worker the comparison always reports three differences.
\<close>

theorem fanout_after_sequence_differs:
  "\<exists>p. compile_command (\<lambda>_. ''x'') (resolve_tool demo_host) (\<lambda>_. Missing) [] demo_policy ''echo hi > f ; cp f g ||| cat g'' fan_tokens = Inr p \<and>
     compare_execute (\<lambda>_. ''x'') (executable demo_host) [] file_executor file_executor p [] [] = Inr (False, [''stdout'', ''stderr'', ''status''])"
proof -
  let ?c = "compile_command (\<lambda>_. ''x'') (resolve_tool demo_host) (\<lambda>_. Missing) [] demo_policy ''echo hi > f ; cp f g ||| cat g'' fan_tokens"
  have "(case ?c of Inl _ \<Rightarrow> False | Inr p \<Rightarrow>
      compare_execute (\<lambda>_. ''x'') (executable demo_host) [] file_executor file_executor p [] [] = Inr (False, [''stdout'', ''stderr'', ''status'']))" by code_simp
  then show ?thesis by (auto split: sum.splits)
qed

end
