(* ===== verification/Command_Order.thy ===== *)
theory Command_Order
  imports Command_Exec
begin

text \<open>
  When the order of the nodes does not matter. The stage is a map from places to contents; a
  node reads some places and writes others. Two nodes of which one has to wait for the other
  keep their order in both executors, and two nodes whose places are apart may be exchanged,
  so the two executors reach the same stage and outcomes, or both raise.
\<close>

section \<open>Runs that touch few places\<close>

definition near :: "'k set \<Rightarrow> ('k \<Rightarrow> 'v) \<Rightarrow> ('k \<Rightarrow> 'v) \<Rightarrow> bool" where
  "near K s t \<longleftrightarrow> (\<forall>k \<in> K. s k = t k)"

lemma near_simps [simp]: "near K s s" "near {} s t"
  by (simp_all add: near_def)

lemma nearD: "near K s t \<Longrightarrow> k \<in> K \<Longrightarrow> s k = t k"
  by (simp add: near_def)

lemma near_mono: "near K s t \<Longrightarrow> L \<subseteq> K \<Longrightarrow> near L s t"
  by (auto simp: near_def)

text \<open>
  A step on stages that satisfy \<open>ok\<close> keeps \<open>ok\<close> and all places outside \<open>W\<close>; whether it raises, its
  result and what it leaves in \<open>W\<close> depend on the places of \<open>R\<close> and \<open>W\<close> only.
\<close>

definition local_on :: "(('k \<Rightarrow> 'v) \<Rightarrow> bool) \<Rightarrow> 'k set \<Rightarrow> 'k set \<Rightarrow> (('k \<Rightarrow> 'v) \<Rightarrow> 'e + 'r \<times> ('k \<Rightarrow> 'v)) \<Rightarrow> bool" where
  "local_on ok R W f \<longleftrightarrow>
     (\<forall>s r s'. ok s \<longrightarrow> f s = Inr (r, s') \<longrightarrow> ok s' \<and> near (- W) s' s) \<and>
     (\<forall>s t. ok s \<longrightarrow> ok t \<longrightarrow> near (R \<union> W) s t \<longrightarrow> rel_sum (\<lambda>_ _. True) (\<lambda>p q. fst p = fst q \<and> near W (snd p) (snd q)) (f s) (f t))"

lemma local_keeps: "local_on ok R W f \<Longrightarrow> ok s \<Longrightarrow> f s = Inr (r, s') \<Longrightarrow> ok s' \<and> near (- W) s' s"
  unfolding local_on_def by blast

lemma local_depends:
  "local_on ok R W f \<Longrightarrow> ok s \<Longrightarrow> ok t \<Longrightarrow> near (R \<union> W) s t \<Longrightarrow>
     rel_sum (\<lambda>_ _. True) (\<lambda>p q. fst p = fst q \<and> near W (snd p) (snd q)) (f s) (f t)"
  unfolding local_on_def by blast

lemma local_repeats:
  assumes "local_on ok R W f" "ok s" "ok t" "near (R \<union> W) s t" "f s = Inr (r, s')"
  obtains t' where "f t = Inr (r, t')" "near W s' t'"
  using local_depends [OF assms(1-4)] assms(5) that by (cases "f t") auto

text \<open>Steps in sequence.\<close>

lemma local_bind:
  assumes f: "local_on ok R W f" and g: "\<And>r. local_on ok R W (g r)"
  shows "local_on ok R W (\<lambda>s. rbind (f s) (\<lambda>(r, s'). g r s'))"
  unfolding local_on_def
proof (intro conjI allI impI)
  fix s r s' assume ok: "ok s" and run: "rbind (f s) (\<lambda>(r, s'). g r s') = Inr (r, s')"
  obtain q u where u: "f s = Inr (q, u)" "g q u = Inr (r, s')" using run by (auto simp: res_simps split: prod.splits)
  have "ok u" "near (- W) u s" using local_keeps [OF f ok u(1)] by auto
  then have "ok s'" "near (- W) s' u" using local_keeps [OF g _ u(2)] by auto
  then show "ok s'" "near (- W) s' s" using \<open>near (- W) u s\<close> by (auto simp: near_def)
next
  fix s t assume ok: "ok s" "ok t" and st: "near (R \<union> W) s t"
  show "rel_sum (\<lambda>_ _. True) (\<lambda>p q. fst p = fst q \<and> near W (snd p) (snd q)) (rbind (f s) (\<lambda>(r, s'). g r s')) (rbind (f t) (\<lambda>(r, s'). g r s'))"
  proof (cases "f s")
    case (Inl e)
    then show ?thesis using local_depends [OF f ok st] by (cases "f t") auto
  next
    case (Inr p)
    then obtain q s' where q: "f s = Inr (q, s')" by (cases p) auto
    obtain t' where t': "f t = Inr (q, t')" "near W s' t'" by (rule local_repeats [OF f ok st q])
    have s: "ok s'" "near (- W) s' s" using local_keeps [OF f ok(1) q] by auto
    have t: "ok t'" "near (- W) t' t" using local_keeps [OF f ok(2) t'(1)] by auto
    have "near (R \<union> W) s' t'" using st s(2) t(2) t'(2) by (auto simp: near_def)
    then show ?thesis using local_depends [OF g s(1) t(1), of q] q t'(1) by simp
  qed
qed

lemma local_mono:
  assumes f: "local_on ok R W f" and "R \<subseteq> R' \<union> W'" "W \<subseteq> W'"
  shows "local_on ok R' W' f"
  unfolding local_on_def
proof (intro conjI allI impI)
  fix s r s' assume "ok s" "f s = Inr (r, s')"
  then show "ok s'" "near (- W') s' s" using local_keeps [OF f] assms(3) by (blast intro: near_mono)+
next
  fix s t assume ok: "ok s" "ok t" and st: "near (R' \<union> W') s t"
  have near: "near (R \<union> W) s t" using st by (rule near_mono) (use assms(2,3) in auto)
  show "rel_sum (\<lambda>_ _. True) (\<lambda>p q. fst p = fst q \<and> near W' (snd p) (snd q)) (f s) (f t)"
  proof (cases "f s")
    case (Inl e)
    then show ?thesis using local_depends [OF f ok near] by (cases "f t") auto
  next
    case (Inr p)
    then obtain q s' where q: "f s = Inr (q, s')" by (cases p) auto
    obtain t' where t': "f t = Inr (q, t')" "near W s' t'" by (rule local_repeats [OF f ok near q])
    have "s' k = t' k" if "k \<in> W'" for k
    proof (cases "k \<in> W")
      case True
      then show ?thesis using t'(2) by (rule nearD [rotated])
    next
      case False
      then have "s' k = s k" "t' k = t k" using local_keeps [OF f ok(1) q] local_keeps [OF f ok(2) t'(1)] by (auto simp: near_def)
      then show ?thesis using st that by (auto simp: near_def)
    qed
    then show ?thesis using q t'(1) by (simp add: near_def)
  qed
qed

text \<open>A step that only looks at the stage.\<close>

lemma local_read:
  assumes "\<And>s t. ok s \<Longrightarrow> ok t \<Longrightarrow> near (R \<union> W) s t \<Longrightarrow> f s = f t"
  shows "local_on ok R W (\<lambda>s. rbind (f s) (\<lambda>r. Inr (r, s)))"
  unfolding local_on_def
proof (intro conjI allI impI)
  fix s r s' assume ok: "ok s" and run: "rbind (f s) (\<lambda>r. Inr (r, s)) = Inr (r, s')"
  then show "ok s'" "near (- W) s' s" by (auto simp: res_simps)
next
  fix s t assume ok: "ok s" "ok t" and st: "near (R \<union> W) s t"
  have "near W s t" using st by (rule near_mono) auto
  then show "rel_sum (\<lambda>_ _. True) (\<lambda>p q. fst p = fst q \<and> near W (snd p) (snd q)) (rbind (f s) (\<lambda>r. Inr (r, s))) (rbind (f t) (\<lambda>r. Inr (r, t)))"
    using assms [OF ok st] by (cases "f t") auto
qed

text \<open>A step that writes one place when some places allow it.\<close>

lemma local_write:
  assumes "k \<in> W" "\<And>s t. ok s \<Longrightarrow> ok t \<Longrightarrow> near (R \<union> W) s t \<Longrightarrow> f s = f t" "\<And>s v. ok s \<Longrightarrow> f s = Inr v \<Longrightarrow> ok (s(k := v))"
  shows "local_on ok R W (\<lambda>s. rbind (f s) (\<lambda>v. Inr ((), s(k := v))))"
  unfolding local_on_def
proof (intro conjI allI impI)
  fix s r s' assume ok: "ok s" and run: "rbind (f s) (\<lambda>v. Inr ((), s(k := v))) = Inr (r, s')"
  then obtain v where v: "f s = Inr v" "s' = s(k := v)" by (auto simp: res_simps)
  then show "ok s'" using assms(3) [OF ok] by simp
  show "near (- W) s' s" using v(2) assms(1) by (auto simp: near_def)
next
  fix s t assume ok: "ok s" "ok t" and st: "near (R \<union> W) s t"
  have "near W (s(k := v)) (t(k := v))" for v using st by (auto simp: near_def)
  then show "rel_sum (\<lambda>_ _. True) (\<lambda>p q. fst p = fst q \<and> near W (snd p) (snd q)) (rbind (f s) (\<lambda>v. Inr ((), s(k := v)))) (rbind (f t) (\<lambda>v. Inr ((), t(k := v))))"
    using assms(2) [OF ok st] by (cases "f t") auto
qed

section \<open>Two nodes that do not interfere\<close>

definition node_step :: "('k \<Rightarrow> 'v) executor \<Rightarrow> command_node \<Rightarrow> string \<Rightarrow> ('k \<Rightarrow> 'v) \<Rightarrow> py_error + (node_outcome \<times> string) \<times> ('k \<Rightarrow> 'v)" where
  "node_step x n stdin s = rbind (xr_run x n stdin s) (\<lambda>(outcome, stdout, s'). Inr ((outcome, stdout), s'))"

definition local_node :: "(('k \<Rightarrow> 'v) \<Rightarrow> bool) \<Rightarrow> 'k set \<Rightarrow> 'k set \<Rightarrow> ('k \<Rightarrow> 'v) executor \<Rightarrow> command_node \<Rightarrow> bool" where
  "local_node ok R W x n \<longleftrightarrow> (\<forall>stdin. local_on ok R W (node_step x n stdin))"

text \<open>What one execution of a node adds: its outcome, its stream unless it is skipped, and its places.\<close>

definition adds :: "command_node \<Rightarrow> 'k set \<Rightarrow> ('k \<Rightarrow> 'v) store \<Rightarrow> node_outcome \<Rightarrow> string option \<Rightarrow> ('k \<Rightarrow> 'v) \<Rightarrow> ('k \<Rightarrow> 'v) store" where
  "adds n W c out piped u = (case c of (outs, streams, s) \<Rightarrow>
     (outs(cn_id n \<mapsto> out), (case piped of None \<Rightarrow> streams | Some b \<Rightarrow> streams(cn_id n \<mapsto> b)), (\<lambda>k. if k \<in> W then u k else s k)))"

definition agrees :: "command_node \<Rightarrow> 'k set \<Rightarrow> ('k \<Rightarrow> 'v) store \<Rightarrow> ('k \<Rightarrow> 'v) store \<Rightarrow> bool" where
  "agrees n K c c' \<longleftrightarrow> (\<forall>d \<in> set (cn_deps n). fst c d = fst c' d \<and> fst (snd c) d = fst (snd c') d) \<and> near K (snd (snd c)) (snd (snd c'))"

lemma near_outside: "near (- W) s' s \<Longrightarrow> (\<lambda>k. if k \<in> W then s' k else s k) = s'"
  by (auto simp: near_def fun_eq_iff)

lemma near_inside: "near W s' t' \<Longrightarrow> (\<lambda>k. if k \<in> W then s' k else s k) = (\<lambda>k. if k \<in> W then t' k else s k)"
  by (auto simp: near_def fun_eq_iff)

lemma exec_node_local:
  assumes l: "local_node ok R W x n" and ok: "ok (snd (snd c))" and run: "exec_node x c n = Inr c'"
  shows "\<exists>out piped u. c' = adds n W c out piped u \<and> ok (snd (snd c')) \<and>
    (\<forall>d. ok (snd (snd d)) \<longrightarrow> agrees n (R \<union> W) c d \<longrightarrow> exec_node x d n = Inr (adds n W d out piped u))"
proof -
  obtain outs streams s where c: "c = (outs, streams, s)" by (cases c) auto
  obtain deps where deps: "mapM (mget outs) (cn_deps n) = Inr deps" using run by (auto simp: c exec_node_def res_simps)
  have same: "mapM (mget (fst d)) (cn_deps n) = Inr deps \<and> stream_input (fst (snd d)) n = stream_input streams n" if "agrees n K c d" for d and K :: "'a set"
  proof
    have "mapM (mget (fst d)) (cn_deps n) = mapM (mget outs) (cn_deps n)" using that by (intro mapM_cong) (auto simp: agrees_def c mget_def)
    then show "mapM (mget (fst d)) (cn_deps n) = Inr deps" using deps by simp
    show "stream_input (fst (snd d)) n = stream_input streams n"
      using that last_in_set [of "cn_deps n"] by (cases "cn_deps n = []") (simp_all add: stream_input_def agrees_def c)
  qed
  show ?thesis
  proof (cases "blocked n deps")
    case True
    let ?out = "skipped_outcome (xr_digest x) (cn_id n)"
    have "exec_node x d n = Inr (adds n W d ?out None (snd (snd d)))" if "agrees n K c d" for d and K :: "'a set"
      using same [OF that] True by (cases d) (auto simp: exec_node_def adds_def)
    moreover have "adds n W d ?out None (snd (snd d)) = adds n W d ?out None s" if "agrees n (R \<union> W) c d" for d
      using that by (cases d) (auto simp: adds_def agrees_def c near_def fun_eq_iff)
    moreover have "c' = adds n W c ?out None s" using run deps True by (auto simp: c exec_node_def adds_def)
    ultimately show ?thesis using ok by (intro exI [of _ ?out] exI [of _ None] exI [of _ s]) (auto simp: c adds_def)
  next
    case False
    obtain stdin out piped s' where r: "stream_input streams n = Inr stdin" "xr_run x n stdin s = Inr (out, piped, s')"
        "c' = (outs(cn_id n \<mapsto> out), streams(cn_id n \<mapsto> piped), s')"
      using run deps False by (auto simp: c exec_node_def res_simps split: prod.splits)
    have loc: "local_on ok R W (node_step x n stdin)" using l by (simp add: local_node_def)
    have step: "node_step x n stdin s = Inr ((out, piped), s')" using r(2) by (simp add: node_step_def)
    have s: "ok s" using ok by (simp add: c)
    have keep: "ok s'" "near (- W) s' s" using local_keeps [OF loc s step] by auto
    have "exec_node x d n = Inr (adds n W d out (Some piped) s')" if d: "ok (snd (snd d))" "agrees n (R \<union> W) c d" for d
    proof -
      obtain outs' streams' t where dd: "d = (outs', streams', t)" by (cases d) auto
      have t: "ok t" "near (R \<union> W) s t" using d by (auto simp: dd agrees_def c)
      obtain t' where t': "node_step x n stdin t = Inr ((out, piped), t')" "near W s' t'" by (rule local_repeats [OF loc s t step])
      have "xr_run x n stdin t = Inr (out, piped, t')" using t'(1) by (auto simp: node_step_def res_simps split: prod.splits)
      moreover have "(\<lambda>k. if k \<in> W then s' k else t k) = t'"
        using local_keeps [OF loc t(1) t'(1)] t'(2) by (auto simp: near_def fun_eq_iff)
      ultimately show ?thesis using same [OF d(2)] r(1) False by (simp add: dd exec_node_def adds_def)
    qed
    moreover have "c' = adds n W c out (Some piped) s'" using r(3) near_outside [OF keep(2)] by (simp add: c adds_def)
    moreover have "ok (snd (snd c'))" using keep(1) r(3) by simp
    ultimately show ?thesis by (intro exI [of _ out] exI [of _ "Some piped"] exI [of _ s']) blast
  qed
qed

text \<open>Equal results, or two exceptions.\<close>

definition ends_alike :: "'e + 'a \<Rightarrow> 'e + 'a \<Rightarrow> bool" where
  "ends_alike m m' \<longleftrightarrow> m = m' \<or> isl m \<and> isl m'"

lemma ends_alike_refl [simp]: "ends_alike m m"
  by (simp add: ends_alike_def)

lemma ends_alike_sym: "ends_alike m m' \<Longrightarrow> ends_alike m' m"
  by (auto simp: ends_alike_def)

lemma ends_alike_trans: "ends_alike m m' \<Longrightarrow> ends_alike m' m'' \<Longrightarrow> ends_alike m m''"
  by (auto simp: ends_alike_def)

lemma ends_alike_rbind: "ends_alike m m' \<Longrightarrow> (\<And>y. m = Inr y \<Longrightarrow> ends_alike (f y) (g y)) \<Longrightarrow> ends_alike (rbind m f) (rbind m' g)"
  by (cases m; cases m') (auto simp: ends_alike_def)

definition independent :: "(command_node \<Rightarrow> 'k set) \<Rightarrow> (command_node \<Rightarrow> 'k set) \<Rightarrow> command_node \<Rightarrow> command_node \<Rightarrow> bool" where
  "independent R W n m \<longleftrightarrow> W n \<inter> (R m \<union> W m) = {} \<and> W m \<inter> (R n \<union> W n) = {}"

definition unrelated :: "command_node \<Rightarrow> command_node \<Rightarrow> bool" where
  "unrelated n m \<longleftrightarrow> cn_id n \<noteq> cn_id m \<and> cn_id n \<notin> set (cn_deps m) \<and> cn_id m \<notin> set (cn_deps n)"

lemma unrelated_sym: "unrelated n m \<Longrightarrow> unrelated m n" and independent_sym: "independent R W n m \<Longrightarrow> independent R W m n"
  by (auto simp: unrelated_def independent_def)

lemma adds_agrees:
  assumes "unrelated n m" "independent R W n m"
  shows "agrees m (R m \<union> W m) c (adds n (W n) c out piped u)"
  using assms by (cases c) (auto simp: agrees_def adds_def near_def unrelated_def independent_def split: option.splits)

lemma adds_commute:
  assumes "unrelated n m" "independent R W n m"
  shows "adds m (W m) (adds n (W n) c o1 p1 u1) o2 p2 u2 = adds n (W n) (adds m (W m) c o2 p2 u2) o1 p1 u1"
  using assms by (cases c) (auto simp: adds_def unrelated_def independent_def fun_eq_iff split: option.splits)

text \<open>If the first of two nodes raises in one order, so does the pair in the other order.\<close>

lemma exec_raises:
  assumes "local_node ok (R n) (W n) x n" "local_node ok (R m) (W m) x m" "unrelated n m" "independent R W n m"
    and ok: "ok (snd (snd c))" and raise: "isl (exec_node x c n)"
  shows "isl (rbind (exec_node x c m) (\<lambda>c'. exec_node x c' n))"
proof (cases "exec_node x c m")
  case (Inr c')
  obtain out piped u where a: "c' = adds m (W m) c out piped u" "ok (snd (snd c'))"
    using exec_node_local [OF assms(2) ok Inr] by blast
  have ag: "agrees n (R n \<union> W n) c' c"
    using adds_agrees [OF unrelated_sym [OF assms(3)] independent_sym [OF assms(4)], of c out piped u] by (auto simp: a(1) agrees_def near_def)
  show ?thesis
  proof (cases "exec_node x c' n")
    case run: (Inr d)
    then obtain o' p' u' where "exec_node x c n = Inr (adds n (W n) c o' p' u')"
      using exec_node_local [OF assms(1) a(2) run] ok ag by blast
    then show ?thesis using raise by simp
  qed (simp add: Inr)
qed simp

lemma exec_commute:
  assumes ln: "local_node ok (R n) (W n) x n" and lm: "local_node ok (R m) (W m) x m" and um: "unrelated n m" and am: "independent R W n m"
    and ok: "ok (snd (snd c))"
  shows "ends_alike (rbind (exec_node x c n) (\<lambda>c'. exec_node x c' m)) (rbind (exec_node x c m) (\<lambda>c'. exec_node x c' n))"
proof (cases "isl (exec_node x c n) \<or> isl (exec_node x c m)")
  case True
  then have "isl (rbind (exec_node x c n) (\<lambda>c'. exec_node x c' m)) \<and> isl (rbind (exec_node x c m) (\<lambda>c'. exec_node x c' n))"
    using exec_raises [OF ln lm um am ok] exec_raises [OF lm ln unrelated_sym [OF um] independent_sym [OF am] ok]
    by (cases "exec_node x c n"; cases "exec_node x c m") auto
  then show ?thesis by (simp add: ends_alike_def)
next
  case False
  then obtain cn cm where runs: "exec_node x c n = Inr cn" "exec_node x c m = Inr cm"
    by (cases "exec_node x c n"; cases "exec_node x c m") auto
  obtain o1 p1 u1 where n: "cn = adds n (W n) c o1 p1 u1" "ok (snd (snd cn))"
      "\<And>d. ok (snd (snd d)) \<Longrightarrow> agrees n (R n \<union> W n) c d \<Longrightarrow> exec_node x d n = Inr (adds n (W n) d o1 p1 u1)"
    using exec_node_local [OF ln ok runs(1)] by blast
  obtain o2 p2 u2 where m: "cm = adds m (W m) c o2 p2 u2" "ok (snd (snd cm))"
      "\<And>d. ok (snd (snd d)) \<Longrightarrow> agrees m (R m \<union> W m) c d \<Longrightarrow> exec_node x d m = Inr (adds m (W m) d o2 p2 u2)"
    using exec_node_local [OF lm ok runs(2)] by blast
  have "exec_node x cn m = Inr (adds m (W m) cn o2 p2 u2)" using n(2) adds_agrees [OF um am] by (intro m(3)) (simp_all add: n(1))
  moreover have "exec_node x cm n = Inr (adds n (W n) cm o1 p1 u1)"
    using m(2) adds_agrees [OF unrelated_sym [OF um] independent_sym [OF am]] by (intro n(3)) (simp_all add: m(1))
  ultimately show ?thesis using adds_commute [OF um am, of c o1 p1 u1 o2 p2 u2] by (simp add: runs n(1) m(1))
qed

section \<open>Many nodes\<close>

lemma exec_keeps: "local_node ok R W x n \<Longrightarrow> ok (snd (snd c)) \<Longrightarrow> exec_node x c n = Inr c' \<Longrightarrow> ok (snd (snd c'))"
  using exec_node_local by blast

lemma exec_first:
  assumes "\<forall>m \<in> set (n # ns). local_node ok (R m) (W m) x m" "\<forall>m \<in> set ns. unrelated n m \<and> independent R W n m" "ok (snd (snd c))"
  shows "ends_alike (foldM (exec_node x) c (ns @ n # ms)) (foldM (exec_node x) c (n # ns @ ms))"
  using assms
proof (induction ns arbitrary: c)
  case (Cons m ns)
  have "ends_alike (foldM (exec_node x) c ((m # ns) @ n # ms)) (rbind (exec_node x c m) (\<lambda>c'. foldM (exec_node x) c' (n # ns @ ms)))"
    unfolding append_Cons foldM.simps(2) [of _ _ m]
    by (rule ends_alike_rbind [OF ends_alike_refl], rule Cons.IH) (use Cons.prems exec_keeps [of ok "R m" "W m" x m c] in auto)
  also have "rbind (exec_node x c m) (\<lambda>c'. foldM (exec_node x) c' (n # ns @ ms)) =
      rbind (rbind (exec_node x c m) (\<lambda>c'. exec_node x c' n)) (\<lambda>c'. foldM (exec_node x) c' (ns @ ms))"
    by (simp add: rbind_assoc)
  finally have left: "ends_alike (foldM (exec_node x) c ((m # ns) @ n # ms))
      (rbind (rbind (exec_node x c m) (\<lambda>c'. exec_node x c' n)) (\<lambda>c'. foldM (exec_node x) c' (ns @ ms)))" .
  have "ends_alike (rbind (exec_node x c m) (\<lambda>c'. exec_node x c' n)) (rbind (exec_node x c n) (\<lambda>c'. exec_node x c' m))"
    by (rule ends_alike_sym, rule exec_commute [of ok R n W]) (use Cons.prems in auto)
  then have "ends_alike (rbind (rbind (exec_node x c m) (\<lambda>c'. exec_node x c' n)) (\<lambda>c'. foldM (exec_node x) c' (ns @ ms)))
      (rbind (rbind (exec_node x c n) (\<lambda>c'. exec_node x c' m)) (\<lambda>c'. foldM (exec_node x) c' (ns @ ms)))"
    by (rule ends_alike_rbind) simp
  then show ?case using ends_alike_trans [OF left] by (simp add: rbind_assoc)
qed simp

text \<open>Any two orders in which all interfering pairs stand alike.\<close>

lemma exec_permuted:
  assumes "mset ns = mset ms" "\<forall>n \<in> set ns. local_node ok (R n) (W n) x n" "ok (snd (snd c))" "sorted_wrt P ns" "sorted_wrt Q ms"
    and free: "\<And>n m. P n m \<Longrightarrow> Q m n \<Longrightarrow> unrelated n m \<and> independent R W n m"
  shows "ends_alike (foldM (exec_node x) c ns) (foldM (exec_node x) c ms)"
  using assms(1-5)
proof (induction ns arbitrary: ms c)
  case (Cons n ns)
  have "n \<in> set ms" using Cons.prems(1) by (metis list.set_intros(1) set_mset_mset)
  then obtain as bs where ms: "ms = as @ n # bs" by (meson split_list)
  have rest: "mset ns = mset (as @ bs)" using Cons.prems(1) by (simp add: ms)
  have loc: "\<forall>m \<in> set (n # as). local_node ok (R m) (W m) x m" using Cons.prems(2) mset_eq_setD [OF rest] by auto
  have "unrelated n m \<and> independent R W n m" if "m \<in> set as" for m
  proof (rule free)
    show "P n m" using Cons.prems(4) mset_eq_setD [OF rest] that by auto
    show "Q m n" using Cons.prems(5) that by (auto simp: ms sorted_wrt_append)
  qed
  then have move: "ends_alike (foldM (exec_node x) c ms) (foldM (exec_node x) c (n # as @ bs))"
    unfolding ms using exec_first [of n as ok R W x c bs] loc Cons.prems(3) by blast
  have "ends_alike (foldM (exec_node x) c (n # ns)) (foldM (exec_node x) c (n # as @ bs))"
    unfolding foldM.simps
  proof (rule ends_alike_rbind [OF ends_alike_refl], rule Cons.IH [OF rest])
    fix c' assume "exec_node x c n = Inr c'"
    then show "ok (snd (snd c'))" using exec_keeps [of ok "R n" "W n" x n c] Cons.prems(2,3) by auto
    show "sorted_wrt Q (as @ bs)" using Cons.prems(5) by (auto simp: ms sorted_wrt_append)
  qed (use Cons.prems in auto)
  then show ?case using ends_alike_trans ends_alike_sym [OF move] by blast
qed simp

section \<open>Waiting\<close>

text \<open>One node waits for another if it depends on it, directly or through other nodes.\<close>

definition awaits :: "command_node set \<Rightarrow> command_node \<Rightarrow> command_node \<Rightarrow> bool" where
  "awaits N = tranclp (\<lambda>m n. m \<in> N \<and> n \<in> N \<and> cn_id n \<in> set (cn_deps m))"

lemma ordered_awaits:
  assumes ord: "ordered_from {} (as @ m # bs)" and waits: "awaits (set (as @ m # bs)) m n"
  shows "n \<in> set as"
proof -
  let ?N = "set (as @ m # bs)"
  have inj: "inj_on cn_id ?N" using ordered_from_fresh [OF ord] by (simp only: distinct_map)
  have prior: "z \<in> set cs" if "as @ m # bs = cs @ y # ds" "z \<in> ?N" "cn_id z \<in> set (cn_deps y)" for y z cs ds
  proof -
    have "set (cn_deps y) \<subseteq> cn_id ` set cs" using ord unfolding that(1) ordered_from_append by simp
    then have "\<exists>w \<in> set cs. cn_id z = cn_id w" using that(3) by auto
    then obtain w where "w \<in> set cs" "cn_id z = cn_id w" by blast
    moreover have "set cs \<subseteq> ?N" unfolding that(1) by auto
    ultimately show ?thesis using inj that(2) by (metis inj_onD subsetD)
  qed
  from waits show ?thesis unfolding awaits_def
  proof (induction rule: tranclp_induct)
    case (base z)
    then show ?case using prior [of as m bs z] by simp
  next
    case (step y z)
    then obtain cs ds where "as = cs @ y # ds" by (meson split_list)
    then have "z \<in> set cs" using prior [of cs y "ds @ m # bs" z] step(2) by simp
    then show ?case using \<open>as = cs @ y # ds\<close> by simp
  qed
qed

lemma sorted_wrt_splits: "(\<And>as m bs. ns = as @ m # bs \<Longrightarrow> \<forall>n \<in> set bs. Q m n) \<Longrightarrow> sorted_wrt Q ns"
proof (induction ns)
  case (Cons n ns)
  have "sorted_wrt Q ns" by (rule Cons.IH) (metis Cons.prems append_Cons)
  then show ?case using Cons.prems [of "[]" n ns] by simp
qed simp

definition precedes :: "command_node set \<Rightarrow> command_node \<Rightarrow> command_node \<Rightarrow> bool" where
  "precedes N n m \<longleftrightarrow> \<not> awaits N n m \<and> cn_id m \<notin> set (cn_deps n) \<and> cn_id n \<noteq> cn_id m"

lemma ordered_precedes:
  assumes "ordered_from {} ns"
  shows "sorted_wrt (precedes (set ns)) ns"
proof (rule sorted_wrt_splits, intro ballI)
  fix as n bs m assume ns: "ns = as @ n # bs" and m: "m \<in> set bs"
  have dist: "distinct (map cn_id ns)" using ordered_from_fresh [OF assms] by simp
  have deps: "set (cn_deps n) \<subseteq> cn_id ` set as" using assms unfolding ns ordered_from_append by simp
  have "m \<notin> set as" "cn_id n \<noteq> cn_id m" "cn_id m \<notin> cn_id ` set as" using dist m unfolding ns by auto
  then show "precedes (set ns) n m" using ordered_awaits [of as n bs m] assms deps unfolding ns precedes_def by blast
qed

lemma sorted_wrt_both: "sorted_wrt P ns \<Longrightarrow> sorted_wrt Q ns \<Longrightarrow> sorted_wrt (\<lambda>n m. P n m \<and> Q n m) ns"
  by (induction ns) auto

section \<open>Agreement of the executors\<close>

lemma foldM_exec_cong:
  assumes "\<forall>n \<in> set ns. \<forall>b s. xr_run x n b s = xr_run x' n b s" "xr_digest x = xr_digest x'"
  shows "foldM (exec_node x) c ns = foldM (exec_node x') c ns"
proof (rule foldM_cong)
  show "exec_node x d n = exec_node x' d n" if "n \<in> set ns" for d n
  proof -
    have run: "xr_run x n = xr_run x' n" using assms(1) that by (intro ext) simp
    show ?thesis unfolding exec_node_def run assms(2) by (rule refl)
  qed
qed simp_all

lemma loops_alike:
  assumes v: "validate_program jsha p = Inr ()" and runs: "\<forall>n \<in> set (cp_nodes p). \<forall>b s. xr_run x n b s = xr_run x' n b s" "xr_digest x = xr_digest x'"
    and loc: "\<forall>n \<in> set (cp_nodes p). local_node ok (R n) (W n) x n" "ok stage"
    and sep: "sorted_wrt (\<lambda>n m. awaits (set (cp_nodes p)) m n \<or> independent R W n m) (cp_nodes p)"
  shows "ends_alike (core_of (direct_loop x (ep_parallel (cp_policy p)) (start_state stage 1) (cp_nodes p)))
    (core_of (graph_loop x' (ep_parallel (cp_policy p)) (start_state stage 0) (cp_nodes p)))"
proof -
  let ?ns = "cp_nodes p" and ?c = "(Map.empty, Map.empty, stage)"
  obtain ms where ms: "mset ms = mset ?ns" "ordered_from {} ms"
      "core_of (graph_loop x' (ep_parallel (cp_policy p)) (start_state stage 0) ?ns) = foldM (exec_node x') ?c ms"
    using graph_order [OF v, of x' stage] by (elim exE conjE)
  have sets: "set ms = set ?ns" using ms(1) by (rule mset_eq_setD)
  have "ends_alike (foldM (exec_node x) ?c ?ns) (foldM (exec_node x) ?c ms)"
  proof (rule exec_permuted [OF ms(1) [symmetric] loc(1), where Q = "precedes (set ?ns)"])
    show "sorted_wrt (\<lambda>n m. (awaits (set ?ns) m n \<or> independent R W n m) \<and> precedes (set ?ns) n m) ?ns"
      using sep ordered_precedes [OF validated_ordered [OF v]] by (rule sorted_wrt_both)
    show "sorted_wrt (precedes (set ?ns)) ms" using ordered_precedes [OF ms(2)] sets by simp
  qed (use loc(2) in \<open>auto simp: precedes_def unrelated_def\<close>)
  moreover have "foldM (exec_node x) ?c ms = foldM (exec_node x') ?c ms" using runs sets by (intro foldM_exec_cong) auto
  ultimately show ?thesis using direct_order [OF v, of x stage] ms(3) by simp
qed

lemma executors_same:
  assumes v: "validate_program jsha p = Inr ()" and runs: "\<forall>n \<in> set (cp_nodes p). \<forall>b s. xr_run x n b s = xr_run x' n b s" "xr_digest x = xr_digest x'"
      "xr_survey x = xr_survey x'"
    and loc: "\<forall>n \<in> set (cp_nodes p). local_node ok (R n) (W n) x n" "ok stage"
    and sep: "sorted_wrt (\<lambda>n m. awaits (set (cp_nodes p)) m n \<or> independent R W n m) (cp_nodes p)"
  shows "(\<exists>d g. direct_execute x p stage initial = Inr d \<and> graph_execute x' p stage initial = Inr g \<and> differences d g = [] \<and> eo_nodes d = eo_nodes g) \<or>
    (isl (direct_execute x p stage initial) \<and> isl (graph_execute x' p stage initial))"
proof -
  let ?d = "direct_loop x (ep_parallel (cp_policy p)) (start_state stage 1) (cp_nodes p)"
  let ?g = "graph_loop x' (ep_parallel (cp_policy p)) (start_state stage 0) (cp_nodes p)"
  note loops = loops_alike [OF v runs(1,2) loc sep]
  show ?thesis
  proof (cases ?d)
    case (Inl e)
    then have "isl ?g" using loops by (cases ?g) (auto simp: ends_alike_def)
    then show ?thesis using Inl by (auto simp: direct_execute_def graph_execute_def isl_def)
  next
    case (Inr sd)
    then obtain sg where sg: "?g = Inr sg" "core sd = core sg" using loops by (cases ?g) (auto simp: ends_alike_def)
    have dom: "dom (ex_outcomes sd) = cn_id ` set (cp_nodes p)"
      using exec_nodes_dom [of x "(Map.empty, Map.empty, stage)" "cp_nodes p" "core sd"] direct_order [OF v, of x stage] Inr by (simp add: core_def)
    have same: "ex_outcomes sg = ex_outcomes sd" "ex_streams sg = ex_streams sd" "ex_stage sg = ex_stage sd" using sg(2) by (simp_all add: core_def)
    then show ?thesis using Inr sg(1) dom runs(3)
      by (auto simp: direct_execute_def graph_execute_def conclude_total finish_def differences_def Let_def split: prod.splits)
  qed
qed

end
