(* ===== verification/Command_Node.thy ===== *)
theory Command_Node
  imports Command_Order
begin

text \<open>
  \<open>raveil/command_graph.py\<close>, fifth part: \<open>_stage_path\<close> and \<open>_run_node\<close>, one node in a staged copy of
  the workspace. The stage is a map from the components of a path to a directory or a file;
  its root directory is always there. The subprocess is an argument: it gets the command line, the
  working directory, the environment and the limits the code passes to \<open>Popen\<close>, and returns the
  exit status and the captured bytes, or the expiry of the timeout, with the stage it leaves.
  The UTF-8 codec, SHA-256 and the walk over the stage are arguments too. Text is a list of code
  points below 256, bytes are a list of the same type.
\<close>

section \<open>The stage\<close>

datatype entry = Directory | Regular_File string

type_synonym stage = "string list \<rightharpoonup> entry"

definition stage_path :: "string \<Rightarrow> string list res" where
  "stage_path v =
     rbind (reject (take 1 v \<noteq> ''/'' \<or> ''..'' \<in> set (raw_parts v)) (ValueError ''invalid staged virtual path'')) (\<lambda>_.
     Inr (raw_parts v))"

definition host_path :: "string \<Rightarrow> string list \<Rightarrow> string" where
  "host_path root parts = root @ concat (map (\<lambda>c. CHR ''/'' # c) parts)"

definition path_exists :: "stage \<Rightarrow> string list \<Rightarrow> bool" where
  "path_exists s parts \<longleftrightarrow> parts = [] \<or> s parts \<noteq> None"

definition read_bytes :: "stage \<Rightarrow> string list \<Rightarrow> string res" where
  "read_bytes s parts = (case s parts of Some (Regular_File b) \<Rightarrow> Inr b | _ \<Rightarrow> Inl OSError)"

text \<open>\<open>output_path.parent.mkdir(parents=True, exist_ok=True)\<close>, from the outermost directory inwards.\<close>

definition ancestors :: "string list \<Rightarrow> string list list" where
  "ancestors parts = map (\<lambda>k. take k parts) [1..<length parts]"

definition make_directory :: "stage \<Rightarrow> string list \<Rightarrow> stage res" where
  "make_directory s parts = (case s parts of
     None \<Rightarrow> Inr (s(parts \<mapsto> Directory))
   | Some Directory \<Rightarrow> Inr s
   | Some (Regular_File _) \<Rightarrow> Inl OSError)"

definition write_bytes :: "stage \<Rightarrow> string list \<Rightarrow> string \<Rightarrow> stage res" where
  "write_bytes s parts b =
     (if parts \<noteq> [] \<and> s parts \<noteq> Some Directory \<and> (butlast parts = [] \<or> s (butlast parts) = Some Directory)
      then Inr (s(parts \<mapsto> Regular_File b)) else Inl OSError)"

section \<open>Tools\<close>

record launch =
  la_exe :: "string \<times> string"
  la_argv :: "string list"
  la_cwd :: string
  la_env :: "(string \<times> string) list"
  la_fsize :: int
  la_timeout :: int

datatype ended = Expired | Exited int string string

record tools =
  tl_executable :: "tool_identity \<Rightarrow> (string \<times> string) res"
  tl_process :: "launch \<Rightarrow> string \<Rightarrow> stage \<Rightarrow> py_error + ended \<times> stage"
  tl_decode :: "string \<Rightarrow> string"
  tl_strict :: "string \<Rightarrow> string res"
  tl_encode :: "string \<Rightarrow> string"
  tl_digest :: "string \<Rightarrow> string"
  tl_survey :: "stage \<Rightarrow> (string \<times> string) list \<times> string list"

definition node_env :: "string \<Rightarrow> (string \<times> string) list" where
  "node_env root = CONTROLLED_ENV @ [(''HOME'', root), (''TMPDIR'', root)]"

text \<open>The command line: every path argument becomes the path of the staged copy.\<close>

definition staged_argv :: "string \<Rightarrow> command_node \<Rightarrow> string list res" where
  "staged_argv root n =
     rbind (foldM (\<lambda>argv i. rbind (py_nth argv i) (\<lambda>a. rbind (stage_path a) (\<lambda>parts. py_set argv i (host_path root parts)))) (cn_argv n) (cn_paths n)) (\<lambda>argv.
     Inr (if ti_adapter (cn_tool n) = ''shasum-a-256'' then [''-a'', ''256''] @ argv else argv))"

definition node_launch :: "tools \<Rightarrow> execution_policy \<Rightarrow> string \<Rightarrow> command_node \<Rightarrow> launch res" where
  "node_launch kit policy root n =
     rbind (tl_executable kit (cn_tool n)) (\<lambda>exe.
     rbind (staged_argv root n) (\<lambda>argv.
     Inr \<lparr>la_exe = exe, la_argv = argv, la_cwd = root, la_env = node_env root, la_fsize = ep_capture policy, la_timeout = ep_timeout policy\<rparr>))"

section \<open>Captured output\<close>

text \<open>\<open>text[:k]\<close> and \<open>file.read(k)\<close> for a count that is not negative.\<close>

definition prefix_of :: "int \<Rightarrow> string \<Rightarrow> string" where
  "prefix_of k s = (if int (length s) \<le> k then s else take (nat k) s)"

definition captured :: "execution_policy \<Rightarrow> ended \<Rightarrow> (string \<times> int \<times> string \<times> string) res" where
  "captured policy e = (case e of
     Expired \<Rightarrow> Inr (''timeout'', 124, [], ''timeout'')
   | Exited code out err \<Rightarrow>
       (let limit = ep_capture policy + 1; stdout = prefix_of limit out; stderr = prefix_of limit err
        in rbind (reject (int (length stdout) > ep_capture policy \<or> int (length stderr) > ep_capture policy) (ValueError ''tool output exceeds bounds'')) (\<lambda>_.
           Inr (if code = 0 then ''executed'' else ''failed'', code, stdout, stderr))))"

text \<open>\<open>str.splitlines\<close>, \<open>str.split\<close>, \<open>bytes.split\<close> and \<open>int\<close> on such text.\<close>

definition breaks_line :: "char \<Rightarrow> bool" where
  "breaks_line c \<longleftrightarrow> of_char c \<in> {10, 11, 12, 13, 28, 29, 30, 133 :: nat}"

definition text_space :: "char \<Rightarrow> bool" where
  "text_space c \<longleftrightarrow> of_char c \<in> {9, 10, 11, 12, 13, 28, 29, 30, 31, 32, 133, 160 :: nat}"

definition byte_space :: "char \<Rightarrow> bool" where
  "byte_space c \<longleftrightarrow> of_char c \<in> {9, 10, 11, 12, 13, 32 :: nat}"

fun after_break :: "string \<Rightarrow> string" where
  "after_break [] = []"
| "after_break (c # cs) = (if c = CHR 0x0D \<and> take 1 cs = [CHR 0x0A] then tl cs else cs)"

lemma after_break_shorter: "length (after_break s) \<le> length s - 1"
  by (cases s) auto

function splitlines :: "string \<Rightarrow> string list" where
  "splitlines s = (if s = [] then [] else takeWhile (\<lambda>c. \<not> breaks_line c) s # splitlines (after_break (dropWhile (\<lambda>c. \<not> breaks_line c) s)))"
  by pat_completeness auto
termination
proof (relation "measure length", goal_cases)
  case (2 s)
  then have "0 < length s" by simp
  then have "length (after_break (dropWhile (\<lambda>c. \<not> breaks_line c) s)) < length s"
    using after_break_shorter [of "dropWhile (\<lambda>c. \<not> breaks_line c) s"] length_dropWhile_le [of "\<lambda>c. \<not> breaks_line c" s] by linarith
  then show ?case by simp
qed simp

declare splitlines.simps [simp del]

function split_words :: "(char \<Rightarrow> bool) \<Rightarrow> string \<Rightarrow> string list" where
  "split_words space s =
     (let t = dropWhile space s
      in if t = [] then [] else takeWhile (\<lambda>c. \<not> space c) t # split_words space (dropWhile (\<lambda>c. \<not> space c) t))"
  by pat_completeness auto
termination
proof (relation "measure (length \<circ> snd)", goal_cases)
  case (2 space s t)
  then have "t \<noteq> []" "\<not> space (hd t)" using hd_dropWhile [of space s] by auto
  then have "dropWhile (\<lambda>c. \<not> space c) t = dropWhile (\<lambda>c. \<not> space c) (tl t)" by (cases t) auto
  moreover have "length t \<le> length s" unfolding 2(1) by (rule length_dropWhile_le)
  ultimately show ?case using \<open>t \<noteq> []\<close> length_dropWhile_le [of "\<lambda>c. \<not> space c" "tl t"] by (cases t) auto
qed simp

declare split_words.simps [simp del]

fun split_underscores :: "string \<Rightarrow> string list" where
  "split_underscores [] = [[]]"
| "split_underscores (c # cs) = (if c = CHR ''_'' then [] # split_underscores cs
     else (case split_underscores cs of [] \<Rightarrow> [[c]] | w # ws \<Rightarrow> (c # w) # ws))"

definition decimal :: "string \<Rightarrow> nat res" where
  "decimal s =
     (let groups = split_underscores s
      in if list_all (\<lambda>w. w \<noteq> [] \<and> list_all (\<lambda>c. CHR ''0'' \<le> c \<and> c \<le> CHR ''9'') w) groups \<and> length (concat groups) \<le> 4300
         then Inr (nat_str (concat groups)) else Inl (ValueError ''invalid literal for int()''))"

definition parse_int :: "string \<Rightarrow> int res" where
  "parse_int s =
     (if take 1 s = ''-'' then rbind (decimal (tl s)) (\<lambda>k. Inr (- int k))
      else rbind (decimal (if take 1 s = ''+'' then tl s else s)) (\<lambda>k. Inr (int k)))"

definition str_int :: "int \<Rightarrow> string" where
  "str_int i = (if i < 0 then CHR ''-'' # str_nat (nat (- i)) else str_nat (nat i))"

definition strip :: "string \<Rightarrow> string" where
  "strip s = rev (dropWhile text_space (rev (dropWhile text_space s)))"

text \<open>\<open>count, value = line.strip().split(maxsplit=1)\<close>\<close>

definition count_line :: "string \<Rightarrow> string res" where
  "count_line line =
     (let s = strip line; word = takeWhile (\<lambda>c. \<not> text_space c) s; rest = dropWhile text_space (drop (length word) s)
      in rbind (reject (word = [] \<or> rest = []) (ValueError ''not enough values to unpack'')) (\<lambda>_.
         rbind (parse_int word) (\<lambda>i. Inr (str_int i @ '' '' @ rest @ [CHR 0x0A]))))"

definition joined :: "string list \<Rightarrow> string" where
  "joined ws = (case ws of [] \<Rightarrow> [] | w # ws \<Rightarrow> w @ concat (map (\<lambda>v. CHR '' '' # v) ws))"

definition tidied :: "tools \<Rightarrow> command_node \<Rightarrow> int \<Rightarrow> string \<Rightarrow> string res" where
  "tidied kit n code out =
     (if out = [] then Inr out
      else if ti_name (cn_tool n) = ''sha256sum'' then
        Inr (tl_encode kit (concat (map (\<lambda>line. (case split_words text_space line of [] \<Rightarrow> [] | w # _ \<Rightarrow> w) @ [CHR 0x0A]) (splitlines (tl_decode kit out)))))
      else if ti_name (cn_tool n) = ''wc'' \<and> code = 0 then
        Inr (joined (split_words byte_space out) @ [CHR 0x0A])
      else if ti_name (cn_tool n) = ''uniq'' \<and> ''-c'' \<in> set (cn_argv n) \<and> code = 0 then
        rbind (tl_strict kit out) (\<lambda>t. rbind (mapM count_line (splitlines t)) (\<lambda>lines. Inr (tl_encode kit (concat lines))))
      else Inr out)"

text \<open>\<open>text.replace(old, new)\<close> for a text \<open>old\<close> that is not empty.\<close>

function replace_all :: "string \<Rightarrow> string \<Rightarrow> string \<Rightarrow> string" where
  "replace_all old new s =
     (if s = [] then []
      else if old \<noteq> [] \<and> take (length old) s = old then new @ replace_all old new (drop (length old) s)
      else hd s # replace_all old new (tl s))"
  by pat_completeness auto
termination
  by (relation "measure (\<lambda>(old, new, s). length s)") auto

declare replace_all.simps [simp del]

section \<open>One node\<close>

text \<open>The standard input: the stream of a dependency, unless the node reads a file.\<close>

definition node_stdin :: "command_node \<Rightarrow> string \<Rightarrow> stage \<Rightarrow> string res" where
  "node_stdin n stdin s = (case cn_stdin n of None \<Rightarrow> Inr stdin | Some v \<Rightarrow> rbind (stage_path v) (read_bytes s))"

definition prepare_output :: "command_node \<Rightarrow> stage \<Rightarrow> stage res" where
  "prepare_output n s = (case cn_stdout n of
     None \<Rightarrow> Inr s
   | Some v \<Rightarrow> rbind (stage_path v) (\<lambda>parts.
       rbind (reject (path_exists s parts) (ValueError ''output collision'')) (\<lambda>_.
       foldM make_directory s (ancestors parts))))"

definition store_output :: "command_node \<Rightarrow> string \<Rightarrow> string \<Rightarrow> stage \<Rightarrow> (string \<times> stage) res" where
  "store_output n status out s = (case cn_stdout n of
     None \<Rightarrow> Inr (out, s)
   | Some v \<Rightarrow> if status = ''executed'' then rbind (stage_path v) (\<lambda>parts. rbind (write_bytes s parts out) (\<lambda>s'. Inr ([], s'))) else Inr (out, s))"

definition run_node :: "tools \<Rightarrow> execution_policy \<Rightarrow> string \<Rightarrow> command_node \<Rightarrow> string \<Rightarrow> stage \<Rightarrow> (node_outcome \<times> string \<times> stage) res" where
  "run_node kit policy root n stdin s =
     rbind (node_launch kit policy root n) (\<lambda>l.
     rbind (node_stdin n stdin s) (\<lambda>stdin.
     rbind (prepare_output n s) (\<lambda>s.
     rbind (tl_process kit l stdin s) (\<lambda>(e, s).
     rbind (captured policy e) (\<lambda>(status, code, out, err).
     rbind (tidied kit n code out) (\<lambda>out.
     rbind (store_output n status out s) (\<lambda>(out, s).
     Inr (\<lparr>no_id = cn_id n, no_status = status, no_exit = code, no_sha = tl_digest kit out,
            no_stderr = prefix_of 65536 (replace_all root ''/'' (tl_decode kit err))\<rparr>, out, s))))))))"

definition staged :: "tools \<Rightarrow> execution_policy \<Rightarrow> string \<Rightarrow> stage executor" where
  "staged kit policy root = \<lparr>xr_run = run_node kit policy root, xr_digest = tl_digest kit, xr_survey = tl_survey kit\<rparr>"

section \<open>Places of a node\<close>
















section \<open>Agreement of the executors on staged workspaces\<close>


section \<open>Examples\<close>













definition pwd_host :: tool_host where
  "pwd_host = demo_host\<lparr>th_installed := (\<lambda>d c. d = ''/bin'' \<and> c = ''pwd'')\<rparr>"

definition pwd_policy :: execution_policy where
  "pwd_policy = demo_policy\<lparr>ep_capture := MAX_CAPTURE_BYTES\<rparr>"

definition pwd_compiled :: "command_program res" where
  "pwd_compiled = compile_command (\<lambda>_. ''x'') (resolve_tool pwd_host) (\<lambda>_. Missing) [] pwd_policy ''pwd'' [''pwd'']"

text \<open>
  A tool may show the directory of its stage, and standard output is compared as it is: \<open>pwd\<close>
  compiles and is admitted, but when \<open>pwd\<close> prints its working directory the two stages give two
  outputs, the comparison reports a difference and nothing is ever published.
\<close>

theorem pwd_never_agrees:
  assumes exe: "tl_executable kit = executable pwd_host"
    and run: "\<forall>l stdin s. snd (la_exe l) = ''pwd'' \<longrightarrow> tl_process kit l stdin s = Inr (Exited 0 (la_cwd l @ [CHR 0x0A]) [], s)"
    and survey: "tl_survey kit stage = (initial, [])" "distinct (map fst initial)"
    and roots: "root \<noteq> root'" "int (length root) < MAX_CAPTURE_BYTES" "int (length root') < MAX_CAPTURE_BYTES"
  shows "\<exists>p. pwd_compiled = Inr p \<and>
    compare_execute (\<lambda>_. ''x'') (executable pwd_host) [] (staged kit pwd_policy root) (staged kit pwd_policy root') p stage initial = Inr (False, [''stdout''])"
proof -
  have "case pwd_compiled of Inl _ \<Rightarrow> False | Inr p \<Rightarrow> validate_program (\<lambda>_. ''x'') p = Inr () \<and> validate_executable (executable pwd_host) [] p = Inr () \<and>
      cp_outputs p = [] \<and> cp_edges p = [] \<and>
      (case cp_nodes p of [n] \<Rightarrow> cn_deps n = [] \<and> cn_mode n = ''always'' \<and> cn_argv n = [] \<and> cn_paths n = [] \<and> cn_stdin n = None \<and> cn_stdout n = None \<and> cn_writes n = [] \<and>
         ti_name (cn_tool n) = ''pwd'' \<and> ti_adapter (cn_tool n) = ''direct-argv'' \<and> executable pwd_host (cn_tool n) = Inr (''/bin'', ''pwd'') | _ \<Rightarrow> False)" by code_simp
  then obtain p n where p: "pwd_compiled = Inr p" "validate_program (\<lambda>_. ''x'') p = Inr ()" "validate_executable (executable pwd_host) [] p = Inr ()"
      "cp_outputs p = []" "cp_edges p = []" "cp_nodes p = [n]"
    and n: "cn_deps n = []" "cn_mode n = ''always''" "cn_argv n = []" "cn_paths n = []" "cn_stdin n = None" "cn_stdout n = None" "cn_writes n = []"
      "ti_name (cn_tool n) = ''pwd''" "ti_adapter (cn_tool n) = ''direct-argv''" "executable pwd_host (cn_tool n) = Inr (''/bin'', ''pwd'')"
    by (auto split: sum.split_asm list.split_asm)
  let ?out = "\<lambda>r. r @ [CHR 0x0A]"
  let ?o = "\<lambda>r. \<lparr>no_id = cn_id n, no_status = ''executed'', no_exit = 0, no_sha = tl_digest kit (?out r),
    no_stderr = prefix_of 65536 (replace_all r ''/'' (tl_decode kit []))\<rparr>"
  have node: "run_node kit pwd_policy r n stdin s = Inr (?o r, ?out r, s)" if "int (length r) < MAX_CAPTURE_BYTES" for r stdin s
  proof -
    have l: "node_launch kit pwd_policy r n = Inr \<lparr>la_exe = (''/bin'', ''pwd''), la_argv = [], la_cwd = r, la_env = node_env r,
        la_fsize = ep_capture pwd_policy, la_timeout = ep_timeout pwd_policy\<rparr>"
      by (simp add: node_launch_def exe n staged_argv_def)
    have "captured pwd_policy (Exited 0 (?out r) []) = Inr (''executed'', 0, ?out r, [])"
      using that by (simp add: captured_def Let_def prefix_of_def pwd_policy_def MAX_CAPTURE_BYTES_def)
    moreover have "tidied kit n 0 (?out r) = Inr (?out r)" by (simp add: tidied_def n)
    moreover have "store_output n status out t = Inr (out, t)" "prepare_output n s = Inr s" "node_stdin n stdin s = Inr stdin" for status out t
      by (simp_all add: store_output_def prepare_output_def node_stdin_def n)
    ultimately show ?thesis unfolding run_node_def l rbind_simps by (simp add: run)
  qed
  have d: "\<exists>m. direct_execute (staged kit pwd_policy r) p stage initial = Inr (finish (staged kit pwd_policy r) p initial stage [?o r] [cn_id n \<mapsto> ?out r] m)"
    if "int (length r) < MAX_CAPTURE_BYTES" for r
    by (simp add: direct_execute_def p start_state_def run_batch_def sort_node_def n blocked_def run_one_def stream_input_def staged_def node [OF that] conclude_def) (rule exI, rule refl)
  have g: "\<exists>m. graph_execute (staged kit pwd_policy r) p stage initial = Inr (finish (staged kit pwd_policy r) p initial stage [?o r] [cn_id n \<mapsto> ?out r] m)"
    if "int (length r) < MAX_CAPTURE_BYTES" for r
    by (simp add: graph_execute_def p start_state_def graph_loop.simps run_batch_def sort_node_def n blocked_def run_one_def stream_input_def staged_def node [OF that] conclude_def) (rule exI, rule refl)
  obtain m m' where e: "direct_execute (staged kit pwd_policy root) p stage initial = Inr (finish (staged kit pwd_policy root) p initial stage [?o root] [cn_id n \<mapsto> ?out root] m)"
      "graph_execute (staged kit pwd_policy root') p stage initial = Inr (finish (staged kit pwd_policy root') p initial stage [?o root'] [cn_id n \<mapsto> ?out root'] m')"
    using d [OF roots(2)] g [OF roots(3)] by blast
  have "map_of initial (fst e) = Some (snd e)" if "e \<in> set initial" for e using survey(2) that by simp
  then have unchanged: "unexpected_changes p initial initial = []"
    unfolding unexpected_changes_def Let_def append_is_Nil_conv map_is_Nil_conv filter_empty_conv by (auto simp: split_def)
  have f: "finish (staged kit pwd_policy r) p initial stage [?o r] [cn_id n \<mapsto> ?out r] k = \<lparr>eo_status = ''executed'', eo_exit = 0, eo_stdout = ?out r, eo_stderr = [],
      eo_outputs = [], eo_nodes = [?o r], eo_concurrency = k\<rparr>" for r k
    unfolding finish_def staged_def executor.simps survey(1) prod.case Let_def unchanged by (simp add: p(4-6))
  have "compare_execute (\<lambda>_. ''x'') (executable pwd_host) [] (staged kit pwd_policy root) (staged kit pwd_policy root') p stage initial = Inr (False, [''stdout''])"
    unfolding compare_execute_def p(2,3) e f rbind_simps using roots(1) by (simp add: differences_def)
  then show ?thesis using p(1) by blast
qed

end
