(* ===== verification/Completion_Telemetry.thy ===== *)
theory Completion_Telemetry
  imports Command_Program
begin

text \<open>
  \<open>raveil/completion_telemetry.py\<close>: completion frames in a QEMU log and the append-only,
  hash-chained journal of completions. A log is its text. A journal is the list of the JSON
  trees of its lines, each in the canonical text the writer produces; \<open>canonical_size\<close> is the
  length of that text, which the reader bounds. SHA-256 enters as \<open>sha\<close> on text and \<open>jsha\<close> on the canonical text of a dictionary,
  the clock as \<open>captured\<close> and \<open>datetime.fromisoformat\<close> as the test \<open>iso_ok\<close>. Opening, locking and
  syncing the file are not modelled.
\<close>

section \<open>Completions\<close>

definition TELEMETRY_SCHEMA :: string where "TELEMETRY_SCHEMA = ''raveil.completion-telemetry/v1''"
definition TELEMETRY_SOURCE :: string where "TELEMETRY_SOURCE = ''sonatine-qemu''"
definition TELEMETRY_BACKEND :: string where "TELEMETRY_BACKEND = ''qemu-telemetry''"
definition TELEMETRY_CLASS :: string where "TELEMETRY_CLASS = ''emulation''"
definition PLATFORM :: string where "PLATFORM = ''qemu-virt-rv64-v1''"
definition ZERO_HASH :: string where "ZERO_HASH = replicate 64 CHR ''0''"
definition UINT64_MAX :: int where "UINT64_MAX = 18446744073709551615"

record completion_output =
  co_object :: int
  co_generation :: int
  co_version :: int

definition output_dict :: "completion_output \<Rightarrow> json" where
  "output_dict o' = JDict [(''object_id'', JInt (co_object o')), (''generation'', JInt (co_generation o')), (''version'', JInt (co_version o'))]"

text \<open>The three values of an output object with the exact fields, after the type test.\<close>

definition output_of :: "json \<Rightarrow> completion_output res" where
  "output_of j = (case j of
     JDict d \<Rightarrow> (case (item d ''object_id'', item d ''generation'', item d ''version'') of
        (JInt a, JInt b, JInt c) \<Rightarrow> Inr \<lparr>co_object = a, co_generation = b, co_version = c\<rparr>
      | _ \<Rightarrow> Inl (ValueError ''completion output values must be exact integers''))
   | _ \<Rightarrow> Inl (ValueError ''completion output values must be exact integers''))"

definition validate_output :: "completion_output \<Rightarrow> unit res" where
  "validate_output o' =
     reject (min (co_object o') (min (co_generation o') (co_version o')) < 1 \<or> max (co_object o') (max (co_generation o') (co_version o')) > UINT64_MAX)
       (ValueError ''completion output values must be positive'')"

definition add_output :: "completion_output list \<Rightarrow> json \<Rightarrow> completion_output list res" where
  "add_output seen j =
     rbind (output_of j) (\<lambda>o'.
     rbind (validate_output o') (\<lambda>_.
     rbind (reject ((co_object o', co_generation o') \<in> set (map (\<lambda>s. (co_object s, co_generation s)) seen)) (ValueError ''completion outputs contain duplicates'')) (\<lambda>_.
     Inr (seen @ [o']))))"

definition lower_hex :: "char \<Rightarrow> bool" where
  "lower_hex c \<longleftrightarrow> c \<in> set ''0123456789abcdef''"

record parsed_completion =
  pc_job :: int
  pc_epoch :: int
  pc_sequence :: int
  pc_cookie :: string
  pc_status :: int
  pc_detail :: int
  pc_ticks :: int
  pc_outputs :: "json list"
  pc_line :: int

definition expected_detail :: "int \<Rightarrow> int option" where
  "expected_detail status = map_of [(1, 0), (2, 1), (3, 2), (4, 3)] status"

definition validate_completion :: "parsed_completion \<Rightarrow> completion_output list res" where
  "validate_completion c =
     (let counters = [pc_job c, pc_epoch c, pc_sequence c, pc_ticks c]
      in rbind (reject (list_ex (\<lambda>n. n < 1) (pc_line c # counters) \<or> list_ex (\<lambda>n. n > UINT64_MAX) counters)
                  (ValueError ''completion identifiers and counters must be positive'')) (\<lambda>_.
         rbind (reject (length (pc_cookie c) \<noteq> 32 \<or> pc_cookie c = replicate 32 CHR ''0'' \<or> \<not> list_all lower_hex (pc_cookie c))
                  (ValueError ''completion cookie must be 16-byte lowercase hex'')) (\<lambda>_.
         rbind (reject (expected_detail (pc_status c) \<noteq> Some (pc_detail c)) (ValueError ''completion status/detail is invalid'')) (\<lambda>_.
         rbind (reject (length (pc_outputs c) > 4 \<or> pc_status c \<noteq> 1 \<and> pc_outputs c \<noteq> []) (ValueError ''completion outputs are invalid for status'')) (\<lambda>_.
         foldM add_output [] (pc_outputs c))))))"

section \<open>Journal records\<close>

record telemetry_record =
  tr_sequence :: int
  tr_run :: string
  tr_captured :: string
  tr_log :: string
  tr_line :: int
  tr_event :: string
  tr_binding :: string
  tr_job :: int
  tr_epoch :: int
  tr_execution :: int
  tr_cookie :: string
  tr_status :: int
  tr_detail :: int
  tr_ticks :: int
  tr_outputs :: "completion_output list"
  tr_previous :: string
  tr_hash :: string

definition payload :: "telemetry_record \<Rightarrow> (string \<times> json) list" where
  "payload r = [(''sequence'', JInt (tr_sequence r)), (''run_id'', JStr (tr_run r)), (''captured_at_utc'', JStr (tr_captured r)), (''raw_log_sha256'', JStr (tr_log r)),
     (''raw_line'', JInt (tr_line r)), (''event_id'', JStr (tr_event r)), (''binding_id'', JStr (tr_binding r)), (''job_id'', JInt (tr_job r)),
     (''execution_epoch'', JInt (tr_epoch r)), (''execution_sequence'', JInt (tr_execution r)), (''cookie_sha256'', JStr (tr_cookie r)),
     (''observed_status'', JInt (tr_status r)), (''observed_detail'', JInt (tr_detail r)), (''observed_smoke_path_ticks'', JInt (tr_ticks r)),
     (''observed_outputs'', JList (map output_dict (tr_outputs r))), (''previous_hash'', JStr (tr_previous r)), (''schema'', JStr TELEMETRY_SCHEMA),
     (''source'', JStr TELEMETRY_SOURCE), (''backend'', JStr TELEMETRY_BACKEND), (''evidence_class'', JStr TELEMETRY_CLASS), (''platform'', JStr PLATFORM)]"

definition with_hash :: "((string \<times> json) list \<Rightarrow> string) \<Rightarrow> telemetry_record \<Rightarrow> telemetry_record" where
  "with_hash jsha r = r\<lparr>tr_hash := jsha (payload r)\<rparr>"

definition record_dict :: "telemetry_record \<Rightarrow> (string \<times> json) list" where
  "record_dict r = payload r @ [(''record_hash'', JStr (tr_hash r))]"

text \<open>\<open>str.isalnum\<close> on code points below 256\<close>

definition is_alnum :: "char \<Rightarrow> bool" where
  "is_alnum c = (let n = (of_char c :: int) in 48 \<le> n \<and> n \<le> 57 \<or> 65 \<le> n \<and> n \<le> 90 \<or> 97 \<le> n \<and> n \<le> 122 \<or>
     n \<in> {170, 178, 179, 181, 185, 186, 188, 189, 190} \<or> 192 \<le> n \<and> n \<noteq> 215 \<and> n \<noteq> 247)"

definition bounded_token :: "string \<Rightarrow> nat \<Rightarrow> bool" where
  "bounded_token s limit \<longleftrightarrow> 0 < length s \<and> length s \<le> limit \<and> list_all (\<lambda>c. is_alnum c \<or> c \<in> set ''._:-'') s"

definition parse_utc :: "(string \<Rightarrow> bool) \<Rightarrow> string \<Rightarrow> unit res" where
  "parse_utc iso_ok s =
     rbind (reject (length s > 40 \<or> s = [] \<or> last s \<noteq> CHR ''Z'') (ValueError ''captured_at_utc must be bounded UTC'')) (\<lambda>_.
     reject (\<not> iso_ok (butlast s @ ''+00:00'')) (ValueError ''Invalid isoformat string''))"

definition backend_evidence :: "string \<Rightarrow> string \<Rightarrow> unit res" where
  "backend_evidence backend evidence_class = (case map_of [(''native-c'', ''silicon''), (''tvm-meta-schedule'', ''silicon''), (''qemu-telemetry'', ''emulation'')] backend of
     None \<Rightarrow> Inr ()
   | Some required \<Rightarrow> reject (evidence_class \<noteq> required) (ValueError ''evidence must be classified''))"

definition is_digest :: "string \<Rightarrow> bool" where
  "is_digest s \<longleftrightarrow> length s = 64 \<and> list_all lower_hex s"

definition string_fields :: "string list" where
  "string_fields = [''run_id'', ''captured_at_utc'', ''raw_log_sha256'', ''event_id'', ''binding_id'', ''cookie_sha256'', ''previous_hash'', ''record_hash'', ''schema'',
     ''source'', ''backend'', ''evidence_class'', ''platform'']"

definition integer_fields :: "string list" where
  "integer_fields = [''sequence'', ''raw_line'', ''job_id'', ''execution_epoch'', ''execution_sequence'', ''observed_status'', ''observed_detail'', ''observed_smoke_path_ticks'']"

definition is_str :: "json \<Rightarrow> bool" where "is_str j \<longleftrightarrow> (case j of JStr _ \<Rightarrow> True | _ \<Rightarrow> False)"
definition is_int :: "json \<Rightarrow> bool" where "is_int j \<longleftrightarrow> (case j of JInt _ \<Rightarrow> True | _ \<Rightarrow> False)"

text \<open>The values of a record dictionary as a completion with a placeholder cookie.\<close>

definition observed :: "(string \<times> json) list \<Rightarrow> parsed_completion" where
  "observed d = \<lparr>pc_job = jint (item d ''job_id''), pc_epoch = jint (item d ''execution_epoch''), pc_sequence = jint (item d ''execution_sequence''),
     pc_cookie = CHR ''1'' # replicate 31 CHR ''0'', pc_status = jint (item d ''observed_status''), pc_detail = jint (item d ''observed_detail''),
     pc_ticks = jint (item d ''observed_smoke_path_ticks''), pc_outputs = jitems (item d ''observed_outputs''), pc_line = jint (item d ''raw_line'')\<rparr>"

definition record_of :: "(string \<times> json) list \<Rightarrow> completion_output list \<Rightarrow> telemetry_record" where
  "record_of d outs = \<lparr>tr_sequence = jint (item d ''sequence''), tr_run = jstr (item d ''run_id''), tr_captured = jstr (item d ''captured_at_utc''),
     tr_log = jstr (item d ''raw_log_sha256''), tr_line = jint (item d ''raw_line''), tr_event = jstr (item d ''event_id''), tr_binding = jstr (item d ''binding_id''),
     tr_job = jint (item d ''job_id''), tr_epoch = jint (item d ''execution_epoch''), tr_execution = jint (item d ''execution_sequence''),
     tr_cookie = jstr (item d ''cookie_sha256''), tr_status = jint (item d ''observed_status''), tr_detail = jint (item d ''observed_detail''),
     tr_ticks = jint (item d ''observed_smoke_path_ticks''), tr_outputs = outs, tr_previous = jstr (item d ''previous_hash''), tr_hash = jstr (item d ''record_hash'')\<rparr>"

definition validate_record :: "((string \<times> json) list \<Rightarrow> string) \<Rightarrow> (string \<Rightarrow> bool) \<Rightarrow> (string \<times> json) list \<Rightarrow> telemetry_record res" where
  "validate_record jsha iso_ok d =
     rbind (reject (\<not> list_all (\<lambda>k. is_str (item d k)) string_fields) (ValueError ''completion telemetry strings must be exact strings'')) (\<lambda>_.
     rbind (reject (\<not> list_all (\<lambda>k. is_int (item d k)) integer_fields) (ValueError ''completion telemetry integers must be exact integers'')) (\<lambda>_.
     rbind (backend_evidence (jstr (item d ''backend'')) (jstr (item d ''evidence_class''))) (\<lambda>_.
     rbind (reject (jstr (item d ''schema'') \<noteq> TELEMETRY_SCHEMA \<or> jstr (item d ''source'') \<noteq> TELEMETRY_SOURCE \<or> jstr (item d ''backend'') \<noteq> TELEMETRY_BACKEND \<or>
                    jstr (item d ''evidence_class'') \<noteq> TELEMETRY_CLASS \<or> jstr (item d ''platform'') \<noteq> PLATFORM) (ValueError ''completion telemetry provenance is invalid'')) (\<lambda>_.
     rbind (reject (jint (item d ''sequence'') < 1 \<or> jint (item d ''sequence'') > UINT64_MAX \<or> jint (item d ''raw_line'') < 1 \<or> jint (item d ''raw_line'') > UINT64_MAX \<or>
                    \<not> bounded_token (jstr (item d ''run_id'')) 128) (ValueError ''completion telemetry sequence/run is invalid'')) (\<lambda>_.
     rbind (parse_utc iso_ok (jstr (item d ''captured_at_utc''))) (\<lambda>_.
     rbind (reject (\<not> list_all (\<lambda>k. is_digest (jstr (item d k))) [''raw_log_sha256'', ''event_id'', ''binding_id'', ''cookie_sha256'', ''previous_hash'', ''record_hash''])
              (ValueError ''completion telemetry hash is invalid'')) (\<lambda>_.
     rbind (validate_completion (observed d)) (\<lambda>outs.
     rbind (reject (jsha (payload (record_of d outs)) \<noteq> jstr (item d ''record_hash'')) (ValueError ''completion telemetry record hash mismatch'')) (\<lambda>_.
     Inr (record_of d outs))))))))))"

definition record_from_dict :: "((string \<times> json) list \<Rightarrow> string) \<Rightarrow> (string \<Rightarrow> bool) \<Rightarrow> (string \<times> json) list \<Rightarrow> telemetry_record res" where
  "record_from_dict jsha iso_ok d =
     rbind (reject (keys d \<noteq> insert ''observed_outputs'' (set (string_fields @ integer_fields))) (ValueError ''completion telemetry fields are not exact'')) (\<lambda>_.
     rbind (want_list (map_of d ''observed_outputs'') ''observed_outputs must be a list'') (\<lambda>outs.
     rbind (mapM (\<lambda>j. exact j {''object_id'', ''generation'', ''version''} ''completion output fields are not exact'') outs) (\<lambda>_.
     validate_record jsha iso_ok d)))"

section \<open>Completion frames\<close>

definition MAX_LINE_BYTES :: int where "MAX_LINE_BYTES = 1024"
definition MAX_LOG_BYTES :: int where "MAX_LOG_BYTES = 16 * 1024 * 1024"

text \<open>\<open>bytes.splitlines()\<close>: lines end at a line feed, a carriage return or both in this order.\<close>

fun byte_lines :: "string \<Rightarrow> string list" where
  "byte_lines [] = []"
| "byte_lines (c # cs) =
     (if c = CHR 0x0A then [] # byte_lines cs
      else if c = CHR 0x0D then [] # (if cs \<noteq> [] \<and> hd cs = CHR 0x0A then byte_lines (tl cs) else byte_lines cs)
      else (case byte_lines cs of [] \<Rightarrow> [[c]] | w # ws \<Rightarrow> (c # w) # ws))"

text \<open>The regular expression of a frame, read from left to right; no alternative needs backtracking.\<close>

definition lit :: "string \<Rightarrow> string \<Rightarrow> string option" where
  "lit prefix s = (if take (length prefix) s = prefix then Some (drop (length prefix) s) else None)"

definition is_digit :: "char \<Rightarrow> bool" where
  "is_digit c \<longleftrightarrow> c \<in> set ''0123456789''"

definition positive :: "string \<Rightarrow> (int \<times> string) option" where
  "positive s = (let ds = takeWhile is_digit s in if ds = [] \<or> hd ds = CHR ''0'' then None else Some (int (nat_str ds), dropWhile is_digit s))"

definition one_of :: "string \<Rightarrow> string \<Rightarrow> (int \<times> string) option" where
  "one_of allowed s = (case s of [] \<Rightarrow> None | c # cs \<Rightarrow> if c \<in> set allowed then Some (int (char_digit c), cs) else None)"

definition frame_cookie :: "string \<Rightarrow> (string \<times> string) option" where
  "frame_cookie s = (let h = take 32 s in if length h = 32 \<and> list_all lower_hex h then Some (h, drop 32 s) else None)"

type_synonym frame = "int \<times> int \<times> int \<times> string \<times> int \<times> int \<times> int \<times> string"

definition match_frame :: "string \<Rightarrow> frame option" where
  "match_frame s =
     Option.bind (lit ''RAVEIL-COMPLETION-V1 job='' s) (\<lambda>s. Option.bind (positive s) (\<lambda>(job, s).
     Option.bind (lit '' epoch='' s) (\<lambda>s. Option.bind (positive s) (\<lambda>(epoch, s).
     Option.bind (lit '' sequence='' s) (\<lambda>s. Option.bind (positive s) (\<lambda>(sequence, s).
     Option.bind (lit '' cookie='' s) (\<lambda>s. Option.bind (frame_cookie s) (\<lambda>(cookie, s).
     Option.bind (lit '' status='' s) (\<lambda>s. Option.bind (one_of ''1234'' s) (\<lambda>(status, s).
     Option.bind (lit '' detail='' s) (\<lambda>s. Option.bind (one_of ''0123'' s) (\<lambda>(detail, s).
     Option.bind (lit '' smoke_path_ticks='' s) (\<lambda>s. Option.bind (positive s) (\<lambda>(ticks, s).
     Option.bind (lit '' outputs='' s) (\<lambda>s.
     if s = ''-'' \<or> s \<noteq> [] \<and> list_all (\<lambda>c. is_digit c \<or> c \<in> set '':,'') s then Some (job, epoch, sequence, cookie, status, detail, ticks, s) else None)))))))))))))))"

text \<open>\<open>str.split\<close> on one character.\<close>

fun split_on :: "char \<Rightarrow> string \<Rightarrow> string list" where
  "split_on x [] = [[]]"
| "split_on x (c # cs) = (if c = x then [] # split_on x cs else (case split_on x cs of [] \<Rightarrow> [[c]] | w # ws \<Rightarrow> (c # w) # ws))"

definition frame_output :: "string \<Rightarrow> json res" where
  "frame_output s = (case split_on CHR '':'' s of
     [a, b, c] \<Rightarrow> if a = [] \<or> b = [] \<or> c = [] then Inl (ValueError ''malformed completion outputs'')
       else Inr (output_dict \<lparr>co_object = int (nat_str a), co_generation = int (nat_str b), co_version = int (nat_str c)\<rparr>)
   | _ \<Rightarrow> Inl (ValueError ''malformed completion outputs''))"

definition frame_outputs :: "string \<Rightarrow> json list res" where
  "frame_outputs s = (if s = ''-'' then Inr [] else mapM frame_output (split_on CHR '','' s))"

definition FRAME_PREFIX :: string where "FRAME_PREFIX = ''RAVEIL-COMPLETION-''"

definition starts_with :: "string \<Rightarrow> string \<Rightarrow> bool" where
  "starts_with prefix s \<longleftrightarrow> take (length prefix) s = prefix"

definition frame_binding :: "parsed_completion \<Rightarrow> int \<times> int \<times> int \<times> string" where
  "frame_binding c = (pc_job c, pc_epoch c, pc_sequence c, pc_cookie c)"

definition add_line :: "parsed_completion list \<Rightarrow> nat \<times> string \<Rightarrow> parsed_completion list res" where
  "add_line events numbered_line = (case numbered_line of (number, raw) \<Rightarrow>
     if int (length raw) > MAX_LINE_BYTES then
       if starts_with FRAME_PREFIX raw then Inl (ValueError ''oversized completion telemetry'') else Inr events
     else if \<not> starts_with FRAME_PREFIX raw then Inr events
     else
       rbind (reject (list_ex (\<lambda>c. (of_char c :: int) \<ge> 128) raw) (ValueError ''non-ASCII completion telemetry'')) (\<lambda>_.
       rbind (want (match_frame raw) ''malformed completion telemetry'') (\<lambda>(job, epoch, sequence, cookie, status, detail, ticks, outputs_text).
       rbind (frame_outputs outputs_text) (\<lambda>outs.
       (let c = \<lparr>pc_job = job, pc_epoch = epoch, pc_sequence = sequence, pc_cookie = cookie, pc_status = status, pc_detail = detail, pc_ticks = ticks,
                 pc_outputs = outs, pc_line = int number\<rparr>
        in rbind (validate_completion c) (\<lambda>_.
           rbind (reject (frame_binding c \<in> set (map frame_binding events)) (ValueError ''duplicate completion telemetry'')) (\<lambda>_. Inr (events @ [c]))))))))"

definition parse_qemu_log :: "string \<Rightarrow> parsed_completion list res" where
  "parse_qemu_log data =
     rbind (reject (int (length data) > MAX_LOG_BYTES) (ValueError ''telemetry input must be a bounded single-link regular file'')) (\<lambda>_.
     (let log_lines = byte_lines data
      in rbind (foldM add_line [] (zip [1..<Suc (length log_lines)] log_lines)) (\<lambda>events.
         rbind (reject (data \<noteq> [] \<and> last data \<notin> {CHR 0x0A, CHR 0x0D} \<and> log_lines \<noteq> [] \<and> starts_with FRAME_PREFIX (last log_lines))
                  (ValueError ''truncated completion telemetry final line'')) (\<lambda>_.
         rbind (reject (events = []) (ValueError ''no completion telemetry found'')) (\<lambda>_. Inr events)))))"

section \<open>The journal\<close>

text \<open>\<open>_strict_json\<close>: no object of the line repeats a key.\<close>

fun strict :: "json \<Rightarrow> bool" where
  "strict (JDict d) \<longleftrightarrow> distinct (map fst d) \<and> (\<forall>kv \<in> set d. strict (snd kv))"
| "strict (JList xs) \<longleftrightarrow> (\<forall>x \<in> set xs. strict x)"
| "strict _ \<longleftrightarrow> True"

text \<open>The length of \<open>json.dumps(value, separators=(",", ":"))\<close>.\<close>

definition char_size :: "char \<Rightarrow> int" where
  "char_size c = (let n = (of_char c :: int) in if n \<in> {8, 9, 10, 12, 13, 34, 92} then 2 else if n < 32 \<or> 128 \<le> n then 6 else 1)"

definition text_size :: "string \<Rightarrow> int" where
  "text_size s = 2 + (\<Sum>c\<leftarrow>s. char_size c)"

definition number_size :: "int \<Rightarrow> int" where
  "number_size n = (if n < 0 then 1 else 0) + int (length (str_nat (nat \<bar>n\<bar>)))"

fun canonical_size :: "json \<Rightarrow> int" where
  "canonical_size JNull = 4"
| "canonical_size (JBool b) = (if b then 4 else 5)"
| "canonical_size (JInt n) = number_size n"
| "canonical_size (JStr s) = text_size s"
| "canonical_size (JList xs) = 2 + int (length xs - 1) + (\<Sum>x\<leftarrow>xs. canonical_size x)"
| "canonical_size (JDict d) = 2 + int (length d - 1) + (\<Sum>kv\<leftarrow>d. text_size (fst kv) + 1 + canonical_size (snd kv))"

definition load_line :: "((string \<times> json) list \<Rightarrow> string) \<Rightarrow> (string \<Rightarrow> bool) \<Rightarrow> telemetry_record list \<Rightarrow> json \<Rightarrow> telemetry_record list res" where
  "load_line jsha iso_ok records j =
     rbind (reject (canonical_size j > 16384) (ValueError ''invalid telemetry journal line'')) (\<lambda>_.
     rbind (reject (\<not> strict j) (ValueError ''invalid telemetry journal line'')) (\<lambda>_.
     rbind (want_dict (Some j) ''invalid telemetry journal line'') (\<lambda>d.
     rbind (case record_from_dict jsha iso_ok d of Inl _ \<Rightarrow> Inl (ValueError ''invalid telemetry journal line'') | Inr r \<Rightarrow> Inr r) (\<lambda>r.
     rbind (reject (tr_sequence r \<noteq> int (length records) + 1 \<or> tr_previous r \<noteq> (if records = [] then ZERO_HASH else tr_hash (last records)) \<or>
                    tr_event r \<in> set (map tr_event records) \<or> tr_binding r \<in> set (map tr_binding records))
              (ValueError ''telemetry journal chain/sequence failure'')) (\<lambda>_. Inr (records @ [r]))))))"

definition load_journal :: "((string \<times> json) list \<Rightarrow> string) \<Rightarrow> (string \<Rightarrow> bool) \<Rightarrow> json list \<Rightarrow> telemetry_record list res" where
  "load_journal jsha iso_ok journal = foldM (load_line jsha iso_ok) [] journal"

definition dec :: "int \<Rightarrow> string" where "dec n = str_nat (nat n)"

definition event_text :: "string \<Rightarrow> parsed_completion \<Rightarrow> string" where
  "event_text raw_hash c = raw_hash @ '':'' @ dec (pc_line c) @ '':'' @ dec (pc_job c) @ '':'' @ dec (pc_epoch c) @ '':'' @ dec (pc_sequence c) @ '':'' @ pc_cookie c"

definition binding_text :: "string \<Rightarrow> parsed_completion \<Rightarrow> string" where
  "binding_text run c = run @ '':'' @ dec (pc_job c) @ '':'' @ dec (pc_epoch c) @ '':'' @ dec (pc_sequence c) @ '':'' @ pc_cookie c"

definition cookie_bytes :: "string \<Rightarrow> string" where
  "cookie_bytes s = map (\<lambda>k. char_of (hex_byte s k)) [0..<length s div 2]"

definition new_record :: "(string \<Rightarrow> string) \<Rightarrow> ((string \<times> json) list \<Rightarrow> string) \<Rightarrow> string \<Rightarrow> string \<Rightarrow> string \<Rightarrow> telemetry_record list \<Rightarrow> parsed_completion \<Rightarrow>
    telemetry_record" where
  "new_record sha jsha captured run raw_hash records c = with_hash jsha
     \<lparr>tr_sequence = int (length records) + 1, tr_run = run, tr_captured = captured, tr_log = raw_hash, tr_line = pc_line c, tr_event = sha (event_text raw_hash c),
      tr_binding = sha (binding_text run c), tr_job = pc_job c, tr_epoch = pc_epoch c, tr_execution = pc_sequence c, tr_cookie = sha (cookie_bytes (pc_cookie c)),
      tr_status = pc_status c, tr_detail = pc_detail c, tr_ticks = pc_ticks c,
      tr_outputs = map (\<lambda>j. case output_of j of Inr o' \<Rightarrow> o' | Inl _ \<Rightarrow> \<lparr>co_object = 0, co_generation = 0, co_version = 0\<rparr>) (pc_outputs c),
      tr_previous = (if records = [] then ZERO_HASH else tr_hash (last records)), tr_hash = []\<rparr>"

text \<open>One event: the records are those of the file followed by the additions.\<close>

definition ingest_event :: "(string \<Rightarrow> string) \<Rightarrow> ((string \<times> json) list \<Rightarrow> string) \<Rightarrow> (string \<Rightarrow> bool) \<Rightarrow> string \<Rightarrow> string \<Rightarrow> string \<Rightarrow> telemetry_record list \<Rightarrow>
    parsed_completion \<Rightarrow> telemetry_record list res" where
  "ingest_event sha jsha iso_ok captured run raw_hash records c =
     (if sha (event_text raw_hash c) \<in> set (map tr_event records) then Inr records
      else
        rbind (reject (sha (binding_text run c) \<in> set (map tr_binding records)) (ValueError ''conflicting telemetry for an existing run binding'')) (\<lambda>_.
        (let r = new_record sha jsha captured run raw_hash records c
         in rbind (validate_record jsha iso_ok (record_dict r)) (\<lambda>_. Inr (records @ [r])))))"

definition ingest_qemu_log :: "(string \<Rightarrow> string) \<Rightarrow> ((string \<times> json) list \<Rightarrow> string) \<Rightarrow> (string \<Rightarrow> bool) \<Rightarrow> string \<Rightarrow> string \<Rightarrow> json list \<Rightarrow> string \<Rightarrow> (json list \<times> nat) res" where
  "ingest_qemu_log sha jsha iso_ok captured run journal data =
     rbind (reject (\<not> bounded_token run 128) (ValueError ''run_id is invalid'')) (\<lambda>_.
     rbind (parse_qemu_log data) (\<lambda>events.
     rbind (load_journal jsha iso_ok journal) (\<lambda>existing.
     rbind (foldM (ingest_event sha jsha iso_ok captured run (sha data)) existing events) (\<lambda>records.
     (let additions = drop (length existing) records
      in Inr (journal @ map (\<lambda>r. JDict (record_dict r)) additions, length additions))))))"

end
