(* ===== verification/Telemetry_Correct.thy ===== *)
theory Telemetry_Correct
  imports Completion_Telemetry
begin

text \<open>
  The telemetry journal: a validated record is what its own dictionary decodes to, its line fits
  the reader's bound, every successful ingestion leaves a journal that loads, ingesting a log
  again adds nothing, and the last hash of a journal pins all of it.
\<close>

section \<open>Records and their dictionaries\<close>

lemma output_of_dict [simp]: "output_of (output_dict o') = Inr o'"
  by (simp add: output_of_def output_dict_def item_def)

lemma add_output_dict:
  "add_output seen (output_dict o') = Inr outs \<longleftrightarrow>
     validate_output o' = Inr () \<and> (co_object o', co_generation o') \<notin> (\<lambda>s. (co_object s, co_generation s)) ` set seen \<and> outs = seen @ [o']"
  by (auto simp: add_output_def res_simps)

lemma add_outputs_same: "foldM add_output acc (map output_dict os) = Inr outs \<Longrightarrow> outs = acc @ os"
proof (induction os arbitrary: acc)
  case (Cons o' os)
  then show ?case using Cons.IH [of "acc @ [o']"] by (auto simp: add_output_dict rbind_eq_Inr)
qed simp

lemma record_items [simp]:
  "item (record_dict r) ''sequence'' = JInt (tr_sequence r)" "item (record_dict r) ''run_id'' = JStr (tr_run r)"
  "item (record_dict r) ''captured_at_utc'' = JStr (tr_captured r)" "item (record_dict r) ''raw_log_sha256'' = JStr (tr_log r)"
  "item (record_dict r) ''raw_line'' = JInt (tr_line r)" "item (record_dict r) ''event_id'' = JStr (tr_event r)"
  "item (record_dict r) ''binding_id'' = JStr (tr_binding r)" "item (record_dict r) ''job_id'' = JInt (tr_job r)"
  "item (record_dict r) ''execution_epoch'' = JInt (tr_epoch r)" "item (record_dict r) ''execution_sequence'' = JInt (tr_execution r)"
  "item (record_dict r) ''cookie_sha256'' = JStr (tr_cookie r)" "item (record_dict r) ''observed_status'' = JInt (tr_status r)"
  "item (record_dict r) ''observed_detail'' = JInt (tr_detail r)" "item (record_dict r) ''observed_smoke_path_ticks'' = JInt (tr_ticks r)"
  "item (record_dict r) ''observed_outputs'' = JList (map output_dict (tr_outputs r))" "item (record_dict r) ''previous_hash'' = JStr (tr_previous r)"
  "item (record_dict r) ''schema'' = JStr TELEMETRY_SCHEMA" "item (record_dict r) ''source'' = JStr TELEMETRY_SOURCE"
  "item (record_dict r) ''backend'' = JStr TELEMETRY_BACKEND" "item (record_dict r) ''evidence_class'' = JStr TELEMETRY_CLASS"
  "item (record_dict r) ''platform'' = JStr PLATFORM" "item (record_dict r) ''record_hash'' = JStr (tr_hash r)"
  by (simp_all add: item_def record_dict_def payload_def)

lemma json_views [simp]: "jstr (JStr s) = s" "jitems (JList xs) = xs" "is_str (JStr s)" "is_int (JInt n)"
  by (simp_all add: jstr_def jitems_def is_str_def is_int_def)

lemma record_of_dict: "record_of (record_dict r) (tr_outputs r) = r"
  by (cases r) (simp add: record_of_def)

text \<open>What validation of a record's own dictionary establishes.\<close>

lemma validate_own:
  assumes "validate_record jsha iso_ok (record_dict r) = Inr r'"
  shows "r' = r" "tr_hash r = jsha (payload r)" "tr_sequence r \<in> {1..UINT64_MAX}" "tr_line r \<in> {1..UINT64_MAX}" "length (tr_run r) \<le> 128" "length (tr_captured r) \<le> 40"
    "list_all (\<lambda>s. length s = 64) [tr_log r, tr_event r, tr_binding r, tr_cookie r, tr_previous r, tr_hash r]"
    "list_all (\<lambda>n. n \<in> {1..UINT64_MAX}) [tr_job r, tr_epoch r, tr_execution r, tr_ticks r]" "tr_status r \<in> {1..4}" "tr_detail r \<in> {0..3}"
    "length (tr_outputs r) \<le> 4" "\<exists>outs. foldM add_output [] (map output_dict (tr_outputs r)) = Inr outs"
proof -
  obtain outs where v: "validate_completion (observed (record_dict r)) = Inr outs"
    and h: "jsha (payload (record_of (record_dict r) outs)) = tr_hash r" "r' = record_of (record_dict r) outs"
    and n: "tr_sequence r \<in> {1..UINT64_MAX}" "tr_line r \<in> {1..UINT64_MAX}" "bounded_token (tr_run r) 128"
    and u: "parse_utc iso_ok (tr_captured r) = Inr ()"
    and d: "list_all is_digest [tr_log r, tr_event r, tr_binding r, tr_cookie r, tr_previous r, tr_hash r]"
    using assms by (auto simp: validate_record_def res_simps)
  have f: "foldM add_output [] (map output_dict (tr_outputs r)) = Inr outs"
    using v by (auto simp: validate_completion_def observed_def res_simps Let_def)
  have o: "outs = tr_outputs r" using add_outputs_same [OF f] by simp
  show "r' = r" "tr_hash r = jsha (payload r)" using h o by (simp_all add: record_of_dict)
  show "tr_sequence r \<in> {1..UINT64_MAX}" "tr_line r \<in> {1..UINT64_MAX}" by (fact n)+
  show "length (tr_run r) \<le> 128" using n(3) by (simp add: bounded_token_def)
  show "length (tr_captured r) \<le> 40" using u by (simp add: parse_utc_def split: if_splits)
  show "list_all (\<lambda>s. length s = 64) [tr_log r, tr_event r, tr_binding r, tr_cookie r, tr_previous r, tr_hash r]" using d by (simp add: is_digest_def)
  show "list_all (\<lambda>n. n \<in> {1..UINT64_MAX}) [tr_job r, tr_epoch r, tr_execution r, tr_ticks r]" "length (tr_outputs r) \<le> 4"
    using v by (auto simp: validate_completion_def observed_def res_simps Let_def)
  have e: "expected_detail (tr_status r) = Some (tr_detail r)" using v by (auto simp: validate_completion_def observed_def res_simps Let_def)
  show "tr_status r \<in> {1..4}" "tr_detail r \<in> {0..3}" using e by (auto simp: expected_detail_def split: if_splits)
  show "\<exists>outs. foldM add_output [] (map output_dict (tr_outputs r)) = Inr outs" using f by blast
qed

lemma from_own_dict: "record_from_dict jsha iso_ok (record_dict r) = validate_record jsha iso_ok (record_dict r)"
proof -
  let ?names = "[''sequence'', ''run_id'', ''captured_at_utc'', ''raw_log_sha256'', ''raw_line'', ''event_id'', ''binding_id'', ''job_id'', ''execution_epoch'',
     ''execution_sequence'', ''cookie_sha256'', ''observed_status'', ''observed_detail'', ''observed_smoke_path_ticks'', ''observed_outputs'', ''previous_hash'',
     ''schema'', ''source'', ''backend'', ''evidence_class'', ''platform'', ''record_hash'']"
  have "map fst (record_dict r) = ?names" by (simp add: record_dict_def payload_def)
  moreover have "set ?names = insert ''observed_outputs'' (set (string_fields @ integer_fields))" by code_simp
  ultimately have k: "keys (record_dict r) = insert ''observed_outputs'' (set (string_fields @ integer_fields))" by (simp only: keys_code)
  have l: "map_of (record_dict r) ''observed_outputs'' = Some (JList (map output_dict (tr_outputs r)))"
    by (simp add: record_dict_def payload_def)
  have "exact (output_dict o') {''object_id'', ''generation'', ''version''} m = Inr [(''object_id'', JInt (co_object o')), (''generation'', JInt (co_generation o')), (''version'', JInt (co_version o'))]" for o' m
    by (simp add: exact_def output_dict_def want_dict_def reject_def)
  then have "mapM (\<lambda>j. exact j {''object_id'', ''generation'', ''version''} m) (map output_dict os) =
      Inr (map (\<lambda>o'. [(''object_id'', JInt (co_object o')), (''generation'', JInt (co_generation o')), (''version'', JInt (co_version o'))]) os)" for m os
    unfolding mapM_map by (intro mapM_eq_map) blast
  then show ?thesis unfolding record_from_dict_def by (simp only: k l) (simp add: want_list_def)
qed

lemma strict_own: "strict (JDict (record_dict r))"
  by (auto simp: record_dict_def payload_def output_dict_def)

section \<open>The size of a line\<close>

lemma text_size_le: "text_size s \<le> 2 + 6 * int (length s)"
proof -
  have "(\<Sum>c\<leftarrow>s. char_size c) \<le> 6 * int (length s)" by (induction s) (auto simp: char_size_def Let_def)
  then show ?thesis by (simp add: text_size_def)
qed

lemma str_nat_length: "n < 10 ^ Suc k \<Longrightarrow> length (str_nat n) \<le> Suc k"
proof (induction k arbitrary: n)
  case 0
  then show ?case by (subst str_nat.simps) simp
next
  case (Suc k)
  show ?case
  proof (cases "n < 10")
    case False
    have "n div 10 < 10 ^ Suc k" using Suc.prems by (simp add: less_mult_imp_div_less)
    from Suc.IH [OF this] show ?thesis using False by (subst str_nat.simps) simp
  qed (subst str_nat.simps, simp)
qed

lemma number_size_le: "n \<in> {0..UINT64_MAX} \<Longrightarrow> number_size n \<le> 20"
proof -
  assume n: "n \<in> {0..UINT64_MAX}"
  have "n < 10 ^ Suc 19" using n by (simp add: UINT64_MAX_def)
  then have "nat n < 10 ^ Suc 19" using n by (simp add: nat_less_iff)
  from str_nat_length [OF this] show ?thesis using n by (simp add: number_size_def)
qed

lemma output_size:
  assumes "co_object o' \<in> {0..UINT64_MAX}" "co_generation o' \<in> {0..UINT64_MAX}" "co_version o' \<in> {0..UINT64_MAX}"
  shows "canonical_size (output_dict o') \<le> 300"
  using assms number_size_le [of "co_object o'"] number_size_le [of "co_generation o'"] number_size_le [of "co_version o'"]
    text_size_le [of "''object_id''"] text_size_le [of "''generation''"] text_size_le [of "''version''"]
  by (simp add: output_dict_def)

lemma added_outputs:
  "foldM add_output acc (map output_dict os) = Inr outs \<Longrightarrow> o' \<in> set os \<Longrightarrow>
     co_object o' \<in> {0..UINT64_MAX} \<and> co_generation o' \<in> {0..UINT64_MAX} \<and> co_version o' \<in> {0..UINT64_MAX}"
proof (induction os arbitrary: acc)
  case (Cons o'' os)
  then show ?case using Cons.IH [of "acc @ [o'']"] by (auto simp: add_output_dict validate_output_def rbind_eq_Inr)
qed simp

lemma own_size:
  assumes v: "validate_record jsha iso_ok (record_dict r) = Inr r'"
  shows "canonical_size (JDict (record_dict r)) \<le> 16384"
proof -
  note own = validate_own [OF v]
  obtain outs where f: "foldM add_output [] (map output_dict (tr_outputs r)) = Inr outs" using own(12) by blast
  have "(\<Sum>x\<leftarrow>map output_dict os. canonical_size x) \<le> 300 * int (length os)" if "set os \<subseteq> set (tr_outputs r)" for os
    using that by (induction os) (use output_size added_outputs [OF f] in force)+
  from this [of "tr_outputs r"] have outs: "canonical_size (JList (map output_dict (tr_outputs r))) \<le> 1300"
    using own(11) by simp
  have ints: "number_size (tr_sequence r) \<le> 20" "number_size (tr_line r) \<le> 20" "number_size (tr_job r) \<le> 20" "number_size (tr_epoch r) \<le> 20" "number_size (tr_execution r) \<le> 20"
    "number_size (tr_status r) \<le> 20" "number_size (tr_detail r) \<le> 20" "number_size (tr_ticks r) \<le> 20"
    using own(3,4,8,9,10) by (auto intro!: number_size_le simp: UINT64_MAX_def)
  have texts: "text_size (tr_run r) \<le> 770" "text_size (tr_captured r) \<le> 242" "text_size (tr_log r) \<le> 386" "text_size (tr_event r) \<le> 386" "text_size (tr_binding r) \<le> 386"
    "text_size (tr_cookie r) \<le> 386" "text_size (tr_previous r) \<le> 386" "text_size (tr_hash r) \<le> 386"
    using own(5,6,7) text_size_le [of "tr_run r"] text_size_le [of "tr_captured r"] text_size_le [of "tr_log r"] text_size_le [of "tr_event r"] text_size_le [of "tr_binding r"]
      text_size_le [of "tr_cookie r"] text_size_le [of "tr_previous r"] text_size_le [of "tr_hash r"] by simp_all
  have names: "(\<Sum>k\<leftarrow>string_fields @ integer_fields @ [''observed_outputs'']. text_size k) \<le> 400" by code_simp
  have constants: "text_size TELEMETRY_SCHEMA + text_size TELEMETRY_SOURCE + text_size TELEMETRY_BACKEND + text_size TELEMETRY_CLASS + text_size PLATFORM \<le> 200" by code_simp
  show ?thesis using outs ints texts names constants
    by (simp add: record_dict_def payload_def string_fields_def integer_fields_def)
qed

section \<open>Loading and ingesting\<close>

abbreviation last_hash :: "telemetry_record list \<Rightarrow> string" where
  "last_hash rs \<equiv> if rs = [] then ZERO_HASH else tr_hash (last rs)"

abbreviation journal_line :: "telemetry_record \<Rightarrow> json" where
  "journal_line r \<equiv> JDict (record_dict r)"

lemma load_own_line:
  assumes "validate_record jsha iso_ok (record_dict r) = Inr r'" and "tr_sequence r = int (length records) + 1" "tr_previous r = last_hash records"
    "tr_event r \<notin> set (map tr_event records)" "tr_binding r \<notin> set (map tr_binding records)"
  shows "load_line jsha iso_ok records (journal_line r) = Inr (records @ [r])"
  using own_size [OF assms(1)] validate_own(1) [OF assms(1)] strict_own [of r] assms
  by (simp add: load_line_def from_own_dict want_dict_def reject_def del: strict.simps canonical_size.simps)

lemma new_record_fields:
  "tr_sequence (new_record sha jsha captured run raw_hash records c) = int (length records) + 1"
  "tr_previous (new_record sha jsha captured run raw_hash records c) = last_hash records"
  "tr_event (new_record sha jsha captured run raw_hash records c) = sha (event_text raw_hash c)"
  "tr_binding (new_record sha jsha captured run raw_hash records c) = sha (binding_text run c)"
  by (simp_all add: new_record_def with_hash_def)

lemma ingest_events:
  assumes "foldM (ingest_event sha jsha iso_ok captured run raw_hash) existing events = Inr records"
  shows "\<exists>added. records = existing @ added \<and> foldM (load_line jsha iso_ok) existing (map journal_line added) = Inr records \<and>
    (\<forall>c \<in> set events. sha (event_text raw_hash c) \<in> set (map tr_event records))"
  using assms
proof (induction events arbitrary: existing)
  case (Cons c events)
  obtain next_records where step: "ingest_event sha jsha iso_ok captured run raw_hash existing c = Inr next_records"
    and rest: "foldM (ingest_event sha jsha iso_ok captured run raw_hash) next_records events = Inr records"
    using Cons.prems by (auto simp: rbind_eq_Inr)
  obtain added where added: "records = next_records @ added" "foldM (load_line jsha iso_ok) next_records (map journal_line added) = Inr records"
    "\<forall>c \<in> set events. sha (event_text raw_hash c) \<in> set (map tr_event records)" using Cons.IH [OF rest] by blast
  show ?case
  proof (cases "sha (event_text raw_hash c) \<in> set (map tr_event existing)")
    case True
    then have "next_records = existing" using step by (simp add: ingest_event_def)
    then show ?thesis using added True by auto
  next
    case False
    let ?r = "new_record sha jsha captured run raw_hash existing c"
    obtain r' where v: "validate_record jsha iso_ok (record_dict ?r) = Inr r'" and b: "sha (binding_text run c) \<notin> set (map tr_binding existing)"
      and n: "next_records = existing @ [?r]"
      using step False by (auto simp: ingest_event_def Let_def res_simps)
    have "load_line jsha iso_ok existing (journal_line ?r) = Inr next_records"
      unfolding n using False b by (intro load_own_line [OF v]) (simp_all add: new_record_fields)
    then have "foldM (load_line jsha iso_ok) existing (map journal_line (?r # added)) = Inr records" using added(2) by simp
    then show ?thesis using added(1,3) n new_record_fields(3) [of sha jsha captured run raw_hash existing c]
      by (intro exI [of _ "?r # added"]) auto
  qed
qed simp

lemma load_line_elim:
  assumes "load_line jsha iso_ok records j = Inr records'"
  obtains r where "records' = records @ [r]" "tr_sequence r = int (length records) + 1" "tr_previous r = last_hash records"
    "tr_event r \<notin> set (map tr_event records)" "tr_binding r \<notin> set (map tr_binding records)" "tr_hash r = jsha (payload r)"
proof -
  obtain d where d: "j = JDict d" using assms by (auto simp: load_line_def res_simps)
  obtain r where r1: "record_from_dict jsha iso_ok d = Inr r"
    using assms unfolding d by (cases "record_from_dict jsha iso_ok d") (simp_all add: load_line_def want_dict_def reject_def split: if_splits)
  then have r: "record_from_dict jsha iso_ok d = Inr r" "records' = records @ [r]" "tr_sequence r = int (length records) + 1" "tr_previous r = last_hash records"
    "tr_event r \<notin> set (map tr_event records)" "tr_binding r \<notin> set (map tr_binding records)"
    using assms unfolding d by (auto simp: load_line_def want_dict_def split: if_splits)
  obtain outs where "r = record_of d outs" "jsha (payload (record_of d outs)) = jstr (item d ''record_hash'')"
    using r(1) unfolding record_from_dict_def validate_record_def by (auto simp: res_simps simp del: keys_code)
  then have "tr_hash r = jsha (payload r)" by (simp add: record_of_def)
  then show thesis using that r by blast
qed

text \<open>A loaded journal: consecutive numbers, linked hashes, no event and no binding twice.\<close>

definition chained :: "((string \<times> json) list \<Rightarrow> string) \<Rightarrow> telemetry_record list \<Rightarrow> bool" where
  "chained jsha rs \<longleftrightarrow>
     (\<forall>i < length rs. tr_sequence (rs ! i) = int i + 1 \<and> tr_previous (rs ! i) = last_hash (take i rs) \<and> tr_hash (rs ! i) = jsha (payload (rs ! i))) \<and>
     distinct (map tr_event rs) \<and> distinct (map tr_binding rs)"

lemma load_chained:
  assumes "load_journal jsha iso_ok journal = Inr rs"
  shows "chained jsha rs \<and> length rs = length journal"
proof -
  have "chained jsha rs' \<and> length rs' = length rs0 + length journal"
    if "foldM (load_line jsha iso_ok) rs0 journal = Inr rs'" "chained jsha rs0" for rs0 rs'
    using that
  proof (induction journal arbitrary: rs0)
    case (Cons j journal)
    obtain rs1 where step: "load_line jsha iso_ok rs0 j = Inr rs1" and rest: "foldM (load_line jsha iso_ok) rs1 journal = Inr rs'"
      using Cons.prems(1) by (auto simp: rbind_eq_Inr)
    from step have "chained jsha rs1 \<and> length rs1 = Suc (length rs0)"
    proof (cases rule: load_line_elim)
      case (1 r)
      then show ?thesis using Cons.prems(2) unfolding chained_def by (auto simp: nth_append less_Suc_eq)
    qed
    then show ?case using Cons.IH [OF rest] by simp
  qed simp
  from this [of "[]" rs] show ?thesis using assms by (simp add: load_journal_def chained_def)
qed

lemma ingest_elim:
  assumes "ingest_qemu_log sha jsha iso_ok captured run journal data = Inr (journal', n)"
  obtains events existing added where "parse_qemu_log data = Inr events" "load_journal jsha iso_ok journal = Inr existing" "n = length added"
    "journal' = journal @ map journal_line added" "load_journal jsha iso_ok journal' = Inr (existing @ added)"
    "\<forall>c \<in> set events. sha (event_text (sha data) c) \<in> set (map tr_event (existing @ added))"
proof -
  obtain events existing records where p: "parse_qemu_log data = Inr events" "load_journal jsha iso_ok journal = Inr existing"
    and f: "foldM (ingest_event sha jsha iso_ok captured run (sha data)) existing events = Inr records"
    and j: "journal' = journal @ map journal_line (drop (length existing) records)" "n = length (drop (length existing) records)"
    using assms by (auto simp: ingest_qemu_log_def res_simps Let_def)
  obtain added where a: "records = existing @ added" "foldM (load_line jsha iso_ok) existing (map journal_line added) = Inr records"
    "\<forall>c \<in> set events. sha (event_text (sha data) c) \<in> set (map tr_event records)" using ingest_events [OF f] by blast
  have "load_journal jsha iso_ok journal' = Inr (existing @ added)" using p(2) a j(1) by (simp add: load_journal_def foldM_append)
  then show thesis using that [OF p, of added] a j by simp
qed

text \<open>
  C8. Ingestion keeps the journal: whatever SHA-256, the clock and the log are, the journal left
  by a successful ingestion extends the old one, loads again, has the announced number of new
  records, consecutive numbers, linked hashes and no event or run binding twice. In particular
  no line it writes exceeds the reader's bound of 16384 bytes.
\<close>

theorem ingest_keeps_journal:
  assumes "ingest_qemu_log sha jsha iso_ok captured run journal data = Inr (journal', n)"
  shows "\<exists>records. load_journal jsha iso_ok journal' = Inr records \<and> chained jsha records \<and> length records = length journal + n \<and>
    take (length journal) journal' = journal"
  using assms
proof (cases rule: ingest_elim)
  case (1 events existing added)
  then show ?thesis using load_chained [OF 1(5)] load_chained [OF 1(2)] by simp
qed

text \<open>
  C10. Ingestion is idempotent: once a log has been ingested, ingesting it again, at any time and
  under any valid run name, succeeds, adds no record and leaves the journal as it is.
\<close>

theorem ingest_idempotent:
  assumes "ingest_qemu_log sha jsha iso_ok captured run journal data = Inr (journal', n)" and "bounded_token run' 128"
  shows "ingest_qemu_log sha jsha iso_ok captured' run' journal' data = Inr (journal', 0)"
  using assms(1)
proof (cases rule: ingest_elim)
  case (1 events existing added)
  have "foldM (ingest_event sha jsha iso_ok captured' run' (sha data)) records cs = Inr records"
    if "\<forall>c \<in> set cs. sha (event_text (sha data) c) \<in> set (map tr_event records)" for cs records
    using that by (induction cs) (simp_all add: ingest_event_def)
  from this [OF 1(6)] show ?thesis using 1(1,5) assms(2) by (simp add: ingest_qemu_log_def)
qed

section \<open>Tampering\<close>

lemma output_dict_inject: "output_dict a = output_dict b \<longleftrightarrow> a = b"
  by (cases a; cases b) (simp add: output_dict_def)

lemma payload_inject:
  assumes "payload a = payload b" "tr_hash a = tr_hash b"
  shows "a = b"
proof -
  have "map output_dict (tr_outputs a) = map output_dict (tr_outputs b) \<Longrightarrow> tr_outputs a = tr_outputs b"
    by (rule map_injective) (auto simp: inj_def output_dict_inject)
  then show ?thesis using assms by (cases a; cases b) (simp add: payload_def)
qed

text \<open>
  C9. The last hash pins the journal: two journals that load and end in the same record hash
  have the same records, all of them, unless two different payloads among them collide.
\<close>

theorem journal_tamper_evident:
  assumes "load_journal jsha iso_ok journal = Inr rs" "load_journal jsha iso_ok journal' = Inr rs'" and "rs \<noteq> []" "rs' \<noteq> []"
    and "tr_hash (last rs) = tr_hash (last rs')"
    and no_collision: "\<forall>r \<in> set rs. \<forall>r' \<in> set rs'. jsha (payload r) = jsha (payload r') \<longrightarrow> payload r = payload r'"
  shows "rs = rs'"
proof -
  have c: "chained jsha rs" "chained jsha rs'" using load_chained assms(1,2) by blast+
  have same: "rs ! i = rs' ! j" if "i < length rs" "j < length rs'" "tr_hash (rs ! i) = tr_hash (rs' ! j)" for i j
  proof (rule payload_inject)
    show "payload (rs ! i) = payload (rs' ! j)" using that c no_collision unfolding chained_def by auto
  qed (rule that(3))
  have number: "tr_sequence (rs ! i) = int i + 1" if "i < length rs" for i using that c unfolding chained_def by blast
  have number': "tr_sequence (rs' ! i) = int i + 1" if "i < length rs'" for i using that c unfolding chained_def by blast
  let ?n = "length rs"
  have "rs ! (?n - 1) = rs' ! (length rs' - 1)" using assms(3,4,5) by (intro same) (simp_all add: last_conv_nth)
  have pos: "?n - 1 < ?n" "length rs' - 1 < length rs'" using assms(3,4) by auto
  have "int (?n - 1) = int (length rs' - 1)" using number [OF pos(1)] number' [OF pos(2)] \<open>rs ! (?n - 1) = rs' ! (length rs' - 1)\<close> by simp
  then have len: "length rs' = ?n" using pos by linarith
  have backward: "rs ! (?n - Suc k) = rs' ! (?n - Suc k)" if "k < ?n" for k
    using that
  proof (induction k)
    case 0
    then show ?case using \<open>rs ! (?n - 1) = rs' ! (length rs' - 1)\<close> len by simp
  next
    case (Suc k)
    define i where "i = ?n - Suc k"
    have i: "0 < i" "i < ?n" "?n - Suc (Suc k) = i - 1" using Suc.prems by (auto simp: i_def)
    have "tr_previous (rs ! i) = tr_previous (rs' ! i)" using Suc by (simp add: i_def)
    moreover have "tr_previous (rs ! i) = tr_hash (rs ! (i - 1))" "tr_previous (rs' ! i) = tr_hash (rs' ! (i - 1))"
      using c i len unfolding chained_def by (auto simp: last_conv_nth dest!: spec [of _ i])
    ultimately show ?case unfolding i(3) using i len by (intro same) auto
  qed
  have "rs ! i = rs' ! i" if "i < ?n" for i
    using backward [of "?n - Suc i"] that by (simp add: Suc_diff_Suc)
  then show ?thesis using len by (intro nth_equalityI) simp_all
qed

section \<open>An example\<close>

definition demo_frame :: string where
  "demo_frame = ''RAVEIL-COMPLETION-V1 job=1 epoch=1 sequence=7 cookie=10000000000000000000000000000000 status=1 detail=0 smoke_path_ticks=5 outputs=1:1:2,3:1:1'' @ [CHR 0x0A]"

definition demo_text_sha :: "string \<Rightarrow> string" where "demo_text_sha s = replicate 64 CHR ''a''"
definition demo_json_sha :: "(string \<times> json) list \<Rightarrow> string" where "demo_json_sha d = replicate 64 CHR ''b''"

definition demo_outputs :: "completion_output list" where
  "demo_outputs = [\<lparr>co_object = 1, co_generation = 1, co_version = 2\<rparr>, \<lparr>co_object = 3, co_generation = 1, co_version = 1\<rparr>]"

definition demo_completion :: parsed_completion where
  "demo_completion = \<lparr>pc_job = 1, pc_epoch = 1, pc_sequence = 7, pc_cookie = CHR ''1'' # replicate 31 CHR ''0'', pc_status = 1, pc_detail = 0, pc_ticks = 5,
     pc_outputs = map output_dict demo_outputs, pc_line = 1\<rparr>"

definition demo_record :: telemetry_record where
  "demo_record = \<lparr>tr_sequence = 1, tr_run = ''run-1'', tr_captured = ''2026-01-01T00:00:00Z'', tr_log = replicate 64 CHR ''a'', tr_line = 1, tr_event = replicate 64 CHR ''a'',
     tr_binding = replicate 64 CHR ''a'', tr_job = 1, tr_epoch = 1, tr_execution = 7, tr_cookie = replicate 64 CHR ''a'', tr_status = 1, tr_detail = 0, tr_ticks = 5,
     tr_outputs = demo_outputs, tr_previous = ZERO_HASH, tr_hash = replicate 64 CHR ''b''\<rparr>"

definition demo_ingest :: "(json list \<times> nat) res" where
  "demo_ingest = ingest_qemu_log demo_text_sha demo_json_sha (\<lambda>_. True) ''2026-01-01T00:00:00Z'' ''run-1'' [] demo_frame"

lemma demo_parsed: "parse_qemu_log demo_frame = Inr [demo_completion]"
  by code_simp

lemma demo_valid: "validate_record demo_json_sha (\<lambda>_. True) (record_dict demo_record) = Inr demo_record"
  by code_simp

lemma demo_run: "bounded_token ''run-1'' 128" "bounded_token ''run-2'' 128"
  by code_simp+

lemma demo_ingested: "demo_ingest = Inr ([journal_line demo_record], 1)"
proof -
  have new: "new_record demo_text_sha demo_json_sha ''2026-01-01T00:00:00Z'' ''run-1'' (demo_text_sha demo_frame) [] demo_completion = demo_record"
    by (simp add: new_record_def with_hash_def demo_completion_def demo_record_def demo_text_sha_def demo_json_sha_def demo_outputs_def)
  have "ingest_event demo_text_sha demo_json_sha (\<lambda>_. True) ''2026-01-01T00:00:00Z'' ''run-1'' (demo_text_sha demo_frame) [] demo_completion = Inr [demo_record]"
    unfolding ingest_event_def new Let_def by (simp add: demo_valid)
  then show ?thesis by (simp add: demo_ingest_def ingest_qemu_log_def demo_parsed demo_run load_journal_def)
qed

theorem ingest_keeps_journal_witness:
  "demo_ingest = Inr ([journal_line demo_record], 1) \<and>
     (\<exists>records. load_journal demo_json_sha (\<lambda>_. True) [journal_line demo_record] = Inr records \<and> chained demo_json_sha records \<and> length records = 1)"
  using ingest_keeps_journal [OF demo_ingested [unfolded demo_ingest_def]] demo_ingested by auto

theorem ingest_idempotent_witness:
  "demo_ingest = Inr ([journal_line demo_record], 1) \<and> bounded_token ''run-2'' 128 \<and>
     ingest_qemu_log demo_text_sha demo_json_sha (\<lambda>_. True) ''later'' ''run-2'' [journal_line demo_record] demo_frame = Inr ([journal_line demo_record], 0)"
  using ingest_idempotent [OF demo_ingested [unfolded demo_ingest_def] demo_run(2)] demo_ingested demo_run(2) by blast

lemma demo_loaded: "load_journal demo_json_sha (\<lambda>_. True) [journal_line demo_record] = Inr [demo_record]"
proof -
  have "load_line demo_json_sha (\<lambda>_. True) [] (journal_line demo_record) = Inr ([] @ [demo_record])"
    by (rule load_own_line [OF demo_valid]) (simp_all add: demo_record_def)
  then show ?thesis by (simp add: load_journal_def)
qed

text \<open>The same line with its fields in the opposite order has the same canonical text.\<close>

theorem journal_tamper_evident_witness:
  "\<exists>rs. load_journal demo_json_sha (\<lambda>_. True) [JDict (rev (record_dict demo_record))] = Inr rs \<and> rs = [demo_record]"
proof -
  have "(case load_journal demo_json_sha (\<lambda>_. True) [JDict (rev (record_dict demo_record))] of Inr [r] \<Rightarrow> payload demo_record = payload r \<and> tr_hash demo_record = tr_hash r | _ \<Rightarrow> False)"
    by code_simp
  then obtain r where l: "load_journal demo_json_sha (\<lambda>_. True) [JDict (rev (record_dict demo_record))] = Inr [r]" and p: "payload demo_record = payload r" "tr_hash demo_record = tr_hash r"
    by (auto split: sum.splits list.splits)
  have "[demo_record] = [r]" by (rule journal_tamper_evident [OF demo_loaded l]) (use p in simp_all)
  then show ?thesis using l by simp
qed

end
