(* ===== verification/Static_Region.thy ===== *)
theory Static_Region
  imports Graph_Program
begin

text \<open>
  \<open>raveil/static_region.py\<close>: the one descriptor the static RTL region admits, the validator
  that recomputes its structural invariants, and the stencil oracle.
  \<open>StaticRegionContractError\<close> is a \<open>ValueError\<close>; comparisons of JSON values are Python's \<open>==\<close>
  (\<open>py_eq\<close>), so the validator accepts \<open>True\<close> for \<open>1\<close> and any order of dictionary keys.
\<close>

section \<open>The compiler\<close>

definition STATIC_SCHEMA :: string where "STATIC_SCHEMA = ''raveil.static-region/v1''"
definition COMPILER_IDENTITY :: string where "COMPILER_IDENTITY = ''raveil.static-stencil-compiler/v1''"
definition ORACLE_IDENTITY :: string where "ORACLE_IDENTITY = ''raveil.static-stencil-oracle/v1''"
definition TARGET_SIGNATURE :: string where "TARGET_SIGNATURE = ''raveil.chisel.static-stencil-region/v1''"

definition jtexts :: "string list \<Rightarrow> json" where
  "jtexts xs = JList (map JStr xs)"

definition effect_json :: "string \<Rightarrow> string \<Rightarrow> string \<Rightarrow> json" where
  "effect_json kind object formula = JDict [(''kind'', JStr kind), (''object'', JStr object), (''affine'', JStr formula)]"

definition static_affine :: "(string \<times> string) list" where
  "static_affine = [(''load_center'', ''18*y+x''), (''load_north'', ''18*(y-1)+x''), (''load_south'', ''18*(y+1)+x''),
     (''load_west'', ''18*y+x-1''), (''load_east'', ''18*y+x+1''), (''store_output'', ''16*(y-1)+(x-1)'')]"

definition static_nodes :: json where
  "static_nodes = JList (
     map (\<lambda>(name, formula). JDict [(''id'', JStr name), (''op'', JStr ''LOAD_U32''), (''effect'', effect_json ''READ'' ''A'' formula)]) (take 5 static_affine) @
     map (\<lambda>name. JDict [(''id'', JStr name), (''op'', JStr ''ADD_U32'')]) [''add_0'', ''add_1'', ''add_2'', ''add_3''] @
     [JDict [(''id'', JStr ''store_output''), (''op'', JStr ''STORE_U32''), (''effect'', effect_json ''WRITE'' ''B'' ''16*(y-1)+(x-1)'')]])"

definition static_edge_list :: "(string \<times> string \<times> int) list" where
  "static_edge_list = [(''load_center'', ''add_0'', 0), (''load_north'', ''add_0'', 1), (''add_0'', ''add_1'', 0),
     (''load_south'', ''add_1'', 1), (''add_1'', ''add_2'', 0), (''load_west'', ''add_2'', 1), (''add_2'', ''add_3'', 0),
     (''load_east'', ''add_3'', 1), (''add_3'', ''store_output'', 0)]"

definition edge_json :: "string \<times> string \<times> int \<Rightarrow> json" where
  "edge_json e = (case e of (p, c, k) \<Rightarrow> JDict [(''producer'', JStr p), (''consumer'', JStr c), (''input'', JInt k)])"

definition static_schedule :: "(int \<times> string list) list" where
  "static_schedule = [(0, [''load_center'']), (1, [''load_north'', ''add_0'']), (2, [''load_south'', ''add_1'']),
     (3, [''load_west'', ''add_2'']), (4, [''load_east'', ''add_3'']), (5, [''store_output''])]"

definition schedule_json :: json where
  "schedule_json = JList (map (\<lambda>(k, ns). JDict [(''cycle'', JInt k), (''nodes'', jtexts ns)]) static_schedule)"

definition workload_json :: json where
  "workload_json = JDict [(''name'', JStr ''five-point-stencil-u32''), (''input_shape'', JList [JInt 18, JInt 18]), (''output_shape'', JList [JInt 16, JInt 16]),
     (''iteration'', JDict [(''y'', JList [JInt 1, JInt 16]), (''x'', JList [JInt 1, JInt 16]), (''order'', JStr ''row-major'')]),
     (''arithmetic'', JStr ''uint32-modulo-2^32'')]"

definition object_a :: json where
  "object_a = JDict [(''id'', JStr ''A''), (''effect'', JStr ''READ''), (''element_type'', JStr ''uint32''), (''elements'', JInt 324), (''bytes'', JInt 1296),
     (''binding'', JStr ''read-only''), (''requires_disjoint_from'', jtexts [''B''])]"

definition object_b :: json where
  "object_b = JDict [(''id'', JStr ''B''), (''effect'', JStr ''WRITE''), (''element_type'', JStr ''uint32''), (''elements'', JInt 256), (''bytes'', JInt 1024),
     (''binding'', JStr ''exclusive-private-output''), (''publication'', JStr ''host-after-independent-validation''), (''requires_disjoint_from'', jtexts [''A''])]"

definition resources_json :: json where
  "resources_json = JDict [(''integer_adders'', JInt 1), (''scratchpad_read_ports'', JInt 1), (''scratchpad_write_ports'', JInt 1), (''runtime_ready_slots'', JInt 0)]"

definition bounds_json :: json where
  "bounds_json = JDict [(''max_nodes'', JInt 64), (''max_edges'', JInt 128), (''active_invocations'', JInt 1), (''installed_templates'', JInt 1),
     (''cycles_per_output'', JInt 6), (''outputs_per_invocation'', JInt 256), (''max_cycles'', JInt 8192)]"

definition fallback_json :: json where
  "fallback_json = JDict [(''isa'', JStr ''RV64IM''), (''restart'', JStr ''from-beginning''), (''unknown_alias'', JStr ''reject-before-start'')]"

definition exclusions :: "string list" where
  "exclusions = [''branch'', ''indirect-address'', ''atomics'', ''volatile'', ''mmio'', ''coherent-shared-write'', ''runtime-token-issue'',
     ''register-rename'', ''reorder-buffer'', ''general-lsu'', ''commit-frontier'', ''issue-mode-switching'', ''precise-mid-region-restart'']"

definition compile_static_stencil_descriptor :: "(string \<times> json) list" where
  "compile_static_stencil_descriptor =
     [(''schema'', JStr STATIC_SCHEMA), (''compiler_identity'', JStr COMPILER_IDENTITY), (''oracle_identity'', JStr ORACLE_IDENTITY),
      (''target_signature'', JStr TARGET_SIGNATURE), (''workload'', workload_json), (''objects'', JList [object_a, object_b]),
      (''nodes'', static_nodes), (''edges'', JList (map edge_json static_edge_list)), (''schedule'', schedule_json), (''resources'', resources_json),
      (''bounds'', bounds_json), (''fallback'', fallback_json), (''excluded'', jtexts exclusions)]"

section \<open>The validator\<close>

definition top_level :: "string set" where
  "top_level = {''schema'', ''compiler_identity'', ''oracle_identity'', ''target_signature'', ''workload'', ''objects'', ''nodes'', ''edges'', ''schedule'',
     ''resources'', ''bounds'', ''fallback'', ''excluded''}"

definition check_identity :: "(string \<times> json) list \<Rightarrow> unit res" where
  "check_identity d =
     rbind (reject (keys d \<noteq> top_level) (ValueError ''descriptor fields changed'')) (\<lambda>_.
     rbind (reject (\<not> expect d ''schema'' (JStr STATIC_SCHEMA)) (ValueError ''unsupported schema'')) (\<lambda>_.
     rbind (reject (\<not> expect d ''target_signature'' (JStr TARGET_SIGNATURE)) (ValueError ''unsupported target'')) (\<lambda>_.
     rbind (reject (\<not> expect d ''compiler_identity'' (JStr COMPILER_IDENTITY)) (ValueError ''unsupported compiler'')) (\<lambda>_.
     rbind (reject (\<not> expect d ''oracle_identity'' (JStr ORACLE_IDENTITY)) (ValueError ''unsupported oracle'')) (\<lambda>_.
     reject (\<not> expect d ''workload'' workload_json) (ValueError ''workload is outside the accepted stencil''))))))"

text \<open>A dictionary key or set element: lists and dictionaries are not hashable.\<close>

definition hash_key :: "json \<Rightarrow> json res" where
  "hash_key j = (case j of JList _ \<Rightarrow> Inl TypeError | JDict _ \<Rightarrow> Inl TypeError | _ \<Rightarrow> Inr j)"

definition get_or_null :: "(string \<times> json) list \<Rightarrow> string \<Rightarrow> json" where
  "get_or_null d k = (case map_of d k of Some j \<Rightarrow> j | None \<Rightarrow> JNull)"

text \<open>\<open>{item.get("id"): item for item in objects if isinstance(item, dict)}\<close>: later items win.\<close>

definition object_table :: "json list \<Rightarrow> (json \<times> (string \<times> json) list) list res" where
  "object_table objects = rbind (mapM (\<lambda>kv. rbind (hash_key (get_or_null kv ''id'')) (\<lambda>k. Inr (k, kv)))
     (concat (map (\<lambda>j. case j of JDict kv \<Rightarrow> [kv] | _ \<Rightarrow> []) objects))) (\<lambda>kvs. Inr (rev kvs))"

definition check_object_fields :: "(json \<times> (string \<times> json) list) list \<Rightarrow> unit res" where
  "check_object_fields by_object =
     rbind (mget (map_of by_object) (JStr ''A'')) (\<lambda>a.
     rbind (reject (\<not> (expect a ''effect'' (JStr ''READ'') \<and> expect a ''element_type'' (JStr ''uint32'') \<and> expect a ''elements'' (JInt 324) \<and>
              expect a ''bytes'' (JInt 1296) \<and> expect a ''binding'' (JStr ''read-only''))) (ValueError ''A must be the bounded read object'')) (\<lambda>_.
     rbind (mget (map_of by_object) (JStr ''B'')) (\<lambda>b.
     rbind (reject (\<not> (expect b ''effect'' (JStr ''WRITE'') \<and> expect b ''element_type'' (JStr ''uint32'') \<and> expect b ''elements'' (JInt 256) \<and>
              expect b ''bytes'' (JInt 1024) \<and> expect b ''publication'' (JStr ''host-after-independent-validation''))) (ValueError ''B must be the bounded write object'')) (\<lambda>_.
     rbind (reject (\<not> expect a ''requires_disjoint_from'' (jtexts [''B''])) (ValueError ''A must require disjoint B'')) (\<lambda>_.
     rbind (reject (\<not> expect b ''requires_disjoint_from'' (jtexts [''A''])) (ValueError ''B must require disjoint A'')) (\<lambda>_.
     rbind (reject (\<not> expect b ''binding'' (JStr ''exclusive-private-output'')) (ValueError ''B must remain a private output'')) (\<lambda>_.
     rbind (reject (keys a \<noteq> {''id'', ''effect'', ''element_type'', ''elements'', ''bytes'', ''binding'', ''requires_disjoint_from''}) (ValueError ''A object fields changed'')) (\<lambda>_.
     reject (keys b \<noteq> {''id'', ''effect'', ''element_type'', ''elements'', ''bytes'', ''binding'', ''publication'', ''requires_disjoint_from''}) (ValueError ''B object fields changed'')))))))))"

definition check_objects :: "(string \<times> json) list \<Rightarrow> unit res" where
  "check_objects d =
     rbind (want_list (map_of d ''objects'') ''exactly two objects are required'') (\<lambda>objects.
     rbind (reject (length objects \<noteq> 2) (ValueError ''exactly two objects are required'')) (\<lambda>_.
     rbind (object_table objects) (\<lambda>by_object.
     rbind (reject (set (map fst by_object) \<noteq> {JStr ''A'', JStr ''B''}) (ValueError ''object identities must be A and B'')) (\<lambda>_.
     check_object_fields by_object))))"

text \<open>\<open>len(xs) > bounds.get(key, -1)\<close>\<close>

definition bound_exceeded :: "nat \<Rightarrow> (string \<times> json) list \<Rightarrow> string \<Rightarrow> bool res" where
  "bound_exceeded k bounds field = (case map_of bounds field of
     None \<Rightarrow> Inr True
   | Some (JInt n) \<Rightarrow> Inr (n < int k)
   | Some (JBool b) \<Rightarrow> Inr ((if b then 1 else 0) < k)
   | _ \<Rightarrow> Inl TypeError)"

definition check_shape :: "(string \<times> json) list \<Rightarrow> (json list \<times> json list) res" where
  "check_shape d =
     (let msg = ''nodes, edges, and bounds are required''
      in rbind (want_list (map_of d ''nodes'') msg) (\<lambda>nodes.
         rbind (want_list (map_of d ''edges'') msg) (\<lambda>edges.
         rbind (want_dict (map_of d ''bounds'') msg) (\<lambda>bounds.
         rbind (bound_exceeded (length nodes) bounds ''max_nodes'') (\<lambda>b.
         rbind (reject (b \<or> length nodes \<noteq> 10) (ValueError ''node bound or exact graph shape failed'')) (\<lambda>_.
         rbind (bound_exceeded (length edges) bounds ''max_edges'') (\<lambda>b.
         rbind (reject (b \<or> length edges \<noteq> 9) (ValueError ''edge bound or exact graph shape failed'')) (\<lambda>_.
         Inr (nodes, edges)))))))))"

record static_node =
  sn_id :: string
  sn_op :: string
  sn_effect :: "json option"

definition static_op :: "string \<Rightarrow> string option" where
  "static_op s = (if s \<in> {''LOAD_U32'', ''ADD_U32'', ''STORE_U32''} then Some s else None)"

definition read_static_node :: "static_node list \<Rightarrow> json \<Rightarrow> static_node list res" where
  "read_static_node by_node j =
     rbind (want_dict (Some j) ''node identity is missing'') (\<lambda>kv.
     rbind (want_str (map_of kv ''id'') ''node identity is missing'') (\<lambda>name.
     rbind (reject (name \<in> sn_id ` set by_node) (ValueError ''duplicate node identity'')) (\<lambda>_.
     rbind (in_texts (map_of kv ''op'') static_op) (\<lambda>known.
     rbind (want known ''unsupported operation'') (\<lambda>o'.
     rbind (reject (keys kv \<noteq> (if o' \<in> {''LOAD_U32'', ''STORE_U32''} then {''id'', ''op'', ''effect''} else {''id'', ''op''})) (ValueError ''node fields changed'')) (\<lambda>_.
     Inr (by_node @ [\<lparr>sn_id = name, sn_op = o', sn_effect = map_of kv ''effect''\<rparr>])))))))"

definition endpoint :: "static_node list \<Rightarrow> (string \<times> json) list \<Rightarrow> string \<Rightarrow> string res" where
  "endpoint by_node kv k =
     rbind (in_texts (map_of kv k) (\<lambda>s. if s \<in> sn_id ` set by_node then Some s else None)) (\<lambda>s.
     want s ''edge endpoint is missing'')"

text \<open>\<open>input_index not in {0, 1}\<close>: \<open>False\<close> and \<open>True\<close> are in that set.\<close>

definition input_index :: "(string \<times> json) list \<Rightarrow> int res" where
  "input_index kv = (case map_of kv ''input'' of
     Some (JInt n) \<Rightarrow> if n = 0 \<or> n = 1 then Inr n else Inl (ValueError ''consumer input is invalid or multiply produced'')
   | Some (JBool b) \<Rightarrow> Inr (if b then 1 else 0)
   | Some (JList _) \<Rightarrow> Inl TypeError
   | Some (JDict _) \<Rightarrow> Inl TypeError
   | _ \<Rightarrow> Inl (ValueError ''consumer input is invalid or multiply produced''))"

text \<open>The lookup of the consumer is that of \<open>indegree[consumer] += 1\<close>.\<close>

definition node_named :: "static_node list \<Rightarrow> string \<Rightarrow> static_node res" where
  "node_named by_node name = (case find (\<lambda>n. sn_id n = name) by_node of None \<Rightarrow> Inl KeyError | Some n \<Rightarrow> Inr n)"

definition read_static_edge :: "static_node list \<Rightarrow> (string \<times> string \<times> int) list \<Rightarrow> json \<Rightarrow> (string \<times> string \<times> int) list res" where
  "read_static_edge by_node seen j =
     rbind (want_dict (Some j) ''edge must be an object'') (\<lambda>kv.
     rbind (reject (keys kv \<noteq> {''producer'', ''consumer'', ''input''}) (ValueError ''edge fields changed'')) (\<lambda>_.
     rbind (endpoint by_node kv ''producer'') (\<lambda>p.
     rbind (endpoint by_node kv ''consumer'') (\<lambda>c.
     rbind (input_index kv) (\<lambda>k.
     rbind (reject ((c, k) \<in> set (map snd seen)) (ValueError ''consumer input is invalid or multiply produced'')) (\<lambda>_.
     rbind (node_named by_node c) (\<lambda>_.
     Inr (seen @ [(p, c, k)]))))))))"

subsection \<open>The acyclicity check\<close>

type_synonym degrees = "(string \<times> int) list"

definition indegrees :: "static_node list \<Rightarrow> (string \<times> string \<times> int) list \<Rightarrow> degrees" where
  "indegrees by_node edges = map (\<lambda>n. (sn_id n, int (length (filter (\<lambda>(p, c, k). c = sn_id n) edges)))) by_node"

definition successors :: "(string \<times> string \<times> int) list \<Rightarrow> string \<Rightarrow> string list" where
  "successors edges name = map (fst \<circ> snd) (filter (\<lambda>(p, c, k). p = name) edges)"

definition relax :: "string list \<times> degrees \<Rightarrow> string \<Rightarrow> string list \<times> degrees" where
  "relax p s = (case p of (queue, deg) \<Rightarrow>
     (let deg' = map (\<lambda>(n, d). if n = s then (n, d - 1) else (n, d)) deg
      in if map_of deg' s = Some 0 then (queue @ [s], deg') else (queue, deg')))"

definition open_work :: "string list \<times> degrees \<Rightarrow> nat" where
  "open_work p = length (fst p) + length (filter (\<lambda>(_, d). 0 < d) (snd p))"

lemma decrement_work:
  fixes deg :: degrees and s :: string
  defines "dec \<equiv> map (\<lambda>(n, d). if n = s then (n, d - 1) else (n, d)) deg"
  shows "length (filter (\<lambda>(_, d). 0 < d) dec) \<le> length (filter (\<lambda>(_, d). 0 < d) deg)"
    "map_of dec s = Some 0 \<Longrightarrow> length (filter (\<lambda>(_, d). 0 < d) dec) < length (filter (\<lambda>(_, d). 0 < d) deg)"
  unfolding dec_def
proof (induction deg)
  case (Cons a deg)
  obtain n d where a: "a = (n, d)" by (cases a)
  { case 1 show ?case using Cons(1) by (cases "n = s") (simp_all add: a) }
  { case 2 then show ?case using Cons by (cases "n = s") (simp_all add: a) }
qed simp_all

lemma relax_work: "open_work (relax p s) \<le> open_work p"
  using decrement_work [of s "snd p"] by (cases p) (auto simp: relax_def open_work_def Let_def)

lemma relax_all_work: "open_work (foldl relax p ss) \<le> open_work p"
  by (induction ss arbitrary: p) (simp, metis foldl_Cons order_trans relax_work)

lemma relax_smaller:
  "open_work (foldl relax (rest, deg) ss) < open_work (current # rest, deg)"
  using relax_all_work [of "(rest, deg)" ss] by (simp add: open_work_def)

function kahn :: "(string \<times> string \<times> int) list \<Rightarrow> string list \<Rightarrow> degrees \<Rightarrow> nat \<Rightarrow> nat" where
  "kahn edges queue deg visited = (case queue of
     [] \<Rightarrow> visited
   | current # rest \<Rightarrow> (case foldl relax (rest, deg) (successors edges current) of (queue', deg') \<Rightarrow> kahn edges queue' deg' (visited + 1)))"
  by pat_completeness auto
termination
  by (relation "measure (\<lambda>(edges, queue, deg, visited). open_work (queue, deg))") (auto simp: relax_smaller)

declare kahn.simps [simp del]

definition check_edges :: "static_node list \<Rightarrow> (string \<times> string \<times> int) list \<Rightarrow> unit res" where
  "check_edges by_node edges =
     rbind (reject (set edges \<noteq> set static_edge_list) (ValueError ''dependency graph changed'')) (\<lambda>_.
     (let deg = indegrees by_node edges
      in reject (kahn edges (map fst (filter (\<lambda>(_, d). d = 0) deg)) deg 0 \<noteq> length by_node) (ValueError ''graph must be acyclic'')))"

subsection \<open>Effects, schedule and contracts\<close>

text \<open>\<open>node.get("effect", {}).get("object")\<close>\<close>

definition effect_object :: "static_node \<Rightarrow> json res" where
  "effect_object n = (case sn_effect n of
     None \<Rightarrow> Inr JNull
   | Some (JDict kv) \<Rightarrow> Inr (get_or_null kv ''object'')
   | Some _ \<Rightarrow> Inl AttributeError)"

definition effect_of :: "string \<Rightarrow> string \<Rightarrow> json" where
  "effect_of name formula = (if name = ''store_output'' then effect_json ''WRITE'' ''B'' formula else effect_json ''READ'' ''A'' formula)"

definition check_effect :: "static_node list \<Rightarrow> string \<times> string \<Rightarrow> unit res" where
  "check_effect by_node p = (case p of (name, formula) \<Rightarrow>
     rbind (node_named by_node name) (\<lambda>n.
     reject (\<not> py_eq (case sn_effect n of None \<Rightarrow> JNull | Some e \<Rightarrow> e) (effect_of name formula)) (ValueError ''operation effect contract changed'')))"

definition nodes_with :: "string \<Rightarrow> static_node list \<Rightarrow> static_node list" where
  "nodes_with o' by_node = filter (\<lambda>n. sn_op n = o') by_node"

definition check_effects :: "static_node list \<Rightarrow> unit res" where
  "check_effects by_node =
     rbind (reject (length (nodes_with ''LOAD_U32'' by_node) \<noteq> 5 \<or> length (nodes_with ''ADD_U32'' by_node) \<noteq> 4 \<or> length (nodes_with ''STORE_U32'' by_node) \<noteq> 1)
              (ValueError ''operation counts do not match the contract'')) (\<lambda>_.
     rbind (foldM (\<lambda>_ n. rbind (effect_object n) (\<lambda>j. reject (j \<noteq> JStr ''A'') (ValueError ''all loads must read A''))) () (nodes_with ''LOAD_U32'' by_node)) (\<lambda>_.
     rbind (py_nth (nodes_with ''STORE_U32'' by_node) 0) (\<lambda>store.
     rbind (effect_object store) (\<lambda>j.
     rbind (reject (j \<noteq> JStr ''B'') (ValueError ''the store must write B'')) (\<lambda>_.
     foldM (\<lambda>_. check_effect by_node) () static_affine)))))"

text \<open>
  After the comparison with the six fixed cycles the code reads the schedule again; the values
  it reads are equal to those of \<open>static_schedule\<close>.
\<close>

definition node_cycle :: "string \<Rightarrow> int res" where
  "node_cycle name = dget (concat (map (\<lambda>(k, ns). map (\<lambda>n. (n, k)) ns) static_schedule)) name"

definition check_dependency :: "string \<times> string \<times> int \<Rightarrow> unit res" where
  "check_dependency e = (case e of (p, c, _) \<Rightarrow>
     rbind (node_cycle p) (\<lambda>i. rbind (node_cycle c) (\<lambda>j. reject (i > j) (ValueError ''schedule violates a dependency''))))"

definition check_ports :: "static_node list \<Rightarrow> int \<times> string list \<Rightarrow> unit res" where
  "check_ports by_node item =
     rbind (mapM (node_named by_node) (snd item)) (\<lambda>ns.
     rbind (reject (length (nodes_with ''LOAD_U32'' ns) > 1) (ValueError ''schedule exceeds the read-port bound'')) (\<lambda>_.
     rbind (reject (length (nodes_with ''ADD_U32'' ns) > 1) (ValueError ''schedule exceeds the adder bound'')) (\<lambda>_.
     reject (length (nodes_with ''STORE_U32'' ns) > 1) (ValueError ''schedule exceeds the write-port bound''))))"

definition check_schedule :: "(string \<times> json) list \<Rightarrow> static_node list \<Rightarrow> (string \<times> string \<times> int) list \<Rightarrow> unit res" where
  "check_schedule d by_node edges =
     (let scheduled = concat (map snd static_schedule)
      in rbind (reject (\<not> expect d ''schedule'' schedule_json) (ValueError ''schedule must have six fixed cycles'')) (\<lambda>_.
         rbind (reject (\<not> distinct scheduled \<or> set scheduled \<noteq> sn_id ` set by_node) (ValueError ''every node must be scheduled exactly once'')) (\<lambda>_.
         rbind (foldM (\<lambda>_. check_dependency) () edges) (\<lambda>_.
         foldM (\<lambda>_. check_ports by_node) () static_schedule))))"

definition check_contracts :: "(string \<times> json) list \<Rightarrow> unit res" where
  "check_contracts d =
     rbind (reject (\<not> expect d ''resources'' resources_json) (ValueError ''resource contract changed'')) (\<lambda>_.
     rbind (reject (\<not> expect d ''bounds'' bounds_json) (ValueError ''bounds changed'')) (\<lambda>_.
     rbind (reject (\<not> expect d ''fallback'' fallback_json) (ValueError ''fallback contract changed'')) (\<lambda>_.
     rbind (want_list (map_of d ''excluded'') ''exclusions must be a list'') (\<lambda>items.
     rbind (mapM hash_key items) (\<lambda>_.
     reject (set items \<noteq> JStr ` set exclusions \<or> length items \<noteq> length exclusions) (ValueError ''an ADR-0039 exclusion is missing''))))))"

definition validate_static_stencil_descriptor :: "(string \<times> json) list \<Rightarrow> unit res" where
  "validate_static_stencil_descriptor d =
     rbind (check_identity d) (\<lambda>_.
     rbind (check_objects d) (\<lambda>_.
     rbind (check_shape d) (\<lambda>(nodes, edges).
     rbind (foldM read_static_node [] nodes) (\<lambda>by_node.
     rbind (foldM (read_static_edge by_node) [] edges) (\<lambda>es.
     rbind (check_edges by_node es) (\<lambda>_.
     rbind (check_effects by_node) (\<lambda>_.
     rbind (check_schedule d by_node es) (\<lambda>_.
     check_contracts d))))))))"

section \<open>The oracle\<close>

definition stencil_cell :: "int list \<Rightarrow> nat \<Rightarrow> nat \<Rightarrow> int" where
  "stencil_cell words y x =
     (let center = 18 * y + x
      in take_bit 32 (words ! center + words ! (center - 18) + words ! (center + 18) + words ! (center - 1) + words ! (center + 1)))"

definition static_stencil_oracle :: "int list \<Rightarrow> int list res" where
  "static_stencil_oracle input_words =
     rbind (reject (length input_words \<noteq> 324) (ValueError ''the oracle requires exactly 324 input words'')) (\<lambda>_.
     Inr (grid_list 16 16 (\<lambda>y x. stencil_cell (map (take_bit 32) input_words) (y + 1) (x + 1))))"

end
