(* ===== verification/Static_Correct.thy ===== *)
theory Static_Correct
  imports Static_Region Graph_Traffic
begin

text \<open>
  The static region: its compiler's output is admitted, admission pins every node of the graph
  although the checks only count operations and compare effects, the exceptions it can raise,
  and the agreement of the stencil oracle with the graph-device oracle on the five-point graph.
\<close>

section \<open>The compiled descriptor\<close>

text \<open>The validator accepts the descriptor the compiler constructs.\<close>

theorem static_compile_admitted: "validate_static_stencil_descriptor compile_static_stencil_descriptor = Inr ()"
  by code_simp

section \<open>What admission pins\<close>

lemma read_static_node_Inr:
  assumes "read_static_node by_node j = Inr ns"
  shows "\<exists>n. ns = by_node @ [n] \<and> sn_id n \<notin> sn_id ` set by_node \<and> sn_op n \<in> {''LOAD_U32'', ''ADD_U32'', ''STORE_U32''} \<and>
    (sn_effect n \<noteq> None \<longleftrightarrow> sn_op n \<in> {''LOAD_U32'', ''STORE_U32''})"
proof -
  obtain kv name known o' where r: "name \<notin> sn_id ` set by_node" "in_texts (map_of kv ''op'') static_op = Inr known" "known = Some o'"
    "keys kv = (if o' \<in> {''LOAD_U32'', ''STORE_U32''} then {''id'', ''op'', ''effect''} else {''id'', ''op''})"
    "by_node @ [\<lparr>sn_id = name, sn_op = o', sn_effect = map_of kv ''effect''\<rparr>] = ns"
    using assms unfolding read_static_node_def by (simp only: res_simps reject_eq sum.inject not_not) blast
  have o': "o' \<in> {''LOAD_U32'', ''ADD_U32'', ''STORE_U32''}"
    using r(2,3) by (auto simp: static_op_def dest!: in_texts_Inr split: if_splits)
  have "map_of kv ''effect'' \<noteq> None \<longleftrightarrow> ''effect'' \<in> keys kv" by (simp add: map_of_eq_None_iff)
  also have "\<dots> \<longleftrightarrow> o' \<in> {''LOAD_U32'', ''STORE_U32''}" unfolding r(4) by simp
  finally show ?thesis using r(1,5) o' by auto
qed

definition static_nodes_ok :: "static_node list \<Rightarrow> bool" where
  "static_nodes_ok ns \<longleftrightarrow> distinct (map sn_id ns) \<and> (\<forall>n \<in> set ns. sn_op n \<in> {''LOAD_U32'', ''ADD_U32'', ''STORE_U32''} \<and>
     (sn_effect n \<noteq> None \<longleftrightarrow> sn_op n \<in> {''LOAD_U32'', ''STORE_U32''}))"

lemma read_static_nodes_Inr:
  "foldM read_static_node ms js = Inr ns \<Longrightarrow> static_nodes_ok ms \<Longrightarrow> static_nodes_ok ns \<and> length ns = length ms + length js"
proof (induction js arbitrary: ms)
  case (Cons j js)
  obtain ks where ks: "read_static_node ms j = Inr ks" "foldM read_static_node ks js = Inr ns"
    using Cons.prems(1) by (auto simp: res_simps)
  obtain n where n: "ks = ms @ [n]" "sn_id n \<notin> sn_id ` set ms" "sn_op n \<in> {''LOAD_U32'', ''ADD_U32'', ''STORE_U32''}"
      "sn_effect n \<noteq> None \<longleftrightarrow> sn_op n \<in> {''LOAD_U32'', ''STORE_U32''}"
    using read_static_node_Inr [OF ks(1)] by blast
  have "static_nodes_ok ks" using Cons.prems(2) n by (auto simp: static_nodes_ok_def)
  then show ?case using Cons.IH [OF ks(2)] n(1) by simp
qed simp

definition edges_inside :: "static_node list \<Rightarrow> (string \<times> string \<times> int) list \<Rightarrow> bool" where
  "edges_inside by_node es \<longleftrightarrow> (\<forall>(p, c, k) \<in> set es. p \<in> sn_id ` set by_node \<and> c \<in> sn_id ` set by_node)"

lemma read_static_edge_Inr:
  assumes "read_static_edge by_node s j = Inr s'" "edges_inside by_node s"
  shows "edges_inside by_node s'"
proof -
  obtain kv p c k where "endpoint by_node kv ''producer'' = Inr p" "endpoint by_node kv ''consumer'' = Inr c" "s @ [(p, c, k)] = s'"
    using assms(1) unfolding read_static_edge_def by (simp only: res_simps reject_eq sum.inject) blast
  moreover have "x \<in> sn_id ` set by_node" if "endpoint by_node kv f = Inr x" for f x
    using that by (auto simp: endpoint_def res_simps dest!: in_texts_Inr split: if_splits)
  ultimately show ?thesis using assms(2) by (auto simp: edges_inside_def)
qed

lemma read_static_edges_Inr: "foldM (read_static_edge by_node) [] js = Inr fs \<Longrightarrow> edges_inside by_node fs"
  by (erule foldM_invariant) (auto intro: read_static_edge_Inr simp: edges_inside_def [of _ "[]"])

definition static_names :: "string list" where
  "static_names = map fst static_affine @ [''add_0'', ''add_1'', ''add_2'', ''add_3'']"

definition static_role :: "string \<Rightarrow> string" where
  "static_role name = (if name = ''store_output'' then ''STORE_U32'' else if name \<in> fst ` set static_affine then ''LOAD_U32'' else ''ADD_U32'')"

lemma static_names_endpoints: "\<forall>x \<in> set static_names. \<exists>e \<in> set static_edge_list. x = fst e \<or> x = fst (snd e)"
  by (simp add: static_names_def static_affine_def static_edge_list_def)

lemma static_names_distinct: "distinct static_names" "length static_names = 10"
  by (simp_all add: static_names_def static_affine_def)

lemma accepted_ids:
  assumes "static_nodes_ok ns" "length ns = 10" "set es = set static_edge_list"
    "edges_inside ns es"
  shows "sn_id ` set ns = set static_names"
proof -
  have "x \<in> sn_id ` set ns" if "x \<in> set static_names" for x
    using that static_names_endpoints assms(3,4) unfolding edges_inside_def by fastforce
  then have sub: "set static_names \<subseteq> sn_id ` set ns" by blast
  have "card (sn_id ` set ns) = 10" using assms(1,2) by (metis distinct_card length_map list.set_map static_nodes_ok_def)
  moreover have "card (set static_names) = 10" using static_names_distinct by (metis distinct_card)
  ultimately show ?thesis using sub by (metis List.finite_set card_subset_eq finite_imageI)
qed

lemma accepted_effect:
  assumes "check_effects ns = Inr ()" "(name, formula) \<in> set static_affine"
  shows "\<exists>n \<in> set ns. sn_id n = name \<and> (\<exists>e. sn_effect n = Some e \<and> py_eq e (effect_of name formula))"
proof -
  have "foldM (\<lambda>_. check_effect ns) () static_affine = Inr ()"
    using assms(1) unfolding check_effects_def by (simp only: res_simps reject_eq) blast
  then have "check_effect ns (name, formula) = Inr ()" using assms(2) unfolding foldM_unit_all by blast
  then obtain n where n: "find (\<lambda>n. sn_id n = name) ns = Some n" "py_eq (case sn_effect n of None \<Rightarrow> JNull | Some e \<Rightarrow> e) (effect_of name formula)"
    by (auto simp: check_effect_def node_named_def res_simps split: option.splits)
  have "sn_effect n \<noteq> None"
  proof
    assume "sn_effect n = None"
    then show False using n(2) by (simp add: effect_of_def effect_json_def split: if_splits)
  qed
  moreover have "n \<in> set ns" "sn_id n = name" using n(1) by (auto simp: find_Some_iff)
  ultimately show ?thesis using n(2) by auto
qed

lemma effect_store_object:
  assumes "py_eq (JDict kv) (effect_of ''store_output'' formula)" "get_or_null kv ''object'' = JStr ''A''"
  shows False
proof -
  have l: "length kv = 3" and a: "list_all (\<lambda>(k, x). case map_of [(''kind'', JStr ''WRITE''), (''object'', JStr ''B''), (''affine'', JStr formula)] k of
      None \<Rightarrow> False | Some y \<Rightarrow> py_eq x y) kv"
    using assms(1) by (simp_all add: effect_of_def effect_json_def)
  have "map_of kv ''object'' = Some (JStr ''A'')" using assms(2) by (auto simp: get_or_null_def split: option.splits)
  then have "(''object'', JStr ''A'') \<in> set kv" by (rule map_of_SomeD)
  then show False using a by (auto simp: list_all_iff)
qed

lemma check_shape_Inr: "check_shape d = Inr (nodes, edges) \<Longrightarrow> map_of d ''nodes'' = Some (JList nodes) \<and> map_of d ''edges'' = Some (JList edges) \<and> length nodes = 10 \<and> length edges = 9"
  unfolding check_shape_def Let_def by (simp only: res_simps reject_eq sum.inject prod.inject de_Morgan_disj not_not) blast

lemma effects_counted:
  assumes "check_effects ns = Inr ()"
  shows "length (nodes_with ''LOAD_U32'' ns) = 5" "length (nodes_with ''STORE_U32'' ns) = 1"
    "\<forall>n \<in> set (nodes_with ''LOAD_U32'' ns). rbind (effect_object n) (\<lambda>j. reject (j \<noteq> JStr ''A'') (ValueError ''all loads must read A'')) = Inr ()"
  using assms unfolding check_effects_def foldM_unit_all [symmetric] by (auto simp: res_simps)

text \<open>The one store of an admitted graph is the node named \<open>store_output\<close>.\<close>

lemma accepted_store:
  assumes eff: "check_effects ns = Inr ()" and ok: "static_nodes_ok ns"
  obtains st where "st \<in> set ns" "sn_id st = ''store_output''" "sn_op st = ''STORE_U32''" "\<And>n. n \<in> set ns \<Longrightarrow> sn_op n = ''STORE_U32'' \<Longrightarrow> n = st"
proof -
  obtain st e where st: "st \<in> set ns" "sn_id st = ''store_output''" "sn_effect st = Some e" "py_eq e (effect_of ''store_output'' ''16*(y-1)+(x-1)'')"
    using accepted_effect [OF eff, of "''store_output''" "''16*(y-1)+(x-1)''"] by (auto simp: static_affine_def)
  have "sn_op st \<noteq> ''LOAD_U32''"
  proof
    assume "sn_op st = ''LOAD_U32''"
    then have "rbind (effect_object st) (\<lambda>j. reject (j \<noteq> JStr ''A'') (ValueError ''all loads must read A'')) = Inr ()"
      using effects_counted(3) [OF eff] st(1) by (simp add: nodes_with_def)
    then have "effect_object st = Inr (JStr ''A'')" by (auto simp: res_simps)
    then obtain kv where "e = JDict kv" "get_or_null kv ''object'' = JStr ''A''"
      using st(3) by (auto simp: effect_object_def split: json.splits)
    then show False using st(4) effect_store_object by blast
  qed
  then have op_st: "sn_op st = ''STORE_U32''"
    using ok st(1,3) unfolding static_nodes_ok_def by (metis insertE option.discI singletonD)
  have "n = st" if "n \<in> set ns" "sn_op n = ''STORE_U32''" for n
  proof -
    have "{n, st} \<subseteq> set (nodes_with ''STORE_U32'' ns)" using that st(1) op_st by (auto simp: nodes_with_def)
    then have "card {n, st} \<le> 1" using effects_counted(2) [OF eff] by (metis List.finite_set card_length card_mono le_trans)
    then show ?thesis by (cases "n = st") auto
  qed
  then show thesis using that st(1,2) op_st by blast
qed

text \<open>The five loads are the other nodes with an affine effect.\<close>

lemma accepted_loads:
  assumes eff: "check_effects ns = Inr ()" and ok: "static_nodes_ok ns"
  shows "sn_id ` set (nodes_with ''LOAD_U32'' ns) = fst ` set static_affine - {''store_output''}"
proof (rule card_subset_eq [symmetric])
  let ?loads = "sn_id ` set (nodes_with ''LOAD_U32'' ns)" and ?names = "fst ` set static_affine - {''store_output''}"
  obtain st where st: "sn_id st = ''store_output''" "\<And>n. n \<in> set ns \<Longrightarrow> sn_op n = ''STORE_U32'' \<Longrightarrow> n = st" by (rule accepted_store [OF assms], rule that; blast)
  show sub: "?names \<subseteq> ?loads"
  proof
    fix x assume x: "x \<in> ?names"
    then obtain formula where "(x, formula) \<in> set static_affine" by auto
    then obtain n e where n: "n \<in> set ns" "sn_id n = x" "sn_effect n = Some e" using accepted_effect [OF eff] by blast
    then have "sn_op n \<in> {''LOAD_U32'', ''STORE_U32''}" using ok unfolding static_nodes_ok_def by (metis option.discI)
    then have "sn_op n = ''LOAD_U32''" using st n(1,2) x by blast
    then show "x \<in> ?loads" using n by (auto simp: nodes_with_def)
  qed
  have "card ?loads \<le> 5" using effects_counted(1) [OF eff] by (metis card_image_le card_length le_trans List.finite_set)
  moreover have "card ?names = 5" by (simp add: static_affine_def insert_Diff_if)
  moreover have "card ?names \<le> card ?loads" using sub by (intro card_mono) auto
  ultimately show "card ?names = card ?loads" by linarith
qed simp

lemma accepted_roles:
  assumes eff: "check_effects ns = Inr ()" and ok: "static_nodes_ok ns" and n: "n \<in> set ns"
  shows "sn_op n = static_role (sn_id n)"
proof -
  have uniq: "n = m" if "m \<in> set ns" "sn_id n = sn_id m" for m using ok n that by (metis distinct_map inj_onD static_nodes_ok_def)
  obtain st where st: "st \<in> set ns" "sn_id st = ''store_output''" "sn_op st = ''STORE_U32''" "\<And>n. n \<in> set ns \<Longrightarrow> sn_op n = ''STORE_U32'' \<Longrightarrow> n = st"
    by (rule accepted_store [OF eff ok], rule that; blast)
  have "sn_op n = ''LOAD_U32'' \<longleftrightarrow> sn_id n \<in> sn_id ` set (nodes_with ''LOAD_U32'' ns)" using n uniq by (auto simp: nodes_with_def)
  moreover have "sn_op n = ''STORE_U32'' \<longleftrightarrow> sn_id n = ''store_output''" using st uniq n by metis
  moreover have "sn_op n \<in> {''LOAD_U32'', ''ADD_U32'', ''STORE_U32''}" using ok n by (auto simp: static_nodes_ok_def)
  ultimately show ?thesis unfolding accepted_loads [OF eff ok] by (auto simp: static_role_def)
qed

text \<open>
  C31. In every admitted descriptor the ten nodes carry the ten names of the compiled graph, each
  with the operation it has there: counting operations, matching effects and fixing the edges
  leaves no other choice, although no check compares a node's operation with its name.
\<close>

theorem static_admission_pins_nodes:
  assumes "validate_static_stencil_descriptor d = Inr ()"
  shows "\<exists>nodes ns. map_of d ''nodes'' = Some (JList nodes) \<and> foldM read_static_node [] nodes = Inr ns \<and>
    sn_id ` set ns = set static_names \<and> length ns = 10 \<and> (\<forall>n \<in> set ns. sn_op n = static_role (sn_id n))"
proof -
  obtain nodes edges ns es where p: "check_shape d = Inr (nodes, edges)" "foldM read_static_node [] nodes = Inr ns"
      "foldM (read_static_edge ns) [] edges = Inr es" "check_edges ns es = Inr ()" "check_effects ns = Inr ()"
    using assms unfolding validate_static_stencil_descriptor_def
    by (auto simp: res_simps split: prod.splits)
  have nd: "map_of d ''nodes'' = Some (JList nodes)" "length nodes = 10"
    using check_shape_Inr [OF p(1)] by auto
  have ok: "static_nodes_ok ns" "length ns = 10" using read_static_nodes_Inr [OF p(2)] nd(2) by (auto simp: static_nodes_ok_def)
  have "set es = set static_edge_list" using p(4) unfolding check_edges_def by (auto simp: res_simps)
  then have "sn_id ` set ns = set static_names" using accepted_ids [OF ok _ read_static_edges_Inr [OF p(3)]] by blast
  then show ?thesis using nd(1) p(2) ok(2) accepted_roles [OF p(5) ok(1)] by blast
qed

theorem static_admission_pins_nodes_witness:
  "\<exists>nodes ns. map_of compile_static_stencil_descriptor ''nodes'' = Some (JList nodes) \<and> foldM read_static_node [] nodes = Inr ns \<and>
    (\<forall>n \<in> set ns. sn_op n = static_role (sn_id n))"
proof -
  have "validate_static_stencil_descriptor compile_static_stencil_descriptor = Inr ()" by code_simp
  from static_admission_pins_nodes [OF this] show ?thesis by blast
qed

section \<open>Exceptions\<close>

text \<open>
  A run ends by returning or in the contract error, in \<open>TypeError\<close> only under \<open>P\<close> and in
  \<open>AttributeError\<close> only under \<open>Q\<close>; it never fails on a lookup.
\<close>

definition limited :: "bool \<Rightarrow> bool \<Rightarrow> 'a res \<Rightarrow> bool" where
  "limited P Q m \<longleftrightarrow> (case m of Inr _ \<Rightarrow> True | Inl (ValueError _) \<Rightarrow> True | Inl TypeError \<Rightarrow> P | Inl AttributeError \<Rightarrow> Q | Inl _ \<Rightarrow> False)"

lemma limited_value: "value_error m \<Longrightarrow> limited P Q m"
  by (auto simp: value_error_def limited_def split: sum.splits py_error.splits)

lemma limited_simps [simp]:
  "limited P Q (Inr x)" "limited P Q (Inl (ValueError msg))"
  "limited P Q (reject c (ValueError msg))" "limited P Q (want y msg)" "limited P Q (want_list j msg)" "limited P Q (want_dict j msg)" "limited P Q (want_str j msg)"
  by (auto simp: limited_value)

lemma limited_rbind: "limited P Q m \<Longrightarrow> (\<And>x. m = Inr x \<Longrightarrow> limited P Q (f x)) \<Longrightarrow> limited P Q (rbind m f)"
  by (cases m) (auto simp: limited_def)

lemma limited_mapM: "(\<And>x. x \<in> set xs \<Longrightarrow> limited P Q (f x)) \<Longrightarrow> limited P Q (mapM f xs)"
  by (induction xs) (auto intro!: limited_rbind)

lemma limited_foldM: "(\<And>s x. x \<in> set xs \<Longrightarrow> limited P Q (f s x)) \<Longrightarrow> limited P Q (foldM f s xs)"
  by (induction xs arbitrary: s) (auto intro!: limited_rbind)

lemmas limited_intros = limited_rbind limited_mapM limited_foldM

lemma limited_in_texts: "(unhashable j \<Longrightarrow> P) \<Longrightarrow> limited P Q (in_texts j f)"
  using limited_value [OF in_texts_unhashable(2)] by (cases "unhashable j") (simp_all add: in_texts_unhashable(1) limited_def)

lemma limited_hash_key: "(unhashable (Some j) \<Longrightarrow> P) \<Longrightarrow> limited P Q (hash_key j)"
  by (cases j) (auto simp: hash_key_def unhashable_def limited_def)

subsection \<open>What is behind each exception\<close>

text \<open>An effect of a load or a store that is not a dictionary.\<close>

definition odd_effect :: "(string \<times> json) list \<Rightarrow> bool" where
  "odd_effect d \<longleftrightarrow> (\<exists>js kv e. map_of d ''nodes'' = Some (JList js) \<and> JDict kv \<in> set js \<and>
     map_of kv ''op'' \<in> {Some (JStr ''LOAD_U32''), Some (JStr ''STORE_U32'')} \<and> map_of kv ''effect'' = Some e \<and> (\<forall>fields. e \<noteq> JDict fields))"

text \<open>A list or dictionary in the field \<open>f\<close> of an entry of the list \<open>k\<close>.\<close>

definition odd_field :: "(string \<times> json) list \<Rightarrow> string \<Rightarrow> string \<Rightarrow> bool" where
  "odd_field d k f \<longleftrightarrow> (\<exists>js kv. map_of d k = Some (JList js) \<and> JDict kv \<in> set js \<and> unhashable (map_of kv f))"

definition odd_bound :: "(string \<times> json) list \<Rightarrow> string \<Rightarrow> bool" where
  "odd_bound d f \<longleftrightarrow> (\<exists>bounds j. map_of d ''bounds'' = Some (JDict bounds) \<and> map_of bounds f = Some j \<and> (\<forall>n. j \<noteq> JInt n) \<and> (\<forall>b. j \<noteq> JBool b))"

definition odd_type :: "(string \<times> json) list \<Rightarrow> bool" where
  "odd_type d \<longleftrightarrow> odd_field d ''objects'' ''id'' \<or> odd_bound d ''max_nodes'' \<or> odd_bound d ''max_edges'' \<or> odd_field d ''nodes'' ''op'' \<or>
     odd_field d ''edges'' ''producer'' \<or> odd_field d ''edges'' ''consumer'' \<or> odd_field d ''edges'' ''input'' \<or>
     (\<exists>items j. map_of d ''excluded'' = Some (JList items) \<and> j \<in> set items \<and> unhashable (Some j))"

lemma limited_identity: "limited P Q (check_identity d)"
  unfolding check_identity_def by (intro limited_intros) simp_all

lemma limited_objects: "limited (odd_type d) Q (check_objects d)"
proof -
  have table: "limited (odd_type d) Q (object_table objects)" if o: "map_of d ''objects'' = Some (JList objects)" for objects
  proof -
    have "limited (odd_type d) Q (hash_key (get_or_null kv ''id''))" if "JDict kv \<in> set objects" for kv
    proof (rule limited_hash_key)
      assume "unhashable (Some (get_or_null kv ''id''))"
      then have "unhashable (map_of kv ''id'')" by (auto simp: get_or_null_def unhashable_def split: option.splits)
      then show "odd_type d" using o that by (auto simp: odd_type_def odd_field_def)
    qed
    then show ?thesis unfolding object_table_def by (intro limited_intros) (auto split: json.splits)
  qed
  have get: "limited (odd_type d) Q (mget (map_of t) k)" if "set (map fst t) = {JStr ''A'', JStr ''B''}" "k \<in> {JStr ''A'', JStr ''B''}" for t :: "(json \<times> (string \<times> json) list) list" and k
  proof -
    have "map_of t k \<noteq> None" using that by (simp add: map_of_eq_None_iff)
    then show ?thesis by (auto simp: mget_def)
  qed
  have fields: "limited (odd_type d) Q (check_object_fields t)" if "set (map fst t) = {JStr ''A'', JStr ''B''}" for t
    unfolding check_object_fields_def by (intro limited_intros get that) simp_all
  show ?thesis unfolding check_objects_def by (intro limited_intros table fields) (simp_all add: res_simps)
qed

lemma limited_shape: "limited (odd_type d) Q (check_shape d)"
proof -
  have "limited (odd_type d) Q (bound_exceeded n bounds f)" if "map_of d ''bounds'' = Some (JDict bounds)" "f \<in> {''max_nodes'', ''max_edges''}" for n bounds f
    using that by (auto simp: bound_exceeded_def limited_def odd_type_def odd_bound_def split: option.splits json.splits)
  then show ?thesis unfolding check_shape_def Let_def by (intro limited_intros) (simp_all add: res_simps)
qed

lemma limited_contracts: "limited (odd_type d) Q (check_contracts d)"
proof -
  have "limited (odd_type d) Q (hash_key j)" if "map_of d ''excluded'' = Some (JList items)" "j \<in> set items" for items j
    using that by (intro limited_hash_key) (auto simp: odd_type_def)
  then show ?thesis unfolding check_contracts_def by (intro limited_intros) (auto simp: res_simps)
qed

lemma limited_node:
  assumes "map_of d ''nodes'' = Some (JList js)" "j \<in> set js"
  shows "limited (odd_type d) Q (read_static_node ns j)"
proof -
  have "limited (odd_type d) Q (in_texts (map_of kv ''op'') static_op)" if "j = JDict kv" for kv
    using assms that by (intro limited_in_texts) (auto simp: odd_type_def odd_field_def)
  then show ?thesis unfolding read_static_node_def by (intro limited_intros) (simp_all add: res_simps)
qed

lemma node_named_found:
  assumes "name \<in> sn_id ` set ns"
  shows "\<exists>n. node_named ns name = Inr n"
proof -
  have "find (\<lambda>n. sn_id n = name) ns \<noteq> None" using assms by (auto simp: find_None_iff)
  then show ?thesis by (auto simp: node_named_def)
qed

lemma limited_named: "name \<in> sn_id ` set ns \<Longrightarrow> limited P Q (node_named ns name)"
  using node_named_found by (metis limited_simps(1))

lemma limited_edge:
  assumes "map_of d ''edges'' = Some (JList js)" "j \<in> set js"
  shows "limited (odd_type d) Q (read_static_edge ns es j)"
proof -
  have inside: "x \<in> sn_id ` set ns" if "endpoint ns kv f = Inr x" for kv f x
    using that by (auto simp: endpoint_def res_simps dest!: in_texts_Inr split: if_splits)
  have ends: "limited (odd_type d) Q (endpoint ns kv f)" if "j = JDict kv" "f \<in> {''producer'', ''consumer''}" for kv f
    unfolding endpoint_def using assms that by (intro limited_intros limited_in_texts) (auto simp: odd_type_def odd_field_def)
  have "limited (odd_type d) Q (input_index kv)" if "j = JDict kv" for kv
  proof -
    have "unhashable (map_of kv ''input'') \<Longrightarrow> odd_type d" using assms that by (auto simp: odd_type_def odd_field_def)
    then show ?thesis by (auto simp: input_index_def limited_def unhashable_def split: option.splits json.splits)
  qed
  then show ?thesis unfolding read_static_edge_def by (intro limited_intros ends limited_named inside) (simp_all add: res_simps)
qed

lemma limited_edges: "limited P Q (check_edges ns es)"
  unfolding check_edges_def Let_def by (intro limited_intros) simp_all

subsection \<open>Effects and the schedule\<close>

text \<open>Each node read keeps the operation and the effect of its dictionary.\<close>

lemma read_static_node_source:
  assumes "read_static_node ms j = Inr ns" "n \<in> set ns" "n \<notin> set ms"
  shows "\<exists>kv. j = JDict kv \<and> map_of kv ''op'' = Some (JStr (sn_op n)) \<and> map_of kv ''effect'' = sn_effect n"
proof -
  obtain kv name known o' where r: "j = JDict kv" "in_texts (map_of kv ''op'') static_op = Inr known" "known = Some o'"
    "ms @ [\<lparr>sn_id = name, sn_op = o', sn_effect = map_of kv ''effect''\<rparr>] = ns"
    using assms(1) unfolding read_static_node_def by (simp only: res_simps reject_eq sum.inject option.inject) blast
  have "map_of kv ''op'' = Some (JStr o')"
    using r(2,3) by (auto simp: static_op_def in_texts_def split: option.splits json.splits if_splits)
  then show ?thesis using assms(2,3) r(1,4) by auto
qed

lemma read_static_nodes_source:
  "foldM read_static_node ms js = Inr ns \<Longrightarrow> n \<in> set ns \<Longrightarrow> n \<notin> set ms \<Longrightarrow>
     \<exists>kv. JDict kv \<in> set js \<and> map_of kv ''op'' = Some (JStr (sn_op n)) \<and> map_of kv ''effect'' = sn_effect n"
proof (induction js arbitrary: ms)
  case (Cons j js)
  then obtain ks where ks: "read_static_node ms j = Inr ks" "foldM read_static_node ks js = Inr ns" by (auto simp: res_simps)
  show ?case
  proof (cases "n \<in> set ks")
    case True
    then show ?thesis using read_static_node_source [OF ks(1) _ Cons.prems(3)] by auto
  next
    case False
    then show ?thesis using Cons.IH [OF ks(2) Cons.prems(2)] by auto
  qed
qed simp

lemma limited_effects:
  assumes ids: "sn_id ` set ns = set static_names" and nodes: "map_of d ''nodes'' = Some (JList js)" "foldM read_static_node [] js = Inr ns"
  shows "limited P (odd_effect d) (check_effects ns)"
proof -
  have eff: "limited P (odd_effect d) (effect_object n)" if n: "n \<in> set ns" "sn_op n \<in> {''LOAD_U32'', ''STORE_U32''}" for n
  proof -
    obtain kv where "JDict kv \<in> set js" "map_of kv ''op'' = Some (JStr (sn_op n))" "map_of kv ''effect'' = sn_effect n"
      using read_static_nodes_source [OF nodes(2) n(1)] by auto
    then have "odd_effect d" if "sn_effect n = Some e" "\<forall>fields. e \<noteq> JDict fields" for e
      unfolding odd_effect_def using nodes(1) n(2) that by auto
    then show ?thesis by (auto simp: effect_object_def limited_def split: option.splits json.splits)
  qed
  have affine: "limited P (odd_effect d) (check_effect ns p)" if p: "p \<in> set static_affine" for p
  proof -
    obtain n where "node_named ns (fst p) = Inr n" using node_named_found [of "fst p" ns] p ids by (auto simp: static_names_def)
    then show ?thesis by (cases p) (simp add: check_effect_def)
  qed
  have store: "py_nth (nodes_with ''STORE_U32'' ns) 0 = Inr (nodes_with ''STORE_U32'' ns ! 0) \<and> nodes_with ''STORE_U32'' ns ! 0 \<in> set (nodes_with ''STORE_U32'' ns)"
    if "length (nodes_with ''STORE_U32'' ns) = 1" using that by simp
  show ?thesis unfolding check_effects_def
  proof (intro limited_intros affine, goal_cases)
    case (2 u s n)
    then show ?case by (intro eff) (auto simp: nodes_with_def)
  next
    case (4 u u')
    then show ?case using store by simp
  next
    case (5 u u' st)
    then have "st \<in> set (nodes_with ''STORE_U32'' ns)" using store by auto
    then show ?case by (intro eff) (auto simp: nodes_with_def)
  qed simp_all
qed

lemma static_dependencies_ok: "\<forall>e \<in> set static_edge_list. check_dependency e = Inr ()"
  by code_simp

lemma limited_schedule:
  assumes "set es = set static_edge_list"
  shows "limited P Q (check_schedule d ns es)"
proof -
  have dep: "limited P Q (check_dependency e)" if "e \<in> set es" for e using that assms static_dependencies_ok by simp
  have port: "limited P Q (check_ports ns item)" if "item \<in> set static_schedule" "set (concat (map snd static_schedule)) = sn_id ` set ns" for item
  proof -
    have "limited P Q (node_named ns name)" if name: "name \<in> set (snd item)" for name
      using name \<open>item \<in> set static_schedule\<close> \<open>set (concat (map snd static_schedule)) = sn_id ` set ns\<close> by (intro limited_named) force
    then show ?thesis unfolding check_ports_def by (intro limited_intros) simp_all
  qed
  show ?thesis unfolding check_schedule_def Let_def
    by (intro limited_rbind limited_foldM) (auto intro: dep port)
qed

definition swap_field :: "string \<Rightarrow> json \<Rightarrow> (string \<times> json) list \<Rightarrow> (string \<times> json) list" where
  "swap_field k j d = map (\<lambda>(f, x). if f = k then (f, j) else (f, x)) d"

definition text_effects :: json where
  "text_effects = JList (map (\<lambda>j. case j of JDict kv \<Rightarrow> JDict (swap_field ''effect'' (JStr ''none'') kv) | _ \<Rightarrow> j) (case static_nodes of JList js \<Rightarrow> js | _ \<Rightarrow> []))"

text \<open>
  C32. Validation of any dictionary returns, raises the contract error, raises \<open>TypeError\<close> only
  when an object's \<open>id\<close>, a node's \<open>op\<close>, an edge's \<open>producer\<close>, \<open>consumer\<close> or \<open>input\<close> or an exclusion
  is a list or a dictionary or one of the two size bounds is not a number, or raises
  \<open>AttributeError\<close> only when the effect of a load or a store is not a dictionary. It never raises
  \<open>KeyError\<close> or \<open>IndexError\<close>: every object, node, cycle and store it looks up is present once the
  earlier checks have passed. Both foreign exceptions do occur: on the compiled descriptor
  with textual effects, and with a list among the exclusions.
\<close>

theorem static_validate_exceptions:
  "(case validate_static_stencil_descriptor d of
      Inr _ \<Rightarrow> True
    | Inl (ValueError _) \<Rightarrow> True
    | Inl TypeError \<Rightarrow> odd_type d
    | Inl AttributeError \<Rightarrow> odd_effect d
    | Inl _ \<Rightarrow> False) \<and>
   validate_static_stencil_descriptor (swap_field ''nodes'' text_effects compile_static_stencil_descriptor) = Inl AttributeError \<and>
   validate_static_stencil_descriptor (swap_field ''excluded'' (JList [JList []]) compile_static_stencil_descriptor) = Inl TypeError"
proof -
  have eff: "limited (odd_type d) (odd_effect d) (check_effects ns)"
    if "map_of d ''nodes'' = Some (JList nodes)" "length nodes = 10" "foldM read_static_node [] nodes = Inr ns" "foldM (read_static_edge ns) [] edges = Inr es"
      "check_edges ns es = Inr ()" for nodes edges ns es
  proof (rule limited_effects [OF _ that(1,3)], rule accepted_ids)
    show "static_nodes_ok ns" "length ns = 10" using read_static_nodes_Inr [OF that(3)] that(2) by (auto simp: static_nodes_ok_def)
    show "set es = set static_edge_list" using that(5) unfolding check_edges_def by (auto simp: res_simps)
    show "edges_inside ns es" using that(4) by (rule read_static_edges_Inr)
  qed
  have sch: "limited (odd_type d) (odd_effect d) (check_schedule d ns es)" if "check_edges ns es = Inr ()" for ns es
    using that by (intro limited_schedule) (auto simp: check_edges_def res_simps)
  have "limited (odd_type d) (odd_effect d) (validate_static_stencil_descriptor d)"
    unfolding validate_static_stencil_descriptor_def
    by (intro limited_rbind limited_identity limited_objects limited_shape)
      (auto dest!: check_shape_Inr intro!: limited_rbind limited_foldM limited_node limited_edge limited_edges limited_contracts sch intro: eff split: prod.splits)
  moreover have "validate_static_stencil_descriptor (swap_field ''nodes'' text_effects compile_static_stencil_descriptor) = Inl AttributeError" by code_simp
  moreover have "validate_static_stencil_descriptor (swap_field ''excluded'' (JList [JList []]) compile_static_stencil_descriptor) = Inl TypeError" by code_simp
  ultimately show ?thesis by (simp add: limited_def)
qed

section \<open>The two oracles\<close>

text \<open>\<open>contracts/graph_device_dags/five-point.json\<close>\<close>

definition selector_load :: "string \<Rightarrow> json" where
  "selector_load name = JDict [(''address'', JStr name), (''id'', JStr name), (''op'', JStr ''LOAD_U32'')]"

definition add_node :: "string \<Rightarrow> string \<Rightarrow> string \<Rightarrow> json" where
  "add_node name a b = JDict [(''id'', JStr name), (''inputs'', JList [JStr a, JStr b]), (''op'', JStr ''ADD_U32'')]"

definition five_point :: "(string \<times> json) list" where
  "five_point = [(''affine'', JDict [(''columns'', JInt 16), (''input_stride'', JInt 18), (''output_stride'', JInt 16), (''rows'', JInt 16)]),
     (''graph_id'', JStr ''five-point''),
     (''nodes'', JList [selector_load ''center'', selector_load ''north'', add_node ''sum0'' ''center'' ''north'', selector_load ''south'',
        add_node ''sum1'' ''sum0'' ''south'', selector_load ''west'', add_node ''sum2'' ''sum1'' ''west'', selector_load ''east'',
        add_node ''sum3'' ''sum2'' ''east'', JDict [(''id'', JStr ''store''), (''input'', JStr ''sum3''), (''op'', JStr ''STORE_U32'')]]),
     (''schema'', JStr ''raveil.graph-device-dag/v1'')]"

definition vnode :: "string \<Rightarrow> dag_op \<Rightarrow> string list \<Rightarrow> address option \<Rightarrow> dag_node" where
  "vnode name o' deps a = \<lparr>dn_id = name, dn_op = o', dn_deps = deps, dn_address = a, dn_imm = None\<rparr>"

definition five_nodes :: "dag_node list" where
  "five_nodes = [vnode ''center'' LOAD_U32 [] (Some (Selector 0)), vnode ''north'' LOAD_U32 [] (Some (Selector 1)),
     vnode ''sum0'' ADD_U32 [''center'', ''north''] None, vnode ''south'' LOAD_U32 [] (Some (Selector 2)),
     vnode ''sum1'' ADD_U32 [''sum0'', ''south''] None, vnode ''west'' LOAD_U32 [] (Some (Selector 3)),
     vnode ''sum2'' ADD_U32 [''sum1'', ''west''] None, vnode ''east'' LOAD_U32 [] (Some (Selector 4)),
     vnode ''sum3'' ADD_U32 [''sum2'', ''east''] None, vnode ''store'' STORE_U32 [''sum3''] None]"

definition five_affine :: affine where
  "five_affine = \<lparr>af_rows = 16, af_columns = 16, af_input = 18, af_output = 16\<rparr>"

lemma five_point_admitted:
  "validate_descriptor five_point = Inr \<lparr>gd_schema = GRAPH_V1, gd_id = ''five-point'', gd_affine = five_affine, gd_nodes = five_nodes\<rparr>"
  by code_simp

lemma five_point_schedule: "scheduled_nodes five_nodes = Inr five_nodes"
  by code_simp

lemma take_bit_add_left: "take_bit 32 (take_bit 32 a + b) = take_bit 32 (a + b :: int)"
  by (simp add: take_bit_eq_mod mod_add_left_eq)

lemma five_point_nodes:
  assumes "0 \<le> c - 18" "c + 18 < int (length words)"
  shows "\<exists>env. foldM (oracle_node words c 18) (Map.empty, None) five_nodes =
    Inr (env, Some (take_bit 32 (words ! nat c + words ! nat (c - 18) + words ! nat (c + 18) + words ! nat (c - 1) + words ! nat (c + 1))))"
  using assms unfolding five_nodes_def vnode_def
  by (simp add: oracle_node_def node_address_def mget_def take_bit_add_left)

text \<open>Writing the cells of a row-major walk into the output gives the row-major list.\<close>

lemma fill_row:
  assumes "k \<le> w" and len: "length xs = r * w"
  shows "foldM (\<lambda>out c. py_set out (int r * int w + int c) (f c)) (xs @ replicate w z @ ys) [0..<k] = Inr (xs @ map f [0..<k] @ replicate (w - k) z @ ys)"
  using assms(1)
proof (induction k)
  case (Suc k)
  have split: "replicate (w - k) z = z # replicate (w - Suc k) z" using Suc.prems by (metis Suc_diff_Suc Suc_le_lessD replicate_Suc)
  have idx: "nat (int r * int w + int k) = length (xs @ map f [0..<k])" using len by (simp add: nat_add_distrib nat_mult_distrib)
  have "py_set (xs @ map f [0..<k] @ replicate (w - k) z @ ys) (int r * int w + int k) (f k) =
      Inr ((xs @ map f [0..<k]) @ f k # replicate (w - Suc k) z @ ys)"
    unfolding py_set_def split using len by (simp add: idx [simplified] list_update_append)
  then show ?case using Suc by (simp add: foldM_append)
qed simp

lemma fill_grid:
  assumes "h \<le> n"
  shows "foldM (\<lambda>out (r, c). py_set out (int r * int w + int c) (f r c)) (replicate (n * w) z) (grid_list h w Pair) =
    Inr (grid_list h w f @ replicate ((n - h) * w) z)"
  using assms
proof (induction h)
  case 0
  then show ?case by (simp add: grid_list_def)
next
  case (Suc h)
  have g: "grid_list (Suc h) w F = grid_list h w F @ map (F h) [0..<w]" for F :: "nat \<Rightarrow> nat \<Rightarrow> 'c" by (simp add: grid_list_def)
  have r: "replicate ((n - h) * w) z = replicate w z @ replicate ((n - Suc h) * w) z"
    using Suc.prems by (metis Suc_diff_le Suc_le_eq diff_Suc_Suc less_imp_le_nat mult_Suc replicate_add Suc_diff_Suc)
  have fm: "foldM F s (map (Pair h) xs) = foldM (\<lambda>out c. F out (h, c)) s xs" for F :: "'z \<Rightarrow> nat \<times> nat \<Rightarrow> 'e + 'z" and s xs
    by (induction xs arbitrary: s) simp_all
  show ?case
    using Suc fill_row [of w w "grid_list h w f" h "f h" z "replicate ((n - Suc h) * w) z"]
    by (simp add: g foldM_append r fm)
qed

text \<open>
  C30. On 324 words of 32 bits the stencil oracle of the static region computes the same 256 words
  as the graph-device oracle on the five-point descriptor of the repository.
\<close>

theorem stencil_oracle_five_point:
  assumes "length words = 324" "\<forall>w \<in> set words. 0 \<le> w \<and> w < 2 ^ 32"
  shows "static_stencil_oracle words = graph_oracle five_point words"
proof -
  have id: "map (take_bit 32) words = words"
    using assms(2) by (intro map_idI) (simp add: take_bit_int_eq_self)
  have cell: "oracle_cell five_affine five_nodes words out (r, c) = py_set out (int r * int 16 + int c) (stencil_cell words (r + 1) (c + 1))"
    if rc: "r < 16" "c < 16" for r c out
  proof -
    let ?c = "(int r + 1) * 18 + int c + 1"
    have n: "nat ?c = 18 * (r + 1) + (c + 1)" "nat (?c - 18) = 18 * (r + 1) + (c + 1) - 18" "nat (?c + 18) = 18 * (r + 1) + (c + 1) + 18"
      "nat (?c - 1) = 18 * (r + 1) + (c + 1) - 1" "nat (?c + 1) = 18 * (r + 1) + (c + 1) + 1" by simp_all
    obtain env where "foldM (oracle_node words ?c 18) (Map.empty, None) five_nodes =
        Inr (env, Some (take_bit 32 (words ! nat ?c + words ! nat (?c - 18) + words ! nat (?c + 18) + words ! nat (?c - 1) + words ! nat (?c + 1))))"
      using five_point_nodes [of ?c words] rc assms(1) by auto
    then show ?thesis
      unfolding oracle_cell_def center_index_def store_index_def five_affine_def prod.case affine.simps n stencil_cell_def Let_def
      by (simp add: store_cell_def)
  qed
  have "foldM (oracle_cell five_affine five_nodes words) (replicate 256 0) (grid_list 16 16 Pair) =
      foldM (\<lambda>out (r, c). py_set out (int r * int 16 + int c) (stencil_cell words (r + 1) (c + 1))) (replicate (16 * 16) 0) (grid_list 16 16 Pair)"
    by (rule foldM_cong) (auto simp: set_grid_list cell)
  also have "\<dots> = Inr (grid_list 16 16 (\<lambda>y x. stencil_cell words (y + 1) (x + 1)))"
    by (subst fill_grid) simp_all
  finally show ?thesis
    by (simp add: graph_oracle_def five_point_admitted five_point_schedule static_stencil_oracle_def assms(1) id) (simp add: five_affine_def)
qed

theorem stencil_oracle_five_point_witness:
  "static_stencil_oracle (replicate 324 1) = graph_oracle five_point (replicate 324 1)"
  by (rule stencil_oracle_five_point) simp_all

end
