(* ===== verification/Simulation_Adapter.thy ===== *)
theory Simulation_Adapter
  imports Static_Correct
begin

text \<open>
  \<open>raveil/simulation_adapter.py\<close>: the common observation boundary of the simulated
  implementations. The two identities are SHA-256 digests of canonical texts; the argument
  \<open>jsha\<close> stands for the digest of a dictionary. \<open>SimulationAdapterError\<close> is a \<open>ValueError\<close>. The
  sets the code iterates over only select which of several equal messages is raised first.
\<close>

section \<open>The contract\<close>

definition ADAPTER_SCHEMA :: string where "ADAPTER_SCHEMA = ''raveil.simulation-adapter/v2''"
definition ADAPTER_IDENTITY :: string where "ADAPTER_IDENTITY = ''raveil.bounded-region-simulation-adapter/v2''"
definition EVIDENCE_CLASS :: string where "EVIDENCE_CLASS = ''rtl-simulation-functional''"

text \<open>In sorted order, as the contract lists them.\<close>

definition IMPLEMENTATIONS :: "string list" where
  "IMPLEMENTATIONS = [''boom-ooo'', ''boom-ooo-disabled-diagnostic'', ''rocket-in-order'', ''static-graph'']"

definition ACCOUNTING_PHASES :: "string list" where
  "ACCOUNTING_PHASES = [''installation_cycles'', ''staging_cycles'', ''execution_cycles'', ''completion_cycles'', ''validation_cycles'', ''publication_cycles'']"

definition MATCHED_MEMORY :: string where "MATCHED_MEMORY = ''matched-fixed-latency-banked-scratchpad''"

definition MEMORY_MODELS :: "string set" where
  "MEMORY_MODELS = {''owned-private-scratchpads'', ''cache-backed-variable-latency'', ''shared-tilelink-banked-scratchpad-unverified-latency'', MATCHED_MEMORY}"

definition configuration_id :: "((string \<times> json) list \<Rightarrow> string) \<Rightarrow> string" where
  "configuration_id jsha = jsha compile_static_stencil_descriptor"

definition compile_simulation_adapter_contract :: "((string \<times> json) list \<Rightarrow> string) \<Rightarrow> (string \<times> json) list" where
  "compile_simulation_adapter_contract jsha =
     [(''schema'', JStr ADAPTER_SCHEMA), (''adapter_identity'', JStr ADAPTER_IDENTITY), (''descriptor_sha256'', JStr (configuration_id jsha)),
      (''workload'', JDict [(''name'', JStr ''five-point-stencil-u32''), (''input_words'', JInt 324), (''output_words'', JInt 256), (''word_bits'', JInt 32),
         (''arithmetic'', JStr ''uint32-modulo-2^32''), (''useful_operations'', JDict [(''loads'', JInt 1280), (''adds'', JInt 1024), (''stores'', JInt 256)])]),
      (''memory'', JDict [(''required_comparison_model'', JStr MATCHED_MEMORY), (''input_binding'', JStr ''read-only''), (''output_binding'', JStr ''exclusive-private-output''),
         (''input_read_ports'', JInt 1), (''output_write_ports'', JInt 1), (''output_publication'', JStr ''after-independent-validation'')]),
      (''lifecycle'', jtexts [''installation'', ''staging'', ''execution'', ''completion'', ''validation'', ''publication-or-invalidation'']),
      (''accounting_phases'', jtexts ACCOUNTING_PHASES), (''implementations'', jtexts IMPLEMENTATIONS), (''evidence_class'', JStr EVIDENCE_CLASS),
      (''performance_claim'', JBool False)]"

definition validate_simulation_adapter_contract :: "((string \<times> json) list \<Rightarrow> string) \<Rightarrow> (string \<times> json) list \<Rightarrow> unit res" where
  "validate_simulation_adapter_contract jsha contract =
     reject (\<not> py_eq (JDict contract) (JDict (compile_simulation_adapter_contract jsha))) (ValueError ''simulation adapter contract changed'')"

definition simulation_adapter_contract_id :: "((string \<times> json) list \<Rightarrow> string) \<Rightarrow> string res" where
  "simulation_adapter_contract_id jsha =
     (let contract = compile_simulation_adapter_contract jsha
      in rbind (validate_simulation_adapter_contract jsha contract) (\<lambda>_. Inr (jsha contract)))"

section \<open>Observations\<close>

definition observation_fields :: "string list" where
  "observation_fields = [''schema'', ''adapter_contract_sha256'', ''descriptor_sha256'', ''implementation'', ''invocation'', ''status'', ''semantic_valid'',
     ''output_private'', ''output_published'', ''input_words_staged'', ''output_words_validated'', ''useful_loads'', ''useful_adds'', ''useful_stores''] @
     ACCOUNTING_PHASES @ [''total_cycles'', ''accounting_complete'', ''missing_accounting'', ''evidence_class'', ''performance_claim'', ''memory_model'',
     ''resource_match_verified'', ''matched_comparison_ready'']"

text \<open>\<open>observation[k]\<close> once the exact field set is established.\<close>

definition field :: "(string \<times> json) list \<Rightarrow> string \<Rightarrow> json" where
  "field ob k = the (map_of ob k)"

definition member_of :: "(string \<times> json) list \<Rightarrow> string \<Rightarrow> string set \<Rightarrow> string \<Rightarrow> string res" where
  "member_of ob k S msg =
     rbind (in_texts (map_of ob k) (\<lambda>s. if s \<in> S then Some s else None)) (\<lambda>s. want s msg)"

definition want_bool :: "(string \<times> json) list \<Rightarrow> string \<Rightarrow> string \<Rightarrow> bool res" where
  "want_bool ob k msg = (case map_of ob k of Some (JBool b) \<Rightarrow> Inr b | _ \<Rightarrow> Inl (ValueError msg))"

definition observation_header :: "((string \<times> json) list \<Rightarrow> string) \<Rightarrow> (string \<times> json) list \<Rightarrow> (string \<times> bool \<times> bool) res" where
  "observation_header jsha ob =
     rbind (reject (keys ob \<noteq> set observation_fields) (ValueError ''observation fields changed'')) (\<lambda>_.
     rbind (reject (\<not> expect ob ''schema'' (JStr ADAPTER_SCHEMA)) (ValueError ''observation schema changed'')) (\<lambda>_.
     rbind (simulation_adapter_contract_id jsha) (\<lambda>contract_id.
     rbind (reject (\<not> expect ob ''adapter_contract_sha256'' (JStr contract_id)) (ValueError ''adapter identity mismatch'')) (\<lambda>_.
     rbind (reject (\<not> expect ob ''descriptor_sha256'' (JStr (configuration_id jsha))) (ValueError ''descriptor identity mismatch'')) (\<lambda>_.
     rbind (member_of ob ''implementation'' (set IMPLEMENTATIONS) ''unsupported implementation'') (\<lambda>_.
     rbind (reject (case map_of ob ''invocation'' of Some (JInt n) \<Rightarrow> n < 1 | _ \<Rightarrow> True) (ValueError ''invocation must be a positive integer'')) (\<lambda>_.
     rbind (reject (\<not> expect ob ''evidence_class'' (JStr EVIDENCE_CLASS)) (ValueError ''evidence class changed'')) (\<lambda>_.
     rbind (reject (field ob ''performance_claim'' \<noteq> JBool False) (ValueError ''functional adapter cannot make a performance claim'')) (\<lambda>_.
     rbind (member_of ob ''memory_model'' MEMORY_MODELS ''unsupported memory model'') (\<lambda>memory.
     rbind (want_bool ob ''resource_match_verified'' ''resource_match_verified must be boolean'') (\<lambda>verified.
     rbind (want_bool ob ''matched_comparison_ready'' ''matched_comparison_ready must be boolean'') (\<lambda>ready.
     rbind (reject (verified \<and> memory \<noteq> MATCHED_MEMORY) (ValueError ''resource match requires the RFC-0005 memory model'')) (\<lambda>_.
     Inr (memory, verified, ready))))))))))))))"

definition check_output :: "(string \<times> json) list \<Rightarrow> (string \<times> bool) res" where
  "check_output ob =
     rbind (member_of ob ''status'' {''completed'', ''cancelled''} ''unsupported completion status'') (\<lambda>status.
     rbind (want_bool ob ''output_private'' ''output_private must be boolean'') (\<lambda>private.
     rbind (want_bool ob ''output_published'' ''output_published must be boolean'') (\<lambda>published.
     rbind (reject published (ValueError ''functional adapter may not publish output'')) (\<lambda>_.
     Inr (status, private)))))"

definition natural_field :: "(string \<times> json) list \<Rightarrow> string \<Rightarrow> int res" where
  "natural_field ob k = (case map_of ob k of
     Some (JInt n) \<Rightarrow> if n < 0 then Inl (ValueError '' must be a non-negative integer'') else Inr n
   | _ \<Rightarrow> Inl (ValueError '' must be a non-negative integer''))"

record useful_counts =
  uc_staged :: int
  uc_validated :: int
  uc_loads :: int
  uc_adds :: int
  uc_stores :: int

definition read_counts :: "(string \<times> json) list \<Rightarrow> useful_counts res" where
  "read_counts ob =
     rbind (natural_field ob ''input_words_staged'') (\<lambda>staged.
     rbind (natural_field ob ''output_words_validated'') (\<lambda>validated.
     rbind (natural_field ob ''useful_loads'') (\<lambda>loads.
     rbind (natural_field ob ''useful_adds'') (\<lambda>adds.
     rbind (natural_field ob ''useful_stores'') (\<lambda>stores.
     rbind (reject (staged \<noteq> 324) (ValueError ''input staging is not matched'')) (\<lambda>_.
     rbind (reject (loads > 1280 \<or> adds > 1024 \<or> stores > 256) (ValueError '' exceeds the workload semantics'')) (\<lambda>_.
     Inr \<lparr>uc_staged = staged, uc_validated = validated, uc_loads = loads, uc_adds = adds, uc_stores = stores\<rparr>)))))))"

definition check_status :: "(string \<times> json) list \<Rightarrow> string \<Rightarrow> bool \<Rightarrow> useful_counts \<Rightarrow> unit res" where
  "check_status ob status private u =
     (if status = ''completed'' then
        rbind (reject (field ob ''semantic_valid'' \<noteq> JBool True) (ValueError ''completed output lacks semantic validation'')) (\<lambda>_.
        rbind (reject (\<not> private) (ValueError ''completed output must remain private'')) (\<lambda>_.
        rbind (reject (uc_validated u \<noteq> 256) (ValueError ''completed output was not fully validated'')) (\<lambda>_.
        reject (uc_loads u \<noteq> 1280 \<or> uc_adds u \<noteq> 1024 \<or> uc_stores u \<noteq> 256) (ValueError ''completed useful-operation counts changed''))))
      else
        rbind (reject (field ob ''semantic_valid'' \<noteq> JBool False) (ValueError ''cancelled output cannot be semantically approved'')) (\<lambda>_.
        rbind (reject private (ValueError ''cancelled output must be invalid'')) (\<lambda>_.
        reject (uc_validated u \<noteq> 0) (ValueError ''cancelled output cannot be validated''))))"

text \<open>The loop over the phases: the missing ones in order, and the sum of the others.\<close>

definition account_phase :: "(string \<times> json) list \<Rightarrow> string list \<times> int \<Rightarrow> string \<Rightarrow> (string list \<times> int) res" where
  "account_phase ob s phase = (case s of (missing, cycles) \<Rightarrow>
     (case map_of ob phase of
        Some JNull \<Rightarrow> Inr (missing @ [phase], cycles)
      | Some (JInt n) \<Rightarrow> if n < 0 then Inl (ValueError '' must be null or a non-negative integer'') else Inr (missing, cycles + n)
      | _ \<Rightarrow> Inl (ValueError '' must be null or a non-negative integer'')))"

definition check_accounting :: "(string \<times> json) list \<Rightarrow> bool \<Rightarrow> bool \<Rightarrow> unit res" where
  "check_accounting ob verified ready =
     rbind (foldM (account_phase ob) ([], 0) ACCOUNTING_PHASES) (\<lambda>(missing, cycles).
     rbind (reject (\<not> expect ob ''missing_accounting'' (jtexts missing)) (ValueError ''missing accounting list is not canonical'')) (\<lambda>_.
     rbind (reject (field ob ''accounting_complete'' \<noteq> JBool (missing = [])) (ValueError ''accounting completeness is inconsistent'')) (\<lambda>_.
     rbind (if missing = [] then reject (\<not> expect ob ''total_cycles'' (JInt cycles)) (ValueError ''total cycles do not equal lifecycle phases'')
            else reject (field ob ''total_cycles'' \<noteq> JNull) (ValueError ''incomplete accounting cannot report total cycles'')) (\<lambda>_.
     reject (ready \<noteq> (missing = [] \<and> verified)) (ValueError ''matched comparison readiness is inconsistent'')))))"

definition validate_simulation_observation :: "((string \<times> json) list \<Rightarrow> string) \<Rightarrow> (string \<times> json) list \<Rightarrow> unit res" where
  "validate_simulation_observation jsha ob =
     rbind (observation_header jsha ob) (\<lambda>(memory, verified, ready).
     rbind (check_output ob) (\<lambda>(status, private).
     rbind (read_counts ob) (\<lambda>u.
     rbind (check_status ob status private u) (\<lambda>_.
     check_accounting ob verified ready))))"

section \<open>Emitted observations\<close>

definition functional_observation :: "((string \<times> json) list \<Rightarrow> string) \<Rightarrow> string \<Rightarrow> json \<Rightarrow> (string \<times> json) list" where
  "functional_observation jsha contract_id invocation =
     [(''schema'', JStr ADAPTER_SCHEMA), (''adapter_contract_sha256'', JStr contract_id), (''descriptor_sha256'', JStr (configuration_id jsha)),
      (''implementation'', JStr ''static-graph''), (''invocation'', invocation), (''status'', JStr ''completed''), (''semantic_valid'', JBool True),
      (''output_private'', JBool True), (''output_published'', JBool False), (''input_words_staged'', JInt 324), (''output_words_validated'', JInt 256),
      (''useful_loads'', JInt 1280), (''useful_adds'', JInt 1024), (''useful_stores'', JInt 256), (''installation_cycles'', JNull),
      (''staging_cycles'', JInt 648), (''execution_cycles'', JInt 3072), (''completion_cycles'', JNull), (''validation_cycles'', JInt 512),
      (''publication_cycles'', JNull), (''total_cycles'', JNull), (''accounting_complete'', JBool False),
      (''missing_accounting'', jtexts [''installation_cycles'', ''completion_cycles'', ''publication_cycles'']), (''evidence_class'', JStr EVIDENCE_CLASS),
      (''performance_claim'', JBool False), (''memory_model'', JStr ''owned-private-scratchpads''), (''resource_match_verified'', JBool False),
      (''matched_comparison_ready'', JBool False)]"

definition static_graph_functional_observation :: "((string \<times> json) list \<Rightarrow> string) \<Rightarrow> json \<Rightarrow> (string \<times> json) list res" where
  "static_graph_functional_observation jsha invocation =
     rbind (simulation_adapter_contract_id jsha) (\<lambda>contract_id.
     rbind (validate_simulation_observation jsha (functional_observation jsha contract_id invocation)) (\<lambda>_.
     Inr (functional_observation jsha contract_id invocation)))"

text \<open>\<open>observation.update(...)\<close>: existing keys keep their place.\<close>

definition dict_update :: "(string \<times> json) list \<Rightarrow> (string \<times> json) list \<Rightarrow> (string \<times> json) list" where
  "dict_update d new = map (\<lambda>(k, v). (k, case map_of new k of None \<Rightarrow> v | Some w \<Rightarrow> w)) d @ filter (\<lambda>(k, _). k \<notin> keys d) new"

definition static_graph_cancelled_observation :: "((string \<times> json) list \<Rightarrow> string) \<Rightarrow> json \<Rightarrow> (string \<times> json) list res" where
  "static_graph_cancelled_observation jsha invocation =
     rbind (static_graph_functional_observation jsha invocation) (\<lambda>base.
     (let ob = dict_update base [(''status'', JStr ''cancelled''), (''semantic_valid'', JBool False), (''output_private'', JBool False),
            (''output_words_validated'', JInt 0), (''useful_loads'', JInt 7), (''useful_adds'', JInt 5), (''useful_stores'', JInt 1),
            (''execution_cycles'', JInt 17), (''validation_cycles'', JInt 0)]
      in rbind (validate_simulation_observation jsha ob) (\<lambda>_. Inr ob)))"

definition cpu_functional_observation :: "((string \<times> json) list \<Rightarrow> string) \<Rightarrow> string \<Rightarrow> json \<Rightarrow> string \<Rightarrow> (string \<times> json) list res" where
  "cpu_functional_observation jsha implementation invocation memory =
     rbind (reject (implementation \<notin> {''rocket-in-order'', ''boom-ooo'', ''boom-ooo-disabled-diagnostic''}) (ValueError ''unsupported CPU implementation'')) (\<lambda>_.
     rbind (reject (memory \<notin> {''cache-backed-variable-latency'', ''shared-tilelink-banked-scratchpad-unverified-latency''})
              (ValueError ''unsupported CPU functional memory model'')) (\<lambda>_.
     rbind (static_graph_functional_observation jsha invocation) (\<lambda>base.
     (let ob = dict_update base ([(''implementation'', JStr implementation), (''memory_model'', JStr memory), (''missing_accounting'', jtexts ACCOUNTING_PHASES)] @
            map (\<lambda>phase. (phase, JNull)) ACCOUNTING_PHASES)
      in rbind (validate_simulation_observation jsha ob) (\<lambda>_. Inr ob)))))"

section \<open>What an accepted observation says\<close>

lemma contract_id_total: "simulation_adapter_contract_id jsha = Inr (jsha (compile_simulation_adapter_contract jsha))"
  by (simp add: simulation_adapter_contract_id_def validate_simulation_adapter_contract_def compile_simulation_adapter_contract_def jtexts_def
      Let_def list_all2_same list.rel_map)

lemma want_bool_Inr [res_simps]: "want_bool ob k msg = Inr b \<longleftrightarrow> map_of ob k = Some (JBool b)"
  by (auto simp: want_bool_def split: option.splits json.splits)

lemma natural_field_Inr [res_simps]: "natural_field ob k = Inr n \<longleftrightarrow> map_of ob k = Some (JInt n) \<and> 0 \<le> n"
  by (auto simp: natural_field_def split: option.splits json.splits if_splits)

lemma member_of_Inr: "member_of ob k S msg = Inr s \<Longrightarrow> map_of ob k = Some (JStr s) \<and> s \<in> S"
  by (auto simp: member_of_def res_simps dest!: in_texts_Inr split: if_splits)

lemma account_phases:
  assumes "foldM (account_phase ob) (missing, cycles) phases = Inr (missing', cycles')"
  shows "missing' = missing @ filter (\<lambda>p. map_of ob p = Some JNull) phases \<and>
    (\<forall>p \<in> set phases. map_of ob p = Some JNull \<or> (\<exists>n \<ge> 0. map_of ob p = Some (JInt n))) \<and>
    cycles' = cycles + (\<Sum>p\<leftarrow>phases. case map_of ob p of Some (JInt n) \<Rightarrow> n | _ \<Rightarrow> 0)"
  using assms
proof (induction phases arbitrary: missing cycles)
  case (Cons p phases)
  obtain m c where step: "account_phase ob (missing, cycles) p = Inr (m, c)" "foldM (account_phase ob) (m, c) phases = Inr (missing', cycles')"
    using Cons.prems by (auto simp: res_simps)
  have "(map_of ob p = Some JNull \<and> m = missing @ [p] \<and> c = cycles) \<or> (\<exists>n \<ge> 0. map_of ob p = Some (JInt n) \<and> m = missing \<and> c = cycles + n)"
    using step(1) by (auto simp: account_phase_def split: option.splits json.splits if_splits)
  then show ?case using Cons.IH [OF step(2)] by auto
qed simp

definition phase_cycles :: "(string \<times> json) list \<Rightarrow> int" where
  "phase_cycles ob = (\<Sum>p\<leftarrow>ACCOUNTING_PHASES. case map_of ob p of Some (JInt n) \<Rightarrow> n | _ \<Rightarrow> 0)"

lemma observation_parts:
  assumes "validate_simulation_observation jsha ob = Inr ()"
  shows "map_of ob ''output_published'' = Some (JBool False)" "field ob ''performance_claim'' = JBool False"
    "\<exists>u status priv. read_counts ob = Inr u \<and> map_of ob ''status'' = Some (JStr status) \<and> status \<in> {''completed'', ''cancelled''} \<and>
       map_of ob ''output_private'' = Some (JBool priv) \<and> check_status ob status priv u = Inr ()"
    "\<exists>memory verified ready. map_of ob ''memory_model'' = Some (JStr memory) \<and> map_of ob ''resource_match_verified'' = Some (JBool verified) \<and>
       map_of ob ''matched_comparison_ready'' = Some (JBool ready) \<and> (verified \<longrightarrow> memory = MATCHED_MEMORY) \<and> check_accounting ob verified ready = Inr ()"
proof -
  obtain memory verified ready status priv u where
    h: "observation_header jsha ob = Inr (memory, verified, ready)" and o': "check_output ob = Inr (status, priv)"
    and u: "read_counts ob = Inr u" "check_status ob status priv u = Inr ()" "check_accounting ob verified ready = Inr ()"
    using assms unfolding validate_simulation_observation_def by (auto simp: res_simps split: prod.splits)
  have p: "\<exists>b. map_of ob ''output_published'' = Some (JBool b) \<and> \<not> b" "map_of ob ''output_private'' = Some (JBool priv)"
    and st: "member_of ob ''status'' {''completed'', ''cancelled''} ''unsupported completion status'' = Inr status"
    using o' unfolding check_output_def by (simp_all only: res_simps reject_eq sum.inject prod.inject) blast+
  show "map_of ob ''output_published'' = Some (JBool False)" using p(1) by auto
  show "\<exists>u status priv. read_counts ob = Inr u \<and> map_of ob ''status'' = Some (JStr status) \<and> status \<in> {''completed'', ''cancelled''} \<and>
       map_of ob ''output_private'' = Some (JBool priv) \<and> check_status ob status priv u = Inr ()"
    using member_of_Inr [OF st] u(1,2) p(2) by blast
  have perf: "field ob ''performance_claim'' = JBool False"
    and mem: "member_of ob ''memory_model'' MEMORY_MODELS ''unsupported memory model'' = Inr memory"
    and rest: "map_of ob ''resource_match_verified'' = Some (JBool verified)" "map_of ob ''matched_comparison_ready'' = Some (JBool ready)"
      "\<not> (verified \<and> memory \<noteq> MATCHED_MEMORY)"
    using h unfolding observation_header_def by (simp_all only: res_simps reject_eq sum.inject prod.inject not_not) blast+
  show "field ob ''performance_claim'' = JBool False" by (rule perf)
  show "\<exists>memory verified ready. map_of ob ''memory_model'' = Some (JStr memory) \<and> map_of ob ''resource_match_verified'' = Some (JBool verified) \<and>
       map_of ob ''matched_comparison_ready'' = Some (JBool ready) \<and> (verified \<longrightarrow> memory = MATCHED_MEMORY) \<and> check_accounting ob verified ready = Inr ()"
    using member_of_Inr [OF mem] rest u(3) by blast
qed

text \<open>
  C33. An accepted observation is never published and makes no performance claim; a completed one
  carries the full operation counts and a validated private output; one marked ready for
  comparison uses the matched memory model and accounts a non-negative number of cycles for
  every phase, with the total their sum.
\<close>

theorem observation_sound:
  assumes "validate_simulation_observation jsha ob = Inr ()"
  shows "map_of ob ''output_published'' = Some (JBool False) \<and> field ob ''performance_claim'' = JBool False \<and>
    (map_of ob ''status'' = Some (JStr ''completed'') \<longrightarrow> field ob ''semantic_valid'' = JBool True \<and> map_of ob ''output_private'' = Some (JBool True) \<and>
       map_of ob ''useful_loads'' = Some (JInt 1280) \<and> map_of ob ''useful_adds'' = Some (JInt 1024) \<and> map_of ob ''useful_stores'' = Some (JInt 256) \<and>
       map_of ob ''output_words_validated'' = Some (JInt 256)) \<and>
    (map_of ob ''matched_comparison_ready'' = Some (JBool True) \<longrightarrow> map_of ob ''memory_model'' = Some (JStr MATCHED_MEMORY) \<and>
       (\<forall>p \<in> set ACCOUNTING_PHASES. \<exists>n \<ge> 0. map_of ob p = Some (JInt n)) \<and> expect ob ''total_cycles'' (JInt (phase_cycles ob)))"
proof -
  note parts = observation_parts [OF assms]
  have "field ob ''semantic_valid'' = JBool True \<and> map_of ob ''output_private'' = Some (JBool True) \<and>
       map_of ob ''useful_loads'' = Some (JInt 1280) \<and> map_of ob ''useful_adds'' = Some (JInt 1024) \<and> map_of ob ''useful_stores'' = Some (JInt 256) \<and>
       map_of ob ''output_words_validated'' = Some (JInt 256)" if c: "map_of ob ''status'' = Some (JStr ''completed'')"
  proof -
    obtain u priv where u: "read_counts ob = Inr u" "map_of ob ''output_private'' = Some (JBool priv)" "check_status ob ''completed'' priv u = Inr ()"
      using parts(3) c by auto
    have f: "map_of ob ''useful_loads'' = Some (JInt (uc_loads u))" "map_of ob ''useful_adds'' = Some (JInt (uc_adds u))"
        "map_of ob ''useful_stores'' = Some (JInt (uc_stores u))" "map_of ob ''output_words_validated'' = Some (JInt (uc_validated u))"
      using u(1) unfolding read_counts_def by (auto simp: res_simps)
    show ?thesis using u(2,3) f by (auto simp: check_status_def res_simps)
  qed
  moreover have "map_of ob ''memory_model'' = Some (JStr MATCHED_MEMORY) \<and>
       (\<forall>p \<in> set ACCOUNTING_PHASES. \<exists>n \<ge> 0. map_of ob p = Some (JInt n)) \<and> expect ob ''total_cycles'' (JInt (phase_cycles ob))"
    if r: "map_of ob ''matched_comparison_ready'' = Some (JBool True)"
  proof -
    obtain memory verified where m: "map_of ob ''memory_model'' = Some (JStr memory)" "verified \<longrightarrow> memory = MATCHED_MEMORY" "check_accounting ob verified True = Inr ()"
      using parts(4) r by (metis (full_types) json.inject(1) option.inject)
    obtain missing cycles where a: "foldM (account_phase ob) ([], 0) ACCOUNTING_PHASES = Inr (missing, cycles)" "missing = []" "verified"
        "expect ob ''total_cycles'' (JInt cycles)"
      using m(3) unfolding check_accounting_def by (auto simp: res_simps split: if_splits)
    note ph = account_phases [OF a(1)]
    have "filter (\<lambda>p. map_of ob p = Some JNull) ACCOUNTING_PHASES = []" using ph a(2) by (simp add: eq_commute [of "[]"])
    then have "\<forall>p \<in> set ACCOUNTING_PHASES. map_of ob p \<noteq> Some JNull" by (simp add: filter_empty_conv)
    then show ?thesis using ph a(3,4) m(1,2) by (auto simp: phase_cycles_def)
  qed
  ultimately show ?thesis using parts(1,2) by blast
qed

section \<open>The module's own observations\<close>

lemmas observation_defs = validate_simulation_observation_def observation_header_def contract_id_total check_output_def read_counts_def check_status_def
  check_accounting_def account_phase_def observation_fields_def field_def member_of_def in_texts_def want_def want_bool_def natural_field_def expect_def
  ACCOUNTING_PHASES_def IMPLEMENTATIONS_def MEMORY_MODELS_def MATCHED_MEMORY_def jtexts_def

definition own_id :: "((string \<times> json) list \<Rightarrow> string) \<Rightarrow> string" where
  "own_id jsha = jsha (compile_simulation_adapter_contract jsha)"

lemma functional_valid:
  "validate_simulation_observation jsha (functional_observation jsha (own_id jsha) invocation) =
     (case invocation of JInt n \<Rightarrow> if n < 1 then Inl (ValueError ''invocation must be a positive integer'') else Inr ()
      | _ \<Rightarrow> Inl (ValueError ''invocation must be a positive integer''))"
  unfolding functional_observation_def by (simp add: observation_defs own_id_def split: json.splits)

lemma functional_emitted:
  "static_graph_functional_observation jsha (JInt n) = (if n < 1 then Inl (ValueError ''invocation must be a positive integer'')
     else Inr (functional_observation jsha (own_id jsha) (JInt n)))"
  using functional_valid [of jsha "JInt n"]
  by (simp add: static_graph_functional_observation_def contract_id_total own_id_def)

text \<open>The updated observations as explicit lists.\<close>

definition observation_of :: "string \<Rightarrow> string \<Rightarrow> string \<Rightarrow> json \<Rightarrow> string \<Rightarrow> bool \<Rightarrow> int list \<Rightarrow> json list \<Rightarrow> string list \<Rightarrow> string \<Rightarrow> (string \<times> json) list" where
  "observation_of contract_id descriptor_id implementation invocation status valid counts phases missing memory =
     [(''schema'', JStr ADAPTER_SCHEMA), (''adapter_contract_sha256'', JStr contract_id), (''descriptor_sha256'', JStr descriptor_id),
      (''implementation'', JStr implementation), (''invocation'', invocation), (''status'', JStr status), (''semantic_valid'', JBool valid),
      (''output_private'', JBool valid), (''output_published'', JBool False), (''input_words_staged'', JInt 324), (''output_words_validated'', JInt (counts ! 0)),
      (''useful_loads'', JInt (counts ! 1)), (''useful_adds'', JInt (counts ! 2)), (''useful_stores'', JInt (counts ! 3)), (''installation_cycles'', phases ! 0),
      (''staging_cycles'', phases ! 1), (''execution_cycles'', phases ! 2), (''completion_cycles'', phases ! 3), (''validation_cycles'', phases ! 4),
      (''publication_cycles'', phases ! 5), (''total_cycles'', JNull), (''accounting_complete'', JBool False), (''missing_accounting'', jtexts missing),
      (''evidence_class'', JStr EVIDENCE_CLASS), (''performance_claim'', JBool False), (''memory_model'', JStr memory), (''resource_match_verified'', JBool False),
      (''matched_comparison_ready'', JBool False)]"

lemma cancelled_list:
  "dict_update (functional_observation jsha contract_id invocation)
     [(''status'', JStr ''cancelled''), (''semantic_valid'', JBool False), (''output_private'', JBool False),
      (''output_words_validated'', JInt 0), (''useful_loads'', JInt 7), (''useful_adds'', JInt 5), (''useful_stores'', JInt 1),
      (''execution_cycles'', JInt 17), (''validation_cycles'', JInt 0)] =
   observation_of contract_id (configuration_id jsha) ''static-graph'' invocation ''cancelled'' False [0, 7, 5, 1]
     [JNull, JInt 648, JInt 17, JNull, JInt 0, JNull] [''installation_cycles'', ''completion_cycles'', ''publication_cycles''] ''owned-private-scratchpads''"
  unfolding dict_update_def functional_observation_def observation_of_def by (simp add: numeral_eq_Suc)

lemma cpu_list:
  "dict_update (functional_observation jsha contract_id invocation)
     ([(''implementation'', JStr implementation), (''memory_model'', JStr memory), (''missing_accounting'', jtexts ACCOUNTING_PHASES)] @
        map (\<lambda>phase. (phase, JNull)) ACCOUNTING_PHASES) =
   observation_of contract_id (configuration_id jsha) implementation invocation ''completed'' True [256, 1280, 1024, 256]
     [JNull, JNull, JNull, JNull, JNull, JNull] ACCOUNTING_PHASES memory"
  unfolding dict_update_def functional_observation_def observation_of_def ACCOUNTING_PHASES_def by (simp add: numeral_eq_Suc)

lemma cancelled_emitted:
  assumes "1 \<le> n"
  shows "\<exists>ob. static_graph_cancelled_observation jsha (JInt n) = Inr ob \<and> map_of ob ''matched_comparison_ready'' = Some (JBool False)"
proof -
  have "validate_simulation_observation jsha (observation_of (own_id jsha) (configuration_id jsha) ''static-graph'' (JInt n) ''cancelled'' False [0, 7, 5, 1]
     [JNull, JInt 648, JInt 17, JNull, JInt 0, JNull] [''installation_cycles'', ''completion_cycles'', ''publication_cycles''] ''owned-private-scratchpads'') = Inr ()"
    using assms unfolding observation_of_def by (simp add: observation_defs own_id_def numeral_eq_Suc)
  then show ?thesis
    using assms unfolding static_graph_cancelled_observation_def functional_emitted
    by (simp add: cancelled_list del: py_eq.simps) (simp add: observation_of_def)
qed

lemma cpu_emitted:
  assumes "1 \<le> n" "implementation \<in> {''rocket-in-order'', ''boom-ooo'', ''boom-ooo-disabled-diagnostic''}"
    "memory \<in> {''cache-backed-variable-latency'', ''shared-tilelink-banked-scratchpad-unverified-latency''}"
  shows "\<exists>ob. cpu_functional_observation jsha implementation (JInt n) memory = Inr ob \<and> map_of ob ''matched_comparison_ready'' = Some (JBool False)"
proof -
  have "implementation \<in> set IMPLEMENTATIONS" "memory \<in> MEMORY_MODELS" using assms(2,3) by (auto simp: IMPLEMENTATIONS_def MEMORY_MODELS_def)
  then have "validate_simulation_observation jsha (observation_of (own_id jsha) (configuration_id jsha) implementation (JInt n) ''completed'' True [256, 1280, 1024, 256]
     [JNull, JNull, JNull, JNull, JNull, JNull] ACCOUNTING_PHASES memory) = Inr ()"
    using assms(1) unfolding observation_of_def
    by (simp add: validate_simulation_observation_def observation_header_def contract_id_total check_output_def read_counts_def check_status_def
      check_accounting_def account_phase_def observation_fields_def field_def member_of_def in_texts_def want_def want_bool_def natural_field_def expect_def
      ACCOUNTING_PHASES_def jtexts_def own_id_def numeral_eq_Suc)
  then show ?thesis
    using assms unfolding cpu_functional_observation_def functional_emitted
    by (simp add: cpu_list [simplified] del: py_eq.simps) (simp add: observation_of_def)
qed

text \<open>
  For every positive invocation number the module's three observations pass its own
  validation, and none of them is ready for comparison; other numbers are refused.
\<close>

theorem emitted_observations_admitted:
  "if n < 1 then static_graph_functional_observation jsha (JInt n) = Inl (ValueError ''invocation must be a positive integer'')
   else (\<exists>a b. static_graph_functional_observation jsha (JInt n) = Inr a \<and> static_graph_cancelled_observation jsha (JInt n) = Inr b \<and>
     map_of a ''matched_comparison_ready'' = Some (JBool False) \<and> map_of b ''matched_comparison_ready'' = Some (JBool False) \<and>
     list_all (\<lambda>implementation. list_all (\<lambda>memory.
        \<exists>c. cpu_functional_observation jsha implementation (JInt n) memory = Inr c \<and> map_of c ''matched_comparison_ready'' = Some (JBool False))
        [''cache-backed-variable-latency'', ''shared-tilelink-banked-scratchpad-unverified-latency'']) [''rocket-in-order'', ''boom-ooo'', ''boom-ooo-disabled-diagnostic''])"
proof (cases "n < 1")
  case False
  then have n: "1 \<le> n" by simp
  have "map_of (functional_observation jsha (own_id jsha) (JInt n)) ''matched_comparison_ready'' = Some (JBool False)"
    by (simp add: functional_observation_def)
  moreover have "list_all (\<lambda>implementation. list_all (\<lambda>memory.
        \<exists>c. cpu_functional_observation jsha implementation (JInt n) memory = Inr c \<and> map_of c ''matched_comparison_ready'' = Some (JBool False))
        [''cache-backed-variable-latency'', ''shared-tilelink-banked-scratchpad-unverified-latency'']) [''rocket-in-order'', ''boom-ooo'', ''boom-ooo-disabled-diagnostic'']"
    unfolding list_all_iff using cpu_emitted [OF n] by simp
  ultimately show ?thesis using False functional_emitted [of jsha n] cancelled_emitted [OF n, of jsha] by auto
qed (simp add: functional_emitted)

definition complete_observation :: "(string \<times> json) list" where
  "complete_observation = dict_update (functional_observation (\<lambda>_. ''id'') (own_id (\<lambda>_. ''id'')) (JInt 1))
     [(''installation_cycles'', JInt 1), (''completion_cycles'', JInt 2), (''publication_cycles'', JInt 0), (''total_cycles'', JInt 4235),
      (''accounting_complete'', JBool True), (''missing_accounting'', JList []), (''memory_model'', JStr MATCHED_MEMORY),
      (''resource_match_verified'', JBool True), (''matched_comparison_ready'', JBool True)]"

theorem observation_sound_witness:
  "validate_simulation_observation (\<lambda>_. ''id'') complete_observation = Inr () \<and> expect complete_observation ''total_cycles'' (JInt (phase_cycles complete_observation))"
proof -
  have v: "validate_simulation_observation (\<lambda>_. ''id'') complete_observation = Inr ()" by code_simp
  have "map_of complete_observation ''matched_comparison_ready'' = Some (JBool True)" by code_simp
  with observation_sound [OF v] v show ?thesis by blast
qed

end
