(* ===== verification/Schedule_Trace.thy ===== *)
theory Schedule_Trace
  imports Simulation_Adapter Command_Program
begin

unbundle bit_operations_syntax

text \<open>
  \<open>raveil/graph_device_schedule.py\<close> and \<open>raveil/riscv_stencil_signature.py\<close>: the schedule generated
  from the static descriptor, the memory transactions it predicts for a seed, the parser of
  the simulator's trace, the comparison of a trace with the prediction, and the check of a
  signature file. \<open>T0123ScheduleError\<close> and \<open>RiscvStencilSignatureError\<close> are \<open>ValueError\<close>s. The
  identities of files and of the device ABI are arguments.
\<close>

section \<open>Seeded inputs and signatures\<close>

definition MASK32 :: int where "MASK32 = 0xFFFFFFFF"

definition input_words :: "int \<Rightarrow> int list res" where
  "input_words seed =
     rbind (reject (seed < 0 \<or> seed > 0xFFFFFFFF) (ValueError ''seed must be uint32'')) (\<lambda>_.
     Inr (map (\<lambda>index. (((int index + 1) * (seed * 2654435761 AND MASK32)) XOR push_bit (nat (seed AND 7)) (int index) XOR (seed * 17)) AND MASK32) [0..<324]))"

text \<open>\<open>str.splitlines\<close> and \<open>str.split\<close> on ASCII text.\<close>

definition line_break :: "char \<Rightarrow> bool" where
  "line_break c \<longleftrightarrow> c \<in> {CHR 0x0A, CHR 0x0B, CHR 0x0C, CHR 0x0D, CHR 0x1C, CHR 0x1D, CHR 0x1E}"

fun text_lines :: "string \<Rightarrow> string list" where
  "text_lines [] = []"
| "text_lines (c # cs) =
     (if c = CHR 0x0D \<and> cs \<noteq> [] \<and> hd cs = CHR 0x0A then [] # text_lines (tl cs)
      else if line_break c then [] # text_lines cs
      else (case text_lines cs of [] \<Rightarrow> [[c]] | w # ws \<Rightarrow> (c # w) # ws))"

definition blank :: "char \<Rightarrow> bool" where
  "blank c \<longleftrightarrow> line_break c \<or> c \<in> {CHR 0x09, CHR 0x1F, CHR '' ''}"

function fields_of :: "string \<Rightarrow> string list" where
  "fields_of s = (case dropWhile blank s of [] \<Rightarrow> [] | c # cs \<Rightarrow> (c # takeWhile (\<lambda>x. \<not> blank x) cs) # fields_of (dropWhile (\<lambda>x. \<not> blank x) cs))"
  by pat_completeness auto
termination
proof (relation "measure length", goal_cases)
  case (2 s c cs)
  have "length (dropWhile (\<lambda>x. \<not> blank x) cs) \<le> length cs" "length (c # cs) \<le> length s"
    using 2 by (simp_all add: length_dropWhile_le) (metis length_Cons length_dropWhile_le)
  then show ?case by simp
qed simp

declare fields_of.simps [simp del]

definition any_hex :: "char \<Rightarrow> bool" where
  "any_hex c \<longleftrightarrow> c \<in> set ''0123456789abcdefABCDEF''"

definition hex_value :: "char \<Rightarrow> int" where
  "hex_value c = (let n = (of_char c :: int) in if n \<le> 57 then n - 48 else if n \<le> 70 then n - 55 else n - 87)"

definition hex_int :: "string \<Rightarrow> int" where
  "hex_int s = foldl (\<lambda>a c. 16 * a + hex_value c) 0 s"

definition signature_word :: "string \<Rightarrow> int res" where
  "signature_word line = rbind (reject (length line \<noteq> 8 \<or> \<not> list_all any_hex line) (ValueError ''signature word must be eight hex digits'')) (\<lambda>_. Inr (hex_int line))"

definition parse_signature :: "string \<Rightarrow> int list res" where
  "parse_signature s =
     rbind (reject (length (text_lines s) \<noteq> 256) (ValueError ''signature must contain 256 words'')) (\<lambda>_. mapM signature_word (text_lines s))"

definition validate_signature :: "string \<Rightarrow> int \<Rightarrow> int list res" where
  "validate_signature s seed =
     rbind (parse_signature s) (\<lambda>actual.
     rbind (input_words seed) (\<lambda>words.
     rbind (static_stencil_oracle words) (\<lambda>expected.
     rbind (reject (actual \<noteq> expected) (ValueError ''signature mismatch at output'')) (\<lambda>_. Inr actual))))"

section \<open>The generated schedule\<close>

definition SCHEDULE_SCHEMA :: string where "SCHEDULE_SCHEMA = ''raveil.graph-device-generated-schedule/v1''"
definition MVP_EVIDENCE :: string where "MVP_EVIDENCE = ''rtl-simulation-functional''"

definition jdict :: "json \<Rightarrow> (string \<times> json) list" where
  "jdict j = (case j of JDict d \<Rightarrow> d | _ \<Rightarrow> [])"

definition node_by_id :: "string \<Rightarrow> (string \<times> json) list" where
  "node_by_id name = the (map_of (map (\<lambda>j. (jstr (item (jdict j) ''id''), jdict j)) (jitems (item compile_static_stencil_descriptor ''nodes''))) name)"

definition schedule_slots :: "(json \<times> nat \<times> string) list" where
  "schedule_slots = concat (map (\<lambda>j. map (\<lambda>(slot, name). (item (jdict j) ''cycle'', slot, jstr name)) (enumerate 0 (jitems (item (jdict j) ''nodes''))))
     (jitems (item compile_static_stencil_descriptor ''schedule'')))"

definition schedule_entry :: "json \<times> nat \<times> string \<Rightarrow> json" where
  "schedule_entry s = (case s of (cycle, slot, name) \<Rightarrow>
     JDict ([(''cycle'', cycle), (''slot'', JInt (int slot)), (''node'', JStr name), (''op'', item (node_by_id name) ''op'')] @
       (case map_of (node_by_id name) ''effect'' of None \<Rightarrow> [] | Some e \<Rightarrow> [(''effect'', e)])))"

definition transaction_entry :: "nat \<times> string \<Rightarrow> json" where
  "transaction_entry s = (case s of (k, name) \<Rightarrow>
     (let effect = jdict (item (node_by_id name) ''effect'')
      in JDict [(''sequence'', JInt (int k)), (''node'', JStr name), (''op'', item (node_by_id name) ''op''), (''object'', item effect ''object''), (''affine'', item effect ''affine'')]))"

definition transaction_template :: "json list" where
  "transaction_template = map transaction_entry (enumerate 0 (filter (\<lambda>name. map_of (node_by_id name) ''effect'' \<noteq> None) (map (\<lambda>(_, _, name). name) schedule_slots)))"

definition space_json :: "int \<Rightarrow> int \<Rightarrow> json" where
  "space_json base words = JDict [(''base_word'', JInt base), (''count_words'', JInt words)]"

record schedule_identity =
  si_abi :: string
  si_source :: string
  si_input :: int
  si_output :: int

definition compile_generated_schedule :: "((string \<times> json) list \<Rightarrow> string) \<Rightarrow> schedule_identity \<Rightarrow> (string \<times> json) list" where
  "compile_generated_schedule jsha i =
     [(''schema'', JStr SCHEDULE_SCHEMA), (''task'', JStr ''T-0123''), (''slice'', JStr ''S01''), (''descriptor_sha256'', JStr (configuration_id jsha)),
      (''configuration_sha256'', JStr (configuration_id jsha)), (''abi_sha256'', JStr (si_abi i)), (''source_sha256'', JStr (si_source i)),
      (''executor_target'', item compile_static_stencil_descriptor ''target_signature''), (''schedule'', JList (map schedule_entry schedule_slots)),
      (''transaction_template'', JList transaction_template), (''address_spaces'', JDict [(''A'', space_json 0 324), (''B'', space_json 324 256)]),
      (''internal_scratchpad_mapping'', JDict [(''input_words'', space_json 0 324), (''output_words'', space_json 324 256), (''host_abi_input_offset'', JInt (si_input i)),
         (''host_abi_output_offset'', JInt (si_output i))]), (''outputs_per_invocation'', JInt 256), (''evidence_class'', JStr MVP_EVIDENCE), (''performance'', JStr ''not-measured'')]"

definition validate_generated_schedule :: "((string \<times> json) list \<Rightarrow> string) \<Rightarrow> schedule_identity \<Rightarrow> (string \<times> json) list \<Rightarrow> unit res" where
  "validate_generated_schedule jsha i schedule =
     reject (\<not> py_eq (JDict schedule) (JDict (compile_generated_schedule jsha i))) (ValueError ''generated schedule content or identity changed'')"

definition logical_address :: "string \<Rightarrow> int \<Rightarrow> int \<Rightarrow> int res" where
  "logical_address expression y x =
     (if expression = ''18*y+x'' then Inr (18 * y + x)
      else if expression = ''18*(y-1)+x'' then Inr (18 * (y - 1) + x)
      else if expression = ''18*(y+1)+x'' then Inr (18 * (y + 1) + x)
      else if expression = ''18*y+x-1'' then Inr (18 * y + x - 1)
      else if expression = ''18*y+x+1'' then Inr (18 * y + x + 1)
      else if expression = ''16*(y-1)+(x-1)'' then Inr (16 * (y - 1) + (x - 1))
      else Inl (ValueError ''unsupported S01 affine expression''))"

record trace_op =
  to_write :: bool
  to_address :: int
  to_data :: "int option"

definition planned_op :: "(string \<times> json) list \<Rightarrow> int list \<Rightarrow> nat \<Rightarrow> json \<Rightarrow> trace_op res" where
  "planned_op schedule golden k operation =
     (let d = jdict operation; space = jdict (item (jdict (item schedule ''address_spaces'')) (jstr (item d ''object'')));
          base = jint (item space ''base_word''); words = jint (item space ''count_words'')
      in rbind (logical_address (jstr (item d ''affine'')) (int k div 16 + 1) (int k mod 16 + 1)) (\<lambda>logical.
         rbind (reject (\<not> (base \<le> base + logical \<and> base + logical < base + words)) (ValueError ''generated transaction escaped its object'')) (\<lambda>_.
         Inr (let write = jstr (item d ''op'') = ''STORE_U32''
              in \<lparr>to_write = write, to_address = base + logical, to_data = (if write then Some (golden ! k) else None)\<rparr>))))"

definition schedule_transactions :: "((string \<times> json) list \<Rightarrow> string) \<Rightarrow> schedule_identity \<Rightarrow> (string \<times> json) list \<Rightarrow> int \<Rightarrow> trace_op list res" where
  "schedule_transactions jsha i schedule seed =
     rbind (validate_generated_schedule jsha i schedule) (\<lambda>_.
     rbind (input_words seed) (\<lambda>words.
     rbind (static_stencil_oracle words) (\<lambda>golden.
     rbind (mapM (\<lambda>k. mapM (planned_op schedule golden k) (jitems (item schedule ''transaction_template''))) [0..<nat (jint (item schedule ''outputs_per_invocation''))]) (\<lambda>cells.
     Inr (concat cells)))))"

section \<open>Traces\<close>

definition trace_field :: "(string \<times> string) list \<Rightarrow> string \<Rightarrow> (string \<times> string) list res" where
  "trace_field values' fld =
     rbind (reject (CHR ''='' \<notin> set fld) (ValueError ''trace field is malformed'')) (\<lambda>_.
     (let key = takeWhile (\<lambda>c. c \<noteq> CHR ''='') fld
      in rbind (reject (key \<in> set (map fst values')) (ValueError ''trace field is duplicated'')) (\<lambda>_. Inr (values' @ [(key, drop (Suc (length key)) fld)]))))"

definition decimal_text :: "string \<Rightarrow> bool" where
  "decimal_text s \<longleftrightarrow> s = ''0'' \<or> s \<noteq> [] \<and> hd s \<noteq> CHR ''0'' \<and> list_all (\<lambda>c. c \<in> set ''0123456789'') s"

definition u32_hex_text :: "string \<Rightarrow> bool" where
  "u32_hex_text s \<longleftrightarrow> length s = 8 \<and> list_all (\<lambda>c. c \<in> set ''0123456789abcdef'') s"

record trace_state =
  ts_events :: "string list"
  ts_segments :: "trace_op list list"
  ts_current :: "trace_op list option"

definition field_text :: "(string \<times> string) list \<Rightarrow> string \<Rightarrow> string" where
  "field_text vs k = (case map_of vs k of Some s \<Rightarrow> s | None \<Rightarrow> [])"

definition close_current :: "trace_state \<Rightarrow> trace_op list list" where
  "close_current st = ts_segments st @ (case ts_current st of None \<Rightarrow> [] | Some ops \<Rightarrow> [ops])"

definition trace_transaction :: "trace_state \<Rightarrow> (string \<times> string) list \<Rightarrow> trace_state res" where
  "trace_transaction st vs =
     rbind (want (ts_current st) ''transaction occurred outside an invocation'') (\<lambda>ops.
     rbind (reject (set (map fst vs) \<noteq> {''write'', ''address'', ''data''}) (ValueError ''transaction occurred outside an invocation'')) (\<lambda>_.
     rbind (reject (field_text vs ''write'' \<notin> {''0'', ''1''} \<or> \<not> decimal_text (field_text vs ''address'') \<or> \<not> u32_hex_text (field_text vs ''data''))
              (ValueError ''transaction field is not canonical numeric text'')) (\<lambda>_.
     (let address = int (nat_str (field_text vs ''address''))
      in rbind (reject (\<not> (0 \<le> address \<and> address < 580)) (ValueError ''transaction field is out of range'')) (\<lambda>_.
         Inr (st\<lparr>ts_current := Some (ops @ [\<lparr>to_write = (field_text vs ''write'' = ''1''), to_address = address, to_data = Some (hex_int (field_text vs ''data''))\<rparr>])\<rparr>))))))"

definition trace_event :: "trace_state \<Rightarrow> string \<Rightarrow> trace_state res" where
  "trace_event st event =
     (if event = ''start'' then Inr (st\<lparr>ts_events := ts_events st @ [event], ts_segments := close_current st, ts_current := Some []\<rparr>)
      else if event = ''cancel'' then
        rbind (reject (ts_current st = None) (ValueError ''cancel occurred outside an invocation'')) (\<lambda>_.
        Inr (st\<lparr>ts_events := ts_events st @ [event], ts_segments := close_current st, ts_current := None\<rparr>))
      else Inr (st\<lparr>ts_events := ts_events st @ [event], ts_segments := close_current st, ts_current := None\<rparr>))"

definition trace_line :: "trace_state \<Rightarrow> string \<Rightarrow> trace_state res" where
  "trace_line st line = (case fields_of line of
     [] \<Rightarrow> Inl (ValueError ''trace line has an invalid schema'')
   | header # fields' \<Rightarrow>
       rbind (reject (header \<noteq> ''GraphDevice-TRACE-V1'') (ValueError ''trace line has an invalid schema'')) (\<lambda>_.
       rbind (foldM trace_field [] fields') (\<lambda>values'.
       (let event = map_of values' ''event''; rest = filter (\<lambda>(k, _). k \<noteq> ''event'') values'
        in if event = Some ''transaction'' then trace_transaction st rest
           else (case event of
               Some e \<Rightarrow> rbind (reject (rest \<noteq> [] \<or> e \<notin> {''reset'', ''start'', ''cancel''}) (ValueError ''trace event changed'')) (\<lambda>_. trace_event st e)
             | None \<Rightarrow> Inl (ValueError ''trace event changed''))))))"

definition parse_trace :: "string \<Rightarrow> (string list \<times> trace_op list list) res" where
  "parse_trace s =
     rbind (foldM trace_line \<lparr>ts_events = [], ts_segments = [], ts_current = None\<rparr> (text_lines s)) (\<lambda>st. Inr (ts_events st, close_current st))"

definition same_op :: "trace_op \<times> trace_op \<Rightarrow> unit res" where
  "same_op pair = (case pair of (observed, planned) \<Rightarrow>
     rbind (reject (to_write observed \<noteq> to_write planned \<or> to_address observed \<noteq> to_address planned) (ValueError ''transaction schedule mismatch'')) (\<lambda>_.
     reject (to_write planned \<and> to_data observed \<noteq> to_data planned) (ValueError ''transaction store data mismatch'')))"

definition require_equivalent :: "trace_op list \<Rightarrow> trace_op list \<Rightarrow> bool \<Rightarrow> unit res" where
  "require_equivalent actual expected prefix =
     rbind (if prefix then rbind (reject (\<not> (0 < length actual \<and> length actual < length expected)) (ValueError ''cancel trace must be a non-empty strict prefix'')) (\<lambda>_. Inr (take (length actual) expected))
            else rbind (reject (length actual \<noteq> length expected) (ValueError ''completed transaction count changed'')) (\<lambda>_. Inr expected)) (\<lambda>selected.
     foldM (\<lambda>_. same_op) () (zip actual selected))"

section \<open>What the schedule predicts\<close>

definition read_op :: "int \<Rightarrow> trace_op" where
  "read_op address = \<lparr>to_write = False, to_address = address, to_data = None\<rparr>"

definition write_op :: "int \<Rightarrow> int \<Rightarrow> trace_op" where
  "write_op address word = \<lparr>to_write = True, to_address = address, to_data = Some word\<rparr>"

text \<open>The six transactions of output \<open>k\<close>: centre, north, south, west, east, store.\<close>

definition cell_ops :: "int list \<Rightarrow> nat \<Rightarrow> trace_op list" where
  "cell_ops golden k =
     (let c = 18 * (int k div 16 + 1) + (int k mod 16 + 1)
      in [read_op c, read_op (c - 18), read_op (c + 18), read_op (c - 1), read_op (c + 1), write_op (324 + int k) (golden ! k)])"

lemma template_ops:
  "map (\<lambda>j. (jstr (item (jdict j) ''op''), jstr (item (jdict j) ''object''), jstr (item (jdict j) ''affine''))) transaction_template =
     map (\<lambda>(name, formula). (if name = ''store_output'' then ''STORE_U32'' else ''LOAD_U32'', if name = ''store_output'' then ''B'' else ''A'', formula)) static_affine"
  by code_simp

lemma schedule_items:
  "item (compile_generated_schedule jsha i) ''transaction_template'' = JList transaction_template"
  "item (compile_generated_schedule jsha i) ''outputs_per_invocation'' = JInt 256"
  "item (compile_generated_schedule jsha i) ''address_spaces'' = JDict [(''A'', space_json 0 324), (''B'', space_json 324 256)]"
  by (simp_all add: item_def compile_generated_schedule_def)

lemma planned_op_fields:
  "planned_op schedule golden k j =
     (let space = jdict (item (jdict (item schedule ''address_spaces'')) object); base = jint (item space ''base_word''); words = jint (item space ''count_words'')
      in rbind (logical_address affine (int k div 16 + 1) (int k mod 16 + 1)) (\<lambda>logical.
         rbind (reject (\<not> (base \<le> base + logical \<and> base + logical < base + words)) (ValueError ''generated transaction escaped its object'')) (\<lambda>_.
         Inr (if op = ''STORE_U32'' then write_op (base + logical) (golden ! k) else read_op (base + logical)))))"
  if "(jstr (item (jdict j) ''op''), jstr (item (jdict j) ''object''), jstr (item (jdict j) ''affine'')) = (op, object, affine)" for op object affine
  using that by (cases "op = ''STORE_U32''") (auto simp: planned_op_def Let_def write_op_def read_op_def intro!: rbind_cong)

lemma planned_cell:
  assumes "k < 256"
  shows "mapM (planned_op (compile_generated_schedule jsha i) golden k) transaction_template = Inr (cell_ops golden k)"
proof -
  let ?key = "\<lambda>j. (jstr (item (jdict j) ''op''), jstr (item (jdict j) ''object''), jstr (item (jdict j) ''affine''))"
  obtain a b c d e f where t: "transaction_template = [a, b, c, d, e, f]" and keys: "?key a = (''LOAD_U32'', ''A'', ''18*y+x'')" "?key b = (''LOAD_U32'', ''A'', ''18*(y-1)+x'')"
    "?key c = (''LOAD_U32'', ''A'', ''18*(y+1)+x'')" "?key d = (''LOAD_U32'', ''A'', ''18*y+x-1'')" "?key e = (''LOAD_U32'', ''A'', ''18*y+x+1'')"
    "?key f = (''STORE_U32'', ''B'', ''16*(y-1)+(x-1)'')"
    using template_ops unfolding static_affine_def by (auto simp: map_eq_Cons_conv)
  have spaces: "item (jdict (space_json base words)) ''base_word'' = JInt base" "item (jdict (space_json base words)) ''count_words'' = JInt words" for base words
    by (simp_all add: item_def jdict_def space_json_def)
  have ab: "item (jdict (JDict [(''A'', space_json 0 324), (''B'', space_json 324 256)])) ''A'' = space_json 0 324"
    "item (jdict (JDict [(''A'', space_json 0 324), (''B'', space_json 324 256)])) ''B'' = space_json 324 256" by (simp_all add: item_def jdict_def)
  let ?y = "int k div 16" and ?x = "int k mod 16"
  have yx: "0 \<le> ?y" "?y \<le> 15" "0 \<le> ?x" "?x \<le> 15" "16 * ?y + ?x = int k" using assms by (auto simp: zdiv_int [symmetric])
  have ops: "planned_op (compile_generated_schedule jsha i) golden k j = Inr (read_op address)"
    if "?key j = (''LOAD_U32'', ''A'', formula)" "logical_address formula (?y + 1) (?x + 1) = Inr address" "0 \<le> address" "address < 324" for j formula address
    using that(2-) unfolding planned_op_fields [OF that(1)] Let_def schedule_items ab spaces by simp
  have store: "planned_op (compile_generated_schedule jsha i) golden k f = Inr (write_op (324 + int k) (golden ! k))"
    unfolding planned_op_fields [OF keys(6)] Let_def schedule_items ab spaces using yx assms by (simp add: logical_address_def algebra_simps)
  show ?thesis unfolding t cell_ops_def Let_def
    using ops [OF keys(1)] ops [OF keys(2)] ops [OF keys(3)] ops [OF keys(4)] ops [OF keys(5)] store yx
    by (simp add: logical_address_def algebra_simps)
qed

lemma input_words_total:
  assumes "0 \<le> seed" "seed < 2 ^ 32"
  obtains words where "input_words seed = Inr words" "length words = 324" "\<forall>w \<in> set words. 0 \<le> w \<and> w < 2 ^ 32"
proof -
  have "MASK32 = mask 32" by (simp add: MASK32_def mask_eq_exp_minus_1)
  then have "w AND MASK32 = take_bit 32 w" for w :: int by (simp only: take_bit_eq_mask)
  then have mask: "0 \<le> w AND MASK32 \<and> w AND MASK32 < 2 ^ 32" for w :: int by (simp only: take_bit_nonnegative take_bit_int_less_exp simp_thms)
  show thesis using that assms mask by (simp add: input_words_def)
qed

lemma generated_schedule_valid: "validate_generated_schedule jsha i (compile_generated_schedule jsha i) = Inr ()"
proof -
  have "py_eq (JList transaction_template) (JList transaction_template)" by code_simp
  moreover have "py_eq (JList (map schedule_entry schedule_slots)) (JList (map schedule_entry schedule_slots))" by code_simp
  moreover have "item compile_static_stencil_descriptor ''target_signature'' = JStr TARGET_SIGNATURE" by (simp add: item_def compile_static_stencil_descriptor_def)
  ultimately show ?thesis by (simp add: validate_generated_schedule_def compile_generated_schedule_def space_json_def del: py_eq.simps(1))
qed

lemma oracle_total:
  assumes "length words = 324"
  obtains golden where "static_stencil_oracle words = Inr golden" "length golden = 256"
  using assms that by (simp add: static_stencil_oracle_def)

lemma generated_transactions:
  assumes "0 \<le> seed" "seed < 2 ^ 32"
  obtains words golden where "input_words seed = Inr words" "static_stencil_oracle words = Inr golden" "length golden = 256"
    "schedule_transactions jsha i (compile_generated_schedule jsha i) seed = Inr (concat (map (cell_ops golden) [0..<256]))"
proof -
  obtain words where w: "input_words seed = Inr words" "length words = 324" by (rule input_words_total [OF assms])
  obtain golden where o: "static_stencil_oracle words = Inr golden" "length golden = 256" by (rule oracle_total [OF w(2)])
  have "mapM (\<lambda>k. mapM (planned_op (compile_generated_schedule jsha i) golden k) transaction_template) [0..<256] = Inr (map (cell_ops golden) [0..<256])"
    by (intro mapM_eq_map planned_cell) simp
  then have "schedule_transactions jsha i (compile_generated_schedule jsha i) seed = Inr (concat (map (cell_ops golden) [0..<256]))"
    by (simp add: schedule_transactions_def generated_schedule_valid w o schedule_items jitems_def)
  then show thesis using that w o by blast
qed

lemma cell_ops_bounds:
  assumes "k < 256" "t \<in> set (cell_ops golden k)"
  shows "if to_write t then 324 \<le> to_address t \<and> to_address t < 580 else 0 \<le> to_address t \<and> to_address t < 324"
proof -
  let ?y = "int k div 16" and ?x = "int k mod 16"
  have "0 \<le> ?y" "?y \<le> 15" "0 \<le> ?x" "?x \<le> 15" using assms(1) by (auto simp: zdiv_int [symmetric])
  then show ?thesis using assms by (auto simp: cell_ops_def Let_def read_op_def write_op_def)
qed

text \<open>
  C37. For every 32-bit seed the generated schedule passes its own validation and predicts, for
  the 256 outputs in row-major order, five reads inside the input window and one write of the
  oracle's word to the next word of the output window; nothing escapes its object.
\<close>

theorem schedule_transactions_correct:
  assumes "0 \<le> seed" "seed < 2 ^ 32"
  shows "\<exists>words golden ops. input_words seed = Inr words \<and> static_stencil_oracle words = Inr golden \<and>
    schedule_transactions jsha i (compile_generated_schedule jsha i) seed = Inr ops \<and> ops = concat (map (cell_ops golden) [0..<256]) \<and>
    (\<forall>t \<in> set ops. if to_write t then 324 \<le> to_address t \<and> to_address t < 580 else 0 \<le> to_address t \<and> to_address t < 324)"
proof -
  obtain words golden where g: "input_words seed = Inr words" "static_stencil_oracle words = Inr golden"
    "schedule_transactions jsha i (compile_generated_schedule jsha i) seed = Inr (concat (map (cell_ops golden) [0..<256]))"
    by (rule generated_transactions [OF assms])
  moreover have "if to_write t then 324 \<le> to_address t \<and> to_address t < 580 else 0 \<le> to_address t \<and> to_address t < 324"
    if "t \<in> set (concat (map (cell_ops golden) [0..<256]))" for t
    using that cell_ops_bounds [of _ t golden] by auto
  ultimately show ?thesis by blast
qed

theorem schedule_transactions_correct_witness:
  "\<exists>words golden ops. input_words 7 = Inr words \<and> static_stencil_oracle words = Inr golden \<and>
     schedule_transactions (\<lambda>_. ''x'') \<lparr>si_abi = ''a'', si_source = ''s'', si_input = 0, si_output = 1\<rparr>
       (compile_generated_schedule (\<lambda>_. ''x'') \<lparr>si_abi = ''a'', si_source = ''s'', si_input = 0, si_output = 1\<rparr>) 7 = Inr ops \<and>
     ops = concat (map (cell_ops golden) [0..<256]) \<and>
     (\<forall>t \<in> set ops. if to_write t then 324 \<le> to_address t \<and> to_address t < 580 else 0 \<le> to_address t \<and> to_address t < 324)"
  by (rule schedule_transactions_correct) simp_all

section \<open>What an accepted trace says\<close>

definition stored :: "trace_op list \<Rightarrow> (int \<times> int option) list" where
  "stored ops = map (\<lambda>t. (to_address t, to_data t)) (filter to_write ops)"

lemma same_ops_stored:
  "length xs = length ys \<Longrightarrow> foldM (\<lambda>_. same_op) () (zip xs ys) = Inr () \<Longrightarrow> stored xs = stored ys"
proof (induction xs ys rule: list_induct2)
  case (Cons x xs y ys)
  then show ?case by (auto simp: same_op_def stored_def res_simps)
qed (simp add: stored_def)

lemma stored_take: "\<exists>n. stored (take m xs) = take n (stored xs)"
proof (induction xs arbitrary: m)
  case (Cons x xs)
  show ?case
  proof (cases m)
    case (Suc k)
    obtain n where "stored (take k xs) = take n (stored xs)" using Cons.IH by blast
    then show ?thesis using Suc by (cases "to_write x") (auto simp: stored_def intro: exI [of _ "Suc n"] exI [of _ n])
  qed (auto simp: stored_def intro: exI [of _ 0])
qed (simp add: stored_def)

lemma stored_cells: "stored (concat (map (cell_ops golden) ks)) = map (\<lambda>k. (324 + int k, Some (golden ! k))) ks"
  by (induction ks) (simp_all add: stored_def cell_ops_def Let_def read_op_def write_op_def)

text \<open>
  C38. A trace the comparison accepts stores the oracle: a completed one writes the 256 oracle
  words to consecutive words of the output window in order, a cancelled one a prefix of them;
  no other write passes.
\<close>

theorem accepted_trace_stores_oracle:
  assumes "0 \<le> seed" "seed < 2 ^ 32" and "schedule_transactions jsha i (compile_generated_schedule jsha i) seed = Inr planned"
    and "input_words seed = Inr words" "static_stencil_oracle words = Inr golden" and "require_equivalent actual planned prefix = Inr ()"
  shows "\<exists>n. stored actual = take n (map (\<lambda>k. (324 + int k, Some (golden ! k))) [0..<256]) \<and> (\<not> prefix \<longrightarrow> n = 256)"
proof -
  have p: "planned = concat (map (cell_ops golden) [0..<256])"
    by (rule generated_transactions [OF assms(1,2), of jsha i]) (use assms(3-5) in auto)
  have all: "stored planned = map (\<lambda>k. (324 + int k, Some (golden ! k))) [0..<256]" unfolding p by (rule stored_cells)
  show ?thesis
  proof (cases prefix)
    case True
    then have "length actual < length planned" "foldM (\<lambda>_. same_op) () (zip actual (take (length actual) planned)) = Inr ()"
      using assms(6) by (auto simp: require_equivalent_def res_simps)
    then have "stored actual = stored (take (length actual) planned)" by (intro same_ops_stored) simp_all
    moreover obtain n where "stored (take (length actual) planned) = take n (stored planned)" using stored_take by blast
    ultimately show ?thesis using True unfolding all by auto
  next
    case False
    then have "length actual = length planned" "foldM (\<lambda>_. same_op) () (zip actual planned) = Inr ()"
      using assms(6) by (auto simp: require_equivalent_def res_simps)
    then have "stored actual = stored planned" by (rule same_ops_stored)
    then show ?thesis unfolding all by (intro exI [of _ 256]) simp
  qed
qed

theorem accepted_trace_stores_oracle_witness:
  "\<exists>planned words golden n. schedule_transactions (\<lambda>_. ''x'') \<lparr>si_abi = ''a'', si_source = ''s'', si_input = 0, si_output = 1\<rparr>
       (compile_generated_schedule (\<lambda>_. ''x'') \<lparr>si_abi = ''a'', si_source = ''s'', si_input = 0, si_output = 1\<rparr>) 7 = Inr planned \<and>
     input_words 7 = Inr words \<and> static_stencil_oracle words = Inr golden \<and> require_equivalent planned planned False = Inr () \<and>
     stored planned = take n (map (\<lambda>k. (324 + int k, Some (golden ! k))) [0..<256]) \<and> n = 256"
proof -
  let ?i = "\<lparr>si_abi = ''a'', si_source = ''s'', si_input = 0, si_output = 1\<rparr>" and ?h = "\<lambda>_ :: (string \<times> json) list. ''x''"
  have seed: "(0 :: int) \<le> 7" "(7 :: int) < 2 ^ 32" by simp_all
  obtain words golden where g: "input_words 7 = Inr words" "static_stencil_oracle words = Inr golden"
    "schedule_transactions ?h ?i (compile_generated_schedule ?h ?i) 7 = Inr (concat (map (cell_ops golden) [0..<256]))"
    by (rule generated_transactions [OF seed])
  let ?planned = "concat (map (cell_ops golden) [0..<256])"
  have "\<forall>pair \<in> set (zip ops ops). same_op pair = Inr ()" for ops :: "trace_op list" by (auto simp: same_op_def in_set_zip)
  then have r: "require_equivalent ?planned ?planned False = Inr ()" unfolding require_equivalent_def by (simp add: foldM_unit_all)
  from accepted_trace_stores_oracle [OF seed g(3,1,2) r] show ?thesis using g r by blast
qed

section \<open>What the parser of traces keeps\<close>

definition op_ok :: "trace_op \<Rightarrow> bool" where
  "op_ok t \<longleftrightarrow> 0 \<le> to_address t \<and> to_address t < 580 \<and> (\<exists>w. to_data t = Some w \<and> 0 \<le> w \<and> w < 2 ^ 32)"

definition trace_ok :: "trace_state \<Rightarrow> bool" where
  "trace_ok st \<longleftrightarrow> length (close_current st) = length (filter (\<lambda>e. e = ''start'') (ts_events st)) \<and>
     set (ts_events st) \<subseteq> {''reset'', ''start'', ''cancel''} \<and> (\<forall>ops \<in> set (close_current st). \<forall>t \<in> set ops. op_ok t)"

lemma hex_int_bound:
  assumes "list_all (\<lambda>c. c \<in> set ''0123456789abcdef'') s"
  shows "0 \<le> hex_int s \<and> hex_int s < 16 ^ length s"
  using assms
proof (induction s rule: rev_induct)
  case (snoc c s)
  have digits: "list_all (\<lambda>c. 0 \<le> hex_value c \<and> hex_value c < 16) ''0123456789abcdef''" by code_simp
  have c: "c \<in> set ''0123456789abcdef''" and s: "list_all (\<lambda>c. c \<in> set ''0123456789abcdef'') s" using snoc.prems by (simp_all only: list_all_append list.pred_inject simp_thms)
  have "0 \<le> hex_value c" "hex_value c < 16" using c digits unfolding list_all_iff by blast+
  moreover have "hex_int (s @ [c]) = 16 * hex_int s + hex_value c" by (simp add: hex_int_def)
  ultimately show ?case using snoc.IH [OF s] by simp
qed (simp add: hex_int_def)

lemma trace_transaction_ok:
  assumes ok: "trace_ok st" and run: "trace_transaction st vs = Inr st'"
  shows "trace_ok st'"
proof -
  obtain ops where ops: "ts_current st = Some ops" and h: "u32_hex_text (field_text vs ''data'')" and a: "int (nat_str (field_text vs ''address'')) < 580"
    and st': "st' = st\<lparr>ts_current := Some (ops @ [\<lparr>to_write = (field_text vs ''write'' = ''1''), to_address = int (nat_str (field_text vs ''address'')),
        to_data = Some (hex_int (field_text vs ''data''))\<rparr>])\<rparr>"
    using run unfolding trace_transaction_def Let_def by (simp only: res_simps) auto
  have "0 \<le> hex_int (field_text vs ''data'') \<and> hex_int (field_text vs ''data'') < 2 ^ 32"
    using h hex_int_bound [of "field_text vs ''data''"] unfolding u32_hex_text_def by simp
  then have "op_ok \<lparr>to_write = w, to_address = int (nat_str (field_text vs ''address'')), to_data = Some (hex_int (field_text vs ''data''))\<rparr>" for w
    using a by (simp add: op_ok_def)
  then show ?thesis using ok by (auto simp: trace_ok_def close_current_def st' ops)
qed

lemma trace_event_ok:
  assumes "trace_ok st" and "e \<in> {''reset'', ''start'', ''cancel''}" and "trace_event st e = Inr st'"
  shows "trace_ok st'"
  using assms by (auto simp: trace_event_def trace_ok_def close_current_def res_simps split: if_splits option.splits)

lemma trace_line_ok:
  assumes "trace_ok st" and "trace_line st line = Inr st'"
  shows "trace_ok st'"
proof -
  obtain header tail where f: "fields_of line = header # tail" using assms(2) by (cases "fields_of line") (auto simp: trace_line_def)
  obtain vs where v: "foldM trace_field [] tail = Inr vs" using assms(2) by (auto simp: trace_line_def f res_simps)
  let ?rest = "filter (\<lambda>(k, _). k \<noteq> ''event'') vs"
  show ?thesis
  proof (cases "map_of vs ''event'' = Some ''transaction''")
    case True
    then have "trace_transaction st ?rest = Inr st'" using assms(2) by (simp add: trace_line_def f v split: if_splits)
    then show ?thesis by (rule trace_transaction_ok [OF assms(1)])
  next
    case False
    then obtain e where e: "map_of vs ''event'' = Some e" using assms(2) by (cases "map_of vs ''event''") (auto simp: trace_line_def f v split: if_splits)
    then have "e \<in> {''reset'', ''start'', ''cancel''}" "trace_event st e = Inr st'" using False assms(2) by (auto simp: trace_line_def f v split: if_splits)
    then show ?thesis by (rule trace_event_ok [OF assms(1)])
  qed
qed

text \<open>
  C39. A parsed trace is well formed: it has one segment for every start event, its other events
  are resets and cancellations, and every recorded transaction addresses one of the 580 words
  of the scratchpad and carries a 32-bit word.
\<close>

theorem parse_trace_well_formed:
  assumes "parse_trace s = Inr (events, segments)"
  shows "length segments = length (filter (\<lambda>e. e = ''start'') events) \<and> set events \<subseteq> {''reset'', ''start'', ''cancel''} \<and>
    (\<forall>ops \<in> set segments. \<forall>t \<in> set ops. op_ok t)"
proof -
  let ?init = "\<lparr>ts_events = [], ts_segments = [], ts_current = None\<rparr>"
  obtain st where st: "foldM trace_line ?init (text_lines s) = Inr st" "events = ts_events st" "segments = close_current st"
    using assms by (auto simp: parse_trace_def res_simps)
  have "trace_ok ?init" by (simp add: trace_ok_def close_current_def)
  then have "trace_ok st" using trace_line_ok by (rule foldM_invariant [OF st(1), of trace_ok])
  then show ?thesis by (simp add: trace_ok_def st)
qed

theorem parse_trace_well_formed_witness:
  "\<exists>events segments. parse_trace (''GraphDevice-TRACE-V1 event=start'' @ [CHR 0x0A] @ ''GraphDevice-TRACE-V1 event=transaction write=1 address=3 data=000000ff'' @ [CHR 0x0A]) = Inr (events, segments) \<and>
     length segments = length (filter (\<lambda>e. e = ''start'') events) \<and> set events \<subseteq> {''reset'', ''start'', ''cancel''} \<and> (\<forall>ops \<in> set segments. \<forall>t \<in> set ops. op_ok t) \<and> events = [''start'']"
proof -
  let ?p = "parse_trace (''GraphDevice-TRACE-V1 event=start'' @ [CHR 0x0A] @ ''GraphDevice-TRACE-V1 event=transaction write=1 address=3 data=000000ff'' @ [CHR 0x0A])"
  have "(case ?p of Inl _ \<Rightarrow> False | Inr (events, segments) \<Rightarrow> events = [''start''])" by code_simp
  then obtain segments where p: "?p = Inr ([''start''], segments)" by (cases ?p) (auto split: prod.splits)
  from parse_trace_well_formed [OF p] show ?thesis using p by blast
qed

end
