(* ===== verification/Grid_Words.thy ===== *)
theory Grid_Words
  imports Grid_Run
begin

text \<open>
  Planes and grid sources. A computed plane becomes the input of another grid through its
  dictionary; the planners of arrays and flows admit a source with zero planes and run it with
  computed ones. Admission does not depend on the words, and the grid a source computes does
  not depend on its tile.
\<close>

section \<open>Encoded planes\<close>

text \<open>\<open>dict(schema=INPUT, **plane)\<close>\<close>

definition INPUT_SCHEMA :: string where "INPUT_SCHEMA = ''raveil.grid-input/v2''"

definition grid_json :: "grid \<Rightarrow> json" where
  "grid_json g = JDict [(''schema'', JStr INPUT_SCHEMA), (''rows'', JInt (g_rows g)), (''columns'', JInt (g_columns g)), (''words'', words_json (g_words g))]"

text \<open>Computed planes by the name of their producer.\<close>

type_synonym planes = "string \<rightharpoonup> grid"

lemma length_str_nat: "n < 10 ^ k \<Longrightarrow> 1 \<le> k \<Longrightarrow> length (str_nat n) \<le> k"
proof (induction k arbitrary: n)
  case (Suc k)
  show ?case
  proof (cases "n < 10")
    case False
    then have "1 \<le> k" using Suc.prems by (cases k) auto
    moreover have "n div 10 < 10 ^ k" using Suc.prems(1) by (simp add: less_mult_imp_div_less mult.commute)
    ultimately show ?thesis using Suc.IH [of "n div 10"] False by (subst str_nat.simps) simp
  qed (subst str_nat.simps, simp)
qed simp

lemma int_size_word:
  assumes "0 \<le> w" "w \<le> MASK"
  shows "int_size w \<le> 10"
proof -
  have "nat \<bar>w\<bar> < 10 ^ 10" using assms by (simp add: MASK_def nat_less_iff)
  then show ?thesis using length_str_nat [of "nat \<bar>w\<bar>" 10] assms by (simp add: int_size_def)
qed

lemma dump_words:
  assumes "\<forall>w \<in> set ws. 0 \<le> w \<and> w \<le> MASK"
  shows "dump_size 1 (words_json ws) \<le> 5 + 16 * length ws"
proof -
  have "sum_list (map (\<lambda>x. 5 + int_size x) ws) \<le> 15 * length ws"
    using assms by (induction ws) (auto dest: int_size_word)
  then show ?thesis by (cases ws) (auto simp: words_json_def comp_def)
qed

lemma read_grid_json:
  assumes "grid_ok g"
  shows "read_input (grid_json g) = Inr g"
proof -
  have b: "1 \<le> g_rows g" "g_rows g \<le> 64" "1 \<le> g_columns g" "g_columns g \<le> 64" "int (length (g_words g)) = g_rows g * g_columns g"
    and w: "\<forall>w \<in> set (g_words g). 0 \<le> w \<and> w \<le> MASK"
    using assms by (auto simp: grid_ok_def MASK_def)
  have "g_rows g * g_columns g \<le> 64 * 64" using b by (intro mult_mono) auto
  then have "dump_size 1 (words_json (g_words g)) \<le> 65541" using dump_words [OF w] b(5) by linarith
  moreover have "int_size (g_rows g) \<le> 10" "int_size (g_columns g) \<le> 10" using b by (auto intro!: int_size_word simp: MASK_def)
  moreover have "str_size ''schema'' = 8" "str_size ''rows'' = 6" "str_size ''columns'' = 9" "str_size ''words'' = 7" "str_size INPUT_SCHEMA = 22"
    by code_simp+
  ultimately have "encoded_size (grid_json g) \<le> 131072" by (simp add: encoded_size_def grid_json_def)
  then have size: "\<not> int (encoded_size (grid_json g)) > 128 * 1024" by linarith
  have "mapM grid_word (map JInt (g_words g)) = Inr (map jint (map JInt (g_words g)))"
    using w by (intro mapM_eq_map) (auto simp: grid_word_def)
  then have "mapM grid_word (map JInt (g_words g)) = Inr (g_words g)" by (simp add: comp_def)
  then show ?thesis using size b
    unfolding read_input_def
    by (simp add: grid_json_def want_dict_def want_list_def words_json_def dimension_def MAX_DIMENSION_def INPUT_SCHEMA_def insert_commute)
qed

section \<open>Sessions with other words\<close>

text \<open>Two states of the DAG planner that differ in the literal operands of their jobs only.\<close>

definition same_plan :: "planner \<Rightarrow> planner \<Rightarrow> bool" where
  "same_plan st st2 \<longleftrightarrow> pl_names st2 = pl_names st \<and> pl_sources st2 = pl_sources st \<and> pl_offsets st2 = pl_offsets st \<and> pl_lengths st2 = pl_lengths st \<and>
     pl_counts st2 = pl_counts st \<and> pl_chunks st2 = pl_chunks st \<and> pl_last st2 = pl_last st \<and> length (pl_jobs st2) = length (pl_jobs st)"

lemma plan_operand_same: "same_plan st st2 \<Longrightarrow> plan_operand ranged st2 i = plan_operand ranged st i"
proof
  fix p
  assume "same_plan st st2"
  then have "pl_names st2 = pl_names st" "pl_counts st2 = pl_counts st" by (auto simp: same_plan_def)
  then show "plan_operand ranged st2 i p = plan_operand ranged st i p" unfolding plan_operand_def by (simp only:)
qed

lemma plan_job_same:
  assumes "plan_job ranged st (job_dict name region ins) = Inr st'" "same_plan st st2"
  shows "\<exists>st2'. plan_job ranged st2 (job_dict name region ins) = Inr st2' \<and> same_plan st' st2'"
proof -
  have len: "length (pl_jobs st2) = length (pl_jobs st)" "pl_names st2 = pl_names st" using assms(2) by (auto simp: same_plan_def)
  show ?thesis
    using assms unfolding plan_job_def Let_def job_dict_def plan_operand_same [OF assms(2)] len
    by (auto simp: res_simps same_plan_def)
qed

lemma plan_job_other_words:
  assumes st: "plan_job False empty_planner (job_dict name region [words_json a, words_json b]) = Inr st"
    and ref: "reference region (JList [words_json a', words_json b']) = Inr ws"
  shows "\<exists>st2. plan_job False empty_planner (job_dict name region [words_json a', words_json b']) = Inr st2 \<and> same_plan st st2"
  using st ref unfolding plan_job_def Let_def job_dict_def
  by (auto simp: res_simps same_plan_def plan_operand_words want_list_def)

lemma plan_slots_same: "same_plan st st2 \<Longrightarrow> plan_slots st2 lasts = plan_slots st lasts"
proof (intro ext)
  fix s i
  assume "same_plan st st2"
  then have "pl_sources st2 = pl_sources st" "pl_offsets st2 = pl_offsets st" "pl_lengths st2 = pl_lengths st" "pl_chunks st2 = pl_chunks st"
    by (auto simp: same_plan_def)
  then show "plan_slots st2 lasts s i = plan_slots st lasts s i" unfolding plan_slots_def by (simp only:)
qed

lemma compile_plan_same:
  assumes plan: "compile_plan (dag_dict jobs) = Inr plan" and st: "foldM (plan_job False) empty_planner jobs = Inr st"
    and st2: "foldM (plan_job False) empty_planner jobs2 = Inr st2" "same_plan st st2" "length jobs2 = length jobs"
  shows "\<exists>plan2. compile_plan (dag_dict jobs2) = Inr plan2"
proof -
  let ?lasts = "\<lambda>output. (pl_last st)[output := length (pl_chunks st)]"
  have f: "compile_plan (dag_dict js) = rbind (reject (length js < 1 \<or> 8 < length js) (ValueError ''DAG requires1..8 jobs'')) (\<lambda>_.
      rbind (foldM (plan_job False) empty_planner js) (\<lambda>st. rbind (want (map_of (pl_names st) ''result'') ''named output required'') (\<lambda>output.
      (let lasts = (pl_last st)[output := length (pl_chunks st)]
       in rbind (foldM (plan_slots st lasts) (replicate 8 None, []) [0..<length (pl_jobs st)]) (\<lambda>s.
         Inr \<lparr>dp_jobs = pl_jobs st, dp_sources = pl_sources st, dp_offsets = pl_offsets st, dp_lengths = pl_lengths st,
              dp_chunks = pl_chunks st, dp_last = lasts, dp_slots = snd s, dp_output = output, dp_output_name = ''result''\<rparr>)))))" for js
    unfolding compile_plan_def dag_dict_def by (simp add: want_dict_def want_list_def want_str_def insert_commute)
  obtain out s where o: "map_of (pl_names st) ''result'' = Some out" "\<not> (length jobs < 1 \<or> 8 < length jobs)"
    "foldM (plan_slots st (?lasts out)) (replicate 8 None, []) [0..<length (pl_jobs st)] = Inr s"
    using plan st unfolding f by (auto simp: res_simps Let_def)
  have "pl_names st2 = pl_names st" "pl_last st2 = pl_last st" "pl_chunks st2 = pl_chunks st" "length (pl_jobs st2) = length (pl_jobs st)"
    using st2(2) by (auto simp: same_plan_def)
  then show ?thesis unfolding f using o st2 plan_slots_same [OF st2(2)] by (simp add: want_def Let_def)
qed

lemma tile_buffer_total:
  assumes gs: "gs_ok gs" and len: "length G = length (gs_grids gs)" and G: "\<forall>g \<in> set G. grid_ok g"
    and a: "tile_buffer gs rect i = Inr a"
  shows "\<exists>a'. tile_buffer (gs\<lparr>gs_grids := G\<rparr>) rect i = Inr a' \<and> length a' = length a"
proof (cases rect)
  case None
  then show ?thesis using a by (simp add: tile_buffer_def)
next
  case (Some q)
  obtain rmin cmin h w where q: "q = (rmin, cmin, h, w)" by (metis surj_pair)
  let ?cells = "grid_list (nat h) (nat w) Pair :: (nat \<times> nat) list"
  obtain g where g: "\<not> h * w > 324" "py_nth (gs_grids gs) (int i) = Inr g"
    "mapM (\<lambda>(r, c). sample g (rmin + int r) (cmin + int c) (gs_boundary gs)) ?cells = Inr a"
    using a unfolding tile_buffer_def Some q option.case prod.case by (simp only: res_simps reject_eq) blast
  have i: "i < length (gs_grids gs)" using g(2) by (simp add: py_nth_def split: if_splits)
  then have ok: "grid_ok (G ! i)" using G len by simp
  have "\<exists>ws. mapM (\<lambda>(r, c). sample (G ! i) (rmin + int r) (cmin + int c) (gs_boundary gs)) ?cells = Inr ws \<and> length ws = length ?cells"
    using sample_word [OF ok] by (intro mapM_total) (auto split: prod.splits, metis)
  then obtain ws where "mapM (\<lambda>(r, c). sample (G ! i) (rmin + int r) (cmin + int c) (gs_boundary gs)) ?cells = Inr ws" "length ws = length ?cells" by blast
  moreover from this have "tile_buffer (gs\<lparr>gs_grids := G\<rparr>) rect i = Inr ws"
    using g(1) i len by (simp add: tile_buffer_def Some q)
  moreover have "length a = length ?cells" using mapM_Inr_length [OF g(3)] by simp
  ultimately show ?thesis by metis
qed


lemma compile_tile_other_words:
  assumes gs: "gs_ok gs" and gs': "gs_ok (gs\<lparr>gs_grids := G\<rparr>)" and len: "length G = length (gs_grids gs)"
    and low: "lowered_nodes (gs_schema gs) (gs_nodes gs) (gs_result gs) = Inr nodes"
    and inside: "0 \<le> row" "row < fst (gs_shape gs)" "0 \<le> col" "col < snd (gs_shape gs)"
    and tile: "compile_tile gs nodes post k (row, col) = Inr t"
  shows "\<exists>t'. compile_tile (gs\<lparr>gs_grids := G\<rparr>) nodes post k (row, col) = Inr t'"
proof -
  let ?gs = "gs\<lparr>gs_grids := G\<rparr>"
  define h w where "h = min (fst (gs_tile gs)) (fst (gs_shape gs) - row)" and "w = min (snd (gs_tile gs)) (snd (gs_shape gs) - col)"
  let ?rect = "rectangle (gs_views gs) row col h w (gs_extent gs)"
  let ?region = "\<lambda>a b views. region_dict h w (gs_extent gs) (fold_json (gs_fold gs)) [int (length a), int (length b)] views nodes (gs_result gs)"
  let ?jobs = "\<lambda>region a b. (case post of
         None \<Rightarrow> Inr [job_dict ''result'' region [words_json a, words_json b]]
       | Some (pnodes, presult) \<Rightarrow>
           rbind (recast ''malformed post map'' (compile_region (post_region h w pnodes presult))) (\<lambda>_.
           Inr [job_dict ''reduce'' region [words_json a, words_json b],
                job_dict ''result'' (post_region h w pnodes presult) [JDict [(''from'', JStr ''reduce'')], JList []]]))"
  obtain a b views c jobs plan where
    bufs: "tile_buffer gs (?rect 0) 0 = Inr a" "tile_buffer gs (?rect 1) 1 = Inr b"
      "mapM (tile_view ?rect row col h w (gs_extent gs)) (gs_views gs) = Inr views"
    and c: "compile_region (?region a b views) = Inr c"
    and jobs: "?jobs (?region a b views) a b = Inr jobs" and plan: "compile_plan (dag_dict jobs) = Inr plan"
    using tile unfolding compile_tile_def prod.case Let_def h_def [symmetric] w_def [symmetric]
    by (simp only: res_simps compile_region_recast) blast
  have G: "\<forall>g \<in> set G. grid_ok g" using gs' by (simp add: gs_ok_def)
  obtain a' b' where ab: "tile_buffer ?gs (?rect 0) 0 = Inr a'" "length a' = length a" "tile_buffer ?gs (?rect 1) 1 = Inr b'" "length b' = length b"
    using tile_buffer_total [OF gs len G bufs(1)] tile_buffer_total [OF gs len G bufs(2)] by blast
  let ?R = "?region a b views"
  have R: "?region a' b' views = ?R" using ab by simp
  have t: "tile_regions ?gs row col h w views a' b'" using bufs ab by (simp add: tile_regions_def)
  have low': "lowered_nodes (gs_schema ?gs) (gs_nodes ?gs) (gs_result ?gs) = Inr nodes" using low by simp
  obtain ws where ref: "reference ?R (JList [words_json a', words_json b']) = Inr ws"
    using tile_reference [OF gs' t low'] c R by fastforce
  have "\<exists>jobs2 plan2. ?jobs ?R a' b' = Inr jobs2 \<and> compile_plan (dag_dict jobs2) = Inr plan2"
  proof (cases post)
    case None
    then have j: "jobs = [job_dict ''result'' ?R [words_json a, words_json b]]" using jobs by simp
    obtain st where st: "foldM (plan_job False) empty_planner jobs = Inr st" using compile_plan_dag_dict [OF plan] by blast
    then have "plan_job False empty_planner (job_dict ''result'' ?R [words_json a, words_json b]) = Inr st" by (simp add: j res_simps)
    from plan_job_other_words [OF this ref] obtain st2 where
      "foldM (plan_job False) empty_planner [job_dict ''result'' ?R [words_json a', words_json b']] = Inr st2" "same_plan st st2" by auto
    from compile_plan_same [OF plan st this] show ?thesis using None by (simp add: j)
  next
    case (Some q)
    obtain qn qr where q: "q = (qn, qr)" by force
    let ?post = "post_region h w qn qr" and ?link = "[JDict [(''from'', JStr ''reduce'')], JList []]"
    have j: "jobs = [job_dict ''reduce'' ?R [words_json a, words_json b], job_dict ''result'' ?post ?link]"
      and j2: "?jobs ?R a' b' = Inr [job_dict ''reduce'' ?R [words_json a', words_json b'], job_dict ''result'' ?post ?link]"
      using jobs Some q by (auto simp: res_simps)
    obtain st where st: "foldM (plan_job False) empty_planner jobs = Inr st" using compile_plan_dag_dict [OF plan] by blast
    then obtain st1 where st1: "plan_job False empty_planner (job_dict ''reduce'' ?R [words_json a, words_json b]) = Inr st1"
      "plan_job False st1 (job_dict ''result'' ?post ?link) = Inr st" by (auto simp: j res_simps)
    obtain s1 where s1: "plan_job False empty_planner (job_dict ''reduce'' ?R [words_json a', words_json b']) = Inr s1" "same_plan st1 s1"
      using plan_job_other_words [OF st1(1) ref] by blast
    obtain s2 where s2: "plan_job False s1 (job_dict ''result'' ?post ?link) = Inr s2" "same_plan st s2" using plan_job_same [OF st1(2) s1(2)] by blast
    have "foldM (plan_job False) empty_planner [job_dict ''reduce'' ?R [words_json a', words_json b'], job_dict ''result'' ?post ?link] = Inr s2"
      using s1(1) s2(1) by simp
    from compile_plan_same [OF plan st this s2(2)] show ?thesis unfolding j2 by (simp add: j)
  qed
  then obtain jobs2 plan2 where fin: "?jobs ?R a' b' = Inr jobs2" "compile_plan (dag_dict jobs2) = Inr plan2" by blast
  have c2: "recast ''malformed MF01 map program'' (compile_region ?R) = Inr c" using c compile_region_recast by blast
  have keep: "gs_shape ?gs = gs_shape gs" "gs_tile ?gs = gs_tile gs" "gs_views ?gs = gs_views gs" "gs_extent ?gs = gs_extent gs"
    "gs_fold ?gs = gs_fold gs" "gs_result ?gs = gs_result gs" by simp_all
  have "compile_tile ?gs nodes post k (row, col) = Inr (''tile-'' @ zfill 2 k, dag_dict jobs2,
      \<lparr>t_name = ''tile-'' @ zfill 2 k, t_row = row, t_column = col, t_rows = h, t_columns = w\<rparr>)"
    unfolding compile_tile_def prod.case Let_def keep h_def [symmetric] w_def [symmetric] ab(1,3) bufs(3) rbind_simps R c2 fin by (rule refl)
  then show ?thesis by blast
qed

lemma compile_other_words:
  assumes cg: "compile j = Inr cg" and gs: "source j = Inr gs" and gs': "source j' = Inr (gs\<lparr>gs_grids := G\<rparr>)"
    and len: "length G = length (gs_grids gs)"
  shows "\<exists>cg'. compile j' = Inr cg' \<and> cg_rows cg' = fst (gs_shape gs) \<and> cg_columns cg' = snd (gs_shape gs) \<and> length (cg_items cg') = length (cg_items cg)"
proof -
  obtain gs1 nodes post tiles where p: "source j = Inr gs1" "gs_ok gs1" "lowered_nodes (gs_schema gs1) (gs_nodes gs1) (gs_result gs1) = Inr nodes"
    "lowered_post gs1 = Inr post" "\<And>k. k < length (tile_origins gs1) \<Longrightarrow> compile_tile gs1 nodes post k (tile_origins gs1 ! k) = Inr (tiles ! k)"
    "length tiles = length (tile_origins gs1)"
    "cg = \<lparr>cg_items = map (\<lambda>(name, dag, _). (name, dag)) tiles, cg_layout = map (\<lambda>(_, _, t). t) tiles,
          cg_rows = fst (gs_shape gs1), cg_columns = snd (gs_shape gs1)\<rparr>"
    using compile_Inr [OF cg] by metis
  have e: "gs1 = gs" using p(1) gs by simp
  have tile: "\<exists>t'. compile_tile (gs\<lparr>gs_grids := G\<rparr>) nodes post k (tile_origins gs ! k) = Inr t'" if k: "k < length (tile_origins gs)" for k
  proof -
    obtain row col where rc: "tile_origins gs ! k = (row, col)" by force
    then have "(row, col) \<in> set (tile_origins gs)" using k nth_mem by fastforce
    then have "0 \<le> row" "row < fst (gs_shape gs)" "0 \<le> col" "col < snd (gs_shape gs)"
      using tile_origins_iff [of gs row col] p(2) e by auto
    then show ?thesis
      using compile_tile_other_words [OF p(2)[unfolded e] source_Inr [OF gs'] len p(3)[unfolded e]] p(5) [of k] k e rc by simp
  qed
  have or: "tile_origins (gs\<lparr>gs_grids := G\<rparr>) = tile_origins gs" by (simp add: tile_origins_def)
  have "\<exists>ts. mapM (\<lambda>(k, p). compile_tile (gs\<lparr>gs_grids := G\<rparr>) nodes post k p) (enumerate 0 (tile_origins gs)) = Inr ts \<and>
      length ts = length (enumerate 0 (tile_origins gs))"
  proof (rule mapM_total)
    fix x assume "x \<in> set (enumerate 0 (tile_origins gs))"
    then have "fst x < length (tile_origins gs)" "snd x = tile_origins gs ! fst x" by (auto simp: in_set_enumerate_eq)
    then show "\<exists>y. (\<lambda>(k, p). compile_tile (gs\<lparr>gs_grids := G\<rparr>) nodes post k p) x = Inr y"
      using tile [of "fst x"] by (simp add: case_prod_beta)
  qed
  then obtain ts where ts: "mapM (\<lambda>(k, p). compile_tile (gs\<lparr>gs_grids := G\<rparr>) nodes post k p) (enumerate 0 (tile_origins gs)) = Inr ts"
    "length ts = length (tile_origins gs)" by auto
  have "gs_schema (gs\<lparr>gs_grids := G\<rparr>) = gs_schema gs" "gs_post (gs\<lparr>gs_grids := G\<rparr>) = gs_post gs" by simp_all
  then have "lowered_post (gs\<lparr>gs_grids := G\<rparr>) = Inr post" using p(4) unfolding e lowered_post_def by (simp only:)
  then show ?thesis using gs' p(3,6,7) e or ts by (auto simp: compile_def)
qed

section \<open>One field replaced\<close>

text \<open>\<open>d[k] = x\<close> and \<open>{**d, k: x}\<close> for a key that is present: the order of the keys stays.\<close>

definition with_field :: "(string \<times> json) list \<Rightarrow> string \<Rightarrow> json \<Rightarrow> (string \<times> json) list" where
  "with_field d k x = map (\<lambda>(k', v). (k', if k' = k then x else v)) d"

lemma keys_with_field: "keys (with_field d k x) = keys d"
  by (simp add: with_field_def comp_def case_prod_beta)

lemma map_of_with_field: "map_of (with_field d k x) k' = (if k' = k then map_option (\<lambda>_. x) (map_of d k) else map_of d k')"
  by (induction d) (auto simp: with_field_def)

lemma map_of_with_field_other [simp]: "k' \<noteq> k \<Longrightarrow> map_of (with_field d k x) k' = map_of d k'"
  by (simp add: map_of_with_field)

lemma map_of_with_field_same [simp]: "map_of d k = Some v \<Longrightarrow> map_of (with_field d k x) k = Some x"
  by (simp add: map_of_with_field)

lemma source_parts:
  assumes "source (JDict d) = Inr gs"
  obtains schema post items grids shape tile mode extent fo views nodes result where
    "map_of d ''schema'' = Some (JStr schema)" "\<not> schema \<notin> {GRID_V1, GRID_V2, GRID_V3, GRID_V4, GRID_V5}"
    "\<not> keys d \<noteq> source_fields (schema \<noteq> GRID_V1) (schema = GRID_V3 \<or> (schema \<in> {GRID_V4, GRID_V5} \<and> ''post'' \<in> keys d))"
    "read_post (schema = GRID_V3 \<or> (schema \<in> {GRID_V4, GRID_V5} \<and> ''post'' \<in> keys d)) (map_of d ''post'') = Inr post"
    "map_of d ''inputs'' = Some (JList items)" "\<not> (length items < 1 \<or> 2 < length items)" "mapM read_input items = Inr grids"
    "\<not> (\<not> schema \<noteq> GRID_V1 \<and> \<not> list_all (\<lambda>g. grid_dims g = grid_dims (grids ! 0)) grids)"
    "int_pair (if schema \<noteq> GRID_V1 then map_of d ''shape'' else Some (JList [JInt (g_rows (grids ! 0)), JInt (g_columns (grids ! 0))]))
       ''two output dimensions required'' 1 64 = Inr shape"
    "int_pair (map_of d ''tile'') ''two tile dimensions required'' 1 16 = Inr tile" "\<not> tiles_needed shape tile > 16"
    "boundary (map_of d ''boundary'') = Inr mode"
    "read_kernel (schema \<noteq> GRID_V1) (length grids) (map_of d ''kernel'') = Inr (extent, fo, views, nodes, result)"
    "gs = \<lparr>gs_schema = schema, gs_grids = grids, gs_shape = shape, gs_tile = tile, gs_boundary = mode,
              gs_extent = extent, gs_fold = fo, gs_views = views, gs_nodes = nodes, gs_result = result, gs_post = post\<rparr>"
proof -
  have "want_dict (Some (JDict d)) ''invalid MF01 grid source'' = Inr d" by (simp add: want_dict_def)
  with assms show thesis
    unfolding source_def Let_def
    apply (simp only: rbind_simps)
    apply (simp only: res_simps reject_eq prod.case split_paired_Ex sum.inject)
    apply (elim exE conjE)
    apply (rule that)
    apply (assumption | rule refl | blast)+
    done
qed

text \<open>A source with other input planes of the same dimensions.\<close>

lemma source_other_inputs:
  assumes src: "source (JDict d) = Inr gs" and ins: "map_of d ''inputs'' = Some (JList items)" and len: "length items' = length items"
    and G: "mapM read_input items' = Inr G" and dims: "map grid_dims G = map grid_dims (gs_grids gs)"
  shows "source (JDict (with_field d ''inputs'' (JList items'))) = Inr (gs\<lparr>gs_grids := G\<rparr>)"
proof -
  obtain schema post items0 grids shape tile mode extent fo views nodes result where p:
    "map_of d ''schema'' = Some (JStr schema)" "\<not> schema \<notin> {GRID_V1, GRID_V2, GRID_V3, GRID_V4, GRID_V5}"
    "\<not> keys d \<noteq> source_fields (schema \<noteq> GRID_V1) (schema = GRID_V3 \<or> (schema \<in> {GRID_V4, GRID_V5} \<and> ''post'' \<in> keys d))"
    "read_post (schema = GRID_V3 \<or> (schema \<in> {GRID_V4, GRID_V5} \<and> ''post'' \<in> keys d)) (map_of d ''post'') = Inr post"
    "\<not> (length items0 < 1 \<or> 2 < length items0)" "mapM read_input items0 = Inr grids"
    "\<not> (\<not> schema \<noteq> GRID_V1 \<and> \<not> list_all (\<lambda>g. grid_dims g = grid_dims (grids ! 0)) grids)"
    "int_pair (if schema \<noteq> GRID_V1 then map_of d ''shape'' else Some (JList [JInt (g_rows (grids ! 0)), JInt (g_columns (grids ! 0))]))
       ''two output dimensions required'' 1 64 = Inr shape"
    "int_pair (map_of d ''tile'') ''two tile dimensions required'' 1 16 = Inr tile" "\<not> tiles_needed shape tile > 16"
    "boundary (map_of d ''boundary'') = Inr mode"
    "read_kernel (schema \<noteq> GRID_V1) (length grids) (map_of d ''kernel'') = Inr (extent, fo, views, nodes, result)"
    "gs = \<lparr>gs_schema = schema, gs_grids = grids, gs_shape = shape, gs_tile = tile, gs_boundary = mode,
              gs_extent = extent, gs_fold = fo, gs_views = views, gs_nodes = nodes, gs_result = result, gs_post = post\<rparr>"
    and items0: "map_of d ''inputs'' = Some (JList items0)"
    using source_parts [OF src] by metis
  have e: "items0 = items" using ins items0 by simp
  have dims': "map grid_dims G = map grid_dims grids" using dims p(13) by simp
  then have lenG: "length G = length grids" by (metis length_map)
  have nth: "grid_dims (G ! i) = grid_dims (grids ! i)" if "i < length grids" for i using dims' that lenG by (metis nth_map)
  have ne: "0 < length grids" using p(5) mapM_Inr_length [OF p(6)] by simp
  have zero: "g_rows (G ! 0) = g_rows (grids ! 0)" "g_columns (G ! 0) = g_columns (grids ! 0)" using nth [OF ne] by (auto simp: grid_dims_def)
  have all: "list_all (\<lambda>g. grid_dims g = grid_dims (G ! 0)) G \<longleftrightarrow> list_all (\<lambda>g. grid_dims g = grid_dims (grids ! 0)) grids"
    unfolding list_all_length lenG using nth ne by auto
  have f: "map_of (with_field d ''inputs'' (JList items')) ''inputs'' = Some (JList items')" using ins by simp
  have o': "map_of (with_field d ''inputs'' (JList items')) ''schema'' = map_of d ''schema''" "map_of (with_field d ''inputs'' (JList items')) ''post'' = map_of d ''post''" "map_of (with_field d ''inputs'' (JList items')) ''shape'' = map_of d ''shape''" "map_of (with_field d ''inputs'' (JList items')) ''tile'' = map_of d ''tile''" "map_of (with_field d ''inputs'' (JList items')) ''boundary'' = map_of d ''boundary''" "map_of (with_field d ''inputs'' (JList items')) ''kernel'' = map_of d ''kernel''"
    by simp_all
  have ks: "keys (with_field d ''inputs'' (JList items')) = keys d" by (rule keys_with_field)
  have c: "length items' < 1 \<or> 2 < length items' \<longleftrightarrow> False" using p(5) e len by simp
  have r: "\<And>b e. \<not> b \<Longrightarrow> reject b e = Inr ()" by (simp add: reject_def)
  have w: "want_dict (Some (JDict x)) msg = Inr x" "want_str (Some (JStr s)) msg = Inr s" "want_list (Some (JList l)) msg = Inr l" for x msg s l
    by (simp_all add: want_dict_def want_str_def want_list_def)
  show ?thesis
    unfolding source_def Let_def w rbind_simps ks f o' p(1) w
      r [OF p(2)] r [OF p(3)] p(4) c G lenG zero all r [OF p(7)] p(8,9) r [OF p(10)] p(11,12) prod.case
    by (simp add: p(13) reject_def)
qed

lemma with_field_twice: "with_field (with_field d k x) k y = with_field d k y"
  by (simp add: with_field_def comp_def case_prod_beta)

section \<open>Tiles do not matter\<close>

lemma source_tile:
  assumes "source (JDict d) = Inr gs" "source (JDict (with_field d ''tile'' x)) = Inr gs'"
  shows "gs' = gs\<lparr>gs_tile := gs_tile gs'\<rparr>"
proof -
  have o': "map_of (with_field d ''tile'' x) k = map_of d k" if "k \<in> {''schema'', ''post'', ''inputs'', ''shape'', ''boundary'', ''kernel''}" for k
    using that by auto
  have k: "keys (with_field d ''tile'' x) = keys d" by (rule keys_with_field)
  show ?thesis
    using assms(1)
  proof (rule source_parts, goal_cases)
    case p: (1 schema post items grids shape tile mode extent fo views nodes result)
    show ?case
      using assms(2)
    proof (rule source_parts, goal_cases)
      case q: (1 schema' post' items' grids' shape' tile' mode' extent' fo' views' nodes' result')
      have s: "schema' = schema" "items' = items" using p(1,5) q(1,5) o' by simp_all
      then have "grids' = grids" "post' = post" using p(4,7) q(4,7) unfolding k by (simp_all add: o')
      moreover from this have "shape' = shape" "mode' = mode" "(extent', fo', views', nodes', result') = (extent, fo, views, nodes, result)"
        using p(9,12,13) q(9,12,13) s o' by (simp_all split: if_splits)
      ultimately show ?case using p(14) q(14) s by simp
    qed
  qed
qed

lemma grid_cell_tile: "grid_cell (gs\<lparr>gs_tile := t\<rparr>) = grid_cell gs"
proof -
  have k: "gs_views (gs\<lparr>gs_tile := t\<rparr>) = gs_views gs" "gs_grids (gs\<lparr>gs_tile := t\<rparr>) = gs_grids gs" "gs_boundary (gs\<lparr>gs_tile := t\<rparr>) = gs_boundary gs"
    "gs_fold (gs\<lparr>gs_tile := t\<rparr>) = gs_fold gs" "gs_extent (gs\<lparr>gs_tile := t\<rparr>) = gs_extent gs" by simp_all
  have "grid_load (gs\<lparr>gs_tile := t\<rparr>) = grid_load gs" unfolding grid_load_def k ..
  then show ?thesis unfolding grid_cell_def k by (simp only:)
qed

lemma grid_reference_tile:
  assumes "compile (JDict d) = Inr cg" "compile (JDict (with_field d ''tile'' x)) = Inr cg'"
  shows "grid_reference (JDict (with_field d ''tile'' x)) = grid_reference (JDict d)" "cg_rows cg' = cg_rows cg" "cg_columns cg' = cg_columns cg"
proof -
  obtain gs gs' where s: "source (JDict d) = Inr gs" "source (JDict (with_field d ''tile'' x)) = Inr gs'"
    and c: "cg_rows cg = fst (gs_shape gs)" "cg_columns cg = snd (gs_shape gs)" "cg_rows cg' = fst (gs_shape gs')" "cg_columns cg' = snd (gs_shape gs')"
    using assms by (auto simp: compile_def res_simps)
  obtain t where g: "gs' = gs\<lparr>gs_tile := t\<rparr>" using source_tile [OF s] by blast
  have f: "gs_nodes gs' = gs_nodes gs" "gs_result gs' = gs_result gs" "gs_post gs' = gs_post gs" "gs_shape gs' = gs_shape gs" by (simp_all add: g)
  have cell: "grid_cell gs' = grid_cell gs" unfolding g by (rule grid_cell_tile)
  show "grid_reference (JDict (with_field d ''tile'' x)) = grid_reference (JDict d)"
    unfolding grid_reference_def assms s rbind_simps f cell ..
  show "cg_rows cg' = cg_rows cg" "cg_columns cg' = cg_columns cg" using c f by simp_all
qed

section \<open>The interface of grid runs\<close>

text \<open>
  What a planner that composes grids relies on: the shape of an admitted source, its meaning
  and its execution under session faults.
\<close>

definition same_input :: "json \<Rightarrow> json \<Rightarrow> bool" where
  "same_input a b \<longleftrightarrow> a = b \<or> (\<exists>g h. a = grid_json g \<and> b = grid_json h \<and> grid_ok g \<and> grid_ok h \<and> grid_dims g = grid_dims h)"

definition plane_at :: "coord \<Rightarrow> int list \<Rightarrow> grid" where
  "plane_at shape ws = \<lparr>g_rows = fst shape, g_columns = snd shape, g_words = ws\<rparr>"

locale grid_backend =
  fixes shape_of :: "json \<Rightarrow> coord option"
    and meaning :: "json \<Rightarrow> int list res"
    and exec :: "(nat \<Rightarrow> py_error option) \<Rightarrow> json \<Rightarrow> grid_result res"
  assumes meaning_plane: "shape_of j = Some s \<Longrightarrow> \<exists>ws. meaning j = Inr ws \<and> grid_ok (plane_at s ws)"
    and exec_complete: "shape_of j = Some s \<Longrightarrow> meaning j = Inr ws \<Longrightarrow>
      exec (\<lambda>_. None) j = Inr \<lparr>gr_succeeded = True, gr_output = Some (fst s, snd s, ws)\<rparr>"
    and exec_sound: "exec raised j = Inr r \<Longrightarrow> gr_succeeded r \<Longrightarrow>
      \<exists>s ws. shape_of j = Some s \<and> meaning j = Inr ws \<and> gr_output r = Some (fst s, snd s, ws)"
    and other_planes: "shape_of (JDict d) = Some s \<Longrightarrow> map_of d ''inputs'' = Some (JList items) \<Longrightarrow> list_all2 same_input items items' \<Longrightarrow>
      shape_of (JDict (with_field d ''inputs'' (JList items'))) = Some s"
begin

lemma exec_plane:
  assumes "shape_of j = Some s"
  obtains g where "grid_ok g" "grid_dims g = s" "meaning j = Inr (g_words g)"
    "exec (\<lambda>_. None) j = Inr \<lparr>gr_succeeded = True, gr_output = Some (g_rows g, g_columns g, g_words g)\<rparr>"
    "\<And>raised r. exec raised j = Inr r \<Longrightarrow> gr_succeeded r \<Longrightarrow> gr_output r = Some (g_rows g, g_columns g, g_words g)"
proof -
  obtain ws where ws: "meaning j = Inr ws" "grid_ok (plane_at s ws)" using meaning_plane [OF assms] by blast
  moreover have "gr_output r = Some (fst s, snd s, ws)" if "exec raised j = Inr r" "gr_succeeded r" for raised r
    using exec_sound [OF that] ws(1) assms by auto
  ultimately show thesis using that [of "plane_at s ws"] exec_complete [OF assms ws(1)] by (simp add: plane_at_def grid_dims_def)
qed

end

definition admitted_shape :: "json \<Rightarrow> coord option" where
  "admitted_shape j = (case compile j of Inl _ \<Rightarrow> None | Inr cg \<Rightarrow> Some (cg_rows cg, cg_columns cg))"

lemma admitted_shape_Some: "admitted_shape j = Some s \<longleftrightarrow> (\<exists>cg. compile j = Inr cg \<and> s = (cg_rows cg, cg_columns cg))"
  by (auto simp: admitted_shape_def split: sum.splits)

lemma read_same_inputs:
  assumes "list_all2 same_input items items'" "mapM read_input items = Inr grids"
  shows "\<exists>G. mapM read_input items' = Inr G \<and> map grid_dims G = map grid_dims grids"
  using assms
proof (induction arbitrary: grids rule: list_all2_induct)
  case (Cons a as b bs)
  obtain g gs where g: "read_input a = Inr g" "mapM read_input as = Inr gs" "grids = g # gs" using Cons.prems by (auto simp: res_simps)
  obtain G where "mapM read_input bs = Inr G" "map grid_dims G = map grid_dims gs" using Cons.IH [OF g(2)] by blast
  moreover have "\<exists>h. read_input b = Inr h \<and> grid_dims h = grid_dims g"
    using Cons.hyps(1) g(1) read_grid_json unfolding same_input_def by fastforce
  ultimately show ?case using g(3) by auto
qed simp

lemma compile_same_inputs:
  assumes "compile (JDict d) = Inr cg" "map_of d ''inputs'' = Some (JList items)" "list_all2 same_input items items'"
  shows "\<exists>cg'. compile (JDict (with_field d ''inputs'' (JList items'))) = Inr cg' \<and> cg_rows cg' = cg_rows cg \<and> cg_columns cg' = cg_columns cg"
proof -
  obtain gs where gs: "source (JDict d) = Inr gs" "cg_rows cg = fst (gs_shape gs)" "cg_columns cg = snd (gs_shape gs)"
    using assms(1) by (auto simp: compile_def res_simps)
  have "mapM read_input items = Inr (gs_grids gs)"
    using gs(1) by (rule source_parts) (use assms(2) in simp)
  then obtain G where G: "mapM read_input items' = Inr G" "map grid_dims G = map grid_dims (gs_grids gs)" using read_same_inputs [OF assms(3)] by blast
  have "length G = length (gs_grids gs)" using G(2) by (metis length_map)
  then show ?thesis
    using compile_other_words [OF assms(1) gs(1) source_other_inputs [OF gs(1) assms(2) _ G]] gs list_all2_lengthD [OF assms(3)] by auto
qed

lemma admitted_run:
  assumes "compile j = Inr cg"
  obtains ws where "grid_reference j = Inr ws" "grid_ok (plane_at (cg_rows cg, cg_columns cg) ws)"
    "grid_run (\<lambda>_. None) j = Inr \<lparr>gr_succeeded = True, gr_output = Some (cg_rows cg, cg_columns cg, ws)\<rparr>"
proof -
  obtain ws where ws: "grid_reference j = Inr ws" "length ws = nat (cg_rows cg * cg_columns cg)" "\<forall>w \<in> set ws. 0 \<le> w \<and> w < 2 ^ 32"
    "grid_run (\<lambda>_. None) j = Inr \<lparr>gr_succeeded = True, gr_output = Some (cg_rows cg, cg_columns cg, ws)\<rparr>"
    using grid_run_words [OF assms] by auto
  obtain gs where "source j = Inr gs" "cg_rows cg = fst (gs_shape gs)" "cg_columns cg = snd (gs_shape gs)"
    using assms by (auto simp: compile_def res_simps)
  then have "1 \<le> cg_rows cg" "cg_rows cg \<le> 64" "1 \<le> cg_columns cg" "cg_columns cg \<le> 64" using source_Inr by (auto simp: gs_ok_def)
  then show thesis using that ws by (simp add: plane_at_def grid_ok_def)
qed

interpretation mf01: grid_backend admitted_shape grid_reference grid_run
proof
  fix j s assume "admitted_shape j = Some s"
  then obtain cg where cg: "compile j = Inr cg" "s = (cg_rows cg, cg_columns cg)" by (auto simp: admitted_shape_Some)
  show "\<exists>ws. grid_reference j = Inr ws \<and> grid_ok (plane_at s ws)" using admitted_run [OF cg(1)] cg(2) by metis
  fix ws assume "grid_reference j = Inr ws"
  then show "grid_run (\<lambda>_. None) j = Inr \<lparr>gr_succeeded = True, gr_output = Some (fst s, snd s, ws)\<rparr>"
    using admitted_run [OF cg(1)] cg(2) by (metis Inr_inject fst_conv snd_conv)
next
  fix raised j r assume "grid_run raised j = Inr r" "gr_succeeded r"
  then show "\<exists>s ws. admitted_shape j = Some s \<and> grid_reference j = Inr ws \<and> gr_output r = Some (fst s, snd s, ws)"
    unfolding grid_run_def admitted_shape_Some by (auto simp: res_simps split: if_splits)
next
  fix d s items items' assume "admitted_shape (JDict d) = Some s" "map_of d ''inputs'' = Some (JList items)" "list_all2 same_input items items'"
  then show "admitted_shape (JDict (with_field d ''inputs'' (JList items'))) = Some s"
    using compile_same_inputs unfolding admitted_shape_Some by metis
qed

end
