(* ===== verification/Stage_Order.thy ===== *)
theory Stage_Order
  imports Raveil_Prelude
begin

text \<open>
  The scheduling loop that \<open>raveil/array_program.py\<close> and \<open>raveil/mf01_flow.py\<close> share: it ends
  with an order in which producers come first, or raises exactly on a cycle. The two modules
  differ in the message of the error.
\<close>

section \<open>The loop\<close>

text \<open>\<open>ready = sorted(n for n in pending if not deps[n] & pending)\<close>, the first of which is next.\<close>

function stage_loop :: "string \<Rightarrow> (string \<Rightarrow> string set) \<Rightarrow> string list \<Rightarrow> string list res" where
  "stage_loop msg deps pending =
     (if pending = [] then Inr []
      else (case sort (filter (\<lambda>n. deps n \<inter> set pending = {}) pending) of
          [] \<Rightarrow> Inl (ValueError msg)
        | n # _ \<Rightarrow> rbind (stage_loop msg deps (remove1 n pending)) (\<lambda>order. Inr (n # order))))"
  by pat_completeness auto
termination
proof (relation "measure (\<lambda>(msg, deps, pending). length pending)", goal_cases)
  case (2 msg deps pending n rest)
  then have "n \<in> set (sort (filter (\<lambda>n. deps n \<inter> set pending = {}) pending))" by simp
  then have "n \<in> set pending" unfolding set_sort by simp
  then show ?case using length_pos_if_in_set [of n pending] by (simp add: length_remove1)
qed simp

declare stage_loop.simps [simp del]

section \<open>The order of the stages\<close>

text \<open>A set of stages each of which waits for another of the set.\<close>

definition stage_cycle :: "(string \<Rightarrow> string set) \<Rightarrow> string set \<Rightarrow> bool" where
  "stage_cycle deps P \<longleftrightarrow> (\<exists>S. S \<noteq> {} \<and> S \<subseteq> P \<and> (\<forall>n \<in> S. deps n \<inter> S \<noteq> {}))"

lemma stage_loop_cases:
  obtains "pending = []" "stage_loop msg deps pending = Inr []"
  | "pending \<noteq> []" "\<forall>n \<in> set pending. deps n \<inter> set pending \<noteq> {}" "stage_loop msg deps pending = Inl (ValueError msg)"
  | n where "n \<in> set pending" "deps n \<inter> set pending = {}"
      "stage_loop msg deps pending = rbind (stage_loop msg deps (remove1 n pending)) (\<lambda>order. Inr (n # order))"
proof -
  let ?ready = "filter (\<lambda>n. deps n \<inter> set pending = {}) pending"
  have "sort ?ready = [] \<longleftrightarrow> ?ready = []" by (simp only: set_empty [symmetric] set_sort)
  then consider "pending = []" | "pending \<noteq> []" "?ready = []" | n rest where "pending \<noteq> []" "sort ?ready = n # rest"
    by (cases "sort ?ready") auto
  then show ?thesis
  proof cases
    case 1
    then show ?thesis using that(1) by (simp add: stage_loop.simps)
  next
    case 2
    then have "stage_loop msg deps pending = Inl (ValueError msg)" by (subst stage_loop.simps) simp
    then show ?thesis using that(2) 2 by (auto simp: filter_empty_conv)
  next
    case (3 n rest)
    then have "n \<in> set (sort (filter (\<lambda>n. deps n \<inter> set pending = {}) pending))" by simp
    then have "n \<in> set pending" "deps n \<inter> set pending = {}" by simp_all
    moreover have "stage_loop msg deps pending = rbind (stage_loop msg deps (remove1 n pending)) (\<lambda>order. Inr (n # order))"
      using 3 by (subst stage_loop.simps) simp
    ultimately show ?thesis using that(3) by blast
  qed
qed

lemma stage_loop_cyclic:
  assumes "S \<noteq> {}" "S \<subseteq> set pending" "\<forall>n \<in> S. deps n \<inter> S \<noteq> {}" "distinct pending"
  shows "stage_loop msg deps pending = Inl (ValueError msg)"
  using assms(2,4)
proof (induction "length pending" arbitrary: pending rule: less_induct)
  case less
  show ?case
  proof (cases rule: stage_loop_cases [of pending msg deps])
    case (3 n)
    have "n \<notin> S" using 3(2) assms(3) less.prems(1) by blast
    then have "S \<subseteq> set (remove1 n pending)" using less.prems by auto
    moreover have "length (remove1 n pending) < length pending" using 3(1) length_pos_if_in_set [OF 3(1)] by (simp add: length_remove1)
    ultimately have "stage_loop msg deps (remove1 n pending) = Inl (ValueError msg)"
      using less by simp
    then show ?thesis using 3(3) by simp
  qed (use assms(1) less.prems in auto)
qed

lemma stage_loop_ordered:
  assumes "distinct pending" "\<not> stage_cycle deps (set pending)"
  shows "\<exists>order. stage_loop msg deps pending = Inr order \<and> distinct order \<and> set order = set pending \<and>
    (\<forall>i < length order. deps (order ! i) \<inter> set pending \<subseteq> set (take i order))"
  using assms
proof (induction "length pending" arbitrary: pending rule: less_induct)
  case less
  show ?case
  proof (cases rule: stage_loop_cases [of pending msg deps])
    case 2
    then have "stage_cycle deps (set pending)" by (auto simp: stage_cycle_def)
    then show ?thesis using less.prems by simp
  next
    case (3 n)
    have s: "set (remove1 n pending) = set pending - {n}" using less.prems(1) by simp
    have "\<not> stage_cycle deps (set (remove1 n pending))" using less.prems(2) unfolding s stage_cycle_def by blast
    moreover have "length (remove1 n pending) < length pending" using length_pos_if_in_set [OF 3(1)] 3(1) by (simp add: length_remove1)
    ultimately obtain order where order: "stage_loop msg deps (remove1 n pending) = Inr order" "distinct order" "set order = set pending - {n}"
      "\<forall>i < length order. deps (order ! i) \<inter> (set pending - {n}) \<subseteq> set (take i order)"
      using less.hyps [of "remove1 n pending"] less.prems(1) s by auto
    have "deps ((n # order) ! i) \<inter> set pending \<subseteq> set (take i (n # order))" if "i < length (n # order)" for i
      using that 3(2) order(4) by (cases i) auto
    then show ?thesis using order 3 by (intro exI [of _ "n # order"]) auto
  qed simp
qed

text \<open>
  C40. The scheduling loop of \<open>structure\<close> always ends. It raises its error exactly when
  some stages wait for each other; otherwise it returns every pending stage once, in an order
  in which each stage comes after all the pending stages it reads.
\<close>

theorem stage_order_terminates:
  assumes "distinct pending"
  shows "if stage_cycle deps (set pending) then stage_loop msg deps pending = Inl (ValueError msg)
    else \<exists>order. stage_loop msg deps pending = Inr order \<and> distinct order \<and> set order = set pending \<and>
      (\<forall>i < length order. deps (order ! i) \<inter> set pending \<subseteq> set (take i order))"
  using stage_loop_cyclic [OF _ _ _ assms] stage_loop_ordered [OF assms] unfolding stage_cycle_def by (metis (no_types, lifting))

theorem stage_order_terminates_witness:
  "stage_loop ''cycle'' (\<lambda>n. if n = ''a'' then {''b''} else if n = ''b'' then {''c''} else {}) [''a'', ''b'', ''c''] = Inr [''c'', ''b'', ''a''] \<and>
   stage_loop ''cycle'' (\<lambda>n. if n = ''a'' then {''b''} else if n = ''b'' then {''a''} else {}) [''a'', ''b'', ''c''] = Inl (ValueError ''cycle'')"
proof -
  let ?d = "\<lambda>n. if n = ''a'' then {''b''} else if n = ''b'' then {''a''} else {}"
  have "stage_cycle ?d (set [''a'', ''b'', ''c''])" unfolding stage_cycle_def by (intro exI [of _ "{''a'', ''b''}"]) auto
  then have "stage_loop ''cycle'' ?d [''a'', ''b'', ''c''] = Inl (ValueError ''cycle'')"
    using stage_order_terminates [of "[''a'', ''b'', ''c'']" ?d "''cycle''"] by simp
  moreover have "stage_loop ''cycle'' (\<lambda>n. if n = ''a'' then {''b''} else if n = ''b'' then {''c''} else {}) [''a'', ''b'', ''c''] = Inr [''c'', ''b'', ''a'']"
    by code_simp
  ultimately show ?thesis by blast
qed

end
