(* ===== verification/Array_Program.thy ===== *)
theory Array_Program
  imports Grid_Words Stage_Order Command_Program
begin

text \<open>
  \<open>raveil/array_program.py\<close> and the pass loop of \<open>raveil/project_array.py\<close>: admission of an array
  program (stages with inputs, views, a kernel and an optional post map), the order of its
  stages, the plan of the first schema (one pass per source node and fold step, with budgets,
  lifetimes of planes and the admission of every bound pass by the grid compiler), the run of
  the passes and the whole-source interpreter. A program of the second schema is planned by
  \<open>raveil/array_fusion.py\<close>, which is not modelled: \<open>compile_v1\<close> is the code after that dispatch.
\<close>

section \<open>Admission\<close>

definition ARRAY_SCHEMA :: string where "ARRAY_SCHEMA = ''raveil.array-program/v1''"
definition ARRAY_SCHEMA_V2 :: string where "ARRAY_SCHEMA_V2 = ''raveil.array-program/v2''"
definition ARRAY_MAX_NODES :: int where "ARRAY_MAX_NODES = 128"
definition MAX_PASSES :: int where "MAX_PASSES = 128"
definition MAX_SESSIONS :: int where "MAX_SESSIONS = 128"
definition MAX_WORK :: int where "MAX_WORK = 32768"
definition MAX_PLANES :: int where "MAX_PLANES = 65536"

text \<open>\<open>OPS\<close> and \<open>load\<close>\<close>

definition array_op :: "string \<Rightarrow> mf_op option" where
  "array_op = map_of [(''load'', OpLoad), (''add'', OpAdd), (''mul'', OpMul), (''max'', OpMax), (''max_i32'', OpMaxI32), (''relu_i32'', OpReluI32),
     (''add_imm'', OpAddImm), (''ge_imm'', OpGeImm)]"

text \<open>One node after the names \<open>seen\<close>.\<close>

definition array_args :: "string set \<Rightarrow> nat \<Rightarrow> json option \<Rightarrow> string list res" where
  "array_args seen arity_of j =
     rbind (want_list j ''array nodes require dependency-ordered SSA'') (\<lambda>args.
     rbind (reject (length args \<noteq> arity_of) (ValueError ''array nodes require dependency-ordered SSA'')) (\<lambda>_.
     mapM (\<lambda>a. rbind (want_str (Some a) ''array nodes require dependency-ordered SSA'') (\<lambda>s.
        rbind (reject (s \<notin> seen) (ValueError ''array nodes require dependency-ordered SSA'')) (\<lambda>_. Inr s))) args))"

definition array_node :: "string set \<Rightarrow> string set \<Rightarrow> json \<Rightarrow> node res" where
  "array_node views seen j =
     rbind (want_dict (Some j) ''invalid array node'') (\<lambda>d.
     rbind (want_str (map_of d ''op'') ''invalid array node'') (\<lambda>op.
     rbind (want (array_op op) ''unsupported array operation'') (\<lambda>o'.
     rbind (reject (keys d \<noteq> {''id'', ''op''} \<union> (if o' = OpLoad then {''view''} else {''args''}) \<union> (if has_imm o' then {''imm''} else {}))
              (ValueError ''invalid array node fields'')) (\<lambda>_.
     rbind (want_str (map_of d ''id'') ''invalid or duplicate array node id'') (\<lambda>name.
     rbind (reject (name = [] \<or> length name > 128 \<or> name \<in> seen) (ValueError ''invalid or duplicate array node id'')) (\<lambda>_.
     rbind (if o' = OpLoad then rbind (want_str (map_of d ''view'') ''unknown array view'') (\<lambda>v. rbind (reject (v \<notin> views) (ValueError ''unknown array view'')) (\<lambda>_. Inr (v, [])))
            else rbind (array_args seen (arity o') (map_of d ''args'')) (\<lambda>args. Inr ([], args))) (\<lambda>(view, args).
     rbind (if has_imm o' then integer_in (map_of d ''imm'') 0 (2 ^ 22 - 1) else Inr 0) (\<lambda>imm.
     Inr \<lparr>nid = name, nop = o', nargs = args, nview = view, nimm = imm\<rparr>))))))))"

definition add_array_node :: "string set \<Rightarrow> node list \<Rightarrow> json \<Rightarrow> node list res" where
  "add_array_node views ns j = rbind (array_node views (set (map nid ns)) j) (\<lambda>n. Inr (ns @ [n]))"

definition array_nodes :: "string set \<Rightarrow> json option \<Rightarrow> json option \<Rightarrow> (node list \<times> string) res" where
  "array_nodes views nodes result =
     rbind (want_list nodes ''array map requires 1..128 nodes'') (\<lambda>js.
     rbind (reject (\<not> (1 \<le> length js \<and> int (length js) \<le> ARRAY_MAX_NODES)) (ValueError ''array map requires 1..128 nodes'')) (\<lambda>_.
     rbind (foldM (add_array_node views) [] js) (\<lambda>ns.
     rbind (want_str result ''unknown array result'') (\<lambda>r.
     rbind (reject (r \<notin> set (map nid ns)) (ValueError ''unknown array result'')) (\<lambda>_. Inr (ns, r))))))"

record array_stage =
  as_name :: string
  as_inputs :: "(string + grid) list"
  as_shape :: coord
  as_boundary :: boundary_mode
  as_extent :: int
  as_fold :: fold_op
  as_views :: "(string \<times> gview) list"
  as_nodes :: "node list"
  as_result :: string
  as_post :: "(node list \<times> string) option"

text \<open>An input is a link to a producer or a literal plane.\<close>

definition array_input :: "json \<Rightarrow> (string + grid) res" where
  "array_input j = (case j of
     JDict d \<Rightarrow> if ''from'' \<in> keys d
       then rbind (reject (keys d \<noteq> {''from''}) (ValueError ''invalid array producer link'')) (\<lambda>_.
            rbind (want_str (map_of d ''from'') ''array producer must be text'') (\<lambda>_.
            rbind (project_name (map_of d ''from'')) (\<lambda>s. Inr (Inl s))))
       else rbind (read_input j) (\<lambda>g. Inr (Inr g))
   | _ \<Rightarrow> rbind (read_input j) (\<lambda>g. Inr (Inr g)))"

definition array_view :: "nat \<Rightarrow> string \<times> json \<Rightarrow> (string \<times> gview) res" where
  "array_view inputs p = (case p of (name, j) \<Rightarrow>
     rbind (reject (name = [] \<or> length name > 128) (ValueError ''invalid array view name'')) (\<lambda>_.
     rbind (exact j {''input'', ''offset'', ''row'', ''column'', ''step''} ''invalid array view'') (\<lambda>d.
     rbind (integer_in (map_of d ''input'') 0 (int inputs - 1)) (\<lambda>input.
     rbind (int_pair (map_of d ''offset'') ''array view needs coordinate pair'' (-63) 63) (\<lambda>offset.
     rbind (int_pair (map_of d ''row'') ''array view needs coordinate pair'' 0 63) (\<lambda>row.
     rbind (int_pair (map_of d ''column'') ''array view needs coordinate pair'' 0 63) (\<lambda>column.
     rbind (int_pair (map_of d ''step'') ''array view needs coordinate pair'' 0 63) (\<lambda>step.
     Inr (name, \<lparr>gv_input = nat input, gv_offset = offset, gv_step = step, gv_row = row, gv_column = column\<rparr>)))))))))"

definition array_kernel :: "nat \<Rightarrow> json \<Rightarrow> (int \<times> fold_op \<times> (string \<times> gview) list \<times> node list \<times> string) res" where
  "array_kernel inputs j =
     rbind (exact j {''extent'', ''fold'', ''views'', ''nodes'', ''result''} ''invalid array kernel'') (\<lambda>k.
     rbind (integer_in (map_of k ''extent'') 1 64) (\<lambda>extent.
     rbind (want_str (map_of k ''fold'') ''array fold requires sum or unsigned max'') (\<lambda>fo.
     rbind (reject (fo \<notin> {''sum'', ''max''}) (ValueError ''array fold requires sum or unsigned max'')) (\<lambda>_.
     rbind (want_dict (map_of k ''views'') ''array requires 1..8 views'') (\<lambda>views.
     rbind (reject (\<not> (1 \<le> length views \<and> length views \<le> 8)) (ValueError ''array requires 1..8 views'')) (\<lambda>_.
     rbind (mapM (array_view inputs) views) (\<lambda>vs.
     rbind (array_nodes (keys views) (map_of k ''nodes'') (map_of k ''result'')) (\<lambda>(ns, r).
     Inr (extent, if fo = ''sum'' then FoldSum else FoldMax, vs, ns, r)))))))))"

definition read_array_stage :: "array_stage list \<Rightarrow> json \<Rightarrow> array_stage res" where
  "read_array_stage stages j =
     rbind (exact j {''name'', ''source''} ''invalid array stage'') (\<lambda>d.
     rbind (want_str (map_of d ''name'') ''array stage name must be text'') (\<lambda>_.
     rbind (project_name (map_of d ''name'')) (\<lambda>name.
     rbind (reject (name \<in> set (map as_name stages)) (ValueError ''duplicate array stage'')) (\<lambda>_.
     rbind (want_dict (map_of d ''source'') ''invalid array stage source'') (\<lambda>s.
     rbind (reject (keys s \<noteq> {''inputs'', ''shape'', ''boundary'', ''kernel''} \<union> (if ''post'' \<in> keys s then {''post''} else {})) (ValueError ''invalid array stage fields'')) (\<lambda>_.
     rbind (want_list (map_of s ''inputs'') ''array stage requires 1..8 inputs'') (\<lambda>inputs.
     rbind (reject (\<not> (1 \<le> length inputs \<and> length inputs \<le> 8)) (ValueError ''array stage requires 1..8 inputs'')) (\<lambda>_.
     rbind (int_pair (map_of s ''shape'') ''array output needs two dimensions'' 1 64) (\<lambda>shape.
     rbind (boundary (map_of s ''boundary'')) (\<lambda>bound.
     rbind (mapM array_input inputs) (\<lambda>ins.
     rbind (array_kernel (length inputs) (the (map_of s ''kernel''))) (\<lambda>(extent, fo, vs, ns, r).
     rbind (case map_of s ''post'' of None \<Rightarrow> Inr None
            | Some p \<Rightarrow> rbind (exact p {''nodes'', ''result''} ''invalid array post map'') (\<lambda>pd.
                rbind (array_nodes {''reduced''} (map_of pd ''nodes'') (map_of pd ''result'')) (\<lambda>nr. Inr (Some nr)))) (\<lambda>post.
     Inr \<lparr>as_name = name, as_inputs = ins, as_shape = shape, as_boundary = bound, as_extent = extent, as_fold = fo, as_views = vs, as_nodes = ns, as_result = r,
          as_post = post\<rparr>)))))))))))))"

definition stage_deps :: "array_stage \<Rightarrow> string set" where
  "stage_deps s = set (concat (map (\<lambda>inp. case inp of Inl n \<Rightarrow> [n] | Inr _ \<Rightarrow> []) (as_inputs s)))"

definition stage_size :: "array_stage \<Rightarrow> nat" where
  "stage_size s = length (as_nodes s) + (case as_post s of None \<Rightarrow> 0 | Some (ns, _) \<Rightarrow> length ns)"

definition literal_size :: "array_stage \<Rightarrow> nat" where
  "literal_size s = (\<Sum>i\<leftarrow>as_inputs s. case i of Inl _ \<Rightarrow> 0 | Inr g \<Rightarrow> length (g_words g))"

text \<open>\<open>stages[name]\<close>; the dictionaries \<open>stages\<close> and \<open>deps\<close> have the same keys.\<close>

definition stage_at :: "array_stage list \<Rightarrow> string \<Rightarrow> array_stage res" where
  "stage_at stages name = dget (map (\<lambda>s. (as_name s, s)) stages) name"

definition deps_of :: "array_stage list \<Rightarrow> string \<Rightarrow> string set" where
  "deps_of stages n = (case stage_at stages n of Inl _ \<Rightarrow> {} | Inr s \<Rightarrow> stage_deps s)"

record array_structure =
  ar_stages :: "array_stage list"
  ar_order :: "string list"
  ar_total :: nat
  ar_literals :: nat
  ar_outputs :: "string list"

definition read_structure :: "json \<Rightarrow> array_structure res" where
  "read_structure j =
     rbind (exact j {''schema'', ''stages'', ''outputs''} ''invalid array program fields'') (\<lambda>d.
     rbind (reject (map_of d ''schema'' \<notin> {Some (JStr ARRAY_SCHEMA), Some (JStr ARRAY_SCHEMA_V2)}) (ValueError ''array program requires 1..8 stages and outputs'')) (\<lambda>_.
     rbind (want_list (map_of d ''stages'') ''array program requires 1..8 stages and outputs'') (\<lambda>js.
     rbind (reject (\<not> (1 \<le> length js \<and> length js \<le> 8)) (ValueError ''array program requires 1..8 stages and outputs'')) (\<lambda>_.
     rbind (want_list (map_of d ''outputs'') ''array program requires 1..8 stages and outputs'') (\<lambda>outs.
     rbind (reject (\<not> (1 \<le> length outs \<and> length outs \<le> 8)) (ValueError ''array program requires 1..8 stages and outputs'')) (\<lambda>_.
     rbind (foldM (\<lambda>stages j. rbind (read_array_stage stages j) (\<lambda>s. Inr (stages @ [s]))) [] js) (\<lambda>stages.
     rbind (reject (int (\<Sum>s\<leftarrow>stages. stage_size s) > ARRAY_MAX_NODES) (ValueError ''array exceeds 128 total source nodes'')) (\<lambda>_.
     rbind (mapM (\<lambda>o'. rbind (want_str (Some o') ''unknown array output'') (\<lambda>n.
        rbind (reject (n \<notin> set (map as_name stages)) (ValueError ''unknown array output'')) (\<lambda>_. Inr n))) outs) (\<lambda>names.
     rbind (reject (\<not> distinct names) (ValueError ''duplicate array output'')) (\<lambda>_.
     rbind (reject (\<not> list_all (\<lambda>s. stage_deps s \<subseteq> set (map as_name stages)) stages) (ValueError ''unknown array producer'')) (\<lambda>_.
     rbind (stage_loop ''cyclic array stages'' (deps_of stages) (map as_name stages)) (\<lambda>order.
     Inr \<lparr>ar_stages = stages, ar_order = order, ar_total = (\<Sum>s\<leftarrow>stages. stage_size s), ar_literals = (\<Sum>s\<leftarrow>stages. literal_size s), ar_outputs = names\<rparr>))))))))))))"

section \<open>Binding a pass\<close>

record pass_step =
  ps_id :: string
  ps_shape :: coord
  ps_op :: mf_op
  ps_args :: "string list"
  ps_gather :: "(string \<times> string \<times> int) option"
  ps_imm :: "int option"
  ps_release :: "string list"

text \<open>The words a gather reads, in row-major order of the pass.\<close>

definition gathered :: "array_stage \<Rightarrow> gview \<Rightarrow> grid \<Rightarrow> int \<Rightarrow> coord \<Rightarrow> grid res" where
  "gathered s v operand k shape =
     rbind (mapM (\<lambda>(r, c). sample operand
              (fst (gv_offset v) + int r * fst (gv_row v) + int c * fst (gv_column v) + k * fst (gv_step v))
              (snd (gv_offset v) + int r * snd (gv_row v) + int c * snd (gv_column v) + k * snd (gv_step v)) (as_boundary s))
        (grid_list (nat (fst shape)) (nat (snd shape)) Pair)) (\<lambda>words.
     Inr \<lparr>g_rows = fst shape, g_columns = snd shape, g_words = words\<rparr>)"

definition pass_operands :: "array_stage list \<Rightarrow> pass_step \<Rightarrow> planes \<Rightarrow> grid list res" where
  "pass_operands stages step planes = (case ps_gather step of
     Some (stage, view, k) \<Rightarrow>
       rbind (stage_at stages stage) (\<lambda>s.
       rbind (dget (as_views s) view) (\<lambda>v.
       rbind (py_nth (as_inputs s) (int (gv_input v))) (\<lambda>inp.
       rbind (case inp of Inl _ \<Rightarrow> rbind (py_nth (ps_args step) 0) (mget planes) | Inr g \<Rightarrow> Inr g) (\<lambda>operand.
       rbind (gathered s v operand k (ps_shape step)) (\<lambda>g. Inr [g])))))
   | None \<Rightarrow> mapM (mget planes) (ps_args step))"

definition pass_nodes :: "mf_op \<Rightarrow> int option \<Rightarrow> nat \<Rightarrow> node list \<times> string" where
  "pass_nodes o' imm n =
     (let loads = map (\<lambda>i. \<lparr>nid = ''a'' @ str_nat i, nop = OpLoad, nargs = [], nview = ''v'' @ str_nat i, nimm = 0\<rparr>) [0..<n]
      in if o' = OpLoad then (loads, ''a0'')
         else (loads @ [\<lparr>nid = ''out'', nop = o', nargs = map nid loads, nview = [], nimm = (case imm of Some k \<Rightarrow> k | None \<Rightarrow> 0)\<rparr>], ''out''))"

definition pass_view :: "nat \<Rightarrow> string \<times> json" where
  "pass_view i = (''v'' @ str_nat i, JDict [(''input'', JInt (int i)), (''offset'', JList [JInt 0, JInt 0]), (''row'', JList [JInt 1, JInt 0]),
     (''column'', JList [JInt 0, JInt 1]), (''step'', JList [JInt 0, JInt 0])])"

text \<open>The grid source of a pass on its operands.\<close>

definition pass_source :: "coord \<Rightarrow> mf_op \<Rightarrow> int option \<Rightarrow> grid list \<Rightarrow> json" where
  "pass_source shape o' imm operands =
     (let (nodes, result) = pass_nodes o' imm (length operands)
      in JDict [(''schema'', JStr GRID_V5), (''inputs'', JList (map grid_json operands)), (''shape'', JList [JInt (fst shape), JInt (snd shape)]),
           (''tile'', JList [JInt 16, JInt 16]), (''boundary'', JStr ''zero''),
           (''kernel'', JDict [(''extent'', JInt 1), (''fold'', JStr ''sum''), (''views'', JDict (map pass_view [0..<length operands])),
              (''nodes'', JList (map node_json nodes)), (''result'', JStr result)])])"

definition bind_pass :: "array_stage list \<Rightarrow> pass_step \<Rightarrow> planes \<Rightarrow> json res" where
  "bind_pass stages step planes =
     rbind (pass_operands stages step planes) (\<lambda>operands.
     Inr (pass_source (ps_shape step) (ps_op step) (ps_imm step) operands))"

section \<open>The plan\<close>

record emission =
  em_steps :: "pass_step list"
  em_sessions :: int
  em_work :: int

definition emit_pass :: "coord \<Rightarrow> mf_op \<Rightarrow> string list \<Rightarrow> (string \<times> string \<times> int) option \<Rightarrow> int option \<Rightarrow> emission \<Rightarrow> (emission \<times> string) res" where
  "emit_pass shape o' args gather imm st =
     (let sessions = em_sessions st + ((fst shape + 15) div 16) * ((snd shape + 15) div 16);
          work = em_work st + fst shape * snd shape;
          name = ''p'' @ zfill 3 (length (em_steps st))
      in rbind (reject (int (length (em_steps st)) \<ge> MAX_PASSES \<or> sessions > MAX_SESSIONS \<or> work > MAX_WORK)
                 (ValueError ''array exceeds pass/session/work budget'')) (\<lambda>_.
         Inr (\<lparr>em_steps = em_steps st @ [\<lparr>ps_id = name, ps_shape = shape, ps_op = o', ps_args = args, ps_gather = gather, ps_imm = imm, ps_release = []\<rparr>],
               em_sessions = sessions, em_work = work\<rparr>, name)))"

definition array_imm :: "node \<Rightarrow> int option" where
  "array_imm n = (if has_imm (nop n) then Some (nimm n) else None)"

type_synonym refs = "string \<rightharpoonup> string"

definition emit_kernel_node :: "array_stage \<Rightarrow> refs \<Rightarrow> int \<Rightarrow> emission \<times> refs \<Rightarrow> node \<Rightarrow> (emission \<times> refs) res" where
  "emit_kernel_node s results k p n = (case p of (st, refs) \<Rightarrow>
     rbind (if nop n = OpLoad
            then rbind (dget (as_views s) (nview n)) (\<lambda>v.
                 rbind (py_nth (as_inputs s) (int (gv_input v))) (\<lambda>inp.
                 rbind (case inp of Inl producer \<Rightarrow> rbind (mget results producer) (\<lambda>r. Inr [r]) | Inr _ \<Rightarrow> Inr []) (\<lambda>args.
                 emit_pass (as_shape s) OpLoad args (Some (as_name s, nview n, k)) None st)))
            else rbind (mapM (mget refs) (nargs n)) (\<lambda>args. emit_pass (as_shape s) (nop n) args None (array_imm n) st)) (\<lambda>(st', ref).
     Inr (st', refs(nid n \<mapsto> ref))))"

definition fold_pass_op :: "fold_op \<Rightarrow> mf_op" where
  "fold_pass_op f = (case f of FoldSum \<Rightarrow> OpAdd | FoldMax \<Rightarrow> OpMax)"

definition emit_term :: "array_stage \<Rightarrow> refs \<Rightarrow> emission \<times> string option \<Rightarrow> nat \<Rightarrow> (emission \<times> string option) res" where
  "emit_term s results p k = (case p of (st, accumulator) \<Rightarrow>
     rbind (foldM (emit_kernel_node s results (int k)) (st, Map.empty) (as_nodes s)) (\<lambda>(st', refs).
     rbind (mget refs (as_result s)) (\<lambda>t.
     (case accumulator of
        None \<Rightarrow> Inr (st', Some t)
      | Some acc \<Rightarrow> rbind (emit_pass (as_shape s) (fold_pass_op (as_fold s)) [acc, t] None None st') (\<lambda>(st'', r). Inr (st'', Some r))))))"

definition emit_post_node :: "array_stage \<Rightarrow> string \<Rightarrow> emission \<times> refs \<Rightarrow> node \<Rightarrow> (emission \<times> refs) res" where
  "emit_post_node s accumulator p n = (case p of (st, refs) \<Rightarrow>
     rbind (if nop n = OpLoad then Inr [accumulator] else mapM (mget refs) (nargs n)) (\<lambda>args.
     rbind (emit_pass (as_shape s) (nop n) args None (array_imm n) st) (\<lambda>(st', ref).
     Inr (st', refs(nid n \<mapsto> ref)))))"

text \<open>The extent is at least one, so the loop leaves an accumulator.\<close>

definition emit_stage :: "array_stage list \<Rightarrow> emission \<times> refs \<Rightarrow> string \<Rightarrow> (emission \<times> refs) res" where
  "emit_stage stages p name = (case p of (st, results) \<Rightarrow>
     rbind (stage_at stages name) (\<lambda>s.
     rbind (foldM (emit_term s results) (st, None) [0..<nat (as_extent s)]) (\<lambda>(st', accumulator).
     rbind (want accumulator ''accumulator'') (\<lambda>acc.
     rbind (case as_post s of
          None \<Rightarrow> Inr (st', acc)
        | Some (nodes, result) \<Rightarrow>
            rbind (foldM (emit_post_node s acc) (st', Map.empty) nodes) (\<lambda>(st'', refs).
            rbind (mget refs result) (\<lambda>r. Inr (st'', r)))) (\<lambda>(st'', r).
     Inr (st'', results(name \<mapsto> r)))))))"

text \<open>The index of the last pass that needs a plane: itself, a consumer, or the end for an output.\<close>

definition last_uses :: "pass_step list \<Rightarrow> string list \<Rightarrow> string \<rightharpoonup> nat" where
  "last_uses steps producers =
     (let own = foldl (\<lambda>m (i, s). m(ps_id s \<mapsto> i)) Map.empty (enumerate 0 steps);
          used = foldl (\<lambda>m (i, s). foldl (\<lambda>m ref. m(ref \<mapsto> i)) m (ps_args s)) own (enumerate 0 steps)
      in foldl (\<lambda>m ref. m(ref \<mapsto> length steps)) used producers)"

record planning =
  pn_planes :: planes
  pn_sizes :: "(string \<times> int) list"
  pn_peak :: int
  pn_passes :: "pass_step list"

definition delete_plane :: "planes \<Rightarrow> string \<Rightarrow> planes res" where
  "delete_plane m n = (if m n = None then Inl KeyError else Inr (m(n := None)))"

definition plan_pass :: "array_stage list \<Rightarrow> (string \<rightharpoonup> nat) \<Rightarrow> int \<Rightarrow> planning \<Rightarrow> nat \<times> pass_step \<Rightarrow> planning res" where
  "plan_pass stages lasts literals st p = (case p of (i, s) \<Rightarrow>
     (let size = fst (ps_shape s) * snd (ps_shape s);
          packing = (if ps_gather s = None then int (length (ps_args s)) else 1) * size;
          peak = max (pn_peak st) (literals + sum_list (map snd (pn_sizes st)) + packing + size)
      in rbind (reject (peak > MAX_PLANES) (ValueError ''array exceeds logical plane-word budget'')) (\<lambda>_.
         rbind (bind_pass stages s (pn_planes st)) (\<lambda>src.
         rbind (compile src) (\<lambda>_.
         (let zero = \<lparr>g_rows = fst (ps_shape s), g_columns = snd (ps_shape s), g_words = replicate (nat size) 0\<rparr>;
              sizes = pn_sizes st @ [(ps_id s, size)];
              release = sort (filter (\<lambda>n. lasts n = Some i) (map fst sizes))
          in rbind (foldM delete_plane ((pn_planes st)(ps_id s \<mapsto> zero)) release) (\<lambda>planes.
             Inr \<lparr>pn_planes = planes, pn_sizes = filter (\<lambda>(n, _). n \<notin> set release) sizes, pn_peak = peak,
                  pn_passes = pn_passes st @ [s\<lparr>ps_release := release\<rparr>]\<rparr>)))))))"

record array_plan =
  ap_order :: "string list"
  ap_nodes :: nat
  ap_passes :: "pass_step list"
  ap_outputs :: "(string \<times> string) list"
  ap_sessions :: int
  ap_work :: int
  ap_peak :: int

definition no_passes :: emission where
  "no_passes = \<lparr>em_steps = [], em_sessions = 0, em_work = 0\<rparr>"

definition plan_structure :: "array_structure \<Rightarrow> array_plan res" where
  "plan_structure ar =
     rbind (foldM (emit_stage (ar_stages ar)) (no_passes, Map.empty) (ar_order ar)) (\<lambda>(st, results).
     rbind (mapM (\<lambda>n. rbind (mget results n) (\<lambda>r. Inr (n, r))) (ar_outputs ar)) (\<lambda>outputs.
     rbind (foldM (plan_pass (ar_stages ar) (last_uses (em_steps st) (map snd outputs)) (int (ar_literals ar)))
              \<lparr>pn_planes = Map.empty, pn_sizes = [], pn_peak = int (ar_literals ar), pn_passes = []\<rparr> (enumerate 0 (em_steps st))) (\<lambda>pn.
     Inr \<lparr>ap_order = ar_order ar, ap_nodes = ar_total ar, ap_passes = pn_passes pn, ap_outputs = outputs,
          ap_sessions = em_sessions st, ap_work = em_work st, ap_peak = pn_peak pn\<rparr>)))"

definition compile_v1 :: "json \<Rightarrow> array_plan res" where
  "compile_v1 j = rbind (read_structure j) plan_structure"

section \<open>Running a plan\<close>

definition publish :: "array_plan \<Rightarrow> planes \<Rightarrow> (string \<times> grid) list res" where
  "publish plan planes = mapM (\<lambda>(name, producer). rbind (mget planes producer) (\<lambda>g. Inr (name, g))) (ap_outputs plan)"

definition commit_pass :: "planes \<Rightarrow> pass_step \<Rightarrow> grid \<Rightarrow> planes res" where
  "commit_pass planes step g = foldM delete_plane (planes(ps_id step \<mapsto> g)) (ps_release step)"

section \<open>The whole-source interpreter\<close>

definition ref_sample :: "array_stage \<Rightarrow> grid list \<Rightarrow> int \<Rightarrow> int \<Rightarrow> int \<Rightarrow> string \<Rightarrow> int res" where
  "ref_sample s inputs row col k vname =
     rbind (dget (as_views s) vname) (\<lambda>v.
     rbind (py_nth inputs (int (gv_input v))) (\<lambda>data.
       (let r = fst (gv_offset v) + row * fst (gv_row v) + col * fst (gv_column v) + k * fst (gv_step v);
            c = snd (gv_offset v) + row * snd (gv_row v) + col * snd (gv_column v) + k * snd (gv_step v);
            h = g_rows data; w = g_columns data
        in if as_boundary s = BZero \<and> \<not> (0 \<le> r \<and> r < h \<and> 0 \<le> c \<and> c < w) then Inr 0
           else (let (r, c) = (if as_boundary s = BClamp then (min (h - 1) (max 0 r), min (w - 1) (max 0 c)) else (r, c));
                     (r, c) = (if as_boundary s = BWrap then (r mod h, c mod w) else (r, c))
                 in py_nth (g_words data) (r * w + c)))))"

definition ref_cell :: "array_stage \<Rightarrow> grid list \<Rightarrow> nat \<Rightarrow> nat \<Rightarrow> int res" where
  "ref_cell s inputs row col =
     rbind (foldM (\<lambda>acc k. rbind (eval_nodes (ref_sample s inputs (int row) (int col) (int k)) (as_nodes s) (as_result s))
                             (\<lambda>t. Inr (fold_step (as_fold s) acc t))) 0 [0..<nat (as_extent s)]) (\<lambda>acc.
     (case as_post s of None \<Rightarrow> Inr acc | Some (nodes, result) \<Rightarrow> eval_nodes (\<lambda>_. Inr acc) nodes result))"

definition ref_stage :: "array_stage list \<Rightarrow> planes \<Rightarrow> string \<Rightarrow> planes res" where
  "ref_stage stages outputs name =
     rbind (stage_at stages name) (\<lambda>s.
     rbind (mapM (\<lambda>inp. case inp of Inl producer \<Rightarrow> mget outputs producer | Inr g \<Rightarrow> Inr g) (as_inputs s)) (\<lambda>inputs.
     rbind (mapM (\<lambda>(r, c). ref_cell s inputs r c) (grid_list (nat (fst (as_shape s))) (nat (snd (as_shape s))) Pair)) (\<lambda>words.
     Inr (outputs(name \<mapsto> \<lparr>g_rows = fst (as_shape s), g_columns = snd (as_shape s), g_words = words\<rparr>)))))"

definition array_reference :: "json \<Rightarrow> (string \<times> grid) list res" where
  "array_reference j =
     rbind (read_structure j) (\<lambda>ar.
     rbind (foldM (ref_stage (ar_stages ar)) Map.empty (ar_order ar)) (\<lambda>outputs.
     mapM (\<lambda>n. rbind (mget outputs n) (\<lambda>g. Inr (n, g))) (ar_outputs ar)))"

section \<open>The project run\<close>

text \<open>
  The pass loop of \<open>project_array.run\<close>: one grid run per pass. \<open>raised i\<close> is what interrupts
  the children of pass \<open>i\<close>. A child without output ends the loop.
\<close>

fun pass_loop :: "(nat \<Rightarrow> nat \<Rightarrow> py_error option) \<Rightarrow> array_stage list \<Rightarrow> nat \<Rightarrow> planes \<Rightarrow> pass_step list \<Rightarrow> (planes \<times> nat \<times> bool) res" where
  "pass_loop raised stages i planes [] = Inr (planes, i, True)"
| "pass_loop raised stages i planes (step # rest) =
     rbind (bind_pass stages step planes) (\<lambda>src.
     rbind (grid_run (raised i) src) (\<lambda>child.
     if \<not> gr_succeeded child then Inr (planes, i + 1, False)
     else rbind (want (gr_output child) ''output'') (\<lambda>(rows, columns, words).
          rbind (commit_pass planes step \<lparr>g_rows = rows, g_columns = columns, g_words = words\<rparr>) (\<lambda>planes'.
          pass_loop raised stages (i + 1) planes' rest))))"

record array_record =
  rr_succeeded :: bool
  rr_attempted :: nat
  rr_outputs :: "(string \<times> grid) list option"

text \<open>The whole-array comparison of \<open>_inspect\<close>, which \<open>run\<close> makes before it writes its record.\<close>

definition inspect_outputs :: "json \<Rightarrow> (string \<times> grid) list \<Rightarrow> unit res" where
  "inspect_outputs j outputs =
     rbind (array_reference j) (\<lambda>oracle. reject (outputs \<noteq> oracle) (ValueError ''whole-array oracle mismatch''))"

definition array_run :: "(nat \<Rightarrow> nat \<Rightarrow> py_error option) \<Rightarrow> json \<Rightarrow> array_record res" where
  "array_run raised j =
     rbind (read_structure j) (\<lambda>ar.
     rbind (plan_structure ar) (\<lambda>plan.
     rbind (pass_loop raised (ar_stages ar) 0 Map.empty (ap_passes plan)) (\<lambda>(planes, attempted, complete).
     if complete then
       rbind (publish plan planes) (\<lambda>outputs.
       rbind (inspect_outputs j outputs) (\<lambda>_.
       Inr \<lparr>rr_succeeded = True, rr_attempted = attempted, rr_outputs = Some outputs\<rparr>))
     else Inr \<lparr>rr_succeeded = False, rr_attempted = attempted, rr_outputs = None\<rparr>)))"

end
