(* ===== verification/Array_Pass.thy ===== *)
theory Array_Pass
  imports Array_Program
begin

text \<open>
  One pass of an array plan. Whether the grid compiler admits a bound pass depends on its
  shape, operation and number of operands, not on the words (the plan is checked with zero
  planes and run with the real ones), and a bound pass computes its operation at every cell.
\<close>

section \<open>What a bound pass computes\<close>

definition plain_view :: "nat \<Rightarrow> string \<times> gview" where
  "plain_view i = (''v'' @ str_nat i, \<lparr>gv_input = i, gv_offset = (0, 0), gv_step = (0, 0), gv_row = (1, 0), gv_column = (0, 1)\<rparr>)"

definition pass_gs :: "coord \<Rightarrow> mf_op \<Rightarrow> int option \<Rightarrow> grid list \<Rightarrow> grid_source" where
  "pass_gs shape o' imm operands =
     \<lparr>gs_schema = GRID_V5, gs_grids = operands, gs_shape = shape, gs_tile = (16, 16), gs_boundary = BZero, gs_extent = 1, gs_fold = FoldSum,
      gs_views = map plain_view [0..<length operands], gs_nodes = JList (map node_json (fst (pass_nodes o' imm (length operands)))),
      gs_result = JStr (snd (pass_nodes o' imm (length operands))), gs_post = None\<rparr>"

definition shape_ok :: "coord \<Rightarrow> bool" where
  "shape_ok shape \<longleftrightarrow> 1 \<le> fst shape \<and> fst shape \<le> 64 \<and> 1 \<le> snd shape \<and> snd shape \<le> 64"

text \<open>The number of operands and the immediate of a planned pass.\<close>

definition pass_op_ok :: "mf_op \<Rightarrow> int option \<Rightarrow> nat \<Rightarrow> bool" where
  "pass_op_ok o' imm n \<longleftrightarrow> n = (if o' = OpLoad then 1 else arity o') \<and>
     (if has_imm o' then \<exists>k. imm = Some k \<and> 0 \<le> k \<and> k < 2 ^ 22 else imm = None)"

definition imm_of :: "int option \<Rightarrow> int" where
  "imm_of imm = (case imm of Some k \<Rightarrow> k | None \<Rightarrow> 0)"

definition pass_word :: "mf_op \<Rightarrow> int option \<Rightarrow> int list \<Rightarrow> int" where
  "pass_word o' imm args = take_bit 32 (apply_op o' (imm_of imm) args (args ! 0))"

definition plane :: "coord \<Rightarrow> (nat \<Rightarrow> nat \<Rightarrow> int) \<Rightarrow> grid" where
  "plane shape f = \<lparr>g_rows = fst shape, g_columns = snd shape, g_words = grid_list (nat (fst shape)) (nat (snd shape)) f\<rparr>"

lemma digit_names [simp]: "str_nat 0 = ''0''" "str_nat (Suc 0) = ''1''"
  by code_simp+

lemma pass_op_cases:
  assumes "pass_op_ok o' imm n"
  obtains "o' = OpLoad" "n = 1" "imm = None"
    | "o' \<noteq> OpLoad" "arity o' = 1" "n = 1"
    | "o' \<noteq> OpLoad" "arity o' = 2" "n = 2" "\<not> has_imm o'"
  using assms by (cases o') (auto simp: pass_op_ok_def has_imm_def)

lemma mapM_read_grids: "\<forall>g \<in> set gs. grid_ok g \<Longrightarrow> mapM read_input (map grid_json gs) = Inr gs"
  by (induction gs) (simp_all add: read_grid_json)

lemma pass_tiles: "shape_ok shape \<Longrightarrow> tiles_needed shape (16, 16) \<le> 16"
proof -
  assume "shape_ok shape"
  then have "(fst shape + 15) div 16 \<le> 4" "(snd shape + 15) div 16 \<le> 4" "0 \<le> (fst shape + 15) div 16" "0 \<le> (snd shape + 15) div 16"
    by (auto simp: shape_ok_def)
  then have "((fst shape + 15) div 16) * ((snd shape + 15) div 16) \<le> 4 * 4" by (intro mult_mono) auto
  then show ?thesis by (simp add: tiles_needed_def algebra_simps)
qed

lemma read_pass_views:
  "i < n \<Longrightarrow> read_view True n (pass_view i) = Inr (plain_view i)"
  by (simp add: read_view_def pass_view_def plain_view_def want_dict_def integer_in_def int_pair_def want_list_def insert_commute)

lemma pass_source_gs:
  assumes "shape_ok shape" "\<forall>g \<in> set operands. grid_ok g" "1 \<le> length operands" "length operands \<le> 2"
  shows "source (pass_source shape o' imm operands) = Inr (pass_gs shape o' imm operands)"
proof -
  have views: "mapM (read_view True (length operands)) (map pass_view [0..<length operands]) = Inr (map plain_view [0..<length operands])"
    unfolding mapM_map by (intro mapM_eq_map read_pass_views) simp
  have ne: "operands \<noteq> []" using assms(3) by auto
  obtain nodes result where pn: "pass_nodes o' imm (length operands) = (nodes, result)" by force
  have kernel: "read_kernel True (length operands) (Some (JDict [(''extent'', JInt 1), (''fold'', JStr ''sum''), (''views'', JDict (map pass_view [0..<length operands])),
              (''nodes'', JList (map node_json nodes)), (''result'', JStr result)]))
      = Inr (1, FoldSum, map plain_view [0..<length operands], JList (map node_json nodes), JStr result)"
    using assms(3,4) views ne
    by (simp add: read_kernel_def want_dict_def integer_in_def read_fold_def want_def insert_commute)
  have shape: "int_pair (Some (JList [JInt (fst shape), JInt (snd shape)])) ''two output dimensions required'' 1 64 = Inr shape"
    using assms(1) by (simp add: int_pair_def want_list_def integer_in_def shape_ok_def)
  have tile: "int_pair (Some (JList [JInt 16, JInt 16])) ''two tile dimensions required'' 1 16 = Inr (16, 16)"
    by (simp add: int_pair_def want_list_def integer_in_def)
  have "GRID_V5 \<noteq> GRID_V1" "GRID_V5 \<noteq> GRID_V3" by (simp_all add: GRID_V5_def GRID_V1_def GRID_V3_def)
  then show ?thesis
    using assms(3,4) ne kernel shape tile pass_tiles [OF assms(1)] mapM_read_grids [OF assms(2)]
    unfolding source_def pass_source_def pn prod.case
    by (simp add: want_dict_def want_str_def want_list_def source_fields_def read_post_def boundary_def pass_gs_def pn insert_commute Let_def)
qed

lemma check_pass_nodes:
  assumes "pass_op_ok o' imm n"
  shows "check_source (JList (map node_json (fst (pass_nodes o' imm n)))) (JStr (snd (pass_nodes o' imm n))) = Inr (pass_nodes o' imm n)"
  using assms
  by (cases o') (auto simp: pass_op_ok_def has_imm_def pass_nodes_def check_source_def want_list_def want_dict_def want_str_def want_def source_node_def
      node_json_def node_fields_def get_args_def eval_nat_numeral insert_commute)

lemma eval_pass_nodes:
  assumes "pass_op_ok o' imm n" and "length args = n" and load: "\<And>i. i < n \<Longrightarrow> load (''v'' @ str_nat i) = Inr (args ! i)"
    and word: "\<forall>a \<in> set args. 0 \<le> a \<and> a < 2 ^ 32"
  shows "eval_nodes load (fst (pass_nodes o' imm n)) (snd (pass_nodes o' imm n)) = Inr (pass_word o' imm args)"
proof -
  have w: "take_bit 32 (args ! i) = args ! i" if "i < n" for i
    using word that assms(2) nth_mem [of i args] by (simp add: take_bit_int_eq_self)
  show ?thesis
    using assms(1)
  proof (cases rule: pass_op_cases)
    case 1
    then show ?thesis using load [of 0] w [of 0]
      by (simp add: pass_nodes_def eval_nodes_def eval_node_def pass_word_def)
  next
    case 2
    then show ?thesis using load [of 0] w [of 0] assms(2)
      by (cases o') (simp_all add: pass_nodes_def eval_nodes_def eval_node_def pass_word_def imm_of_def)
  next
    case 3
    then show ?thesis using load [of 0] load [of 1] w [of 0] w [of 1] assms(2)
      by (cases o') (simp_all add: pass_nodes_def eval_nodes_def eval_node_def pass_word_def imm_of_def eval_nat_numeral)
  qed
qed

definition plane_of :: "coord \<Rightarrow> grid \<Rightarrow> bool" where
  "plane_of shape g \<longleftrightarrow> grid_ok g \<and> g_rows g = fst shape \<and> g_columns g = snd shape"

text \<open>The words of the operands at one cell.\<close>

definition cell_words :: "coord \<Rightarrow> grid list \<Rightarrow> nat \<Rightarrow> nat \<Rightarrow> int list" where
  "cell_words shape operands r c = map (\<lambda>g. g_words g ! (r * nat (snd shape) + c)) operands"

definition pass_plane :: "coord \<Rightarrow> mf_op \<Rightarrow> int option \<Rightarrow> grid list \<Rightarrow> grid" where
  "pass_plane shape o' imm operands = plane shape (\<lambda>r c. pass_word o' imm (cell_words shape operands r c))"

lemma plane_index:
  assumes "plane_of shape g" "r < nat (fst shape)" "c < nat (snd shape)"
  shows "r * nat (snd shape) + c < length (g_words g)"
proof -
  have "int (length (g_words g)) = fst shape * snd shape" "0 \<le> fst shape" "0 \<le> snd shape" using assms by (auto simp: plane_of_def grid_ok_def)
  then have "length (g_words g) = nat (fst shape) * nat (snd shape)" by (simp add: nat_mult_distrib [symmetric])
  then show ?thesis using grid_index_less [OF assms(2,3)] by simp
qed

lemma pass_load:
  assumes ops: "\<forall>g \<in> set operands. plane_of shape g" and i: "i < length operands" and rc: "r < nat (fst shape)" "c < nat (snd shape)"
    and n: "length operands \<le> 2"
  shows "grid_load (pass_gs shape o' imm operands) (int r) (int c) 0 (''v'' @ str_nat i) = Inr (cell_words shape operands r c ! i)"
proof -
  have p: "plane_of shape (operands ! i)" using ops i by simp
  then have dims: "g_rows (operands ! i) = fst shape" "g_columns (operands ! i) = snd shape" by (auto simp: plane_of_def)
  have view: "map_of (map plain_view [0..<length operands]) (''v'' @ str_nat i) =
      Some \<lparr>gv_input = i, gv_offset = (0, 0), gv_step = (0, 0), gv_row = (1, 0), gv_column = (0, 1)\<rparr>"
  proof -
    have "distinct (map fst (map plain_view [0..<length operands]))"
      by (auto simp: distinct_map plain_view_def inj_on_def)
    moreover have "plain_view i \<in> set (map plain_view [0..<length operands])" using i by simp
    ultimately show ?thesis unfolding plain_view_def by (rule map_of_is_SomeI)
  qed
  have idx: "int r * snd shape + int c = int (r * nat (snd shape) + c)"
  proof -
    have "0 \<le> snd shape" using rc(2) by linarith
    then show ?thesis by simp
  qed
  have "py_nth (g_words (operands ! i)) (int r * snd shape + int c) = Inr (g_words (operands ! i) ! (r * nat (snd shape) + c))"
    unfolding idx using plane_index [OF p rc] py_nth_inside [of "int (r * nat (snd shape) + c)" "g_words (operands ! i)"]
    by (simp del: of_nat_add of_nat_mult)
  moreover have "int r < fst shape" "int c < snd shape" using rc by linarith+
  ultimately show ?thesis
    using i view dims by (simp add: grid_load_def pass_gs_def dget_def cell_words_def Let_def)
qed

lemma cell_words_range:
  assumes "\<forall>g \<in> set operands. plane_of shape g" "r < nat (fst shape)" "c < nat (snd shape)"
  shows "\<forall>w \<in> set (cell_words shape operands r c). 0 \<le> w \<and> w < 2 ^ 32"
proof
  fix w assume "w \<in> set (cell_words shape operands r c)"
  then obtain g where g: "g \<in> set operands" "w = g_words g ! (r * nat (snd shape) + c)" by (auto simp: cell_words_def)
  then have p: "plane_of shape g" using assms(1) by simp
  have "w \<in> set (g_words g)" using g(2) plane_index [OF p assms(2,3)] by simp
  then show "0 \<le> w \<and> w < 2 ^ 32" using p by (auto simp: plane_of_def grid_ok_def)
qed

lemma pass_word_range: "0 \<le> pass_word o' imm args \<and> pass_word o' imm args < 2 ^ 32"
  by (simp add: pass_word_def take_bit_eq_mod)

lemma plane_plane_of: "shape_ok shape \<Longrightarrow> (\<And>r c. r < nat (fst shape) \<Longrightarrow> c < nat (snd shape) \<Longrightarrow> 0 \<le> f r c \<and> f r c < 2 ^ 32) \<Longrightarrow> plane_of shape (plane shape f)"
  by (auto simp: plane_of_def plane_def grid_ok_def shape_ok_def set_grid_list)

lemma pass_plane_of: "shape_ok shape \<Longrightarrow> plane_of shape (pass_plane shape o' imm operands)"
  unfolding pass_plane_def by (intro plane_plane_of pass_word_range)

text \<open>A bound pass that is admitted with some words is admitted with all, and computes its plane.\<close>

definition pass_admitted :: "coord \<Rightarrow> mf_op \<Rightarrow> int option \<Rightarrow> nat \<Rightarrow> bool" where
  "pass_admitted shape o' imm n \<longleftrightarrow> shape_ok shape \<and> pass_op_ok o' imm n \<and>
     (\<exists>operands cg. length operands = n \<and> (\<forall>g \<in> set operands. plane_of shape g) \<and> compile (pass_source shape o' imm operands) = Inr cg)"

lemma pass_count: "pass_op_ok o' imm n \<Longrightarrow> 1 \<le> n \<and> n \<le> 2"
  by (elim pass_op_cases) auto

lemma pass_runs:
  assumes adm: "pass_admitted shape o' imm (length operands)" and ops: "\<forall>g \<in> set operands. plane_of shape g"
  shows "\<exists>cg. compile (pass_source shape o' imm operands) = Inr cg \<and> cg_rows cg = fst shape \<and> cg_columns cg = snd shape \<and>
    grid_reference (pass_source shape o' imm operands) = Inr (g_words (pass_plane shape o' imm operands))"
proof -
  let ?n = "length operands" let ?gs = "pass_gs shape o' imm operands"
  obtain zs cg0 where sh: "shape_ok shape" and op: "pass_op_ok o' imm ?n" and zs: "length zs = ?n" "\<forall>g \<in> set zs. plane_of shape g"
    "compile (pass_source shape o' imm zs) = Inr cg0"
    using adm unfolding pass_admitted_def by blast
  note n = pass_count [OF op]
  have src: "source (pass_source shape o' imm operands) = Inr ?gs" "source (pass_source shape o' imm zs) = Inr (pass_gs shape o' imm zs)"
    using pass_source_gs [OF sh, of operands] pass_source_gs [OF sh, of zs] n zs(1,2) ops by (simp_all add: plane_of_def)
  have g: "?gs = (pass_gs shape o' imm zs)\<lparr>gs_grids := operands\<rparr>" "gs_shape (pass_gs shape o' imm zs) = shape" "gs_post (pass_gs shape o' imm zs) = None"
    "length operands = length (gs_grids (pass_gs shape o' imm zs))"
    using zs(1) by (simp_all add: pass_gs_def)
  obtain cg where cg: "compile (pass_source shape o' imm operands) = Inr cg" "cg_rows cg = fst shape" "cg_columns cg = snd shape"
    using compile_other_words [OF zs(3) src(2) src(1)[unfolded g(1)] g(4)] unfolding g(2) by blast
  have maps: "read_maps ?gs = Inr (pass_nodes o' imm ?n, None)"
    using check_pass_nodes [OF op] by (simp add: read_maps_def pass_gs_def)
  have cell: "grid_cell ?gs (fst (pass_nodes o' imm ?n)) (snd (pass_nodes o' imm ?n)) None (int r) (int c)
      = Inr (pass_word o' imm (cell_words shape operands r c))" if rc: "r < nat (fst shape)" "c < nat (snd shape)" for r c
  proof -
    have "eval_nodes (grid_load ?gs (int r) (int c) 0) (fst (pass_nodes o' imm ?n)) (snd (pass_nodes o' imm ?n))
        = Inr (pass_word o' imm (cell_words shape operands r c))"
      using pass_load [OF ops _ rc] n cell_words_range [OF ops rc]
      by (intro eval_pass_nodes [OF op]) (auto simp: cell_words_def)
    moreover have "fold_step FoldSum 0 (pass_word o' imm (cell_words shape operands r c)) = pass_word o' imm (cell_words shape operands r c)"
      by (simp add: fold_step_def pass_word_def)
    ultimately show ?thesis by (simp add: grid_cell_def pass_gs_def)
  qed
  have "grid_reference (pass_source shape o' imm operands) = Inr (grid_list (nat (fst (gs_shape ?gs))) (nat (snd (gs_shape ?gs)))
      (\<lambda>r c. (\<lambda>R C. pass_word o' imm (cell_words shape operands (nat R) (nat C))) (int r) (int c)))"
    by (rule grid_reference_list [OF cg(1) src(1) maps]) (use cell in \<open>simp add: pass_gs_def\<close>)
  then show ?thesis using cg by (simp add: pass_plane_def plane_def pass_gs_def)
qed

end
