(* ===== verification/Array_Stages.thy ===== *)
theory Array_Stages
  imports Array_Pass
begin

text \<open>
  The stages of an admitted array program: what \<open>read_structure\<close> establishes about every
  stage and their order.
\<close>

section \<open>Admitted stages\<close>

definition map_ok :: "string set \<Rightarrow> node list \<Rightarrow> string \<Rightarrow> bool" where
  "map_ok views ns r \<longleftrightarrow> nodes_ok {} ns \<and> r \<in> nid ` set ns \<and> (\<forall>n \<in> set ns. nop n = OpLoad \<longrightarrow> nview n \<in> views)"

definition stage_ok :: "array_stage \<Rightarrow> bool" where
  "stage_ok s \<longleftrightarrow> shape_ok (as_shape s) \<and> 1 \<le> as_extent s \<and> as_extent s \<le> 64 \<and> (\<forall>g. Inr g \<in> set (as_inputs s) \<longrightarrow> grid_ok g) \<and>
     (\<forall>p \<in> set (as_views s). gv_input (snd p) < length (as_inputs s)) \<and> map_ok (fst ` set (as_views s)) (as_nodes s) (as_result s) \<and>
     (\<forall>ns r. as_post s = Some (ns, r) \<longrightarrow> map_ok {''reduced''} ns r)"

definition structure_ok :: "array_structure \<Rightarrow> bool" where
  "structure_ok ar \<longleftrightarrow> distinct (map as_name (ar_stages ar)) \<and> (\<forall>s \<in> set (ar_stages ar). stage_ok s) \<and>
     distinct (ar_order ar) \<and> set (ar_order ar) = as_name ` set (ar_stages ar) \<and> set (ar_outputs ar) \<subseteq> as_name ` set (ar_stages ar) \<and>
     (\<forall>i < length (ar_order ar). deps_of (ar_stages ar) (ar_order ar ! i) \<subseteq> set (take i (ar_order ar)))"

lemma array_args_Inr:
  assumes "array_args seen n j = Inr args"
  shows "length args = n" "set args \<subseteq> seen"
proof -
  obtain js where j: "j = Some (JList js)" using assms by (auto simp: array_args_def res_simps)
  have js: "length js = n" "mapM (\<lambda>a. rbind (want_str (Some a) ''array nodes require dependency-ordered SSA'') (\<lambda>s.
        rbind (reject (s \<notin> seen) (ValueError ''array nodes require dependency-ordered SSA'')) (\<lambda>_. Inr s))) js = Inr args"
    using assms by (simp_all only: array_args_def j want_list_def option.case json.case rbind_simps rbind_reject if_raise_Inr not_not)
  show "length args = n" using js(1) mapM_Inr_length [OF js(2)] by simp
  show "set args \<subseteq> seen" using js(2) by (auto dest!: mapM_all [where P = "\<lambda>s. s \<in> seen"] simp: res_simps)
qed

lemma array_node_Inr:
  assumes "array_node views seen j = Inr n"
  shows "node_ok seen n" "nop n = OpLoad \<Longrightarrow> nview n \<in> views"
proof -
  obtain d o' name view args imm where p: "name \<notin> seen"
    "(if o' = OpLoad then rbind (want_str (map_of d ''view'') ''unknown array view'') (\<lambda>v. rbind (reject (v \<notin> views) (ValueError ''unknown array view'')) (\<lambda>_. Inr (v, [])))
      else rbind (array_args seen (arity o') (map_of d ''args'')) (\<lambda>args. Inr ([], args))) = Inr (view, args)"
    "(if has_imm o' then integer_in (map_of d ''imm'') 0 (2 ^ 22 - 1) else Inr 0) = Inr imm"
    "n = \<lparr>nid = name, nop = o', nargs = args, nview = view, nimm = imm\<rparr>"
    using assms unfolding array_node_def by (simp only: res_simps reject_eq Inr_inject split_paired_Ex prod.case de_Morgan_disj) blast
  have "set args \<subseteq> seen" "length args = arity o'" using p(2) by (auto simp: res_simps dest: array_args_Inr split: if_splits)
  moreover have "has_imm o' \<Longrightarrow> 0 \<le> imm \<and> imm < 2 ^ 22" using p(3) by (simp add: res_simps)
  ultimately show "node_ok seen n" using p(1,4) by (simp add: node_ok_def)
  show "nop n = OpLoad \<Longrightarrow> nview n \<in> views" using p(2,4) by (auto simp: res_simps)
qed

lemma array_nodes_Inr:
  assumes "array_nodes views nodes result = Inr (ns, r)"
  shows "map_ok views ns r"
proof -
  obtain js where js: "foldM (add_array_node views) [] js = Inr ns" "r \<in> set (map nid ns)"
    using assms unfolding array_nodes_def by (simp only: res_simps reject_eq Inr_inject prod.inject not_not) blast
  from js(1) have "nodes_ok {} ns \<and> (\<forall>n \<in> set ns. nop n = OpLoad \<longrightarrow> nview n \<in> views)"
    by (rule foldM_invariant) (auto simp: add_array_node_def res_simps nodes_ok_append dest: array_node_Inr)
  then show ?thesis using js(2) by (auto simp: map_ok_def)
qed

lemma array_kernel_Inr:
  assumes "array_kernel m j = Inr (extent, fo, vs, ns, r)"
  shows "1 \<le> extent" "extent \<le> 64" "\<forall>p \<in> set vs. gv_input (snd p) < m" "map_ok (fst ` set vs) ns r"
proof -
  obtain k views where p: "1 \<le> extent" "extent \<le> 64" "mapM (array_view m) views = Inr vs"
    "array_nodes (keys views) (map_of k ''nodes'') (map_of k ''result'') = Inr (ns, r)"
    using assms unfolding array_kernel_def by (simp only: res_simps reject_eq Inr_inject split_paired_Ex prod.case prod.inject) blast
  show "1 \<le> extent" "extent \<le> 64" by (rule p)+
  have v: "fst q = name \<and> gv_input (snd q) < m" if "array_view m (name, jv) = Inr q" for name jv q
    using that unfolding array_view_def prod.case by (simp only: res_simps reject_eq Inr_inject sum.inject) (elim exE conjE, hypsubst, simp add: nat_less_iff)
  show "\<forall>p \<in> set vs. gv_input (snd p) < m" using mapM_all [OF p(3), of "\<lambda>p. gv_input (snd p) < m"] v by (metis surj_pair)
  have "map fst vs = map fst views"
  proof (rule nth_equalityI)
    show len: "length (map fst vs) = length (map fst views)" using mapM_Inr_length [OF p(3)] by simp
    fix i assume i: "i < length (map fst vs)"
    then have "array_view m (views ! i) = Inr (vs ! i)" using mapM_Inr_nth [OF p(3), of i] len by simp
    then show "map fst vs ! i = map fst views ! i" using v i len by (cases "views ! i") auto
  qed
  then have "fst ` set vs = keys views" by (metis keys_code list.set_map)
  then show "map_ok (fst ` set vs) ns r" using array_nodes_Inr [OF p(4)] by simp
qed

lemma array_input_Inr: "array_input j = Inr (Inr g) \<Longrightarrow> grid_ok g"
  unfolding array_input_def by (cases j) (auto simp: res_simps split: if_splits dest: read_input_ok)

lemma read_array_stage_Inr:
  assumes "read_array_stage stages j = Inr s"
  shows "stage_ok s" "as_name s \<notin> as_name ` set stages"
proof -
  obtain d sd name inputs shape bound ins extent fo vs ns r post where p: "name \<notin> set (map as_name stages)"
    "int_pair (map_of sd ''shape'') ''array output needs two dimensions'' 1 64 = Inr shape" "mapM array_input inputs = Inr ins"
    "array_kernel (length inputs) (the (map_of sd ''kernel'')) = Inr (extent, fo, vs, ns, r)"
    "(case map_of sd ''post'' of None \<Rightarrow> Inr None
       | Some p \<Rightarrow> rbind (exact p {''nodes'', ''result''} ''invalid array post map'') (\<lambda>pd.
           rbind (array_nodes {''reduced''} (map_of pd ''nodes'') (map_of pd ''result'')) (\<lambda>nr. Inr (Some nr)))) = Inr post"
    "s = \<lparr>as_name = name, as_inputs = ins, as_shape = shape, as_boundary = bound, as_extent = extent, as_fold = fo, as_views = vs, as_nodes = ns, as_result = r,
          as_post = post\<rparr>"
    using assms unfolding read_array_stage_def by (simp only: res_simps reject_eq Inr_inject split_paired_Ex prod.case) blast
  have post: "map_ok {''reduced''} pn pr" if "post = Some (pn, pr)" for pn pr
    using p(5) that by (auto simp: res_simps dest: array_nodes_Inr split: option.splits)
  have lit: "grid_ok g" if "Inr g \<in> set ins" for g
    using mapM_all [OF p(3), of "\<lambda>x. \<forall>g. x = Inr g \<longrightarrow> grid_ok g"] that array_input_Inr by blast
  show "stage_ok s"
    unfolding stage_ok_def p(6)
    using int_pair_range [OF p(2)] array_kernel_Inr [OF p(4)] mapM_Inr_length [OF p(3)] lit post by (simp add: shape_ok_def)
  show "as_name s \<notin> as_name ` set stages" using p(1,6) by simp
qed

lemma read_structure_ok:
  assumes "read_structure j = Inr ar"
  shows "structure_ok ar"
proof -
  obtain js outs stages names order where p:
    "foldM (\<lambda>stages j. rbind (read_array_stage stages j) (\<lambda>s. Inr (stages @ [s]))) [] js = Inr stages"
    "mapM (\<lambda>o'. rbind (want_str (Some o') ''unknown array output'') (\<lambda>n.
        rbind (reject (n \<notin> set (map as_name stages)) (ValueError ''unknown array output'')) (\<lambda>_. Inr n))) outs = Inr names"
    "list_all (\<lambda>s. stage_deps s \<subseteq> set (map as_name stages)) stages"
    "stage_loop ''cyclic array stages'' (deps_of stages) (map as_name stages) = Inr order"
    "ar = \<lparr>ar_stages = stages, ar_order = order, ar_total = (\<Sum>s\<leftarrow>stages. stage_size s), ar_literals = (\<Sum>s\<leftarrow>stages. literal_size s), ar_outputs = names\<rparr>"
    using assms unfolding read_structure_def by (simp only: res_simps reject_eq Inr_inject not_not) blast
  from p(1) have st: "distinct (map as_name stages) \<and> (\<forall>s \<in> set stages. stage_ok s)"
    by (rule foldM_invariant) (auto simp: res_simps dest: read_array_stage_Inr)
  have "\<not> stage_cycle (deps_of stages) (set (map as_name stages))" using stage_loop_cyclic [of _ "map as_name stages"] st p(4) by (metis stage_cycle_def Inl_Inr_False)
  then have ord: "distinct order" "set order = set (map as_name stages)"
      "\<forall>i < length order. deps_of stages (order ! i) \<inter> set (map as_name stages) \<subseteq> set (take i order)"
    using stage_loop_ordered [of "map as_name stages" "deps_of stages" "''cyclic array stages''"] st p(4) by auto
  have deps: "deps_of stages n \<subseteq> set (map as_name stages)" for n
    using p(3) by (auto simp: deps_of_def stage_at_def list_all_iff dget_Inr split: sum.splits dest!: map_of_SomeD)
  have "set names \<subseteq> set (map as_name stages)" using mapM_all [OF p(2), of "\<lambda>n. n \<in> set (map as_name stages)"] by (auto simp: res_simps)
  then show ?thesis using st ord deps unfolding structure_ok_def p(5) by (simp add: le_iff_inf)
qed

end
