(* ===== verification/Array_Emission.thy ===== *)
theory Array_Emission
  imports Array_Stages
begin

text \<open>
  The emitted passes, run in order on planes that are never released, compute the stages of
  the whole-source interpreter: every reference a stage keeps names the plane of the value
  the interpreter has at each cell.
\<close>

section \<open>Passes on unlimited planes\<close>

definition step_plane :: "pass_step \<Rightarrow> grid list \<Rightarrow> grid" where
  "step_plane step ops = pass_plane (ps_shape step) (ps_op step) (ps_imm step) ops"

definition full_step :: "array_stage list \<Rightarrow> planes \<Rightarrow> pass_step \<Rightarrow> planes" where
  "full_step stages V step = (case pass_operands stages step V of Inl _ \<Rightarrow> V | Inr ops \<Rightarrow> V(ps_id step \<mapsto> step_plane step ops))"

definition good_step :: "array_stage list \<Rightarrow> planes \<Rightarrow> pass_step \<Rightarrow> bool" where
  "good_step stages V step \<longleftrightarrow> shape_ok (ps_shape step) \<and> ps_id step \<notin> dom V \<and> set (ps_args step) \<subseteq> dom V \<and> ps_release step = [] \<and>
     (\<exists>ops. pass_operands stages step V = Inr ops \<and> pass_op_ok (ps_op step) (ps_imm step) (length ops) \<and> (\<forall>g \<in> set ops. plane_of (ps_shape step) g))"

fun good_steps :: "array_stage list \<Rightarrow> planes \<Rightarrow> pass_step list \<Rightarrow> bool" where
  "good_steps stages V [] \<longleftrightarrow> True"
| "good_steps stages V (s # ss) \<longleftrightarrow> good_step stages V s \<and> good_steps stages (full_step stages V s) ss"

lemma good_steps_append:
  "good_steps stages V (xs @ ys) \<longleftrightarrow> good_steps stages V xs \<and> good_steps stages (foldl (full_step stages) V xs) ys"
  by (induction xs arbitrary: V) auto

lemma full_step_eq: "pass_operands stages step V = Inr ops \<Longrightarrow> full_step stages V step = V(ps_id step \<mapsto> step_plane step ops)"
  by (simp add: full_step_def)

text \<open>What an emission has computed so far.\<close>

definition emitted :: "array_stage list \<Rightarrow> emission \<Rightarrow> planes \<Rightarrow> bool" where
  "emitted stages st V \<longleftrightarrow> good_steps stages Map.empty (em_steps st) \<and> V = foldl (full_step stages) Map.empty (em_steps st) \<and>
     map ps_id (em_steps st) = map (\<lambda>i. ''p'' @ zfill 3 i) [0..<length (em_steps st)] \<and> dom V = ps_id ` set (em_steps st) \<and>
     (\<forall>g \<in> ran V. grid_ok g)"

lemma emitted_start: "emitted stages no_passes Map.empty"
  by (simp add: emitted_def no_passes_def)

lemma emit_pass_emitted:
  assumes em: "emitted stages st V" and e: "emit_pass shape o' args gather imm st = Inr (st', name)"
    and step: "step = \<lparr>ps_id = name, ps_shape = shape, ps_op = o', ps_args = args, ps_gather = gather, ps_imm = imm, ps_release = []\<rparr>"
    and ops: "pass_operands stages step V = Inr ops" "pass_op_ok o' imm (length ops)" "\<forall>g \<in> set ops. plane_of shape g"
    and shape: "shape_ok shape" and args: "set args \<subseteq> dom V"
  shows "emitted stages st' (V(name \<mapsto> pass_plane shape o' imm ops))" "name \<notin> dom V"
proof -
  have st': "em_steps st' = em_steps st @ [step]" and name: "name = ''p'' @ zfill 3 (length (em_steps st))"
    using e step by (auto simp: emit_pass_def Let_def res_simps split: if_splits)
  have ids: "set (map ps_id (em_steps st)) = (\<lambda>i. ''p'' @ zfill 3 i) ` {0..<length (em_steps st)}"
    using em unfolding emitted_def by (metis atLeastLessThan_upt list.set_map)
  have "dom V = set (map ps_id (em_steps st))" using em unfolding emitted_def list.set_map by blast
  then show new: "name \<notin> dom V" unfolding ids name by auto
  have sid: "ps_id step = name" "ps_shape step = shape" "ps_args step = args" "ps_release step = []" using step by simp_all
  have good: "good_step stages V step" using shape new args ops step unfolding good_step_def by simp
  have full: "full_step stages V step = V(name \<mapsto> pass_plane shape o' imm ops)"
    using full_step_eq [OF ops(1)] step by (simp add: step_plane_def)
  have "ran (V(name \<mapsto> pass_plane shape o' imm ops)) \<subseteq> insert (pass_plane shape o' imm ops) (ran V)" by (auto simp: ran_def)
  moreover have "grid_ok (pass_plane shape o' imm ops)" using pass_plane_of [OF shape] by (simp add: plane_of_def)
  ultimately have "\<forall>g \<in> ran (V(name \<mapsto> pass_plane shape o' imm ops)). grid_ok g" using em unfolding emitted_def by blast
  then show "emitted stages st' (V(name \<mapsto> pass_plane shape o' imm ops))"
    using em good full name sid unfolding emitted_def st' by (auto simp: good_steps_append)
qed

text \<open>A node references a plane whose words are the values the interpreter has for it.\<close>

definition refs_rel :: "coord \<Rightarrow> planes \<Rightarrow> refs \<Rightarrow> (nat \<Rightarrow> nat \<Rightarrow> string \<rightharpoonup> int) \<Rightarrow> bool" where
  "refs_rel shape V refs vals \<longleftrightarrow> (\<forall>r c. dom (vals r c) = dom refs \<and> words_map (vals r c)) \<and>
     (\<forall>x ref. refs x = Some ref \<longrightarrow> V ref = Some (plane shape (\<lambda>r c. the (vals r c x))))"

lemma plane_cong: "(\<And>r c. r < nat (fst shape) \<Longrightarrow> c < nat (snd shape) \<Longrightarrow> f r c = g r c) \<Longrightarrow> plane shape f = plane shape g"
  unfolding plane_def by (auto intro: grid_list_cong)

lemma plane_cell:
  assumes "r < nat (fst shape)" "c < nat (snd shape)"
  shows "g_words (plane shape f) ! (r * nat (snd shape) + c) = f r c"
  using nth_grid_list [OF assms] by (simp add: plane_def)

lemma pass_plane_planes:
  "pass_plane shape o' imm (map (plane shape) fs) = plane shape (\<lambda>r c. pass_word o' imm (map (\<lambda>f. f r c) fs))"
  unfolding pass_plane_def by (rule plane_cong) (simp add: cell_words_def plane_cell comp_def)

lemma apply_op_loaded: "o' \<noteq> OpLoad \<Longrightarrow> apply_op o' imm args l = apply_op o' imm args l'"
  by (cases o') auto

lemma vals_range:
  assumes "words_map m" "m x = Some v"
  shows "0 \<le> v \<and> v < 2 ^ 32"
  using assms by (auto simp: words_map_def)

text \<open>One node: the pass on the operands' planes is the plane of the node's values.\<close>

definition loads_value :: "coord \<Rightarrow> (nat \<Rightarrow> nat \<Rightarrow> string \<Rightarrow> int res) \<Rightarrow> node \<Rightarrow> grid list \<Rightarrow> bool" where
  "loads_value shape load n ops \<longleftrightarrow> (\<exists>L. ops = [plane shape L] \<and> (\<forall>r c. load r c (nview n) = Inr (L r c) \<and> 0 \<le> L r c \<and> L r c < 2 ^ 32))"

lemma node_pass_value:
  assumes rel: "refs_rel shape V refs vals" and n: "node_ok (dom refs) n" and new: "name \<notin> dom V"
    and ops: "if nop n = OpLoad then loads_value shape load n ops else mapM (mget V) (map (\<lambda>a. the (refs a)) (nargs n)) = Inr ops"
  shows "\<exists>vals'. (\<forall>r c. eval_node (load r c) (vals r c) n = Inr (vals' r c)) \<and>
    refs_rel shape (V(name \<mapsto> pass_plane shape (nop n) (array_imm n) ops)) (refs(nid n \<mapsto> name)) vals'"
proof -
  have imm: "imm_of (array_imm n) = nimm n \<or> \<not> has_imm (nop n)" by (simp add: imm_of_def array_imm_def)
  have noimm: "apply_op (nop n) i args l = apply_op (nop n) i' args l" if "\<not> has_imm (nop n)" for i i' args l
    using that by (cases "nop n") (auto simp: has_imm_def)
  have args: "set (nargs n) \<subseteq> dom refs" using n by (simp add: node_ok_def)
  have dom: "dom (vals r c) = dom refs" "words_map (vals r c)" for r c using rel by (auto simp: refs_rel_def)
  have "\<exists>w. (\<forall>r c. eval_node (load r c) (vals r c) n = Inr ((vals r c)(nid n \<mapsto> take_bit 32 (w r c)))) \<and>
      pass_plane shape (nop n) (array_imm n) ops = plane shape (\<lambda>r c. take_bit 32 (w r c))"
  proof (cases "nop n = OpLoad")
    case True
    then obtain L where L: "ops = [plane shape L]" "\<And>r c. load r c (nview n) = Inr (L r c) \<and> 0 \<le> L r c \<and> L r c < 2 ^ 32"
      using ops by (auto simp: loads_value_def)
    have "nargs n = []" using n True by (simp add: node_ok_def)
    then have "eval_node (load r c) (vals r c) n = Inr ((vals r c)(nid n \<mapsto> take_bit 32 (L r c)))" for r c
      using L(2) True by (simp add: eval_node_def)
    moreover have "pass_plane shape (nop n) (array_imm n) ops = plane shape (\<lambda>r c. take_bit 32 (L r c))"
      using pass_plane_planes [of shape OpLoad "array_imm n" "[L]"] L(1) True by (simp add: pass_word_def)
    ultimately show ?thesis by blast
  next
    case False
    let ?fs = "map (\<lambda>a r c. the (vals r c a)) (nargs n)"
    have "mapM (mget V) (map (\<lambda>a. the (refs a)) (nargs n)) = Inr (map (\<lambda>a. plane shape (\<lambda>r c. the (vals r c a))) (nargs n))"
      unfolding mapM_map using args rel by (intro mapM_eq_map) (auto simp: refs_rel_def)
    then have o: "ops = map (plane shape) ?fs" using ops False by simp
    define w where "w r c = apply_op (nop n) (nimm n) (map (\<lambda>x. the (vals r c x)) (nargs n)) 0" for r c
    have "mapM (mget (vals r c)) (nargs n) = Inr (map (\<lambda>x. the (vals r c x)) (nargs n))" for r c
      using args dom(1) by (intro mapM_mget_the) simp
    then have "eval_node (load r c) (vals r c) n = Inr ((vals r c)(nid n \<mapsto> take_bit 32 (w r c)))" for r c
      using False by (simp add: eval_node_def w_def)
    moreover have "pass_plane shape (nop n) (array_imm n) ops = plane shape (\<lambda>r c. take_bit 32 (w r c))"
    proof -
      have "apply_op (nop n) (imm_of (array_imm n)) args (args ! 0) = apply_op (nop n) (nimm n) args 0" for args
        using apply_op_loaded [OF False, of "nimm n" args "args ! 0" 0] noimm [of "imm_of (array_imm n)" args "args ! 0" "nimm n"] imm by auto
      then show ?thesis unfolding o pass_plane_planes pass_word_def w_def by (simp add: comp_def)
    qed
    ultimately show ?thesis by blast
  qed
  then obtain w where w: "\<And>r c. eval_node (load r c) (vals r c) n = Inr ((vals r c)(nid n \<mapsto> take_bit 32 (w r c)))"
    "pass_plane shape (nop n) (array_imm n) ops = plane shape (\<lambda>r c. take_bit 32 (w r c))" by blast
  have old: "refs x = Some ref \<Longrightarrow> ref \<noteq> name" for x ref using rel new by (auto simp: refs_rel_def)
  have "refs_rel shape (V(name \<mapsto> plane shape (\<lambda>r c. take_bit 32 (w r c)))) (refs(nid n \<mapsto> name)) (\<lambda>r c. (vals r c)(nid n \<mapsto> take_bit 32 (w r c)))"
    using rel dom old unfolding refs_rel_def by auto
  then show ?thesis using w by (intro exI [of _ "\<lambda>r c. (vals r c)(nid n \<mapsto> take_bit 32 (w r c))"]) simp
qed

section \<open>The nodes of a map\<close>

lemma pass_op_node:
  assumes "node_ok seen n" "length ops = (if nop n = OpLoad then 1 else length (nargs n))"
  shows "pass_op_ok (nop n) (array_imm n) (length ops)"
  using assms by (auto simp: pass_op_ok_def node_ok_def array_imm_def)

lemma emitted_plane_of:
  assumes "emitted stages st V" "V ref = Some (plane shape f)"
  shows "plane_of shape (plane shape f)"
  using assms ranI [of V ref] by (auto simp: emitted_def plane_of_def plane_def)

lemma refs_operands:
  assumes em: "emitted stages st V" and rel: "refs_rel shape V refs vals" and args: "set as \<subseteq> dom refs"
  shows "\<exists>ops. mapM (mget V) (map (\<lambda>a. the (refs a)) as) = Inr ops \<and> length ops = length as \<and> (\<forall>g \<in> set ops. plane_of shape g) \<and>
    mapM (mget refs) as = Inr (map (\<lambda>a. the (refs a)) as) \<and> (\<lambda>a. the (refs a)) ` set as \<subseteq> dom V"
proof -
  have V: "\<exists>f. V (the (refs a)) = Some (plane shape f)" if "a \<in> set as" for a
    using rel args that unfolding refs_rel_def by (metis domD option.sel subsetD)
  let ?ops = "map (\<lambda>a. the (V (the (refs a)))) as"
  have "mapM (mget V) (map (\<lambda>a. the (refs a)) as) = Inr ?ops"
    unfolding mapM_map using V by (intro mapM_eq_map) (auto simp: mget_def dest!: V)
  moreover have "\<forall>g \<in> set ?ops. plane_of shape g"
  proof
    fix g assume "g \<in> set ?ops"
    then obtain a where "a \<in> set as" "g = the (V (the (refs a)))" by auto
    with V [of a] obtain f where "V (the (refs a)) = Some (plane shape f)" "g = plane shape f" by auto
    then show "plane_of shape g" using emitted_plane_of [OF em] by blast
  qed
  moreover have "(\<lambda>a. the (refs a)) ` set as \<subseteq> dom V" using V by fastforce
  ultimately show ?thesis using mapM_mget_the [OF args] by auto
qed

lemma map_le_upd: "name \<notin> dom V \<Longrightarrow> V \<subseteq>\<^sub>m V(name \<mapsto> g)"
  by (auto simp: map_le_def)

text \<open>
  Emission of one node, for kernels and post maps: the caller shows which planes a load reads.
\<close>

lemma emit_node_emitted:
  assumes em: "emitted stages st V" and rel: "refs_rel shape V refs vals" and n: "node_ok (dom refs) n" and sh: "shape_ok shape"
    and e: "emit_pass shape (nop n) args gather (array_imm n) st = Inr (st', name)"
    and step: "step = \<lparr>ps_id = name, ps_shape = shape, ps_op = nop n, ps_args = args, ps_gather = gather, ps_imm = array_imm n, ps_release = []\<rparr>"
    and load: "nop n = OpLoad \<Longrightarrow> \<exists>ops. pass_operands stages step V = Inr ops \<and> loads_value shape load n ops \<and> set args \<subseteq> dom V"
    and other: "nop n \<noteq> OpLoad \<Longrightarrow> gather = None \<and> mapM (mget refs) (nargs n) = Inr args"
  shows "\<exists>V' vals'. emitted stages st' V' \<and> V \<subseteq>\<^sub>m V' \<and> (\<forall>r c. eval_node (load r c) (vals r c) n = Inr (vals' r c)) \<and>
    refs_rel shape V' (refs(nid n \<mapsto> name)) vals'"
proof -
  have "\<exists>ops. pass_operands stages step V = Inr ops \<and> length ops = (if nop n = OpLoad then 1 else length (nargs n)) \<and> (\<forall>g \<in> set ops. plane_of shape g) \<and>
      set args \<subseteq> dom V \<and> (if nop n = OpLoad then loads_value shape load n ops else mapM (mget V) (map (\<lambda>a. the (refs a)) (nargs n)) = Inr ops)"
  proof (cases "nop n = OpLoad")
    case True
    then obtain ops where ops: "pass_operands stages step V = Inr ops" "loads_value shape load n ops" "set args \<subseteq> dom V" using load by blast
    then have "length ops = 1" "\<forall>g \<in> set ops. plane_of shape g" by (auto simp: loads_value_def intro!: plane_plane_of [OF sh])
    then show ?thesis using True ops by simp
  next
    case False
    have sub: "set (nargs n) \<subseteq> dom refs" using n by (simp add: node_ok_def)
    note o = refs_operands [OF em rel sub]
    then have "args = map (\<lambda>a. the (refs a)) (nargs n)" using other False by auto
    then show ?thesis using o other False step by (auto simp: pass_operands_def)
  qed
  then obtain ops where ops: "pass_operands stages step V = Inr ops" "length ops = (if nop n = OpLoad then 1 else length (nargs n))"
    "\<forall>g \<in> set ops. plane_of shape g" "set args \<subseteq> dom V"
    "if nop n = OpLoad then loads_value shape load n ops else mapM (mget V) (map (\<lambda>a. the (refs a)) (nargs n)) = Inr ops" by blast
  note em' = emit_pass_emitted [OF em e step ops(1) pass_op_node [OF n ops(2)] ops(3) sh ops(4)]
  obtain vals' where "\<forall>r c. eval_node (load r c) (vals r c) n = Inr (vals' r c)"
    "refs_rel shape (V(name \<mapsto> pass_plane shape (nop n) (array_imm n) ops)) (refs(nid n \<mapsto> name)) vals'"
    using node_pass_value [OF rel n em'(2) ops(5)] by blast
  then show ?thesis using em' map_le_upd [OF em'(2)] by blast
qed

text \<open>All nodes of a map, given the step for one.\<close>

lemma emit_nodes_emitted:
  assumes one: "\<And>st refs V vals n st' refs'. n \<in> set ns \<Longrightarrow> emitted stages st V \<Longrightarrow> V0 \<subseteq>\<^sub>m V \<Longrightarrow> refs_rel shape V refs vals \<Longrightarrow> node_ok (dom refs) n \<Longrightarrow>
      em (st, refs) n = Inr (st', refs') \<Longrightarrow>
      \<exists>V' vals'. emitted stages st' V' \<and> V \<subseteq>\<^sub>m V' \<and> (\<forall>r c. eval_node (load r c) (vals r c) n = Inr (vals' r c)) \<and> refs_rel shape V' refs' vals' \<and>
        dom refs' = insert (nid n) (dom refs)"
    and "emitted stages st V" "V0 \<subseteq>\<^sub>m V" "refs_rel shape V refs vals" "nodes_ok (dom refs) ns" "foldM em (st, refs) ns = Inr (st', refs')"
  shows "\<exists>V' vals'. emitted stages st' V' \<and> V \<subseteq>\<^sub>m V' \<and> (\<forall>r c. foldM (eval_node (load r c)) (vals r c) ns = Inr (vals' r c)) \<and> refs_rel shape V' refs' vals'"
  using assms
proof (induction ns arbitrary: st V refs vals)
  case Nil
  then show ?case by auto
next
  case (Cons n ns)
  obtain st1 refs1 where e: "em (st, refs) n = Inr (st1, refs1)" "foldM em (st1, refs1) ns = Inr (st', refs')"
    using Cons.prems(6) by (auto simp: res_simps)
  have n: "node_ok (dom refs) n" "nodes_ok (insert (nid n) (dom refs)) ns" using Cons.prems(5) by simp_all
  obtain V1 vals1 where one: "emitted stages st1 V1" "V \<subseteq>\<^sub>m V1" "\<forall>r c. eval_node (load r c) (vals r c) n = Inr (vals1 r c)" "refs_rel shape V1 refs1 vals1"
    "dom refs1 = insert (nid n) (dom refs)"
    using Cons.prems(1) [OF _ Cons.prems(2,3,4) n(1) e(1)] by auto
  have "V0 \<subseteq>\<^sub>m V1" using Cons.prems(3) one(2) by (rule map_le_trans)
  then obtain V2 vals2 where "emitted stages st' V2" "V1 \<subseteq>\<^sub>m V2" "\<forall>r c. foldM (eval_node (load r c)) (vals1 r c) ns = Inr (vals2 r c)" "refs_rel shape V2 refs' vals2"
    using Cons.IH [OF _ one(1) _ one(4) _ e(2)] Cons.prems(1) n(2) one(5) by (metis list.set_intros(2))
  then show ?case using one map_le_trans [OF one(2)] by (intro exI [of _ V2] exI [of _ vals2]) auto
qed

lemma refs_rel_empty: "refs_rel shape V Map.empty (\<lambda>r c. Map.empty)"
  by (simp add: refs_rel_def)

text \<open>The result of a map is a plane of the values of \<open>eval_nodes\<close>.\<close>

lemma map_result:
  assumes "refs_rel shape V refs vals" "\<And>r c. foldM (eval_node (load r c)) Map.empty ns = Inr (vals r c)" "mget refs result = Inr ref"
  shows "\<exists>t. V ref = Some (plane shape t) \<and> (\<forall>r c. eval_nodes (load r c) ns result = Inr (t r c) \<and> 0 \<le> t r c \<and> t r c < 2 ^ 32)"
proof -
  have ref: "refs result = Some ref" using assms(3) by (simp add: res_simps)
  have "vals r c result = Some (the (vals r c result))" for r c
    using assms(1) ref unfolding refs_rel_def by (metis domI domIff option.collapse)
  then have "eval_nodes (load r c) ns result = Inr (the (vals r c result)) \<and> 0 \<le> the (vals r c result) \<and> the (vals r c result) < 2 ^ 32" for r c
    using assms(1,2) vals_range unfolding eval_nodes_def refs_rel_def by (metis mget_Some rbind_simps(2))
  moreover have "V ref = Some (plane shape (\<lambda>r c. the (vals r c result)))" using assms(1) ref by (simp add: refs_rel_def)
  ultimately show ?thesis by blast
qed

section \<open>The terms of a kernel\<close>

lemma ref_sample_eq:
  assumes "map_of (as_views s) vname = Some v" "gv_input v < length inputs"
  shows "ref_sample s inputs row col k vname = sample (inputs ! gv_input v)
    (fst (gv_offset v) + row * fst (gv_row v) + col * fst (gv_column v) + k * fst (gv_step v))
    (snd (gv_offset v) + row * snd (gv_row v) + col * snd (gv_column v) + k * snd (gv_step v)) (as_boundary s)"
  using assms by (cases "as_boundary s") (simp_all add: ref_sample_def sample_def dget_def Let_def)

lemma gather_value:
  assumes v: "map_of (as_views s) vname = Some v" "gv_input v < length inputs" and g: "grid_ok (inputs ! gv_input v)"
  shows "\<exists>L. gathered s v (inputs ! gv_input v) k shape = Inr (plane shape L) \<and>
    (\<forall>r c. ref_sample s inputs (int r) (int c) k vname = Inr (L r c) \<and> 0 \<le> L r c \<and> L r c < 2 ^ 32)"
proof -
  define L where "L r c = projr (ref_sample s inputs (int r) (int c) k vname)" for r c
  have "\<exists>w. ref_sample s inputs (int r) (int c) k vname = Inr w \<and> 0 \<le> w \<and> w < 2 ^ 32" for r c
    unfolding ref_sample_eq [OF v] by (rule sample_word [OF g])
  then have L: "ref_sample s inputs (int r) (int c) k vname = Inr (L r c) \<and> 0 \<le> L r c \<and> L r c < 2 ^ 32" for r c
    unfolding L_def by (metis sum.sel(2))
  have "gathered s v (inputs ! gv_input v) k shape = Inr \<lparr>g_rows = fst shape, g_columns = snd shape,
      g_words = map (\<lambda>(r, c). L r c) (grid_list (nat (fst shape)) (nat (snd shape)) Pair)\<rparr>"
    using L unfolding gathered_def ref_sample_eq [OF v]
    by (subst mapM_eq_map [where g = "\<lambda>(r, c). L r c"]) (auto simp: case_prod_beta)
  moreover have "map (\<lambda>(r, c). L r c) (grid_list (nat (fst shape)) (nat (snd shape)) Pair) = grid_list (nat (fst shape)) (nat (snd shape)) L"
    by (simp add: grid_list_def map_concat comp_def)
  ultimately show ?thesis using L by (auto simp: plane_def)
qed

text \<open>The planes of the finished stages are the interpreter's outputs.\<close>

definition results_rel :: "planes \<Rightarrow> refs \<Rightarrow> planes \<Rightarrow> bool" where
  "results_rel V results outputs \<longleftrightarrow> dom results = dom outputs \<and> (\<forall>n ref. results n = Some ref \<longrightarrow> V ref = outputs n \<and> ref \<in> dom V)"

lemma results_rel_mono: "results_rel V results outputs \<Longrightarrow> V \<subseteq>\<^sub>m V' \<Longrightarrow> results_rel V' results outputs"
  unfolding results_rel_def map_le_def by (metis domIff)

definition stage_input :: "planes \<Rightarrow> string + grid \<Rightarrow> grid res" where
  "stage_input outputs inp = (case inp of Inl producer \<Rightarrow> mget outputs producer | Inr g \<Rightarrow> Inr g)"

text \<open>What the passes of one stage are emitted in.\<close>

definition stage_ready :: "array_stage list \<Rightarrow> array_stage \<Rightarrow> refs \<Rightarrow> planes \<Rightarrow> planes \<Rightarrow> grid list \<Rightarrow> bool" where
  "stage_ready stages s results outputs V inputs \<longleftrightarrow> stage_ok s \<and> stage_at stages (as_name s) = Inr s \<and> results_rel V results outputs \<and>
     mapM (stage_input outputs) (as_inputs s) = Inr inputs \<and> (\<forall>g \<in> set inputs. grid_ok g)"

lemma stage_ready_mono: "stage_ready stages s results outputs V inputs \<Longrightarrow> V \<subseteq>\<^sub>m V' \<Longrightarrow> stage_ready stages s results outputs V' inputs"
  unfolding stage_ready_def using results_rel_mono by blast

lemma kernel_load:
  assumes ready: "stage_ready stages s results outputs V inputs" and n: "n \<in> set (as_nodes s)" "nop n = OpLoad"
    and e: "emit_kernel_node s results (int k) (st, refs) n = Inr (st', refs')"
  shows "\<exists>args name ops. emit_pass (as_shape s) OpLoad args (Some (as_name s, nview n, int k)) None st = Inr (st', name) \<and> refs' = refs(nid n \<mapsto> name) \<and>
    pass_operands stages \<lparr>ps_id = name, ps_shape = as_shape s, ps_op = OpLoad, ps_args = args, ps_gather = Some (as_name s, nview n, int k), ps_imm = None, ps_release = []\<rparr> V = Inr ops \<and>
    loads_value (as_shape s) (\<lambda>r c. ref_sample s inputs (int r) (int c) (int k)) n ops \<and> set args \<subseteq> dom V"
proof -
  obtain v inp args name where e': "map_of (as_views s) (nview n) = Some v" "py_nth (as_inputs s) (int (gv_input v)) = Inr inp"
    "(case inp of Inl producer \<Rightarrow> rbind (mget results producer) (\<lambda>r. Inr [r]) | Inr _ \<Rightarrow> Inr []) = Inr args"
    "emit_pass (as_shape s) OpLoad args (Some (as_name s, nview n, int k)) None st = Inr (st', name)" "refs' = refs(nid n \<mapsto> name)"
    using e n(2) by (auto simp: emit_kernel_node_def res_simps)
  have views: "gv_input v < length (as_inputs s)" "stage_at stages (as_name s) = Inr s"
    using ready map_of_SomeD [OF e'(1)] by (auto simp: stage_ready_def stage_ok_def)
  have inp: "inp = as_inputs s ! gv_input v" using e'(2) views by (simp add: py_nth_def)
  have ins: "mapM (stage_input outputs) (as_inputs s) = Inr inputs" using ready by (simp add: stage_ready_def)
  have g: "stage_input outputs inp = Inr (inputs ! gv_input v)" "gv_input v < length inputs"
    using mapM_Inr_nth [OF ins views(1)] mapM_Inr_length [OF ins] views(1) inp by auto
  then have ok: "grid_ok (inputs ! gv_input v)" using ready by (simp add: stage_ready_def)
  obtain L where L: "gathered s v (inputs ! gv_input v) (int k) (as_shape s) = Inr (plane (as_shape s) L)"
    "\<And>r c. ref_sample s inputs (int r) (int c) (int k) (nview n) = Inr (L r c) \<and> 0 \<le> L r c \<and> L r c < 2 ^ 32"
    using gather_value [OF e'(1) g(2) ok] by blast
  have rel: "results_rel V results outputs" using ready by (simp add: stage_ready_def)
  have args: "(case inp of Inl _ \<Rightarrow> rbind (py_nth args 0) (mget V) | Inr g \<Rightarrow> Inr g) = Inr (inputs ! gv_input v) \<and> set args \<subseteq> dom V"
  proof (cases inp)
    case (Inl producer)
    then obtain ref where ref: "results producer = Some ref" "args = [ref]" using e'(3) by (auto simp: res_simps)
    then have "V ref = outputs producer" "ref \<in> dom V" using rel by (auto simp: results_rel_def)
    then show ?thesis using g(1) Inl ref(2) by (auto simp: stage_input_def res_simps py_nth_def)
  next
    case (Inr x)
    then show ?thesis using e'(3) g(1) by (simp add: stage_input_def)
  qed
  have "loads_value (as_shape s) (\<lambda>r c. ref_sample s inputs (int r) (int c) (int k)) n [plane (as_shape s) L]"
    using L(2) by (auto simp: loads_value_def)
  moreover have "pass_operands stages \<lparr>ps_id = name, ps_shape = as_shape s, ps_op = OpLoad, ps_args = args, ps_gather = Some (as_name s, nview n, int k),
      ps_imm = None, ps_release = []\<rparr> V = Inr [plane (as_shape s) L]"
    unfolding pass_operands_def using e'(1,2) args L(1) views(2) by (simp add: dget_def cong: sum.case_cong)
  ultimately show ?thesis using e'(4,5) args by blast
qed

lemma emit_kernel_node_emitted:
  assumes em: "emitted stages st V" and ready: "stage_ready stages s results outputs V inputs" and rel: "refs_rel (as_shape s) V refs vals"
    and n: "n \<in> set (as_nodes s)" "node_ok (dom refs) n" and e: "emit_kernel_node s results (int k) (st, refs) n = Inr (st', refs')"
  shows "\<exists>V' vals'. emitted stages st' V' \<and> V \<subseteq>\<^sub>m V' \<and>
    (\<forall>r c. eval_node (ref_sample s inputs (int r) (int c) (int k)) (vals r c) n = Inr (vals' r c)) \<and>
    refs_rel (as_shape s) V' refs' vals' \<and> dom refs' = insert (nid n) (dom refs)"
proof -
  have sh: "shape_ok (as_shape s)" using ready by (simp add: stage_ready_def stage_ok_def)
  show ?thesis
  proof (cases "nop n = OpLoad")
    case True
    then have imm: "array_imm n = None" by (simp add: array_imm_def has_imm_def)
    from kernel_load [OF ready n(1) True e] obtain args name ops where
      k: "emit_pass (as_shape s) (nop n) args (Some (as_name s, nview n, int k)) (array_imm n) st = Inr (st', name)" "refs' = refs(nid n \<mapsto> name)"
      "pass_operands stages \<lparr>ps_id = name, ps_shape = as_shape s, ps_op = nop n, ps_args = args, ps_gather = Some (as_name s, nview n, int k), ps_imm = array_imm n, ps_release = []\<rparr> V = Inr ops"
      "loads_value (as_shape s) (\<lambda>r c. ref_sample s inputs (int r) (int c) (int k)) n ops" "set args \<subseteq> dom V"
      unfolding True imm by blast
    show ?thesis using emit_node_emitted [OF em rel n(2) sh k(1) refl, of "\<lambda>r c. ref_sample s inputs (int r) (int c) (int k)"] k True by auto
  next
    case False
    then obtain args name where k: "mapM (mget refs) (nargs n) = Inr args" "emit_pass (as_shape s) (nop n) args None (array_imm n) st = Inr (st', name)" "refs' = refs(nid n \<mapsto> name)"
      using e by (auto simp: emit_kernel_node_def res_simps)
    show ?thesis using emit_node_emitted [OF em rel n(2) sh k(2) refl, of "\<lambda>r c. ref_sample s inputs (int r) (int c) (int k)"] k False by auto
  qed
qed

definition word_fun :: "(nat \<Rightarrow> nat \<Rightarrow> int) \<Rightarrow> bool" where
  "word_fun A \<longleftrightarrow> (\<forall>r c. 0 \<le> A r c \<and> A r c < 2 ^ 32)"

definition acc_rel :: "coord \<Rightarrow> planes \<Rightarrow> string option \<Rightarrow> (nat \<Rightarrow> nat \<Rightarrow> int) \<Rightarrow> bool" where
  "acc_rel shape V acc A \<longleftrightarrow> word_fun A \<and> (case acc of None \<Rightarrow> A = (\<lambda>r c. 0) | Some ref \<Rightarrow> V ref = Some (plane shape A))"

lemma fold_pass_word:
  assumes "0 \<le> a" "a < 2 ^ 32" "0 \<le> t" "t < 2 ^ 32"
  shows "pass_word (fold_pass_op f) None [a, t] = fold_step f a t" "fold_step f 0 t = t" "pass_op_ok (fold_pass_op f) None 2"
  using assms by (auto simp: pass_word_def fold_pass_op_def fold_step_def pass_op_ok_def has_imm_def take_bit_int_eq_self max_def split: fold_op.splits)

lemma emit_fold_emitted:
  assumes em: "emitted stages st V" and sh: "shape_ok shape" and V: "V a = Some (plane shape A)" "V t = Some (plane shape T)" "word_fun A" "word_fun T"
    and e: "emit_pass shape (fold_pass_op f) [a, t] None None st = Inr (st', name)"
  shows "\<exists>V'. emitted stages st' V' \<and> V \<subseteq>\<^sub>m V' \<and> V' name = Some (plane shape (\<lambda>r c. fold_step f (A r c) (T r c)))"
proof -
  let ?ops = "map (plane shape) [A, T]"
  let ?step = "\<lparr>ps_id = name, ps_shape = shape, ps_op = fold_pass_op f, ps_args = [a, t], ps_gather = None, ps_imm = None, ps_release = []\<rparr>"
  have ops: "pass_operands stages ?step V = Inr ?ops" using V by (simp add: pass_operands_def)
  have "pass_op_ok (fold_pass_op f) None (length ?ops)" "\<forall>g \<in> set ?ops. plane_of shape g"
    using fold_pass_word(3) [of 0 0] V by (auto simp: numeral_2_eq_2 word_fun_def intro!: plane_plane_of [OF sh])
  note pre = this
  have args: "set [a, t] \<subseteq> dom V" using V by auto
  note em' = emit_pass_emitted [OF em e refl ops pre sh args]
  have p: "pass_plane shape (fold_pass_op f) None ?ops = plane shape (\<lambda>r c. fold_step f (A r c) (T r c))"
    unfolding pass_plane_planes using V(3,4) fold_pass_word(1) by (simp add: word_fun_def)
  show ?thesis using em'(1) map_le_upd [OF em'(2)] unfolding p by (intro exI [of _ "V(name \<mapsto> plane shape (\<lambda>r c. fold_step f (A r c) (T r c)))"]) simp
qed

lemma emit_term_emitted:
  assumes em: "emitted stages st V" and ready: "stage_ready stages s results outputs V inputs" and acc: "acc_rel (as_shape s) V acc A"
    and e: "emit_term s results (st, acc) k = Inr (st', acc')"
  shows "\<exists>V' A'. emitted stages st' V' \<and> V \<subseteq>\<^sub>m V' \<and> acc_rel (as_shape s) V' acc' A' \<and> acc' \<noteq> None \<and>
    (\<forall>r c. rbind (eval_nodes (ref_sample s inputs (int r) (int c) (int k)) (as_nodes s) (as_result s)) (\<lambda>t. Inr (fold_step (as_fold s) (A r c) t)) = Inr (A' r c))"
proof -
  let ?load = "\<lambda>r c. ref_sample s inputs (int r) (int c) (int k)"
  have ok: "stage_ok s" using ready by (simp add: stage_ready_def)
  then have sh: "shape_ok (as_shape s)" and nodes: "nodes_ok {} (as_nodes s)" by (simp_all add: stage_ok_def map_ok_def)
  obtain st1 refs t where f: "foldM (emit_kernel_node s results (int k)) (st, Map.empty) (as_nodes s) = Inr (st1, refs)" "mget refs (as_result s) = Inr t"
    and last: "(case acc of None \<Rightarrow> Inr (st1, Some t) | Some a \<Rightarrow> rbind (emit_pass (as_shape s) (fold_pass_op (as_fold s)) [a, t] None None st1) (\<lambda>(st'', r). Inr (st'', Some r)))
       = Inr (st', acc')"
    using e by (auto simp: emit_term_def res_simps)
  have "\<exists>V1 vals. emitted stages st1 V1 \<and> V \<subseteq>\<^sub>m V1 \<and> (\<forall>r c. foldM (eval_node (?load r c)) Map.empty (as_nodes s) = Inr (vals r c)) \<and> refs_rel (as_shape s) V1 refs vals"
  proof (rule emit_nodes_emitted [OF _ em map_le_refl refs_rel_empty _ f(1)])
    fix st refs V' vals n st' refs'
    assume "n \<in> set (as_nodes s)" "emitted stages st V'" "V \<subseteq>\<^sub>m V'" "refs_rel (as_shape s) V' refs vals" "node_ok (dom refs) n"
      "emit_kernel_node s results (int k) (st, refs) n = Inr (st', refs')"
    then show "\<exists>V'' vals'. emitted stages st' V'' \<and> V' \<subseteq>\<^sub>m V'' \<and> (\<forall>r c. eval_node (?load r c) (vals r c) n = Inr (vals' r c)) \<and>
        refs_rel (as_shape s) V'' refs' vals' \<and> dom refs' = insert (nid n) (dom refs)"
      using emit_kernel_node_emitted stage_ready_mono [OF ready] by blast
  qed (simp add: nodes)
  then obtain V1 vals where V1: "emitted stages st1 V1" "V \<subseteq>\<^sub>m V1" "\<And>r c. foldM (eval_node (?load r c)) Map.empty (as_nodes s) = Inr (vals r c)"
    "refs_rel (as_shape s) V1 refs vals" by blast
  obtain T where T: "V1 t = Some (plane (as_shape s) T)" "\<And>r c. eval_nodes (?load r c) (as_nodes s) (as_result s) = Inr (T r c) \<and> 0 \<le> T r c \<and> T r c < 2 ^ 32"
    using map_result [OF V1(4,3) f(2)] by blast
  have word: "word_fun A" "word_fun T" using acc T(2) by (auto simp: acc_rel_def word_fun_def)
  show ?thesis
  proof (cases acc)
    case None
    then have "A = (\<lambda>r c. 0)" "st' = st1" "acc' = Some t" using acc last by (auto simp: acc_rel_def)
    then show ?thesis using V1 T word fold_pass_word(2) [of 0] by (intro exI [of _ V1] exI [of _ T]) (simp add: acc_rel_def word_fun_def)
  next
    case (Some a)
    then obtain name where name: "emit_pass (as_shape s) (fold_pass_op (as_fold s)) [a, t] None None st1 = Inr (st', name)" "acc' = Some name"
      using last by (auto simp: res_simps)
    have "V a = Some (plane (as_shape s) A)" using acc Some by (simp add: acc_rel_def)
    then have "V1 a = Some (plane (as_shape s) A)" using V1(2) by (auto simp: map_le_def dom_def)
    then obtain V' where V': "emitted stages st' V'" "V1 \<subseteq>\<^sub>m V'" "V' name = Some (plane (as_shape s) (\<lambda>r c. fold_step (as_fold s) (A r c) (T r c)))"
      using emit_fold_emitted [OF V1(1) sh _ T(1) word name(1)] by blast
    have "word_fun (\<lambda>r c. fold_step (as_fold s) (A r c) (T r c))" using word fold_step_word by (simp add: word_fun_def)
    then show ?thesis using V' map_le_trans [OF V1(2) V'(2)] T(2) name(2)
      by (intro exI [of _ V'] exI [of _ "\<lambda>r c. fold_step (as_fold s) (A r c) (T r c)"]) (simp add: acc_rel_def)
  qed
qed

lemma emit_terms_emitted:
  assumes "emitted stages st V" "stage_ready stages s results outputs V inputs" "acc_rel (as_shape s) V acc A"
    "foldM (emit_term s results) (st, acc) ks = Inr (st', acc')"
  shows "\<exists>V' A'. emitted stages st' V' \<and> V \<subseteq>\<^sub>m V' \<and> acc_rel (as_shape s) V' acc' A' \<and> (ks \<noteq> [] \<longrightarrow> acc' \<noteq> None) \<and>
    (\<forall>r c. foldM (\<lambda>acc k. rbind (eval_nodes (ref_sample s inputs (int r) (int c) (int k)) (as_nodes s) (as_result s)) (\<lambda>t. Inr (fold_step (as_fold s) acc t))) (A r c) ks
       = Inr (A' r c))"
  using assms
proof (induction ks arbitrary: st V acc A)
  case Nil
  then show ?case by auto
next
  case (Cons k ks)
  obtain st1 acc1 where e: "emit_term s results (st, acc) k = Inr (st1, acc1)" "foldM (emit_term s results) (st1, acc1) ks = Inr (st', acc')"
    using Cons.prems(4) by (auto simp: res_simps)
  obtain V1 A1 where V1: "emitted stages st1 V1" "V \<subseteq>\<^sub>m V1" "acc_rel (as_shape s) V1 acc1 A1" "acc1 \<noteq> None"
    "\<And>r c. rbind (eval_nodes (ref_sample s inputs (int r) (int c) (int k)) (as_nodes s) (as_result s)) (\<lambda>t. Inr (fold_step (as_fold s) (A r c) t)) = Inr (A1 r c)"
    using emit_term_emitted [OF Cons.prems(1-3) e(1)] by blast
  note IH = Cons.IH [OF V1(1) stage_ready_mono [OF Cons.prems(2) V1(2)] V1(3) e(2)]
  then obtain V' A' where V': "emitted stages st' V'" "V1 \<subseteq>\<^sub>m V'" "acc_rel (as_shape s) V' acc' A'" "ks \<noteq> [] \<longrightarrow> acc' \<noteq> None"
    "\<And>r c. foldM (\<lambda>acc k. rbind (eval_nodes (ref_sample s inputs (int r) (int c) (int k)) (as_nodes s) (as_result s)) (\<lambda>t. Inr (fold_step (as_fold s) acc t))) (A1 r c) ks
       = Inr (A' r c)" by blast
  have "acc' \<noteq> None" using V'(4) V1(4) e(2) by (cases ks) auto
  then show ?case using V' V1(5) map_le_trans [OF V1(2) V'(2)] by (intro exI [of _ V'] exI [of _ A']) simp
qed

section \<open>Stages\<close>

lemma emit_post_emitted:
  assumes em: "emitted stages st V" and sh: "shape_ok (as_shape s)" and A: "V acc = Some (plane (as_shape s) A)" "word_fun A"
    and ok: "map_ok views nodes result"
    and e: "foldM (emit_post_node s acc) (st, Map.empty) nodes = Inr (st', refs)" "mget refs result = Inr ref"
  shows "\<exists>V' T. emitted stages st' V' \<and> V \<subseteq>\<^sub>m V' \<and> V' ref = Some (plane (as_shape s) T) \<and> (\<forall>r c. eval_nodes (\<lambda>_. Inr (A r c)) nodes result = Inr (T r c))"
proof -
  let ?load = "\<lambda>r c (_ :: string). (Inr (A r c) :: int res)"
  have one: "\<exists>V'' vals'. emitted stages st' V'' \<and> V' \<subseteq>\<^sub>m V'' \<and> (\<forall>r c. eval_node (?load r c) (vals r c) n = Inr (vals' r c)) \<and>
        refs_rel (as_shape s) V'' refs' vals' \<and> dom refs' = insert (nid n) (dom refs)"
    if a: "emitted stages st V'" "V \<subseteq>\<^sub>m V'" "refs_rel (as_shape s) V' refs vals" "node_ok (dom refs) n" "emit_post_node s acc (st, refs) n = Inr (st', refs')"
    for st refs V' vals n st' refs'
  proof -
    obtain args name where k: "(if nop n = OpLoad then Inr [acc] else mapM (mget refs) (nargs n)) = Inr args"
      "emit_pass (as_shape s) (nop n) args None (array_imm n) st = Inr (st', name)" "refs' = refs(nid n \<mapsto> name)"
      using a(5) by (auto simp: emit_post_node_def res_simps)
    have V': "V' acc = Some (plane (as_shape s) A)" using A(1) a(2) by (auto simp: map_le_def dom_def)
    have load: "\<exists>ops. pass_operands stages \<lparr>ps_id = name, ps_shape = as_shape s, ps_op = nop n, ps_args = args, ps_gather = None, ps_imm = array_imm n, ps_release = []\<rparr> V' = Inr ops \<and>
        loads_value (as_shape s) ?load n ops \<and> set args \<subseteq> dom V'" if "nop n = OpLoad"
      using that k(1) V' A(2) by (intro exI [of _ "[plane (as_shape s) A]"]) (auto simp: pass_operands_def loads_value_def word_fun_def)
    have other: "None = None \<and> mapM (mget refs) (nargs n) = Inr args" if "nop n \<noteq> OpLoad" using that k(1) by simp
    show ?thesis using emit_node_emitted [OF a(1,3,4) sh k(2) refl load other] k(3) by auto
  qed
  have "\<exists>V' vals. emitted stages st' V' \<and> V \<subseteq>\<^sub>m V' \<and> (\<forall>r c. foldM (eval_node (?load r c)) Map.empty nodes = Inr (vals r c)) \<and> refs_rel (as_shape s) V' refs vals"
    by (rule emit_nodes_emitted [OF one em map_le_refl refs_rel_empty _ e(1)]) (use ok in \<open>auto simp: map_ok_def\<close>)
  then obtain V' vals where V': "emitted stages st' V'" "V \<subseteq>\<^sub>m V'" "\<And>r c. foldM (eval_node (?load r c)) Map.empty nodes = Inr (vals r c)" "refs_rel (as_shape s) V' refs vals"
    by blast
  show ?thesis using map_result [OF V'(4,3) e(2)] V'(1,2) by blast
qed

lemma results_rel_upd:
  assumes "results_rel V results outputs" "V \<subseteq>\<^sub>m V'" "V' ref = Some g"
  shows "results_rel V' (results(name \<mapsto> ref)) (outputs(name \<mapsto> g))"
  using results_rel_mono [OF assms(1,2)] assms(3) by (auto simp: results_rel_def)

lemma stage_deps_iff: "n \<in> stage_deps s \<longleftrightarrow> Inl n \<in> set (as_inputs s)"
  by (auto simp: stage_deps_def split: sum.splits)

lemma stage_inputs_ready:
  assumes em: "emitted stages st V" and rel: "results_rel V results outputs" and ok: "stage_ok s" and deps: "stage_deps s \<subseteq> dom outputs"
  shows "\<exists>inputs. mapM (stage_input outputs) (as_inputs s) = Inr inputs \<and> (\<forall>g \<in> set inputs. grid_ok g)"
proof -
  have ran: "grid_ok g" if "outputs n = Some g" for n g
  proof -
    have "n \<in> dom results" using rel that by (auto simp: results_rel_def)
    then obtain ref where "results n = Some ref" by blast
    then have "V ref = Some g" using rel that by (simp add: results_rel_def)
    then show ?thesis using em ranI [of V ref g] by (auto simp: emitted_def)
  qed
  have "\<exists>g. stage_input outputs inp = Inr g" if "inp \<in> set (as_inputs s)" for inp
    using deps that stage_deps_iff [of _ s] by (cases inp) (auto simp: stage_input_def mget_def split: option.splits)
  then obtain inputs where ins: "mapM (stage_input outputs) (as_inputs s) = Inr inputs" using mapM_total [of "as_inputs s" "stage_input outputs"] by blast
  have "grid_ok (inputs ! i)" if i: "i < length inputs" for i
  proof -
    have len: "i < length (as_inputs s)" using i mapM_Inr_length [OF ins] by simp
    have "stage_input outputs (as_inputs s ! i) = Inr (inputs ! i)" using mapM_Inr_nth [OF ins len] .
    moreover have "as_inputs s ! i \<in> set (as_inputs s)" using len by simp
    ultimately show ?thesis using ok ran by (cases "as_inputs s ! i") (auto simp: stage_input_def stage_ok_def res_simps)
  qed
  then show ?thesis using ins by (auto simp: in_set_conv_nth)
qed

lemma emit_stage_emitted:
  assumes em: "emitted stages st V" and rel: "results_rel V results outputs"
    and s: "\<And>s. stage_at stages name = Inr s \<Longrightarrow> stage_ok s \<and> as_name s = name \<and> stage_deps s \<subseteq> dom outputs"
    and e: "emit_stage stages (st, results) name = Inr (st', results')"
  shows "\<exists>V' outputs'. emitted stages st' V' \<and> V \<subseteq>\<^sub>m V' \<and> ref_stage stages outputs name = Inr outputs' \<and> results_rel V' results' outputs' \<and>
    dom outputs' = insert name (dom outputs)"
proof -
  obtain s st1 acc r where e': "stage_at stages name = Inr s" "foldM (emit_term s results) (st, None) [0..<nat (as_extent s)] = Inr (st1, Some acc)"
    "(case as_post s of None \<Rightarrow> Inr (st1, acc) | Some (nodes, result) \<Rightarrow>
        rbind (foldM (emit_post_node s acc) (st1, Map.empty) nodes) (\<lambda>(st'', refs). rbind (mget refs result) (\<lambda>r. Inr (st'', r)))) = Inr (st', r)"
    "results' = results(name \<mapsto> r)"
    using e by (auto simp: emit_stage_def res_simps)
  have ok: "stage_ok s" "as_name s = name" "stage_deps s \<subseteq> dom outputs" using s [OF e'(1)] by auto
  obtain inputs where ins: "mapM (stage_input outputs) (as_inputs s) = Inr inputs" "\<forall>g \<in> set inputs. grid_ok g"
    using stage_inputs_ready [OF em rel ok(1,3)] by blast
  have ready: "stage_ready stages s results outputs V inputs" using ok rel ins e'(1) by (simp add: stage_ready_def)
  have "acc_rel (as_shape s) V None (\<lambda>r c. 0)" by (simp add: acc_rel_def word_fun_def)
  from emit_terms_emitted [OF em ready this e'(2)] obtain V1 A where V1: "emitted stages st1 V1" "V \<subseteq>\<^sub>m V1" "acc_rel (as_shape s) V1 (Some acc) A"
    "\<And>r c. foldM (\<lambda>acc k. rbind (eval_nodes (ref_sample s inputs (int r) (int c) (int k)) (as_nodes s) (as_result s)) (\<lambda>t. Inr (fold_step (as_fold s) acc t))) 0 [0..<nat (as_extent s)]
       = Inr (A r c)" by blast
  have A: "V1 acc = Some (plane (as_shape s) A)" "word_fun A" using V1(3) by (auto simp: acc_rel_def)
  have sh: "shape_ok (as_shape s)" using ok(1) by (simp add: stage_ok_def)
  have "\<exists>V' T. emitted stages st' V' \<and> V1 \<subseteq>\<^sub>m V' \<and> V' r = Some (plane (as_shape s) T) \<and> (\<forall>i c. ref_cell s inputs i c = Inr (T i c))"
  proof (cases "as_post s")
    case None
    then show ?thesis using e'(3) V1 A by (intro exI [of _ V1] exI [of _ A]) (simp add: ref_cell_def)
  next
    case (Some p)
    obtain nodes result where p: "p = (nodes, result)" by force
    obtain refs where f: "foldM (emit_post_node s acc) (st1, Map.empty) nodes = Inr (st', refs)" "mget refs result = Inr r"
      using e'(3) Some p by (auto simp: res_simps)
    have "map_ok {''reduced''} nodes result" using ok(1) Some p by (simp add: stage_ok_def)
    from emit_post_emitted [OF V1(1) sh A this f] show ?thesis using V1(4) Some p by (simp add: ref_cell_def)
  qed
  then obtain V' T where V': "emitted stages st' V'" "V1 \<subseteq>\<^sub>m V'" "V' r = Some (plane (as_shape s) T)" "\<And>i c. ref_cell s inputs i c = Inr (T i c)" by blast
  have "mapM (\<lambda>(r, c). ref_cell s inputs r c) (grid_list (nat (fst (as_shape s))) (nat (snd (as_shape s))) Pair)
      = Inr (map (\<lambda>(r, c). T r c) (grid_list (nat (fst (as_shape s))) (nat (snd (as_shape s))) Pair))"
    using V'(4) by (intro mapM_eq_map) auto
  moreover have "map (\<lambda>(r, c). T r c) (grid_list h w Pair) = grid_list h w T" for h w by (simp add: grid_list_def map_concat comp_def)
  ultimately have "ref_stage stages outputs name = Inr (outputs(name \<mapsto> plane (as_shape s) T))"
    using e'(1) ins(1) unfolding ref_stage_def stage_input_def [abs_def] by (simp add: plane_def)
  then show ?thesis using V' e'(4) results_rel_upd [OF rel map_le_trans [OF V1(2) V'(2)] V'(3)] map_le_trans [OF V1(2) V'(2)] by fastforce
qed

lemma emit_stages_emitted:
  assumes "emitted stages st V" "results_rel V results outputs"
    and ok: "\<And>n s. n \<in> set names \<Longrightarrow> stage_at stages n = Inr s \<Longrightarrow> stage_ok s \<and> as_name s = n"
    and deps: "\<forall>i < length names. deps_of stages (names ! i) \<subseteq> dom outputs \<union> set (take i names)"
    and "foldM (emit_stage stages) (st, results) names = Inr (st', results')"
  shows "\<exists>V' outputs'. emitted stages st' V' \<and> foldM (ref_stage stages) outputs names = Inr outputs' \<and> results_rel V' results' outputs'"
  using assms
proof (induction names arbitrary: st V results outputs)
  case Nil
  then show ?case by auto
next
  case (Cons n names)
  obtain st1 results1 where e: "emit_stage stages (st, results) n = Inr (st1, results1)" "foldM (emit_stage stages) (st1, results1) names = Inr (st', results')"
    using Cons.prems(5) by (auto simp: res_simps)
  have "stage_ok s \<and> as_name s = n \<and> stage_deps s \<subseteq> dom outputs" if "stage_at stages n = Inr s" for s
    using Cons.prems(3) [of n s] Cons.prems(4) [rule_format, of 0] that by (simp add: deps_of_def)
  from emit_stage_emitted [OF Cons.prems(1,2) this e(1)] obtain V1 outputs1 where
    V1: "emitted stages st1 V1" "ref_stage stages outputs n = Inr outputs1" "results_rel V1 results1 outputs1" "dom outputs1 = insert n (dom outputs)" by blast
  have "\<forall>i < length names. deps_of stages (names ! i) \<subseteq> dom outputs1 \<union> set (take i names)"
    using Cons.prems(4) V1(4) by (metis Suc_less_eq Un_insert_left Un_insert_right length_Cons list.simps(15) nth_Cons_Suc take_Suc_Cons)
  moreover have "stage_ok s \<and> as_name s = k" if "k \<in> set names" "stage_at stages k = Inr s" for k s using Cons.prems(3) [of k s] that by simp
  ultimately show ?case using Cons.IH [OF V1(1,3) _ _ e(2)] V1(2) by simp
qed

end
