(* ===== verification/Array_Correct.thy ===== *)
theory Array_Correct
  imports Array_Emission
begin

text \<open>
  The plan and its run. Passes are checked with zero planes and run with computed ones; both
  keep the same live planes, every live plane holds what the pass computed, and the planes of
  the outputs are never released. Together with the tiled execution of each pass, the run
  publishes the outputs of the whole-source interpreter.
\<close>

section \<open>Live planes\<close>

text \<open>The planner's zero planes have the shapes of the computed ones.\<close>

definition plan_rel :: "planes \<Rightarrow> planes \<Rightarrow> bool" where
  "plan_rel V Z \<longleftrightarrow> (\<forall>n z. Z n = Some z \<longrightarrow> grid_ok z \<and> (\<exists>g. V n = Some g \<and> g_rows z = g_rows g \<and> g_columns z = g_columns g))"

definition run_rel :: "planes \<Rightarrow> planes \<Rightarrow> planes \<Rightarrow> bool" where
  "run_rel V Z P \<longleftrightarrow> dom P = dom Z \<and> (\<forall>n \<in> dom P. P n = V n)"

lemma gathered_plane_of:
  assumes "gathered s v g k shape = Inr x" "grid_ok g" "shape_ok shape"
  shows "plane_of shape x"
proof -
  obtain ws where ws: "mapM (\<lambda>(r, c). sample g
              (fst (gv_offset v) + int r * fst (gv_row v) + int c * fst (gv_column v) + k * fst (gv_step v))
              (snd (gv_offset v) + int r * snd (gv_row v) + int c * snd (gv_column v) + k * snd (gv_step v)) (as_boundary s))
        (grid_list (nat (fst shape)) (nat (snd shape)) Pair) = Inr ws" "x = \<lparr>g_rows = fst shape, g_columns = snd shape, g_words = ws\<rparr>"
    using assms(1) by (auto simp: gathered_def res_simps)
  have "\<forall>w \<in> set ws. 0 \<le> w \<and> w < 2 ^ 32"
  proof (rule mapM_all [OF ws(1)])
    fix j w assume "(case j of (r, c) \<Rightarrow> sample g
              (fst (gv_offset v) + int r * fst (gv_row v) + int c * fst (gv_column v) + k * fst (gv_step v))
              (snd (gv_offset v) + int r * snd (gv_row v) + int c * snd (gv_column v) + k * snd (gv_step v)) (as_boundary s)) = Inr w"
    then obtain R C where "sample g R C (as_boundary s) = Inr w" by (auto split: prod.splits)
    then show "0 \<le> w \<and> w < 2 ^ 32" using sample_word [OF assms(2), of R C "as_boundary s"] by auto
  qed
  then show ?thesis using mapM_Inr_length [OF ws(1)] ws(2) assms(3) by (auto simp: plane_of_def grid_ok_def shape_ok_def)
qed

lemma pass_operands_release [simp]: "pass_operands stages (s\<lparr>ps_release := r\<rparr>) V = pass_operands stages s V"
proof -
  have "ps_args (s\<lparr>ps_release := r\<rparr>) = ps_args s" "ps_shape (s\<lparr>ps_release := r\<rparr>) = ps_shape s" "ps_gather (s\<lparr>ps_release := r\<rparr>) = ps_gather s"
    by simp_all
  then show ?thesis unfolding pass_operands_def by (simp only:)
qed

lemma operands_live:
  assumes plan: "plan_rel V Z" and run: "run_rel V Z P" and zs: "pass_operands stages step Z = Inr zs"
    and V: "pass_operands stages step V = Inr ops" "\<forall>g \<in> set ops. plane_of (ps_shape step) g" and sh: "shape_ok (ps_shape step)"
  shows "pass_operands stages step P = Inr ops" "length zs = length ops" "\<forall>z \<in> set zs. plane_of (ps_shape step) z"
proof -
  have live: "P n = V n \<and> grid_ok z \<and> (\<exists>g. V n = Some g \<and> g_rows z = g_rows g \<and> g_columns z = g_columns g)" if "Z n = Some z" for n z
    using plan run that unfolding plan_rel_def run_rel_def by (metis domI)
  have "pass_operands stages step P = Inr ops \<and> length zs = length ops \<and> (\<forall>z \<in> set zs. plane_of (ps_shape step) z)"
  proof (cases "ps_gather step")
    case None
    have z: "mapM (mget Z) (ps_args step) = Inr zs" and o: "mapM (mget V) (ps_args step) = Inr ops"
      using zs V(1) None by (simp_all add: pass_operands_def)
    have len: "length zs = length (ps_args step)" "length ops = length (ps_args step)" using mapM_Inr_length [OF z] mapM_Inr_length [OF o] by simp_all
    have i: "Z (ps_args step ! i) = Some (zs ! i)" "V (ps_args step ! i) = Some (ops ! i)" if "i < length (ps_args step)" for i
      using mapM_Inr_nth [OF z that] mapM_Inr_nth [OF o that] by (simp_all add: res_simps)
    have "mapM (mget P) (ps_args step) = mapM (mget V) (ps_args step)"
      using live i by (intro mapM_cong) (auto simp: mget_def in_set_conv_nth)
    then have "pass_operands stages step P = Inr ops" using o None by (simp add: pass_operands_def)
    moreover have "plane_of (ps_shape step) (zs ! i)" if "i < length zs" for i
    proof -
      have "ops ! i \<in> set ops" using that len by simp
      then show ?thesis using live [OF i(1)] i(2) V(2) that len by (auto simp: plane_of_def)
    qed
    ultimately show ?thesis using len by (auto simp: in_set_conv_nth)
  next
    case (Some q)
    obtain stage view k where q: "q = (stage, view, k)" by (metis surj_pair)
    obtain s v inp where g: "stage_at stages stage = Inr s" "map_of (as_views s) view = Some v" "py_nth (as_inputs s) (int (gv_input v)) = Inr inp"
      using zs Some q by (auto simp: pass_operands_def res_simps)
    show ?thesis
    proof (cases inp)
      case (Inl producer)
      obtain a z x where a: "py_nth (ps_args step) 0 = Inr a" "Z a = Some z" "gathered s v z k (ps_shape step) = Inr x" "zs = [x]"
        using zs Some q g Inl by (auto simp: pass_operands_def dget_def res_simps)
      have "P a = V a" "grid_ok z" using live [OF a(2)] by auto
      then have "pass_operands stages step P = pass_operands stages step V" using Some q g Inl a(1) by (simp add: pass_operands_def dget_def mget_def)
      moreover have "length ops = 1" using V(1) Some q by (auto simp: pass_operands_def res_simps)
      ultimately show ?thesis using V(1) a(4) gathered_plane_of [OF a(3) \<open>grid_ok z\<close> sh] by simp
    next
      case (Inr lit)
      then have "pass_operands stages step P = pass_operands stages step V" "pass_operands stages step Z = pass_operands stages step V"
        using Some q g by (simp_all add: pass_operands_def dget_def)
      then show ?thesis using zs V by simp
    qed
  qed
  then show "pass_operands stages step P = Inr ops" "length zs = length ops" "\<forall>z \<in> set zs. plane_of (ps_shape step) z" by blast+
qed

lemma delete_planes:
  "foldM delete_plane m ns = Inr m' \<Longrightarrow> dom k = dom m \<Longrightarrow> m' = m |` (- set ns) \<and> foldM delete_plane k ns = Inr (k |` (- set ns))"
proof (induction ns arbitrary: m k)
  case (Cons n ns)
  obtain m1 where m1: "delete_plane m n = Inr m1" "foldM delete_plane m1 ns = Inr m'" using Cons.prems(1) by (auto simp: res_simps)
  then have d: "m n \<noteq> None" "k n \<noteq> None" "foldM delete_plane (m(n := None)) ns = Inr m'"
    using Cons.prems(2) by (auto simp: delete_plane_def split: if_splits)
  have dom: "dom (k(n := None)) = dom (m(n := None))" using Cons.prems(2) by simp
  have restrict: "(f(n := None)) |` (- set ns) = f |` (- set (n # ns))" for f :: planes by (auto simp: restrict_map_def fun_eq_iff)
  have del: "delete_plane k n = Inr (k(n := None))" using d(2) by (simp add: delete_plane_def)
  show ?case using Cons.IH [OF d(3) dom] unfolding restrict foldM.simps del rbind_simps .
qed (simp add: restrict_map_def)

section \<open>One pass\<close>

lemma pass_admittedI:
  assumes "shape_ok shape" "pass_op_ok o' imm n" "length zs = n" "\<forall>z \<in> set zs. plane_of shape z" "compile (pass_source shape o' imm zs) = Inr cg"
  shows "pass_admitted shape o' imm n"
  unfolding pass_admitted_def using assms by blast

lemma plan_pass_Inr:
  assumes "plan_pass stages lasts lit pn (i, s) = Inr pn'"
  obtains zs cg release where "pass_operands stages s (pn_planes pn) = Inr zs" "compile (pass_source (ps_shape s) (ps_op s) (ps_imm s) zs) = Inr cg"
    "release = sort (filter (\<lambda>n. lasts n = Some i) (map fst (pn_sizes pn) @ [ps_id s]))" "pn_passes pn' = pn_passes pn @ [s\<lparr>ps_release := release\<rparr>]"
    "foldM delete_plane ((pn_planes pn)(ps_id s \<mapsto> \<lparr>g_rows = fst (ps_shape s), g_columns = snd (ps_shape s),
        g_words = replicate (nat (fst (ps_shape s) * snd (ps_shape s))) 0\<rparr>)) release = Inr (pn_planes pn')"
    "set (map fst (pn_sizes pn')) = insert (ps_id s) (set (map fst (pn_sizes pn))) - set release"
proof -
  let ?size = "fst (ps_shape s) * snd (ps_shape s)"
  let ?zero = "\<lparr>g_rows = fst (ps_shape s), g_columns = snd (ps_shape s), g_words = replicate (nat ?size) 0\<rparr>" and ?sizes = "pn_sizes pn @ [(ps_id s, ?size)]"
  let ?release = "sort (filter (\<lambda>n. lasts n = Some i) (map fst ?sizes))"
  obtain peak src cg planes where p: "bind_pass stages s (pn_planes pn) = Inr src" "compile src = Inr cg"
    "foldM delete_plane ((pn_planes pn)(ps_id s \<mapsto> ?zero)) ?release = Inr planes"
    "pn' = \<lparr>pn_planes = planes, pn_sizes = filter (\<lambda>(n, _). n \<notin> set ?release) ?sizes, pn_peak = peak, pn_passes = pn_passes pn @ [s\<lparr>ps_release := ?release\<rparr>]\<rparr>"
    using assms unfolding plan_pass_def Let_def prod.case by (simp only: res_simps reject_eq sum.inject) blast
  obtain zs where zs: "pass_operands stages s (pn_planes pn) = Inr zs" "src = pass_source (ps_shape s) (ps_op s) (ps_imm s) zs"
    using p(1) by (auto simp: bind_pass_def res_simps)
  have names: "fst ` set (filter (\<lambda>(n, _). n \<notin> R) xs) = fst ` set xs - R" for R :: "string set" and xs :: "(string \<times> int) list" by force
  have "set (map fst (pn_sizes pn')) = insert (ps_id s) (set (map fst (pn_sizes pn))) - set ?release"
    unfolding p(4) planning.select_convs list.set_map names by (simp del: set_sort)
  then show ?thesis using that [of zs cg ?release] zs p by (simp del: set_sort)
qed

lemma zero_plane_ok: "shape_ok shape \<Longrightarrow> grid_ok \<lparr>g_rows = fst shape, g_columns = snd shape, g_words = replicate (nat (fst shape * snd shape)) 0\<rparr>"
  by (auto simp: shape_ok_def grid_ok_def)

lemma commit_release [simp]: "commit_pass P (s\<lparr>ps_release := r\<rparr>) g = foldM delete_plane (P(ps_id s \<mapsto> g)) r"
  by (simp add: commit_pass_def)

text \<open>Planning and running one pass keep the relations.\<close>

lemma pass_simulated:
  assumes p: "plan_pass stages lasts lit pn (i, s) = Inr pn'" and good: "good_step stages V s"
    and plan: "plan_rel V (pn_planes pn)" and run: "run_rel V (pn_planes pn) P"
  shows "\<exists>src P' release. bind_pass stages (s\<lparr>ps_release := release\<rparr>) P = Inr src \<and> pn_passes pn' = pn_passes pn @ [s\<lparr>ps_release := release\<rparr>] \<and>
    (\<forall>raised. (\<forall>k. raised k = None) \<longrightarrow> (\<exists>g. grid_run raised src = Inr \<lparr>gr_succeeded = True, gr_output = Some (g_rows g, g_columns g, g_words g)\<rparr> \<and>
       commit_pass P (s\<lparr>ps_release := release\<rparr>) g = Inr P')) \<and>
    plan_rel (full_step stages V s) (pn_planes pn') \<and> run_rel (full_step stages V s) (pn_planes pn') P'"
proof -
  obtain zs cg release where z: "pass_operands stages s (pn_planes pn) = Inr zs" "compile (pass_source (ps_shape s) (ps_op s) (ps_imm s) zs) = Inr cg"
    "pn_passes pn' = pn_passes pn @ [s\<lparr>ps_release := release\<rparr>]"
    "foldM delete_plane ((pn_planes pn)(ps_id s \<mapsto> \<lparr>g_rows = fst (ps_shape s), g_columns = snd (ps_shape s),
        g_words = replicate (nat (fst (ps_shape s) * snd (ps_shape s))) 0\<rparr>)) release = Inr (pn_planes pn')"
    using plan_pass_Inr [OF p] by metis
  obtain ops where ops: "pass_operands stages s V = Inr ops" "pass_op_ok (ps_op s) (ps_imm s) (length ops)" "\<forall>g \<in> set ops. plane_of (ps_shape s) g"
    and sh: "shape_ok (ps_shape s)" and new: "ps_id s \<notin> dom V" using good unfolding good_step_def by blast
  note live = operands_live [OF plan run z(1) ops(1,3) sh]
  let ?g = "step_plane s ops" let ?src = "pass_source (ps_shape s) (ps_op s) (ps_imm s) ops"
  have adm: "pass_admitted (ps_shape s) (ps_op s) (ps_imm s) (length ops)" using pass_admittedI [OF sh ops(2) live(2,3) z(2)] .
  obtain cg' where cg': "compile ?src = Inr cg'" "cg_rows cg' = fst (ps_shape s)" "cg_columns cg' = snd (ps_shape s)" "grid_reference ?src = Inr (g_words ?g)"
    using pass_runs [OF adm ops(3)] by (auto simp: step_plane_def)
  have g: "plane_of (ps_shape s) ?g" unfolding step_plane_def by (rule pass_plane_of [OF sh])
  have "grid_run raised ?src = Inr \<lparr>gr_succeeded = True, gr_output = Some (g_rows ?g, g_columns ?g, g_words ?g)\<rparr>" if "\<forall>k. raised k = None" for raised
    using grid_run_words [OF cg'(1)] cg' that g by (auto simp: plane_of_def)
  moreover have "dom (P(ps_id s \<mapsto> ?g)) = dom ((pn_planes pn)(ps_id s \<mapsto> x))" for x using run by (simp add: run_rel_def)
  note del = delete_planes [OF z(4) this]
  have full: "full_step stages V s = V(ps_id s \<mapsto> ?g)" using full_step_eq [OF ops(1)] .
  have "plan_rel (V(ps_id s \<mapsto> ?g)) (pn_planes pn')"
    using plan zero_plane_ok [OF sh] g unfolding plan_rel_def del [THEN conjunct1] by (auto simp: restrict_map_def plane_of_def split: if_splits)
  moreover have "run_rel (V(ps_id s \<mapsto> ?g)) (pn_planes pn') ((P(ps_id s \<mapsto> ?g)) |` (- set release))"
  proof -
    have "dom P = dom (pn_planes pn)" using run by (simp add: run_rel_def)
    then have "dom ((P(ps_id s \<mapsto> ?g)) |` (- set release)) = dom (pn_planes pn')" unfolding del [THEN conjunct1] dom_restrict by simp
    moreover have "((P(ps_id s \<mapsto> ?g)) |` (- set release)) n = (V(ps_id s \<mapsto> ?g)) n" if "n \<in> dom ((P(ps_id s \<mapsto> ?g)) |` (- set release))" for n
      using that run by (auto simp: run_rel_def restrict_map_def split: if_splits)
    ultimately show ?thesis by (simp add: run_rel_def)
  qed
  moreover have "bind_pass stages (s\<lparr>ps_release := release\<rparr>) P = Inr ?src" using live(1) by (simp add: bind_pass_def)
  ultimately show ?thesis using z(3) full del by (intro exI [of _ ?src] exI [of _ "(P(ps_id s \<mapsto> ?g)) |` (- set release)"] exI [of _ release]) auto
qed

section \<open>All passes\<close>

lemma plan_pass_keeps:
  assumes "plan_pass stages lasts lit pn (i, s) = Inr pn'" "lasts n = Some N" "N \<noteq> i" "n = ps_id s \<or> n \<in> dom (pn_planes pn)"
  shows "n \<in> dom (pn_planes pn')"
proof -
  obtain release where r: "release = sort (filter (\<lambda>n. lasts n = Some i) (map fst (pn_sizes pn) @ [ps_id s]))"
    "foldM delete_plane ((pn_planes pn)(ps_id s \<mapsto> \<lparr>g_rows = fst (ps_shape s), g_columns = snd (ps_shape s),
        g_words = replicate (nat (fst (ps_shape s) * snd (ps_shape s))) 0\<rparr>)) release = Inr (pn_planes pn')"
    using plan_pass_Inr [OF assms(1)] by metis
  have "n \<notin> set release" using assms(2,3) unfolding r(1) by auto
  then show ?thesis using delete_planes [OF r(2) refl] assms(4) by (auto simp: restrict_map_def)
qed

definition keeps :: "(string \<rightharpoonup> nat) \<Rightarrow> nat \<Rightarrow> planes \<Rightarrow> planes \<Rightarrow> bool" where
  "keeps lasts N V Z \<longleftrightarrow> (\<forall>n. lasts n = Some N \<and> n \<in> dom V \<longrightarrow> n \<in> dom Z)"

lemma keeps_step:
  assumes "plan_pass stages lasts lit pn (i, s) = Inr pn'" "good_step stages V s" "keeps lasts N V (pn_planes pn)" "i < N"
  shows "keeps lasts N (full_step stages V s) (pn_planes pn')"
proof -
  obtain ops where "pass_operands stages s V = Inr ops" using assms(2) by (auto simp: good_step_def)
  then have dom: "dom (full_step stages V s) = insert (ps_id s) (dom V)" by (simp add: full_step_def)
  show ?thesis
    unfolding keeps_def dom
  proof (intro allI impI)
    fix n assume "lasts n = Some N \<and> n \<in> insert (ps_id s) (dom V)"
    then show "n \<in> dom (pn_planes pn')"
      using plan_pass_keeps [OF assms(1), of n N] assms(3,4) unfolding keeps_def by blast
  qed
qed

lemma passes_simulated:
  assumes "foldM (plan_pass stages lasts lit) pn (enumerate i steps) = Inr pn'" "good_steps stages V steps"
    "plan_rel V (pn_planes pn)" "run_rel V (pn_planes pn) P" "keeps lasts N V (pn_planes pn)" "i + length steps \<le> N" "\<forall>i k. raised i k = None"
  shows "\<exists>ps P'. pn_passes pn' = pn_passes pn @ ps \<and> length ps = length steps \<and> pass_loop raised stages i P ps = Inr (P', i + length steps, True) \<and>
    run_rel (foldl (full_step stages) V steps) (pn_planes pn') P' \<and> keeps lasts N (foldl (full_step stages) V steps) (pn_planes pn')"
  using assms
proof (induction steps arbitrary: i pn V P)
  case Nil
  then show ?case by (intro exI [of _ "[]"] exI [of _ P]) simp
next
  case (Cons s steps)
  obtain pn1 where p: "plan_pass stages lasts lit pn (i, s) = Inr pn1" "foldM (plan_pass stages lasts lit) pn1 (enumerate (Suc i) steps) = Inr pn'"
    using Cons.prems(1) by (auto simp: res_simps)
  have good: "good_step stages V s" "good_steps stages (full_step stages V s) steps" using Cons.prems(2) by simp_all
  obtain src P1 release where one: "bind_pass stages (s\<lparr>ps_release := release\<rparr>) P = Inr src" "pn_passes pn1 = pn_passes pn @ [s\<lparr>ps_release := release\<rparr>]"
    "\<And>raised. (\<forall>k. raised k = None) \<Longrightarrow> \<exists>g. grid_run raised src = Inr \<lparr>gr_succeeded = True, gr_output = Some (g_rows g, g_columns g, g_words g)\<rparr> \<and>
       commit_pass P (s\<lparr>ps_release := release\<rparr>) g = Inr P1"
    "plan_rel (full_step stages V s) (pn_planes pn1)" "run_rel (full_step stages V s) (pn_planes pn1) P1"
    using pass_simulated [OF p(1) good(1) Cons.prems(3,4)] by blast
  obtain g where g: "grid_run (raised i) src = Inr \<lparr>gr_succeeded = True, gr_output = Some (g_rows g, g_columns g, g_words g)\<rparr>"
    "commit_pass P (s\<lparr>ps_release := release\<rparr>) g = Inr P1"
    using one(3) [of "raised i"] Cons.prems(7) by blast
  have "i < N" "Suc i + length steps \<le> N" using Cons.prems(6) by simp_all
  note keep = keeps_step [OF p(1) good(1) Cons.prems(5) this(1)]
  obtain ps P' where rest: "pn_passes pn' = pn_passes pn1 @ ps" "length ps = length steps" "pass_loop raised stages (Suc i) P1 ps = Inr (P', Suc i + length steps, True)"
    "run_rel (foldl (full_step stages) (full_step stages V s) steps) (pn_planes pn') P'" "keeps lasts N (foldl (full_step stages) (full_step stages V s) steps) (pn_planes pn')"
    using Cons.IH [OF p(2) good(2) one(4,5) keep \<open>Suc i + length steps \<le> N\<close> Cons.prems(7)] by blast
  have "pass_loop raised stages i P (s\<lparr>ps_release := release\<rparr> # ps) = Inr (P', i + length (s # steps), True)"
  proof -
    obtain a b c where "g = \<lparr>g_rows = a, g_columns = b, g_words = c\<rparr>" by (cases g)
    then show ?thesis using one(1) g rest(3) by (simp add: want_def)
  qed
  then show ?case using rest one(2) by (intro exI [of _ "s\<lparr>ps_release := release\<rparr> # ps"] exI [of _ P']) simp
qed

lemma last_uses_producer: "n \<in> set producers \<Longrightarrow> last_uses steps producers n = Some (length steps)"
proof -
  have "foldl (\<lambda>m ref. m(ref \<mapsto> N)) m ps n = (if n \<in> set ps then Some N else m n)" for m :: "string \<rightharpoonup> nat" and N ps
    by (induction ps arbitrary: m) auto
  then show "n \<in> set producers \<Longrightarrow> last_uses steps producers n = Some (length steps)" by (simp add: last_uses_def Let_def)
qed

lemma stage_at_ok:
  assumes "structure_ok ar" "stage_at (ar_stages ar) n = Inr s"
  shows "stage_ok s \<and> as_name s = n"
  using assms by (auto simp: structure_ok_def stage_at_def res_simps dest!: map_of_SomeD)

lemma emit_structure:
  assumes ok: "structure_ok ar" and e: "foldM (emit_stage (ar_stages ar)) (no_passes, Map.empty) (ar_order ar) = Inr (st, results)"
  shows "\<exists>V outputs. emitted (ar_stages ar) st V \<and> foldM (ref_stage (ar_stages ar)) Map.empty (ar_order ar) = Inr outputs \<and> results_rel V results outputs"
proof -
  have "results_rel Map.empty Map.empty Map.empty" by (simp add: results_rel_def)
  moreover have "\<forall>i < length (ar_order ar). deps_of (ar_stages ar) (ar_order ar ! i) \<subseteq> dom (Map.empty :: planes) \<union> set (take i (ar_order ar))"
    using ok by (simp add: structure_ok_def)
  ultimately show ?thesis using emit_stages_emitted [OF emitted_start _ _ _ e] stage_at_ok [OF ok] by blast
qed

lemma plan_run:
  assumes ok: "structure_ok ar" and plan: "plan_structure ar = Inr plan" and raised: "\<forall>i k. raised i k = None"
  shows "\<exists>outputs outs P. foldM (ref_stage (ar_stages ar)) Map.empty (ar_order ar) = Inr outputs \<and>
    mapM (\<lambda>n. rbind (mget outputs n) (\<lambda>g. Inr (n, g))) (ar_outputs ar) = Inr outs \<and> map fst outs = map fst (ap_outputs plan) \<and>
    pass_loop raised (ar_stages ar) 0 Map.empty (ap_passes plan) = Inr (P, length (ap_passes plan), True) \<and> publish plan P = Inr outs"
proof -
  obtain st results os pn where p: "foldM (emit_stage (ar_stages ar)) (no_passes, Map.empty) (ar_order ar) = Inr (st, results)"
    "mapM (\<lambda>n. rbind (mget results n) (\<lambda>r. Inr (n, r))) (ar_outputs ar) = Inr os"
    "foldM (plan_pass (ar_stages ar) (last_uses (em_steps st) (map snd os)) (int (ar_literals ar)))
       \<lparr>pn_planes = Map.empty, pn_sizes = [], pn_peak = int (ar_literals ar), pn_passes = []\<rparr> (enumerate 0 (em_steps st)) = Inr pn"
    "ap_passes plan = pn_passes pn" "ap_outputs plan = os"
    using plan by (auto simp: plan_structure_def res_simps)
  obtain V outputs where V: "emitted (ar_stages ar) st V" "foldM (ref_stage (ar_stages ar)) Map.empty (ar_order ar) = Inr outputs" "results_rel V results outputs"
    using emit_structure [OF ok p(1)] by blast
  have full: "good_steps (ar_stages ar) Map.empty (em_steps st)" "V = foldl (full_step (ar_stages ar)) Map.empty (em_steps st)"
    using V(1) by (auto simp: emitted_def)
  let ?lasts = "last_uses (em_steps st) (map snd os)" let ?N = "length (em_steps st)"
  have "plan_rel Map.empty Map.empty" "run_rel Map.empty Map.empty Map.empty" "keeps ?lasts ?N Map.empty Map.empty"
    by (auto simp: plan_rel_def run_rel_def keeps_def)
  then obtain ps P where run: "pn_passes pn = ps" "length ps = ?N" "pass_loop raised (ar_stages ar) 0 Map.empty ps = Inr (P, ?N, True)"
    "run_rel V (pn_planes pn) P" "keeps ?lasts ?N V (pn_planes pn)"
    using passes_simulated [OF p(3) full(1), of Map.empty ?N raised] raised full(2) by auto
  have out: "P (snd x) = outputs (fst x) \<and> outputs (fst x) \<noteq> None" if x: "x \<in> set os" for x
  proof -
    obtain i where i: "i < length os" "x = os ! i" using x by (auto simp: in_set_conv_nth)
    then have "results (ar_outputs ar ! i) = Some (snd x) \<and> fst x = ar_outputs ar ! i"
      using mapM_Inr_nth [OF p(2), of i] mapM_Inr_length [OF p(2)] by (cases "os ! i") (auto simp: res_simps)
    then have r: "V (snd x) = outputs (fst x)" "snd x \<in> dom V" using V(3) by (auto simp: results_rel_def)
    moreover have "?lasts (snd x) = Some ?N" using x by (intro last_uses_producer) simp
    ultimately have "snd x \<in> dom (pn_planes pn)" using run(5) unfolding keeps_def by blast
    then show ?thesis using run(4) r unfolding run_rel_def by (metis domIff)
  qed
  have names: "map fst os = ar_outputs ar"
  proof (rule nth_equalityI)
    show "length (map fst os) = length (ar_outputs ar)" using mapM_Inr_length [OF p(2)] by simp
    fix i assume "i < length (map fst os)"
    then show "map fst os ! i = ar_outputs ar ! i"
      using mapM_Inr_nth [OF p(2), of i] mapM_Inr_length [OF p(2)] by (cases "os ! i") (auto simp: res_simps)
  qed
  let ?outs = "map (\<lambda>x. (fst x, the (outputs (fst x)))) os"
  have "publish plan P = Inr ?outs"
    unfolding publish_def p(5)
  proof (rule mapM_eq_map)
    fix x assume "x \<in> set os"
    then show "(case x of (name, producer) \<Rightarrow> rbind (mget P producer) (\<lambda>g. Inr (name, g))) = Inr (fst x, the (outputs (fst x)))"
      using out [of x] by (auto simp: case_prod_beta)
  qed
  moreover have "mapM (\<lambda>n. rbind (mget outputs n) (\<lambda>g. Inr (n, g))) (map fst os) = Inr ?outs"
    unfolding mapM_map
  proof (rule mapM_eq_map)
    fix x assume "x \<in> set os"
    then show "rbind (mget outputs (fst x)) (\<lambda>g. Inr (fst x, g)) = Inr (fst x, the (outputs (fst x)))" using out [of x] by auto
  qed
  moreover have "map fst ?outs = map fst (ap_outputs plan)" by (simp add: p(5))
  ultimately show ?thesis using V(2) run(1,2,3) unfolding p(4) names by (intro exI [of _ outputs] exI [of _ ?outs] exI [of _ P]) simp
qed

section \<open>The run of a program\<close>

text \<open>
  C3. Running an admitted array program computes it. Whenever the planner of the first schema
  accepts a program, the whole-source interpreter is defined, and the run of the plan (every
  pass bound to the live planes, compiled by the grid compiler, executed tile by tile,
  committed with its releases) goes through all passes and publishes, under the declared
  output names, exactly the planes of the interpreter: the whole-array comparison never raises.
\<close>

theorem array_run_correct:
  assumes "compile_v1 j = Inr plan" "\<forall>i k. raised i k = None"
  shows "\<exists>outs. array_reference j = Inr outs \<and> map fst outs = map fst (ap_outputs plan) \<and>
    array_run raised j = Inr \<lparr>rr_succeeded = True, rr_attempted = length (ap_passes plan), rr_outputs = Some outs\<rparr>"
proof -
  obtain ar where ar: "read_structure j = Inr ar" "plan_structure ar = Inr plan" using assms(1) by (auto simp: compile_v1_def res_simps)
  obtain outputs outs P where o: "foldM (ref_stage (ar_stages ar)) Map.empty (ar_order ar) = Inr outputs"
    "mapM (\<lambda>n. rbind (mget outputs n) (\<lambda>g. Inr (n, g))) (ar_outputs ar) = Inr outs" "map fst outs = map fst (ap_outputs plan)"
    "pass_loop raised (ar_stages ar) 0 Map.empty (ap_passes plan) = Inr (P, length (ap_passes plan), True)" "publish plan P = Inr outs"
    using plan_run [OF read_structure_ok [OF ar(1)] ar(2) assms(2)] by blast
  have "array_reference j = Inr outs" using ar(1) o(1,2) by (simp add: array_reference_def)
  then show ?thesis using ar o by (simp add: array_run_def inspect_outputs_def reject_def)
qed

text \<open>Two stages: \<open>a\<close> doubles a row of two words, \<open>b\<close> sums a row of \<open>a\<close> by a fold of two terms and relus it.\<close>

definition demo_view :: "int \<times> int \<Rightarrow> json" where
  "demo_view s = JDict [(''input'', JInt 0), (''offset'', JList [JInt 0, JInt 0]), (''row'', JList [JInt 1, JInt 0]), (''column'', JList [JInt 0, JInt 1]),
     (''step'', JList [JInt (fst s), JInt (snd s)])]"

definition demo_stage :: "string \<Rightarrow> json \<Rightarrow> int \<Rightarrow> int \<Rightarrow> json list \<Rightarrow> string \<Rightarrow> (string \<times> json) list \<Rightarrow> json" where
  "demo_stage name inp columns extent nodes result post = JDict [(''name'', JStr name), (''source'', JDict ([(''inputs'', JList [inp]), (''shape'', JList [JInt 1, JInt columns]),
     (''boundary'', JStr ''zero''), (''kernel'', JDict [(''extent'', JInt extent), (''fold'', JStr ''sum''), (''views'', JDict [(''v'', demo_view (0, 1))]),
        (''nodes'', JList nodes), (''result'', JStr result)])] @ post))]"

definition demo_array :: json where
  "demo_array = JDict [(''schema'', JStr ARRAY_SCHEMA), (''stages'', JList
     [demo_stage ''b'' (JDict [(''from'', JStr ''a'')]) 1 2 [node_json \<lparr>nid = ''x'', nop = OpLoad, nargs = [], nview = ''v'', nimm = 0\<rparr>] ''x''
        [(''post'', JDict [(''nodes'', JList [node_json \<lparr>nid = ''r'', nop = OpLoad, nargs = [], nview = ''reduced'', nimm = 0\<rparr>,
            node_json \<lparr>nid = ''p'', nop = OpAddImm, nargs = [''r''], nview = [], nimm = 3\<rparr>]), (''result'', JStr ''p'')])],
      demo_stage ''a'' (grid_json \<lparr>g_rows = 1, g_columns = 2, g_words = [7, 5]\<rparr>) 2 1 [node_json \<lparr>nid = ''x'', nop = OpLoad, nargs = [], nview = ''v'', nimm = 0\<rparr>,
        node_json \<lparr>nid = ''y'', nop = OpAdd, nargs = [''x'', ''x''], nview = [], nimm = 0\<rparr>] ''y'' []]), (''outputs'', JList [JStr ''b''])]"

lemma demo_array_reference: "array_reference demo_array = Inr [(''b'', \<lparr>g_rows = 1, g_columns = 1, g_words = [27]\<rparr>)]"
  by code_simp

lemma demo_array_plan: "\<exists>plan. compile_v1 demo_array = Inr plan \<and> length (ap_passes plan) = 7"
proof -
  have "(case compile_v1 demo_array of Inl _ \<Rightarrow> False | Inr plan \<Rightarrow> length (ap_passes plan) = 7)" by code_simp
  then show ?thesis by (auto split: sum.splits)
qed

theorem array_run_correct_witness:
  "array_run (\<lambda>_ _. None) demo_array =
     Inr \<lparr>rr_succeeded = True, rr_attempted = 7, rr_outputs = Some [(''b'', \<lparr>g_rows = 1, g_columns = 1, g_words = [27]\<rparr>)]\<rparr>"
proof -
  obtain plan where plan: "compile_v1 demo_array = Inr plan" "length (ap_passes plan) = 7" using demo_array_plan by blast
  from array_run_correct [OF plan(1), of "\<lambda>_ _. None"] plan(2) demo_array_reference show ?thesis by auto
qed

end
