(* ===== verification/Mf01_Flow.thy ===== *)
theory Mf01_Flow
  imports Grid_Words Stage_Order
begin

text \<open>
  \<open>raveil/mf01_flow.py\<close> and the stage loop of \<open>raveil/project_mf01_flow.py\<close>: a flow of named grid
  stages whose inputs may be links to the committed output of another stage. A flow is
  admitted with zero planes in the place of the links, interpreted stage by stage and run with
  one grid run per stage.
\<close>

section \<open>Links\<close>

definition FLOW_SCHEMA :: string where "FLOW_SCHEMA = ''raveil.mf01-flow/v1''"

text \<open>\<open>outputs[item['from']]\<close> for an item that is a link; other items are copied.\<close>

definition materialize_input :: "planes \<Rightarrow> json \<Rightarrow> json res" where
  "materialize_input outputs item = (case item of
     JDict d \<Rightarrow>
       if keys d = {''from''} then
         (case map_of d ''from'' of
            Some (JStr n) \<Rightarrow> rbind (mget outputs n) (\<lambda>g. Inr (grid_json g))
          | Some (JList _) \<Rightarrow> Inl TypeError
          | Some (JDict _) \<Rightarrow> Inl TypeError
          | _ \<Rightarrow> Inl KeyError)
       else Inr item
   | _ \<Rightarrow> Inr item)"

text \<open>The source dictionary of a stage with its links replaced. \<open>structure\<close> has checked that the inputs are a list.\<close>

definition materialize :: "json \<Rightarrow> planes \<Rightarrow> json res" where
  "materialize src outputs = (case src of
     JDict d \<Rightarrow>
       (case map_of d ''inputs'' of
          Some (JList items) \<Rightarrow> rbind (mapM (materialize_input outputs) items) (\<lambda>items'. Inr (JDict (with_field d ''inputs'' (JList items'))))
        | Some _ \<Rightarrow> Inl TypeError
        | None \<Rightarrow> Inl KeyError)
   | _ \<Rightarrow> Inl TypeError)"

section \<open>Admission\<close>

record flow_stage =
  fs_name :: string
  fs_source :: json
  fs_deps :: "string set"

definition flow_link :: "json \<Rightarrow> string list res" where
  "flow_link item = (case item of
     JDict d \<Rightarrow>
       if ''from'' \<in> keys d then
         rbind (reject (keys d \<noteq> {''from''}) (ValueError ''invalid flow link'')) (\<lambda>_.
         rbind (want_str (map_of d ''from'') ''invalid flow link'') (\<lambda>_.
         rbind (project_name (map_of d ''from'')) (\<lambda>n. Inr [n])))
       else Inr []
   | _ \<Rightarrow> Inr [])"

definition read_flow_stage :: "flow_stage list \<Rightarrow> json \<Rightarrow> flow_stage res" where
  "read_flow_stage stages j =
     rbind (want_dict (Some j) ''invalid flow stage'') (\<lambda>d.
     rbind (reject (keys d \<noteq> {''name'', ''source''}) (ValueError ''invalid flow stage'')) (\<lambda>_.
     rbind (want_str (map_of d ''name'') ''invalid flow stage'') (\<lambda>_.
     rbind (project_name (map_of d ''name'')) (\<lambda>name.
     rbind (reject (name \<in> set (map fs_name stages)) (ValueError ''duplicate flow stage'')) (\<lambda>_.
     rbind (want_dict (map_of d ''source'') ''flow stage requires grid source inputs'') (\<lambda>s.
     rbind (want_list (map_of s ''inputs'') ''flow stage requires grid source inputs'') (\<lambda>inputs.
     rbind (reject (\<not> (1 \<le> length inputs \<and> length inputs \<le> 2)) (ValueError ''flow stage requires grid source inputs'')) (\<lambda>_.
     rbind (mapM flow_link inputs) (\<lambda>links.
     Inr \<lparr>fs_name = name, fs_source = JDict s, fs_deps = set (concat links)\<rparr>)))))))))"

definition flow_stage_at :: "flow_stage list \<Rightarrow> string \<Rightarrow> flow_stage res" where
  "flow_stage_at stages name = dget (map (\<lambda>s. (fs_name s, s)) stages) name"

definition flow_deps :: "flow_stage list \<Rightarrow> string \<Rightarrow> string set" where
  "flow_deps stages n = (case flow_stage_at stages n of Inl _ \<Rightarrow> {} | Inr s \<Rightarrow> fs_deps s)"

text \<open>The serial schedule of the stages.\<close>

definition flow_order :: "flow_stage list \<Rightarrow> string list res" where
  "flow_order stages = stage_loop ''cyclic flow dependencies'' (flow_deps stages) (map fs_name stages)"

record flow =
  fl_stages :: "flow_stage list"
  fl_order :: "string list"
  fl_outputs :: "string list"

definition flow_structure :: "json \<Rightarrow> flow res" where
  "flow_structure j =
     rbind (want_dict (Some j) ''flow requires1..8 named stages and outputs'') (\<lambda>d.
     rbind (reject (keys d \<noteq> {''schema'', ''stages'', ''outputs''}) (ValueError ''flow requires1..8 named stages and outputs'')) (\<lambda>_.
     rbind (reject (map_of d ''schema'' \<noteq> Some (JStr FLOW_SCHEMA)) (ValueError ''flow requires1..8 named stages and outputs'')) (\<lambda>_.
     rbind (want_list (map_of d ''stages'') ''flow requires1..8 named stages and outputs'') (\<lambda>js.
     rbind (reject (\<not> (1 \<le> length js \<and> length js \<le> 8)) (ValueError ''flow requires1..8 named stages and outputs'')) (\<lambda>_.
     rbind (want_list (map_of d ''outputs'') ''flow requires1..8 named stages and outputs'') (\<lambda>outs.
     rbind (reject (\<not> (1 \<le> length outs \<and> length outs \<le> 8)) (ValueError ''flow requires1..8 named stages and outputs'')) (\<lambda>_.
     rbind (foldM (\<lambda>stages j. rbind (read_flow_stage stages j) (\<lambda>s. Inr (stages @ [s]))) [] js) (\<lambda>stages.
     rbind (mapM (\<lambda>o'. rbind (want_str (Some o') ''unknown flow output'') (\<lambda>n.
        rbind (reject (n \<notin> set (map fs_name stages)) (ValueError ''unknown flow output'')) (\<lambda>_. Inr n))) outs) (\<lambda>names.
     rbind (reject (\<not> distinct names) (ValueError ''duplicate flow output'')) (\<lambda>_.
     rbind (reject (\<not> list_all (\<lambda>s. fs_deps s \<subseteq> set (map fs_name stages)) stages) (ValueError ''unknown flow producer'')) (\<lambda>_.
     rbind (flow_order stages) (\<lambda>order.
     Inr \<lparr>fl_stages = stages, fl_order = order, fl_outputs = names\<rparr>))))))))))))"

section \<open>The plan\<close>

record flow_row =
  fp_name :: string
  fp_deps :: "string list"
  fp_shape :: coord
  fp_sessions :: nat
  fp_jobs :: nat

record flow_state =
  fc_placeholders :: planes
  fc_plan :: "flow_row list"
  fc_sessions :: nat
  fc_jobs :: nat

record flow_plan =
  fw_order :: "string list"
  fw_stages :: "flow_row list"
  fw_outputs :: "string list"
  fw_sessions :: nat
  fw_jobs :: nat

text \<open>\<open>len(item['dag']['jobs'])\<close>\<close>

definition dag_jobs :: "json \<Rightarrow> nat res" where
  "dag_jobs dag = (case dag of
     JDict d \<Rightarrow> (case map_of d ''jobs'' of Some (JList js) \<Rightarrow> Inr (length js) | Some _ \<Rightarrow> Inl TypeError | None \<Rightarrow> Inl KeyError)
   | _ \<Rightarrow> Inl TypeError)"

definition zero_plane :: "coord \<Rightarrow> grid" where
  "zero_plane shape = \<lparr>g_rows = fst shape, g_columns = snd shape, g_words = replicate (nat (fst shape * snd shape)) 0\<rparr>"

definition compile_flow_stage :: "flow_stage list \<Rightarrow> flow_state \<Rightarrow> string \<Rightarrow> flow_state res" where
  "compile_flow_stage stages st name =
     rbind (flow_stage_at stages name) (\<lambda>s.
     rbind (materialize (fs_source s) (fc_placeholders st)) (\<lambda>src.
     rbind (compile src) (\<lambda>lowered.
     rbind (mapM (\<lambda>item. dag_jobs (snd item)) (cg_items lowered)) (\<lambda>counts.
     (let shape = (cg_rows lowered, cg_columns lowered); count' = length (cg_items lowered); job_count' = sum_list counts;
          sessions = fc_sessions st + count'; jobs = fc_jobs st + job_count'
      in rbind (reject (sessions > 16 \<or> jobs > 128) (ValueError ''flow exceeds16 sessions or128 jobs'')) (\<lambda>_.
         Inr \<lparr>fc_placeholders = (fc_placeholders st)(name \<mapsto> zero_plane shape),
              fc_plan = fc_plan st @ [\<lparr>fp_name = name, fp_deps = sorted_list_of_set (fs_deps s), fp_shape = shape, fp_sessions = count', fp_jobs = job_count'\<rparr>],
              fc_sessions = sessions, fc_jobs = jobs\<rparr>))))))"

definition empty_flow :: flow_state where
  "empty_flow = \<lparr>fc_placeholders = Map.empty, fc_plan = [], fc_sessions = 0, fc_jobs = 0\<rparr>"

definition plan_flow :: "flow \<Rightarrow> flow_plan res" where
  "plan_flow fl =
     rbind (foldM (compile_flow_stage (fl_stages fl)) empty_flow (fl_order fl)) (\<lambda>st.
     Inr \<lparr>fw_order = fl_order fl, fw_stages = fc_plan st, fw_outputs = fl_outputs fl, fw_sessions = fc_sessions st, fw_jobs = fc_jobs st\<rparr>)"

definition compile_flow :: "json \<Rightarrow> flow_plan res" where
  "compile_flow j = rbind (flow_structure j) plan_flow"

section \<open>The reference\<close>

definition publish_flow :: "flow_plan \<Rightarrow> planes \<Rightarrow> (string \<times> grid) list res" where
  "publish_flow plan outputs = mapM (\<lambda>name. rbind (mget outputs name) (\<lambda>g. Inr (name, g))) (fw_outputs plan)"

definition flow_ref_stage :: "flow_stage list \<Rightarrow> planes \<Rightarrow> flow_row \<Rightarrow> planes res" where
  "flow_ref_stage stages outputs row =
     rbind (flow_stage_at stages (fp_name row)) (\<lambda>s.
     rbind (materialize (fs_source s) outputs) (\<lambda>src.
     rbind (grid_reference src) (\<lambda>words.
     Inr (outputs(fp_name row \<mapsto> \<lparr>g_rows = fst (fp_shape row), g_columns = snd (fp_shape row), g_words = words\<rparr>)))))"

definition flow_reference :: "json \<Rightarrow> (string \<times> grid) list res" where
  "flow_reference j =
     rbind (flow_structure j) (\<lambda>fl.
     rbind (plan_flow fl) (\<lambda>plan.
     rbind (foldM (flow_ref_stage (fl_stages fl)) Map.empty (fw_stages plan)) (publish_flow plan)))"

section \<open>The project run\<close>

text \<open>
  The stage loop of \<open>run\<close>: \<open>raised i\<close> is what interrupts the sessions of stage \<open>i\<close>; a grid run
  that is incomplete ends the loop.
\<close>

fun flow_loop :: "(nat \<Rightarrow> nat \<Rightarrow> py_error option) \<Rightarrow> flow_stage list \<Rightarrow> nat \<Rightarrow> planes \<Rightarrow> string list \<Rightarrow> (planes \<times> nat \<times> bool) res" where
  "flow_loop raised stages i outputs [] = Inr (outputs, i, True)"
| "flow_loop raised stages i outputs (name # rest) =
     rbind (flow_stage_at stages name) (\<lambda>s.
     rbind (materialize (fs_source s) outputs) (\<lambda>src.
     rbind (grid_run (raised i) src) (\<lambda>child.
     if \<not> gr_succeeded child then Inr (outputs, i + 1, False)
     else rbind (want (gr_output child) ''output'') (\<lambda>(rows, columns, words).
          flow_loop raised stages (i + 1) (outputs(name \<mapsto> \<lparr>g_rows = rows, g_columns = columns, g_words = words\<rparr>)) rest))))"

record flow_record =
  fr_succeeded :: bool
  fr_attempted :: nat
  fr_outputs :: "(string \<times> grid) list option"

definition flow_run :: "(nat \<Rightarrow> nat \<Rightarrow> py_error option) \<Rightarrow> json \<Rightarrow> flow_record res" where
  "flow_run raised j =
     rbind (flow_structure j) (\<lambda>fl.
     rbind (plan_flow fl) (\<lambda>plan.
     rbind (flow_loop raised (fl_stages fl) 0 Map.empty (fw_order plan)) (\<lambda>(outputs, attempted, complete).
     if complete then rbind (publish_flow plan outputs) (\<lambda>os. Inr \<lparr>fr_succeeded = True, fr_attempted = attempted, fr_outputs = Some os\<rparr>)
     else Inr \<lparr>fr_succeeded = False, fr_attempted = attempted, fr_outputs = None\<rparr>)))"

end
