(* ===== verification/Flow_Correct.thy ===== *)
theory Flow_Correct
  imports Mf01_Flow
begin

text \<open>
  Runs of an admitted flow. The laws of the grid interface (\<open>mf01\<close>, the interpretation of
  \<open>grid_backend\<close>) are used once per stage: admission with zero planes carries over to the
  computed ones, and a completed stage commits the plane of the reference.
\<close>

section \<open>Admitted flows\<close>

definition flow_ok :: "flow \<Rightarrow> bool" where
  "flow_ok fl \<longleftrightarrow> distinct (map fs_name (fl_stages fl)) \<and> distinct (fl_order fl) \<and> set (fl_order fl) = fs_name ` set (fl_stages fl) \<and>
     set (fl_outputs fl) \<subseteq> set (fl_order fl) \<and>
     (\<forall>i < length (fl_order fl). flow_deps (fl_stages fl) (fl_order fl ! i) \<subseteq> set (take i (fl_order fl)))"

lemma read_flow_stage_name:
  assumes "read_flow_stage stages j = Inr s"
  shows "fs_name s \<notin> fs_name ` set stages"
proof -
  obtain name links d where "name \<notin> set (map fs_name stages)" "s = \<lparr>fs_name = name, fs_source = JDict d, fs_deps = set (concat links)\<rparr>"
    using assms unfolding read_flow_stage_def by (simp only: res_simps reject_eq Inr_inject not_not) blast
  then show ?thesis by simp
qed

lemma flow_deps_stage:
  assumes "distinct (map fs_name stages)" "s \<in> set stages"
  shows "flow_stage_at stages (fs_name s) = Inr s" "flow_deps stages (fs_name s) = fs_deps s"
proof -
  have "map_of (map (\<lambda>s. (fs_name s, s)) stages) (fs_name s) = Some s" using assms by (intro map_of_is_SomeI) (auto simp: comp_def)
  then show "flow_stage_at stages (fs_name s) = Inr s" "flow_deps stages (fs_name s) = fs_deps s" by (simp_all add: flow_deps_def flow_stage_at_def dget_def)
qed

lemma flow_structure_ok:
  assumes "flow_structure j = Inr fl"
  shows "flow_ok fl"
proof -
  obtain js outs stages names order where p:
    "foldM (\<lambda>stages j. rbind (read_flow_stage stages j) (\<lambda>s. Inr (stages @ [s]))) [] js = Inr stages"
    "mapM (\<lambda>o'. rbind (want_str (Some o') ''unknown flow output'') (\<lambda>n.
        rbind (reject (n \<notin> set (map fs_name stages)) (ValueError ''unknown flow output'')) (\<lambda>_. Inr n))) outs = Inr names"
    "list_all (\<lambda>s. fs_deps s \<subseteq> set (map fs_name stages)) stages"
    "flow_order stages = Inr order" "fl = \<lparr>fl_stages = stages, fl_order = order, fl_outputs = names\<rparr>"
    using assms unfolding flow_structure_def by (simp only: res_simps reject_eq Inr_inject not_not) blast
  from p(1) have dist: "distinct (map fs_name stages)"
    by (rule foldM_invariant) (auto simp: res_simps dest: read_flow_stage_name)
  have "\<not> stage_cycle (flow_deps stages) (set (map fs_name stages))"
    using stage_loop_cyclic [OF _ _ _ dist] p(4) unfolding stage_cycle_def flow_order_def by (metis Inl_Inr_False)
  then have ord: "distinct order" "set order = set (map fs_name stages)"
    "\<forall>i < length order. flow_deps stages (order ! i) \<inter> set (map fs_name stages) \<subseteq> set (take i order)"
    using stage_loop_ordered [OF dist, of "flow_deps stages" "''cyclic flow dependencies''"] p(4) unfolding flow_order_def by auto
  have deps: "flow_deps stages n \<subseteq> set (map fs_name stages)" if n: "n \<in> set order" for n
  proof -
    obtain s where "s \<in> set stages" "n = fs_name s" using n unfolding ord(2) by auto
    then show ?thesis using p(3) flow_deps_stage [OF dist] by (simp add: list_all_iff)
  qed
  have names: "set names \<subseteq> set order"
    using mapM_all [OF p(2), of "\<lambda>n. n \<in> set (map fs_name stages)"] unfolding ord(2) by (auto simp: res_simps)
  have "flow_deps stages (order ! i) \<subseteq> set (take i order)" if "i < length order" for i
    using ord(3) that deps [OF nth_mem [OF that]] by blast
  then show ?thesis using dist ord(1,2) names unfolding flow_ok_def p(5) by simp
qed

section \<open>One stage\<close>

text \<open>Planes of the same producers and dimensions.\<close>

definition alike :: "planes \<Rightarrow> planes \<Rightarrow> bool" where
  "alike ph outs \<longleftrightarrow> (\<forall>n. rel_option (\<lambda>g h. grid_ok g \<and> grid_ok h \<and> grid_dims g = grid_dims h) (ph n) (outs n))"

lemma alike_update: "alike ph outs \<Longrightarrow> grid_ok g \<Longrightarrow> grid_ok h \<Longrightarrow> grid_dims g = grid_dims h \<Longrightarrow> alike (ph(n \<mapsto> g)) (outs(n \<mapsto> h))"
  by (simp add: alike_def)

lemma alike_lookup: "alike ph outs \<Longrightarrow> ph n = Some g \<Longrightarrow> \<exists>h. outs n = Some h \<and> grid_ok g \<and> grid_ok h \<and> grid_dims g = grid_dims h"
  by (auto simp: alike_def option_rel_Some1 dest!: spec [of _ n])

lemma materialize_input_alike:
  assumes "materialize_input ph item = Inr a" "alike ph outs"
  shows "\<exists>b. materialize_input outs item = Inr b \<and> same_input a b"
proof (cases "\<exists>n. item = JDict [(''from'', JStr n)] \<or> (\<exists>d. item = JDict d \<and> keys d = {''from''} \<and> map_of d ''from'' = Some (JStr n))")
  case True
  then obtain n g where g: "ph n = Some g" "a = grid_json g" "\<And>p. materialize_input p item = rbind (mget p n) (\<lambda>g. Inr (grid_json g))"
    using assms(1) by (auto simp: materialize_input_def res_simps)
  obtain h where "outs n = Some h" "grid_ok g" "grid_ok h" "grid_dims g = grid_dims h" using alike_lookup [OF assms(2) g(1)] by blast
  then show ?thesis using g by (auto simp: same_input_def)
next
  case False
  then have "materialize_input outs item = materialize_input ph item"
    by (auto simp: materialize_input_def split: json.splits option.splits)
  then show ?thesis using assms(1) by (auto simp: same_input_def)
qed

lemma materialize_inputs_alike:
  assumes "mapM (materialize_input ph) items = Inr as" "alike ph outs"
  shows "\<exists>bs. mapM (materialize_input outs) items = Inr bs \<and> list_all2 same_input as bs"
  using assms(1)
proof (induction items arbitrary: as)
  case (Cons item items)
  then obtain a as' where a: "materialize_input ph item = Inr a" "mapM (materialize_input ph) items = Inr as'" "as = a # as'" by (auto simp: res_simps)
  obtain b bs where "materialize_input outs item = Inr b" "same_input a b" "mapM (materialize_input outs) items = Inr bs" "list_all2 same_input as' bs"
    using materialize_input_alike [OF a(1) assms(2)] Cons.IH [OF a(2)] by blast
  then show ?case using a(3) by simp
qed simp

lemma materialize_alike:
  assumes m: "materialize src ph = Inr m" and "alike ph outs" and "admitted_shape m = Some s"
  shows "\<exists>m'. materialize src outs = Inr m' \<and> admitted_shape m' = Some s"
proof -
  obtain d items as where d: "src = JDict d" "map_of d ''inputs'' = Some (JList items)" "mapM (materialize_input ph) items = Inr as"
    "m = JDict (with_field d ''inputs'' (JList as))"
    using m by (auto simp: materialize_def res_simps split: json.splits option.splits)
  obtain bs where bs: "mapM (materialize_input outs) items = Inr bs" "list_all2 same_input as bs"
    using materialize_inputs_alike [OF d(3) assms(2)] by blast
  have "map_of (with_field d ''inputs'' (JList as)) ''inputs'' = Some (JList as)" using d(2) by simp
  from mf01.other_planes [OF assms(3)[unfolded d(4)] this bs(2)] show ?thesis
    unfolding with_field_twice using d(1,2) bs(1) by (simp add: materialize_def)
qed

lemma placeholder_ok: "grid_ok g \<Longrightarrow> grid_ok (zero_plane (grid_dims g)) \<and> grid_dims (zero_plane (grid_dims g)) = grid_dims g"
  by (auto simp: zero_plane_def grid_ok_def grid_dims_def)

lemma flow_stage_step:
  assumes st: "compile_flow_stage stages st name = Inr st'" and al: "alike (fc_placeholders st) outs"
  obtains row g s src where "fc_plan st' = fc_plan st @ [row]" "fp_name row = name" "fp_shape row = grid_dims g"
    "alike (fc_placeholders st') (outs(name \<mapsto> g))" "flow_stage_at stages name = Inr s" "materialize (fs_source s) outs = Inr src"
    "grid_reference src = Inr (g_words g)"
    "grid_run (\<lambda>_. None) src = Inr \<lparr>gr_succeeded = True, gr_output = Some (g_rows g, g_columns g, g_words g)\<rparr>"
    "\<And>raised r. grid_run raised src = Inr r \<Longrightarrow> gr_succeeded r \<Longrightarrow> gr_output r = Some (g_rows g, g_columns g, g_words g)"
proof -
  obtain s m cg counts where c: "flow_stage_at stages name = Inr s" "materialize (fs_source s) (fc_placeholders st) = Inr m" "compile m = Inr cg"
    "st' = \<lparr>fc_placeholders = (fc_placeholders st)(name \<mapsto> zero_plane (cg_rows cg, cg_columns cg)),
       fc_plan = fc_plan st @ [\<lparr>fp_name = name, fp_deps = sorted_list_of_set (fs_deps s), fp_shape = (cg_rows cg, cg_columns cg),
         fp_sessions = length (cg_items cg), fp_jobs = sum_list counts\<rparr>],
       fc_sessions = fc_sessions st + length (cg_items cg), fc_jobs = fc_jobs st + sum_list counts\<rparr>"
    using st unfolding compile_flow_stage_def Let_def by (simp only: res_simps reject_eq Inr_inject) blast
  have "admitted_shape m = Some (cg_rows cg, cg_columns cg)" using c(3) by (simp add: admitted_shape_def)
  then obtain src where src: "materialize (fs_source s) outs = Inr src" "admitted_shape src = Some (cg_rows cg, cg_columns cg)"
    using materialize_alike [OF c(2) al] by blast
  obtain g where g: "grid_ok g" "grid_dims g = (cg_rows cg, cg_columns cg)" "grid_reference src = Inr (g_words g)"
    "grid_run (\<lambda>_. None) src = Inr \<lparr>gr_succeeded = True, gr_output = Some (g_rows g, g_columns g, g_words g)\<rparr>"
    "\<And>raised r. grid_run raised src = Inr r \<Longrightarrow> gr_succeeded r \<Longrightarrow> gr_output r = Some (g_rows g, g_columns g, g_words g)"
    using mf01.exec_plane [OF src(2)] by metis
  have "alike (fc_placeholders st') (outs(name \<mapsto> g))" unfolding c(4) flow_state.simps
    using placeholder_ok [OF g(1)] g(1,2) by (intro alike_update [OF al]) simp_all
  then show thesis using that [OF _ _ _ _ c(1) src(1) g(3-5)] c(4) g(2) by simp
qed

section \<open>The loop over the stages\<close>

lemma flow_stages:
  assumes "foldM (compile_flow_stage stages) st order = Inr st'" "alike (fc_placeholders st) outs"
  shows "\<exists>rows outs'. fc_plan st' = fc_plan st @ rows \<and> map fp_name rows = order \<and> alike (fc_placeholders st') outs' \<and>
    dom outs' = dom outs \<union> set order \<and> foldM (flow_ref_stage stages) outs rows = Inr outs' \<and>
    (\<forall>i. flow_loop (\<lambda>_ _. None) stages i outs order = Inr (outs', i + length order, True)) \<and>
    (\<forall>raised i planes n. flow_loop raised stages i outs order = Inr (planes, n, True) \<longrightarrow> planes = outs')"
  using assms
proof (induction order arbitrary: st outs)
  case (Cons name order)
  then obtain st1 where st1: "compile_flow_stage stages st name = Inr st1" "foldM (compile_flow_stage stages) st1 order = Inr st'" by (auto simp: res_simps)
  obtain row g s src where a: "fc_plan st1 = fc_plan st @ [row]" "fp_name row = name" "fp_shape row = grid_dims g"
    "alike (fc_placeholders st1) (outs(name \<mapsto> g))" "flow_stage_at stages name = Inr s" "materialize (fs_source s) outs = Inr src"
    "grid_reference src = Inr (g_words g)"
    "grid_run (\<lambda>_. None) src = Inr \<lparr>gr_succeeded = True, gr_output = Some (g_rows g, g_columns g, g_words g)\<rparr>"
    "\<And>raised r. grid_run raised src = Inr r \<Longrightarrow> gr_succeeded r \<Longrightarrow> gr_output r = Some (g_rows g, g_columns g, g_words g)"
    by (rule flow_stage_step [OF st1(1) Cons.prems(2)], rule that; blast)
  obtain rows outs' where b: "fc_plan st' = fc_plan st1 @ rows" "map fp_name rows = order" "alike (fc_placeholders st') outs'"
    "dom outs' = dom (outs(name \<mapsto> g)) \<union> set order" "foldM (flow_ref_stage stages) (outs(name \<mapsto> g)) rows = Inr outs'"
    "\<And>i. flow_loop (\<lambda>_ _. None) stages i (outs(name \<mapsto> g)) order = Inr (outs', i + length order, True)"
    "\<And>raised i planes n. flow_loop raised stages i (outs(name \<mapsto> g)) order = Inr (planes, n, True) \<Longrightarrow> planes = outs'"
    using Cons.IH [OF st1(2) a(4)] by blast
  have g: "\<lparr>g_rows = g_rows g, g_columns = g_columns g, g_words = g_words g\<rparr> = g" by (cases g) simp
  have ref: "flow_ref_stage stages outs row = Inr (outs(name \<mapsto> g))" using a(2,3,5-7) by (simp add: flow_ref_stage_def grid_dims_def g)
  have "planes = outs'" if loop: "flow_loop raised stages i outs (name # order) = Inr (planes, n, True)" for raised i planes n
  proof -
    obtain r where r: "grid_run (raised i) src = Inr r" "gr_succeeded r"
      using loop a(5,6) by (auto simp: res_simps split: if_splits)
    then show ?thesis using loop r(1) a(5,6) a(9) [OF r] b(7) [of raised "Suc i"] by (simp add: want_def g)
  qed
  moreover have "flow_loop (\<lambda>_ _. None) stages i outs (name # order) = Inr (outs', i + length (name # order), True)" for i
    using a(5,6,8) b(6) [of "Suc i"] by (simp add: want_def g)
  moreover have "foldM (flow_ref_stage stages) outs (row # rows) = Inr outs'" using ref b(5) by simp
  ultimately show ?case using a(1,2) b(1-4) by (intro exI [of _ "row # rows"] exI [of _ outs']) auto
qed (auto simp: alike_def)

lemma publish_flow_total:
  assumes "set (fw_outputs plan) \<subseteq> dom outs"
  shows "publish_flow plan outs = Inr (map (\<lambda>n. (n, the (outs n))) (fw_outputs plan))"
  unfolding publish_flow_def using assms by (intro mapM_eq_map) (auto simp: mget_def dom_def subset_iff)

lemma flow_budget:
  assumes "foldM (compile_flow_stage stages) st order = Inr st'"
    "fc_sessions st = (\<Sum>r\<leftarrow>fc_plan st. fp_sessions r)" "fc_jobs st = (\<Sum>r\<leftarrow>fc_plan st. fp_jobs r)" "fc_sessions st \<le> 16" "fc_jobs st \<le> 128"
  shows "fc_sessions st' = (\<Sum>r\<leftarrow>fc_plan st'. fp_sessions r) \<and> fc_jobs st' = (\<Sum>r\<leftarrow>fc_plan st'. fp_jobs r) \<and> fc_sessions st' \<le> 16 \<and> fc_jobs st' \<le> 128"
  using assms(1)
  by (rule foldM_invariant) (use assms(2-5) in \<open>auto simp: compile_flow_stage_def Let_def res_simps\<close>)

lemma flow_run_published:
  assumes "compile_flow j = Inr plan"
  shows "fw_sessions plan \<le> 16 \<and> fw_jobs plan \<le> 128 \<and>
    (\<exists>outs. flow_reference j = Inr outs \<and> map fst outs = fw_outputs plan \<and> (\<forall>p \<in> set outs. grid_ok (snd p)) \<and>
      flow_run (\<lambda>_ _. None) j = Inr \<lparr>fr_succeeded = True, fr_attempted = length (fw_order plan), fr_outputs = Some outs\<rparr> \<and>
      (\<forall>raised r. flow_run raised j = Inr r \<longrightarrow> fr_outputs r = (if fr_succeeded r then Some outs else None)))"
proof -
  obtain fl st where fl: "flow_structure j = Inr fl" and st: "foldM (compile_flow_stage (fl_stages fl)) empty_flow (fl_order fl) = Inr st"
    and plan: "plan_flow fl = Inr plan"
      "plan = \<lparr>fw_order = fl_order fl, fw_stages = fc_plan st, fw_outputs = fl_outputs fl, fw_sessions = fc_sessions st, fw_jobs = fc_jobs st\<rparr>"
    using assms unfolding compile_flow_def plan_flow_def by (auto simp: res_simps)
  have "alike (fc_placeholders empty_flow) Map.empty" by (simp add: alike_def empty_flow_def)
  from flow_stages [OF st this] obtain rows outs where o':
    "fc_plan st = rows" "alike (fc_placeholders st) outs" "dom outs = set (fl_order fl)" "foldM (flow_ref_stage (fl_stages fl)) Map.empty rows = Inr outs"
    "\<And>i. flow_loop (\<lambda>_ _. None) (fl_stages fl) i Map.empty (fl_order fl) = Inr (outs, i + length (fl_order fl), True)"
    "\<And>raised i planes n. flow_loop raised (fl_stages fl) i Map.empty (fl_order fl) = Inr (planes, n, True) \<Longrightarrow> planes = outs"
    by (simp add: empty_flow_def) blast
  let ?outs = "map (\<lambda>n. (n, the (outs n))) (fl_outputs fl)"
  have sub: "set (fl_outputs fl) \<subseteq> dom outs" using flow_structure_ok [OF fl] unfolding o'(3) flow_ok_def by blast
  then have pub: "publish_flow plan outs = Inr ?outs" using publish_flow_total [of plan outs] plan(2) by simp
  have ok: "\<forall>p \<in> set ?outs. grid_ok (snd p)"
  proof
    fix p assume "p \<in> set ?outs"
    then obtain n where n: "n \<in> set (fl_outputs fl)" "p = (n, the (outs n))" by auto
    then obtain g where "outs n = Some g" using sub by blast
    moreover from this have "grid_ok g" using o'(2) by (auto simp: alike_def option_rel_Some2 dest!: spec [of _ n])
    ultimately show "grid_ok (snd p)" using n by simp
  qed
  have "fr_outputs r = (if fr_succeeded r then Some ?outs else None)" if "flow_run raised j = Inr r" for raised r
    using that fl plan pub o'(6) unfolding flow_run_def by (auto simp: res_simps split: if_splits)
  moreover have "flow_reference j = Inr ?outs" using fl plan o'(1,4) pub by (simp add: flow_reference_def)
  moreover have "flow_run (\<lambda>_ _. None) j = Inr \<lparr>fr_succeeded = True, fr_attempted = length (fw_order plan), fr_outputs = Some ?outs\<rparr>"
    using fl plan(1) o'(5) [of 0] pub by (simp add: flow_run_def plan(2))
  moreover have "map fst ?outs = fw_outputs plan" by (simp add: plan(2) comp_def)
  moreover have "fw_sessions plan \<le> 16 \<and> fw_jobs plan \<le> 128" using flow_budget [OF st] plan(2) by (simp add: empty_flow_def)
  ultimately show ?thesis using ok by blast
qed

text \<open>
  C4. A run of an admitted flow publishes the reference or nothing. Whenever \<open>compile\<close> admits a
  flow (with zero planes in the place of its links and at most 16 sessions and 128 jobs), the
  whole-flow reference is defined on the real planes and gives a valid plane for every named
  output; the stage loop without faults completes every stage and publishes exactly these
  planes; and under any pattern of session faults a returned record holds either all of them or
  no output.
\<close>

theorem flow_run_correct:
  assumes "compile_flow j = Inr plan"
  shows "fw_sessions plan \<le> 16 \<and> fw_jobs plan \<le> 128 \<and>
    (\<exists>outs. flow_reference j = Inr outs \<and> map fst outs = fw_outputs plan \<and> (\<forall>p \<in> set outs. grid_ok (snd p)) \<and>
      flow_run (\<lambda>_ _. None) j = Inr \<lparr>fr_succeeded = True, fr_attempted = length (fw_order plan), fr_outputs = Some outs\<rparr> \<and>
      (\<forall>raised r. flow_run raised j = Inr r \<longrightarrow> fr_outputs r = (if fr_succeeded r then Some outs else None)))"
  by (rule flow_run_published [OF assms])

text \<open>Two stages: the sum of neighbours of a row, doubled by a second stage that reads the first one twice.\<close>

definition demo_view :: "int \<Rightarrow> json" where
  "demo_view i = JDict [(''input'', JInt i), (''offset'', JList [JInt 0, JInt 0]), (''step'', JList [JInt 0, JInt 0]),
     (''row'', JList [JInt 1, JInt 0]), (''column'', JList [JInt 0, JInt 1])]"

definition demo_flow :: json where
  "demo_flow = JDict [(''schema'', JStr FLOW_SCHEMA),
     (''stages'', JList [
        JDict [(''name'', JStr ''double''), (''source'', JDict [(''schema'', JStr GRID_V2),
          (''inputs'', JList [JDict [(''from'', JStr ''near'')], JDict [(''from'', JStr ''near'')]]),
          (''shape'', JList [JInt 1, JInt 2]), (''tile'', JList [JInt 1, JInt 2]), (''boundary'', JStr ''zero''),
          (''kernel'', JDict [(''extent'', JInt 1), (''fold'', JStr ''sum''), (''views'', JDict [(''a'', demo_view 0), (''b'', demo_view 1)]),
             (''nodes'', JList (map node_json [\<lparr>nid = ''x'', nop = OpLoad, nargs = [], nview = ''a'', nimm = 0\<rparr>,
                \<lparr>nid = ''y'', nop = OpLoad, nargs = [], nview = ''b'', nimm = 0\<rparr>, \<lparr>nid = ''z'', nop = OpAdd, nargs = [''x'', ''y''], nview = [], nimm = 0\<rparr>])),
             (''result'', JStr ''z'')])])],
        JDict [(''name'', JStr ''near''), (''source'', demo_grid)]]),
     (''outputs'', JList [JStr ''double''])]"

lemma demo_flow_compiles: "\<exists>plan. compile_flow demo_flow = Inr plan \<and> fw_order plan = [''near'', ''double''] \<and> fw_outputs plan = [''double'']"
proof -
  have "(case compile_flow demo_flow of Inl _ \<Rightarrow> False | Inr plan \<Rightarrow> fw_order plan = [''near'', ''double''] \<and> fw_outputs plan = [''double''])" by code_simp
  then show ?thesis by (auto split: sum.splits)
qed

theorem flow_run_correct_witness:
  "\<exists>outs. flow_reference demo_flow = Inr outs \<and> map fst outs = [''double''] \<and>
     flow_run (\<lambda>_ _. None) demo_flow = Inr \<lparr>fr_succeeded = True, fr_attempted = 2, fr_outputs = Some outs\<rparr>"
proof -
  obtain plan where plan: "compile_flow demo_flow = Inr plan" "fw_order plan = [''near'', ''double'']" "fw_outputs plan = [''double'']"
    using demo_flow_compiles by blast
  from flow_run_correct [OF plan(1)] plan(2,3) show ?thesis by auto
qed

end
