(* ===== verification/Grid_Plan.thy ===== *)
theory Grid_Plan
  imports Grid_Words "HOL-Library.Multiset"
begin

text \<open>
  \<open>raveil/mf01_grid_plan.py\<close>: the search among 256 uniform tiles for a grid source. Every
  candidate is the source with its tile replaced, admitted or rejected by the grid compiler;
  the smallest score wins. Rejections are counted by the constant part of the message.
  Hashes of the sources, which the proposal also carries, are not modelled.
\<close>

section \<open>The search\<close>

definition with_tile :: "(string \<times> json) list \<Rightarrow> int \<times> int \<Rightarrow> json" where
  "with_tile d t = JDict (with_field d ''tile'' (JList [JInt (fst t), JInt (snd t)]))"

text \<open>\<open>sum(item['dag']['jobs'][0]['region']['lengths'])\<close>\<close>

definition packed_words :: "json \<Rightarrow> int res" where
  "packed_words dag =
     rbind (jget dag ''jobs'') (\<lambda>js.
     rbind (jlist js) (\<lambda>jobs.
     rbind (py_nth jobs 0) (\<lambda>job.
     rbind (jget job ''region'') (\<lambda>region.
     rbind (jget region ''lengths'') (\<lambda>ls.
     rbind (jlist ls) (\<lambda>lengths. Inr (sum_list (map jint lengths))))))))"

text \<open>The score is a tuple of five integers; lists of this length are compared the same way.\<close>

definition score_of :: "compiled_grid \<Rightarrow> int \<times> int \<Rightarrow> int list res" where
  "score_of cg t =
     rbind (mapM (\<lambda>item. packed_words (snd item)) (cg_items cg)) (\<lambda>words.
     Inr [int (length (cg_layout cg)), sum_list words, fst t * snd t, fst t, snd t])"

record tile_search =
  se_best :: "(int list \<times> json) option"
  se_admitted :: nat
  se_rejections :: "(string \<times> nat) list"

text \<open>\<open>rejections[reason] = rejections.get(reason, 0) + 1\<close>\<close>

definition add_rejection :: "(string \<times> nat) list \<Rightarrow> string \<Rightarrow> (string \<times> nat) list" where
  "add_rejection rs reason =
     (if reason \<in> fst ` set rs then map (\<lambda>(r, n). (r, if r = reason then n + 1 else n)) rs else rs @ [(reason, 1)])"

definition try_tile :: "(string \<times> json) list \<Rightarrow> tile_search \<Rightarrow> int \<times> int \<Rightarrow> tile_search res" where
  "try_tile d st t =
     (case compile (with_tile d t) of
        Inl (ValueError reason) \<Rightarrow> Inr (st\<lparr>se_rejections := add_rejection (se_rejections st) reason\<rparr>)
      | Inl e \<Rightarrow> Inl e
      | Inr cg \<Rightarrow>
          rbind (score_of cg t) (\<lambda>score.
          Inr (st\<lparr>se_admitted := se_admitted st + 1,
                  se_best := (case se_best st of
                      None \<Rightarrow> Some (score, with_tile d t)
                    | Some (s, j) \<Rightarrow> if score < s then Some (score, with_tile d t) else Some (s, j))\<rparr>)))"

definition all_tiles :: "(int \<times> int) list" where
  "all_tiles = concat (map (\<lambda>r. map (Pair r) [1..16]) [1..16])"

record tile_proposal =
  tp_requested :: coord
  tp_searched :: nat
  tp_admitted :: nat
  tp_tile :: coord
  tp_sessions :: int
  tp_words :: int
  tp_rejected :: "(string \<times> nat) list"
  tp_source :: json

definition grid_plan :: "json \<Rightarrow> tile_proposal res" where
  "grid_plan j =
     rbind (want_dict (Some j) ''grid source must be an object'') (\<lambda>d.
     rbind (int_pair (map_of d ''tile'') ''two requested tile dimensions required'' 1 16) (\<lambda>tile.
     rbind (source (with_tile d (16, 16))) (\<lambda>_.
     rbind (foldM (try_tile d) \<lparr>se_best = None, se_admitted = 0, se_rejections = []\<rparr> all_tiles) (\<lambda>st.
     rbind (want (se_best st) ''no admitted uniform tile among 256 candidates: '') (\<lambda>(score, selected).
     Inr \<lparr>tp_requested = tile, tp_searched = 256, tp_admitted = se_admitted st, tp_tile = (score ! 3, score ! 4),
          tp_sessions = score ! 0, tp_words = score ! 1, tp_rejected = sort_key fst (se_rejections st), tp_source = selected\<rparr>)))))"

section \<open>Scores\<close>

lemma compiled_dag:
  assumes cg: "compile j = Inr cg" and gs: "source j = Inr gs" and item: "item \<in> set (cg_items cg)"
  shows "\<exists>name h w extent fo lengths views nodes result ins jobs. length jobs = (if gs_post gs = None then 0 else 1) \<and>
    snd item = dag_dict (job_dict name (region_dict h w extent fo lengths views nodes result) ins # jobs)"
proof -
  obtain nodes post tiles where t: "lowered_post gs = Inr post" "length tiles = length (tile_origins gs)"
    "\<And>k. k < length (tile_origins gs) \<Longrightarrow> compile_tile gs nodes post k (tile_origins gs ! k) = Inr (tiles ! k)"
    "cg_items cg = map (\<lambda>(name, dag, _). (name, dag)) tiles"
    using compile_Inr [OF cg] gs by (metis compiled_grid.select_convs(1) Inr_inject)
  obtain k where k: "k < length tiles" "snd item = fst (snd (tiles ! k))" using item unfolding t(4) by (auto simp: in_set_conv_nth case_prod_beta)
  obtain row col where rc: "tile_origins gs ! k = (row, col)" by force
  obtain name dag tile where tk: "tiles ! k = (name, dag, tile)" by (cases "tiles ! k")
  have "compile_tile gs nodes post k (row, col) = Inr (name, dag, tile)" using t k rc tk by metis
  then obtain h w lengths views ins pregion jobs where jobs: "dag = dag_dict jobs"
    "(let R = region_dict h w (gs_extent gs) (fold_json (gs_fold gs)) lengths views nodes (gs_result gs)
      in case post of None \<Rightarrow> Inr [job_dict ''result'' R ins]
         | Some (pnodes, presult) \<Rightarrow> rbind (recast ''malformed post map'' (compile_region (pregion pnodes presult))) (\<lambda>_.
             Inr [job_dict ''reduce'' R ins, job_dict ''result'' (pregion pnodes presult) [JDict [(''from'', JStr ''reduce'')], JList []]])) = Inr jobs"
    unfolding compile_tile_def prod.case Let_def by (simp only: res_simps sum.inject prod.inject) blast
  obtain jname rest where "jobs = job_dict jname (region_dict h w (gs_extent gs) (fold_json (gs_fold gs)) lengths views nodes (gs_result gs)) ins # rest"
    "length rest = (if post = None then 0 else 1)"
    using jobs(2) by (cases post) (auto simp: Let_def res_simps)
  then have "\<exists>name h w extent fo lengths views nodes result ins jobs. length jobs = (if post = None then 0 else 1) \<and>
    dag = dag_dict (job_dict name (region_dict h w extent fo lengths views nodes result) ins # jobs)"
    using jobs(1) by blast
  moreover have "post = None \<longleftrightarrow> gs_post gs = None" using t(1) by (auto simp: lowered_post_def res_simps split: option.splits)
  ultimately show ?thesis using k(2) tk by simp
qed

lemma score_total: "compile j = Inr cg \<Longrightarrow> \<exists>s. score_of cg t = Inr s \<and> length s = 5"
proof -
  assume cg: "compile j = Inr cg"
  obtain gs where gs: "source j = Inr gs" using cg by (auto simp: compile_def res_simps)
  have "\<exists>y. packed_words (snd item) = Inr y" if i: "item \<in> set (cg_items cg)" for item
    using compiled_dag [OF cg gs i]
    by (auto simp: packed_words_def dag_dict_def job_dict_def region_dict_def jget_def dget_def jlist_def py_nth_def)
  then obtain ws where "mapM (\<lambda>item. packed_words (snd item)) (cg_items cg) = Inr ws" using mapM_total by metis
  then show ?thesis by (simp add: score_of_def)
qed

text \<open>The score of a candidate, when it is admitted.\<close>

definition tile_score :: "(string \<times> json) list \<Rightarrow> int \<times> int \<Rightarrow> int list option" where
  "tile_score d t = (case compile (with_tile d t) of Inl _ \<Rightarrow> None | Inr cg \<Rightarrow> (case score_of cg t of Inl _ \<Rightarrow> None | Inr s \<Rightarrow> Some s))"

lemma tile_score_None: "tile_score d t = None \<longleftrightarrow> (\<exists>e. compile (with_tile d t) = Inl e)"
  using score_total [of "with_tile d t" _ t] by (auto simp: tile_score_def split: sum.splits)

lemma tile_score_Some: "tile_score d t = Some s \<longleftrightarrow> (\<exists>cg. compile (with_tile d t) = Inr cg \<and> score_of cg t = Inr s)"
  by (auto simp: tile_score_def split: sum.splits)

lemma add_rejection_keys: "fst ` set (add_rejection rs reason) = insert reason (fst ` set rs)"
  by (auto simp: add_rejection_def image_image case_prod_beta)

lemma rejections_add: "distinct (map fst rs) \<Longrightarrow>
  distinct (map fst (add_rejection rs reason)) \<and> (\<Sum>p\<leftarrow>add_rejection rs reason. snd p) = (\<Sum>p\<leftarrow>rs. snd p) + 1"
proof (induction rs)
  case (Cons p rs)
  show ?case
  proof (cases "fst p = reason")
    case True
    then have "map (\<lambda>(r, n). (r, if r = reason then n + 1 else n)) rs = rs"
      using Cons.prems by (intro map_idI) (auto simp: image_iff)
    then show ?thesis using True Cons.prems by (cases p) (simp add: add_rejection_def)
  next
    case False
    then have "add_rejection (p # rs) reason = p # add_rejection rs reason" by (cases p) (auto simp: add_rejection_def)
    moreover have "fst p \<notin> fst ` set (add_rejection rs reason)" using False Cons.prems by (simp add: add_rejection_keys)
    ultimately show ?thesis using Cons by simp
  qed
qed (simp add: add_rejection_def)

section \<open>What the search finds\<close>

definition searched :: "(string \<times> json) list \<Rightarrow> (int \<times> int) list \<Rightarrow> tile_search \<Rightarrow> bool" where
  "searched d ts st \<longleftrightarrow> distinct (map fst (se_rejections st)) \<and>
     se_admitted st = length (filter (\<lambda>t. tile_score d t \<noteq> None) ts) \<and> se_admitted st + (\<Sum>p\<leftarrow>se_rejections st. snd p) = length ts \<and>
     (case se_best st of None \<Rightarrow> \<forall>t \<in> set ts. tile_score d t = None
      | Some (s, j) \<Rightarrow> \<exists>t \<in> set ts. tile_score d t = Some s \<and> j = with_tile d t \<and> (\<forall>u \<in> set ts. \<forall>s'. tile_score d u = Some s' \<longrightarrow> s \<le> s'))"

lemma try_tile_searched:
  assumes "searched d ts st"
  shows "\<exists>st'. try_tile d st t = Inr st' \<and> searched d (ts @ [t]) st'"
proof (cases "compile (with_tile d t)")
  case (Inl e)
  then obtain reason where e: "e = ValueError reason" using compile_value_error [of "with_tile d t"] by (cases e) (auto simp: value_error_def)
  have n: "tile_score d t = None" using Inl by (simp add: tile_score_None)
  show ?thesis using assms n rejections_add [of "se_rejections st" reason] unfolding try_tile_def Inl e searched_def
    by (auto split: option.splits)
next
  case (Inr cg)
  obtain s where s: "score_of cg t = Inr s" using score_total [OF Inr] by blast
  then have ts: "tile_score d t = Some s" using Inr by (simp add: tile_score_def)
  show ?thesis
  proof (cases "se_best st")
    case None
    then show ?thesis using assms s ts unfolding try_tile_def Inr searched_def by auto
  next
    case (Some q)
    obtain s0 j0 where q: "q = (s0, j0)" by force
    then obtain t0 where t0: "t0 \<in> set ts" "tile_score d t0 = Some s0" "j0 = with_tile d t0"
      "\<forall>u \<in> set ts. \<forall>s'. tile_score d u = Some s' \<longrightarrow> s0 \<le> s'" using assms Some by (auto simp: searched_def)
    have "\<exists>x \<in> set (ts @ [t]). tile_score d x = Some (if s < s0 then s else s0) \<and> (if s < s0 then with_tile d t else j0) = with_tile d x \<and>
        (\<forall>u \<in> set (ts @ [t]). \<forall>s'. tile_score d u = Some s' \<longrightarrow> (if s < s0 then s else s0) \<le> s')"
    proof (cases "s < s0")
      case True
      then show ?thesis using t0 ts by (intro bexI [of _ t]) (auto intro: less_imp_le order_trans)
    next
      case False
      then show ?thesis using t0 ts by (intro bexI [of _ t0]) auto
    qed
    then show ?thesis using assms s ts Some q unfolding try_tile_def Inr searched_def by (auto split: if_splits)
  qed
qed

lemma search_tiles: "\<exists>st. foldM (try_tile d) \<lparr>se_best = None, se_admitted = 0, se_rejections = []\<rparr> ts = Inr st \<and> searched d ts st"
proof (induction ts rule: rev_induct)
  case (snoc t ts)
  then obtain st where "foldM (try_tile d) \<lparr>se_best = None, se_admitted = 0, se_rejections = []\<rparr> ts = Inr st" "searched d ts st" by blast
  then show ?case using try_tile_searched [of d ts st t] by (simp add: foldM_append) (metis rbind_simps(2))
qed (simp add: searched_def)

lemma all_tiles_iff: "(r, c) \<in> set all_tiles \<longleftrightarrow> 1 \<le> r \<and> r \<le> 16 \<and> 1 \<le> c \<and> c \<le> 16"
  by (auto simp: all_tiles_def image_iff)

lemma length_all_tiles: "length all_tiles = 256"
  by code_simp

lemma with_tile_reference:
  assumes "compile (with_tile d t) = Inr cg" "compile (with_tile d u) = Inr cg'"
  shows "grid_reference (with_tile d u) = grid_reference (with_tile d t)" "cg_rows cg' = cg_rows cg" "cg_columns cg' = cg_columns cg"
  using grid_reference_tile [of "with_field d ''tile'' (JList [JInt (fst t), JInt (snd t)])" cg "JList [JInt (fst u), JInt (snd u)]" cg'] assms
  by (simp_all add: with_tile_def with_field_twice)

lemma grid_plan_cases:
  assumes req: "int_pair (map_of d ''tile'') ''two requested tile dimensions required'' 1 16 = Inr requested" and src: "source (with_tile d (16, 16)) = Inr gs"
  obtains "grid_plan (JDict d) = Inl (ValueError ''no admitted uniform tile among 256 candidates: '')" "\<forall>t \<in> set all_tiles. tile_score d t = None"
  | p s where "grid_plan (JDict d) = Inr p" "tp_tile p \<in> set all_tiles" "tp_source p = with_tile d (tp_tile p)" "tile_score d (tp_tile p) = Some s"
      "\<forall>u \<in> set all_tiles. \<forall>s'. tile_score d u = Some s' \<longrightarrow> s \<le> s'" "tp_sessions p = s ! 0" "tp_words p = s ! 1"
      "tp_admitted p = length (filter (\<lambda>t. tile_score d t \<noteq> None) all_tiles)" "tp_admitted p + (\<Sum>q\<leftarrow>tp_rejected p. snd q) = 256"
proof -
  obtain st where st: "foldM (try_tile d) \<lparr>se_best = None, se_admitted = 0, se_rejections = []\<rparr> all_tiles = Inr st" "searched d all_tiles st"
    using search_tiles by blast
  have f: "grid_plan (JDict d) = rbind (want (se_best st) ''no admitted uniform tile among 256 candidates: '') (\<lambda>(score, selected).
     Inr \<lparr>tp_requested = requested, tp_searched = 256, tp_admitted = se_admitted st, tp_tile = (score ! 3, score ! 4),
          tp_sessions = score ! 0, tp_words = score ! 1, tp_rejected = sort_key fst (se_rejections st), tp_source = selected\<rparr>)"
    unfolding grid_plan_def want_dict_def option.case json.case rbind_simps req src st(1) ..
  show thesis
  proof (cases "se_best st")
    case None
    then show thesis using that(1) f st(2) by (simp add: want_def searched_def)
  next
    case (Some q)
    obtain s t where t: "q = (s, with_tile d t)" "t \<in> set all_tiles" "tile_score d t = Some s"
      "\<forall>u \<in> set all_tiles. \<forall>s'. tile_score d u = Some s' \<longrightarrow> s \<le> s'"
      using st(2) Some by (cases q) (auto simp: searched_def)
    have at: "(s ! 3, s ! 4) = t" using t(3) by (auto simp: tile_score_Some score_of_def res_simps)
    have "(\<Sum>p\<leftarrow>sort_key fst (se_rejections st). snd p) = (\<Sum>p\<leftarrow>se_rejections st. snd p)"
      by (metis mset_map mset_sort sum_mset_sum_list)
    then show thesis using that(2) f st(2) Some t at length_all_tiles by (simp add: want_def searched_def)
  qed
qed

text \<open>
  C14. The tile search is exact and harmless. On a source that is valid up to its partition, it
  fails exactly when none of the 256 tiles is admitted; otherwise the proposed source is the
  given one with its tile replaced, the compiler admits it, its score (sessions, packed words,
  area, rows, columns) is the smallest among the admitted tiles, every candidate is counted as
  admitted or rejected, and every admitted tile, the requested one included, computes the same
  grid.
\<close>

theorem tile_search_exact:
  assumes "int_pair (map_of d ''tile'') ''two requested tile dimensions required'' 1 16 = Inr requested" "source (with_tile d (16, 16)) = Inr gs"
  shows "case grid_plan (JDict d) of
      Inl e \<Rightarrow> e = ValueError ''no admitted uniform tile among 256 candidates: '' \<and> (\<forall>t \<in> set all_tiles. \<exists>e'. compile (with_tile d t) = Inl e')
    | Inr p \<Rightarrow> (\<exists>cg s. tp_tile p \<in> set all_tiles \<and> tp_source p = with_tile d (tp_tile p) \<and> compile (tp_source p) = Inr cg \<and>
          score_of cg (tp_tile p) = Inr s \<and> tp_sessions p = s ! 0 \<and> tp_words p = s ! 1 \<and> tp_admitted p + (\<Sum>q\<leftarrow>tp_rejected p. snd q) = 256 \<and>
          (\<forall>t \<in> set all_tiles. \<forall>cg' s'. compile (with_tile d t) = Inr cg' \<and> score_of cg' t = Inr s' \<longrightarrow>
             s \<le> s' \<and> grid_reference (with_tile d t) = grid_reference (tp_source p)) \<and>
          (\<forall>cg'. compile (JDict d) = Inr cg' \<longrightarrow> grid_reference (tp_source p) = grid_reference (JDict d)))"
  using assms
proof (cases rule: grid_plan_cases)
  case 1
  then show ?thesis by (simp add: tile_score_None)
next
  case (2 p s)
  obtain cg where cg: "compile (with_tile d (tp_tile p)) = Inr cg" "score_of cg (tp_tile p) = Inr s" using 2(4) by (auto simp: tile_score_Some)
  have "s \<le> s' \<and> grid_reference (with_tile d t) = grid_reference (tp_source p)"
    if "t \<in> set all_tiles" "compile (with_tile d t) = Inr cg'" "score_of cg' t = Inr s'" for t cg' s'
    using 2(5) that with_tile_reference(1) [OF cg(1) that(2)] unfolding 2(3) by (auto simp: tile_score_Some)
  moreover have "grid_reference (tp_source p) = grid_reference (JDict d)" if "compile (JDict d) = Inr cg'" for cg'
    using grid_reference_tile(1) [OF that cg(1)[unfolded with_tile_def]] by (simp only: 2(3) with_tile_def)
  moreover have "compile (tp_source p) = Inr cg" using cg(1) 2(3) by (simp only:)
  ultimately show ?thesis unfolding 2(1) sum.case using 2(2,3,6,7,9) cg(2) by (intro exI [of _ cg] exI [of _ s]) blast
qed

definition demo_fields :: "(string \<times> json) list" where
  "demo_fields = (case demo_grid of JDict d \<Rightarrow> d | _ \<Rightarrow> [])"

theorem tile_search_exact_witness:
  "\<exists>p cg. grid_plan demo_grid = Inr p \<and> compile (tp_source p) = Inr cg \<and> grid_reference (tp_source p) = grid_reference demo_grid"
proof -
  have d: "demo_grid = JDict demo_fields" "with_tile demo_fields (1, 2) = demo_grid" by code_simp+
  have req: "int_pair (map_of demo_fields ''tile'') ''two requested tile dimensions required'' 1 16 = Inr (1, 2)" by code_simp
  have "(case source (with_tile demo_fields (16, 16)) of Inl _ \<Rightarrow> False | Inr _ \<Rightarrow> True)" by code_simp
  then obtain gs where gs: "source (with_tile demo_fields (16, 16)) = Inr gs" by (auto split: sum.splits)
  obtain cg where cg: "compile demo_grid = Inr cg" using demo_grid_compiles by blast
  have "(1, 2) \<in> set all_tiles" by (simp add: all_tiles_iff)
  moreover have "compile (with_tile demo_fields (1, 2)) = Inr cg" using cg d(2) by simp
  ultimately show ?thesis using tile_search_exact [OF req gs] cg unfolding d(1) [symmetric] by (fastforce split: sum.splits)
qed

end
