(* ===== verification/Flow_Plan.thy ===== *)
theory Flow_Plan
  imports Flow_Correct Grid_Plan
begin

text \<open>
  \<open>raveil/mf01_flow_plan.py\<close>: tile advice for a whole flow. Each stage is searched with zero
  planes in the place of its links, its tile is replaced in a copy of the flow, and the
  compiler admits the copy. Hashes are not modelled.
\<close>

section \<open>The proposal\<close>

text \<open>\<open>by_name[name]['source']['tile'] = tile\<close> in the copy of the flow.\<close>

definition stage_with_tile :: "string \<Rightarrow> coord \<Rightarrow> json \<Rightarrow> json" where
  "stage_with_tile name t stage = (case stage of
     JDict sd \<Rightarrow>
       if map_of sd ''name'' = Some (JStr name) then
         (case map_of sd ''source'' of Some (JDict src) \<Rightarrow> JDict (with_field sd ''source'' (with_tile src t)) | _ \<Rightarrow> stage)
       else stage
   | _ \<Rightarrow> stage)"

definition flow_with_tile :: "json \<Rightarrow> string \<Rightarrow> coord \<Rightarrow> json" where
  "flow_with_tile j name t = (case j of
     JDict d \<Rightarrow>
       (case map_of d ''stages'' of
          Some (JList stages) \<Rightarrow> JDict (with_field d ''stages'' (JList (map (stage_with_tile name t) stages)))
        | _ \<Rightarrow> j)
   | _ \<Rightarrow> j)"

record advice_row =
  av_name :: string
  av_requested :: coord
  av_searched :: nat
  av_admitted :: nat
  av_tile :: coord
  av_sessions :: int
  av_words :: int

record advice_state =
  ad_selected :: json
  ad_placeholders :: planes
  ad_rows :: "advice_row list"

definition advise_stage :: "flow_stage list \<Rightarrow> advice_state \<Rightarrow> string \<Rightarrow> advice_state res" where
  "advise_stage stages st name =
     rbind (flow_stage_at stages name) (\<lambda>s.
     rbind (materialize (fs_source s) (ad_placeholders st)) (\<lambda>resolved.
     rbind (grid_plan resolved) (\<lambda>p.
     rbind (source (tp_source p)) (\<lambda>gs.
     Inr \<lparr>ad_selected = flow_with_tile (ad_selected st) name (tp_tile p),
          ad_placeholders = (ad_placeholders st)(name \<mapsto> zero_plane (gs_shape gs)),
          ad_rows = ad_rows st @ [\<lparr>av_name = name, av_requested = tp_requested p, av_searched = tp_searched p, av_admitted = tp_admitted p,
             av_tile = tp_tile p, av_sessions = tp_sessions p, av_words = tp_words p\<rparr>]\<rparr>))))"

record flow_advice =
  fa_sessions :: nat
  fa_jobs :: nat
  fa_words :: int
  fa_stages :: "advice_row list"
  fa_source :: json

definition advise_flow :: "json \<Rightarrow> flow_advice res" where
  "advise_flow j =
     rbind (flow_structure j) (\<lambda>fl.
     rbind (foldM (advise_stage (fl_stages fl)) \<lparr>ad_selected = j, ad_placeholders = Map.empty, ad_rows = []\<rparr> (fl_order fl)) (\<lambda>st.
     rbind (compile_flow (ad_selected st)) (\<lambda>compiled.
     Inr \<lparr>fa_sessions = fw_sessions compiled, fa_jobs = fw_jobs compiled, fa_words = (\<Sum>r\<leftarrow>ad_rows st. av_words r),
          fa_stages = ad_rows st, fa_source = ad_selected st\<rparr>)))"

section \<open>Flows that differ in tiles\<close>

definition retile :: "string \<Rightarrow> coord \<Rightarrow> flow_stage \<Rightarrow> flow_stage" where
  "retile name t s = (if fs_name s = name then s\<lparr>fs_source := (case fs_source s of JDict d \<Rightarrow> with_tile d t | j \<Rightarrow> j)\<rparr> else s)"

lemma retile_fields [simp]: "fs_name (retile name t s) = fs_name s" "fs_deps (retile name t s) = fs_deps s"
  by (simp_all add: retile_def)

lemma project_name_Inr: "project_name x = Inr s \<Longrightarrow> x = Some (JStr s)"
  by (auto simp: project_name_def res_simps split: option.splits json.splits)

lemma read_retiled:
  assumes "read_flow_stage stages j = Inr s"
  shows "read_flow_stage (map (retile name t) stages) (stage_with_tile name t j) = Inr (retile name t s)"
proof -
  obtain d n src items links where p: "j = JDict d" "keys d = {''name'', ''source''}" "map_of d ''name'' = Some (JStr n)" "project_name (Some (JStr n)) = Inr n"
    "n \<notin> set (map fs_name stages)" "map_of d ''source'' = Some (JDict src)" "map_of src ''inputs'' = Some (JList items)" "1 \<le> length items" "length items \<le> 2"
    "mapM flow_link items = Inr links" "s = \<lparr>fs_name = n, fs_source = JDict src, fs_deps = set (concat links)\<rparr>"
  proof -
    obtain d n' n src items links where q: "Some j = Some (JDict d)" "keys d = {''name'', ''source''}" "map_of d ''name'' = Some (JStr n')"
      "project_name (map_of d ''name'') = Inr n" "n \<notin> set (map fs_name stages)" "map_of d ''source'' = Some (JDict src)"
      "map_of src ''inputs'' = Some (JList items)" "1 \<le> length items \<and> length items \<le> 2"
      "mapM flow_link items = Inr links" "s = \<lparr>fs_name = n, fs_source = JDict src, fs_deps = set (concat links)\<rparr>"
      using assms unfolding read_flow_stage_def
      by (simp only: res_simps reject_eq sum.inject not_not) (elim exE conjE, rule that, (assumption | erule sym | blast)+)
    have "n' = n" using project_name_Inr [OF q(4)] q(3) by simp
    then show thesis using that q by simp
  qed
  have names: "map fs_name (map (retile name t) stages) = map fs_name stages" by simp
  show ?thesis
  proof (cases "n = name")
    case False
    then have "stage_with_tile name t j = j" "retile name t s = s" using p(1,3,11) by (simp_all add: stage_with_tile_def retile_def)
    then show ?thesis using p unfolding read_flow_stage_def names by (simp add: want_dict_def want_str_def want_list_def reject_def)
  next
    case True
    have sd: "stage_with_tile name t j = JDict (with_field d ''source'' (with_tile src t))" using p(1,3,6) True by (simp add: stage_with_tile_def)
    have k: "keys (with_field d ''source'' (with_tile src t)) = {''name'', ''source''}" using p(2) keys_with_field by simp
    have m: "map_of (with_field d ''source'' (with_tile src t)) ''name'' = Some (JStr n)"
      "map_of (with_field d ''source'' (with_tile src t)) ''source'' = Some (with_tile src t)" using p(3,6) by simp_all
    have i: "map_of (with_field src ''tile'' (JList [JInt (fst t), JInt (snd t)])) ''inputs'' = Some (JList items)" using p(7) by simp
    show ?thesis
      unfolding sd read_flow_stage_def names want_dict_def option.case json.case rbind_simps with_tile_def k [unfolded with_tile_def] m [unfolded with_tile_def]
        want_str_def p(4) want_list_def i
      using p(5,8-11) True by (simp add: retile_def with_tile_def reject_def)
  qed
qed

lemma read_stages_retiled:
  assumes "foldM (\<lambda>stages j. rbind (read_flow_stage stages j) (\<lambda>s. Inr (stages @ [s]))) st js = Inr st'"
  shows "foldM (\<lambda>stages j. rbind (read_flow_stage stages j) (\<lambda>s. Inr (stages @ [s]))) (map (retile name t) st) (map (stage_with_tile name t) js)
    = Inr (map (retile name t) st')"
  using assms
proof (induction js arbitrary: st)
  case (Cons j js)
  then obtain s where s: "read_flow_stage st j = Inr s" "foldM (\<lambda>stages j. rbind (read_flow_stage stages j) (\<lambda>s. Inr (stages @ [s]))) (st @ [s]) js = Inr st'"
    by (auto simp: res_simps)
  show ?case using read_retiled [OF s(1), of name t] Cons.IH [OF s(2)] by simp
qed simp

lemma flow_stage_at_retile:
  "flow_stage_at (map (retile name t) stages) n = (case flow_stage_at stages n of Inl e \<Rightarrow> Inl e | Inr s \<Rightarrow> Inr (retile name t s))"
  by (induction stages) (auto simp: flow_stage_at_def dget_def)

lemma flow_order_retile: "flow_order (map (retile name t) stages) = flow_order stages"
proof -
  have "flow_deps (map (retile name t) stages) = flow_deps stages"
    by (intro ext) (auto simp: flow_deps_def flow_stage_at_retile split: sum.splits)
  then show ?thesis by (simp add: flow_order_def comp_def)
qed

lemma flow_structure_retile:
  assumes "flow_structure j = Inr fl"
  shows "flow_structure (flow_with_tile j name t) = Inr (fl\<lparr>fl_stages := map (retile name t) (fl_stages fl)\<rparr>)"
proof -
  let ?read = "foldM (\<lambda>stages j. rbind (read_flow_stage stages j) (\<lambda>s. Inr (stages @ [s]))) []"
  let ?out = "\<lambda>stages o'. rbind (want_str (Some o') ''unknown flow output'') (\<lambda>n.
        rbind (reject (n \<notin> set (map fs_name stages)) (ValueError ''unknown flow output'')) (\<lambda>_. Inr n))"
  obtain d js outs stages names order where p: "Some j = Some (JDict d)" "\<not> keys d \<noteq> {''schema'', ''stages'', ''outputs''}"
    "\<not> map_of d ''schema'' \<noteq> Some (JStr FLOW_SCHEMA)" "map_of d ''stages'' = Some (JList js)" "\<not> \<not> (1 \<le> length js \<and> length js \<le> 8)"
    "map_of d ''outputs'' = Some (JList outs)" "\<not> \<not> (1 \<le> length outs \<and> length outs \<le> 8)" "?read js = Inr stages" "mapM (?out stages) outs = Inr names"
    "\<not> \<not> distinct names" "\<not> \<not> list_all (\<lambda>s. fs_deps s \<subseteq> set (map fs_name stages)) stages" "flow_order stages = Inr order"
    "fl = \<lparr>fl_stages = stages, fl_order = order, fl_outputs = names\<rparr>"
    using assms unfolding flow_structure_def by (simp only: res_simps reject_eq Inr_inject) blast
  let ?js = "map (stage_with_tile name t) js" let ?d = "with_field d ''stages'' (JList ?js)" let ?st = "map (retile name t) stages"
  have j: "flow_with_tile j name t = JDict ?d" using p(1,4) by (simp add: flow_with_tile_def)
  have f: "keys ?d = keys d" "map_of ?d ''schema'' = map_of d ''schema''" "map_of ?d ''stages'' = Some (JList ?js)" "map_of ?d ''outputs'' = Some (JList outs)"
    using p(4,6) keys_with_field by simp_all
  have r: "?read ?js = Inr ?st" using read_stages_retiled [OF p(8)] by simp
  have n: "map fs_name ?st = map fs_name stages" by simp
  have l: "list_all (\<lambda>s. fs_deps s \<subseteq> set (map fs_name stages)) ?st" using p(11) by (simp add: list_all_iff)
  have rej: "\<And>b e. \<not> b \<Longrightarrow> reject b e = Inr ()" by (simp add: reject_def)
  have len: "length ?js = length js" by simp
  have "\<not> \<not> list_all (\<lambda>s. fs_deps s \<subseteq> set (map fs_name stages)) ?st" using l by simp
  then show ?thesis
    unfolding j flow_structure_def want_dict_def option.case json.case rbind_simps f want_list_def len
      rej [OF p(2)] rej [OF p(3)] rej [OF p(5)] rej [OF p(7)] r n p(9) rej [OF p(10)] flow_order_retile p(12)
    by (simp add: reject_def p(13))
qed

section \<open>One stage\<close>

lemma with_field_commute: "k \<noteq> k' \<Longrightarrow> with_field (with_field d k x) k' y = with_field (with_field d k' y) k x"
  by (simp add: with_field_def comp_def case_prod_beta)

lemma compile_source_cong: "source j' = source j \<Longrightarrow> compile j' = compile j"
  by (simp add: compile_def)

text \<open>Any tile passes the source checks that the largest one passes, when it needs at most sixteen tiles.\<close>

lemma source_with_tile:
  assumes src: "source (JDict d) = Inr gs" and t: "1 \<le> fst t" "fst t \<le> 16" "1 \<le> snd t" "snd t \<le> 16" "tiles_needed (gs_shape gs) t \<le> 16"
  shows "source (with_tile d t) = Inr (gs\<lparr>gs_tile := t\<rparr>)"
  using src
proof (rule source_parts, goal_cases)
  case p: (1 schema post items grids shape tile mode extent fo views nodes result)
  let ?d = "with_field d ''tile'' (JList [JInt (fst t), JInt (snd t)])"
  have f: "map_of ?d ''schema'' = map_of d ''schema''" "map_of ?d ''post'' = map_of d ''post''" "map_of ?d ''inputs'' = map_of d ''inputs''"
    "map_of ?d ''shape'' = map_of d ''shape''" "map_of ?d ''boundary'' = map_of d ''boundary''" "map_of ?d ''kernel'' = map_of d ''kernel''"
    by simp_all
  have ks: "keys ?d = keys d" by (rule keys_with_field)
  obtain x where "map_of d ''tile'' = Some x" using p(10) by (cases "map_of d ''tile''") (simp_all add: int_pair_def want_list_def)
  then have "map_of ?d ''tile'' = Some (JList [JInt (fst t), JInt (snd t)])" by simp
  then have tile: "int_pair (map_of ?d ''tile'') ''two tile dimensions required'' 1 16 = Inr t"
    using t(1-4) by (simp add: int_pair_def want_list_def integer_in_def)
  have need: "\<not> tiles_needed shape t > 16" using t(5) p(14) by simp
  have r: "\<And>b e. \<not> b \<Longrightarrow> reject b e = Inr ()" by (simp add: reject_def)
  have w: "want_dict (Some (JDict x)) msg = Inr x" "want_str (Some (JStr s)) msg = Inr s" "want_list (Some (JList l)) msg = Inr l" for x msg s l
    by (simp_all add: want_dict_def want_str_def want_list_def)
  show ?case
    unfolding with_tile_def source_def Let_def w rbind_simps ks f tile p(1,5) w r [OF p(2)] r [OF p(3)] p(4) r [OF p(6)] p(7) r [OF p(8)] p(9) r [OF need]
      p(12,13) prod.case
    by (simp add: p(14))
qed

lemma int_pair_message: "int_pair j msg low high = Inr p \<Longrightarrow> int_pair j msg' low high = Inr p"
  unfolding int_pair_def by (simp add: res_simps)

lemma largest_tile: "gs_ok gs \<Longrightarrow> tiles_needed (gs_shape gs) (16, 16) \<le> 16"
proof -
  assume "gs_ok gs"
  then have "(fst (gs_shape gs) + 15) div 16 \<le> 4" "(snd (gs_shape gs) + 15) div 16 \<le> 4" "0 \<le> (fst (gs_shape gs) + 15) div 16"
    "0 \<le> (snd (gs_shape gs) + 15) div 16"
    by (auto simp: gs_ok_def)
  then have "((fst (gs_shape gs) + 15) div 16) * ((snd (gs_shape gs) + 15) div 16) \<le> 4 * 4" by (intro mult_mono) auto
  then show ?thesis by (simp add: tiles_needed_def algebra_simps)
qed

text \<open>The search succeeds on an admitted source, with at most as many sessions.\<close>

lemma grid_plan_admitted:
  assumes cg: "compile (JDict d) = Inr cg"
  obtains p cg' where "grid_plan (JDict d) = Inr p" "tp_source p = with_tile d (tp_tile p)" "compile (tp_source p) = Inr cg'"
    "length (cg_items cg') \<le> length (cg_items cg)" "cg_rows cg' = cg_rows cg" "cg_columns cg' = cg_columns cg"
proof -
  have layout: "length (cg_layout c) = length (cg_items c)" if "compile j = Inr c" for j c
    using that by (auto simp: compile_def res_simps)
  obtain gs where gs: "source (JDict d) = Inr gs" using cg by (auto simp: compile_def res_simps)
  note ok = source_Inr [OF gs]
  have t: "int_pair (map_of d ''tile'') ''two tile dimensions required'' 1 16 = Inr (gs_tile gs)"
    using gs by (rule source_parts) simp
  have req: "int_pair (map_of d ''tile'') ''two requested tile dimensions required'' 1 16 = Inr (gs_tile gs)" by (rule int_pair_message [OF t])
  have big: "source (with_tile d (16, 16)) = Inr (gs\<lparr>gs_tile := (16, 16)\<rparr>)" using source_with_tile [OF gs] largest_tile [OF ok] by simp
  have "source (with_tile d (gs_tile gs)) = Inr (gs\<lparr>gs_tile := gs_tile gs\<rparr>)" using ok by (intro source_with_tile [OF gs]) (auto simp: gs_ok_def)
  then have own: "compile (with_tile d (gs_tile gs)) = Inr cg" using gs cg compile_source_cong [of "with_tile d (gs_tile gs)" "JDict d"] by simp
  obtain s0 where s0: "score_of cg (gs_tile gs) = Inr s0" using score_total [OF cg] by blast
  then have score0: "tile_score d (gs_tile gs) = Some s0" using own by (auto simp: tile_score_Some)
  have mem: "gs_tile gs \<in> set all_tiles" using ok all_tiles_iff [of "fst (gs_tile gs)" "snd (gs_tile gs)"] by (simp add: gs_ok_def)
  from req big show thesis
  proof (cases rule: grid_plan_cases)
    case 1
    then show thesis using mem score0 by auto
  next
    case (2 p s)
    obtain cg' where cg': "compile (tp_source p) = Inr cg'" "score_of cg' (tp_tile p) = Inr s" using 2(3,4) by (auto simp: tile_score_Some)
    have "s \<le> s0" using 2(5) mem score0 by blast
    moreover have "s ! 0 = int (length (cg_layout cg'))" "s0 ! 0 = int (length (cg_layout cg))" "s \<noteq> []" "s0 \<noteq> []"
      using cg'(2) s0 by (auto simp: score_of_def res_simps)
    ultimately have "length (cg_layout cg') \<le> length (cg_layout cg)" by (cases s; cases s0) auto
    then have "length (cg_items cg') \<le> length (cg_items cg)" using layout [OF cg] layout [OF cg'(1)] by simp
    then show thesis using that [OF 2(1,3) cg'(1)] with_tile_reference(2,3) [OF own] cg'(1) 2(3) by simp
  qed
qed

lemma compiled_jobs:
  assumes cg: "compile j = Inr cg" and gs: "source j = Inr gs"
  shows "mapM (\<lambda>item. dag_jobs (snd item)) (cg_items cg) = Inr (replicate (length (cg_items cg)) (if gs_post gs = None then 1 else 2))"
proof -
  have "dag_jobs (snd item) = Inr (if gs_post gs = None then 1 else 2)" if item: "item \<in> set (cg_items cg)" for item
    using compiled_dag [OF cg gs item] by (auto simp: dag_jobs_def dag_dict_def)
  then have "mapM (\<lambda>item. dag_jobs (snd item)) (cg_items cg) = Inr (map (\<lambda>_. if gs_post gs = None then 1 else 2) (cg_items cg))"
    by (intro mapM_eq_map) simp
  then show ?thesis by (simp add: map_replicate_const)
qed

text \<open>A state of the flow compiler that has used no more than another.\<close>

definition cheaper :: "flow_state \<Rightarrow> flow_state \<Rightarrow> bool" where
  "cheaper st2 st \<longleftrightarrow> fc_placeholders st2 = fc_placeholders st \<and> fc_sessions st2 \<le> fc_sessions st \<and> fc_jobs st2 \<le> fc_jobs st"

lemma materialize_with_tile:
  assumes "materialize (JDict d) ph = Inr m"
  obtains e where "m = JDict e" "materialize (with_tile d t) ph = Inr (with_tile e t)"
proof -
  obtain items as where d: "map_of d ''inputs'' = Some (JList items)" "mapM (materialize_input ph) items = Inr as" "m = JDict (with_field d ''inputs'' (JList as))"
    using assms by (auto simp: materialize_def res_simps split: json.splits option.splits)
  then have "materialize (with_tile d t) ph = Inr (with_tile (with_field d ''inputs'' (JList as)) t)"
    by (simp add: materialize_def with_tile_def with_field_commute)
  then show thesis using that d(3) by blast
qed

lemma advise_step:
  assumes st: "compile_flow_stage stages st name = Inr st1" and s: "flow_stage_at stages name = Inr s" and src: "fs_source s = JDict d" and nm: "fs_name s = name"
    and ph: "ad_placeholders ast = fc_placeholders st"
  obtains t ast1 where "advise_stage stages ast name = Inr ast1" "ad_selected ast1 = flow_with_tile (ad_selected ast) name t"
    "ad_placeholders ast1 = fc_placeholders st1"
    "\<And>F st2. flow_stage_at F name = Inr (retile name t s) \<Longrightarrow> cheaper st2 st \<Longrightarrow> \<exists>st3. compile_flow_stage F st2 name = Inr st3 \<and> cheaper st3 st1"
proof -
  obtain m cg counts where c: "materialize (fs_source s) (fc_placeholders st) = Inr m" "compile m = Inr cg"
    "mapM (\<lambda>item. dag_jobs (snd item)) (cg_items cg) = Inr counts"
    "\<not> (fc_sessions st + length (cg_items cg) > 16 \<or> fc_jobs st + sum_list counts > 128)"
    "fc_placeholders st1 = (fc_placeholders st)(name \<mapsto> zero_plane (cg_rows cg, cg_columns cg))"
    "fc_sessions st1 = fc_sessions st + length (cg_items cg)" "fc_jobs st1 = fc_jobs st + sum_list counts"
    using st s unfolding compile_flow_stage_def Let_def by (auto simp: res_simps)
  obtain e where m: "m = JDict e" using materialize_with_tile [OF c(1)[unfolded src]] by metis
  obtain p cg' where p: "grid_plan m = Inr p" "tp_source p = with_tile e (tp_tile p)" "compile (tp_source p) = Inr cg'"
    "length (cg_items cg') \<le> length (cg_items cg)" "cg_rows cg' = cg_rows cg" "cg_columns cg' = cg_columns cg"
    using grid_plan_admitted [OF c(2)[unfolded m]] m by metis
  obtain gs gs' where g: "source m = Inr gs" "source (tp_source p) = Inr gs'" "gs_shape gs' = (cg_rows cg', cg_columns cg')"
    using c(2) p(3) by (auto simp: compile_def res_simps)
  let ?t = "tp_tile p"
  have "gs' = gs\<lparr>gs_tile := gs_tile gs'\<rparr>" using source_tile g(1,2) unfolding m p(2) with_tile_def by blast
  from arg_cong [OF this, of gs_post] have post: "gs_post gs' = gs_post gs" by simp
  have mt: "materialize (with_tile d ?t) (fc_placeholders st) = Inr (tp_source p)"
    using materialize_with_tile [OF c(1)[unfolded src], of ?t] m p(2) by (metis json.inject(5))
  have jobs: "sum_list counts = length (cg_items cg) * (if gs_post gs = None then 1 else 2)"
    using compiled_jobs [OF c(2) g(1)] c(3) by (simp add: sum_list_replicate)
  have jobs': "mapM (\<lambda>item. dag_jobs (snd item)) (cg_items cg') = Inr (replicate (length (cg_items cg')) (if gs_post gs = None then 1 else 2))"
    using compiled_jobs [OF p(3) g(2)] post by simp
  have less: "length (cg_items cg') * (if gs_post gs = None then 1 else 2) \<le> sum_list counts" unfolding jobs using p(4) by simp
  define ast1 where "ast1 = \<lparr>ad_selected = flow_with_tile (ad_selected ast) name ?t,
          ad_placeholders = (ad_placeholders ast)(name \<mapsto> zero_plane (gs_shape gs')),
          ad_rows = ad_rows ast @ [\<lparr>av_name = name, av_requested = tp_requested p, av_searched = tp_searched p, av_admitted = tp_admitted p,
             av_tile = ?t, av_sessions = tp_sessions p, av_words = tp_words p\<rparr>]\<rparr>"
  have adv: "advise_stage stages ast name = Inr ast1" using s c(1) ph p(1) g(2) by (simp add: advise_stage_def ast1_def)
  have "\<exists>st3. compile_flow_stage F st2 name = Inr st3 \<and> cheaper st3 st1"
    if F: "flow_stage_at F name = Inr (retile name ?t s)" and ch: "cheaper st2 st" for F st2
  proof -
    have src': "fs_source (retile name ?t s) = with_tile d ?t" using nm src by (simp add: retile_def)
    have ph2: "fc_placeholders st2 = fc_placeholders st" "fc_sessions st2 \<le> fc_sessions st" "fc_jobs st2 \<le> fc_jobs st" using ch by (auto simp: cheaper_def)
    have "\<not> (fc_sessions st2 + length (cg_items cg') > 16 \<or> fc_jobs st2 + length (cg_items cg') * (if gs_post gs = None then 1 else 2) > 128)"
      using ph2(2,3) less p(4) c(4) by linarith
    then show ?thesis
      using F src' ph2 mt p(3-6) jobs' less c(5-7) unfolding compile_flow_stage_def Let_def cheaper_def
      by (auto simp: sum_list_replicate reject_def)
  qed
  then show thesis using that [OF adv, of ?t] c(5) ph g(3) p(5,6) by (simp add: ast1_def)
qed

section \<open>The loop over the stages\<close>

definition retile_all :: "(string \<times> coord) list \<Rightarrow> flow_stage list \<Rightarrow> flow_stage list" where
  "retile_all nts stages = foldl (\<lambda>st (n, t). map (retile n t) st) stages nts"

lemma advise_loop:
  assumes "foldM (compile_flow_stage stages) st order = Inr st'" "ad_placeholders ast = fc_placeholders st"
    and "\<And>n s. flow_stage_at stages n = Inr s \<Longrightarrow> fs_name s = n \<and> (\<exists>d. fs_source s = JDict d)"
  shows "\<exists>ts ast'. length ts = length order \<and> foldM (advise_stage stages) ast order = Inr ast' \<and>
    ad_selected ast' = foldl (\<lambda>j (n, t). flow_with_tile j n t) (ad_selected ast) (zip order ts) \<and>
    (\<forall>F st2. (\<forall>p \<in> set (zip order ts). \<forall>s. flow_stage_at stages (fst p) = Inr s \<longrightarrow> flow_stage_at F (fst p) = Inr (retile (fst p) (snd p) s)) \<longrightarrow>
       cheaper st2 st \<longrightarrow> (\<exists>st3. foldM (compile_flow_stage F) st2 order = Inr st3 \<and> cheaper st3 st'))"
  using assms(1,2)
proof (induction order arbitrary: st ast)
  case (Cons name order)
  obtain st1 where st1: "compile_flow_stage stages st name = Inr st1" "foldM (compile_flow_stage stages) st1 order = Inr st'" using Cons.prems by (auto simp: res_simps)
  obtain s where s: "flow_stage_at stages name = Inr s" using st1(1) by (auto simp: compile_flow_stage_def res_simps)
  obtain d where d: "fs_name s = name" "fs_source s = JDict d" using assms(3) [OF s] by blast
  obtain t ast1 where a: "advise_stage stages ast name = Inr ast1" "ad_selected ast1 = flow_with_tile (ad_selected ast) name t"
    "ad_placeholders ast1 = fc_placeholders st1"
    "\<And>F st2. flow_stage_at F name = Inr (retile name t s) \<Longrightarrow> cheaper st2 st \<Longrightarrow> \<exists>st3. compile_flow_stage F st2 name = Inr st3 \<and> cheaper st3 st1"
    by (rule advise_step [OF st1(1) s d(2,1) Cons.prems(2)], rule that; blast)
  obtain ts ast' where b: "length ts = length order" "foldM (advise_stage stages) ast1 order = Inr ast'"
    "ad_selected ast' = foldl (\<lambda>j (n, t). flow_with_tile j n t) (ad_selected ast1) (zip order ts)"
    "\<And>F st2. (\<forall>p \<in> set (zip order ts). \<forall>s. flow_stage_at stages (fst p) = Inr s \<longrightarrow> flow_stage_at F (fst p) = Inr (retile (fst p) (snd p) s)) \<Longrightarrow>
       cheaper st2 st1 \<Longrightarrow> (\<exists>st3. foldM (compile_flow_stage F) st2 order = Inr st3 \<and> cheaper st3 st')"
    using Cons.IH [OF st1(2) a(3)] by blast
  have "\<exists>st3. foldM (compile_flow_stage F) st2 (name # order) = Inr st3 \<and> cheaper st3 st'"
    if F: "\<forall>p \<in> set (zip (name # order) (t # ts)). \<forall>s. flow_stage_at stages (fst p) = Inr s \<longrightarrow> flow_stage_at F (fst p) = Inr (retile (fst p) (snd p) s)"
      and ch: "cheaper st2 st" for F st2
  proof -
    have "flow_stage_at F name = Inr (retile name t s)" using F s by simp
    from a(4) [OF this ch] obtain st3 where "compile_flow_stage F st2 name = Inr st3" "cheaper st3 st1" by blast
    then show ?thesis using b(4) [of F st3] F by simp
  qed
  then show ?case using a b by (intro exI [of _ "t # ts"] exI [of _ ast']) simp
qed auto

lemma flow_structure_retile_all:
  assumes "flow_structure j = Inr fl"
  shows "flow_structure (foldl (\<lambda>j (n, t). flow_with_tile j n t) j nts) = Inr (fl\<lparr>fl_stages := retile_all nts (fl_stages fl)\<rparr>)"
  using assms
proof (induction nts arbitrary: j fl)
  case (Cons p nts)
  then show ?case using flow_structure_retile [OF Cons.prems, of "fst p" "snd p"] by (simp add: retile_all_def case_prod_beta)
qed (simp add: retile_all_def)

lemma retile_all_at:
  assumes "distinct (map fst nts)" "(n, t) \<in> set nts" "flow_stage_at stages n = Inr s" "fs_name s = n"
  shows "flow_stage_at (retile_all nts stages) n = Inr (retile n t s)"
  using assms
proof (induction nts rule: rev_induct)
  case (snoc p nts)
  have other: "flow_stage_at (retile_all nts stages) n = Inr s" if "n \<notin> fst ` set nts" for nts
    using that
  proof (induction nts rule: rev_induct)
    case (snoc q nts)
    then show ?case using assms(4) by (simp add: retile_all_def case_prod_beta flow_stage_at_retile retile_def)
  qed (simp add: retile_all_def assms(3))
  show ?case
  proof (cases "p = (n, t)")
    case True
    then show ?thesis using other [of nts] snoc.prems(1) by (simp add: retile_all_def flow_stage_at_retile)
  next
    case False
    then have mem: "(n, t) \<in> set nts" using snoc.prems(2) by simp
    then have "n \<in> fst ` set nts" by force
    then have ne: "fst p \<noteq> n" using snoc.prems(1) by auto
    have "flow_stage_at (retile_all nts stages) n = Inr (retile n t s)" using snoc mem by simp
    then show ?thesis using ne assms(4) by (simp add: retile_all_def case_prod_beta flow_stage_at_retile) (simp add: retile_def)
  qed
qed simp

lemma flow_loop_retiled:
  assumes "flow_loop (\<lambda>_ _. None) stages i outs order = Inr (o1, n1, True)" "flow_loop (\<lambda>_ _. None) F i outs order = Inr (o2, n2, True)"
    and F: "\<And>n s. n \<in> set order \<Longrightarrow> flow_stage_at stages n = Inr s \<Longrightarrow> \<exists>t d. fs_source s = JDict d \<and> (\<exists>s'. flow_stage_at F n = Inr s' \<and> fs_source s' = with_tile d t)"
  shows "o1 = o2"
  using assms
proof (induction order arbitrary: i outs)
  case (Cons name order)
  obtain s src r where a: "flow_stage_at stages name = Inr s" "materialize (fs_source s) outs = Inr src" "grid_run (\<lambda>_. None) src = Inr r" "gr_succeeded r"
    using Cons.prems(1) by (auto simp: res_simps split: if_splits)
  obtain t d s' where t: "fs_source s = JDict d" "flow_stage_at F name = Inr s'" "fs_source s' = with_tile d t"
    using Cons.prems(3) [OF list.set_intros(1) a(1)] by blast
  obtain e where e: "src = JDict e" "materialize (fs_source s') outs = Inr (with_tile e t)"
    using materialize_with_tile [OF a(2)[unfolded t(1)], of t] unfolding t(3) by metis
  obtain r' where r': "grid_run (\<lambda>_. None) (with_tile e t) = Inr r'" "gr_succeeded r'"
    using Cons.prems(2) t(2) e(2) by (auto simp: res_simps split: if_splits)
  obtain cg ws where b: "compile src = Inr cg" "grid_reference src = Inr ws" "gr_output r = Some (cg_rows cg, cg_columns cg, ws)"
    using mf01.exec_sound [OF a(3,4)] by (auto simp: admitted_shape_Some)
  obtain cg' ws' where b': "compile (with_tile e t) = Inr cg'" "grid_reference (with_tile e t) = Inr ws'" "gr_output r' = Some (cg_rows cg', cg_columns cg', ws')"
    using mf01.exec_sound [OF r'] by (auto simp: admitted_shape_Some)
  have "gr_output r' = gr_output r"
    using grid_reference_tile [OF b(1)[unfolded e(1)] b'(1)[unfolded with_tile_def]] b(2,3) b'(2,3) e(1) by (simp add: with_tile_def)
  define P where "P = outs(name \<mapsto> \<lparr>g_rows = cg_rows cg, g_columns = cg_columns cg, g_words = ws\<rparr>)"
  have "flow_loop (\<lambda>_ _. None) stages (Suc i) P order = Inr (o1, n1, True)" "flow_loop (\<lambda>_ _. None) F (Suc i) P order = Inr (o2, n2, True)"
    using Cons.prems(1,2) a t(2) e(2) r' b(3) \<open>gr_output r' = gr_output r\<close> by (simp_all add: want_def P_def)
  from Cons.IH [OF this] Cons.prems(3) show ?case by simp
qed simp

lemma flow_structure_sources:
  assumes "flow_structure j = Inr fl" "flow_stage_at (fl_stages fl) n = Inr s"
  shows "fs_name s = n \<and> (\<exists>d. fs_source s = JDict d)"
proof -
  obtain js stages names order where p: "foldM (\<lambda>stages j. rbind (read_flow_stage stages j) (\<lambda>s. Inr (stages @ [s]))) [] js = Inr stages"
    "fl = \<lparr>fl_stages = stages, fl_order = order, fl_outputs = names\<rparr>"
    using assms(1) unfolding flow_structure_def by (simp only: res_simps reject_eq Inr_inject) blast
  have r: "\<exists>d. fs_source s = JDict d" if "read_flow_stage st j = Inr s" for st j s
    using that unfolding read_flow_stage_def by (simp only: res_simps reject_eq Inr_inject) (elim exE conjE, drule sym, simp)
  from p(1) have "\<forall>s \<in> set stages. \<exists>d. fs_source s = JDict d"
    by (rule foldM_invariant) (auto simp: res_simps dest: r)
  moreover have "(n, s) \<in> set (map (\<lambda>s. (fs_name s, s)) stages)" using assms(2) p(2) by (auto simp: flow_stage_at_def dget_Inr dest: map_of_SomeD)
  ultimately show ?thesis by auto
qed

lemma flow_reference_retiled:
  assumes plan: "compile_flow j = Inr plan" and fl: "flow_structure j = Inr fl" and plan': "compile_flow j' = Inr plan'"
    and fl': "flow_structure j' = Inr (fl\<lparr>fl_stages := F\<rparr>)"
    and F: "\<And>n s. n \<in> set (fl_order fl) \<Longrightarrow> flow_stage_at (fl_stages fl) n = Inr s \<Longrightarrow>
      \<exists>t d. fs_source s = JDict d \<and> (\<exists>s'. flow_stage_at F n = Inr s' \<and> fs_source s' = with_tile d t)"
  shows "flow_reference j' = flow_reference j"
proof -
  obtain outs where o1: "flow_reference j = Inr outs" "flow_run (\<lambda>_ _. None) j = Inr \<lparr>fr_succeeded = True, fr_attempted = length (fw_order plan), fr_outputs = Some outs\<rparr>"
    using flow_run_published [OF plan] by blast
  obtain outs' where o2: "flow_reference j' = Inr outs'"
    "flow_run (\<lambda>_ _. None) j' = Inr \<lparr>fr_succeeded = True, fr_attempted = length (fw_order plan'), fr_outputs = Some outs'\<rparr>"
    using flow_run_published [OF plan'] by blast
  obtain q n where l1: "flow_loop (\<lambda>_ _. None) (fl_stages fl) 0 Map.empty (fl_order fl) = Inr (q, n, True)"
    "mapM (\<lambda>name. rbind (mget q name) (\<lambda>g. Inr (name, g))) (fl_outputs fl) = Inr outs"
    using o1(2) fl unfolding flow_run_def plan_flow_def publish_flow_def by (auto simp: res_simps split: if_splits)
  obtain q' n' where l2: "flow_loop (\<lambda>_ _. None) F 0 Map.empty (fl_order fl) = Inr (q', n', True)"
    "mapM (\<lambda>name. rbind (mget q' name) (\<lambda>g. Inr (name, g))) (fl_outputs fl) = Inr outs'"
    using o2(2) fl' unfolding flow_run_def plan_flow_def publish_flow_def by (auto simp: res_simps split: if_splits)
  have "q = q'" by (rule flow_loop_retiled [OF l1(1) l2(1) F])
  then show ?thesis using l1(2) l2(2) o1(1) o2(1) by simp
qed

text \<open>
  C13. Tile advice for a flow never fails on an admitted flow, never costs more and never
  changes a result. Whenever \<open>compile\<close> admits a flow, the search of every stage succeeds, the
  compiler admits the flow with the proposed tiles with at most as many sessions and jobs as
  before, and the reference of the proposed flow, hence its run, gives the same planes.
\<close>

theorem flow_advice_harmless:
  assumes "compile_flow j = Inr plan"
  shows "\<exists>p plan'. advise_flow j = Inr p \<and> compile_flow (fa_source p) = Inr plan' \<and> fa_sessions p = fw_sessions plan' \<and> fa_jobs p = fw_jobs plan' \<and>
    fw_sessions plan' \<le> fw_sessions plan \<and> fw_jobs plan' \<le> fw_jobs plan \<and> flow_reference (fa_source p) = flow_reference j"
proof -
  obtain fl st where fl: "flow_structure j = Inr fl" and st: "foldM (compile_flow_stage (fl_stages fl)) empty_flow (fl_order fl) = Inr st"
    and plan: "fw_sessions plan = fc_sessions st" "fw_jobs plan = fc_jobs st" "fw_outputs plan = fl_outputs fl"
    using assms unfolding compile_flow_def plan_flow_def by (auto simp: res_simps)
  let ?ast = "\<lparr>ad_selected = j, ad_placeholders = Map.empty, ad_rows = []\<rparr>"
  have "ad_placeholders ?ast = fc_placeholders empty_flow" by (simp add: empty_flow_def)
  from advise_loop [OF st this flow_structure_sources [OF fl]] obtain ts ast where a: "length ts = length (fl_order fl)"
    "foldM (advise_stage (fl_stages fl)) ?ast (fl_order fl) = Inr ast"
    "ad_selected ast = foldl (\<lambda>j (n, t). flow_with_tile j n t) j (zip (fl_order fl) ts)"
    "\<And>F st2. (\<forall>p \<in> set (zip (fl_order fl) ts). \<forall>s. flow_stage_at (fl_stages fl) (fst p) = Inr s \<longrightarrow> flow_stage_at F (fst p) = Inr (retile (fst p) (snd p) s)) \<Longrightarrow>
       cheaper st2 empty_flow \<Longrightarrow> (\<exists>st3. foldM (compile_flow_stage F) st2 (fl_order fl) = Inr st3 \<and> cheaper st3 st)"
    by auto
  let ?nts = "zip (fl_order fl) ts" let ?F = "retile_all ?nts (fl_stages fl)"
  have sel: "flow_structure (ad_selected ast) = Inr (fl\<lparr>fl_stages := ?F\<rparr>)" unfolding a(3) by (rule flow_structure_retile_all [OF fl])
  have dist: "distinct (map fst ?nts)" using flow_structure_ok [OF fl] a(1) by (simp add: flow_ok_def)
  have at: "flow_stage_at ?F n = Inr (retile n t s)" if "(n, t) \<in> set ?nts" "flow_stage_at (fl_stages fl) n = Inr s" for n t s
    using retile_all_at [OF dist that] flow_structure_sources [OF fl that(2)] by blast
  obtain st3 where st3: "foldM (compile_flow_stage ?F) empty_flow (fl_order fl) = Inr st3" "cheaper st3 st"
    using a(4) [of ?F empty_flow] at by (fastforce simp: cheaper_def)
  define plan' where "plan' = \<lparr>fw_order = fl_order fl, fw_stages = fc_plan st3, fw_outputs = fl_outputs fl, fw_sessions = fc_sessions st3, fw_jobs = fc_jobs st3\<rparr>"
  have plan': "compile_flow (ad_selected ast) = Inr plan'" using sel st3(1) by (simp add: compile_flow_def plan_flow_def plan'_def)
  have adv: "advise_flow j = Inr \<lparr>fa_sessions = fw_sessions plan', fa_jobs = fw_jobs plan', fa_words = (\<Sum>r\<leftarrow>ad_rows ast. av_words r),
          fa_stages = ad_rows ast, fa_source = ad_selected ast\<rparr>"
    using fl a(2) plan' by (simp add: advise_flow_def)
  have "\<exists>t d. fs_source s = JDict d \<and> (\<exists>s'. flow_stage_at ?F n = Inr s' \<and> fs_source s' = with_tile d t)"
    if n: "n \<in> set (fl_order fl)" "flow_stage_at (fl_stages fl) n = Inr s" for n s
  proof -
    obtain t where t: "(n, t) \<in> set ?nts" using n(1) a(1) by (metis in_set_impl_in_set_zip1)
    obtain d where d: "fs_name s = n" "fs_source s = JDict d" using flow_structure_sources [OF fl n(2)] by blast
    then have "fs_source (retile n t s) = with_tile d t" by (simp add: retile_def)
    then show ?thesis using at [OF t n(2)] d(2) by blast
  qed
  then have "flow_reference (ad_selected ast) = flow_reference j" by (rule flow_reference_retiled [OF assms fl plan' sel])
  then show ?thesis using adv plan' st3(2) plan by (intro exI conjI) (auto simp: cheaper_def plan'_def)
qed

theorem flow_advice_harmless_witness:
  "\<exists>p plan'. advise_flow demo_flow = Inr p \<and> compile_flow (fa_source p) = Inr plan' \<and> flow_reference (fa_source p) = flow_reference demo_flow"
proof -
  obtain plan where "compile_flow demo_flow = Inr plan" using demo_flow_compiles by blast
  from flow_advice_harmless [OF this] show ?thesis by blast
qed

end
