(* ===== verification/Spec2Isabelle.thy ===== *)
theory Spec2Isabelle
  imports Grid_Run Fold_Validate Graph_Traffic Command_Node Telemetry_Correct Schedule_Trace Array_Correct Flow_Plan
begin

text \<open>
  A verification of the deterministic core of Raveil (directory \<open>raveil/\<close>): the integer array
  stack from a whole array program down to the guest interpreter of 65-word configurations, the
  graph-device compiler with its oracle and fallback, the static stencil region with its
  observations and traces, the command graphs and the completion journal. All paths below are
  relative to \<open>src/\<close>.

  \<^bold>\<open>The program.\<close> An \<^emph>\<open>array program\<close> (\<open>raveil/array_program.py\<close>) or a \<^emph>\<open>flow\<close> of grids
  (\<open>raveil/mf01_flow.py\<close>) is planned as a sequence of \<^emph>\<open>grids\<close>. A grid source
  (\<open>raveil/mf01_grid.py\<close>) is lowered to signed-free nodes (\<open>raveil/mf01_numeric.py\<close>), cut into at
  most sixteen tiles (\<open>raveil/grid_kernel.py\<close>) and compiled to one \<^emph>\<open>DAG\<close> of region jobs per
  tile (\<open>raveil/fold_dag.py\<close>). A \<^emph>\<open>region\<close> (\<open>raveil/affine_fold.py\<close>) is an SSA map program with
  affine views and a fold; it is compiled to a configuration of 65 words, which the guest
  (\<open>contracts/src/affine_fold.c\<close>) checks and interprets on eight registers. Batches of DAGs
  (\<open>raveil/project_dag_batch.py\<close>) run one after the other, their outputs are assembled
  (\<open>raveil/grid_assembly.py\<close>), compared with an untiled reference
  (\<open>raveil/project_mf01_grid.py\<close>) and become the planes of the next pass
  (\<open>raveil/project_array.py\<close>) or stage (\<open>raveil/project_mf01_flow.py\<close>). Beside this stack stand
  the graph device (\<open>raveil/graph_device_dag.py\<close>, \<open>raveil/graph_device_schedule.py\<close>), the static
  region (\<open>raveil/static_region.py\<close>, \<open>raveil/simulation_adapter.py\<close>,
  \<open>raveil/riscv_stencil_signature.py\<close>), the command graphs (\<open>raveil/command_graph.py\<close>) and the
  telemetry journal (\<open>raveil/completion_telemetry.py\<close>).

  \<^bold>\<open>How it is modelled.\<close> JSON values are the datatype \<open>json\<close>, checked dictionaries become
  records, Python integers are \<open>int\<close>, the guest's integers are 32-bit and 64-bit words. Every
  function that can raise returns a sum whose left side is the exception; the payload of a
  \<open>ValueError\<close> is the constant part of its message. Objects with state (\<open>State\<close> of
  \<open>fold_dag.py\<close>, the planners, the journal, the executors) are records passed along. Code
  outside the repository or outside the deterministic core enters as an argument: SHA-256, the
  clock, the installed tools and their processes, the faults of QEMU and RTL sessions.

  \<^bold>\<open>Theories.\<close>

  \<^item> \<^emph>\<open>Raveil_Prelude\<close>: results, JSON values, dictionaries, Python indexing, decimal names,
    row-major lists; the collection \<open>res_simps\<close> inverts the error monad.

  \<^item> \<^emph>\<open>Mf01_Nodes\<close>, \<^emph>\<open>Affine_Fold\<close>, \<^emph>\<open>Region_Alloc\<close>, \<^emph>\<open>Fold_Machine\<close>,
    \<^emph>\<open>Region_Machine\<close>, \<^emph>\<open>Fold_Validate\<close>, \<^emph>\<open>Region_Correct\<close>: nodes, \<open>validate_config\<close>,
    \<open>compile_region\<close> with its register allocation, \<open>reference\<close>, and the C functions
    \<open>raveil_fold_validate\<close> and the interpreter. The allocator never misses a name or a register;
    the two admission checks agree; the compiled words run on the guest without undefined
    behaviour and compute the reference on all inputs.

  \<^item> \<^emph>\<open>Mf01_Numeric\<close>: \<open>lower\<close> and its equivalence with the signed operations modulo \<open>2 ^ 32\<close>.

  \<^item> \<^emph>\<open>Fold_Dag\<close>, \<^emph>\<open>Dag_Correct\<close>, \<^emph>\<open>Dag_Batch\<close>: \<open>validate\<close> of a DAG (\<open>compile_plan\<close>), the
    slots and versions of \<open>State\<close>, injected stale objects, batches. An admitted DAG delivers
    its meaning, no stale value is passed on, a slot is not reused while it is needed, and a
    batch publishes all outputs or none.

  \<^item> \<^emph>\<open>Grid_Kernel\<close>, \<^emph>\<open>Grid_Assembly\<close>, \<^emph>\<open>Mf01_Grid\<close>, \<^emph>\<open>Grid_Tiles\<close>, \<^emph>\<open>Grid_Run\<close>: grids,
    boundary modes, samples, tiles, \<open>source\<close>, \<open>compile\<close>, \<open>reference\<close> (\<open>grid_reference\<close>) and the run.
    Assembly succeeds exactly on partitions; the batch of an admitted source computes exactly
    the untiled reference.

  \<^item> \<^emph>\<open>Grid_Words\<close>: what the planners above rely on. Admission does not depend on the words of
    the inputs, the computed grid does not depend on the tile; the locale \<open>grid_backend\<close> states
    the interface of grid runs and is interpreted (\<open>mf01\<close>) by \<open>compile\<close>, \<open>grid_reference\<close> and
    \<open>grid_run\<close>.

  \<^item> \<^emph>\<open>Grid_Plan\<close>, \<^emph>\<open>Stage_Order\<close>, \<^emph>\<open>Mf01_Flow\<close>, \<^emph>\<open>Flow_Correct\<close>, \<^emph>\<open>Flow_Plan\<close>: the tile search
    (\<open>raveil/mf01_grid_plan.py\<close>), the scheduling loop of stages, flows with their links, and the
    tile advice for flows (\<open>raveil/mf01_flow_plan.py\<close>). The search is exact; a run of an admitted
    flow publishes its reference or nothing; advice never fails on an admitted flow, never
    costs more and never changes a result.

  \<^item> \<^emph>\<open>Array_Program\<close>, \<^emph>\<open>Array_Pass\<close>, \<^emph>\<open>Array_Stages\<close>, \<^emph>\<open>Array_Emission\<close>, \<^emph>\<open>Array_Correct\<close>: array
    programs of the first schema. Passes are admitted with zero planes, planes are released
    after their last use, and the run publishes what the whole-source interpreter computes.

  \<^item> \<^emph>\<open>Graph_Descriptor\<close>, \<^emph>\<open>Graph_Schedule\<close>, \<^emph>\<open>Graph_Program\<close>, \<^emph>\<open>Graph_Fallback\<close>,
    \<^emph>\<open>Graph_Alloc\<close>, \<^emph>\<open>Graph_Correct\<close>, \<^emph>\<open>Graph_Traffic\<close>: descriptors, the stable topological
    schedule, the compiler to at most sixteen instructions, the lowering trace and its checker,
    the oracle, the fallback and the expected transactions. The register allocation is the
    inductive relation \<open>arun\<close>; the compiler, the trace checker and the fallback are compared
    with it by rule induction. Every load and store of the oracle stays in its window; the
    inputs on which admission raises \<open>TypeError\<close> are characterised. One bound of the admission is too weak by one word
    (\<open>affine_window_gap\<close>).

  \<^item> \<^emph>\<open>Static_Region\<close>, \<^emph>\<open>Static_Correct\<close>, \<^emph>\<open>Simulation_Adapter\<close>, \<^emph>\<open>Schedule_Trace\<close>: the one static
    descriptor, its validator with the exceptions it can raise, its oracle, the observations of the implementations, the generated
    schedule, the trace parser, the comparison of traces and the signature check.

  \<^item> \<^emph>\<open>Command_Program\<close>, \<^emph>\<open>Command_Roundtrip\<close>, \<^emph>\<open>Command_Compile\<close>, \<^emph>\<open>Command_Paths\<close>,
    \<^emph>\<open>Command_Check\<close>: programs and their dictionaries, the path rules of the tools, the compiler
    from shell tokens, the tool registry (locale \<open>tool_registry\<close>) and the admission before
    execution. A compiled program is admitted whatever the current directory is.

  \<^item> \<^emph>\<open>Command_Exec\<close>, \<^emph>\<open>Command_Order\<close>, \<^emph>\<open>Command_Node\<close>: the graph and the source-order executor on
    any kind of stage, the exchange of nodes that touch different places, and \<open>_run_node\<close> on a
    stage of directories and files. Both executors execute the nodes one after another, in an
    order that respects the dependencies; each returns an outcome for every node or raises what
    a node raised, except for a node that streams from nothing, which is admitted and raises
    \<open>IndexError\<close>. They agree when nodes that do not wait for one another touch different places
    and the output of the tools does not show the stage directory. After a sequence a fan-out
    loses its order (\<open>fanout_after_sequence_differs\<close>), and \<open>pwd\<close>, which shows the directory, never
    agrees (\<open>pwd_never_agrees\<close>). The processes of the tools, the codec and the hash are arguments;
    the nodes of a batch run one by one, as the thread pool runs them with one worker.

  \<^item> \<^emph>\<open>Completion_Telemetry\<close>, \<^emph>\<open>Telemetry_Correct\<close>: frames in a log and the hash-chained journal.
    Ingestion keeps the journal loadable, is idempotent, and the last hash pins the journal
    unless two texts collide.

  \<^bold>\<open>Bounds and termination.\<close> No definition takes fuel. Loops are structural or folds over the
  lists the code iterates over; the scheduling loops (\<open>stage_loop\<close>, \<open>schedule_loop\<close>), the
  executor loops, the search for fresh names, the acyclicity check \<open>kahn\<close> and the splitting of
  text into lines and words have termination proofs with measures. Where the code can stop with an
  error the theorems say so: a result is claimed to exist, not only to be right when it exists.
  The limits of the code (64 by 64 cells, 16 tiles, 324 packed words, 128 words per slot, 16
  sessions and 128 jobs of a flow, 128 passes and sessions of an array) are its own checks.

  \<^bold>\<open>Not modelled.\<close> Fusion of the second array schema (\<open>raveil/array_fusion.py\<close>). Files,
  captures, inventories, hashes and records of the project modules (\<open>raveil/project*.py\<close> apart
  from the loops named above). The sessions with QEMU and RTL processes (\<open>raveil/fold_session.py\<close>,
  \<open>raveil/fold_chain.py\<close>, \<open>raveil/fold_bridge.py\<close>): the guest they talk to is modelled, their
  faults are arguments. Board, build and transport modules of the graph device. Experience,
  policies and benchmarks, which compute with floating point and measured times. The campaign
  modules (\<open>raveil/t0044_*.py\<close>), the command line, the shell and the scripts: process and file
  handling around the modelled functions.
\<close>

end
